(* ===== verification/Prelude.thy ===== *)
theory Prelude
  imports Main "HOL-Library.Sublist"
begin

text \<open>
  What every component shares: the types that stand for Go's basic types, the rule
  collections the component proofs draw on, and generic facts on lists.

  A Go \<open>string\<close> is an immutable sequence of bytes; it is modelled as \<open>string\<close> (a list of
  \<open>char\<close>, which are exactly the bytes), so \<open>len\<close> is \<open>length\<close> and slicing is \<open>take\<close>/\<open>drop\<close>.
  A rune is a \<open>nat\<close>. A function that reports absence by \<open>-1\<close> returns \<open>None\<close>. A Go panic is a
  value: \<open>None\<close> of a result type \<open>'a panics\<close>.
\<close>

type_synonym rune = nat

type_synonym 'a panics = "'a option"

named_theorems go_str "characterisations of Go's string functions by concatenation"
named_theorems go_bounds "bounds on indices and lengths"

text \<open>The number Go's byte type sees in a character.\<close>

abbreviation byte :: "char \<Rightarrow> nat" where
  "byte c \<equiv> of_char c"

lemma byte_less [go_bounds]: "byte c < 256"
  by (metis of_char_mod_256 mod_less_divisor zero_less_numeral)

lemma byte_inj: "byte c = byte d \<longleftrightarrow> c = d"
  by simp

lemma char_of_byte: "char_of (byte c) = c"
  by simp

lemma byte_char_of: "n < 256 \<Longrightarrow> byte (char_of n) = n"
  by (simp add: of_char_of)

text \<open>Facts on lists.\<close>

lemma drop_eq_append_iff:
  "n \<le> length s \<Longrightarrow> drop n s = t \<longleftrightarrow> (\<exists>p. s = p @ t \<and> length p = n)"
  by (metis append_eq_conv_conj append_take_drop_id length_take min.absorb2)

lemma take_eq_prefix_iff: "take (length p) s = p \<longleftrightarrow> (\<exists>t. s = p @ t)"
  by (metis append_eq_conv_conj append_take_drop_id)

lemma butlast_last_decomp: "xs \<noteq> [] \<Longrightarrow> \<exists>ys y. xs = ys @ [y]"
  by (metis append_butlast_last_id)

lemma find_SomeD: "List.find P xs = Some x \<Longrightarrow> P x \<and> x \<in> set xs"
  by (induction xs) (auto split: if_splits)

lemma list_two_cases:
  obtains (Nil) "xs = []" | (One) x where "xs = [x]" | (More) x y zs where "xs = x # y # zs"
  by (metis list.exhaust)

lemma distinct_snoc: "distinct (xs @ [x]) \<longleftrightarrow> distinct xs \<and> x \<notin> set xs"
  by auto

end
