(* ===== verification/GoStrings.thy ===== *)
theory GoStrings
  imports Prelude
begin

text \<open>
  The functions of Go's packages \<open>strings\<close> and \<open>unicode/utf8\<close> that the modelled code calls,
  over byte strings, with the laws the components use. They are the language's standard
  library, so they are not mapped to source lines of the repository.
\<close>

section \<open>Package strings\<close>

definition HasPrefix :: "string \<Rightarrow> string \<Rightarrow> bool" where
  "HasPrefix s p \<longleftrightarrow> take (length p) s = p"

definition HasSuffix :: "string \<Rightarrow> string \<Rightarrow> bool" where
  "HasSuffix s p \<longleftrightarrow> length p \<le> length s \<and> drop (length s - length p) s = p"

fun str_index :: "string \<Rightarrow> string \<Rightarrow> nat option" where
  "str_index [] t = (if t = [] then Some 0 else None)"
| "str_index (c # s) t =
     (if HasPrefix (c # s) t then Some 0 else map_option Suc (str_index s t))"

fun str_last_index :: "string \<Rightarrow> string \<Rightarrow> nat option" where
  "str_last_index [] t = (if t = [] then Some 0 else None)"
| "str_last_index (c # s) t =
     (case str_last_index s t of
        Some i \<Rightarrow> Some (Suc i)
      | None \<Rightarrow> if HasPrefix (c # s) t then Some 0 else None)"

fun index_byte :: "string \<Rightarrow> char \<Rightarrow> nat option" where
  "index_byte [] d = None"
| "index_byte (c # s) d = (if c = d then Some 0 else map_option Suc (index_byte s d))"

fun last_index_byte :: "string \<Rightarrow> char \<Rightarrow> nat option" where
  "last_index_byte [] d = None"
| "last_index_byte (c # s) d =
     (case last_index_byte s d of
        Some i \<Rightarrow> Some (Suc i)
      | None \<Rightarrow> if c = d then Some 0 else None)"

definition str_contains :: "string \<Rightarrow> string \<Rightarrow> bool" where
  "str_contains s t \<longleftrightarrow> str_index s t \<noteq> None"

definition TrimPrefix :: "string \<Rightarrow> string \<Rightarrow> string" where
  "TrimPrefix s p = (if HasPrefix s p then drop (length p) s else s)"

definition TrimSuffix :: "string \<Rightarrow> string \<Rightarrow> string" where
  "TrimSuffix s p = (if HasSuffix s p then take (length s - length p) s else s)"

definition CutPrefix :: "string \<Rightarrow> string \<Rightarrow> string \<times> bool" where
  "CutPrefix s p = (if HasPrefix s p then (drop (length p) s, True) else (s, False))"

text \<open>\<open>strings.Cut(s, sep)\<close>: the text before and after the first separator.\<close>

definition str_cut :: "string \<Rightarrow> string \<Rightarrow> string \<times> string \<times> bool" where
  "str_cut s sep =
     (case str_index s sep of
        Some i \<Rightarrow> (take i s, drop (i + length sep) s, True)
      | None \<Rightarrow> (s, [], False))"

text \<open>\<open>strings.Split(s, sep)\<close> for a separator of one byte.\<close>

fun split_byte :: "char \<Rightarrow> string \<Rightarrow> string list" where
  "split_byte d [] = [[]]"
| "split_byte d (c # s) =
     (if c = d then [] # split_byte d s
      else (case split_byte d s of [] \<Rightarrow> [[c]] | w # ws \<Rightarrow> (c # w) # ws))"

fun str_join :: "string list \<Rightarrow> string \<Rightarrow> string" where
  "str_join [] sep = []"
| "str_join [w] sep = w"
| "str_join (w # v # ws) sep = w @ sep @ str_join (v # ws) sep"

text \<open>\<open>strings.ReplaceAll(s, old, new)\<close> for a non-empty \<open>old\<close>: left to right, not overlapping.\<close>

function replace_all :: "string \<Rightarrow> string \<Rightarrow> string \<Rightarrow> string" where
  "replace_all [] old new = []"
| "replace_all (c # s) old new =
     (if old \<noteq> [] \<and> HasPrefix (c # s) old
      then new @ replace_all (drop (length old) (c # s)) old new
      else c # replace_all s old new)"
  by pat_completeness auto
termination
  by (relation "measure (\<lambda>(s, old, new). length s)") auto

definition replace_byte :: "char \<Rightarrow> char \<Rightarrow> string \<Rightarrow> string" where
  "replace_byte a b s = map (\<lambda>c. if c = a then b else c) s"

definition count_byte :: "char \<Rightarrow> string \<Rightarrow> nat" where
  "count_byte d s = length (filter (\<lambda>c. c = d) s)"

text \<open>\<open>strings.Compare\<close> and \<open><\<close> on strings: lexicographic on the bytes.\<close>

fun str_less :: "string \<Rightarrow> string \<Rightarrow> bool" where
  "str_less _ [] = False"
| "str_less [] (_ # _) = True"
| "str_less (c # s) (d # t) = (byte c < byte d \<or> c = d \<and> str_less s t)"

definition str_compare :: "string \<Rightarrow> string \<Rightarrow> int" where
  "str_compare s t = (if s = t then 0 else if str_less s t then -1 else 1)"

lemma HasPrefix_iff [go_str]: "HasPrefix s p \<longleftrightarrow> (\<exists>t. s = p @ t)"
  by (simp add: HasPrefix_def take_eq_prefix_iff)

lemma HasSuffix_iff [go_str]: "HasSuffix s p \<longleftrightarrow> (\<exists>t. s = t @ p)"
  unfolding HasSuffix_def by (metis append_eq_conv_conj append_take_drop_id diff_diff_cancel
      diff_le_self length_append length_drop le_add2 add_diff_cancel_right')

lemma HasSuffix_trans: "HasSuffix s t \<Longrightarrow> HasSuffix t u \<Longrightarrow> HasSuffix s u"
  by (auto simp: HasSuffix_iff)

lemma HasPrefix_Nil [simp]: "HasPrefix s []"
  by (simp add: HasPrefix_def)

lemma HasSuffix_Nil [simp]: "HasSuffix s []"
  by (simp add: HasSuffix_def)

lemma HasPrefix_append [simp]: "HasPrefix (p @ t) p"
  by (simp add: HasPrefix_def)

lemma HasSuffix_append [simp]: "HasSuffix (t @ p) p"
  by (simp add: HasSuffix_def)

lemma HasPrefix_Cons [simp]:
  "HasPrefix (c # s) (d # p) \<longleftrightarrow> c = d \<and> HasPrefix s p"
  by (auto simp: HasPrefix_def)

lemma HasPrefix_Nil_Cons [simp]: "\<not> HasPrefix [] (d # p)"
  by (simp add: HasPrefix_def)

lemma HasPrefix_length [go_bounds]: "HasPrefix s p \<Longrightarrow> length p \<le> length s"
  by (auto simp: HasPrefix_iff)

lemma HasSuffix_length [go_bounds]: "HasSuffix s p \<Longrightarrow> length p \<le> length s"
  by (simp add: HasSuffix_def)

lemma HasSuffix_rev: "HasSuffix s p \<longleftrightarrow> HasPrefix (rev s) (rev p)"
  by (auto simp: HasSuffix_iff HasPrefix_iff) (metis rev_append rev_rev_ident)

text \<open>Indices: the first and the last occurrence.\<close>

lemma str_index_SomeD:
  "str_index s t = Some i \<Longrightarrow>
     HasPrefix (drop i s) t \<and> i + length t \<le> length s \<and> (\<forall>j<i. \<not> HasPrefix (drop j s) t)"
proof (induction s arbitrary: i)
  case Nil
  then show ?case by (auto split: if_splits)
next
  case (Cons c s)
  show ?case
  proof (cases "HasPrefix (c # s) t")
    case True
    with Cons.prems have "i = 0" by simp
    with True HasPrefix_length show ?thesis by fastforce
  next
    case False
    with Cons.prems obtain k where k: "str_index s t = Some k" "i = Suc k" by auto
    have "\<not> HasPrefix (drop j (c # s)) t" if "j < i" for j
      using that Cons.IH [OF k(1)] k(2) False by (cases j) auto
    with Cons.IH [OF k(1)] k(2) show ?thesis by auto
  qed
qed

lemma str_index_None_iff: "str_index s t = None \<longleftrightarrow> (\<forall>p q. s \<noteq> p @ t @ q)"
proof (induction s)
  case Nil
  then show ?case by auto
next
  case (Cons c s)
  show ?case
  proof (cases "HasPrefix (c # s) t")
    case True
    then obtain q where "c # s = [] @ t @ q" by (auto simp: HasPrefix_iff)
    with True show ?thesis by (metis option.distinct(1) str_index.simps(2))
  next
    case False
    have "(\<forall>p q. c # s \<noteq> p @ t @ q) \<longleftrightarrow> (\<forall>p q. s \<noteq> p @ t @ q)"
    proof
      assume all: "\<forall>p q. s \<noteq> p @ t @ q"
      show "\<forall>p q. c # s \<noteq> p @ t @ q"
      proof (intro allI notI)
        fix p q
        assume eq: "c # s = p @ t @ q"
        with False have "p \<noteq> []" by (auto simp: HasPrefix_iff)
        with eq obtain p' where "s = p' @ t @ q" by (cases p) auto
        with all show False by blast
      qed
    qed (metis append_Cons)
    with False Cons.IH show ?thesis by simp
  qed
qed

lemma str_contains_iff [go_str]: "str_contains s t \<longleftrightarrow> (\<exists>p q. s = p @ t @ q)"
  using str_index_None_iff by (auto simp: str_contains_def)

lemma index_byte_SomeD:
  "index_byte s d = Some i \<Longrightarrow> i < length s \<and> s ! i = d \<and> d \<notin> set (take i s)"
  by (induction s arbitrary: i) (auto split: if_splits)

lemma index_byte_None_iff: "index_byte s d = None \<longleftrightarrow> d \<notin> set s"
  by (induction s) auto

lemma str_index_byte: "str_index s [d] = index_byte s d"
  by (induction s) auto

lemma last_index_byte_SomeD:
  "last_index_byte s d = Some i \<Longrightarrow> i < length s \<and> s ! i = d \<and> d \<notin> set (drop (Suc i) s)"
proof (induction s arbitrary: i)
  case Nil
  then show ?case by simp
next
  case (Cons c s)
  then show ?case
  proof (cases "last_index_byte s d")
    case None
    then have "d \<notin> set s"
      by (induction s) (auto split: option.splits)
    with None Cons.prems show ?thesis by (auto split: if_splits)
  qed auto
qed

lemma last_index_byte_None_iff: "last_index_byte s d = None \<longleftrightarrow> d \<notin> set s"
  by (induction s) (auto split: option.splits)

lemma str_last_index_byte: "str_last_index s [d] = last_index_byte s d"
  by (induction s) (auto split: option.splits)

lemma index_byte_less [go_bounds]: "index_byte s d = Some i \<Longrightarrow> i < length s"
  by (simp add: index_byte_SomeD)

lemma last_index_byte_less [go_bounds]: "last_index_byte s d = Some i \<Longrightarrow> i < length s"
  by (simp add: last_index_byte_SomeD)

lemma last_index_byte_append:
  "last_index_byte (s @ t) d =
     (case last_index_byte t d of Some i \<Rightarrow> Some (length s + i) | None \<Rightarrow> last_index_byte s d)"
  by (induction s) (auto split: option.splits)

text \<open>Splitting and joining.\<close>

lemma split_byte_not_Nil [simp]: "split_byte d s \<noteq> []"
  by (induction s) (auto split: list.splits)

lemma split_byte_no_sep: "w \<in> set (split_byte d s) \<Longrightarrow> d \<notin> set w"
  by (induction s arbitrary: w) (auto split: list.splits if_splits)

lemma str_join_Cons: "ws \<noteq> [] \<Longrightarrow> str_join (w # ws) sep = w @ sep @ str_join ws sep"
  by (cases ws) auto

lemma set_str_join: "w \<in> set ws \<Longrightarrow> set w \<subseteq> set (str_join ws sep)"
proof (induction ws)
  case (Cons v ws)
  then show ?case by (cases "ws = []") (auto simp: str_join_Cons)
qed simp

lemma str_join_append:
  "xs \<noteq> [] \<Longrightarrow> ys \<noteq> [] \<Longrightarrow> str_join (xs @ ys) sep = str_join xs sep @ sep @ str_join ys sep"
proof (induction xs)
  case (Cons x xs)
  then show ?case by (cases "xs = []") (simp_all add: str_join_Cons)
qed simp

lemma str_join_split [simp]: "str_join (split_byte d s) [d] = s"
proof (induction s)
  case Nil
  then show ?case by simp
next
  case (Cons c s)
  obtain w ws where ws: "split_byte d s = w # ws"
    by (metis neq_Nil_conv split_byte_not_Nil)
  with Cons.IH show ?case by (cases ws) auto
qed

lemma split_byte_no_occ: "d \<notin> set s \<Longrightarrow> split_byte d s = [s]"
  by (induction s) auto

lemma split_byte_append_sep:
  "split_byte d (s @ d # t) = split_byte d s @ split_byte d t"
proof (induction s)
  case Nil
  then show ?case by simp
next
  case (Cons c s)
  obtain w ws where "split_byte d s = w # ws"
    by (metis neq_Nil_conv split_byte_not_Nil)
  with Cons.IH show ?case by simp
qed

lemma split_byte_join:
  "ws \<noteq> [] \<Longrightarrow> \<forall>w\<in>set ws. d \<notin> set w \<Longrightarrow> split_byte d (str_join ws [d]) = ws"
proof (induction ws)
  case Nil
  then show ?case by simp
next
  case (Cons w ws)
  then show ?case
    by (cases "ws = []") (simp_all add: split_byte_no_occ str_join_Cons split_byte_append_sep)
qed

lemma replace_byte_idem [simp]: "a \<noteq> b \<Longrightarrow> replace_byte a b (replace_byte a b s) = replace_byte a b s"
  by (auto simp: replace_byte_def)

lemma length_replace_byte [simp]: "length (replace_byte a b s) = length s"
  by (simp add: replace_byte_def)

lemma set_replace_byte: "a \<noteq> b \<Longrightarrow> a \<notin> set (replace_byte a b s)"
  by (auto simp: replace_byte_def)

lemma replace_byte_id: "a \<notin> set s \<Longrightarrow> replace_byte a b s = s"
  by (induction s) (auto simp: replace_byte_def)

lemma replace_byte_append [simp]:
  "replace_byte a b (s @ t) = replace_byte a b s @ replace_byte a b t"
  by (simp add: replace_byte_def)

text \<open>The order on strings is linear.\<close>

lemma str_less_Nil_left [simp]: "str_less [] t \<longleftrightarrow> t \<noteq> []"
  by (cases t) auto

lemma str_less_irrefl [simp]: "\<not> str_less s s"
  by (induction s) auto

lemma str_less_trans: "str_less s t \<Longrightarrow> str_less t u \<Longrightarrow> str_less s u"
proof (induction s t arbitrary: u rule: str_less.induct)
  case (2 d t)
  then show ?case by (cases u) auto
next
  case (3 c s d t)
  then show ?case by (cases u) auto
qed simp

lemma str_less_linear: "str_less s t \<or> s = t \<or> str_less t s"
  by (induction s t rule: str_less.induct) (auto simp: not_less_iff_gr_or_eq)

lemma str_less_antisym: "str_less s t \<Longrightarrow> \<not> str_less t s"
  using str_less_trans str_less_irrefl by blast

end
