(* ===== verification/GoUnicode.thy ===== *)
theory GoUnicode
  imports GoStrings
begin

text \<open>
  Go's packages \<open>unicode/utf8\<close>, \<open>unicode/utf16\<close> and the parts of \<open>unicode\<close> and \<open>strings\<close>
  that depend on them. Encoding and decoding are written out; the Unicode tables for
  runes outside ASCII (simple case folding and lower-casing) are the parameter
  \<open>unicode_tables\<close> of the functions that look them up.
\<close>

abbreviation RuneError :: rune where
  "RuneError \<equiv> 0xFFFD"

definition is_cont :: "char \<Rightarrow> bool" where
  "is_cont c \<longleftrightarrow> 0x80 \<le> byte c \<and> byte c \<le> 0xBF"

definition decode2 :: "nat \<Rightarrow> string \<Rightarrow> rune \<times> nat" where
  "decode2 b0 s =
     (case s of
        c1 # _ \<Rightarrow> if is_cont c1 then ((b0 - 0xC0) * 64 + (byte c1 - 0x80), 2) else (RuneError, 1)
      | _ \<Rightarrow> (RuneError, 1))"

definition decode3 :: "nat \<Rightarrow> string \<Rightarrow> rune \<times> nat" where
  "decode3 b0 s =
     (case s of
        c1 # c2 # _ \<Rightarrow>
          if (if b0 = 0xE0 then 0xA0 else 0x80) \<le> byte c1
             \<and> byte c1 \<le> (if b0 = 0xED then 0x9F else 0xBF) \<and> is_cont c2
          then ((b0 - 0xE0) * 4096 + (byte c1 - 0x80) * 64 + (byte c2 - 0x80), 3)
          else (RuneError, 1)
      | _ \<Rightarrow> (RuneError, 1))"

definition decode4 :: "nat \<Rightarrow> string \<Rightarrow> rune \<times> nat" where
  "decode4 b0 s =
     (case s of
        c1 # c2 # c3 # _ \<Rightarrow>
          if (if b0 = 0xF0 then 0x90 else 0x80) \<le> byte c1
             \<and> byte c1 \<le> (if b0 = 0xF4 then 0x8F else 0xBF) \<and> is_cont c2 \<and> is_cont c3
          then ((b0 - 0xF0) * 262144 + (byte c1 - 0x80) * 4096
                + (byte c2 - 0x80) * 64 + (byte c3 - 0x80), 4)
          else (RuneError, 1)
      | _ \<Rightarrow> (RuneError, 1))"

text \<open>\<open>utf8.DecodeRuneInString\<close>: the first rune and its width; an invalid byte is
  \<open>RuneError\<close> of width 1, the empty string \<open>RuneError\<close> of width 0.\<close>

fun decode_rune :: "string \<Rightarrow> rune \<times> nat" where
  "decode_rune [] = (RuneError, 0)"
| "decode_rune (c # s) =
     (let b0 = byte c in
      if b0 < 0x80 then (b0, 1)
      else if 0xC2 \<le> b0 \<and> b0 \<le> 0xDF then decode2 b0 s
      else if 0xE0 \<le> b0 \<and> b0 \<le> 0xEF then decode3 b0 s
      else if 0xF0 \<le> b0 \<and> b0 \<le> 0xF4 then decode4 b0 s
      else (RuneError, 1))"

definition is_surrogate :: "rune \<Rightarrow> bool" where
  "is_surrogate r \<longleftrightarrow> 0xD800 \<le> r \<and> r < 0xE000"

definition valid_rune :: "rune \<Rightarrow> bool" where
  "valid_rune r \<longleftrightarrow> r \<le> 0x10FFFF \<and> \<not> is_surrogate r"

definition encode3 :: "rune \<Rightarrow> string" where
  "encode3 r = [char_of (0xE0 + r div 4096), char_of (0x80 + r div 64 mod 64), char_of (0x80 + r mod 64)]"

text \<open>\<open>string(rune)\<close> and \<open>WriteRune\<close>: an invalid rune is written as \<open>RuneError\<close>.\<close>

definition encode_rune :: "rune \<Rightarrow> string" where
  "encode_rune r =
     (if r < 0x80 then [char_of r]
      else if r < 0x800 then [char_of (0xC0 + r div 64), char_of (0x80 + r mod 64)]
      else if \<not> valid_rune r then encode3 RuneError
      else if r < 0x10000 then encode3 r
      else [char_of (0xF0 + r div 262144), char_of (0x80 + r div 4096 mod 64),
            char_of (0x80 + r div 64 mod 64), char_of (0x80 + r mod 64)])"

lemma decode_rune_size_le [go_bounds]: "snd (decode_rune s) \<le> length s"
  by (cases s)
    (auto simp: decode2_def decode3_def decode4_def Let_def split: list.splits)

lemma decode_rune_size_pos: "s \<noteq> [] \<Longrightarrow> 0 < snd (decode_rune s)"
  by (cases s)
    (auto simp: decode2_def decode3_def decode4_def Let_def split: list.splits)

lemma decode_rune_size_0 [simp]: "snd (decode_rune s) = 0 \<longleftrightarrow> s = []"
  using decode_rune_size_pos by fastforce

text \<open>The runes of a string, as \<open>for _, r := range s\<close> visits them.\<close>

function runes :: "string \<Rightarrow> rune list" where
  "runes s = (if s = [] then [] else fst (decode_rune s) # runes (drop (snd (decode_rune s)) s))"
  by pat_completeness auto
termination
  by (relation "measure length") (auto simp: decode_rune_size_pos)

declare runes.simps [simp del]

lemma runes_Nil [simp]: "runes [] = []"
  by (simp add: runes.simps)

lemma runes_unfold:
  "s \<noteq> [] \<Longrightarrow> runes s = fst (decode_rune s) # runes (drop (snd (decode_rune s)) s)"
  by (subst runes.simps) simp

lemma decode_ascii: "byte c < 128 \<Longrightarrow> decode_rune (c # s) = (byte c, 1)"
  by simp

text \<open>Decoding what was encoded gives the rune back, whatever follows.\<close>

lemma byte_char_of_add: "n < 256 \<Longrightarrow> byte (char_of n) = n"
  by (rule byte_char_of)

lemma is_cont_char_of [simp]: "(n::nat) < 64 \<Longrightarrow> is_cont (char_of (0x80 + n))"
  by (simp add: is_cont_def byte_char_of)

lemma nat_digits3: "(n::nat) div 4096 * 4096 + n div 64 mod 64 * 64 + n mod 64 = n"
proof -
  have "n div 64 div 64 = n div 4096" by (simp add: div_mult2_eq [symmetric])
  then have "n div 64 = n div 4096 * 64 + n div 64 mod 64"
    by (metis div_mult_mod_eq)
  then have "n = (n div 4096 * 64 + n div 64 mod 64) * 64 + n mod 64"
    by (metis div_mult_mod_eq)
  then show ?thesis by (simp add: algebra_simps)
qed

lemma nat_digits4:
  "(n::nat) div 262144 * 262144 + n div 4096 mod 64 * 4096 + n div 64 mod 64 * 64 + n mod 64 = n"
proof -
  have "n div 4096 div 64 = n div 262144" by (simp add: div_mult2_eq [symmetric])
  then have "n div 4096 = n div 262144 * 64 + n div 4096 mod 64"
    by (metis div_mult_mod_eq)
  with nat_digits3 [of n] show ?thesis by (simp add: algebra_simps)
qed

lemma decode_bytes3:
  assumes "(a::nat) < 16" "b < 64" "c < 64" "a = 0 \<Longrightarrow> 32 \<le> b" "a = 13 \<Longrightarrow> b < 32"
  shows "decode_rune (char_of (0xE0 + a) # char_of (0x80 + b) # char_of (0x80 + c) # s)
       = (a * 4096 + b * 64 + c, 3)"
proof -
  have v: "byte (char_of (0xE0 + a)) = 0xE0 + a" "byte (char_of (0x80 + b)) = 0x80 + b"
    "byte (char_of (0x80 + c)) = 0x80 + c"
    using assms(1-3) by (simp_all add: byte_char_of)
  show ?thesis using assms by (auto simp: decode3_def Let_def v is_cont_def)
qed

lemma decode_bytes4:
  assumes "(a::nat) \<le> 4" "b < 64" "c < 64" "d < 64" "a = 0 \<Longrightarrow> 16 \<le> b" "a = 4 \<Longrightarrow> b < 16"
  shows "decode_rune (char_of (0xF0 + a) # char_of (0x80 + b) # char_of (0x80 + c)
           # char_of (0x80 + d) # s) = (a * 262144 + b * 4096 + c * 64 + d, 4)"
proof -
  have v: "byte (char_of (0xF0 + a)) = 0xF0 + a" "byte (char_of (0x80 + b)) = 0x80 + b"
    "byte (char_of (0x80 + c)) = 0x80 + c" "byte (char_of (0x80 + d)) = 0x80 + d"
    using assms(1-4) by (simp_all add: byte_char_of)
  show ?thesis using assms by (auto simp: decode4_def Let_def v is_cont_def)
qed

lemma decode_encode_rune:
  assumes "valid_rune r"
  shows "decode_rune (encode_rune r @ s) = (r, length (encode_rune r))"
proof -
  have r: "r \<le> 0x10FFFF" "\<not> is_surrogate r" using assms by (auto simp: valid_rune_def)
  consider "r < 0x80" | "0x80 \<le> r" "r < 0x800" | "0x800 \<le> r" "r < 0x10000" | "0x10000 \<le> r"
    by linarith
  then show ?thesis
  proof cases
    case 1
    then show ?thesis by (simp add: encode_rune_def byte_char_of)
  next
    case 2
    then have "r div 64 < 32" "2 \<le> r div 64" by auto
    with 2 show ?thesis
      by (auto simp: encode_rune_def byte_char_of decode2_def Let_def is_cont_def)
  next
    case 3
    have "r div 64 mod 64 < 32" if "r div 4096 = 13"
    proof -
      define k where "k = r mod 4096"
      have k: "r = 13 * 4096 + k" "k < 4096"
        using div_mult_mod_eq [of r 4096] that by (auto simp: k_def)
      with r(2) have "k div 64 < 32" by (auto simp: is_surrogate_def)
      then have "(13 * 64 + k div 64) mod 64 < 32" by (simp only: mod_mult_self3 mod_less)
      moreover have "r div 64 = 13 * 64 + k div 64" using k by simp
      ultimately show ?thesis by simp
    qed
    moreover have "r div 4096 = 0 \<Longrightarrow> 32 \<le> r div 64 mod 64" using 3 by auto
    moreover have "r div 4096 < 16" using 3 by auto
    ultimately show ?thesis
      using 3 assms decode_bytes3 [of "r div 4096" "r div 64 mod 64" "r mod 64" s]
      by (simp add: encode_rune_def encode3_def nat_digits3 numeral_3_eq_3 del: decode_rune.simps)
  next
    case 4
    have "r div 262144 \<le> 4" using r by auto
    moreover have "r div 262144 = 0 \<Longrightarrow> 16 \<le> r div 4096 mod 64" using 4 by auto
    moreover have "r div 4096 mod 64 < 16" if "r div 262144 = 4"
    proof -
      define k where "k = r mod 262144"
      have k: "r = 4 * 262144 + k" using div_mult_mod_eq [of r 262144] that by (simp add: k_def)
      with r(1) have "k div 4096 < 16" by auto
      then have "(4 * 64 + k div 4096) mod 64 < 16" by (simp only: mod_mult_self3 mod_less)
      moreover have "r div 4096 = 4 * 64 + k div 4096" using k by simp
      ultimately show ?thesis by simp
    qed
    ultimately show ?thesis
      using 4 assms
        decode_bytes4 [of "r div 262144" "r div 4096 mod 64" "r div 64 mod 64" "r mod 64" s]
      by (simp add: encode_rune_def nat_digits4 numeral_3_eq_3 del: decode_rune.simps)
  qed
qed

lemma encode_rune_not_Nil [simp]: "encode_rune r \<noteq> []"
  by (simp add: encode_rune_def encode3_def)

section \<open>Package utf16\<close>

text \<open>\<open>utf16.DecodeRune\<close> and \<open>utf16.EncodeRune\<close>.\<close>

definition utf16_decode :: "rune \<Rightarrow> rune \<Rightarrow> rune" where
  "utf16_decode h l =
     (if 0xD800 \<le> h \<and> h < 0xDC00 \<and> 0xDC00 \<le> l \<and> l < 0xE000
      then (h - 0xD800) * 1024 + (l - 0xDC00) + 0x10000 else RuneError)"

definition utf16_encode :: "rune \<Rightarrow> rune \<times> rune" where
  "utf16_encode r =
     (if r < 0x10000 \<or> 0x10FFFF < r then (RuneError, RuneError)
      else (0xD800 + (r - 0x10000) div 1024 mod 1024, 0xDC00 + (r - 0x10000) mod 1024))"

lemma utf16_decode_encode:
  assumes "0x10000 \<le> r" "r \<le> 0x10FFFF"
  shows "utf16_decode (fst (utf16_encode r)) (snd (utf16_encode r)) = r"
proof -
  have "(r - 0x10000) div 1024 < 1024" using assms by auto
  then have "(r - 0x10000) div 1024 mod 1024 = (r - 0x10000) div 1024" by simp
  moreover have "(r - 0x10000) mod 1024 < 1024" by simp
  ultimately show ?thesis using assms
    by (auto simp: utf16_decode_def utf16_encode_def algebra_simps)
qed

lemma utf16_encode_surrogates:
  assumes "0x10000 \<le> r" "r \<le> 0x10FFFF"
  shows "0xD800 \<le> fst (utf16_encode r) \<and> fst (utf16_encode r) < 0xDC00
       \<and> 0xDC00 \<le> snd (utf16_encode r) \<and> snd (utf16_encode r) < 0xE000"
proof -
  have "(r - 0x10000) div 1024 mod 1024 < 1024" "(r - 0x10000) mod 1024 < 1024" by auto
  with assms show ?thesis by (auto simp: utf16_encode_def)
qed

section \<open>Case folding and spaces\<close>

text \<open>
  The Unicode tables: \<open>fold_class\<close> gives one representative of a rune's orbit under
  \<open>unicode.SimpleFold\<close>, \<open>lower_table\<close> is \<open>unicode.ToLower\<close> outside ASCII.
\<close>

record unicode_tables =
  fold_class :: "rune \<Rightarrow> rune"
  lower_table :: "rune \<Rightarrow> rune"

definition rune_lower :: "unicode_tables \<Rightarrow> rune \<Rightarrow> rune" where
  "rune_lower U r = (if r < 128 then (if 65 \<le> r \<and> r \<le> 90 then r + 32 else r) else lower_table U r)"

text \<open>\<open>strings.EqualFold\<close>: rune by rune, equal when in the same orbit.\<close>

definition EqualFold :: "unicode_tables \<Rightarrow> string \<Rightarrow> string \<Rightarrow> bool" where
  "EqualFold U s t \<longleftrightarrow> map (fold_class U) (runes s) = map (fold_class U) (runes t)"

text \<open>\<open>strings.Map\<close> with a mapping that never drops a rune.\<close>

definition str_map :: "(rune \<Rightarrow> rune) \<Rightarrow> string \<Rightarrow> string" where
  "str_map f s = concat (map (\<lambda>r. encode_rune (f r)) (runes s))"

definition ToLower :: "unicode_tables \<Rightarrow> string \<Rightarrow> string" where
  "ToLower U s = str_map (rune_lower U) s"

lemma EqualFold_refl [simp]: "EqualFold U s s"
  by (simp add: EqualFold_def)

lemma EqualFold_sym: "EqualFold U s t \<Longrightarrow> EqualFold U t s"
  by (simp add: EqualFold_def)

lemma EqualFold_trans: "EqualFold U s t \<Longrightarrow> EqualFold U t u \<Longrightarrow> EqualFold U s u"
  by (simp add: EqualFold_def)

text \<open>\<open>unicode.IsSpace\<close>, the White_Space property.\<close>

definition is_space :: "rune \<Rightarrow> bool" where
  "is_space r \<longleftrightarrow>
     9 \<le> r \<and> r \<le> 13 \<or> r = 0x20 \<or> r = 0x85 \<or> r = 0xA0 \<or> r = 0x1680
     \<or> 0x2000 \<le> r \<and> r \<le> 0x200A \<or> r = 0x2028 \<or> r = 0x2029 \<or> r = 0x202F \<or> r = 0x205F \<or> r = 0x3000"

text \<open>The string cut into the pieces its runes occupy.\<close>

function rune_pieces :: "string \<Rightarrow> (rune \<times> string) list" where
  "rune_pieces s =
     (if s = [] then []
      else (let (r, n) = decode_rune s in (r, take n s) # rune_pieces (drop n s)))"
  by pat_completeness auto
termination
proof (relation "measure length")
  fix s :: string and x r n
  assume "s \<noteq> []" "x = decode_rune s" "(r, n) = x"
  then have "0 < n" by (metis decode_rune_size_pos snd_conv)
  with \<open>s \<noteq> []\<close> show "(drop n s, s) \<in> measure length" by simp
qed simp

declare rune_pieces.simps [simp del]

lemma rune_pieces_Nil [simp]: "rune_pieces [] = []"
  by (simp add: rune_pieces.simps)

lemma concat_rune_pieces: "concat (map snd (rune_pieces s)) = s"
  by (induction s rule: rune_pieces.induct)
    (subst rune_pieces.simps, auto simp: Let_def split: prod.splits)

text \<open>\<open>strings.TrimSpace\<close> and \<open>strings.Fields\<close>.\<close>

definition TrimSpace :: "string \<Rightarrow> string" where
  "TrimSpace s =
     concat (map snd (rev (dropWhile (\<lambda>(r, _). is_space r)
       (rev (dropWhile (\<lambda>(r, _). is_space r) (rune_pieces s))))))"

fun fields_of :: "(rune \<times> string) list \<Rightarrow> string \<Rightarrow> string list" where
  "fields_of [] w = (if w = [] then [] else [w])"
| "fields_of ((r, p) # ps) w =
     (if is_space r then (if w = [] then fields_of ps [] else w # fields_of ps [])
      else fields_of ps (w @ p))"

definition Fields :: "string \<Rightarrow> string list" where
  "Fields s = fields_of (rune_pieces s) []"

lemma fields_of_nonempty:
  "\<forall>p\<in>set ps. snd p \<noteq> [] \<Longrightarrow> f \<in> set (fields_of ps w) \<Longrightarrow> f \<noteq> []"
  by (induction ps w rule: fields_of.induct) (auto split: if_splits)

text \<open>Words: texts without white space, here of one-byte characters.\<close>

definition word_char :: "char \<Rightarrow> bool" where
  "word_char c \<longleftrightarrow> byte c < 0x80 \<and> \<not> is_space (byte c)"

definition is_word :: "string \<Rightarrow> bool" where
  "is_word w \<longleftrightarrow> w \<noteq> [] \<and> (\<forall>c\<in>set w. word_char c)"

lemma rune_pieces_ascii: "byte c < 0x80 \<Longrightarrow> rune_pieces (c # s) = (byte c, [c]) # rune_pieces s"
  by (subst rune_pieces.simps) (simp add: Let_def)

text \<open>A one-byte rune after a string is decoded on its own, even after an invalid string.\<close>

lemma decode_rune_snoc:
  assumes "byte c < 0x80" "s \<noteq> []"
  shows "decode_rune (s @ [c]) = decode_rune s"
proof (cases s)
  case (Cons b t)
  have n: "\<not> is_cont c" using assms(1) by (simp add: is_cont_def)
  have "decode2 m (t @ [c]) = decode2 m t" for m
    using n by (cases t) (simp_all add: decode2_def)
  moreover
  have "decode3 m (t @ [c]) = decode3 m t" for m
    using n assms(1) by (cases t rule: list_two_cases) (auto simp: decode3_def)
  moreover have "decode4 m (t @ [c]) = decode4 m t" for m
  proof (cases t rule: list_two_cases)
    case (More x y zs)
    then show ?thesis using n by (cases zs) (auto simp: decode4_def)
  qed (use n in \<open>auto simp: decode4_def\<close>)
  ultimately have d: "decode2 m (t @ [c]) = decode2 m t" "decode3 m (t @ [c]) = decode3 m t"
    "decode4 m (t @ [c]) = decode4 m t" for m by blast+
  show ?thesis unfolding Cons append_Cons decode_rune.simps d by (rule refl)
qed (use assms in simp)

lemma rune_pieces_snoc:
  assumes "byte c < 0x80"
  shows "rune_pieces (s @ [c]) = rune_pieces s @ [(byte c, [c])]"
proof (induction s rule: rune_pieces.induct)
  case (1 s)
  show ?case
  proof (cases "s = []")
    case True
    then show ?thesis by (simp add: rune_pieces_ascii assms)
  next
    case False
    obtain r n where d: "decode_rune s = (r, n)" by force
    have n: "n \<le> length s" using decode_rune_size_le [of s] d by simp
    have "rune_pieces (s @ [c]) = (r, take n s) # rune_pieces (drop n s @ [c])"
      using d n decode_rune_snoc [OF assms False] by (subst rune_pieces.simps) simp
    also have "\<dots> = (r, take n s) # rune_pieces (drop n s) @ [(byte c, [c])]"
      using 1 [OF False d [symmetric] refl] by simp
    also have "\<dots> = rune_pieces s @ [(byte c, [c])]"
      using d False by (subst (2) rune_pieces.simps) simp
    finally show ?thesis .
  qed
qed

text \<open>A text with a one-byte character that is not white space at both ends is trimmed to itself.\<close>

lemma TrimSpace_bracketed:
  assumes "word_char c" "word_char d"
  shows "TrimSpace (c # s @ [d]) = c # s @ [d]"
proof -
  have p: "rune_pieces (c # s @ [d]) = (byte c, [c]) # rune_pieces s @ [(byte d, [d])]"
    using assms by (simp add: rune_pieces_ascii rune_pieces_snoc word_char_def)
  show ?thesis
    unfolding TrimSpace_def p using assms by (simp add: word_char_def concat_rune_pieces)
qed

lemma TrimSpace_word: "is_word w \<Longrightarrow> TrimSpace w = w"
proof (cases w rule: list_two_cases)
  case (One c)
  then show "is_word w \<Longrightarrow> ?thesis"
    by (simp add: TrimSpace_def is_word_def rune_pieces_ascii word_char_def)
next
  case (More c d zs)
  then obtain ys e where "d # zs = ys @ [e]" by (metis butlast_last_decomp list.distinct(1))
  with More show "is_word w \<Longrightarrow> ?thesis" by (simp add: TrimSpace_bracketed is_word_def)
qed (simp add: is_word_def)

text \<open>Tables without case outside ASCII, for examples.\<close>

definition plain_tables :: unicode_tables where
  "plain_tables = \<lparr>fold_class = (\<lambda>r. r), lower_table = (\<lambda>r. r)\<rparr>"

end
