(* ===== verification/StringUtil.thy ===== *)
theory StringUtil
  imports GoUnicode
begin

text \<open>
  \<open>tsc/internal/stringutil\<close>: comparing strings with and without case (\<open>compare.go\<close>),
  character classes, line splitting, URI escaping, byte order marks, quotes and the
  surrogate handling of JavaScript strings (\<open>util.go\<close>).
\<close>

section \<open>Comparison (compare.go)\<close>

definition EquateStringCaseInsensitive :: "unicode_tables \<Rightarrow> string \<Rightarrow> string \<Rightarrow> bool" where
  "EquateStringCaseInsensitive U a b = EqualFold U a b"

definition EquateStringCaseSensitive :: "string \<Rightarrow> string \<Rightarrow> bool" where
  "EquateStringCaseSensitive a b \<longleftrightarrow> a = b"

definition GetStringEqualityComparer :: "unicode_tables \<Rightarrow> bool \<Rightarrow> string \<Rightarrow> string \<Rightarrow> bool" where
  "GetStringEqualityComparer U ignoreCase =
     (if ignoreCase then EquateStringCaseInsensitive U else EquateStringCaseSensitive)"

text \<open>The comparison loop: one rune of each string per round.\<close>

function compare_fold :: "unicode_tables \<Rightarrow> string \<Rightarrow> string \<Rightarrow> int" where
  "compare_fold U a b =
     (let (ca, sa) = decode_rune a; (cb, sb) = decode_rune b in
      if sa = 0 then (if sb = 0 then 0 else -1)
      else if sb = 0 then 1
      else if rune_lower U ca \<noteq> rune_lower U cb
      then (if rune_lower U ca < rune_lower U cb then -1 else 1)
      else compare_fold U (drop sa a) (drop sb b))"
  by pat_completeness auto
termination
proof (relation "measure (\<lambda>(U, a, b). length a)")
  fix U :: unicode_tables and a b :: string and x ca sa y cb sb
  assume "x = decode_rune a" "(ca, sa) = x" and sa: "sa \<noteq> 0"
  then have "sa = snd (decode_rune a)" by (metis snd_conv)
  with sa have "a \<noteq> []" by auto
  with sa show "((U, drop sa a, drop sb b), U, a, b) \<in> measure (\<lambda>(U, a, b). length a)" by simp
qed simp

declare compare_fold.simps [simp del]

definition CompareStringsCaseInsensitive :: "unicode_tables \<Rightarrow> string \<Rightarrow> string \<Rightarrow> int" where
  "CompareStringsCaseInsensitive U a b = (if a = b then 0 else compare_fold U a b)"

definition CompareStringsCaseSensitive :: "string \<Rightarrow> string \<Rightarrow> int" where
  "CompareStringsCaseSensitive a b = str_compare a b"

definition GetStringComparer :: "unicode_tables \<Rightarrow> bool \<Rightarrow> string \<Rightarrow> string \<Rightarrow> int" where
  "GetStringComparer U ignoreCase =
     (if ignoreCase then CompareStringsCaseInsensitive U else CompareStringsCaseSensitive)"

definition hasPrefixCase :: "unicode_tables \<Rightarrow> string \<Rightarrow> string \<Rightarrow> bool \<Rightarrow> bool" where
  "hasPrefixCase U s pre caseSensitive =
     (if caseSensitive then HasPrefix s pre
      else if length s < length pre then False
      else EqualFold U (take (length pre) s) pre)"

definition hasSuffixCase :: "unicode_tables \<Rightarrow> string \<Rightarrow> string \<Rightarrow> bool \<Rightarrow> bool" where
  "hasSuffixCase U s suf caseSensitive =
     (if caseSensitive then HasSuffix s suf
      else if length s < length suf then False
      else EqualFold U (drop (length s - length suf) s) suf)"

definition HasPrefixAndSuffixWithoutOverlap ::
    "unicode_tables \<Rightarrow> string \<Rightarrow> string \<Rightarrow> string \<Rightarrow> bool \<Rightarrow> bool" where
  "HasPrefixAndSuffixWithoutOverlap U s pre suf caseSensitive =
     (if length s < length pre + length suf then False
      else hasPrefixCase U s pre caseSensitive \<and> hasSuffixCase U s suf caseSensitive)"

definition CompareStringsCaseInsensitiveThenSensitive ::
    "unicode_tables \<Rightarrow> string \<Rightarrow> string \<Rightarrow> int" where
  "CompareStringsCaseInsensitiveThenSensitive U a b =
     (let c = CompareStringsCaseInsensitive U a b in
      if c \<noteq> 0 then c else CompareStringsCaseSensitive a b)"

definition CompareStringsCaseInsensitiveEslintCompatible ::
    "unicode_tables \<Rightarrow> string \<Rightarrow> string \<Rightarrow> int" where
  "CompareStringsCaseInsensitiveEslintCompatible U a b =
     (if a = b then 0 else str_compare (ToLower U a) (ToLower U b))"

text \<open>
  The specification of the case-insensitive order: the lexicographic order of the
  lower-cased runes.
\<close>

fun runes_compare :: "rune list \<Rightarrow> rune list \<Rightarrow> int" where
  "runes_compare [] [] = 0"
| "runes_compare [] (_ # _) = -1"
| "runes_compare (_ # _) [] = 1"
| "runes_compare (x # xs) (y # ys) =
     (if x \<noteq> y then (if x < y then -1 else 1) else runes_compare xs ys)"

lemma compare_fold_runes:
  "compare_fold U a b = runes_compare (map (rune_lower U) (runes a)) (map (rune_lower U) (runes b))"
proof (induction U a b rule: compare_fold.induct)
  case (1 U a b)
  show ?case
  proof (cases "a = [] \<or> b = []")
    case True
    then show ?thesis
      by (cases "a = []"; cases "b = []"; subst compare_fold.simps)
        (auto simp: Let_def case_prod_beta decode_rune_size_pos runes_unfold)
  next
    case False
    obtain ca sa cb sb where d: "decode_rune a = (ca, sa)" "decode_rune b = (cb, sb)"
      by (metis surj_pair)
    with False have "sa \<noteq> 0" "sb \<noteq> 0"
      by (metis decode_rune_size_0 snd_conv)+
    moreover have "runes a = ca # runes (drop sa a)" "runes b = cb # runes (drop sb b)"
      using False d by (simp_all add: runes_unfold)
    ultimately show ?thesis using 1 [OF d(1) [symmetric] refl d(2) [symmetric] refl]
      by (subst compare_fold.simps) (simp add: d)
  qed
qed

lemma runes_compare_refl [simp]: "runes_compare xs xs = 0"
  by (induction xs) auto

lemma runes_compare_0: "runes_compare xs ys = 0 \<longleftrightarrow> xs = ys"
  by (induction xs ys rule: runes_compare.induct) auto

lemma runes_compare_swap: "runes_compare ys xs = - runes_compare xs ys"
  by (induction xs ys rule: runes_compare.induct) auto

lemma runes_compare_range: "runes_compare xs ys \<in> {-1, 0, 1}"
  by (induction xs ys rule: runes_compare.induct) auto

lemma runes_compare_trans:
  "runes_compare xs ys \<le> 0 \<Longrightarrow> runes_compare ys zs \<le> 0 \<Longrightarrow> runes_compare xs zs \<le> 0"
proof (induction xs ys arbitrary: zs rule: runes_compare.induct)
  case (2 y ys)
  then show ?case by (cases zs) auto
next
  case (4 x xs y ys)
  then show ?case by (cases zs) (auto split: if_splits)
qed auto

lemma CompareStringsCaseInsensitive_runes:
  "CompareStringsCaseInsensitive U a b
     = runes_compare (map (rune_lower U) (runes a)) (map (rune_lower U) (runes b))"
  by (simp add: CompareStringsCaseInsensitive_def compare_fold_runes)

lemma str_compare_0: "str_compare a b = 0 \<longleftrightarrow> a = b"
  by (simp add: str_compare_def)

lemma str_compare_swap: "str_compare b a = - str_compare a b"
  using str_less_linear [of a b] str_less_antisym by (auto simp: str_compare_def)

lemma str_compare_trans: "str_compare a b \<le> 0 \<Longrightarrow> str_compare b c \<le> 0 \<Longrightarrow> str_compare a c \<le> 0"
  by (auto simp: str_compare_def split: if_splits dest: str_less_trans)

text \<open>
  What the clients of a string comparer rely on, whichever comparer they were given.
\<close>

locale comparer =
  fixes cmp :: "'a \<Rightarrow> 'a \<Rightarrow> int"
  assumes cmp_swap: "cmp b a = - cmp a b"
    and cmp_trans: "cmp a b \<le> 0 \<Longrightarrow> cmp b c \<le> 0 \<Longrightarrow> cmp a c \<le> 0"
begin

lemma cmp_self: "cmp a a = 0"
  using cmp_swap [of a a] by simp

lemma cmp_total: "cmp a b \<le> 0 \<or> cmp b a \<le> 0"
  using cmp_swap [of a b] by linarith

lemma cmp_eq_sym: "cmp a b = 0 \<Longrightarrow> cmp b a = 0"
  using cmp_swap [of a b] by simp

lemma cmp_eq_trans: "cmp a b = 0 \<Longrightarrow> cmp b c = 0 \<Longrightarrow> cmp a c = 0"
  using cmp_trans [of a b c] cmp_trans [of c b a] cmp_swap [of a b] cmp_swap [of b c] cmp_swap [of a c]
  by linarith

lemma cmp_less_trans:
  assumes "cmp a b < 0" "cmp b c \<le> 0"
  shows "cmp a c < 0"
proof (rule ccontr)
  assume "\<not> cmp a c < 0"
  then have "cmp c a \<le> 0" using cmp_swap [of c a] by linarith
  with assms(2) have "cmp b a \<le> 0" by (rule cmp_trans)
  with assms(1) show False using cmp_swap [of a b] by linarith
qed

end

interpretation insensitive: comparer "CompareStringsCaseInsensitive U"
  by unfold_locales
    (simp_all only: CompareStringsCaseInsensitive_runes runes_compare_swap [symmetric],
      rule runes_compare_trans)

interpretation sensitive: comparer CompareStringsCaseSensitive
  by unfold_locales
    (simp_all only: CompareStringsCaseSensitive_def str_compare_swap [symmetric],
      rule str_compare_trans)

interpretation by_option: comparer "GetStringComparer U ignoreCase"
  unfolding GetStringComparer_def
  by (cases ignoreCase) (simp_all add: insensitive.comparer_axioms sensitive.comparer_axioms)

section \<open>Character classes and lines (util.go)\<close>

definition IsWhiteSpaceSingleLine :: "rune \<Rightarrow> bool" where
  "IsWhiteSpaceSingleLine ch \<longleftrightarrow>
     ch \<in> {0x20, 0x09, 0x0B, 0x0C, 0x85, 0xA0, 0x1680, 0x2000, 0x2001, 0x2002, 0x2003, 0x2004,
           0x2005, 0x2006, 0x2007, 0x2008, 0x2009, 0x200A, 0x200B, 0x202F, 0x205F, 0x3000, 0xFEFF}"

definition IsLineBreak :: "rune \<Rightarrow> bool" where
  "IsLineBreak ch \<longleftrightarrow> ch \<in> {0x0A, 0x0D, 0x2028, 0x2029}"

definition IsWhiteSpaceLike :: "rune \<Rightarrow> bool" where
  "IsWhiteSpaceLike ch \<longleftrightarrow> IsWhiteSpaceSingleLine ch \<or> IsLineBreak ch"

definition IsDigit :: "rune \<Rightarrow> bool" where
  "IsDigit ch \<longleftrightarrow> 0x30 \<le> ch \<and> ch \<le> 0x39"

definition IsOctalDigit :: "rune \<Rightarrow> bool" where
  "IsOctalDigit ch \<longleftrightarrow> 0x30 \<le> ch \<and> ch \<le> 0x37"

definition IsHexDigit :: "rune \<Rightarrow> bool" where
  "IsHexDigit ch \<longleftrightarrow> 0x30 \<le> ch \<and> ch \<le> 0x39 \<or> 0x41 \<le> ch \<and> ch \<le> 0x46 \<or> 0x61 \<le> ch \<and> ch \<le> 0x66"

definition IsASCIILetter :: "rune \<Rightarrow> bool" where
  "IsASCIILetter ch \<longleftrightarrow> 0x41 \<le> ch \<and> ch \<le> 0x5A \<or> 0x61 \<le> ch \<and> ch \<le> 0x7A"

abbreviation LF :: char where "LF \<equiv> CHR 0x0A"
abbreviation CR :: char where "CR \<equiv> CHR 0x0D"

function SplitLines_loop :: "string \<Rightarrow> nat \<Rightarrow> nat \<Rightarrow> string list \<Rightarrow> string list" where
  "SplitLines_loop tx start pos ls =
     (if pos < length tx then
        (if tx ! pos = CR \<and> pos + 1 < length tx \<and> tx ! (pos + 1) = LF
         then SplitLines_loop tx (pos + 2) (pos + 2) (ls @ [drop start (take pos tx)])
         else if tx ! pos = CR \<or> tx ! pos = LF
         then SplitLines_loop tx (pos + 1) (pos + 1) (ls @ [drop start (take pos tx)])
         else SplitLines_loop tx start (pos + 1) ls)
      else if start < length tx then ls @ [drop start tx] else ls)"
  by pat_completeness auto
termination
  by (relation "measure (\<lambda>(tx, start, pos, ls). length tx - pos)") auto

declare SplitLines_loop.simps [simp del]

definition SplitLines :: "string \<Rightarrow> string list" where
  "SplitLines tx = SplitLines_loop tx 0 0 []"

text \<open>Reference: the lines read off the text from left to right, \<open>cur\<close> being the line so far.\<close>

fun lines_of :: "string \<Rightarrow> string \<Rightarrow> string list" where
  "lines_of cur [] = (if cur = [] then [] else [cur])"
| "lines_of cur (c # s) =
     (if c = CR \<and> HasPrefix s [LF] then cur # lines_of [] (tl s)
      else if c = CR \<or> c = LF then cur # lines_of [] s
      else lines_of (cur @ [c]) s)"

lemma HasPrefix_single: "HasPrefix (drop i s) [c] \<longleftrightarrow> i < length s \<and> s ! i = c"
  by (cases "i < length s") (auto simp: Cons_nth_drop_Suc [symmetric])

lemma SplitLines_loop_lines_of:
  "start \<le> pos \<Longrightarrow> pos \<le> length tx \<Longrightarrow>
     SplitLines_loop tx start pos ls = ls @ lines_of (drop start (take pos tx)) (drop pos tx)"
proof (induction tx start pos ls rule: SplitLines_loop.induct)
  case (1 tx start pos ls)
  show ?case
  proof (cases "pos < length tx")
    case False
    with "1.prems" show ?thesis by (subst SplitLines_loop.simps) auto
  next
    case True
    define c where "c = tx ! pos"
    have drop: "drop pos tx = c # drop (pos + 1) tx"
      using True by (simp add: Cons_nth_drop_Suc c_def)
    have take: "drop start (take (pos + 1) tx) = drop start (take pos tx) @ [c]"
      using True "1.prems" by (simp add: take_Suc_conv_app_nth c_def)
    define r where "r = drop (pos + 1) tx"
    have r: "HasPrefix r [LF] \<longleftrightarrow> pos + 1 < length tx \<and> tx ! (pos + 1) = LF"
        "tl r = drop (pos + 2) tx"
      unfolding r_def HasPrefix_single by (simp_all add: tl_drop drop_Suc)
    show ?thesis
      using 1 True drop take r(1) r(2) [symmetric] unfolding c_def [symmetric] r_def [symmetric]
      by (subst SplitLines_loop.simps) (simp add: c_def [symmetric])
  qed
qed

lemma SplitLines_eq: "SplitLines tx = lines_of [] tx"
  using SplitLines_loop_lines_of [of 0 0 tx "[]"] by (simp add: SplitLines_def)

lemma lines_of_no_break:
  "CR \<notin> set cur \<Longrightarrow> LF \<notin> set cur \<Longrightarrow> l \<in> set (lines_of cur s) \<Longrightarrow> CR \<notin> set l \<and> LF \<notin> set l"
  by (induction cur s arbitrary: l rule: lines_of.induct) (auto split: if_splits)

section \<open>Properties\<close>

text \<open>\<open>CompareStringsCaseInsensitive\<close>, which decodes both strings rune by rune and stops at the
  first difference, is the lexicographic order of the lower-cased runes, invalid bytes read as
  the replacement character; it is antisymmetric up to sign and transitive, so sorting with it is
  well defined.\<close>
theorem CompareStringsCaseInsensitive_order:
  "CompareStringsCaseInsensitive U a b
     = runes_compare (map (rune_lower U) (runes a)) (map (rune_lower U) (runes b))
   \<and> CompareStringsCaseInsensitive U b a = - CompareStringsCaseInsensitive U a b
   \<and> (CompareStringsCaseInsensitive U a b \<le> 0 \<and> CompareStringsCaseInsensitive U b c \<le> 0
        \<longrightarrow> CompareStringsCaseInsensitive U a c \<le> 0)"
  using insensitive.cmp_swap insensitive.cmp_trans CompareStringsCaseInsensitive_runes by blast

theorem CompareStringsCaseInsensitive_order_witness:
  "CompareStringsCaseInsensitive plain_tables ''a'' ''c'' \<le> 0"
proof -
  have "CompareStringsCaseInsensitive plain_tables ''a'' ''B'' \<le> 0
      \<and> CompareStringsCaseInsensitive plain_tables ''B'' ''c'' \<le> 0" by code_simp
  then show ?thesis
    using CompareStringsCaseInsensitive_order [of plain_tables "''a''" "''B''" "''c''"] by blast
qed

text \<open>\<open>SplitLines\<close> cuts a text at every carriage return, line feed and carriage return followed by
  line feed (one break), as the reference reading from left to right does; no line contains a
  break character.\<close>
theorem SplitLines_lines:
  "SplitLines tx = lines_of [] tx
   \<and> (\<forall>l. l \<in> set (SplitLines tx) \<longrightarrow> CR \<notin> set l \<and> LF \<notin> set l)"
  using lines_of_no_break [of "[]"] by (auto simp: SplitLines_eq)

theorem SplitLines_lines_witness: "SplitLines [CHR ''a'', CR, LF, CHR ''b''] = lines_of [] [CHR ''a'', CR, LF, CHR ''b'']"
  using SplitLines_lines by blast

end
