(* ===== verification/PathRoot.thy ===== *)
theory PathRoot
  imports StringUtil
begin

text \<open>
  \<open>tsc/internal/tspath/path.go\<close>, first part: the root of a path (POSIX, UNC, DOS, untitled
  and URL roots), slashes, combining paths and cutting a path into components.
\<close>

abbreviation slash :: char where "slash \<equiv> CHR 0x2F"
abbreviation backslash :: char where "backslash \<equiv> CHR 0x5C"

definition isAnyDirectorySeparator :: "char \<Rightarrow> bool" where
  "isAnyDirectorySeparator ch \<longleftrightarrow> ch = slash \<or> ch = backslash"

definition IsVolumeCharacter :: "char \<Rightarrow> bool" where
  "IsVolumeCharacter ch \<longleftrightarrow>
     0x61 \<le> byte ch \<and> byte ch \<le> 0x7A \<or> 0x41 \<le> byte ch \<and> byte ch \<le> 0x5A"

definition getFileUrlVolumeSeparatorEnd :: "string \<Rightarrow> nat \<Rightarrow> nat option" where
  "getFileUrlVolumeSeparatorEnd url start =
     (if length url \<le> start then None
      else if url ! start = CHR '':'' then Some (start + 1)
      else if url ! start = CHR ''%'' \<and> start + 2 < length url \<and> url ! (start + 1) = CHR ''3''
              \<and> (url ! (start + 2) = CHR ''a'' \<or> url ! (start + 2) = CHR ''A'')
      then Some (start + 3)
      else None)"

text \<open>Go's bitwise complement \<open>^n\<close> of a length marks a URL root.\<close>

definition complement :: "nat \<Rightarrow> int" where
  "complement n = - int n - 1"

definition encodedUrlRootLength :: "string \<Rightarrow> nat \<Rightarrow> int" where
  "encodedUrlRootLength path schemeEnd =
     (let authorityStart = schemeEnd + 3 in
      case str_index (drop authorityStart path) ''/'' of
        None \<Rightarrow> complement (length path)
      | Some authorityLength \<Rightarrow>
          (let authorityEnd = authorityStart + authorityLength;
               scheme = take schemeEnd path;
               authority = drop authorityStart (take authorityEnd path);
               volumeEnd =
                 (if scheme = ''file'' \<and> (authority = [] \<or> authority = ''localhost'')
                     \<and> authorityEnd + 2 < length path \<and> IsVolumeCharacter (path ! (authorityEnd + 1))
                  then getFileUrlVolumeSeparatorEnd path (authorityEnd + 2) else None)
           in case volumeEnd of
                Some v \<Rightarrow>
                  (if v = length path then complement v
                   else if path ! v = slash then complement (v + 1)
                   else complement (authorityEnd + 1))
              | None \<Rightarrow> complement (authorityEnd + 1)))"

definition GetEncodedRootLength :: "string \<Rightarrow> int" where
  "GetEncodedRootLength path =
     (let ln = length path in
      if ln = 0 then 0
      else (let ch0 = path ! 0 in
        if ch0 = slash \<or> ch0 = backslash then
          (if ln = 1 \<or> path ! 1 \<noteq> ch0 then 1
           else (case index_byte (drop 2 path) ch0 of
                   None \<Rightarrow> int ln
                 | Some p1 \<Rightarrow> int (p1 + 2 + 1)))
        else if IsVolumeCharacter ch0 \<and> 1 < ln \<and> path ! 1 = CHR '':'' \<and> ln = 2 then 2
        else if IsVolumeCharacter ch0 \<and> 1 < ln \<and> path ! 1 = CHR '':''
                \<and> (path ! 2 = slash \<or> path ! 2 = backslash) then 3
        else if ch0 = CHR ''^'' \<and> 1 < ln \<and> path ! 1 = slash then 2
        else (case str_index path ''://'' of
                Some schemeEnd \<Rightarrow> encodedUrlRootLength path schemeEnd
              | None \<Rightarrow> 0)))"

definition GetRootLength :: "string \<Rightarrow> nat" where
  "GetRootLength path =
     (let rootLength = GetEncodedRootLength path in
      if rootLength < 0 then nat (- rootLength - 1) else nat rootLength)"

definition IsUrl :: "string \<Rightarrow> bool" where
  "IsUrl path \<longleftrightarrow> GetEncodedRootLength path < 0"

definition IsRootedDiskPath :: "string \<Rightarrow> bool" where
  "IsRootedDiskPath path \<longleftrightarrow> GetEncodedRootLength path > 0"

definition IsDiskPathRoot :: "string \<Rightarrow> bool" where
  "IsDiskPathRoot path \<longleftrightarrow>
     (let rootLength = GetEncodedRootLength path in rootLength > 0 \<and> rootLength = int (length path))"

definition IsDynamicFileName :: "string \<Rightarrow> bool" where
  "IsDynamicFileName fileName \<longleftrightarrow> HasPrefix fileName ''^/''"

definition PathIsAbsolute :: "string \<Rightarrow> bool" where
  "PathIsAbsolute path \<longleftrightarrow> GetEncodedRootLength path \<noteq> 0"

definition HasTrailingDirectorySeparator :: "string \<Rightarrow> bool" where
  "HasTrailingDirectorySeparator path \<longleftrightarrow> path \<noteq> [] \<and> isAnyDirectorySeparator (last path)"

definition RemoveTrailingDirectorySeparator :: "string \<Rightarrow> string" where
  "RemoveTrailingDirectorySeparator path =
     (if HasTrailingDirectorySeparator path then butlast path else path)"

function RemoveTrailingDirectorySeparators :: "string \<Rightarrow> string" where
  "RemoveTrailingDirectorySeparators path =
     (if HasTrailingDirectorySeparator path
      then RemoveTrailingDirectorySeparators (RemoveTrailingDirectorySeparator path)
      else path)"
  by pat_completeness auto
termination
  by (relation "measure length")
    (auto simp: RemoveTrailingDirectorySeparator_def HasTrailingDirectorySeparator_def)

declare RemoveTrailingDirectorySeparators.simps [simp del]

definition EnsureTrailingDirectorySeparator :: "string \<Rightarrow> string" where
  "EnsureTrailingDirectorySeparator path =
     (if \<not> HasTrailingDirectorySeparator path then path @ ''/'' else path)"

definition NormalizeSlashes :: "string \<Rightarrow> string" where
  "NormalizeSlashes path = replace_byte backslash slash path"

text \<open>The loop of \<open>CombinePaths\<close>: what one trailing path does to the result so far.\<close>

definition combine_step :: "string \<Rightarrow> string \<Rightarrow> string" where
  "combine_step result trailingPath =
     (if trailingPath = [] then result
      else (let trailing = NormalizeSlashes trailingPath in
        if result = [] \<or> GetRootLength trailing \<noteq> 0 then trailing
        else (if \<not> HasTrailingDirectorySeparator result then result @ ''/'' else result) @ trailing))"

definition CombinePaths :: "string \<Rightarrow> string list \<Rightarrow> string" where
  "CombinePaths firstPath paths = foldl combine_step (NormalizeSlashes firstPath) paths"

definition pathComponents :: "string \<Rightarrow> nat \<Rightarrow> string list" where
  "pathComponents path rootLength =
     (let root = take rootLength path;
          rest = split_byte slash (drop rootLength path);
          rest' = (if rest \<noteq> [] \<and> last rest = [] then butlast rest else rest)
      in root # rest')"

definition GetPathComponents :: "string \<Rightarrow> string \<Rightarrow> string list" where
  "GetPathComponents path currentDirectory =
     (let p = CombinePaths currentDirectory [path] in pathComponents p (GetRootLength p))"

definition GetPathFromPathComponents :: "string list \<Rightarrow> string" where
  "GetPathFromPathComponents components =
     (case components of
        [] \<Rightarrow> []
      | root # rest \<Rightarrow>
          (if root \<noteq> [] then EnsureTrailingDirectorySeparator root else root) @ str_join rest ''/'')"

definition GetDirectoryPath :: "string \<Rightarrow> string" where
  "GetDirectoryPath path0 =
     (let path = NormalizeSlashes path0; rootLength = GetRootLength path in
      if rootLength = length path then path
      else (let p = RemoveTrailingDirectorySeparator path in
            take (max rootLength (case str_last_index p ''/'' of Some i \<Rightarrow> i | None \<Rightarrow> 0)) p))"

definition GetBaseFileName :: "string \<Rightarrow> string" where
  "GetBaseFileName path0 =
     (let path = NormalizeSlashes path0; rootLength = GetRootLength path in
      if rootLength = length path then []
      else (let p = RemoveTrailingDirectorySeparator path in
            drop (max (GetRootLength p) (case str_last_index p ''/'' of Some i \<Rightarrow> i + 1 | None \<Rightarrow> 0)) p))"

definition PathIsRelative :: "string \<Rightarrow> bool" where
  "PathIsRelative path =
     (if path = ''.'' \<or> path = ''..'' then True
      else if 2 \<le> length path \<and> path ! 0 = CHR ''.'' \<and> (path ! 1 = slash \<or> path ! 1 = backslash) then True
      else if 3 \<le> length path \<and> path ! 0 = CHR ''.'' \<and> path ! 1 = CHR ''.''
              \<and> (path ! 2 = slash \<or> path ! 2 = backslash) then True
      else False)"

definition EnsurePathIsNonModuleName :: "string \<Rightarrow> string" where
  "EnsurePathIsNonModuleName path =
     (if \<not> PathIsAbsolute path \<and> \<not> PathIsRelative path then ''./'' @ path else path)"

definition IsExternalModuleNameRelative :: "string \<Rightarrow> bool" where
  "IsExternalModuleNameRelative moduleName \<longleftrightarrow>
     PathIsRelative moduleName \<or> IsRootedDiskPath moduleName"

section \<open>Roots stay inside the path and end at a separator\<close>

lemma GetRootLength_complement [simp]:
  "GetEncodedRootLength path = complement n \<Longrightarrow> GetRootLength path = n"
  by (simp add: GetRootLength_def complement_def Let_def)

lemma GetRootLength_int [simp]:
  "GetEncodedRootLength path = int n \<Longrightarrow> GetRootLength path = n"
  by (simp add: GetRootLength_def Let_def)

lemma getFileUrlVolumeSeparatorEnd_le [go_bounds]:
  "getFileUrlVolumeSeparatorEnd url start = Some v \<Longrightarrow> v \<le> length url"
  by (auto simp: getFileUrlVolumeSeparatorEnd_def split: if_splits)

text \<open>
  Every root is one of: empty, the whole path, or a prefix that ends in a separator.
\<close>

definition root_shape :: "string \<Rightarrow> nat \<Rightarrow> bool" where
  "root_shape path n \<longleftrightarrow>
     n = 0 \<or> n = length path \<or> 0 < n \<and> n < length path \<and> isAnyDirectorySeparator (path ! (n - 1))"

lemma encodedUrlRootLength_shape:
  assumes "str_index path ''://'' = Some schemeEnd"
  shows "\<exists>n. encodedUrlRootLength path schemeEnd = complement n \<and> 3 \<le> n \<and> n \<le> length path
           \<and> (n = length path \<or> path ! (n - 1) = slash)"
proof -
  let ?start = "schemeEnd + 3"
  have start: "?start \<le> length path" using str_index_SomeD [OF assms] by simp
  show ?thesis
  proof (cases "str_index (drop ?start path) ''/''")
    case None
    then show ?thesis using start by (auto simp: encodedUrlRootLength_def Let_def)
  next
    case (Some k)
    then have "k < length (drop ?start path)" "drop ?start path ! k = slash"
      using index_byte_SomeD [of "drop ?start path" slash k] by (simp_all add: str_index_byte)
    then have e: "?start + k < length path" "path ! (?start + k) = slash"
      by (auto simp: add.commute)
    define ve where "ve =
      (if take schemeEnd path = ''file''
          \<and> (drop ?start (take (?start + k) path) = []
             \<or> drop ?start (take (?start + k) path) = ''localhost'')
          \<and> ?start + k + 2 < length path \<and> IsVolumeCharacter (path ! (?start + k + 1))
       then getFileUrlVolumeSeparatorEnd path (?start + k + 2) else None)"
    have ve: "ve = None \<or> ve = getFileUrlVolumeSeparatorEnd path (?start + k + 2)"
      by (simp add: ve_def)
    have u: "encodedUrlRootLength path schemeEnd =
          (case ve of
             Some v \<Rightarrow> (if v = length path then complement v
                        else if path ! v = slash then complement (v + 1)
                        else complement (?start + k + 1))
           | None \<Rightarrow> complement (?start + k + 1))"
      by (simp only: encodedUrlRootLength_def Let_def Some option.case ve_def)
    have e': "path ! (3 + (schemeEnd + k)) = slash" using e(2) by (simp add: algebra_simps)
    show ?thesis
    proof (cases ve)
      case None
      then show ?thesis using e e' by (intro exI [of _ "?start + k + 1"]) (auto simp: u)
    next
      case v: (Some v)
      with ve have "getFileUrlVolumeSeparatorEnd path (?start + k + 2) = Some v" by auto
      then have "?start \<le> v" "v \<le> length path"
        by (auto simp: getFileUrlVolumeSeparatorEnd_def split: if_splits)
      with e e' v u show ?thesis
        by (intro exI [of _ "if v = length path then v else if path ! v = slash then v + 1
              else ?start + k + 1"]) auto
    qed
  qed
qed

lemma GetRootLength_shape: "root_shape path (GetRootLength path)"
proof (cases "path = []")
  case True
  then show ?thesis by (simp add: root_shape_def GetRootLength_def GetEncodedRootLength_def)
next
  case False
  show ?thesis
  proof (cases "path ! 0 = slash \<or> path ! 0 = backslash")
    case True
    show ?thesis
    proof (cases "length path = 1 \<or> path ! 1 \<noteq> path ! 0")
      case one: True
      with True False have "GetRootLength path = 1"
        by (auto simp: GetRootLength_def GetEncodedRootLength_def Let_def)
      with True False show ?thesis
        by (cases path) (auto simp: root_shape_def isAnyDirectorySeparator_def)
    next
      case unc: False
      show ?thesis
      proof (cases "index_byte (drop 2 path) (path ! 0)")
        case None
        with True False unc have "GetRootLength path = length path"
          by (auto simp: GetRootLength_def GetEncodedRootLength_def Let_def)
        then show ?thesis by (simp add: root_shape_def)
      next
        case (Some p1)
        with True False unc have "GetRootLength path = p1 + 3"
          by (auto simp: GetRootLength_def GetEncodedRootLength_def Let_def)
        moreover have "p1 < length path - 2" "path ! (p1 + 2) = path ! 0"
          using index_byte_SomeD [OF Some] by (auto simp: add.commute)
        ultimately show ?thesis using True
          by (auto simp: root_shape_def isAnyDirectorySeparator_def)
      qed
    qed
  next
    case other: False
    have shape2: "root_shape path 2" if "1 < length path" "length path = 2 \<or> path ! 1 = slash"
      using that by (auto simp: root_shape_def isAnyDirectorySeparator_def)
    have shape3: "root_shape path 3"
      if "1 < length path" "length path \<noteq> 2" "path ! 2 = slash \<or> path ! 2 = backslash"
      using that by (auto simp: root_shape_def isAnyDirectorySeparator_def)
    define e where "e = GetEncodedRootLength path"
    have e: "e = (if IsVolumeCharacter (path ! 0) \<and> 1 < length path \<and> path ! 1 = CHR '':''
                    \<and> length path = 2 then 2
                  else if IsVolumeCharacter (path ! 0) \<and> 1 < length path \<and> path ! 1 = CHR '':''
                    \<and> (path ! 2 = slash \<or> path ! 2 = backslash) then 3
                  else if path ! 0 = CHR ''^'' \<and> 1 < length path \<and> path ! 1 = slash then 2
                  else (case str_index path ''://'' of
                          Some k \<Rightarrow> encodedUrlRootLength path k | None \<Rightarrow> 0))"
      using False other by (simp add: e_def GetEncodedRootLength_def Let_def)
    consider "e = 2" "1 < length path" "length path = 2 \<or> path ! 1 = slash"
      | "e = 3" "1 < length path" "length path \<noteq> 2" "path ! 2 = slash \<or> path ! 2 = backslash"
      | "e = 0"
      | k where "str_index path ''://'' = Some k" "e = encodedUrlRootLength path k"
      using e by (auto split: if_splits option.splits)
    then show ?thesis
    proof cases
      case 1
      then show ?thesis using shape2 by (simp add: GetRootLength_def e_def)
    next
      case 2
      then show ?thesis using shape3 by (simp add: GetRootLength_def e_def)
    next
      case 3
      then show ?thesis by (simp add: GetRootLength_def root_shape_def e_def)
    next
      case 4
      then obtain n where n: "GetEncodedRootLength path = complement n" "3 \<le> n"
        "n \<le> length path" "n = length path \<or> path ! (n - 1) = slash"
        using encodedUrlRootLength_shape e_def by metis
      then show ?thesis by (auto simp: root_shape_def isAnyDirectorySeparator_def)
    qed
  qed
qed

lemma GetRootLength_le [go_bounds]: "GetRootLength path \<le> length path"
  using GetRootLength_shape [of path] by (auto simp: root_shape_def)

section \<open>Properties\<close>

text \<open>The root that \<open>GetRootLength\<close> finds lies inside the path, and it is empty, or the whole
  path, or a proper prefix that ends in a directory separator, for POSIX, UNC, DOS, untitled and
  URL paths alike, so cutting a path at its root never cuts a component.\<close>
theorem GetRootLength_ends_at_separator:
  "GetRootLength path \<le> length path \<and> root_shape path (GetRootLength path)"
  by (simp add: GetRootLength_le GetRootLength_shape)

end
