(* ===== verification/PathNorm.thy ===== *)
theory PathNorm
  imports PathRoot
begin

text \<open>
  \<open>tsc/internal/tspath/path.go\<close>, second part: normalisation. The reference algorithm works on
  component lists (\<open>reducePathComponents\<close>); the code also has a component loop that does not
  split first (\<open>getNormalizedPathComponentsFromCombined\<close>) and a loop on the string itself
  (\<open>GetNormalizedAbsolutePath\<close>, here \<open>norm_loop\<close>). This theory holds the definitions, the
  properties of reduced component lists and the equivalences of the component loop and of
  the relative-segment scanner with their references; theory \<open>PathNormCorrect\<close> relates the
  string loop to the reference.
\<close>

section \<open>Component lists\<close>

definition reduce_step :: "string list \<Rightarrow> string \<Rightarrow> string list" where
  "reduce_step reduced component =
     (if component = [] then reduced
      else if component = ''.'' then reduced
      else if component = ''..'' then
        (if 1 < length reduced
         then (if last reduced \<noteq> ''..'' then butlast reduced else reduced @ [component])
         else if hd reduced \<noteq> [] then reduced
         else reduced @ [component])
      else reduced @ [component])"

definition reducePathComponents :: "string list \<Rightarrow> string list" where
  "reducePathComponents components =
     (case components of [] \<Rightarrow> [] | c # cs \<Rightarrow> foldl reduce_step [c] cs)"

definition skip_slashes :: "string \<Rightarrow> nat \<Rightarrow> nat" where
  "skip_slashes path i = i + length (takeWhile (\<lambda>c. c = slash) (drop i path))"

definition segment_end :: "string \<Rightarrow> nat \<Rightarrow> nat" where
  "segment_end path i = i + length (takeWhile (\<lambda>c. c \<noteq> slash) (drop i path))"

definition normalized_step :: "string list \<Rightarrow> string \<Rightarrow> string list" where
  "normalized_step components component =
     (if component = [] \<or> component = ''.'' then components
      else if component = ''..'' \<and> 1 < length components \<and> last components \<noteq> ''..''
      then butlast components
      else if component = ''..'' \<and> \<not> 1 < length components \<and> components ! 0 \<noteq> []
      then components
      else components @ [component])"

lemma skip_slashes_ge [go_bounds]: "i \<le> skip_slashes path i"
  by (simp add: skip_slashes_def)

lemma segment_end_gt: "i < length path \<Longrightarrow> path ! i \<noteq> slash \<Longrightarrow> i < segment_end path i"
  by (simp add: segment_end_def Cons_nth_drop_Suc [symmetric])

lemma skip_slashes_stop: "skip_slashes path i < length path \<Longrightarrow> path ! skip_slashes path i \<noteq> slash"
proof -
  assume "skip_slashes path i < length path"
  then have "length (takeWhile (\<lambda>c. c = slash) (drop i path)) < length (drop i path)"
    by (simp add: skip_slashes_def)
  from nth_length_takeWhile [OF this] show ?thesis
    by (metis (no_types, lifting) \<open>skip_slashes path i < length path\<close> add_leD1 less_or_eq_imp_le
        nth_drop skip_slashes_def)
qed

function normalized_components_loop :: "string \<Rightarrow> nat \<Rightarrow> string list \<Rightarrow> string list" where
  "normalized_components_loop path i components =
     (if i < length path then
        (let start = skip_slashes path i in
         if length path \<le> start then components
         else (let e = segment_end path start in
               normalized_components_loop path e
                 (normalized_step components (drop start (take e path)))))
      else components)"
  by pat_completeness auto
termination
proof (relation "measure (\<lambda>(path, i, components). length path - i)")
  fix path :: string and i start e :: nat and components :: "string list"
  assume i: "i < length path" and s: "start = skip_slashes path i" "\<not> length path \<le> start"
    and e: "e = segment_end path start"
  have "path ! start \<noteq> slash" using s skip_slashes_stop by auto
  then have "start < e" using s e segment_end_gt by auto
  with i s show "((path, e, normalized_step components (drop start (take e path))), path, i, components)
      \<in> measure (\<lambda>(path, i, components). length path - i)"
    using skip_slashes_ge [of i path] by auto
qed simp

declare normalized_components_loop.simps [simp del]

definition getNormalizedPathComponentsFromCombined :: "string \<Rightarrow> string list" where
  "getNormalizedPathComponentsFromCombined path =
     normalized_components_loop path (GetRootLength path) [take (GetRootLength path) path]"

definition GetNormalizedPathComponents :: "string \<Rightarrow> string \<Rightarrow> string list" where
  "GetNormalizedPathComponents path currentDirectory =
     getNormalizedPathComponentsFromCombined (CombinePaths currentDirectory [path])"

text \<open>
  What \<open>reduce_step\<close> does to the components after the root. A reduced list is the root, then
  (only when the root is empty) some \<open>..\<close>, then proper names.
\<close>

definition push :: "string \<Rightarrow> string list \<Rightarrow> string \<Rightarrow> string list" where
  "push root cs c =
     (if c = [] \<or> c = ''.'' then cs
      else if c = ''..'' then
        (if cs \<noteq> [] then (if last cs \<noteq> ''..'' then butlast cs else cs @ [c])
         else if root \<noteq> [] then [] else [c])
      else cs @ [c])"

definition proper_name :: "string \<Rightarrow> bool" where
  "proper_name c \<longleftrightarrow> c \<noteq> [] \<and> c \<noteq> ''.'' \<and> c \<noteq> ''..''"

definition reduced_tail :: "string \<Rightarrow> string list \<Rightarrow> bool" where
  "reduced_tail root cs \<longleftrightarrow>
     (\<exists>n names. cs = replicate n ''..'' @ names \<and> list_all proper_name names \<and> (root \<noteq> [] \<longrightarrow> n = 0))"

definition reduced_components :: "string list \<Rightarrow> bool" where
  "reduced_components cs \<longleftrightarrow> (case cs of [] \<Rightarrow> True | root # rest \<Rightarrow> reduced_tail root rest)"

lemma reduce_step_push: "reduce_step (root # cs) c = root # push root cs c"
  by (auto simp: reduce_step_def push_def)

lemma normalized_step_push: "normalized_step (root # cs) c = root # push root cs c"
  by (auto simp: normalized_step_def push_def)

lemma foldl_reduce_step: "foldl reduce_step (root # cs) ws = root # foldl (push root) cs ws"
  by (induction ws arbitrary: cs) (auto simp: reduce_step_push)

lemma reducePathComponents_push: "reducePathComponents (root # ws) = root # foldl (push root) [] ws"
  by (simp add: reducePathComponents_def foldl_reduce_step)

lemma reducePathComponents_Nil [simp]: "reducePathComponents [] = []"
  by (simp add: reducePathComponents_def)

lemma replicate_snoc: "replicate n x @ [x] = replicate (Suc n) x"
  by (simp add: replicate_append_same)

lemma push_reduced: "reduced_tail root cs \<Longrightarrow> reduced_tail root (push root cs c)"
proof -
  assume "reduced_tail root cs"
  then obtain n names where cs: "cs = replicate n ''..'' @ names" "list_all proper_name names"
    "root \<noteq> [] \<longrightarrow> n = 0"
    by (auto simp: reduced_tail_def)
  consider (skip) "c = [] \<or> c = ''.''" | (up) "c = ''..''" | (name) "proper_name c"
    by (auto simp: proper_name_def)
  then show ?thesis
  proof cases
    case skip
    with cs show ?thesis by (auto simp: push_def reduced_tail_def)
  next
    case name
    with cs have "push root cs c = replicate n ''..'' @ (names @ [c])"
      by (auto simp: push_def proper_name_def)
    with name cs show ?thesis unfolding reduced_tail_def
      by (intro exI [of _ n] exI [of _ "names @ [c]"]) auto
  next
    case up
    show ?thesis
    proof (cases "names = []")
      case True
      show ?thesis
      proof (cases "root \<noteq> []")
        case True
        with cs \<open>names = []\<close> have "push root cs c = []" using up by (auto simp: push_def)
        then show ?thesis by (auto simp: reduced_tail_def)
      next
        case False
        with cs \<open>names = []\<close> have "push root cs c = replicate (Suc n) ''..''"
          using up by (cases n) (auto simp: push_def replicate_append_same [symmetric])
        with False show ?thesis
          unfolding reduced_tail_def by (intro exI [of _ "Suc n"] exI [of _ "[]"]) auto
      qed
    next
      case False
      then obtain names' x where x: "names = names' @ [x]" by (metis butlast_last_decomp)
      with cs have "proper_name x" by simp
      with x cs have "push root cs c = replicate n ''..'' @ names'"
        using up by (auto simp: push_def proper_name_def butlast_append)
      with x cs show ?thesis by (auto simp: reduced_tail_def)
    qed
  qed
qed

lemma foldl_push_reduced: "reduced_tail root cs \<Longrightarrow> reduced_tail root (foldl (push root) cs ws)"
  by (induction ws arbitrary: cs) (auto simp: push_reduced)

lemma reduced_tail_Nil [simp]: "reduced_tail root []"
  by (simp add: reduced_tail_def)

lemma foldl_push_names:
  "list_all proper_name names \<Longrightarrow> foldl (push root) cs names = cs @ names"
  by (induction names arbitrary: cs) (auto simp: push_def proper_name_def)

lemma foldl_push_ups:
  "\<forall>c\<in>set cs. c = ''..'' \<Longrightarrow> foldl (push []) cs (replicate n ''..'') = cs @ replicate n ''..''"
proof (induction n arbitrary: cs)
  case (Suc n)
  have "push [] cs ''..'' = cs @ [''..'']"
    using Suc.prems by (cases "cs = []") (auto simp: push_def)
  with Suc show ?case by simp
qed simp

lemma foldl_push_id: "reduced_tail root cs \<Longrightarrow> foldl (push root) [] cs = cs"
proof -
  assume "reduced_tail root cs"
  then obtain n names where cs: "cs = replicate n ''..'' @ names" "list_all proper_name names"
    "root \<noteq> [] \<longrightarrow> n = 0"
    by (auto simp: reduced_tail_def)
  show ?thesis
  proof (cases "root = []")
    case True
    with cs show ?thesis by (simp add: foldl_push_ups foldl_push_names)
  next
    case False
    with cs show ?thesis by (simp add: foldl_push_names)
  qed
qed

lemma reduced_reduce: "reduced_components (reducePathComponents cs)"
  by (cases cs) (auto simp: reduced_components_def reducePathComponents_push foldl_push_reduced)

lemma reduce_id: "reduced_components cs \<Longrightarrow> reducePathComponents cs = cs"
  by (cases cs) (auto simp: reduced_components_def reducePathComponents_push foldl_push_id)

lemma reduce_append:
  "cs \<noteq> [] \<Longrightarrow> reducePathComponents (cs @ ds) = foldl reduce_step (reducePathComponents cs) ds"
  by (cases cs) (auto simp: reducePathComponents_def)

section \<open>The component loop computes the reduced components\<close>

lemma split_slashes: "split_byte slash (replicate k slash @ s) = replicate k [] @ split_byte slash s"
  by (induction k) auto

lemma foldl_push_empties: "foldl (push root) cs (replicate k []) = cs"
  by (induction k) (auto simp: push_def)

lemma split_takeWhile_Nil: "dropWhile (\<lambda>c. c \<noteq> d) s = [] \<Longrightarrow> split_byte d s = [s]"
  by (induction s) (auto split: if_splits)

lemma split_takeWhile_Cons:
  "dropWhile (\<lambda>c. c \<noteq> d) s = x # s' \<Longrightarrow>
   split_byte d s = takeWhile (\<lambda>c. c \<noteq> d) s # split_byte d s'"
  by (induction s) (auto split: if_splits)

lemma takeWhile_replicate: "takeWhile (\<lambda>c. c = d) s = replicate (length (takeWhile (\<lambda>c. c = d) s)) d"
  by (rule replicate_length_same [symmetric]) (auto dest: set_takeWhileD)

lemma skip_slashes_split:
  "drop i path = replicate (skip_slashes path i - i) slash @ drop (skip_slashes path i) path"
proof -
  have "drop i path = takeWhile (\<lambda>c. c = slash) (drop i path) @ dropWhile (\<lambda>c. c = slash) (drop i path)"
    by simp
  also have "dropWhile (\<lambda>c. c = slash) (drop i path) = drop (skip_slashes path i) path"
    by (simp add: dropWhile_eq_drop skip_slashes_def add.commute)
  also have "takeWhile (\<lambda>c. c = slash) (drop i path) = replicate (skip_slashes path i - i) slash"
    using takeWhile_replicate [of slash "drop i path"] by (simp add: skip_slashes_def)
  finally show ?thesis .
qed

lemma segment_split:
  assumes "i \<le> length path"
  shows "split_byte slash (drop i path) =
    drop i (take (segment_end path i) path)
      # (if segment_end path i < length path then split_byte slash (drop (segment_end path i + 1) path)
         else [])"
proof -
  let ?w = "takeWhile (\<lambda>c. c \<noteq> slash) (drop i path)"
  have w: "?w = drop i (take (segment_end path i) path)"
    by (metis (no_types, lifting) add_diff_cancel_left' segment_end_def take_drop takeWhile_eq_take
        drop_take)
  have d: "dropWhile (\<lambda>c. c \<noteq> slash) (drop i path) = drop (segment_end path i) path"
    by (simp add: dropWhile_eq_drop segment_end_def add.commute)
  show ?thesis
  proof (cases "segment_end path i < length path")
    case True
    then have "drop (segment_end path i) path
        = path ! segment_end path i # drop (segment_end path i + 1) path"
      by (simp add: Cons_nth_drop_Suc)
    with d have "dropWhile (\<lambda>c. c \<noteq> slash) (drop i path)
        = path ! segment_end path i # drop (segment_end path i + 1) path" by simp
    from split_takeWhile_Cons [OF this] True w show ?thesis by simp
  next
    case False
    then have "drop (segment_end path i) path = []" by simp
    with d have e: "dropWhile (\<lambda>c. c \<noteq> slash) (drop i path) = []" by simp
    then have "?w = drop i path"
      by (metis append_Nil2 takeWhile_dropWhile_id)
    with split_takeWhile_Nil [OF e] False w show ?thesis by simp
  qed
qed

lemma segment_end_stop: "segment_end path i < length path \<Longrightarrow> path ! segment_end path i = slash"
  using nth_length_takeWhile [of "\<lambda>c. c \<noteq> slash" "drop i path"]
  by (simp add: segment_end_def)

lemma normalized_components_loop_push:
  "normalized_components_loop path i (root # cs)
     = root # foldl (push root) cs (split_byte slash (drop i path))"
proof (induction path i "root # cs" arbitrary: cs rule: normalized_components_loop.induct)
  case (1 path i cs)
  let ?s = "skip_slashes path i"
  show ?case
  proof (cases "i < length path")
    case False
    then show ?thesis by (subst normalized_components_loop.simps) (simp add: push_def)
  next
    case True
    have split: "split_byte slash (drop i path)
        = replicate (?s - i) [] @ split_byte slash (drop ?s path)"
      by (metis skip_slashes_split split_slashes)
    show ?thesis
    proof (cases "length path \<le> ?s")
      case fin: True
      with True split show ?thesis
        by (subst normalized_components_loop.simps) (simp add: foldl_push_empties push_def)
    next
      case False
      let ?e = "segment_end path ?s"
      have "split_byte slash (drop ?e path)
          = (if ?e < length path then [] # split_byte slash (drop (?e + 1) path) else [[]])"
        using segment_end_stop [of path ?s] by (simp add: Cons_nth_drop_Suc [symmetric])
      moreover have "split_byte slash (drop ?s path) = drop ?s (take ?e path)
          # (if ?e < length path then split_byte slash (drop (?e + 1) path) else [])"
        using False by (intro segment_split) simp
      ultimately have "foldl (push root) cs (split_byte slash (drop i path))
          = foldl (push root) (push root cs (drop ?s (take ?e path))) (split_byte slash (drop ?e path))"
        unfolding split by (simp add: foldl_push_empties push_def)
      with 1(1) [OF True refl False refl] False True show ?thesis
        by (subst normalized_components_loop.simps) (simp add: Let_def normalized_step_push)
    qed
  qed
qed

lemma pathComponents_push:
  "reducePathComponents (pathComponents path n)
     = take n path # foldl (push (take n path)) [] (split_byte slash (drop n path))"
proof -
  let ?rest = "split_byte slash (drop n path)"
  have "foldl (push root) [] (if last ?rest = [] then butlast ?rest else ?rest)
      = foldl (push root) [] ?rest" for root
  proof (cases "last ?rest = []")
    case True
    then have "?rest = butlast ?rest @ [[]]"
      using append_butlast_last_id [OF split_byte_not_Nil [of slash "drop n path"]] by simp
    then have "foldl (push root) [] ?rest = foldl (push root) [] (butlast ?rest @ [[]])" by simp
    with True show ?thesis by (simp add: push_def)
  qed simp
  then show ?thesis by (simp add: pathComponents_def reducePathComponents_push Let_def)
qed

lemma component_loop_reduces:
  "getNormalizedPathComponentsFromCombined p = reducePathComponents (pathComponents p (GetRootLength p))"
  by (simp add: getNormalizedPathComponentsFromCombined_def normalized_components_loop_push
      pathComponents_push)

section \<open>Properties\<close>

text \<open>The component loop of \<open>getNormalizedPathComponentsFromCombined\<close>, which walks the path byte
  by byte and never splits it, returns exactly the components that splitting the path at its root
  and separators and reducing the result gives, for every path.\<close>
theorem getNormalizedPathComponentsFromCombined_reduces:
  "getNormalizedPathComponentsFromCombined p
     = reducePathComponents (pathComponents p (GetRootLength p))"
  by (rule component_loop_reduces)

text \<open>\<open>reducePathComponents\<close> returns a normal form, a root followed by proper names with \<open>..\<close>
  left only in front and only when the root is empty, and leaves a list in normal form as it is,
  so reducing twice is reducing once.\<close>
theorem reducePathComponents_normal_form:
  "reduced_components (reducePathComponents cs)
   \<and> reducePathComponents (reducePathComponents cs) = reducePathComponents cs"
  by (simp add: reduced_reduce reduce_id)

end
