(* ===== verification/PathAbs.thy ===== *)
theory PathAbs
  imports PathNorm
begin

text \<open>
  \<open>tsc/internal/tspath/path.go\<close>, third part: normalisation on the string itself. The scanner
  \<open>hasRelativePathSegment\<close>, the fast path \<open>simpleNormalizePath\<close>, the loop of
  \<open>GetNormalizedAbsolutePath\<close> with its local variables as a record, and the functions built on
  it. The lemmas here give the scanner and the fast path their specification over the
  segments of a path; theory \<open>PathNormCorrect\<close> does the same for the loop.
\<close>

section \<open>The code\<close>

text \<open>The loop of \<open>hasRelativePathSegment\<close> over the remaining bytes.\<close>

fun scan_segments :: "string \<Rightarrow> bool \<Rightarrow> int \<Rightarrow> int \<Rightarrow> bool" where
  "scan_segments [] prevSlash segLen dotCount =
     (segLen = 1 \<and> dotCount = 1 \<or> segLen = 2 \<and> dotCount = 2)"
| "scan_segments (c # p) prevSlash segLen dotCount =
     (if c = slash then
        (if prevSlash then True
         else if segLen = 1 \<and> dotCount = 1 \<or> segLen = 2 \<and> dotCount = 2 then True
         else scan_segments p True 0 0)
      else scan_segments p False (segLen + 1)
             (if c = CHR ''.'' then (if 0 \<le> dotCount then dotCount + 1 else dotCount) else -1))"

definition hasRelativePathSegment :: "string \<Rightarrow> bool" where
  "hasRelativePathSegment p =
     (let n = length p in
      if n = 0 then False
      else if p = ''.'' \<or> p = ''..'' then True
      else if p ! 0 = CHR ''.'' \<and> 2 \<le> n \<and> p ! 1 = slash then True
      else if p ! 0 = CHR ''.'' \<and> 3 \<le> n \<and> p ! 1 = CHR ''.'' \<and> p ! 2 = slash then True
      else if p ! (n - 1) = CHR ''.'' \<and> 2 \<le> n \<and> p ! (n - 2) = slash then True
      else if p ! (n - 1) = CHR ''.'' \<and> 3 \<le> n \<and> p ! (n - 2) = CHR ''.'' \<and> p ! (n - 3) = slash then True
      else scan_segments p False 0 0)"

definition simpleNormalizePath :: "string \<Rightarrow> string \<times> bool" where
  "simpleNormalizePath path =
     (if \<not> hasRelativePathSegment path then (path, True)
      else (let simplified = replace_all path ''/./'' ''/'';
                trimmed = TrimPrefix simplified ''./''
            in if trimmed \<noteq> path \<and> \<not> hasRelativePathSegment trimmed
                  \<and> \<not> (trimmed \<noteq> simplified \<and> HasPrefix trimmed ''/'')
               then (trimmed, True)
               else ([], False)))"

text \<open>The local variables of \<open>GetNormalizedAbsolutePath\<close>.\<close>

record norm_state =
  changed :: bool
  normalized :: string
  index :: nat
  normalizedUpTo :: nat
  seenNonDotDotSegment :: bool

definition seen_after :: "nat \<Rightarrow> string \<Rightarrow> bool" where
  "seen_after rootLength normal \<longleftrightarrow>
     (length normal \<noteq> rootLength \<or> rootLength \<noteq> 0) \<and> normal \<noteq> ''..'' \<and> \<not> HasSuffix normal ''/..''"

text \<open>\<open>path[:max(rootLength, lastSlash)]\<close>, where \<open>lastSlash\<close> is \<open>-1\<close> when there is none.\<close>

definition cut_at_slash :: "nat \<Rightarrow> nat option \<Rightarrow> string \<Rightarrow> string" where
  "cut_at_slash rootLength lastSlash path =
     take (max rootLength (case lastSlash of Some k \<Rightarrow> k | None \<Rightarrow> 0)) path"

text \<open>The superfluous separators in front of a segment.\<close>

definition norm_separators :: "string \<Rightarrow> nat \<Rightarrow> norm_state \<Rightarrow> norm_state" where
  "norm_separators fileName rootLength s =
     (let segmentStart = index s; i = skip_slashes fileName segmentStart in
      if segmentStart < i \<and> \<not> changed s
      then s\<lparr>normalized := take (max rootLength (segmentStart - 1)) fileName, changed := True, index := i\<rparr>
      else s\<lparr>index := i\<rparr>)"

text \<open>One segment, from \<open>index\<close> to the next separator.\<close>

definition norm_segment :: "string \<Rightarrow> nat \<Rightarrow> norm_state \<Rightarrow> norm_state" where
  "norm_segment fileName rootLength s =
     (let root = take rootLength fileName;
          i = index s;
          segmentEnd = (case index_byte (drop (i + 1) fileName) slash of
                          None \<Rightarrow> length fileName | Some k \<Rightarrow> k + (i + 1));
          segmentLength = segmentEnd - i;
          s' =
            (if segmentLength = 1 \<and> fileName ! i = CHR ''.'' then
               (if \<not> changed s
                then s\<lparr>normalized := take (normalizedUpTo s) fileName, changed := True\<rparr> else s)
             else if segmentLength = 2 \<and> fileName ! i = CHR ''.'' \<and> fileName ! (i + 1) = CHR ''.'' then
               (if \<not> seenNonDotDotSegment s then
                  (if changed s
                   then s\<lparr>normalized :=
                            (if length (normalized s) = rootLength then normalized s @ ''..''
                             else normalized s @ ''/..'')\<rparr>
                   else s\<lparr>normalizedUpTo := i + 2\<rparr>)
                else if \<not> changed s then
                  (let norm =
                     (if 1 \<le> normalizedUpTo s
                      then cut_at_slash rootLength
                             (last_index_byte (take (normalizedUpTo s - 1) fileName) slash) fileName
                      else take (normalizedUpTo s) fileName)
                   in s\<lparr>normalized := norm, changed := True,
                        seenNonDotDotSegment := seen_after rootLength norm\<rparr>)
                else
                  (let norm =
                     (case last_index_byte (normalized s) slash of
                        Some k \<Rightarrow> take (max rootLength k) (normalized s)
                      | None \<Rightarrow> root)
                   in s\<lparr>normalized := norm, seenNonDotDotSegment := seen_after rootLength norm\<rparr>))
             else if changed s then
               s\<lparr>normalized := (if length (normalized s) \<noteq> rootLength then normalized s @ ''/''
                               else normalized s) @ drop i (take segmentEnd fileName),
                 seenNonDotDotSegment := True\<rparr>
             else s\<lparr>seenNonDotDotSegment := True, normalizedUpTo := segmentEnd\<rparr>)
      in s'\<lparr>index := segmentEnd + 1\<rparr>)"

lemma index_norm_separators: "index (norm_separators f r s) = skip_slashes f (index s)"
  by (simp add: norm_separators_def Let_def)

lemma index_norm_segment:
  "index (norm_segment f r s) =
     (case index_byte (drop (index s + 1) f) slash of
        None \<Rightarrow> length f | Some k \<Rightarrow> k + (index s + 1)) + 1"
  by (simp add: norm_segment_def Let_def)

function norm_loop :: "string \<Rightarrow> nat \<Rightarrow> norm_state \<Rightarrow> norm_state" where
  "norm_loop fileName rootLength s =
     (if index s < length fileName then
        (let s1 = norm_separators fileName rootLength s in
         if index s < index s1 \<and> index s1 = length fileName then s1
         else norm_loop fileName rootLength (norm_segment fileName rootLength s1))
      else s)"
  by pat_completeness auto
termination
proof (relation "measure (\<lambda>(f, r, s). length f - index s)")
  fix f :: string and r :: nat and s s1 :: norm_state
  assume "index s < length f" "s1 = norm_separators f r s"
  moreover have "index s \<le> index (norm_separators f r s)"
    by (simp add: index_norm_separators skip_slashes_ge)
  ultimately have "index s < index (norm_segment f r s1)"
    by (auto simp: index_norm_segment split: option.splits)
  with \<open>index s < length f\<close>
  show "((f, r, norm_segment f r s1), f, r, s) \<in> measure (\<lambda>(f, r, s). length f - index s)"
    by simp
qed simp

declare norm_loop.simps [simp del]

definition GetNormalizedAbsolutePath :: "string \<Rightarrow> string \<Rightarrow> string" where
  "GetNormalizedAbsolutePath fileName0 currentDirectory =
     (let fileName = (if GetRootLength fileName0 = 0 \<and> currentDirectory \<noteq> []
                      then CombinePaths currentDirectory [fileName0]
                      else NormalizeSlashes fileName0);
          rootLength = GetRootLength fileName
      in case simpleNormalizePath fileName of
           (simpleNormalized, True) \<Rightarrow>
             (if length simpleNormalized > rootLength
              then RemoveTrailingDirectorySeparator simpleNormalized
              else if length simpleNormalized = rootLength \<and> rootLength \<noteq> 0
              then EnsureTrailingDirectorySeparator simpleNormalized
              else simpleNormalized)
         | (_, False) \<Rightarrow>
             (let s = norm_loop fileName rootLength
                        \<lparr>changed = False, normalized = [], index = rootLength,
                         normalizedUpTo = rootLength, seenNonDotDotSegment = (rootLength \<noteq> 0)\<rparr>
              in if changed s then normalized s
                 else if length fileName > rootLength then RemoveTrailingDirectorySeparators fileName
                 else if length fileName = rootLength then EnsureTrailingDirectorySeparator fileName
                 else fileName))"

definition GetNormalizedAbsolutePathWithoutRoot :: "string \<Rightarrow> string \<Rightarrow> string" where
  "GetNormalizedAbsolutePathWithoutRoot fileName currentDirectory =
     (let absolutePath = GetNormalizedAbsolutePath fileName currentDirectory
      in drop (GetRootLength absolutePath) absolutePath)"

definition NormalizePath :: "string \<Rightarrow> string" where
  "NormalizePath path0 =
     (let path = NormalizeSlashes path0 in
      case simpleNormalizePath path of
        (norm, True) \<Rightarrow> norm
      | (_, False) \<Rightarrow>
          (let norm = GetNormalizedAbsolutePath path [] in
           if norm \<noteq> [] \<and> HasTrailingDirectorySeparator path
           then EnsureTrailingDirectorySeparator norm else norm))"

definition ResolvePath :: "string \<Rightarrow> string list \<Rightarrow> string" where
  "ResolvePath path paths =
     (let combinedPath = (if paths \<noteq> [] then CombinePaths path paths else NormalizeSlashes path)
      in NormalizePath combinedPath)"

definition ResolveTripleslashReference :: "string \<Rightarrow> string \<Rightarrow> string" where
  "ResolveTripleslashReference moduleName containingFile =
     (let basePath = GetDirectoryPath containingFile in
      if IsRootedDiskPath moduleName then NormalizePath moduleName
      else NormalizePath (CombinePaths basePath [moduleName]))"

section \<open>The scanner finds a relative or an empty segment\<close>

text \<open>A segment is relative when it is \<open>.\<close> or \<open>..\<close>; a path has an empty one inside when it contains \<open>//\<close>.\<close>

definition dots :: "string \<Rightarrow> bool" where
  "dots w \<longleftrightarrow> w = ''.'' \<or> w = ''..''"

definition relative_segment :: "string \<Rightarrow> bool" where
  "relative_segment p \<longleftrightarrow> str_contains p ''//'' \<or> list_ex dots (split_byte slash p)"

definition dot_count :: "string \<Rightarrow> int" where
  "dot_count w = (if set w \<subseteq> {CHR ''.''} then int (length w) else -1)"

lemma dots_counts:
  "dots w \<longleftrightarrow> int (length w) = 1 \<and> dot_count w = 1 \<or> int (length w) = 2 \<and> dot_count w = 2"
proof (cases "set w \<subseteq> {CHR ''.''}")
  case True
  then have w: "w = replicate (length w) CHR ''.''"
    by (intro replicate_eqI) auto
  have "dots (replicate n CHR ''.'') \<longleftrightarrow> n = 1 \<or> n = 2" for n
  proof -
    consider "n = 0" | "n = 1" | "n = 2" | k where "n = Suc (Suc (Suc k))"
      by (metis One_nat_def Suc_1 not0_implies_Suc)
    then show ?thesis by cases (simp_all add: dots_def numeral_2_eq_2)
  qed
  with w have "dots w \<longleftrightarrow> length w = 1 \<or> length w = 2" by metis
  with True show ?thesis by (auto simp: dot_count_def)
next
  case False
  then show ?thesis by (auto simp: dots_def dot_count_def)
qed

lemma dot_count_snoc:
  "dot_count (w @ [c]) =
     (if c = CHR ''.'' then (if 0 \<le> dot_count w then dot_count w + 1 else dot_count w) else -1)"
  by (auto simp: dot_count_def)

lemma contains_slashes_Cons:
  "str_contains (c # s) ''//'' \<longleftrightarrow> c = slash \<and> HasPrefix s ''/'' \<or> str_contains s ''//''"
  by (auto simp: str_contains_def)

lemma scan_segments_spec:
  "slash \<notin> set w \<Longrightarrow>
   scan_segments p (prev \<and> w = []) (int (length w)) (dot_count w) \<longleftrightarrow>
     prev \<and> w = [] \<and> HasPrefix p ''/'' \<or> str_contains p ''//''
     \<or> list_ex dots (split_byte slash (w @ p))"
proof (induction p arbitrary: w prev)
  case Nil
  then show ?case
    by (simp add: split_byte_no_occ dots_counts str_contains_def)
next
  case (Cons c p)
  show ?case
  proof (cases "c = slash")
    case True
    have "scan_segments p True 0 0 \<longleftrightarrow>
        HasPrefix p ''/'' \<or> str_contains p ''//'' \<or> list_ex dots (split_byte slash p)"
      using Cons.IH [of "[]" True] by (simp add: dot_count_def)
    moreover have "dots [] = False" by (simp add: dots_def)
    moreover have "scan_segments (c # p) (prev \<and> w = []) (int (length w)) (dot_count w) \<longleftrightarrow>
        prev \<and> w = [] \<or> dots w \<or> scan_segments p True 0 0"
      using True by (simp only: scan_segments.simps dots_counts if_True) auto
    ultimately show ?thesis using True Cons.prems
      by (auto simp: split_byte_append_sep split_byte_no_occ contains_slashes_Cons simp del: scan_segments.simps)
  next
    case False
    have "scan_segments p False (int (length (w @ [c]))) (dot_count (w @ [c])) \<longleftrightarrow>
        str_contains p ''//'' \<or> list_ex dots (split_byte slash (w @ c # p))"
      using Cons.IH [of "w @ [c]" False] Cons.prems False by simp
    with False show ?thesis
      by (simp add: dot_count_snoc contains_slashes_Cons add.commute)
  qed
qed

lemma segment_of: 
  assumes "slash \<notin> set w" "p = w \<or> (\<exists>t. p = w @ slash # t) \<or> (\<exists>t. p = t @ slash # w)"
  shows "w \<in> set (split_byte slash p)"
  using assms by (auto simp: split_byte_append_sep split_byte_no_occ)

lemma scan_segments_start: "scan_segments p False 0 0 \<longleftrightarrow> relative_segment p"
  using scan_segments_spec [of "[]" p False] by (simp add: relative_segment_def dot_count_def)

lemma relative_ends:
  assumes "p = w \<or> (\<exists>t. p = w @ slash # t) \<or> (\<exists>t. p = t @ slash # w)" "dots w"
  shows "relative_segment p"
proof -
  have "slash \<notin> set w" using assms(2) by (auto simp: dots_def)
  then have "w \<in> set (split_byte slash p)" using assms(1) by (rule segment_of)
  with assms(2) show ?thesis by (auto simp: relative_segment_def list_ex_iff)
qed

lemma nth_prefix2: "2 \<le> length p \<Longrightarrow> p ! 0 = a \<Longrightarrow> p ! 1 = b \<Longrightarrow> \<exists>t. p = [a] @ b # t"
  by (cases p; cases "tl p") auto

lemma nth_prefix3:
  "3 \<le> length p \<Longrightarrow> p ! 0 = a \<Longrightarrow> p ! 1 = b \<Longrightarrow> p ! 2 = c \<Longrightarrow> \<exists>t. p = [a, b] @ c # t"
  by (cases p; cases "tl p"; cases "tl (tl p)") auto

lemma nth_suffix2:
  "2 \<le> length p \<Longrightarrow> p ! (length p - 1) = a \<Longrightarrow> p ! (length p - 2) = b \<Longrightarrow> \<exists>t. p = t @ b # [a]"
  by (cases p rule: rev_cases; cases "butlast p" rule: rev_cases) (auto simp: nth_append)

lemma nth_suffix3:
  "3 \<le> length p \<Longrightarrow> p ! (length p - 1) = a \<Longrightarrow> p ! (length p - 2) = b \<Longrightarrow> p ! (length p - 3) = c
   \<Longrightarrow> \<exists>t. p = t @ c # [b, a]"
proof -
  assume "3 \<le> length p" "p ! (length p - 1) = a" "p ! (length p - 2) = b" "p ! (length p - 3) = c"
  moreover from this have "p \<noteq> []" by auto
  ultimately have "\<exists>t. rev p = [a, b] @ c # t"
    by (intro nth_prefix3) (use rev_nth [of 0 p] in \<open>simp_all add: rev_nth numeral_2_eq_2 numeral_3_eq_3\<close>)
  then obtain t where "rev p = [a, b] @ c # t" ..
  then have "p = rev t @ c # [b, a]" by (metis append.assoc append_Cons append_Nil rev.simps(2)
        rev_append rev_rev_ident)
  then show ?thesis by blast
qed

lemma hasRelativePathSegment_relative: "hasRelativePathSegment p \<longleftrightarrow> relative_segment p"
proof (cases "p = []")
  case True
  then show ?thesis
    by (simp add: hasRelativePathSegment_def relative_segment_def dots_def str_contains_def)
next
  case False
  have ends: "relative_segment p"
    if "p = ''.'' \<or> p = ''..'' \<or> p ! 0 = CHR ''.'' \<and> 2 \<le> length p \<and> p ! 1 = slash
        \<or> p ! 0 = CHR ''.'' \<and> 3 \<le> length p \<and> p ! 1 = CHR ''.'' \<and> p ! 2 = slash
        \<or> p ! (length p - 1) = CHR ''.'' \<and> 2 \<le> length p \<and> p ! (length p - 2) = slash
        \<or> p ! (length p - 1) = CHR ''.'' \<and> 3 \<le> length p \<and> p ! (length p - 2) = CHR ''.''
          \<and> p ! (length p - 3) = slash"
  proof -
    have "dots ''.''" "dots ''..''" by (simp_all add: dots_def)
    note one = relative_ends [OF _ this(1), of p] and two = relative_ends [OF _ this(2), of p]
    from that show ?thesis
    proof (elim disjE conjE, goal_cases)
      case 3 then show ?case using nth_prefix2 one by metis
    next
      case 4 then show ?case using nth_prefix3 [of p] two by (metis append_Cons append_Nil)
    next
      case 5 then show ?case using nth_suffix2 [of p] one by metis
    next
      case 6
      then have "\<exists>t. p = t @ slash # ''..''" by (intro nth_suffix3)
      then show ?case by (rule two [OF disjI2 [OF disjI2]])
    qed (use one two in auto)
  qed
  with False show ?thesis
    by (simp only: hasRelativePathSegment_def Let_def scan_segments_start if_bool_eq_disj
        length_0_conv) argo
qed

section \<open>Properties\<close>

text \<open>The scanner \<open>hasRelativePathSegment\<close>, with its checks of both ends and its counters of
  dots and of segment length, answers true exactly when the path contains \<open>//\<close> or has a segment
  that is \<open>.\<close> or \<open>..\<close>.\<close>
theorem hasRelativePathSegment_spec:
  "hasRelativePathSegment p \<longleftrightarrow>
     str_contains p ''//'' \<or> (\<exists>w. w \<in> set (split_byte slash p) \<and> (w = ''.'' \<or> w = ''..''))"
  by (auto simp: hasRelativePathSegment_relative relative_segment_def list_ex_iff dots_def)

end
