(* ===== verification/PathSimple.thy ===== *)
theory PathSimple
  imports PathAbs
begin

text \<open>
  The fast path of \<open>GetNormalizedAbsolutePath\<close> is right: when \<open>simpleNormalizePath\<close> accepts a
  path, the string it returns has the same reduced components as the path. The argument
  works on the segments that count (\<open>names\<close>): neither empty nor \<open>.\<close>.
\<close>

definition counts :: "string \<Rightarrow> bool" where
  "counts w \<longleftrightarrow> w \<noteq> [] \<and> w \<noteq> ''.''"

definition names :: "string \<Rightarrow> string list" where
  "names s = filter counts (split_byte slash s)"

lemma push_not_counts: "\<not> counts w \<Longrightarrow> push root cs w = cs"
  by (auto simp: push_def counts_def)

lemma foldl_push_names_of: "foldl (push root) cs (filter counts ws) = foldl (push root) cs ws"
  by (induction ws arbitrary: cs) (auto simp: push_not_counts)

lemma foldl_push_split: "foldl (push root) cs (split_byte slash s) = foldl (push root) cs (names s)"
  by (simp add: names_def foldl_push_names_of)

lemma names_append_slash: "names (s @ slash # t) = names s @ names t"
  by (simp add: names_def split_byte_append_sep)

lemma names_Nil [simp]: "names [] = []"
  by (simp add: names_def counts_def)

lemma names_slash [simp]: "names (slash # t) = names t"
  by (simp add: names_def counts_def)

lemma names_segment: "slash \<notin> set w \<Longrightarrow> names w = (if counts w then [w] else [])"
  by (simp add: names_def split_byte_no_occ)

section \<open>Deleting inner dot segments keeps the names\<close>

lemma names_replace:
  "slash \<notin> set w \<Longrightarrow> names (w @ replace_all s ''/./'' ''/'') = names (w @ s)"
proof (induction s "''/./''" "''/''" arbitrary: w rule: replace_all.induct)
  case 1
  then show ?case by simp
next
  case (2 c s)
  show ?case
  proof (cases "HasPrefix (c # s) ''/./''")
    case True
    then obtain b where b: "c # s = ''/./'' @ b" by (auto simp: HasPrefix_iff)
    have "names (w @ ''/./'' @ b) = names w @ names (CHR ''.'' # slash # b)"
      by (simp add: names_append_slash)
    also have "names (CHR ''.'' # slash # b) = names b"
      using names_append_slash [of "''.''" b] by (simp add: names_segment counts_def)
    finally show ?thesis using "2.hyps"(1) [of "[]"] True b
      by (simp add: names_append_slash)
  next
    case False
    show ?thesis
    proof (cases "c = slash")
      case True
      with False "2.hyps"(2) [of "[]"] show ?thesis by (simp add: names_append_slash)
    next
      case c: False
      with False "2.hyps"(2) [of "w @ [c]"] "2.prems" show ?thesis by simp
    qed
  qed
qed

lemma replace_first: "HasPrefix (replace_all s ''/./'' ''/'') ''/'' \<longleftrightarrow> HasPrefix s ''/''"
  by (cases s) (auto simp: HasPrefix_iff)

lemma contains_replace:
  "str_contains s ''//'' \<Longrightarrow> str_contains (replace_all s ''/./'' ''/'') ''//''"
proof (induction s "''/./''" "''/''" rule: replace_all.induct)
  case 1
  then show ?case by simp
next
  case (2 c s)
  show ?case
  proof (cases "HasPrefix (c # s) ''/./''")
    case True
    then obtain b where "c # s = ''/./'' @ b" by (auto simp: HasPrefix_iff)
    with 2 show ?thesis by (auto simp: contains_slashes_Cons replace_first)
  next
    case False
    with 2 show ?thesis by (auto simp: contains_slashes_Cons replace_first)
  qed
qed

lemma replace_first_segment:
  "slash \<notin> set x \<Longrightarrow> \<exists>y. replace_all (x @ slash # t) ''/./'' ''/'' = x @ slash # y"
proof (induction x)
  case Nil
  show ?case using replace_first [of "slash # t"] by (auto simp: HasPrefix_iff)
qed auto

section \<open>The shape of a path without relative segments\<close>

lemma relative_segment_append:
  assumes "\<not> relative_segment (s @ slash # t)"
  shows "\<not> relative_segment t" "\<not> HasPrefix t ''/''" "\<not> relative_segment s"
proof -
  have "\<not> str_contains (s @ slash # t) ''//''" using assms by (auto simp: relative_segment_def)
  then have "\<not> str_contains (slash # t) ''//''" "\<not> str_contains s ''//''"
    by (auto simp: str_contains_iff) (metis append.assoc append_Cons, metis append.assoc)
  with assms show "\<not> relative_segment t" "\<not> HasPrefix t ''/''" "\<not> relative_segment s"
    by (auto simp: relative_segment_def split_byte_append_sep contains_slashes_Cons)
qed

lemma not_relative_names:
  "\<not> relative_segment t \<Longrightarrow> list_all proper_name (names t)"
  by (auto simp: relative_segment_def names_def list_all_iff list_ex_iff proper_name_def counts_def
      dots_def)

lemma foldl_push_not_relative:
  "\<not> relative_segment t \<Longrightarrow> foldl (push root) [] (split_byte slash t) = names t"
  by (simp add: foldl_push_split foldl_push_names not_relative_names)

lemma not_relative_shape:
  "\<not> relative_segment t \<Longrightarrow> \<not> HasPrefix t ''/'' \<Longrightarrow>
   t = str_join (names t) ''/'' @ (if names t \<noteq> [] \<and> HasSuffix t ''/'' then ''/'' else [])
   \<and> (names t = [] \<longrightarrow> t = [])"
proof (induction "length t" arbitrary: t rule: less_induct)
  case less
  show ?case
  proof (cases "slash \<in> set t")
    case False
    with less.prems have "t = [] \<or> counts t"
      by (auto simp: relative_segment_def split_byte_no_occ dots_def counts_def)
    with False show ?thesis
      by (auto simp: names_segment HasSuffix_iff counts_def)
  next
    case True
    then obtain x y where t: "t = x @ slash # y" and x: "slash \<notin> set x"
      by (metis split_list_first)
    note y = relative_segment_append [OF less.prems(1) [unfolded t]]
    have IH: "y = str_join (names y) ''/'' @ (if names y \<noteq> [] \<and> HasSuffix y ''/'' then ''/'' else [])"
      "names y = [] \<longrightarrow> y = []"
      using less.hyps [of y] y t by auto
    have "x \<noteq> []" using less.prems(2) t by auto
    moreover have "\<not> dots x"
      using y(3) x by (auto simp: relative_segment_def split_byte_no_occ)
    ultimately have "counts x" by (auto simp: counts_def dots_def)
    with x t have n: "names t = x # names y" by (simp add: names_append_slash names_segment)
    show ?thesis
    proof (cases "names y = []")
      case True
      with IH n t show ?thesis by (auto simp: HasSuffix_iff)
    next
      case False
      then have "HasSuffix t ''/'' \<longleftrightarrow> HasSuffix y ''/''"
        using t by (cases y rule: rev_cases) (auto simp: HasSuffix_iff)
      with IH(1) False n t show ?thesis by (simp add: str_join_Cons)
    qed
  qed
qed

lemma join_names_last:
  assumes "\<forall>w\<in>set ws. w \<noteq> [] \<and> slash \<notin> set w \<and> backslash \<notin> set w" "ws \<noteq> []"
  shows "str_join ws ''/'' \<noteq> []" "\<not> isAnyDirectorySeparator (last (str_join ws ''/''))"
proof -
  have "str_join ws ''/'' \<noteq> [] \<and> \<not> isAnyDirectorySeparator (last (str_join ws ''/''))"
    using assms
  proof (induction ws)
    case (Cons w ws)
    then show ?case
      by (cases "ws = []") (auto simp: str_join_Cons isAnyDirectorySeparator_def dest: last_in_set)
  qed simp
  then show "str_join ws ''/'' \<noteq> []" "\<not> isAnyDirectorySeparator (last (str_join ws ''/''))"
    by simp_all
qed

lemma split_byte_subset: "w \<in> set (split_byte d s) \<Longrightarrow> set w \<subseteq> set s"
  by (induction s arbitrary: w) (fastforce split: list.splits if_splits)+

lemma names_wf:
  "backslash \<notin> set s \<Longrightarrow> \<forall>w\<in>set (names s). w \<noteq> [] \<and> slash \<notin> set w \<and> backslash \<notin> set w"
  by (auto simp: names_def counts_def dest: split_byte_subset split_byte_no_sep)

lemma remove_trailing_slash: "RemoveTrailingDirectorySeparator (x @ ''/'') = x"
  by (simp add: RemoveTrailingDirectorySeparator_def HasTrailingDirectorySeparator_def
      isAnyDirectorySeparator_def)

lemma remove_trailing_shape:
  assumes "backslash \<notin> set t" "\<not> relative_segment t" "\<not> HasPrefix t ''/''" "t \<noteq> []"
  shows "RemoveTrailingDirectorySeparator (root @ t) = root @ str_join (names t) ''/''"
proof -
  from not_relative_shape [OF assms(2,3)] assms(4) have n: "names t \<noteq> []"
    and t: "t = str_join (names t) ''/'' @ (if HasSuffix t ''/'' then ''/'' else [])" by auto
  note j = join_names_last [OF names_wf [OF assms(1)] n]
  show ?thesis
  proof (cases "HasSuffix t ''/''")
    case True
    with t have "root @ t = (root @ str_join (names t) ''/'') @ ''/''" by simp
    then show ?thesis by (simp only: remove_trailing_slash)
  next
    case False
    with t have "t = str_join (names t) ''/''" by simp
    with j assms(4) show ?thesis
      by (metis HasTrailingDirectorySeparator_def RemoveTrailingDirectorySeparator_def last_appendR)
  qed
qed

section \<open>The roots of paths without empty inner segments\<close>

lemma root_classify:
  assumes "backslash \<notin> set f" "\<not> str_contains f ''//''"
  shows "GetRootLength f = 0 \<and> \<not> HasPrefix f ''/''
       \<or> GetRootLength f = length f \<and> f \<noteq> [] \<and> slash \<notin> set f \<and> \<not> dots f
       \<or> (\<exists>x y. f = x @ slash # y \<and> GetRootLength f = length x + 1 \<and> slash \<notin> set x \<and> \<not> dots x)"
proof -
  have "str_index f ''://'' = None"
  proof (rule ccontr)
    assume "str_index f ''://'' \<noteq> None"
    then obtain p q where "f = p @ ''://'' @ q" by (metis str_index_None_iff)
    then have "f = (p @ '':'') @ ''//'' @ q" by simp
    with assms(2) show False unfolding str_contains_iff by blast
  qed
  note url = this
  show ?thesis
  proof (cases f)
    case Nil
    then show ?thesis by (simp add: GetRootLength_def GetEncodedRootLength_def)
  next
    case (Cons c s)
    have "c \<noteq> backslash" using assms(1) Cons by auto
    show ?thesis
    proof (cases "c = slash")
      case True
      with assms(2) Cons have "s = [] \<or> s ! 0 \<noteq> slash"
        by (cases s) (auto simp: contains_slashes_Cons)
      with True Cons have "GetRootLength f = 1"
        by (auto simp: GetRootLength_def GetEncodedRootLength_def Let_def)
      with True Cons show ?thesis by (intro disjI2) (auto simp: dots_def intro!: exI [of _ "[]"])
    next
      case False
      note c = this
      show ?thesis
      proof (cases s)
        case Nil
        with c Cons url \<open>c \<noteq> backslash\<close> show ?thesis
          by (auto simp: GetRootLength_def GetEncodedRootLength_def Let_def)
      next
        case s: (Cons d u)
        have root: "GetRootLength f =
            (if IsVolumeCharacter c \<and> d = CHR '':'' \<and> u = [] then 2
             else if IsVolumeCharacter c \<and> d = CHR '':'' \<and> hd u = slash then 3
             else if c = CHR ''^'' \<and> d = slash then 2 else 0)"
          using c Cons s url \<open>c \<noteq> backslash\<close> assms(1)
          by (cases u) (auto simp: GetRootLength_def GetEncodedRootLength_def Let_def)
        show ?thesis
        proof (cases u)
          case Nil
          with root c Cons s show ?thesis
            by (auto simp: dots_def intro: exI [of _ "[c]"])
        next
          case (Cons e v)
          with root c \<open>f = c # s\<close> s show ?thesis
            by (auto simp: dots_def intro: exI [of _ "[c]"] exI [of _ "[c, d]"])
        qed
      qed
    qed
  qed
qed

section \<open>The fast path\<close>

lemma simple_accepts:
  assumes "simpleNormalizePath f = (t, True)"
  shows "\<not> relative_segment t" "names t = names f" "\<not> str_contains f ''//''"
    "HasPrefix t ''/'' \<Longrightarrow> HasPrefix f ''/''"
    "t = f \<or> t = replace_all f ''/./'' ''/'' \<or> replace_all f ''/./'' ''/'' = ''./'' @ t"
proof -
  define r where "r = replace_all f ''/./'' ''/''"
  have r: "names r = names f" using names_replace [of "[]" f] by (simp add: r_def)
  consider "t = f" "\<not> relative_segment f"
    | "t = TrimPrefix r ''./''" "\<not> relative_segment t" "t \<noteq> r \<longrightarrow> \<not> HasPrefix t ''/''"
    using assms
    by (auto simp: simpleNormalizePath_def hasRelativePathSegment_relative Let_def r_def [symmetric]
        split: if_splits)
  then have "\<not> relative_segment t \<and> names t = names f \<and> \<not> str_contains f ''//''
      \<and> (HasPrefix t ''/'' \<longrightarrow> HasPrefix f ''/'') \<and> (t = f \<or> t = r \<or> r = ''./'' @ t)"
  proof cases
    case 1
    then show ?thesis by (auto simp: relative_segment_def)
  next
    case 2
    show ?thesis
    proof (cases "HasPrefix r ''./''")
      case False
      with 2 have t: "t = r" by (simp add: TrimPrefix_def)
      with 2 have "\<not> str_contains f ''//''"
        using contains_replace [of f] by (auto simp: relative_segment_def r_def)
      with t r 2 show ?thesis using replace_first [of f] by (simp add: r_def)
    next
      case True
      with 2 have e: "r = CHR ''.'' # slash # t" by (auto simp: TrimPrefix_def HasPrefix_iff)
      then have "t \<noteq> r" by auto
      moreover have "names r = names t"
        using names_append_slash [of "''.''" t] e by (simp add: names_segment counts_def)
      moreover have "\<not> str_contains r ''//''"
      proof -
        have "\<not> str_contains t ''//''" "\<not> HasPrefix t ''/''"
          using \<open>t \<noteq> r\<close> 2(2,3) by (auto simp: relative_segment_def)
        then show ?thesis unfolding e by (simp add: contains_slashes_Cons)
      qed
      ultimately show ?thesis using 2 r e contains_replace [of f] by (auto simp: r_def)
    qed
  qed
  then show "\<not> relative_segment t" "names t = names f" "\<not> str_contains f ''//''"
    "HasPrefix t ''/'' \<Longrightarrow> HasPrefix f ''/''"
    "t = f \<or> t = replace_all f ''/./'' ''/'' \<or> replace_all f ''/./'' ''/'' = ''./'' @ t"
    by (auto simp: r_def)
qed

lemma simple_keeps_first_segment:
  assumes "simpleNormalizePath f = (t, True)" "f = x @ slash # y" "slash \<notin> set x" "\<not> dots x"
  shows "\<exists>z. t = x @ slash # z \<and> names z = names y \<and> \<not> relative_segment z \<and> \<not> HasPrefix z ''/''"
proof -
  note t = simple_accepts [OF assms(1)]
  obtain z where z: "replace_all f ''/./'' ''/'' = x @ slash # z"
    using replace_first_segment [OF assms(3), of y] assms(2) by auto
  have "x @ slash # z \<noteq> ''./'' @ t"
    using assms(3,4) by (cases x; cases "tl x") (auto simp: dots_def)
  then have "\<exists>z. t = x @ slash # z" using t(5) z assms(2) by metis
  then obtain z where z: "t = x @ slash # z" ..
  moreover have "names x @ names z = names x @ names y"
    using t(2) z assms(2) by (simp add: names_append_slash)
  ultimately show ?thesis using relative_segment_append(1,2) t(1) by auto
qed

definition simple_result :: "nat \<Rightarrow> string \<Rightarrow> string" where
  "simple_result rootLength t =
     (if length t > rootLength then RemoveTrailingDirectorySeparator t
      else if length t = rootLength \<and> rootLength \<noteq> 0 then EnsureTrailingDirectorySeparator t
      else t)"

lemma backslash_replace: "backslash \<notin> set f \<Longrightarrow> backslash \<notin> set (replace_all f ''/./'' ''/'')"
proof (induction f "''/./''" "''/''" rule: replace_all.induct)
  case (2 c s)
  then show ?case by (cases "HasPrefix (c # s) ''/./''") (auto dest: in_set_dropD)
qed simp

lemma ensure_slash [simp]: "EnsureTrailingDirectorySeparator (x @ ''/'') = x @ ''/''"
  by (simp add: EnsureTrailingDirectorySeparator_def HasTrailingDirectorySeparator_def
      isAnyDirectorySeparator_def)

lemma simple_path_correct:
  assumes f: "backslash \<notin> set f" and t: "simpleNormalizePath f = (t, True)"
  defines "r \<equiv> GetRootLength f"
  shows "simple_result r t = GetPathFromPathComponents (reducePathComponents (pathComponents f r))"
proof -
  note a = simple_accepts [OF t]
  have bt: "backslash \<notin> set t" using a(5) backslash_replace [OF f] f by auto
  have spec: "reducePathComponents (pathComponents f r)
      = take r f # foldl (push (take r f)) [] (split_byte slash (drop r f))"
    by (rule pathComponents_push)
  consider (none) "r = 0" "\<not> HasPrefix f ''/''"
    | (whole) "r = length f" "f \<noteq> []" "slash \<notin> set f" "\<not> dots f"
    | (root) x y where "f = x @ slash # y" "r = length x + 1" "slash \<notin> set x" "\<not> dots x"
    using root_classify [OF f a(3)] unfolding r_def by metis
  then show ?thesis
  proof cases
    case none
    then have "\<not> HasPrefix t ''/''" using a(4) by blast
    note sh = not_relative_shape [OF a(1) this] and rt = remove_trailing_shape [OF bt a(1) this]
    have "foldl (push []) [] (split_byte slash f) = names t"
      by (metis a(1,2) foldl_push_names foldl_push_split not_relative_names append_Nil)
    then have "GetPathFromPathComponents (reducePathComponents (pathComponents f r))
        = str_join (names t) ''/''"
      using none spec by (simp add: GetPathFromPathComponents_def)
    with sh rt [of "[]"] none show ?thesis
      by (cases "t = []") (auto simp: simple_result_def)
  next
    case whole
    then have "replace_all f ''/./'' ''/'' = f" for f'
    proof -
      have "slash \<notin> set g \<Longrightarrow> replace_all g ''/./'' ''/'' = g" for g
        by (induction g) auto
      with whole show ?thesis by simp
    qed
    then have "t = f" using a(5) whole by auto
    with whole spec show ?thesis
      by (simp add: simple_result_def GetPathFromPathComponents_def push_def)
  next
    case root
    then obtain z where z: "t = x @ slash # z" "names z = names y" "\<not> relative_segment z"
      "\<not> HasPrefix z ''/''" using simple_keeps_first_segment [OF t] by blast
    have sp: "GetPathFromPathComponents (reducePathComponents (pathComponents f r))
        = x @ slash # str_join (names z) ''/''"
    proof -
      have "foldl (push w) [] (split_byte slash y) = names z" for w
        by (metis z(2,3) foldl_push_names foldl_push_split not_relative_names append_Nil)
      with root spec show ?thesis
        by (simp add: GetPathFromPathComponents_def flip: append_Cons)
    qed
    show ?thesis
    proof (cases "z = []")
      case True
      with root z(1) sp show ?thesis using ensure_slash [of x] by (simp add: simple_result_def)
    next
      case False
      have "RemoveTrailingDirectorySeparator ((x @ ''/'') @ z) = (x @ ''/'') @ str_join (names z) ''/''"
        using z bt False by (intro remove_trailing_shape) auto
      with root z(1) sp False show ?thesis by (simp add: simple_result_def)
    qed
  qed
qed

end
