(* ===== verification/PathNormCorrect.thy ===== *)
theory PathNormCorrect
  imports PathSimple
begin

text \<open>
  The string loop of \<open>GetNormalizedAbsolutePath\<close> is right. The invariant relates the local
  variables to the reduced components \<open>cs\<close> of the part of the path read so far: once
  \<open>changed\<close>, \<open>normalized\<close> is the path of \<open>cs\<close>; before, the path is still a prefix of the file
  name. From it follows that the function returns the path of the reduced components.
\<close>

definition path_of :: "string \<Rightarrow> string list \<Rightarrow> string" where
  "path_of root cs = root @ str_join cs ''/''"

definition wf_components :: "string list \<Rightarrow> bool" where
  "wf_components cs \<longleftrightarrow> (\<forall>w\<in>set cs. w \<noteq> [] \<and> slash \<notin> set w)"

definition wf_root :: "string \<Rightarrow> bool" where
  "wf_root root \<longleftrightarrow> root = [] \<or> last root = slash"

definition norm_inv :: "string \<Rightarrow> nat \<Rightarrow> string list \<Rightarrow> norm_state \<Rightarrow> bool" where
  "norm_inv f r cs s \<longleftrightarrow>
     wf_components cs \<and> r \<le> index s
     \<and> (seenNonDotDotSegment s \<longleftrightarrow> (if cs = [] then r \<noteq> 0 else last cs \<noteq> ''..''))
     \<and> (if changed s then normalized s = path_of (take r f) cs
        else r \<le> normalizedUpTo s \<and> normalizedUpTo s \<le> length f
             \<and> take (normalizedUpTo s) f = path_of (take r f) cs
             \<and> index s = (if cs = [] then r else normalizedUpTo s + 1)
             \<and> (cs = [] \<longrightarrow> normalizedUpTo s = r)
             \<and> (cs \<noteq> [] \<longrightarrow> normalizedUpTo s < length f \<longrightarrow> f ! normalizedUpTo s = slash))"

section \<open>Paths of component lists\<close>

lemma path_of_Nil [simp]: "path_of root [] = root"
  by (simp add: path_of_def)

lemma path_of_single [simp]: "path_of root [w] = root @ w"
  by (simp add: path_of_def)

lemma wf_components_single [simp]: "wf_components [w] \<longleftrightarrow> w \<noteq> [] \<and> slash \<notin> set w"
  by (simp add: wf_components_def)

lemma str_join_snoc: "str_join (ws @ [w]) sep = (if ws = [] then w else str_join ws sep @ sep @ w)"
  by (induction ws) (simp_all add: str_join_Cons)

lemma path_of_snoc:
  "path_of root (cs @ [w]) = (if cs = [] then root @ w else path_of root cs @ ''/'' @ w)"
  by (simp add: path_of_def str_join_snoc)

lemma length_path_of: "length root \<le> length (path_of root cs)"
  by (simp add: path_of_def)

lemma length_path_of_eq:
  "wf_components cs \<Longrightarrow> length (path_of root cs) = length root \<longleftrightarrow> cs = []"
  by (cases cs; cases "tl cs") (auto simp: path_of_def wf_components_def)

lemma wf_components_snoc [simp]:
  "wf_components (cs @ [w]) \<longleftrightarrow> wf_components cs \<and> w \<noteq> [] \<and> slash \<notin> set w"
  by (auto simp: wf_components_def)

lemma wf_components_Nil [simp]: "wf_components []"
  by (simp add: wf_components_def)

lemma wf_components_butlast: "wf_components cs \<Longrightarrow> wf_components (butlast cs)"
  by (auto simp: wf_components_def dest: in_set_butlastD)

lemma wf_components_push: "wf_components cs \<Longrightarrow> slash \<notin> set w \<Longrightarrow> wf_components (push root cs w)"
  by (auto simp: push_def wf_components_butlast)

lemma last_slash_root:
  assumes "wf_root root" "slash \<notin> set x"
  shows "last_index_byte (root @ x) slash = (if root = [] then None else Some (length root - 1))"
proof -
  have x: "last_index_byte x slash = None" using assms(2) by (simp add: last_index_byte_None_iff)
  show ?thesis
  proof (cases root rule: rev_cases)
    case (snoc ys y)
    with assms(1) have "y = slash" by (simp add: wf_root_def)
    with snoc x show ?thesis by (simp add: last_index_byte_append)
  qed (simp add: x)
qed

lemma last_slash_path_of:
  assumes "wf_root root" "slash \<notin> set x"
  shows "last_index_byte (path_of root (cs @ [x])) slash =
     (if cs = [] then (if root = [] then None else Some (length root - 1))
      else Some (length (path_of root cs)))"
proof (cases "cs = []")
  case True
  with assms last_slash_root show ?thesis by (simp add: path_of_snoc)
next
  case False
  have "last_index_byte x slash = None" using assms(2) by (simp add: last_index_byte_None_iff)
  with False show ?thesis by (simp add: path_of_snoc last_index_byte_append)
qed

lemma take_path_of:
  "take (length (path_of root cs)) (path_of root (cs @ [x])) = path_of root cs"
  by (simp add: path_of_snoc)

lemma cut_path_of:
  assumes "wf_root root" "slash \<notin> set x" "path_of root (cs @ [x]) = take n p"
  shows "cut_at_slash (length root) (last_index_byte (path_of root (cs @ [x])) slash) p
     = path_of root cs"
proof -
  let ?k = "max (length root) (case last_index_byte (path_of root (cs @ [x])) slash of
      Some k \<Rightarrow> k | None \<Rightarrow> 0)"
  have k: "?k = length (path_of root cs)"
    using last_slash_path_of [OF assms(1,2)] length_path_of [of root cs] by auto
  then have "?k \<le> length (take n p)" unfolding assms(3) [symmetric] by (simp add: path_of_snoc)
  then have "take ?k p = take ?k (take n p)" by simp
  also have "\<dots> = path_of root cs" unfolding assms(3) [symmetric] k by (rule take_path_of)
  finally show ?thesis by (simp add: cut_at_slash_def)
qed

lemma suffix_dotdot:
  "slash \<notin> set x \<Longrightarrow> HasSuffix (b @ slash # x) ''/..'' \<longleftrightarrow> x = ''..''"
proof
  assume x: "slash \<notin> set x" and "HasSuffix (b @ slash # x) ''/..''"
  then obtain t where "b @ slash # x = t @ slash # ''..''" by (auto simp: HasSuffix_iff)
  then have "last (split_byte slash (b @ slash # x)) = last (split_byte slash (t @ slash # ''..''))"
    by simp
  with x show "x = ''..''" by (simp only: split_byte_append_sep last_append) (simp add: split_byte_no_occ)
qed simp

lemma seen_after_path_of:
  assumes "wf_root root" "wf_components cs"
  shows "seen_after (length root) (path_of root cs) \<longleftrightarrow>
     (if cs = [] then length root \<noteq> 0 else last cs \<noteq> ''..'')"
proof (cases cs rule: rev_cases)
  case Nil
  with assms(1) show ?thesis
    by (auto simp: seen_after_def wf_root_def HasSuffix_iff)
next
  case (snoc cs' x)
  with assms(2) have x: "x \<noteq> []" "slash \<notin> set x" by auto
  have len: "length (path_of root cs) \<noteq> length root"
    using length_path_of_eq [OF assms(2)] snoc by simp
  show ?thesis
  proof (cases "cs' = [] \<and> root = []")
    case True
    with snoc x len show ?thesis
      by (auto simp: seen_after_def path_of_snoc HasSuffix_iff)
  next
    case False
    then obtain b where b: "path_of root cs = b @ slash # x"
      using snoc assms(1) by (cases "cs' = []"; cases root rule: rev_cases)
        (auto simp: path_of_snoc wf_root_def)
    then have "slash \<in> set (path_of root cs)" by simp
    then have "path_of root cs \<noteq> ''..''" by auto
    with b len snoc suffix_dotdot [OF x(2)] show ?thesis by (simp add: seen_after_def)
  qed
qed

section \<open>One round of the loop keeps the invariant\<close>

lemma index_byte_takeWhile:
  "index_byte s d = (if d \<in> set s then Some (length (takeWhile (\<lambda>c. c \<noteq> d) s)) else None)"
  by (induction s) auto

lemma index_byte_segment_end:
  assumes "i < length f" "f ! i \<noteq> slash"
  shows "(case index_byte (drop (i + 1) f) slash of None \<Rightarrow> length f | Some k \<Rightarrow> k + (i + 1))
     = segment_end f i"
proof -
  have d: "drop i f = f ! i # drop (i + 1) f" using assms(1) by (simp add: Cons_nth_drop_Suc)
  then have e: "segment_end f i = i + 1 + length (takeWhile (\<lambda>c. c \<noteq> slash) (drop (i + 1) f))"
    using assms(2) by (simp add: segment_end_def)
  show ?thesis
  proof (cases "slash \<in> set (drop (i + 1) f)")
    case False
    then have "length (takeWhile (\<lambda>c. c \<noteq> slash) (drop (i + 1) f)) = length (drop (i + 1) f)"
      by (subst takeWhile_eq_all_conv [THEN iffD2]) auto
    with False e assms(1) show ?thesis by (simp add: index_byte_takeWhile)
  qed (simp add: e index_byte_takeWhile)
qed

lemma segment_end_le: "i \<le> length f \<Longrightarrow> segment_end f i \<le> length f"
  using length_takeWhile_le [of "\<lambda>c. c \<noteq> slash" "drop i f"] by (simp add: segment_end_def)

lemma segment_eq: "drop i (take (segment_end f i) f) = takeWhile (\<lambda>c. c \<noteq> slash) (drop i f)"
  by (metis (no_types, lifting) add_diff_cancel_left' segment_end_def take_drop takeWhile_eq_take
      drop_take)

lemma segment_wf:
  assumes "i < length f" "f ! i \<noteq> slash" "w = drop i (take (segment_end f i) f)"
  shows "w \<noteq> []" "slash \<notin> set w" "length w = segment_end f i - i" "w ! 0 = f ! i"
    "1 < length w \<Longrightarrow> w ! 1 = f ! (i + 1)"
proof -
  have "i < segment_end f i" "segment_end f i \<le> length f"
    using segment_end_gt segment_end_le assms by auto
  then show "w \<noteq> []" "length w = segment_end f i - i" "w ! 0 = f ! i"
    "1 < length w \<Longrightarrow> w ! 1 = f ! (i + 1)"
    using assms(1,3) by auto
  show "slash \<notin> set w" using assms(3) by (auto simp: segment_eq dest: set_takeWhileD)
qed

lemma list_eq_one: "w = [a] \<longleftrightarrow> length w = 1 \<and> w ! 0 = a"
  by (cases w) auto

lemma list_eq_two: "w = [a, b] \<longleftrightarrow> length w = 2 \<and> w ! 0 = a \<and> w ! 1 = b"
  by (cases w; cases "tl w") auto

lemma inv_separators:
  assumes "norm_inv f r cs s" "index s < length f"
  shows "norm_inv f r cs (norm_separators f r s)"
proof (cases "index s < skip_slashes f (index s) \<and> \<not> changed s")
  case True
  with assms(1) have u: "take (normalizedUpTo s) f = path_of (take r f) cs" "r \<le> normalizedUpTo s"
    "index s = (if cs = [] then r else normalizedUpTo s + 1)" "cs = [] \<longrightarrow> normalizedUpTo s = r"
    by (auto simp: norm_inv_def)
  then have "max r (index s - 1) = normalizedUpTo s" by auto
  with True u assms(1) show ?thesis
    by (simp add: norm_inv_def norm_separators_def Let_def)
next
  case False
  have "index s \<le> skip_slashes f (index s)" by (rule skip_slashes_ge)
  with False assms(1) show ?thesis
    by (auto simp: norm_inv_def norm_separators_def Let_def)
qed

text \<open>The three kinds of segments, in the code's order of tests.\<close>

definition segment_result :: "string \<Rightarrow> nat \<Rightarrow> norm_state \<Rightarrow> string \<Rightarrow> nat \<Rightarrow> norm_state" where
  "segment_result f r s w e =
     (if w = ''.'' then
        (if changed s then s else s\<lparr>normalized := take (normalizedUpTo s) f, changed := True\<rparr>)
      else if w = ''..'' then
        (if \<not> seenNonDotDotSegment s then
           (if changed s
            then s\<lparr>normalized := (if length (normalized s) = r then normalized s @ ''..''
                                 else normalized s @ ''/..'')\<rparr>
            else s\<lparr>normalizedUpTo := e\<rparr>)
         else if \<not> changed s then
           (let norm = (if 1 \<le> normalizedUpTo s
                        then cut_at_slash r (last_index_byte (take (normalizedUpTo s - 1) f) slash) f
                        else take (normalizedUpTo s) f)
            in s\<lparr>normalized := norm, changed := True, seenNonDotDotSegment := seen_after r norm\<rparr>)
         else
           (let norm = (case last_index_byte (normalized s) slash of
                          Some k \<Rightarrow> take (max r k) (normalized s) | None \<Rightarrow> take r f)
            in s\<lparr>normalized := norm, seenNonDotDotSegment := seen_after r norm\<rparr>))
      else if changed s then
        s\<lparr>normalized := (if length (normalized s) \<noteq> r then normalized s @ ''/'' else normalized s) @ w,
          seenNonDotDotSegment := True\<rparr>
      else s\<lparr>seenNonDotDotSegment := True, normalizedUpTo := e\<rparr>)\<lparr>index := e + 1\<rparr>"

lemma norm_segment_result:
  assumes "index s < length f" "f ! index s \<noteq> slash"
    "w = drop (index s) (take (segment_end f (index s)) f)"
  shows "norm_segment f r s = segment_result f r s w (segment_end f (index s))"
proof -
  note w = segment_wf [OF assms]
  have one: "w = ''.'' \<longleftrightarrow> segment_end f (index s) - index s = 1 \<and> f ! index s = CHR ''.''"
    using w by (auto simp: list_eq_one)
  have two: "w = ''..'' \<longleftrightarrow> segment_end f (index s) - index s = 2 \<and> f ! index s = CHR ''.''
      \<and> f ! (index s + 1) = CHR ''.''"
    using w by (auto simp: list_eq_two)
  have "w = ''..'' \<Longrightarrow> index s + 2 = segment_end f (index s)" using w(3) by auto
  then show ?thesis
    unfolding norm_segment_def segment_result_def Let_def index_byte_segment_end [OF assms(1,2)]
      one [symmetric] two [symmetric] assms(3) [symmetric]
    by (cases "w = ''.''"; cases "w = ''..''"; cases "changed s"; cases "seenNonDotDotSegment s")
      simp_all
qed

lemma seen_after_push:
  "wf_root root \<Longrightarrow> wf_components cs \<Longrightarrow> seen_after (length root) (path_of root cs) \<longleftrightarrow>
     (if cs = [] then length root \<noteq> 0 else last cs \<noteq> ''..'')"
  by (rule seen_after_path_of)

lemma inv_segment_changed:
  assumes inv: "norm_inv f r cs s" and c: "changed s" and r: "r \<le> length f" "wf_root (take r f)"
    and w: "w \<noteq> []" "slash \<notin> set w" "r \<le> e"
  shows "norm_inv f r (push (take r f) cs w) (segment_result f r s w e)"
proof -
  define root where "root = take r f"
  have len: "length root = r" and root: "wf_root root" and emp: "root = [] \<longleftrightarrow> r = 0"
    using r by (auto simp: root_def)
  from inv c have n: "normalized s = path_of root cs" and wf: "wf_components cs"
    and seen: "seenNonDotDotSegment s \<longleftrightarrow> (if cs = [] then r \<noteq> 0 else last cs \<noteq> ''..'')"
    by (auto simp: norm_inv_def root_def)
  have lr: "length (path_of root cs) = r \<longleftrightarrow> cs = []" using length_path_of_eq [OF wf, of root] len by simp
  note inv_def = norm_inv_def segment_result_def root_def [symmetric]
  consider "w = ''.''" | "w = ''..''" "\<not> seenNonDotDotSegment s" | "w = ''..''" "seenNonDotDotSegment s"
    | "w \<noteq> ''.''" "w \<noteq> ''..''" by blast
  then show ?thesis
  proof cases
    case 1
    with c n wf seen w(3) show ?thesis by (simp add: inv_def push_def)
  next
    case 2
    then have "push root cs w = cs @ [''..'']" using seen emp by (auto simp: push_def split: if_splits)
    with 2 c n wf seen w lr show ?thesis
      by (auto simp: inv_def path_of_snoc split: if_splits)
  next
    case 3
    have p: "push root cs w = butlast cs" using 3 seen emp by (auto simp: push_def split: if_splits)
    have cut: "(case last_index_byte (normalized s) slash of
          Some k \<Rightarrow> take (max r k) (normalized s) | None \<Rightarrow> root) = path_of root (butlast cs)"
    proof (cases cs rule: rev_cases)
      case Nil
      with 3 seen have "r \<noteq> 0" by simp
      with Nil n last_slash_root [OF root, of "[]"] len emp show ?thesis by simp
    next
      case (snoc cs' x)
      then have x: "slash \<notin> set x" using wf by simp
      have "take (max r (length (path_of root cs'))) (path_of root (cs' @ [x])) = path_of root cs'"
        using length_path_of [of root cs'] len by (simp add: take_path_of max_def)
      moreover have "max r (r - 1) = r" by simp
      ultimately show ?thesis using snoc n x last_slash_path_of [OF root x, of cs'] len
        by (cases "cs' = []") auto
    qed
    have seen': "seen_after r (path_of root (butlast cs)) \<longleftrightarrow>
        (if butlast cs = [] then r \<noteq> 0 else last (butlast cs) \<noteq> ''..'')"
      using seen_after_path_of [OF root wf_components_butlast [OF wf]] len by simp
    show ?thesis unfolding inv_def Let_def cut
      using 3 c wf w p seen' by (simp add: wf_components_butlast)
  next
    case 4
    with w have "push root cs w = cs @ [w]" by (auto simp: push_def)
    with 4 c n wf w lr show ?thesis
      by (auto simp: inv_def path_of_snoc)
  qed
qed

lemma inv_segment_unchanged:
  assumes inv: "norm_inv f r cs s" and c: "\<not> changed s" and r: "r \<le> length f" "wf_root (take r f)"
    and i: "index s < length f" "f ! index s \<noteq> slash"
    and w: "w = drop (index s) (take (segment_end f (index s)) f)"
  shows "norm_inv f r (push (take r f) cs w) (segment_result f r s w (segment_end f (index s)))"
proof -
  define root e where "root = take r f" and "e = segment_end f (index s)"
  have len: "length root = r" and root: "wf_root root" and emp: "root = [] \<longleftrightarrow> r = 0"
    using r by (auto simp: root_def)
  note sw = segment_wf [OF i w]
  have e: "index s < e" "e \<le> length f" "e < length f \<Longrightarrow> f ! e = slash"
    using segment_end_gt [OF i] segment_end_le segment_end_stop i(1) by (auto simp: e_def)
  from inv c have up: "r \<le> normalizedUpTo s" "normalizedUpTo s \<le> length f"
    "take (normalizedUpTo s) f = path_of root cs"
    "index s = (if cs = [] then r else normalizedUpTo s + 1)" "cs = [] \<longrightarrow> normalizedUpTo s = r"
    "cs \<noteq> [] \<longrightarrow> normalizedUpTo s < length f \<longrightarrow> f ! normalizedUpTo s = slash"
    and wf: "wf_components cs"
    and seen: "seenNonDotDotSegment s \<longleftrightarrow> (if cs = [] then r \<noteq> 0 else last cs \<noteq> ''..'')"
    and ri: "r \<le> index s"
    by (auto simp: norm_inv_def root_def)
  have "take e f = take (index s) f @ w"
    unfolding w e_def [symmetric] using e(1) by (metis append_take_drop_id less_imp_le_nat min.absorb1 take_take)
  moreover have "take (index s) f = (if cs = [] then root else path_of root cs @ ''/'')"
    using up i(1) by (auto simp: take_Suc_conv_app_nth root_def)
  ultimately have take_e: "take e f = path_of root (cs @ [w])" by (simp add: path_of_snoc)
  note inv_def = norm_inv_def segment_result_def root_def [symmetric] e_def [symmetric]
  consider "w = ''.''" | "w = ''..''" "\<not> seenNonDotDotSegment s" | "w = ''..''" "seenNonDotDotSegment s"
    | "w \<noteq> ''.''" "w \<noteq> ''..''" by blast
  then show ?thesis
  proof cases
    case 1
    then show ?thesis unfolding inv_def using c up(3) wf seen ri e by (simp add: push_def)
  next
    case 2
    then have "push root cs w = cs @ [''..'']" using seen emp by (auto simp: push_def split: if_splits)
    with 2 c wf ri e take_e show ?thesis unfolding inv_def by auto
  next
    case 3
    have p: "push root cs w = butlast cs" using 3 seen emp by (auto simp: push_def split: if_splits)
    have cut: "(if 1 \<le> normalizedUpTo s
        then cut_at_slash r (last_index_byte (take (normalizedUpTo s - 1) f) slash) f
        else take (normalizedUpTo s) f) = path_of root (butlast cs)"
    proof (cases cs rule: rev_cases)
      case Nil
      then have "r \<noteq> 0" "normalizedUpTo s = r" using 3 seen up by auto
      moreover have "last_index_byte (take (r - 1) f) slash = Some k \<Longrightarrow> k \<le> r" for k
        using last_index_byte_less by fastforce
      ultimately show ?thesis using Nil root_def
        by (auto simp: cut_at_slash_def split: option.splits)
    next
      case (snoc cs' x)
      then have x: "x \<noteq> []" "slash \<notin> set x" using wf by auto
      have "take (normalizedUpTo s - 1) f = butlast (take (normalizedUpTo s) f)"
        using up(2) by (simp add: butlast_take)
      also have "\<dots> = path_of root (cs' @ [butlast x])"
        using up(3) snoc x by (simp add: path_of_snoc butlast_append)
      finally have b: "take (normalizedUpTo s - 1) f = path_of root (cs' @ [butlast x])" .
      have "slash \<notin> set (butlast x)" using x by (auto dest: in_set_butlastD)
      from cut_path_of [OF root this b [symmetric]] snoc len b
      have "cut_at_slash r (last_index_byte (take (normalizedUpTo s - 1) f) slash) f
          = path_of root (butlast cs)" by simp
      moreover have "1 \<le> normalizedUpTo s"
      proof (rule ccontr)
        assume "\<not> 1 \<le> normalizedUpTo s"
        then have "normalizedUpTo s = 0" by simp
        then have "path_of root cs = []" using up(3) by simp
        with snoc x show False by (simp add: path_of_snoc split: if_splits)
      qed
      ultimately show ?thesis by simp
    qed
    have seen': "seen_after r (path_of root (butlast cs)) \<longleftrightarrow>
        (if butlast cs = [] then r \<noteq> 0 else last (butlast cs) \<noteq> ''..'')"
      using seen_after_path_of [OF root wf_components_butlast [OF wf]] len by simp
    from 3 c wf ri e p seen' show ?thesis
      by (simp only: inv_def cut wf_components_butlast Let_def) simp
  next
    case 4
    with sw have "push root cs w = cs @ [w]" by (auto simp: push_def)
    with 4 c wf ri e take_e sw show ?thesis unfolding inv_def by auto
  qed
qed

section \<open>The loop and the function\<close>

lemma inv_segment:
  assumes "norm_inv f r cs s" "r \<le> length f" "wf_root (take r f)" "index s < length f"
    "f ! index s \<noteq> slash" "w = drop (index s) (take (segment_end f (index s)) f)"
  shows "norm_inv f r (push (take r f) cs w) (norm_segment f r s)"
proof (cases "changed s")
  case True
  have "index s < segment_end f (index s)" using segment_end_gt assms by auto
  moreover have "r \<le> index s" using assms(1) by (simp add: norm_inv_def)
  ultimately show ?thesis
    using inv_segment_changed [OF assms(1) True assms(2,3)] segment_wf [OF assms(4-6)]
    by (simp add: norm_segment_result [OF assms(4-6)])
next
  case False
  then show ?thesis
    using inv_segment_unchanged [OF assms(1) _ assms(2-6)]
    by (simp add: norm_segment_result [OF assms(4-6)])
qed

lemma push_empty [simp]: "push root cs [] = cs"
  by (simp add: push_def)

text \<open>The loop pushes all the segments that are left, and stops at the end of the path.\<close>

lemma norm_loop_inv:
  "norm_inv f r cs s \<Longrightarrow> r \<le> length f \<Longrightarrow> wf_root (take r f) \<Longrightarrow>
   norm_inv f r (foldl (push (take r f)) cs (split_byte slash (drop (index s) f))) (norm_loop f r s)
   \<and> length f \<le> index (norm_loop f r s)"
proof (induction f r s arbitrary: cs rule: norm_loop.induct)
  case (1 f r s)
  let ?root = "take r f"
  show ?case
  proof (cases "index s < length f")
    case False
    with "1.prems" show ?thesis by (subst norm_loop.simps) (simp add: norm_loop.simps push_def)
  next
    case True
    define s1 i where "s1 = norm_separators f r s" and "i = skip_slashes f (index s)"
    have inv1: "norm_inv f r cs s1" and i1: "index s1 = i"
      using inv_separators [OF "1.prems"(1) True] by (simp_all add: s1_def i_def index_norm_separators)
    have split: "split_byte slash (drop (index s) f)
        = replicate (i - index s) [] @ split_byte slash (drop i f)"
      unfolding i_def by (metis skip_slashes_split split_slashes)
    have ge: "index s \<le> i" by (simp add: i_def skip_slashes_ge)
    show ?thesis
    proof (cases "index s < index s1 \<and> index s1 = length f")
      case fin: True
      then have "norm_loop f r s = s1" using True by (subst norm_loop.simps) (simp add: s1_def Let_def)
      with fin i1 inv1 split show ?thesis by (simp add: foldl_push_empties push_empty)
    next
      case False
      have "i \<le> length f" using True length_takeWhile_le [of "\<lambda>c. c = slash" "drop (index s) f"]
        by (simp add: i_def skip_slashes_def)
      with False True i1 ge have il: "i < length f" by auto
      then have ns: "f ! i \<noteq> slash" using skip_slashes_stop by (simp add: i_def)
      define e w where "e = segment_end f i" and "w = drop i (take e f)"
      have "norm_inv f r (push ?root cs w) (norm_segment f r s1)"
        using inv_segment [OF inv1 "1.prems"(2,3), of w] il ns i1 by (simp add: w_def e_def)
      moreover have "index (norm_segment f r s1) = e + 1"
        unfolding index_norm_segment i1 e_def using index_byte_segment_end [OF il ns] by simp
      ultimately have IH: "norm_inv f r
            (foldl (push ?root) (push ?root cs w) (split_byte slash (drop (e + 1) f)))
            (norm_loop f r (norm_segment f r s1))
          \<and> length f \<le> index (norm_loop f r (norm_segment f r s1))"
        using "1.IH" [OF True s1_def False] "1.prems"(2,3) by metis
      have "foldl (push ?root) cs (split_byte slash (drop (index s) f))
          = foldl (push ?root) (push ?root cs w) (split_byte slash (drop (e + 1) f))"
        unfolding split using segment_split [of i f] il
        by (simp add: foldl_push_empties e_def w_def push_empty)
      moreover have "norm_loop f r s = norm_loop f r (norm_segment f r s1)"
        using True False by (subst norm_loop.simps) (auto simp: s1_def Let_def)
      ultimately show ?thesis using IH by simp
    qed
  qed
qed

lemma root_is_prefix:
  assumes "backslash \<notin> set f"
  shows "GetRootLength f = length f \<or> wf_root (take (GetRootLength f) f)"
proof -
  have "wf_root (take n f)" if "0 < n" "n < length f" "isAnyDirectorySeparator (f ! (n - 1))" for n
  proof -
    have "f ! (n - 1) = slash"
      using that assms by (metis isAnyDirectorySeparator_def less_imp_diff_less nth_mem)
    moreover have "take n f \<noteq> []" using that by auto
    ultimately show ?thesis using that by (simp add: wf_root_def last_conv_nth min_def)
  qed
  then show ?thesis using GetRootLength_shape [of f] by (auto simp: root_shape_def wf_root_def)
qed

lemma RemoveTrailingDirectorySeparators_slash:
  assumes "p \<noteq> []" "\<not> isAnyDirectorySeparator (last p)" "t = p \<or> t = p @ ''/''"
  shows "RemoveTrailingDirectorySeparators t = p"
proof -
  have "RemoveTrailingDirectorySeparators p = p"
    using assms(2) by (simp add: RemoveTrailingDirectorySeparators.simps HasTrailingDirectorySeparator_def)
  moreover have "RemoveTrailingDirectorySeparators (p @ ''/'') = RemoveTrailingDirectorySeparators p"
    by (subst RemoveTrailingDirectorySeparators.simps)
      (simp add: remove_trailing_slash HasTrailingDirectorySeparator_def isAnyDirectorySeparator_def)
  ultimately show ?thesis using assms(3) by auto
qed

definition rooted :: "string \<Rightarrow> bool" where
  "rooted f \<longleftrightarrow> f \<noteq> [] \<and>
     (isAnyDirectorySeparator (f ! 0)
      \<or> IsVolumeCharacter (f ! 0) \<and> 1 < length f \<and> f ! 1 = CHR '':''
        \<and> (length f = 2 \<or> 2 < length f \<and> isAnyDirectorySeparator (f ! 2))
      \<or> f ! 0 = CHR ''^'' \<and> 1 < length f \<and> f ! 1 = slash
      \<or> str_index f ''://'' \<noteq> None)"

lemma GetRootLength_zero: "GetRootLength f = 0 \<longleftrightarrow> \<not> rooted f"
proof -
  have url: "nat (- encodedUrlRootLength f k - 1) \<noteq> 0 \<and> encodedUrlRootLength f k < 0"
    if "str_index f ''://'' = Some k" for k
    using encodedUrlRootLength_shape [OF that] by (auto simp: complement_def)
  have "GetRootLength f = 0 \<longleftrightarrow> \<not> rooted f" if "f \<noteq> []"
  proof (cases "isAnyDirectorySeparator (f ! 0)")
    case True
    with that have "GetEncodedRootLength f > 0"
      by (simp add: GetEncodedRootLength_def Let_def isAnyDirectorySeparator_def split: option.split)
    with True that show ?thesis by (simp add: rooted_def GetRootLength_def Let_def)
  next
    case False
    define A B C where "A \<longleftrightarrow> IsVolumeCharacter (f ! 0) \<and> 1 < length f \<and> f ! 1 = CHR '':'' \<and> length f = 2"
      and "B \<longleftrightarrow> IsVolumeCharacter (f ! 0) \<and> 1 < length f \<and> f ! 1 = CHR '':''
          \<and> (f ! 2 = slash \<or> f ! 2 = backslash)"
      and "C \<longleftrightarrow> f ! 0 = CHR ''^'' \<and> 1 < length f \<and> f ! 1 = slash"
    have e: "GetEncodedRootLength f = (if A then 2 else if B then 3 else if C then 2
        else (case str_index f ''://'' of Some k \<Rightarrow> encodedUrlRootLength f k | None \<Rightarrow> 0))"
      using False [unfolded isAnyDirectorySeparator_def] that
      by (simp only: GetEncodedRootLength_def Let_def A_def B_def C_def length_0_conv if_False
          simp_thms)
    have AB: "A \<or> B \<longleftrightarrow> IsVolumeCharacter (f ! 0) \<and> 1 < length f \<and> f ! 1 = CHR '':''
        \<and> (length f = 2 \<or> 2 < length f \<and> isAnyDirectorySeparator (f ! 2))"
    proof (cases "length f = 2")
      case False
      then have "1 < length f \<longleftrightarrow> 1 < length f \<and> 2 < length f" by auto
      with False show ?thesis unfolding A_def B_def isAnyDirectorySeparator_def
        by (simp only: simp_thms) metis
    qed (auto simp: A_def B_def)
    have "rooted f \<longleftrightarrow> (A \<or> B) \<or> C \<or> str_index f ''://'' \<noteq> None"
      by (simp only: AB rooted_def C_def False that simp_thms)
    with e url show ?thesis unfolding GetRootLength_def Let_def
      by (cases "str_index f ''://''") simp_all
  qed
  then show ?thesis
    by (cases "f = []") (simp_all add: rooted_def GetRootLength_def GetEncodedRootLength_def)
qed

lemma NormalizeSlashes_eq_Nil [simp]: "NormalizeSlashes f = [] \<longleftrightarrow> f = []"
  by (simp add: NormalizeSlashes_def replace_byte_def)

lemma GetRootLength_NormalizeSlashes:
  "GetRootLength f \<noteq> 0 \<Longrightarrow> GetRootLength (NormalizeSlashes f) \<noteq> 0"
proof -
  let ?n = "NormalizeSlashes f"
  have nth: "?n ! i = (if f ! i = backslash then slash else f ! i)" if "i < length f" for i
    using that by (simp add: NormalizeSlashes_def replace_byte_def)
  have len: "length ?n = length f" by (simp add: NormalizeSlashes_def)
  have url: "str_index f ''://'' \<noteq> None \<Longrightarrow> str_index ?n ''://'' \<noteq> None"
  proof -
    assume "str_index f ''://'' \<noteq> None"
    then obtain p q where "f = p @ ''://'' @ q" by (metis str_index_None_iff)
    then have "?n = replace_byte backslash slash p @ ''://'' @ replace_byte backslash slash q"
      by (simp add: NormalizeSlashes_def) (simp add: replace_byte_def)
    then show ?thesis by (metis str_index_None_iff)
  qed
  assume "GetRootLength f \<noteq> 0"
  then have "rooted f" by (simp add: GetRootLength_zero)
  moreover have "?n ! i = slash" if "i < length f" "isAnyDirectorySeparator (f ! i)" for i
    using that nth by (auto simp: isAnyDirectorySeparator_def)
  moreover have "?n ! i = c" if "i < length f" "f ! i = c" "c \<noteq> backslash" for i c
    using that nth by auto
  moreover have "IsVolumeCharacter (f ! 0) \<Longrightarrow> f ! 0 \<noteq> backslash" by (auto simp: IsVolumeCharacter_def)
  moreover have "isAnyDirectorySeparator slash" by (simp add: isAnyDirectorySeparator_def)
  ultimately have "rooted ?n" unfolding rooted_def len
    using url len by (elim conjE disjE) simp_all
  then show ?thesis by (simp add: GetRootLength_zero)
qed

text \<open>The absolute path the function normalises is the one \<open>CombinePaths\<close> builds.\<close>

definition absolute_path :: "string \<Rightarrow> string \<Rightarrow> string" where
  "absolute_path fileName currentDirectory =
     (if GetRootLength fileName = 0 \<and> currentDirectory \<noteq> []
      then CombinePaths currentDirectory [fileName] else NormalizeSlashes fileName)"

lemma NormalizeSlashes_Nil [simp]: "NormalizeSlashes [] = []"
  by (simp add: NormalizeSlashes_def replace_byte_def)

lemma absolute_path_combine: "absolute_path f cd = CombinePaths cd [f]"
proof (cases "GetRootLength f = 0 \<and> cd \<noteq> []")
  case False
  have "GetRootLength [] = 0" by (simp add: GetRootLength_zero rooted_def)
  with False have "f = [] \<and> cd = [] \<or> f \<noteq> [] \<and> cd = []
      \<or> f \<noteq> [] \<and> GetRootLength (NormalizeSlashes f) \<noteq> 0"
    using GetRootLength_NormalizeSlashes [of f] by (cases "f = []") auto
  then have "CombinePaths cd [f] = NormalizeSlashes f"
    by (auto simp: CombinePaths_def combine_step_def Let_def)
  with False show ?thesis by (simp only: absolute_path_def if_False)
qed (simp add: absolute_path_def)

lemma backslash_NormalizeSlashes [simp]: "backslash \<notin> set (NormalizeSlashes f)"
  by (simp add: NormalizeSlashes_def set_replace_byte)

lemma backslash_combine: "backslash \<notin> set result \<Longrightarrow> backslash \<notin> set (combine_step result p)"
  by (auto simp: combine_step_def Let_def)

lemma backslash_CombinePaths: "backslash \<notin> set (CombinePaths cd ps)"
proof -
  have "backslash \<notin> set p \<Longrightarrow> backslash \<notin> set (foldl combine_step p ps)" for p
    by (induction ps arbitrary: p) (simp_all add: backslash_combine)
  then show ?thesis by (simp add: CombinePaths_def)
qed

lemma wf_foldl_push:
  "wf_components cs \<Longrightarrow> wf_components (foldl (push root) cs (split_byte slash p))"
proof -
  have "\<forall>w\<in>set ws. slash \<notin> set w \<Longrightarrow> wf_components cs \<Longrightarrow> wf_components (foldl (push root) cs ws)" for ws
    by (induction ws arbitrary: cs) (auto simp: wf_components_push)
  then show "wf_components cs \<Longrightarrow> ?thesis" by (auto dest: split_byte_no_sep)
qed

text \<open>What the loop's result is, by the invariant at its end.\<close>

lemma loop_path_correct:
  assumes f: "backslash \<notin> set f" and r: "r = GetRootLength f" "r < length f"
    and s: "s = norm_loop f r \<lparr>changed = False, normalized = [], index = r, normalizedUpTo = r,
               seenNonDotDotSegment = (r \<noteq> 0)\<rparr>"
  shows "(if changed s then normalized s else RemoveTrailingDirectorySeparators f)
    = GetPathFromPathComponents (reducePathComponents (pathComponents f r))"
proof -
  define root cs where "root = take r f" and "cs = foldl (push root) [] (split_byte slash (drop r f))"
  have root: "wf_root root" using root_is_prefix [OF f] r by (auto simp: root_def)
  have "norm_inv f r cs s \<and> length f \<le> index s"
    using norm_loop_inv [of f r "[]" "\<lparr>changed = False, normalized = [], index = r,
        normalizedUpTo = r, seenNonDotDotSegment = (r \<noteq> 0)\<rparr>"] r root
    by (auto simp: s cs_def root_def norm_inv_def)
  then have inv: "norm_inv f r cs s" and fin: "length f \<le> index s" by auto
  have wf: "wf_components cs" by (simp add: cs_def wf_foldl_push)
  have spec: "GetPathFromPathComponents (reducePathComponents (pathComponents f r)) = path_of root cs"
  proof -
    have "(if root \<noteq> [] then EnsureTrailingDirectorySeparator root else root) = root"
      using root by (auto simp: wf_root_def EnsureTrailingDirectorySeparator_def
          HasTrailingDirectorySeparator_def isAnyDirectorySeparator_def)
    then show ?thesis
      by (simp add: pathComponents_push root_def [symmetric] cs_def [symmetric]
          GetPathFromPathComponents_def path_of_def)
  qed
  show ?thesis
  proof (cases "changed s")
    case True
    with inv spec show ?thesis by (simp add: norm_inv_def root_def)
  next
    case False
    with inv have n: "normalizedUpTo s \<le> length f" "take (normalizedUpTo s) f = path_of root cs"
      "index s = (if cs = [] then r else normalizedUpTo s + 1)"
      "cs \<noteq> [] \<longrightarrow> normalizedUpTo s < length f \<longrightarrow> f ! normalizedUpTo s = slash"
      by (auto simp: norm_inv_def root_def)
    then have ne: "cs \<noteq> []" using fin r by auto
    have f_cases: "f = path_of root cs \<or> f = path_of root cs @ ''/''"
    proof (cases "normalizedUpTo s = length f")
      case False
      then have "f = take (normalizedUpTo s) f @ [f ! normalizedUpTo s]"
        using n fin ne by (metis Suc_eq_plus1 le_antisym le_neq_implies_less not_less_eq_eq
            take_Suc_conv_app_nth take_all)
      with n ne False show ?thesis by auto
    qed (use n in simp)
    have "path_of root cs \<noteq> [] \<and> \<not> isAnyDirectorySeparator (last (path_of root cs))"
    proof -
      from f_cases have "set (path_of root cs) \<subseteq> set f" by (metis Un_upper1 order_refl set_append)
      then have "backslash \<notin> set (str_join cs ''/'')" using f by (auto simp: path_of_def)
      then have "\<forall>w\<in>set cs. w \<noteq> [] \<and> slash \<notin> set w \<and> backslash \<notin> set w"
        using wf set_str_join [of _ cs "''/''"] by (auto simp: wf_components_def)
      from join_names_last [OF this ne] show ?thesis by (simp add: path_of_def)
    qed
    with f_cases have "RemoveTrailingDirectorySeparators f = path_of root cs"
      using RemoveTrailingDirectorySeparators_slash by blast
    with False spec show ?thesis by simp
  qed
qed

text \<open>
  \<open>GetNormalizedAbsolutePath\<close> returns the path of the reduced components, whichever of its
  branches runs.
\<close>

lemma normalized_absolute_path_eq:
  "GetNormalizedAbsolutePath fileName cd = GetPathFromPathComponents (GetNormalizedPathComponents fileName cd)"
proof -
  define f r where "f = CombinePaths cd [fileName]" and "r = GetRootLength f"
  have f: "backslash \<notin> set f" by (simp add: f_def backslash_CombinePaths)
  have r: "r \<le> length f" by (simp add: r_def GetRootLength_le)
  have rhs: "GetPathFromPathComponents (GetNormalizedPathComponents fileName cd)
      = GetPathFromPathComponents (reducePathComponents (pathComponents f r))"
    by (simp add: GetNormalizedPathComponents_def component_loop_reduces f_def r_def)
  define s where "s = norm_loop f r \<lparr>changed = False, normalized = [], index = r,
      normalizedUpTo = r, seenNonDotDotSegment = (r \<noteq> 0)\<rparr>"
  obtain t ok where t: "simpleNormalizePath f = (t, ok)" by (cases "simpleNormalizePath f")
  have lhs: "GetNormalizedAbsolutePath fileName cd =
      (if ok then simple_result r t
       else if changed s then normalized s
       else if length f > r then RemoveTrailingDirectorySeparators f
       else EnsureTrailingDirectorySeparator f)"
  proof -
    have a: "(if GetRootLength fileName = 0 \<and> cd \<noteq> [] then CombinePaths cd [fileName]
        else NormalizeSlashes fileName) = f"
      using absolute_path_combine [of fileName cd] by (simp only: absolute_path_def f_def)
    show ?thesis
      unfolding GetNormalizedAbsolutePath_def a Let_def r_def [symmetric] s_def [symmetric] t
      using r by (cases ok) (simp_all add: simple_result_def)
  qed
  show ?thesis
  proof (cases ok)
    case True
    with lhs rhs simple_path_correct [OF f, of t] t show ?thesis by (simp add: r_def)
  next
    case False
    show ?thesis
    proof (cases "r < length f")
      case lt: True
      from loop_path_correct [OF f r_def lt s_def] show ?thesis
        unfolding rhs lhs using False lt by (cases "changed s") simp_all
    next
      case whole: False
      then have rf: "r = length f" using r by simp
      then have "\<not> changed s" by (simp add: s_def norm_loop.simps)
      moreover have "f \<noteq> []" using t False by (auto simp: simpleNormalizePath_def hasRelativePathSegment_def)
      ultimately show ?thesis unfolding lhs rhs using False rf
        by (simp add: pathComponents_push push_empty GetPathFromPathComponents_def)
    qed
  qed
qed

section \<open>Properties\<close>

text \<open>C1: \<open>GetNormalizedAbsolutePath\<close>, which works on the string with a fast path for paths that
  need little cleaning and otherwise a loop with incremental state, returns the path built from
  the components that the reference algorithm gives, for every file name and every current
  directory and whichever of its branches runs.\<close>
theorem GetNormalizedAbsolutePath_reference:
  "GetNormalizedAbsolutePath fileName currentDirectory
     = GetPathFromPathComponents (GetNormalizedPathComponents fileName currentDirectory)"
  by (rule normalized_absolute_path_eq)

end
