(* ===== verification/PathCompare.thy ===== *)
theory PathCompare
  imports PathNormCorrect
begin

text \<open>
  \<open>tsc/internal/tspath/path.go\<close>, last part: relative paths, comparison and containment of
  paths, walking up the ancestors of a directory. The equality comparers share a contract
  (locale \<open>equality\<close>) from which containment inherits its laws.
\<close>

section \<open>The code\<close>

record ComparePathsOptions =
  UseCaseSensitiveFileNames :: bool
  CurrentDirectory :: string

definition GetComparer :: "unicode_tables \<Rightarrow> ComparePathsOptions \<Rightarrow> string \<Rightarrow> string \<Rightarrow> int" where
  "GetComparer U opts = GetStringComparer U (\<not> UseCaseSensitiveFileNames opts)"

definition getEqualityComparer ::
  "unicode_tables \<Rightarrow> ComparePathsOptions \<Rightarrow> string \<Rightarrow> string \<Rightarrow> bool" where
  "getEqualityComparer U opts = GetStringEqualityComparer U (\<not> UseCaseSensitiveFileNames opts)"

text \<open>The root is always compared without case.\<close>

definition component_comparer ::
  "unicode_tables \<Rightarrow> ComparePathsOptions \<Rightarrow> nat \<Rightarrow> string \<Rightarrow> string \<Rightarrow> bool" where
  "component_comparer U opts i =
     (if i = 0 then EquateStringCaseInsensitive U else getEqualityComparer U opts)"

fun common_start ::
  "(nat \<Rightarrow> string \<Rightarrow> string \<Rightarrow> bool) \<Rightarrow> nat \<Rightarrow> string list \<Rightarrow> string list \<Rightarrow> nat" where
  "common_start cmp start (f # fs) (t # ts) =
     (if \<not> cmp start f t then start else common_start cmp (start + 1) fs ts)"
| "common_start cmp start _ _ = start"

definition relative_components ::
  "unicode_tables \<Rightarrow> ComparePathsOptions \<Rightarrow> string list \<Rightarrow> string list \<Rightarrow> string list" where
  "relative_components U opts fromComponents toComponents =
     (let start = common_start (component_comparer U opts) 0 fromComponents toComponents in
      if start = 0 then toComponents
      else [] # replicate (length fromComponents - start) ''..'' @ drop start toComponents)"

definition GetPathComponentsRelativeTo ::
  "unicode_tables \<Rightarrow> string \<Rightarrow> string \<Rightarrow> ComparePathsOptions \<Rightarrow> string list" where
  "GetPathComponentsRelativeTo U from to opts =
     relative_components U opts
       (reducePathComponents (GetPathComponents from (CurrentDirectory opts)))
       (reducePathComponents (GetPathComponents to (CurrentDirectory opts)))"

definition GetRelativePathFromDirectory ::
  "unicode_tables \<Rightarrow> string \<Rightarrow> string \<Rightarrow> ComparePathsOptions \<Rightarrow> string panics" where
  "GetRelativePathFromDirectory U fromDirectory to opts =
     (if (GetRootLength fromDirectory > 0) \<noteq> (GetRootLength to > 0) then None
      else Some (GetPathFromPathComponents (GetPathComponentsRelativeTo U fromDirectory to opts)))"

definition GetRelativePathFromFile ::
  "unicode_tables \<Rightarrow> string \<Rightarrow> string \<Rightarrow> ComparePathsOptions \<Rightarrow> string panics" where
  "GetRelativePathFromFile U from to opts =
     map_option EnsurePathIsNonModuleName (GetRelativePathFromDirectory U (GetDirectoryPath from) to opts)"

definition GetRelativePathToDirectoryOrUrl ::
  "unicode_tables \<Rightarrow> string \<Rightarrow> string \<Rightarrow> bool \<Rightarrow> ComparePathsOptions \<Rightarrow> string" where
  "GetRelativePathToDirectoryOrUrl U directoryPathOrUrl relativeOrAbsolutePath isAbsolutePathAnUrl opts =
     (let components = GetPathComponentsRelativeTo U directoryPathOrUrl relativeOrAbsolutePath opts;
          firstComponent = components ! 0;
          components' =
            (if isAbsolutePathAnUrl \<and> IsRootedDiskPath firstComponent
             then (let pre = (if firstComponent ! 0 = slash then ''file://'' else ''file:///'')
                   in components[0 := pre @ firstComponent])
             else components)
      in GetPathFromPathComponents components')"

definition ConvertToRelativePath :: "unicode_tables \<Rightarrow> string \<Rightarrow> ComparePathsOptions \<Rightarrow> string" where
  "ConvertToRelativePath U absoluteOrRelativePath opts =
     (if \<not> IsRootedDiskPath absoluteOrRelativePath then absoluteOrRelativePath
      else GetRelativePathToDirectoryOrUrl U (CurrentDirectory opts) absoluteOrRelativePath False opts)"

text \<open>The loop of \<open>ComparePaths\<close> over the components after the root.\<close>

fun compare_components :: "(string \<Rightarrow> string \<Rightarrow> int) \<Rightarrow> string list \<Rightarrow> string list \<Rightarrow> int" where
  "compare_components cmp (a # as) (b # bs) =
     (let result = cmp a b in if result \<noteq> 0 then result else compare_components cmp as bs)"
| "compare_components cmp [] [] = 0"
| "compare_components cmp [] (_ # _) = -1"
| "compare_components cmp (_ # _) [] = 1"

definition ComparePaths :: "unicode_tables \<Rightarrow> string \<Rightarrow> string \<Rightarrow> ComparePathsOptions \<Rightarrow> int" where
  "ComparePaths U a0 b0 opts =
     (let a = CombinePaths (CurrentDirectory opts) [a0]; b = CombinePaths (CurrentDirectory opts) [b0] in
      if a = b then 0
      else if a = [] then -1
      else if b = [] then 1
      else (let aRoot = take (GetRootLength a) a; bRoot = take (GetRootLength b) b;
                result = CompareStringsCaseInsensitive U aRoot bRoot in
            if result \<noteq> 0 then result
            else (let aRest = drop (length aRoot) a; bRest = drop (length bRoot) b in
                  if \<not> hasRelativePathSegment aRest \<and> \<not> hasRelativePathSegment bRest
                  then GetComparer U opts aRest bRest
                  else compare_components (GetComparer U opts)
                         (tl (reducePathComponents (GetPathComponents a [])))
                         (tl (reducePathComponents (GetPathComponents b []))))))"

definition ComparePathsCaseSensitive :: "unicode_tables \<Rightarrow> string \<Rightarrow> string \<Rightarrow> string \<Rightarrow> int" where
  "ComparePathsCaseSensitive U a b currentDirectory =
     ComparePaths U a b \<lparr>UseCaseSensitiveFileNames = True, CurrentDirectory = currentDirectory\<rparr>"

definition ComparePathsCaseInsensitive :: "unicode_tables \<Rightarrow> string \<Rightarrow> string \<Rightarrow> string \<Rightarrow> int" where
  "ComparePathsCaseInsensitive U a b currentDirectory =
     ComparePaths U a b \<lparr>UseCaseSensitiveFileNames = False, CurrentDirectory = currentDirectory\<rparr>"

fun components_match ::
  "(nat \<Rightarrow> string \<Rightarrow> string \<Rightarrow> bool) \<Rightarrow> nat \<Rightarrow> string list \<Rightarrow> string list \<Rightarrow> bool" where
  "components_match cmp i [] _ = True"
| "components_match cmp i (p # ps) [] = False"
| "components_match cmp i (p # ps) (c # cs) =
     (if \<not> cmp i p c then False else components_match cmp (i + 1) ps cs)"

definition ContainsPath :: "unicode_tables \<Rightarrow> string \<Rightarrow> string \<Rightarrow> ComparePathsOptions \<Rightarrow> bool" where
  "ContainsPath U parent0 child0 opts =
     (let parent = CombinePaths (CurrentDirectory opts) [parent0];
          child = CombinePaths (CurrentDirectory opts) [child0] in
      if parent = [] \<or> child = [] then False
      else if parent = child then True
      else (let parentComponents = reducePathComponents (GetPathComponents parent []);
                childComponents = reducePathComponents (GetPathComponents child []) in
            if length childComponents < length parentComponents then False
            else components_match (component_comparer U opts) 0 parentComponents childComponents))"

definition Path_ContainsPath :: "string \<Rightarrow> string \<Rightarrow> bool" where
  "Path_ContainsPath p child =
     (if length p = 0 then False
      else p = child \<or> length child > length p \<and> HasPrefix child p
                        \<and> (p ! (length p - 1) = slash \<or> child ! length p = slash))"

text \<open>
  A callback is a function of the caller's state and the directory; it returns the new state,
  the result and whether to stop.
\<close>

lemma GetDirectoryPath_measure:
  assumes "GetDirectoryPath d \<noteq> d"
  shows "length (GetDirectoryPath d) + count_byte backslash (GetDirectoryPath d)
       < length d + count_byte backslash d"
proof -
  let ?n = "NormalizeSlashes d" and ?p = "RemoveTrailingDirectorySeparator (NormalizeSlashes d)"
  have len: "length ?n = length d" by (simp add: NormalizeSlashes_def)
  have b: "backslash \<notin> set (GetDirectoryPath d)"
    by (auto simp: GetDirectoryPath_def Let_def RemoveTrailingDirectorySeparator_def
        dest!: in_set_takeD in_set_butlastD)
  then have c: "count_byte backslash (GetDirectoryPath d) = 0"
    by (auto simp: count_byte_def filter_empty_conv)
  show ?thesis
  proof (cases "length (GetDirectoryPath d) < length d")
    case True
    with c show ?thesis by simp
  next
    case False
    have "GetDirectoryPath d = ?n"
    proof (rule ccontr)
      assume ne: "GetDirectoryPath d \<noteq> ?n"
      define m where "m = max (GetRootLength ?n) (case str_last_index ?p ''/'' of Some i \<Rightarrow> i | None \<Rightarrow> 0)"
      have r: "GetRootLength ?n \<noteq> length ?n" and g: "GetDirectoryPath d = take m ?p"
        using ne by (auto simp: GetDirectoryPath_def Let_def m_def split: if_splits)
      have "GetRootLength ?n < length ?n" using r GetRootLength_le [of ?n] by simp
      moreover have "str_last_index ?p ''/'' = Some i \<Longrightarrow> i < length ?n" for i
        using last_index_byte_less [of ?p slash i]
        by (auto simp: str_last_index_byte RemoveTrailingDirectorySeparator_def split: if_splits)
      ultimately have "m < length ?n" by (auto simp: m_def split: option.split)
      with g False len show False by simp
    qed
    with assms have "?n \<noteq> d" by simp
    then have "backslash \<in> set d" using replace_byte_id unfolding NormalizeSlashes_def by metis
    then have "0 < count_byte backslash d" by (auto simp: count_byte_def filter_empty_conv)
    with \<open>GetDirectoryPath d = ?n\<close> len c show ?thesis by simp
  qed
qed

function ForEachAncestorDirectory ::
  "('s \<Rightarrow> string \<Rightarrow> 's \<times> 't \<times> bool) \<Rightarrow> 't \<Rightarrow> 's \<Rightarrow> string \<Rightarrow> 's \<times> 't \<times> bool" where
  "ForEachAncestorDirectory callback zero s directory =
     (let (s', result, stop) = callback s directory in
      if stop then (s', result, True)
      else (let parentPath = GetDirectoryPath directory in
            if parentPath = directory then (s', zero, False)
            else ForEachAncestorDirectory callback zero s' parentPath))"
  by pat_completeness auto
termination
  by (relation "measure (\<lambda>(callback, zero, s, d). length d + count_byte backslash d)")
    (use GetDirectoryPath_measure in auto)

declare ForEachAncestorDirectory.simps [simp del]

definition ForEachAncestorDirectoryStoppingAtGlobalCache ::
  "string \<Rightarrow> ('s \<Rightarrow> string \<Rightarrow> 's \<times> 't \<times> bool) \<Rightarrow> 't \<Rightarrow> 's \<Rightarrow> string \<Rightarrow> 's \<times> 't" where
  "ForEachAncestorDirectoryStoppingAtGlobalCache globalCacheLocation callback zero s directory =
     (let (s', result, ok) =
        ForEachAncestorDirectory
          (\<lambda>s ancestorDirectory.
             let (s', result, stop) = callback s ancestorDirectory in
             if stop \<or> ancestorDirectory = globalCacheLocation then (s', result, True)
             else (s', result, False))
          zero s directory
      in (s', result))"

definition CompareNumberOfDirectorySeparators :: "string \<Rightarrow> string \<Rightarrow> int" where
  "CompareNumberOfDirectorySeparators path1 path2 =
     (let a = count_byte slash path1; b = count_byte slash path2 in
      if a < b then -1 else if a > b then 1 else 0)"

section \<open>Equality of components\<close>

locale equality =
  fixes eq :: "'a \<Rightarrow> 'a \<Rightarrow> bool"
  assumes eq_refl: "eq a a"
    and eq_sym: "eq a b \<Longrightarrow> eq b a"
    and eq_trans: "eq a b \<Longrightarrow> eq b c \<Longrightarrow> eq a c"
begin

lemma list_all2_same: "list_all2 eq xs xs"
  by (simp add: list_all2_refl eq_refl)

lemma list_all2_compose: "list_all2 eq xs ys \<Longrightarrow> list_all2 eq ys zs \<Longrightarrow> list_all2 eq xs zs"
  by (rule list_all2_trans [OF eq_trans])

lemma prefix_compose:
  assumes "list_all2 eq ps (take (length ps) cs)" "list_all2 eq cs (take (length cs) ds)"
  shows "list_all2 eq ps (take (length ps) ds)"
proof -
  have "length ps \<le> length cs" using list_all2_lengthD [OF assms(1)] by simp
  moreover have "list_all2 eq (take (length ps) cs) (take (length ps) (take (length cs) ds))"
    using assms(2) by (rule list_all2_takeI)
  ultimately have "list_all2 eq (take (length ps) cs) (take (length ps) ds)"
    by (simp add: min_absorb1)
  with assms(1) show ?thesis by (rule list_all2_compose)
qed

end

interpretation fold_equality: equality "EquateStringCaseInsensitive U"
  by unfold_locales (auto simp: EquateStringCaseInsensitive_def EqualFold_sym intro: EqualFold_trans)

lemma sensitive_is_equality: "equality EquateStringCaseSensitive"
  by unfold_locales (simp_all add: EquateStringCaseSensitive_def)

interpretation option_equality: equality "getEqualityComparer U opts"
  unfolding getEqualityComparer_def GetStringEqualityComparer_def
  by (cases "UseCaseSensitiveFileNames opts")
    (simp_all add: fold_equality.equality_axioms sensitive_is_equality)

section \<open>Relative components lead from one path to the other\<close>

lemma common_start_common:
  "k = common_start cmp s fs ts \<Longrightarrow>
   s \<le> k \<and> k - s \<le> length fs \<and> k - s \<le> length ts \<and> (\<forall>i<k - s. cmp (s + i) (fs ! i) (ts ! i))"
proof (induction cmp s fs ts arbitrary: k rule: common_start.induct)
  case (1 cmp s f fs t ts)
  show ?case
  proof (cases "cmp s f t")
    case False
    with 1 show ?thesis by simp
  next
    case True
    with 1 have IH: "s + 1 \<le> k \<and> k - (s + 1) \<le> length fs \<and> k - (s + 1) \<le> length ts
        \<and> (\<forall>i<k - (s + 1). cmp (s + 1 + i) (fs ! i) (ts ! i))" by simp
    have "cmp (s + i) ((f # fs) ! i) ((t # ts) ! i)" if "i < k - s" for i
      using that IH True by (cases i) auto
    with IH show ?thesis by auto
  qed
qed auto

lemma push_pops:
  "root \<noteq> [] \<Longrightarrow> list_all proper_name fs \<Longrightarrow>
   foldl (push root) (cs @ fs) (replicate (length fs) ''..'') = cs"
proof (induction fs rule: rev_induct)
  case (snoc f fs)
  then have "push root (cs @ fs @ [f]) ''..'' = cs @ fs"
    by (auto simp: push_def proper_name_def butlast_append)
  with snoc show ?case by simp
qed simp

lemma reduced_rooted_names: "root \<noteq> [] \<Longrightarrow> reduced_tail root cs \<longleftrightarrow> list_all proper_name cs"
  by (auto simp: reduced_tail_def)

lemma EqualFold_Nil: "EqualFold U s [] \<Longrightarrow> s = []"
  by (cases "s = []") (auto simp: EqualFold_def runes_unfold [of s] Let_def case_prod_beta)

lemma relative_components_resolve:
  assumes "reduced_components fs" "reduced_components ts" "fs \<noteq> []" "ts \<noteq> []" "hd fs \<noteq> []"
    and root: "EquateStringCaseInsensitive U (hd fs) (hd ts)"
  shows "hd (relative_components U opts fs ts) = []
    \<and> (\<exists>cs. reducePathComponents (fs @ tl (relative_components U opts fs ts)) = hd fs # cs
          \<and> list_all2 (getEqualityComparer U opts) cs (tl ts))"
proof -
  define k where "k = common_start (component_comparer U opts) 0 fs ts"
  obtain r F r' T where fs: "fs = r # F" and ts: "ts = r' # T"
    using assms(3,4) by (metis neq_Nil_conv)
  note common = common_start_common [OF k_def]
  have k: "k \<noteq> 0"
    using root fs ts common_start_common [of _ "component_comparer U opts" 1 F T]
    by (auto simp: k_def component_comparer_def)
  then obtain n where n: "k = Suc n" by (cases k) auto
  have r: "r \<noteq> []" and r': "r' \<noteq> []"
    using assms(5) root fs ts EqualFold_Nil by (auto simp: EquateStringCaseInsensitive_def)
  have F: "list_all proper_name F" and T: "list_all proper_name T"
    using assms(1,2) fs ts r r' by (auto simp: reduced_components_def reduced_rooted_names)
  have "n \<le> length F" "n \<le> length T" using common fs ts n by auto
  have eq: "list_all2 (getEqualityComparer U opts) (take n F) (take n T)"
  proof (rule list_all2_all_nthI)
    fix i assume "i < length (take n F)"
    then have "component_comparer U opts (Suc i) (fs ! Suc i) (ts ! Suc i)" using common n by auto
    with \<open>i < length (take n F)\<close> fs ts show "getEqualityComparer U opts (take n F ! i) (take n T ! i)"
      by (simp add: component_comparer_def)
  qed (use \<open>n \<le> length F\<close> \<open>n \<le> length T\<close> in simp)
  have R: "relative_components U opts fs ts = [] # replicate (length F - n) ''..'' @ drop n T"
    unfolding relative_components_def k_def [symmetric] Let_def using k n fs ts by simp
  have "foldl (push r) [] (F @ replicate (length F - n) ''..'' @ drop n T)
      = foldl (push r) (foldl (push r) F (replicate (length F - n) ''..'')) (drop n T)"
    using F by (simp add: foldl_push_names)
  also have "foldl (push r) F (replicate (length F - n) ''..'') = take n F"
  proof -
    have "list_all proper_name (drop n F)" using F by (auto simp: list_all_iff dest: in_set_dropD)
    then have "foldl (push r) (take n F @ drop n F) (replicate (length (drop n F)) ''..'') = take n F"
      by (rule push_pops [OF r])
    then show ?thesis by simp
  qed
  also have "foldl (push r) (take n F) (drop n T) = take n F @ drop n T"
    using T by (intro foldl_push_names) (auto simp: list_all_iff dest: in_set_dropD)
  finally have "reducePathComponents (fs @ tl (relative_components U opts fs ts))
      = r # take n F @ drop n T"
    unfolding R by (simp add: fs reducePathComponents_push)
  moreover have "list_all2 (getEqualityComparer U opts) (take n F @ drop n T) T"
    using list_all2_appendI [OF eq option_equality.list_all2_same [of U opts "drop n T"]] by simp
  ultimately show ?thesis using R fs ts by simp
qed

text \<open>With case-sensitive names the result is the target itself.\<close>

lemma sensitive_equality: "UseCaseSensitiveFileNames opts \<Longrightarrow> getEqualityComparer U opts = (=)"
  by (intro ext)
    (simp add: getEqualityComparer_def GetStringEqualityComparer_def EquateStringCaseSensitive_def)

section \<open>Containment\<close>

lemma components_match_list:
  "components_match cmp i ps cs \<longleftrightarrow>
     length ps \<le> length cs \<and> (\<forall>j<length ps. cmp (i + j) (ps ! j) (cs ! j))"
proof (induction cmp i ps cs rule: components_match.induct)
  case (3 cmp i p ps c cs)
  have "(\<forall>j<Suc (length ps). cmp (i + j) ((p # ps) ! j) ((c # cs) ! j)) \<longleftrightarrow>
      cmp i p c \<and> (\<forall>j<length ps. cmp (i + 1 + j) (ps ! j) (cs ! j))"
    by (auto simp: nth_Cons' less_Suc_eq_0_disj)
  with 3 show ?case by simp
qed auto

definition contains_components ::
  "unicode_tables \<Rightarrow> ComparePathsOptions \<Rightarrow> string list \<Rightarrow> string list \<Rightarrow> bool" where
  "contains_components U opts ps cs \<longleftrightarrow>
     length ps \<le> length cs \<and> (\<forall>j<length ps. component_comparer U opts j (ps ! j) (cs ! j))"

lemma component_comparer_refl: "component_comparer U opts i a a"
  by (simp add: component_comparer_def fold_equality.eq_refl option_equality.eq_refl)

lemma component_comparer_trans:
  "component_comparer U opts i a b \<Longrightarrow> component_comparer U opts i b c \<Longrightarrow> component_comparer U opts i a c"
  by (auto simp: component_comparer_def split: if_splits
      intro: fold_equality.eq_trans option_equality.eq_trans)

lemma contains_components_refl: "contains_components U opts cs cs"
  by (simp add: contains_components_def component_comparer_refl)

lemma contains_components_trans:
  "contains_components U opts ps cs \<Longrightarrow> contains_components U opts cs ds \<Longrightarrow> contains_components U opts ps ds"
  unfolding contains_components_def
  by (meson component_comparer_trans le_trans order_less_le_trans)

lemma combine_empty: "backslash \<notin> set p \<Longrightarrow> CombinePaths [] [p] = p"
  by (simp add: CombinePaths_def combine_step_def Let_def NormalizeSlashes_def replace_byte_id)

lemma combine_nothing: "CombinePaths [] [CombinePaths cd [p]] = CombinePaths cd [p]"
  by (rule combine_empty [OF backslash_CombinePaths])

lemma ContainsPath_components:
  "ContainsPath U parent child opts \<longleftrightarrow>
     CombinePaths (CurrentDirectory opts) [parent] \<noteq> []
     \<and> CombinePaths (CurrentDirectory opts) [child] \<noteq> []
     \<and> contains_components U opts
         (reducePathComponents (GetPathComponents parent (CurrentDirectory opts)))
         (reducePathComponents (GetPathComponents child (CurrentDirectory opts)))"
  unfolding ContainsPath_def Let_def GetPathComponents_def combine_nothing components_match_list
  by (auto simp: contains_components_def component_comparer_refl)

lemma common_start_full:
  "length fs \<le> length ts \<Longrightarrow> \<forall>i<length fs. cmp (s + i) (fs ! i) (ts ! i) \<Longrightarrow>
   common_start cmp s fs ts = s + length fs"
proof (induction cmp s fs ts rule: common_start.induct)
  case (1 cmp s f fs t ts)
  then have "cmp s f t" by force
  moreover have "cmp (s + 1 + i) (fs ! i) (ts ! i)" if "i < length fs" for i
    using that "1.prems"(2) [rule_format, of "Suc i"] by simp
  ultimately show ?case using 1 by simp
qed auto

text \<open>The relative components of a contained path only go down.\<close>

lemma reduced_not_Nil: "reducePathComponents (GetPathComponents p cd) \<noteq> []"
  by (simp add: GetPathComponents_def Let_def pathComponents_push)

lemma contained_relative:
  assumes "ContainsPath U parent child opts"
  shows "GetPathComponentsRelativeTo U parent child opts =
     [] # drop (length (reducePathComponents (GetPathComponents parent (CurrentDirectory opts))))
            (reducePathComponents (GetPathComponents child (CurrentDirectory opts)))"
proof -
  let ?ps = "reducePathComponents (GetPathComponents parent (CurrentDirectory opts))"
    and ?cs = "reducePathComponents (GetPathComponents child (CurrentDirectory opts))"
  have "contains_components U opts ?ps ?cs" using assms by (simp add: ContainsPath_components)
  then have "common_start (component_comparer U opts) 0 ?ps ?cs = 0 + length ?ps"
    by (intro common_start_full) (auto simp: contains_components_def)
  moreover have "?ps \<noteq> []"
    by (simp add: GetPathComponents_def Let_def pathComponents_push)
  ultimately show ?thesis
    by (simp add: GetPathComponentsRelativeTo_def relative_components_def)
qed

lemma path_of_inject:
  assumes "wf_components cs" "wf_components ds" "path_of root cs = path_of root ds"
  shows "cs = ds"
proof -
  have j: "str_join cs ''/'' = str_join ds ''/''" using assms(3) by (simp add: path_of_def)
  have "cs = [] \<longleftrightarrow> ds = []"
    using length_path_of_eq [OF assms(1), of root] length_path_of_eq [OF assms(2), of root] assms(3)
    by simp
  moreover have "es \<noteq> [] \<Longrightarrow> wf_components es \<Longrightarrow> split_byte slash (str_join es ''/'') = es" for es
    by (rule split_byte_join) (auto simp: wf_components_def)
  ultimately show ?thesis using j assms by metis
qed

lemma path_of_append:
  "cs \<noteq> [] \<Longrightarrow> es \<noteq> [] \<Longrightarrow> path_of root (cs @ es) = path_of root cs @ ''/'' @ str_join es ''/''"
  by (simp add: path_of_def str_join_append)

lemma wf_components_append [simp]:
  "wf_components (cs @ ds) \<longleftrightarrow> wf_components cs \<and> wf_components ds"
  by (auto simp: wf_components_def)

text \<open>On canonical paths with one root, containment as a string prefix is containment of components.\<close>

lemma Path_ContainsPath_iff_prefix:
  assumes "wf_root root" "wf_components cs" "wf_components ds" "path_of root cs \<noteq> []"
  shows "Path_ContainsPath (path_of root cs) (path_of root ds) \<longleftrightarrow> prefix cs ds"
proof
  let ?p = "path_of root cs" and ?c = "path_of root ds"
  assume l: "Path_ContainsPath ?p ?c"
  show "prefix cs ds"
  proof (cases "?p = ?c \<or> cs = []")
    case True
    then show ?thesis using path_of_inject assms by auto
  next
    case False
    with l assms(4) have h: "HasPrefix ?c ?p" "length ?p < length ?c"
      "?p ! (length ?p - 1) = slash \<or> ?c ! length ?p = slash"
      by (auto simp: Path_ContainsPath_def)
    then obtain t where t: "?c = ?p @ t" by (auto simp: HasPrefix_iff)
    obtain cs' x where cs: "cs = cs' @ [x]" using False by (metis butlast_last_decomp)
    then have x: "x \<noteq> []" "slash \<notin> set x" using assms(2) by auto
    then have "last ?p = last x" using cs by (simp add: path_of_snoc)
    then have "?p ! (length ?p - 1) \<noteq> slash"
      using x assms(4) by (metis last_conv_nth last_in_set)
    then obtain t' where t': "?c = ?p @ slash # t'"
      using h t by (cases t) auto
    then have "str_join ds ''/'' = str_join cs ''/'' @ slash # t'" by (simp add: path_of_def)
    then have "split_byte slash (str_join ds ''/'')
        = split_byte slash (str_join cs ''/'') @ split_byte slash t'"
      by (simp add: split_byte_append_sep)
    moreover have "ds \<noteq> []" using t' cs by (auto simp: path_of_def)
    ultimately have "ds = cs @ split_byte slash t'"
      using cs assms(2,3) by (simp add: split_byte_join wf_components_def)
    then show ?thesis by (rule prefixI)
  qed
next
  let ?p = "path_of root cs" and ?c = "path_of root ds"
  assume "prefix cs ds"
  then obtain es where es: "ds = cs @ es" by (auto simp: prefix_def)
  show "Path_ContainsPath ?p ?c"
  proof (cases "es = []")
    case True
    with es assms(4) show ?thesis by (simp add: Path_ContainsPath_def)
  next
    case False
    show ?thesis
    proof (cases "cs = []")
      case True
      with assms(1,4) have "root \<noteq> []" "root ! (length root - 1) = slash"
        by (auto simp: wf_root_def last_conv_nth)
      moreover have "length root < length (path_of root es)"
        using length_path_of_eq [of es root] length_path_of [of root es] assms(3) es True False by auto
      ultimately show ?thesis using True es by (simp add: Path_ContainsPath_def path_of_def)
    next
      case cs: False
      with False es show ?thesis using assms(4)
        by (simp add: path_of_append Path_ContainsPath_def nth_append)
    qed
  qed
qed

section \<open>Walking up\<close>

function ancestors :: "string \<Rightarrow> string list" where
  "ancestors d = d # (if GetDirectoryPath d = d then [] else ancestors (GetDirectoryPath d))"
  by pat_completeness auto
termination
  by (relation "measure (\<lambda>d. length d + count_byte backslash d)") (use GetDirectoryPath_measure in auto)

declare ancestors.simps [simp del]

fun visit :: "('s \<Rightarrow> string \<Rightarrow> 's \<times> 't \<times> bool) \<Rightarrow> 't \<Rightarrow> 's \<Rightarrow> string list \<Rightarrow> 's \<times> 't \<times> bool" where
  "visit callback zero s [] = (s, zero, False)"
| "visit callback zero s (d # ds) =
     (let (s', result, stop) = callback s d in
      if stop then (s', result, True) else visit callback zero s' ds)"

lemma ForEachAncestorDirectory_visit:
  "ForEachAncestorDirectory callback zero s d = visit callback zero s (ancestors d)"
proof (induction callback zero s d rule: ForEachAncestorDirectory.induct)
  case (1 callback zero s d)
  obtain s' res stop where c: "callback s d = (s', res, stop)" by (metis surj_pair)
  show ?case
  proof (cases "stop \<or> GetDirectoryPath d = d")
    case True
    with c show ?thesis
      by (subst ForEachAncestorDirectory.simps, subst ancestors.simps) (auto simp: Let_def)
  next
    case False
    with 1 [OF c [symmetric] refl refl _ refl] c show ?thesis
      by (subst ForEachAncestorDirectory.simps, subst ancestors.simps) (simp add: Let_def)
  qed
qed

lemma ancestors_measure:
  "e \<in> set (ancestors d) \<Longrightarrow> length e + count_byte backslash e \<le> length d + count_byte backslash d"
proof (induction d rule: ancestors.induct)
  case (1 d)
  then show ?case
    using GetDirectoryPath_measure [of d] by (subst (asm) (2) ancestors.simps) (fastforce split: if_splits)
qed

lemma ancestors_distinct: "distinct (ancestors d)"
proof (induction d rule: ancestors.induct)
  case (1 d)
  show ?case
  proof (cases "GetDirectoryPath d = d")
    case True
    then show ?thesis by (simp add: ancestors.simps [of d])
  next
    case False
    have "d \<notin> set (ancestors (GetDirectoryPath d))"
      using ancestors_measure [of d "GetDirectoryPath d"] GetDirectoryPath_measure [OF False] by auto
    with 1 [OF False] False show ?thesis by (simp add: ancestors.simps [of d])
  qed
qed

lemma ancestors_end: "GetDirectoryPath (last (ancestors d)) = last (ancestors d)"
proof (induction d rule: ancestors.induct)
  case (1 d)
  then show ?case
    by (cases "GetDirectoryPath d = d")
      (simp_all add: ancestors.simps [of d] ancestors.simps [of "GetDirectoryPath d"])
qed

section \<open>Properties\<close>

text \<open>C2: The components \<open>GetPathComponentsRelativeTo\<close> returns lead from one rooted path to the
  other: when the two roots are equal up to case, they start with an empty root, and following
  them from the reduced components of the first path gives its root and then the names of the
  second path, equal to them under the comparer of the options.\<close>
theorem GetPathComponentsRelativeTo_leads_there:
  assumes "hd (reducePathComponents (GetPathComponents from (CurrentDirectory opts))) \<noteq> []"
    and "EquateStringCaseInsensitive U
           (hd (reducePathComponents (GetPathComponents from (CurrentDirectory opts))))
           (hd (reducePathComponents (GetPathComponents to (CurrentDirectory opts))))"
  shows "hd (GetPathComponentsRelativeTo U from to opts) = []
    \<and> (\<exists>cs. reducePathComponents
              (reducePathComponents (GetPathComponents from (CurrentDirectory opts))
                 @ tl (GetPathComponentsRelativeTo U from to opts))
            = hd (reducePathComponents (GetPathComponents from (CurrentDirectory opts))) # cs
          \<and> list_all2 (getEqualityComparer U opts) cs
              (tl (reducePathComponents (GetPathComponents to (CurrentDirectory opts)))))"
  unfolding GetPathComponentsRelativeTo_def
  by (rule relative_components_resolve [OF reduced_reduce reduced_reduce reduced_not_Nil
        reduced_not_Nil assms])

theorem GetPathComponentsRelativeTo_leads_there_witness:
  "hd (GetPathComponentsRelativeTo plain_tables ''/a/b'' ''/a/c''
         \<lparr>UseCaseSensitiveFileNames = True, CurrentDirectory = ''/''\<rparr>) = []"
  by (rule GetPathComponentsRelativeTo_leads_there [THEN conjunct1]) code_simp+

text \<open>When a parent path contains a child path, the components that lead from the parent to the
  child never go up: they are the empty root followed by the reduced components of the child
  beyond those of the parent.\<close>
theorem GetPathComponentsRelativeTo_contained:
  assumes "ContainsPath U parent child opts"
  shows "GetPathComponentsRelativeTo U parent child opts =
     [] # drop (length (reducePathComponents (GetPathComponents parent (CurrentDirectory opts))))
            (reducePathComponents (GetPathComponents child (CurrentDirectory opts)))"
  using assms by (rule contained_relative)

theorem GetPathComponentsRelativeTo_contained_witness:
  "GetPathComponentsRelativeTo plain_tables ''/a'' ''/a/c''
     \<lparr>UseCaseSensitiveFileNames = True, CurrentDirectory = ''/''\<rparr> =
   [] # drop (length (reducePathComponents (GetPathComponents ''/a'' ''/'')))
          (reducePathComponents (GetPathComponents ''/a/c'' ''/''))"
proof -
  have "ContainsPath plain_tables ''/a'' ''/a/c''
      \<lparr>UseCaseSensitiveFileNames = True, CurrentDirectory = ''/''\<rparr>" by code_simp
  from GetPathComponentsRelativeTo_contained [OF this] show ?thesis
    by (simp only: ComparePathsOptions.select_convs)
qed

text \<open>\<open>ContainsPath\<close> is transitive, and every path that is not empty after combining contains
  itself, with and without case sensitivity.\<close>
theorem ContainsPath_preorder:
  "(ContainsPath U a b opts \<and> ContainsPath U b c opts \<longrightarrow> ContainsPath U a c opts)
   \<and> (CombinePaths (CurrentDirectory opts) [a] \<noteq> [] \<longrightarrow> ContainsPath U a a opts)"
  by (auto simp: ContainsPath_components contains_components_refl intro: contains_components_trans)

theorem ContainsPath_preorder_witness:
  "ContainsPath plain_tables ''/a'' ''/a/b'' \<lparr>UseCaseSensitiveFileNames = True, CurrentDirectory = ''/''\<rparr>
   \<and> ContainsPath plain_tables ''/a'' ''/a'' \<lparr>UseCaseSensitiveFileNames = True, CurrentDirectory = ''/''\<rparr>"
  using ContainsPath_preorder [of plain_tables "''/a''" "''/a''"
      "\<lparr>UseCaseSensitiveFileNames = True, CurrentDirectory = ''/''\<rparr>" "''/a/b''"]
  by code_simp

text \<open>On canonical paths with the same root, the string test of \<open>Path.ContainsPath\<close> (equal, or a
  prefix that ends at a separator) is true exactly when the components of the one are a prefix of
  the components of the other.\<close>
theorem Path_ContainsPath_is_prefix:
  assumes "wf_root root" "wf_components cs" "wf_components ds" "path_of root cs \<noteq> []"
  shows "Path_ContainsPath (path_of root cs) (path_of root ds) \<longleftrightarrow> prefix cs ds"
  using assms by (rule Path_ContainsPath_iff_prefix)

theorem Path_ContainsPath_is_prefix_witness:
  "Path_ContainsPath (path_of ''/'' [''a'']) (path_of ''/'' [''a'', ''b'']) \<longleftrightarrow> prefix [''a''] [''a'', ''b'']"
  by (rule Path_ContainsPath_is_prefix) (simp_all add: wf_root_def wf_components_def)

text \<open>\<open>ForEachAncestorDirectory\<close> ends for every directory and every callback: it calls the
  callback on the directory and its ancestors in order, threading the callback's state, until the
  callback stops or the root, whose parent is itself, has been visited; no directory is visited
  twice.\<close>
theorem ForEachAncestorDirectory_visits_ancestors:
  "ForEachAncestorDirectory callback zero s d = visit callback zero s (ancestors d)
   \<and> distinct (ancestors d) \<and> hd (ancestors d) = d
   \<and> GetDirectoryPath (last (ancestors d)) = last (ancestors d)"
  by (simp add: ForEachAncestorDirectory_visit ancestors_distinct ancestors_end)
    (simp add: ancestors.simps [of d])

text \<open>The shortcut of \<open>ComparePaths\<close> for paths without relative segments, described as a
  performance optimization, orders paths differently from the comparison by components: three
  paths of which two compare as equal while they compare differently with the third, so
  \<open>ComparePaths\<close> is not a consistent order.\<close>
theorem ComparePaths_inconsistent:
  "ComparePathsCaseSensitive plain_tables ''/a/./b'' ''/a/b'' [] = 0
   \<and> ComparePathsCaseSensitive plain_tables ''/a/./b'' ''/a-b'' [] = -1
   \<and> ComparePathsCaseSensitive plain_tables ''/a/b'' ''/a-b'' [] = 1"
  by (intro conjI) code_simp+

end
