(* ===== verification/PathCase.thy ===== *)
theory PathCase
  imports PathCompare
begin

text \<open>
  \<open>tsc/internal/tspath/path.go\<close>: canonical file names (\<open>ToFileNameLowerCase\<close>,
  \<open>GetCanonicalFileName\<close>, \<open>ToPath\<close>), cutting a prefix off a path without regard to case
  (\<open>TrimFilePathPrefix\<close>) and the common parents of a set of paths. The last one mutates
  slices that share memory, so it runs on an explicit store of arrays.
\<close>

section \<open>Canonical names\<close>

definition IWithDot :: rune where "IWithDot = 0x130"

definition file_lower :: "unicode_tables \<Rightarrow> rune \<Rightarrow> rune" where
  "file_lower U r = (if r = IWithDot then r else rune_lower U r)"

definition is_upper_byte :: "char \<Rightarrow> bool" where
  "is_upper_byte c \<longleftrightarrow> 0x41 \<le> byte c \<and> byte c \<le> 0x5A"

definition ToFileNameLowerCase :: "unicode_tables \<Rightarrow> string \<Rightarrow> string" where
  "ToFileNameLowerCase U fileName =
     (if list_all (\<lambda>c. byte c < 0x80) fileName
      then (if \<not> list_ex is_upper_byte fileName then fileName
            else map (\<lambda>c. if is_upper_byte c then char_of (byte c + 32) else c) fileName)
      else str_map (file_lower U) fileName)"

definition GetCanonicalFileName :: "unicode_tables \<Rightarrow> string \<Rightarrow> bool \<Rightarrow> string" where
  "GetCanonicalFileName U fileName useCaseSensitiveFileNames =
     (if useCaseSensitiveFileNames then fileName else ToFileNameLowerCase U fileName)"

fun trimRuneCount :: "string \<Rightarrow> nat \<Rightarrow> string" where
  "trimRuneCount s 0 = s"
| "trimRuneCount s (Suc n) = (if s = [] then s else trimRuneCount (drop (snd (decode_rune s)) s) n)"

definition TrimFilePathPrefix :: "unicode_tables \<Rightarrow> string \<Rightarrow> string \<Rightarrow> bool \<Rightarrow> string \<times> bool" where
  "TrimFilePathPrefix U path pre useCaseSensitiveFileNames =
     (if useCaseSensitiveFileNames then CutPrefix path pre
      else (let canonicalPrefix = GetCanonicalFileName U pre False in
            if \<not> HasPrefix (GetCanonicalFileName U path False) canonicalPrefix then (path, False)
            else (trimRuneCount path (length (runes canonicalPrefix)), True)))"

definition ToPath :: "unicode_tables \<Rightarrow> string \<Rightarrow> string \<Rightarrow> bool \<Rightarrow> string" where
  "ToPath U fileName basePath useCaseSensitiveFileNames =
     (let nonCanonicalizedPath =
        (if IsRootedDiskPath fileName then NormalizePath fileName
         else GetNormalizedAbsolutePath fileName basePath)
      in GetCanonicalFileName U nonCanonicalizedPath useCaseSensitiveFileNames)"

definition StartsWithDirectory :: "unicode_tables \<Rightarrow> string \<Rightarrow> string \<Rightarrow> bool \<Rightarrow> bool" where
  "StartsWithDirectory U fileName directoryName useCaseSensitiveFileNames =
     (if directoryName = [] then False
      else (let canonicalFileName = GetCanonicalFileName U fileName useCaseSensitiveFileNames;
                canonicalDirectoryName0 = GetCanonicalFileName U directoryName useCaseSensitiveFileNames;
                canonicalDirectoryName =
                  TrimSuffix (TrimSuffix canonicalDirectoryName0 ''/'') [backslash]
            in HasPrefix canonicalFileName (canonicalDirectoryName @ ''/'')
               \<or> HasPrefix canonicalFileName (canonicalDirectoryName @ [backslash])))"

text \<open>The byte-wise branch computes what the rune-wise one would.\<close>

lemma runes_ascii: "list_all (\<lambda>c. byte c < 128) s \<Longrightarrow> runes s = map byte s"
  by (induction s) (simp_all add: runes_unfold)

lemma encode_ascii: "r < 128 \<Longrightarrow> encode_rune r = [char_of r]"
  by (simp add: encode_rune_def)

lemma file_lower_ascii:
  "byte c < 128 \<Longrightarrow>
   encode_rune (file_lower U (byte c)) = [if is_upper_byte c then char_of (byte c + 32) else c]"
  by (auto simp: file_lower_def IWithDot_def rune_lower_def encode_ascii is_upper_byte_def)

lemma lower_bytes:
  "list_all (\<lambda>c. byte c < 128) s \<Longrightarrow>
   concat (map ((\<lambda>r. encode_rune (file_lower U r)) \<circ> byte) s)
     = map (\<lambda>c. if is_upper_byte c then char_of (byte c + 32) else c) s"
  by (induction s) (simp_all add: file_lower_ascii)

lemma ToFileNameLowerCase_map: "ToFileNameLowerCase U s = str_map (file_lower U) s"
proof (cases "list_all (\<lambda>c. byte c < 128) s")
  case True
  have "\<not> list_ex is_upper_byte s \<Longrightarrow>
      map (\<lambda>c. if is_upper_byte c then char_of (byte c + 32) else c) s = s"
    by (induction s) auto
  with True show ?thesis
    by (simp add: ToFileNameLowerCase_def str_map_def runes_ascii lower_bytes)
qed (simp add: ToFileNameLowerCase_def)

section \<open>Cutting a prefix\<close>

definition encodable :: "rune \<Rightarrow> rune" where
  "encodable r = (if valid_rune r then r else RuneError)"

lemma encode_encodable: "encode_rune (encodable r) = encode_rune r"
  by (auto simp: encodable_def encode_rune_def valid_rune_def is_surrogate_def)

lemma valid_encodable: "valid_rune (encodable r)"
  by (simp add: encodable_def valid_rune_def is_surrogate_def)

definition encode_all :: "rune list \<Rightarrow> string" where
  "encode_all rs = concat (map encode_rune rs)"

lemma encode_all_Cons: "encode_all (r # rs) = encode_rune r @ encode_all rs"
  by (simp add: encode_all_def)

lemma encode_all_append: "encode_all (rs @ qs) = encode_all rs @ encode_all qs"
  by (simp add: encode_all_def)

lemma encode_all_Nil [simp]: "encode_all [] = []"
  by (simp add: encode_all_def)

lemma runes_encode_all: "list_all valid_rune rs \<Longrightarrow> runes (encode_all rs) = rs"
  by (induction rs) (simp_all add: encode_all_Cons runes_unfold decode_encode_rune)

lemma encode_all_prefix:
  "list_all valid_rune xs \<Longrightarrow> list_all valid_rune ys \<Longrightarrow> HasPrefix (encode_all xs) (encode_all ys) \<Longrightarrow>
   \<exists>zs. xs = ys @ zs"
proof (induction ys arbitrary: xs)
  case (Cons y ys)
  then obtain t where t: "encode_all xs = encode_rune y @ encode_all ys @ t"
    by (auto simp: HasPrefix_iff encode_all_Cons)
  then obtain x xs' where xs: "xs = x # xs'" by (cases xs) auto
  have "fst (decode_rune (encode_all xs)) = x" "fst (decode_rune (encode_all xs)) = y"
  proof -
    show "fst (decode_rune (encode_all xs)) = x"
      using Cons.prems(1) xs by (simp add: encode_all_Cons decode_encode_rune)
    show "fst (decode_rune (encode_all xs)) = y"
      using Cons.prems(2) by (simp add: t decode_encode_rune)
  qed
  then have "x = y" by simp
  with t xs have "HasPrefix (encode_all xs') (encode_all ys)"
    by (auto simp: encode_all_Cons HasPrefix_iff)
  with Cons xs \<open>x = y\<close> show ?case by auto
qed simp

lemma lower_encode_all:
  "ToFileNameLowerCase U s = encode_all (map (encodable \<circ> file_lower U) (runes s))"
  by (simp add: ToFileNameLowerCase_map str_map_def encode_all_def encode_encodable comp_def)

lemma runes_trim: "runes (trimRuneCount s n) = drop n (runes s)"
proof (induction s n rule: trimRuneCount.induct)
  case (2 s n)
  then show ?case by (cases "s = []") (simp_all add: runes_unfold)
qed simp

lemma trim_suffix: "HasSuffix s (trimRuneCount s n)"
proof (induction s n rule: trimRuneCount.induct)
  case (2 s n)
  have "HasSuffix s (drop k s)" for k by (metis HasSuffix_iff append_take_drop_id)
  then show ?case using 2 by (cases "s = []") (auto intro: HasSuffix_trans)
qed (simp add: HasSuffix_iff)

lemma trim_prefix_lower:
  assumes "HasPrefix (ToFileNameLowerCase U path) (ToFileNameLowerCase U pre)"
  shows "ToFileNameLowerCase U path = ToFileNameLowerCase U pre
     @ ToFileNameLowerCase U (trimRuneCount path (length (runes (ToFileNameLowerCase U pre))))"
proof -
  let ?f = "encodable \<circ> file_lower U"
  have v: "list_all valid_rune (map ?f rs)" for rs by (simp add: list_all_iff valid_encodable)
  have n: "length (runes (ToFileNameLowerCase U pre)) = length (runes pre)"
    unfolding lower_encode_all using runes_encode_all [OF v] by simp
  obtain zs where "map ?f (runes path) = map ?f (runes pre) @ zs"
    using encode_all_prefix [OF v v assms [unfolded lower_encode_all]] by auto
  then have "map ?f (runes path) = map ?f (runes pre) @ drop (length (runes pre)) (map ?f (runes path))"
    by simp
  then have "encode_all (map ?f (runes path)) =
      encode_all (map ?f (runes pre)) @ encode_all (map ?f (drop (length (runes pre)) (runes path)))"
    by (metis encode_all_append drop_map)
  then show ?thesis unfolding n by (simp only: lower_encode_all runes_trim)
qed

lemma TrimFilePathPrefix_splits:
  assumes "TrimFilePathPrefix U path pre cs = (rest, True)"
  shows "GetCanonicalFileName U path cs = GetCanonicalFileName U pre cs @ GetCanonicalFileName U rest cs
     \<and> HasSuffix path rest"
proof (cases cs)
  case True
  with assms show ?thesis
    by (auto simp: TrimFilePathPrefix_def CutPrefix_def GetCanonicalFileName_def HasPrefix_iff
        split: if_splits)
next
  case False
  with assms have "HasPrefix (ToFileNameLowerCase U path) (ToFileNameLowerCase U pre)"
    "rest = trimRuneCount path (length (runes (ToFileNameLowerCase U pre)))"
    by (auto simp: TrimFilePathPrefix_def Let_def GetCanonicalFileName_def split: if_splits)
  with False trim_prefix_lower trim_suffix show ?thesis
    by (auto simp: GetCanonicalFileName_def)
qed

section \<open>Common parents\<close>

text \<open>
  A Go slice is a window of a backing array: its capacity reaches to the end of the array, and
  \<open>append\<close> writes into the array when the new elements fit. The store lists the arrays.
\<close>

record slice =
  sl_array :: nat
  sl_offset :: nat
  sl_len :: nat

type_synonym store = "string list list"

definition slice_read :: "store \<Rightarrow> slice \<Rightarrow> string list" where
  "slice_read \<sigma> s = take (sl_len s) (drop (sl_offset s) (\<sigma> ! sl_array s))"

definition slice_take :: "slice \<Rightarrow> nat \<Rightarrow> slice" where
  "slice_take s n = s\<lparr>sl_len := n\<rparr>"

definition slice_drop :: "slice \<Rightarrow> nat \<Rightarrow> slice" where
  "slice_drop s n = s\<lparr>sl_offset := sl_offset s + n, sl_len := sl_len s - n\<rparr>"

definition slice_append :: "store \<Rightarrow> slice \<Rightarrow> string list \<Rightarrow> store \<times> slice" where
  "slice_append \<sigma> s ys =
     (let A = \<sigma> ! sl_array s; e = sl_offset s + sl_len s in
      if e + length ys \<le> length A
      then (\<sigma>[sl_array s := take e A @ ys @ drop (e + length ys) A], s\<lparr>sl_len := sl_len s + length ys\<rparr>)
      else (\<sigma> @ [slice_read \<sigma> s @ ys],
            \<lparr>sl_array = length \<sigma>, sl_offset = 0, sl_len = sl_len s + length ys\<rparr>))"

text \<open>The first index below \<open>maxDepth\<close> at which some group differs from the first.\<close>

definition divergence ::
  "(string \<Rightarrow> string \<Rightarrow> bool) \<Rightarrow> string list list \<Rightarrow> nat \<Rightarrow> nat option" where
  "divergence eq groups maxDepth =
     List.find (\<lambda>i. list_ex (\<lambda>comps. \<not> eq (hd groups ! i) (comps ! i)) (tl groups)) [0..<maxDepth]"

text \<open>The groups of a fan-out: per key the head of its last member and the tails of all.\<close>

definition add_to_group ::
  "(string \<times> slice \<times> slice list) list \<Rightarrow> string \<Rightarrow> slice \<Rightarrow> slice \<Rightarrow>
   (string \<times> slice \<times> slice list) list" where
  "add_to_group gs key head tail =
     (if list_ex (\<lambda>g. fst g = key) gs
      then map (\<lambda>g. if fst g = key then (key, head, snd (snd g) @ [tail]) else g) gs
      else gs @ [(key, head, [tail])])"

definition fan_groups :: "(string \<Rightarrow> string) \<Rightarrow> store \<Rightarrow> slice list \<Rightarrow> nat \<Rightarrow> (string \<times> slice \<times> slice list) list" where
  "fan_groups key_of \<sigma> groups i =
     foldl (\<lambda>gs g. add_to_group gs (key_of (slice_read \<sigma> g ! i)) (slice_take g (i + 1)) (slice_drop g (i + 1)))
       [] groups"

fun insert_by_key :: "string \<times> 'a \<Rightarrow> (string \<times> 'a) list \<Rightarrow> (string \<times> 'a) list" where
  "insert_by_key g [] = [g]"
| "insert_by_key g (h # hs) = (if str_less (fst g) (fst h) then g # h # hs else h # insert_by_key g hs)"

definition sort_by_key :: "(string \<times> 'a) list \<Rightarrow> (string \<times> 'a) list" where
  "sort_by_key gs = foldr insert_by_key gs []"

text \<open>\<open>append(group.head, sr...)\<close> for every result of the group.\<close>

fun append_results :: "store \<Rightarrow> slice \<Rightarrow> slice list \<Rightarrow> store \<times> slice list" where
  "append_results \<sigma> head [] = (\<sigma>, [])"
| "append_results \<sigma> head (sr # srs) =
     (let (\<sigma>1, r) = slice_append \<sigma> head (slice_read \<sigma> sr);
          (\<sigma>2, rs) = append_results \<sigma>1 head srs
      in (\<sigma>2, r # rs))"

function getCommonParentsWorker ::
    "(string \<Rightarrow> string \<Rightarrow> bool) \<Rightarrow> (string \<Rightarrow> string) \<Rightarrow> store \<Rightarrow> slice list \<Rightarrow> nat \<Rightarrow> store \<times> slice list"
  and fan_out ::
    "(string \<Rightarrow> string \<Rightarrow> bool) \<Rightarrow> (string \<Rightarrow> string) \<Rightarrow> store \<Rightarrow>
     (string \<times> slice \<times> slice list) list \<Rightarrow> nat \<Rightarrow> store \<times> slice list"
where
  "getCommonParentsWorker eq key_of \<sigma> groups minComponents =
     (if groups = [] then (\<sigma>, [])
      else (let maxDepth = foldl (\<lambda>m g. min m (sl_len g)) (sl_len (hd groups)) (tl groups) in
        case divergence eq (map (slice_read \<sigma>) groups) maxDepth of
          None \<Rightarrow> (\<sigma>, [slice_take (hd groups) maxDepth])
        | Some lastCommonIndex \<Rightarrow>
            (if lastCommonIndex < minComponents
             then fan_out eq key_of \<sigma> (sort_by_key (fan_groups key_of \<sigma> groups lastCommonIndex))
                    (minComponents - (lastCommonIndex + 1))
             else (\<sigma>, [slice_take (hd groups) lastCommonIndex]))))"
| "fan_out eq key_of \<sigma> [] m = (\<sigma>, [])"
| "fan_out eq key_of \<sigma> ((key, head, tails) # gs) m =
     (let (\<sigma>1, subResults) = getCommonParentsWorker eq key_of \<sigma> tails m;
          (\<sigma>2, rs) = append_results \<sigma>1 head subResults;
          (\<sigma>3, rest) = fan_out eq key_of \<sigma>2 gs m
      in (\<sigma>3, rs @ rest))"
  by pat_completeness auto
termination
  by (relation "inv_image (less_than <*lex*> less_than)
        (\<lambda>x. case x of Inl (eq, key_of, \<sigma>, groups, m) \<Rightarrow> (m, 0)
                     | Inr (eq, key_of, \<sigma>, gs, m) \<Rightarrow> (m, Suc (length gs)))") auto

text \<open>
  The arrays of the components as \<open>reducePathComponents\<close> left them; \<open>spare\<close> is the room
  \<open>append\<close> may have left behind the elements.
\<close>

definition new_slices :: "nat \<Rightarrow> string list list \<Rightarrow> store \<times> slice list" where
  "new_slices spare comps =
     (map (\<lambda>cs. cs @ replicate spare []) comps,
      map (\<lambda>i. \<lparr>sl_array = i, sl_offset = 0, sl_len = length (comps ! i)\<rparr>) [0..<length comps])"

definition GetCommonParents ::
  "unicode_tables \<Rightarrow> nat \<Rightarrow> string list \<Rightarrow> nat \<Rightarrow> (string \<Rightarrow> string \<Rightarrow> string list) \<Rightarrow>
   ComparePathsOptions \<Rightarrow> (string list \<times> string list) panics" where
  "GetCommonParents U spare paths minComponents getPathComponents opts =
     (let comps_of = (\<lambda>p. reducePathComponents (getPathComponents p (CurrentDirectory opts))) in
      if minComponents < 1 then None
      else if paths = [] then Some ([], [])
      else if length paths = 1 then
        (if length (comps_of (hd paths)) < minComponents then Some ([], paths) else Some (paths, []))
      else (let short = (\<lambda>p. length (comps_of p) < minComponents);
                (\<sigma>, groups) = new_slices spare (map comps_of (filter (\<lambda>p. \<not> short p) paths));
                (\<sigma>', results) =
                  getCommonParentsWorker (getEqualityComparer U opts)
                    (\<lambda>c. ToPath U c (CurrentDirectory opts) (UseCaseSensitiveFileNames opts))
                    \<sigma> groups minComponents
            in Some (map (\<lambda>r. GetPathFromPathComponents (slice_read \<sigma>' r)) results, filter short paths)))"

section \<open>Properties\<close>

text \<open>\<open>TrimFilePathPrefix\<close> cuts at the right place even where lower-casing changes the number of
  bytes: when it reports success, the canonical name of the path is the canonical name of the
  prefix followed by the canonical name of the rest, and the rest is a suffix of the path as
  written.\<close>
theorem TrimFilePathPrefix_splits_canonical_name:
  assumes "TrimFilePathPrefix U path pre caseSensitive = (rest, True)"
  shows "GetCanonicalFileName U path caseSensitive
       = GetCanonicalFileName U pre caseSensitive @ GetCanonicalFileName U rest caseSensitive
     \<and> HasSuffix path rest"
  using assms by (rule TrimFilePathPrefix_splits)

theorem TrimFilePathPrefix_splits_canonical_name_witness:
  "GetCanonicalFileName plain_tables ''/A/x'' False
     = GetCanonicalFileName plain_tables ''/a/'' False @ GetCanonicalFileName plain_tables ''x'' False
   \<and> HasSuffix ''/A/x'' ''x''"
  by (rule TrimFilePathPrefix_splits_canonical_name) code_simp


end
