(* ===== verification/Config.thy ===== *)
theory Config
  imports GoStrings
begin

text \<open>
  \<open>tsc/internal/tscp/hooks/config.go\<close>: reading plugin entries out of a parsed tsconfig. A Go
  value of type \<open>any\<close> that holds parsed JSON is a \<open>json\<close> value; \<open>float64\<close> is the type parameter
  \<open>'n\<close>, since nothing here computes with numbers. An object is the list of its entries in
  written order (\<open>OrderedMap\<close>); a plain Go map (\<open>JMap\<close>) is the list of its entries in the order in
  which an iteration happens to give them. Keys are unique in both.
\<close>

datatype 'n json =
    JNull
  | JBool bool
  | JNum 'n
  | JStr string
  | JArr "'n json list"
  | JObj "(string \<times> 'n json) list"
  | JMap "(string \<times> 'n json) list"

definition ConfigGet :: "'n json \<Rightarrow> string \<Rightarrow> 'n json option" where
  "ConfigGet v key =
     (case v of
        JObj entries \<Rightarrow> map_of entries key
      | JMap entries \<Rightarrow> map_of entries key
      | _ \<Rightarrow> None)"

text \<open>\<open>ConfigEach\<close> runs a callback on the caller's state for every entry.\<close>

definition ConfigEach :: "'n json \<Rightarrow> ('s \<Rightarrow> string \<Rightarrow> 'n json \<Rightarrow> 's) \<Rightarrow> 's \<Rightarrow> 's" where
  "ConfigEach v callback s =
     (case v of
        JObj entries \<Rightarrow> foldl (\<lambda>s (key, entryValue). callback s key entryValue) s entries
      | JMap entries \<Rightarrow> foldl (\<lambda>s (key, entryValue). callback s key entryValue) s entries
      | _ \<Rightarrow> s)"

definition FindPluginEntry :: "'n json \<Rightarrow> string \<Rightarrow> 'n json option" where
  "FindPluginEntry raw name =
     (case ConfigGet raw ''compilerOptions'' of
        None \<Rightarrow> None
      | Some compilerOptions \<Rightarrow>
          (case ConfigGet compilerOptions ''plugins'' of
             None \<Rightarrow> None
           | Some pluginsValue \<Rightarrow>
               (case pluginsValue of
                  JArr plugins \<Rightarrow>
                    List.find (\<lambda>entry. case ConfigGet entry ''name'' of
                                         Some (JStr entryName) \<Rightarrow> entryName = name
                                       | _ \<Rightarrow> False) plugins
                | _ \<Rightarrow> None)))"

text \<open>The type switches the plugins use on a value.\<close>

definition as_bool :: "'n json \<Rightarrow> bool option" where
  "as_bool v = (case v of JBool b \<Rightarrow> Some b | _ \<Rightarrow> None)"

definition as_string :: "'n json \<Rightarrow> string option" where
  "as_string v = (case v of JStr s \<Rightarrow> Some s | _ \<Rightarrow> None)"

text \<open>\<open>if value, ok := ConfigGet(v, key); ok { if b, ok := value.(bool); ok { x = b } }\<close>\<close>

definition bool_setting :: "'n json \<Rightarrow> string \<Rightarrow> bool \<Rightarrow> bool" where
  "bool_setting v key dflt =
     (case ConfigGet v key of
        Some value \<Rightarrow> (case as_bool value of Some b \<Rightarrow> b | None \<Rightarrow> dflt)
      | None \<Rightarrow> dflt)"

lemma FindPluginEntry_found:
  assumes "FindPluginEntry raw name = Some entry"
  shows "\<exists>co plugins. ConfigGet raw ''compilerOptions'' = Some co
     \<and> ConfigGet co ''plugins'' = Some (JArr plugins) \<and> entry \<in> set plugins
     \<and> ConfigGet entry ''name'' = Some (JStr name)"
proof -
  let ?P = "\<lambda>entry. case ConfigGet entry ''name'' of Some (JStr entryName) \<Rightarrow> entryName = name | _ \<Rightarrow> False"
  obtain co where co: "ConfigGet raw ''compilerOptions'' = Some co"
    using assms by (cases "ConfigGet raw ''compilerOptions''") (auto simp: FindPluginEntry_def)
  obtain pv where pv: "ConfigGet co ''plugins'' = Some pv"
    using assms co by (cases "ConfigGet co ''plugins''") (auto simp: FindPluginEntry_def)
  obtain plugins where p: "pv = JArr plugins" "List.find ?P plugins = Some entry"
    using assms co pv by (cases pv) (simp_all add: FindPluginEntry_def)
  from find_SomeD [OF p(2)] have "?P entry" "entry \<in> set plugins" by auto
  moreover from this have "ConfigGet entry ''name'' = Some (JStr name)"
    by (cases "ConfigGet entry ''name''"; cases "the (ConfigGet entry ''name'')") simp_all
  ultimately show ?thesis using co pv p by blast
qed

end
