(* ===== verification/Pattern.thy ===== *)
theory Pattern
  imports GoStrings
begin

text \<open>
  \<open>tsc/internal/core/pattern.go\<close>: patterns with at most one star, the text a star stands for
  and the choice of the best pattern. \<open>StarIndex\<close> is \<open>None\<close> where the code has \<open>-1\<close> (an exact
  pattern); the invalid pattern is the zero value, with star index 0 in the empty text, on which
  slicing \<open>Text[StarIndex+1:]\<close> panics.
\<close>

record Pattern =
  Text :: string
  StarIndex :: "nat option"

definition TryParsePattern :: "string \<Rightarrow> Pattern" where
  "TryParsePattern pattern =
     (case str_index pattern ''*'' of
        None \<Rightarrow> \<lparr>Text = pattern, StarIndex = None\<rparr>
      | Some starIndex \<Rightarrow>
          (if \<not> str_contains (drop (starIndex + 1) pattern) ''*''
           then \<lparr>Text = pattern, StarIndex = Some starIndex\<rparr>
           else \<lparr>Text = [], StarIndex = Some 0\<rparr>))"

definition IsValid :: "Pattern \<Rightarrow> bool" where
  "IsValid p \<longleftrightarrow> (case StarIndex p of None \<Rightarrow> True | Some i \<Rightarrow> i < length (Text p))"

text \<open>\<open>Matches\<close>, with the slices out of range as panics, in the order of the conjunction.\<close>

definition Matches :: "Pattern \<Rightarrow> string \<Rightarrow> bool panics" where
  "Matches p candidate =
     (case StarIndex p of
        None \<Rightarrow> Some (Text p = candidate)
      | Some i \<Rightarrow>
          (if \<not> length (Text p) \<le> length candidate + 1 then Some False
           else if length (Text p) < i then None
           else if \<not> HasPrefix candidate (take i (Text p)) then Some False
           else if length (Text p) < i + 1 then None
           else Some (HasSuffix candidate (drop (i + 1) (Text p)))))"

definition MatchedText :: "Pattern \<Rightarrow> string \<Rightarrow> string panics" where
  "MatchedText p candidate =
     (case Matches p candidate of
        Some True \<Rightarrow>
          (case StarIndex p of
             None \<Rightarrow> Some []
           | Some i \<Rightarrow> Some (drop i (take (length candidate + i + 1 - length (Text p)) candidate)))
      | _ \<Rightarrow> None)"

text \<open>The loop of \<open>FindBestPatternMatch\<close>; \<open>longest\<close> is \<open>None\<close> for \<open>-1\<close>.\<close>

fun best_loop ::
  "('v \<Rightarrow> Pattern) \<Rightarrow> string \<Rightarrow> 'v list \<Rightarrow> 'v \<Rightarrow> nat option \<Rightarrow> 'v panics" where
  "best_loop getPattern candidate [] best longest = Some best"
| "best_loop getPattern candidate (v # vs) best longest =
     (let pattern = getPattern v in
      if (case StarIndex pattern of None \<Rightarrow> True
          | Some i \<Rightarrow> (case longest of None \<Rightarrow> True | Some l \<Rightarrow> i > l))
      then (case Matches pattern candidate of
              None \<Rightarrow> None
            | Some True \<Rightarrow> best_loop getPattern candidate vs v (StarIndex pattern)
            | Some False \<Rightarrow> best_loop getPattern candidate vs best longest)
      else best_loop getPattern candidate vs best longest)"

definition FindBestPatternMatch :: "'v \<Rightarrow> 'v list \<Rightarrow> ('v \<Rightarrow> Pattern) \<Rightarrow> string \<Rightarrow> 'v panics" where
  "FindBestPatternMatch zero vs getPattern candidate = best_loop getPattern candidate vs zero None"

section \<open>Valid patterns\<close>

text \<open>A pattern is valid exactly when it was written with at most one star.\<close>

lemma count_star: "str_index p ''*'' = Some i \<Longrightarrow>
    p = take i p @ CHR ''*'' # drop (i + 1) p \<and> CHR ''*'' \<notin> set (take i p) \<and> i < length p"
  using index_byte_SomeD [of p "CHR ''*''" i] id_take_nth_drop [of i p]
  by (simp add: str_index_byte)

lemma TryParsePattern_valid: "IsValid (TryParsePattern p) \<longleftrightarrow> count_byte (CHR ''*'') p \<le> 1"
proof (cases "str_index p ''*''")
  case None
  then have "CHR ''*'' \<notin> set p" by (simp add: str_index_byte index_byte_None_iff)
  then have "count_byte (CHR ''*'') p = 0" by (auto simp: count_byte_def filter_empty_conv)
  with None show ?thesis by (simp add: TryParsePattern_def IsValid_def)
next
  case (Some i)
  note p = count_star [OF Some]
  have "count_byte (CHR ''*'') (take i p) = 0"
    using p by (auto simp: count_byte_def filter_empty_conv)
  moreover have "count_byte (CHR ''*'') p
      = count_byte (CHR ''*'') (take i p) + 1 + count_byte (CHR ''*'') (drop (i + 1) p)"
  proof -
    from p have "count_byte (CHR ''*'') p
        = count_byte (CHR ''*'') (take i p @ CHR ''*'' # drop (i + 1) p)" by argo
    then show ?thesis by (simp add: count_byte_def)
  qed
  moreover have "str_contains (drop (i + 1) p) ''*'' \<longleftrightarrow> count_byte (CHR ''*'') (drop (i + 1) p) \<noteq> 0"
    using index_byte_None_iff [of "drop (i + 1) p" "CHR ''*''"]
    by (auto simp: str_contains_def str_index_byte count_byte_def filter_empty_conv)
  ultimately show ?thesis using Some p by (auto simp: TryParsePattern_def IsValid_def)
qed

text \<open>What a valid pattern matches: some text put in the place of its star.\<close>

definition substitute :: "Pattern \<Rightarrow> string \<Rightarrow> string" where
  "substitute p s =
     (case StarIndex p of None \<Rightarrow> Text p | Some i \<Rightarrow> take i (Text p) @ s @ drop (i + 1) (Text p))"

lemma Matches_valid: "IsValid p \<Longrightarrow> Matches p c \<noteq> None"
  by (auto simp: Matches_def IsValid_def split: option.split)

lemma Matches_substitute:
  assumes "IsValid p"
  shows "Matches p c = Some (\<exists>s. c = substitute p s)"
proof (cases "StarIndex p")
  case None
  then show ?thesis by (auto simp: Matches_def substitute_def)
next
  case (Some i)
  with assms have i: "i < length (Text p)" by (simp add: IsValid_def)
  have "(length (Text p) \<le> length c + 1 \<and> HasPrefix c (take i (Text p))
          \<and> HasSuffix c (drop (i + 1) (Text p)))
      \<longleftrightarrow> (\<exists>s. c = take i (Text p) @ s @ drop (i + 1) (Text p))" (is "?l \<longleftrightarrow> ?r")
  proof
    assume l: ?l
    then obtain t where t: "c = take i (Text p) @ t" by (auto simp: HasPrefix_iff)
    let ?u = "drop (i + 1) (Text p)"
    have "length ?u \<le> length t" using l t i by auto
    moreover have "drop (length c - length ?u) c = ?u" using l by (simp add: HasSuffix_def)
    ultimately have "drop (length t - length ?u) t = ?u" using t i by auto
    then have "t = take (length t - length ?u) t @ ?u" by (metis append_take_drop_id)
    with t show ?r by metis
  next
    assume ?r
    with i show ?l by (auto simp: HasPrefix_iff HasSuffix_iff)
  qed
  with Some i show ?thesis by (auto simp: Matches_def substitute_def)
qed

lemma MatchedText_substitute:
  assumes "IsValid p" "StarIndex p = Some i"
  shows "MatchedText p (substitute p s) = Some s"
proof -
  have "Matches p (substitute p s) = Some True" using Matches_substitute [OF assms(1)] by auto
  moreover have "i < length (Text p)" using assms by (simp add: IsValid_def)
  ultimately show ?thesis using assms(2)
    by (simp add: MatchedText_def substitute_def)
qed

text \<open>The panic on the invalid pattern.\<close>

lemma invalid_panics: "Matches \<lparr>Text = [], StarIndex = Some 0\<rparr> c = None"
  by (simp add: Matches_def)

section \<open>The best pattern\<close>

definition starred :: "('v \<Rightarrow> Pattern) \<Rightarrow> string \<Rightarrow> 'v \<Rightarrow> nat \<Rightarrow> bool" where
  "starred getPattern c v i \<longleftrightarrow> StarIndex (getPattern v) = Some i \<and> Matches (getPattern v) c = Some True"

lemma best_loop_stars:
  "\<forall>v\<in>set vs. IsValid (getPattern v) \<and> StarIndex (getPattern v) \<noteq> None \<Longrightarrow>
   (longest = None \<or> (\<exists>l. longest = Some l \<and> starred getPattern c best l)) \<Longrightarrow>
   \<exists>w. best_loop getPattern c vs best longest = Some w
     \<and> (w = best \<and> (\<forall>v\<in>set vs. \<forall>i. starred getPattern c v i \<longrightarrow> longest \<noteq> None \<and> i \<le> the longest)
        \<or> (\<exists>i. w \<in> set vs \<and> starred getPattern c w i \<and> (longest \<noteq> None \<longrightarrow> the longest < i)
             \<and> (\<forall>v\<in>set vs. \<forall>j. starred getPattern c v j \<longrightarrow> j \<le> i)))"
proof (induction getPattern c vs best longest rule: best_loop.induct)
  case (1 getPattern c best longest)
  then show ?case by simp
next
  case (2 getPattern c v vs best longest)
  obtain i where i: "StarIndex (getPattern v) = Some i" using "2.prems"(1) by auto
  have vs: "\<forall>v\<in>set vs. IsValid (getPattern v) \<and> StarIndex (getPattern v) \<noteq> None"
    using "2.prems"(1) by simp
  obtain m where m: "Matches (getPattern v) c = Some m"
    using Matches_valid "2.prems"(1) by fastforce
  let ?cond = "case longest of None \<Rightarrow> True | Some l \<Rightarrow> l < i"
  show ?case
  proof (cases "?cond \<and> m")
    case True
    have "\<exists>w. best_loop getPattern c vs v (Some i) = Some w
        \<and> (w = v \<and> (\<forall>u\<in>set vs. \<forall>j. starred getPattern c u j \<longrightarrow> j \<le> i)
           \<or> (\<exists>k. w \<in> set vs \<and> starred getPattern c w k \<and> i < k
                \<and> (\<forall>u\<in>set vs. \<forall>j. starred getPattern c u j \<longrightarrow> j \<le> k)))"
      using "2.IH"(1) [OF refl _ m _ vs] True i m by (simp add: starred_def)
    then obtain w where w: "best_loop getPattern c vs v (Some i) = Some w"
      "w = v \<and> (\<forall>u\<in>set vs. \<forall>j. starred getPattern c u j \<longrightarrow> j \<le> i)
         \<or> (\<exists>k. w \<in> set vs \<and> starred getPattern c w k \<and> i < k
              \<and> (\<forall>u\<in>set vs. \<forall>j. starred getPattern c u j \<longrightarrow> j \<le> k))"
      by blast
    have step: "best_loop getPattern c (v # vs) best longest = Some w"
      using True i m w(1) by simp
    have sv: "starred getPattern c v j \<longleftrightarrow> j = i" for j using i m True by (auto simp: starred_def)
    have lt: "longest \<noteq> None \<longrightarrow> the longest < i" using True by (auto split: option.splits)
    from w(2) show ?thesis
    proof
      assume "w = v \<and> (\<forall>u\<in>set vs. \<forall>j. starred getPattern c u j \<longrightarrow> j \<le> i)"
      with step sv lt show ?thesis by auto
    next
      assume "\<exists>k. w \<in> set vs \<and> starred getPattern c w k \<and> i < k
              \<and> (\<forall>u\<in>set vs. \<forall>j. starred getPattern c u j \<longrightarrow> j \<le> k)"
      then obtain k where k: "w \<in> set vs" "starred getPattern c w k" "i < k"
        "\<forall>u\<in>set vs. \<forall>j. starred getPattern c u j \<longrightarrow> j \<le> k" by blast
      with lt have "longest \<noteq> None \<longrightarrow> the longest < k" by auto
      with k sv step show ?thesis by auto
    qed
  next
    case False
    then have step: "best_loop getPattern c (v # vs) best longest = best_loop getPattern c vs best longest"
      using i m by (cases ?cond; cases m) (simp_all add: Let_def)
    have "\<exists>w. best_loop getPattern c vs best longest = Some w
     \<and> (w = best \<and> (\<forall>v\<in>set vs. \<forall>i. starred getPattern c v i \<longrightarrow> longest \<noteq> None \<and> i \<le> the longest)
        \<or> (\<exists>i. w \<in> set vs \<and> starred getPattern c w i \<and> (longest \<noteq> None \<longrightarrow> the longest < i)
             \<and> (\<forall>v\<in>set vs. \<forall>j. starred getPattern c v j \<longrightarrow> j \<le> i)))"
    proof (cases ?cond)
      case True
      with False m i "2.IH"(2) [OF refl _ m _ vs "2.prems"(2)] show ?thesis by simp
    next
      case no: False
      with i "2.IH"(3) [OF refl _ vs "2.prems"(2)] show ?thesis by simp
    qed
    then obtain w where w: "best_loop getPattern c vs best longest = Some w"
      "w = best \<and> (\<forall>v\<in>set vs. \<forall>i. starred getPattern c v i \<longrightarrow> longest \<noteq> None \<and> i \<le> the longest)
        \<or> (\<exists>i. w \<in> set vs \<and> starred getPattern c w i \<and> (longest \<noteq> None \<longrightarrow> the longest < i)
             \<and> (\<forall>v\<in>set vs. \<forall>j. starred getPattern c v j \<longrightarrow> j \<le> i))" by blast
    have v: "longest \<noteq> None \<and> j \<le> the longest" if "starred getPattern c v j" for j
      using that False i m by (auto simp: starred_def split: option.splits)
    from w(2) show ?thesis
    proof
      assume "w = best \<and> (\<forall>v\<in>set vs. \<forall>i. starred getPattern c v i \<longrightarrow> longest \<noteq> None \<and> i \<le> the longest)"
      with v w(1) show ?thesis unfolding step by auto
    next
      assume "\<exists>i. w \<in> set vs \<and> starred getPattern c w i \<and> (longest \<noteq> None \<longrightarrow> the longest < i)
             \<and> (\<forall>v\<in>set vs. \<forall>j. starred getPattern c v j \<longrightarrow> j \<le> i)"
      then obtain k where k: "w \<in> set vs" "starred getPattern c w k" "longest \<noteq> None \<longrightarrow> the longest < k"
        "\<forall>v\<in>set vs. \<forall>j. starred getPattern c v j \<longrightarrow> j \<le> k" by blast
      have "\<forall>u\<in>set (v # vs). \<forall>j. starred getPattern c u j \<longrightarrow> j \<le> k"
        using k(3,4) v by fastforce
      with k w(1) show ?thesis unfolding step by auto
    qed
  qed
qed

section \<open>Properties\<close>

text \<open>A pattern is valid exactly when it was written with at most one star, and a valid pattern
  matches exactly the candidates that arise by putting some text in the place of the star (or the
  text itself, without a star), never slicing out of range.\<close>
theorem Matches_iff_substitution:
  "(IsValid (TryParsePattern t) \<longleftrightarrow> count_byte (CHR ''*'') t \<le> 1)
   \<and> (IsValid p \<longrightarrow> Matches p c = Some (\<exists>s. c = substitute p s))"
  by (simp add: TryParsePattern_valid Matches_substitute)

theorem Matches_iff_substitution_witness:
  "Matches \<lparr>Text = ''a*b'', StarIndex = Some 1\<rparr> ''axb''
     = Some (\<exists>s. ''axb'' = substitute \<lparr>Text = ''a*b'', StarIndex = Some 1\<rparr> s)"
  using Matches_iff_substitution by (auto simp: IsValid_def)

text \<open>Among valid star patterns \<open>FindBestPatternMatch\<close> returns a matching value with the longest
  text before the star, and the zero value only when none matches.\<close>
theorem FindBestPatternMatch_longest:
  assumes "\<forall>v\<in>set vs. IsValid (getPattern v) \<and> StarIndex (getPattern v) \<noteq> None"
  shows "\<exists>w. FindBestPatternMatch zero vs getPattern c = Some w
    \<and> (w = zero \<and> (\<forall>v\<in>set vs. \<forall>i. \<not> starred getPattern c v i)
       \<or> (\<exists>i. w \<in> set vs \<and> starred getPattern c w i
            \<and> (\<forall>v\<in>set vs. \<forall>j. starred getPattern c v j \<longrightarrow> j \<le> i)))"
  using best_loop_stars [OF assms, where longest = None and best = zero and c = c] by (simp add: FindBestPatternMatch_def)

theorem FindBestPatternMatch_longest_witness:
  "\<exists>w. FindBestPatternMatch [] [''a*'', ''ab*''] TryParsePattern ''abc'' = Some w
    \<and> (w = [] \<and> (\<forall>v\<in>set [''a*'', ''ab*'']. \<forall>i. \<not> starred TryParsePattern ''abc'' v i)
       \<or> (\<exists>i. w \<in> set [''a*'', ''ab*''] \<and> starred TryParsePattern ''abc'' w i
            \<and> (\<forall>v\<in>set [''a*'', ''ab*'']. \<forall>j. starred TryParsePattern ''abc'' v j \<longrightarrow> j \<le> i)))"
  by (rule FindBestPatternMatch_longest) code_simp

text \<open>An exact pattern that matches is not final in \<open>FindBestPatternMatch\<close>: it resets the best
  prefix length to \<open>-1\<close>, so any star pattern that follows it and matches takes its place, and the
  result depends on the order of the patterns.\<close>
theorem FindBestPatternMatch_exact_overridden:
  "FindBestPatternMatch [] [''abc'', ''*''] TryParsePattern ''abc'' = Some ''*''
   \<and> FindBestPatternMatch [] [''*'', ''abc''] TryParsePattern ''abc'' = Some ''abc''"
  by (intro conjI) code_simp+

end
