(* ===== verification/PathExt.thy ===== *)
theory PathExt
  imports PathAbs
begin

text \<open>
  \<open>tsc/internal/tspath/extension.go\<close>, \<open>ignoredpaths.go\<close> and the extension functions of
  \<open>path.go\<close>: recognising, removing and changing the extension of a file name. A slice out of
  range is a panic in Go; where the code slices by a computed length the model returns
  \<open>None\<close> for the panic and a lemma shows when it cannot happen.
\<close>

section \<open>Tables\<close>

definition SupportedDeclarationExtensions :: "string list" where
  "SupportedDeclarationExtensions = [''.d.ts'', ''.d.cts'', ''.d.mts'']"

definition SupportedTSImplementationExtensions :: "string list" where
  "SupportedTSImplementationExtensions = [''.ts'', ''.tsx'', ''.mts'', ''.cts'']"

definition supportedTSExtensionsForExtractExtension :: "string list" where
  "supportedTSExtensionsForExtractExtension =
     [''.d.ts'', ''.d.cts'', ''.d.mts'', ''.ts'', ''.tsx'', ''.mts'', ''.cts'']"

definition SupportedTSExtensionsFlat :: "string list" where
  "SupportedTSExtensionsFlat = [''.ts'', ''.tsx'', ''.d.ts'', ''.cts'', ''.d.cts'', ''.mts'', ''.d.mts'']"

definition SupportedJSExtensionsFlat :: "string list" where
  "SupportedJSExtensionsFlat = [''.js'', ''.jsx'', ''.mjs'', ''.cjs'']"

definition extensionsToRemove :: "string list" where
  "extensionsToRemove = [''.d.ts'', ''.d.mts'', ''.d.cts'', ''.mjs'', ''.mts'', ''.cjs'', ''.cts'',
     ''.ts'', ''.js'', ''.tsx'', ''.jsx'', ''.json'']"

section \<open>Functions\<close>

definition FileExtensionIs :: "string \<Rightarrow> string \<Rightarrow> bool" where
  "FileExtensionIs path extension \<longleftrightarrow> length path > length extension \<and> HasSuffix path extension"

definition HasExtension :: "string \<Rightarrow> bool" where
  "HasExtension fileName \<longleftrightarrow> str_contains (GetBaseFileName fileName) ''.''"

definition SplitVolumePath :: "string \<Rightarrow> string \<times> string \<times> bool" where
  "SplitVolumePath path =
     (if 2 \<le> length path \<and> IsVolumeCharacter (path ! 0) \<and> path ! 1 = CHR '':''
      then (map (\<lambda>c. if 0x41 \<le> byte c \<and> byte c \<le> 0x5A then char_of (byte c + 32) else c) (take 2 path),
            drop 2 path, True)
      else ([], path, False))"

definition ExtensionIsTs :: "string \<Rightarrow> bool" where
  "ExtensionIsTs ext \<longleftrightarrow>
     ext = ''.ts'' \<or> ext = ''.tsx'' \<or> ext = ''.d.ts'' \<or> ext = ''.mts'' \<or> ext = ''.d.mts''
     \<or> ext = ''.cts'' \<or> ext = ''.d.cts''
     \<or> 7 \<le> length ext \<and> take 3 ext = ''.d.'' \<and> drop (length ext - 3) ext = ''.ts''"

definition tryGetExtensionFromPath ::
  "string \<Rightarrow> string \<Rightarrow> (string \<Rightarrow> string \<Rightarrow> bool) \<Rightarrow> string" where
  "tryGetExtensionFromPath path extension0 stringEqualityComparer =
     (let extension = (if \<not> HasPrefix extension0 ''.'' then ''.'' @ extension0 else extension0) in
      if length path \<ge> length extension \<and> path ! (length path - length extension) = CHR ''.''
      then (let pathExtension = drop (length path - length extension) path in
            if stringEqualityComparer pathExtension extension then pathExtension else [])
      else [])"

fun getAnyExtensionFromPathWorker ::
  "string \<Rightarrow> string list \<Rightarrow> (string \<Rightarrow> string \<Rightarrow> bool) \<Rightarrow> string" where
  "getAnyExtensionFromPathWorker path [] cmp = []"
| "getAnyExtensionFromPathWorker path (extension # extensions) cmp =
     (let result = tryGetExtensionFromPath path extension cmp in
      if result \<noteq> [] then result else getAnyExtensionFromPathWorker path extensions cmp)"

definition GetAnyExtensionFromPath ::
  "unicode_tables \<Rightarrow> string \<Rightarrow> string list \<Rightarrow> bool \<Rightarrow> string" where
  "GetAnyExtensionFromPath U path extensions ignoreCase =
     (if extensions \<noteq> []
      then getAnyExtensionFromPathWorker (RemoveTrailingDirectorySeparator path) extensions
             (GetStringEqualityComparer U ignoreCase)
      else (let baseFileName = GetBaseFileName path in
            case str_last_index baseFileName ''.'' of
              Some extensionIndex \<Rightarrow> drop extensionIndex baseFileName
            | None \<Rightarrow> []))"

definition longest_step ::
  "string \<Rightarrow> (string \<Rightarrow> string \<Rightarrow> bool) \<Rightarrow> string \<Rightarrow> string \<Rightarrow> string" where
  "longest_step path cmp longest extension =
     (if length extension > length longest
      then (let matched = tryGetExtensionFromPath path extension cmp in
            if matched \<noteq> [] then matched else longest)
      else longest)"

definition GetLongestExtensionFromPath ::
  "unicode_tables \<Rightarrow> string \<Rightarrow> string list \<Rightarrow> bool \<Rightarrow> string" where
  "GetLongestExtensionFromPath U path extensions ignoreCase =
     foldl (longest_step (RemoveTrailingDirectorySeparator path) (GetStringEqualityComparer U ignoreCase))
       [] extensions"

fun RemoveFileExtension_loop :: "string \<Rightarrow> string list \<Rightarrow> string" where
  "RemoveFileExtension_loop path [] = path"
| "RemoveFileExtension_loop path (ext # exts) =
     (if HasSuffix path ext then take (length path - length ext) path
      else RemoveFileExtension_loop path exts)"

definition RemoveFileExtension :: "string \<Rightarrow> string" where
  "RemoveFileExtension path = RemoveFileExtension_loop path extensionsToRemove"

definition RemoveExtension :: "string \<Rightarrow> string \<Rightarrow> string panics" where
  "RemoveExtension path extension =
     (if length path < length extension then None
      else Some (take (length path - length extension) path))"

definition RemoveAnyFileExtension :: "unicode_tables \<Rightarrow> string \<Rightarrow> string panics" where
  "RemoveAnyFileExtension U path =
     (let withoutExtension = RemoveFileExtension path in
      if withoutExtension \<noteq> path then Some withoutExtension
      else (let extension = GetAnyExtensionFromPath U path [] False in
            if extension \<noteq> [] then RemoveExtension path extension else Some path))"

definition first_extension :: "string \<Rightarrow> string list \<Rightarrow> string" where
  "first_extension p exts =
     (case List.find (\<lambda>ext. FileExtensionIs p ext) exts of Some ext \<Rightarrow> ext | None \<Rightarrow> [])"

definition TryGetExtensionFromPath :: "string \<Rightarrow> string" where
  "TryGetExtensionFromPath p = first_extension p extensionsToRemove"

definition FileExtensionIsOneOf :: "string \<Rightarrow> string list \<Rightarrow> bool" where
  "FileExtensionIsOneOf path extensions \<longleftrightarrow> list_ex (FileExtensionIs path) extensions"

definition TryExtractTSExtension :: "string \<Rightarrow> string" where
  "TryExtractTSExtension fileName = first_extension fileName supportedTSExtensionsForExtractExtension"

definition GetDeclarationFileExtension :: "string \<Rightarrow> string" where
  "GetDeclarationFileExtension fileName =
     (let base = GetBaseFileName fileName in
      case List.find (\<lambda>ext. HasSuffix base ext) SupportedDeclarationExtensions of
        Some ext \<Rightarrow> ext
      | None \<Rightarrow>
          (if HasSuffix base ''.ts'' then
             (case str_index base ''.d.'' of Some i \<Rightarrow> drop i base | None \<Rightarrow> [])
           else []))"

definition IsDeclarationFileName :: "string \<Rightarrow> bool" where
  "IsDeclarationFileName fileName \<longleftrightarrow> GetDeclarationFileExtension fileName \<noteq> []"

definition HasTSFileExtension :: "string \<Rightarrow> bool" where
  "HasTSFileExtension path \<longleftrightarrow> FileExtensionIsOneOf path SupportedTSExtensionsFlat"

definition HasImplementationTSFileExtension :: "string \<Rightarrow> bool" where
  "HasImplementationTSFileExtension path \<longleftrightarrow>
     FileExtensionIsOneOf path SupportedTSImplementationExtensions \<and> \<not> IsDeclarationFileName path"

definition HasJSFileExtension :: "string \<Rightarrow> bool" where
  "HasJSFileExtension path \<longleftrightarrow> FileExtensionIsOneOf path SupportedJSExtensionsFlat"

definition HasJSONFileExtension :: "string \<Rightarrow> bool" where
  "HasJSONFileExtension path \<longleftrightarrow> FileExtensionIs path ''.json''"

definition ExtensionIsOneOf :: "string \<Rightarrow> string list \<Rightarrow> bool" where
  "ExtensionIsOneOf ext extensions \<longleftrightarrow> List.member extensions ext"

definition GetDeclarationEmitExtensionForPath :: "unicode_tables \<Rightarrow> string \<Rightarrow> string" where
  "GetDeclarationEmitExtensionForPath U path =
     (if FileExtensionIsOneOf path [''.mjs'', ''.mts''] then ''.d.mts''
      else if FileExtensionIsOneOf path [''.cjs'', ''.cts''] then ''.d.cts''
      else if FileExtensionIsOneOf path [''.ts'', ''.tsx'', ''.js'', ''.jsx''] then ''.d.ts''
      else (let ext = GetAnyExtensionFromPath U path [] False in
            if ext \<noteq> [] then ''.d'' @ ext @ ''.ts'' else ''.d.ts''))"

definition ChangeAnyExtension ::
  "unicode_tables \<Rightarrow> string \<Rightarrow> string \<Rightarrow> string list \<Rightarrow> bool \<Rightarrow> string panics" where
  "ChangeAnyExtension U path ext extensions ignoreCase =
     (let pathext = GetAnyExtensionFromPath U path extensions ignoreCase in
      if pathext \<noteq> [] then
        (case RemoveExtension path pathext of
           None \<Rightarrow> None
         | Some result \<Rightarrow>
             (if ext = [] then Some result
              else if HasPrefix ext ''.'' then Some (result @ ext)
              else Some (result @ ''.'' @ ext)))
      else Some path)"

definition ChangeExtension :: "unicode_tables \<Rightarrow> string \<Rightarrow> string \<Rightarrow> string panics" where
  "ChangeExtension U path newExtension = ChangeAnyExtension U path newExtension extensionsToRemove False"

definition ChangeFullExtension :: "unicode_tables \<Rightarrow> string \<Rightarrow> string \<Rightarrow> string panics" where
  "ChangeFullExtension U path newExtension =
     (let declarationExtension = GetDeclarationFileExtension path in
      if declarationExtension \<noteq> [] then
        (let ext = (if \<not> HasPrefix newExtension ''.'' then ''.'' @ newExtension else newExtension) in
         map_option (\<lambda>p. p @ ext) (RemoveExtension path declarationExtension))
      else ChangeExtension U path newExtension)"

definition GetPossibleOriginalInputExtensionForExtension :: "string \<Rightarrow> string list panics" where
  "GetPossibleOriginalInputExtensionForExtension path =
     (if FileExtensionIsOneOf path [''.d.mts'', ''.mjs'', ''.mts''] then Some [''.mts'', ''.mjs'']
      else if FileExtensionIsOneOf path [''.d.cts'', ''.cjs'', ''.cts''] then Some [''.cts'', ''.cjs'']
      else (let ext = GetDeclarationFileExtension path in
            if ext \<noteq> [] \<and> ext \<noteq> ''.d.ts'' then
              (if length ext < 3 \<or> length ext - 3 < 3 then None
               else Some [''.'' @ drop 3 (take (length ext - 3) ext)])
            else Some [''.tsx'', ''.ts'', ''.jsx'', ''.js'']))"

definition ignoredPaths :: "string list" where
  "ignoredPaths = [''/node_modules/.'', ''/.git'', ''.#'']"

definition ContainsIgnoredPath :: "string \<Rightarrow> bool" where
  "ContainsIgnoredPath path \<longleftrightarrow> list_ex (str_contains path) ignoredPaths"

section \<open>Extensions are suffixes\<close>

lemma tryGetExtensionFromPath_suffix:
  "HasSuffix path (tryGetExtensionFromPath path extension cmp)"
proof -
  have "HasSuffix path (drop k path)" for k by (metis HasSuffix_iff append_take_drop_id)
  then show ?thesis by (simp add: tryGetExtensionFromPath_def Let_def)
qed

lemma worker_suffix: "HasSuffix path (getAnyExtensionFromPathWorker path extensions cmp)"
  by (induction extensions) (auto simp: Let_def tryGetExtensionFromPath_suffix)

lemma HasSuffix_drop: "HasSuffix s (drop k s)"
  by (metis HasSuffix_iff append_take_drop_id)

lemma RemoveTrailing_le: "length (RemoveTrailingDirectorySeparator path) \<le> length path"
  by (simp add: RemoveTrailingDirectorySeparator_def)

lemma GetBaseFileName_le: "length (GetBaseFileName path) \<le> length path"
  using RemoveTrailing_le [of "NormalizeSlashes path"]
  by (auto simp: GetBaseFileName_def Let_def NormalizeSlashes_def intro: order_trans [OF diff_le_self])

lemma any_extension_le: "length (GetAnyExtensionFromPath U path extensions ignoreCase) \<le> length path"
proof (cases "extensions = []")
  case True
  then show ?thesis using GetBaseFileName_le [of path]
    by (auto simp: GetAnyExtensionFromPath_def Let_def split: option.split)
next
  case False
  then show ?thesis
    using worker_suffix [of "RemoveTrailingDirectorySeparator path" extensions
        "GetStringEqualityComparer U ignoreCase"] RemoveTrailing_le [of path]
    by (auto simp: GetAnyExtensionFromPath_def dest: HasSuffix_length)
qed

lemma GetDeclarationFileExtension_suffix:
  "HasSuffix (GetBaseFileName path) (GetDeclarationFileExtension path)"
  by (auto simp: GetDeclarationFileExtension_def Let_def HasSuffix_drop find_Some_iff
      split: option.splits)

lemma declaration_extension_le: "length (GetDeclarationFileExtension path) \<le> length path"
  using HasSuffix_length [OF GetDeclarationFileExtension_suffix [of path]] GetBaseFileName_le [of path]
  by simp

text \<open>None of the slice expressions of this file can be out of range.\<close>

lemma RemoveExtension_le: "length ext \<le> length path \<Longrightarrow> RemoveExtension path ext \<noteq> None"
  by (simp add: RemoveExtension_def)

lemma ChangeAnyExtension_returns: "ChangeAnyExtension U path ext extensions ignoreCase \<noteq> None"
  using any_extension_le [of U path extensions ignoreCase]
  by (simp add: ChangeAnyExtension_def Let_def RemoveExtension_def)

lemma ChangeFullExtension_returns: "ChangeFullExtension U path ext \<noteq> None"
  using declaration_extension_le [of path] ChangeAnyExtension_returns
  by (simp add: ChangeFullExtension_def Let_def RemoveExtension_def ChangeExtension_def)

lemma RemoveAnyFileExtension_returns: "RemoveAnyFileExtension U path \<noteq> None"
  using any_extension_le [of U path "[]" False]
  by (simp add: RemoveAnyFileExtension_def Let_def RemoveExtension_def)

lemma declaration_extension_shape:
  assumes "GetDeclarationFileExtension path = ext" "ext \<noteq> []" "ext \<noteq> ''.d.ts''"
  shows "6 \<le> length ext \<and> HasPrefix ext ''.d.'' \<and> HasSuffix ext ''ts''"
proof -
  let ?base = "GetBaseFileName path"
  consider (known) "List.find (\<lambda>ext. HasSuffix ?base ext) SupportedDeclarationExtensions = Some ext"
    | (other) i where "List.find (\<lambda>ext. HasSuffix ?base ext) SupportedDeclarationExtensions = None"
      "HasSuffix ?base ''.ts''" "str_index ?base ''.d.'' = Some i" "ext = drop i ?base"
    using assms(1,2) by (auto simp: GetDeclarationFileExtension_def Let_def split: option.splits if_splits)
  then show ?thesis
  proof cases
    case known
    then have "ext \<in> set SupportedDeclarationExtensions" by (auto simp: find_Some_iff)
    with assms(3) show ?thesis by (auto simp: SupportedDeclarationExtensions_def HasSuffix_def)
  next
    case other
    have i: "HasPrefix (drop i ?base) ''.d.''" "i + 3 \<le> length ?base"
      using str_index_SomeD [OF other(3)] by auto
    obtain t where t: "drop i ?base = ''.d.'' @ t" using i(1) by (auto simp: HasPrefix_iff)
    obtain p where p: "?base = p @ ''.ts''" using other(2) by (auto simp: HasSuffix_iff)
    have "\<not> HasSuffix ?base ''.d.ts''"
      using other(1) by (auto simp: find_None_iff SupportedDeclarationExtensions_def)
    then have nt: "t \<noteq> ''ts''"
      using t HasSuffix_drop [of ?base i] by auto
    have e: "?base = take i ?base @ ''.d.'' @ t" using t by (metis append_take_drop_id)
    have "3 \<le> length t"
    proof (rule ccontr)
      assume "\<not> 3 \<le> length t"
      then consider "t = []" | a where "t = [a]" | a b where "t = [a, b]"
        by (cases t; cases "tl t"; cases "tl (tl t)") auto
      then show False
      proof cases
        case 1
        then have "last ?base = CHR ''.''" by (subst e) simp
        then show ?thesis using p by simp
      next
        case 2
        have "rev ?base = CHR ''s'' # CHR ''t'' # CHR ''.'' # rev p" using p by simp
        moreover have "rev ?base = a # CHR ''.'' # CHR ''d'' # CHR ''.'' # rev (take i ?base)"
          by (subst e) (simp add: 2)
        ultimately show ?thesis by simp
      next
        case 3
        have "rev ?base = CHR ''s'' # CHR ''t'' # CHR ''.'' # rev p" using p by simp
        moreover have "rev ?base = b # a # CHR ''.'' # CHR ''d'' # CHR ''.'' # rev (take i ?base)"
          by (subst e) (simp add: 3)
        ultimately have "t = ''ts''" using 3 by simp
        with nt show ?thesis by simp
      qed
    qed
    moreover have "HasSuffix (drop i ?base) ''ts''"
    proof -
      have "HasSuffix t ''ts''"
      proof -
        obtain a b t' where t': "t = t' @ [a, b]"
          using calculation by (cases t rule: rev_cases; cases "butlast t" rule: rev_cases) auto
        have "(take i ?base @ ''.d.'' @ t') @ [a, b] = (p @ ''.'') @ ''ts''" using e p t' by simp
        then have "[a, b] = ''ts''" by (metis append_eq_append_conv length_Cons list.size(3))
        with t' show ?thesis by (metis HasSuffix_append)
      qed
      then show ?thesis using t by (auto simp: HasSuffix_iff)
    qed
    ultimately show ?thesis using other(4) t by simp
  qed
qed

lemma original_extension_returns: "GetPossibleOriginalInputExtensionForExtension path \<noteq> None"
  using declaration_extension_shape [of path "GetDeclarationFileExtension path"]
  by (auto simp: GetPossibleOriginalInputExtensionForExtension_def Let_def)

end
