(* ===== verification/PathRewrite.thy ===== *)
theory PathRewrite
  imports Config Pattern PathCompare PathExt
begin

text \<open>
  \<open>tsc/internal/tscp/pathrewrite\<close>: the module-specifier rewrite plugin. \<open>config.go\<close> (options,
  alias rules, the decision per specifier), \<open>rewriter.go\<close> (the tiers of module resolution and
  the rewritten path) and the plugin state of \<open>pathrewrite.go\<close>. The compiler's module
  resolution is behind Go interfaces the host may or may not implement; it is the record
  \<open>resolver\<close>, a parameter of the rewriter.
\<close>

section \<open>Options (config.go)\<close>

record aliasRule =
  rule_pattern :: Pattern
  rule_enabled :: bool
  rule_extension :: "bool option"

record Options =
  Extension :: bool
  Declarations :: bool
  aliasEnabled :: bool
  aliasRules :: "aliasRule list"
  notices :: "string list"

definition PluginName :: string where "PluginName = ''@conmoong/path''"
definition LegacyPluginName :: string where "LegacyPluginName = ''@conmoong/path-rewrite''"

definition defaultOptions :: Options where
  "defaultOptions = \<lparr>Extension = True, Declarations = True, aliasEnabled = True, aliasRules = [],
     notices = []\<rparr>"

definition ruleExtension :: "aliasRule \<Rightarrow> bool \<Rightarrow> bool" where
  "ruleExtension rule globalExtension =
     (case rule_extension rule of Some e \<Rightarrow> e | None \<Rightarrow> globalExtension)"

text \<open>The loop of \<open>decide\<close>; the best star index starts below every index, here as \<open>None\<close>.\<close>

fun decide_loop ::
  "bool \<Rightarrow> string \<Rightarrow> aliasRule list \<Rightarrow> bool \<Rightarrow> bool \<Rightarrow> nat option \<Rightarrow> (bool \<times> bool) panics" where
  "decide_loop global specifier [] enabled extension best = Some (enabled, extension)"
| "decide_loop global specifier (rule # rules) enabled extension best =
     (case Matches (rule_pattern rule) specifier of
        None \<Rightarrow> None
      | Some False \<Rightarrow> decide_loop global specifier rules enabled extension best
      | Some True \<Rightarrow>
          (case StarIndex (rule_pattern rule) of
             None \<Rightarrow> Some (rule_enabled rule, ruleExtension rule global)
           | Some i \<Rightarrow>
               (if (case best of None \<Rightarrow> True | Some b \<Rightarrow> i > b)
                then decide_loop global specifier rules (rule_enabled rule) (ruleExtension rule global) (Some i)
                else decide_loop global specifier rules enabled extension best)))"

definition decide :: "Options \<Rightarrow> string \<Rightarrow> (bool \<times> bool) panics" where
  "decide opts specifier =
     decide_loop (Extension opts) specifier (aliasRules opts) (aliasEnabled opts) (Extension opts) None"

definition parseAliasRule :: "string \<Rightarrow> 'n json \<Rightarrow> aliasRule option" where
  "parseAliasRule pattern v =
     (let parsed = TryParsePattern pattern in
      if \<not> IsValid parsed then None
      else Some
        (case v of
           JBool b \<Rightarrow> \<lparr>rule_pattern = parsed, rule_enabled = b, rule_extension = None\<rparr>
         | _ \<Rightarrow> \<lparr>rule_pattern = parsed, rule_enabled = bool_setting v ''enabled'' True,
                rule_extension = (case ConfigGet v ''extension'' of
                                    Some x \<Rightarrow> as_bool x | None \<Rightarrow> None)\<rparr>))"

definition deprecated_notice :: string where
  "deprecated_notice = ''the plugin name \"'' @ LegacyPluginName
     @ ''\" is deprecated; rename it to \"'' @ PluginName @ ''\" in compilerOptions.plugins''"

definition options_from_entry :: "'n json \<Rightarrow> string list \<Rightarrow> Options" where
  "options_from_entry entry ns =
     (let opts = defaultOptions\<lparr>notices := ns,
                   Extension := bool_setting entry ''extension'' True,
                   Declarations := bool_setting entry ''declarations'' True\<rparr>
      in case ConfigGet entry ''alias'' of
           None \<Rightarrow> opts
         | Some (JBool b) \<Rightarrow> opts\<lparr>aliasEnabled := b\<rparr>
         | Some v \<Rightarrow>
             opts\<lparr>aliasRules :=
               ConfigEach v (\<lambda>rules pattern ruleValue.
                 case parseAliasRule pattern ruleValue of Some rule \<Rightarrow> rules @ [rule] | None \<Rightarrow> rules) []\<rparr>)"

definition OptionsFromConfig :: "'n json \<Rightarrow> Options option" where
  "OptionsFromConfig raw =
     (case FindPluginEntry raw PluginName of
        Some entry \<Rightarrow> Some (options_from_entry entry [])
      | None \<Rightarrow>
          (case FindPluginEntry raw LegacyPluginName of
             Some entry \<Rightarrow> Some (options_from_entry entry [deprecated_notice])
           | None \<Rightarrow> None))"

section \<open>Resolution (rewriter.go)\<close>

record ResolvedModule =
  ResolvedFileName :: string
  ResolvedExtension :: string
  PackageIdName :: string
  IsExternalLibraryImport :: bool

text \<open>\<open>(*ResolvedModule).IsResolved\<close>, which tolerates the nil pointer.\<close>

definition IsResolved :: "ResolvedModule option \<Rightarrow> bool" where
  "IsResolved r \<longleftrightarrow> (case r of Some m \<Rightarrow> ResolvedFileName m \<noteq> [] | None \<Rightarrow> False)"

datatype ResolutionMode = ModeNone | ModeCommonJS | ModeESM

text \<open>The kinds of parents \<open>hasUsableParentChain\<close> tells apart; a node is the kinds above it.\<close>

datatype ParentKind = LiteralTypeNode | ExternalModuleReference | ParenthesizedExpression | OtherParent

type_synonym parents = "ParentKind list"

definition hasUsableParentChain :: "parents \<Rightarrow> bool" where
  "hasUsableParentChain node =
     (case node of
        [] \<Rightarrow> False
      | parent # grand \<Rightarrow> (if parent \<noteq> OtherParent then grand \<noteq> [] else True))"

text \<open>
  What the host offers: the per-usage lookup, and two optional interfaces (the text-keyed cache
  with the file's default mode, and a fresh resolution).
\<close>

record resolver =
  per_usage :: "parents \<Rightarrow> string \<Rightarrow> ResolvedModule option"
  text_mode :: "(ResolutionMode \<times> (string \<Rightarrow> ResolutionMode \<Rightarrow> ResolvedModule option)) option"
  live :: "(string \<Rightarrow> ResolutionMode \<Rightarrow> ResolvedModule option) option"

fun probe ::
  "ResolutionMode list \<Rightarrow> ResolutionMode list \<Rightarrow> (ResolutionMode \<Rightarrow> ResolvedModule option) \<Rightarrow> ResolvedModule option"
where
  "probe [] seen resolve = None"
| "probe (mode # modes) seen resolve =
     (if mode \<in> set seen then probe modes seen resolve
      else (let resolved = resolve mode in
            if IsResolved resolved then resolved else probe modes (mode # seen) resolve))"

definition resolveByProbingModes ::
  "ResolutionMode \<Rightarrow> (ResolutionMode \<Rightarrow> ResolvedModule option) \<Rightarrow> ResolvedModule option" where
  "resolveByProbingModes defaultMode resolve =
     probe [defaultMode, ModeNone, ModeESM, ModeCommonJS] [] resolve"

definition resolveSpecifier :: "resolver \<Rightarrow> parents \<Rightarrow> string \<Rightarrow> ResolvedModule option" where
  "resolveSpecifier R node specifierText =
     (let r1 = (if hasUsableParentChain node then per_usage R node specifierText else None) in
      if hasUsableParentChain node \<and> r1 \<noteq> None \<and> \<not> IsResolved r1 then r1
      else (let r2 = (if \<not> IsResolved r1
                      then (case text_mode R of
                              Some (defaultMode, lookup) \<Rightarrow>
                                resolveByProbingModes defaultMode (lookup specifierText)
                            | None \<Rightarrow> r1)
                      else r1)
            in (if \<not> IsResolved r2
                then (case live R of
                        Some resolve \<Rightarrow>
                          resolveByProbingModes
                            (case text_mode R of Some (m, _) \<Rightarrow> m | None \<Rightarrow> ModeNone)
                            (resolve specifierText)
                      | None \<Rightarrow> r2)
                else r2)))"

text \<open>\<open>ResolveSpecifier\<close>: a host without the per-usage interface resolves nothing.\<close>

definition ResolveSpecifier :: "resolver option \<Rightarrow> parents \<Rightarrow> string \<Rightarrow> ResolvedModule option" where
  "ResolveSpecifier host node specifierText =
     (case host of None \<Rightarrow> None | Some R \<Rightarrow> resolveSpecifier R node specifierText)"

definition outputExtension :: "string \<Rightarrow> string option" where
  "outputExtension resolvedExtension =
     (if resolvedExtension \<in> {''.ts'', ''.tsx'', ''.d.ts''} then Some ''.js''
      else if resolvedExtension \<in> {''.mts'', ''.d.mts''} then Some ''.mjs''
      else if resolvedExtension \<in> {''.cts'', ''.d.cts''} then Some ''.cjs''
      else if resolvedExtension \<in> {''.js'', ''.jsx''} then Some ''.js''
      else if resolvedExtension = ''.mjs'' then Some ''.mjs''
      else if resolvedExtension = ''.cjs'' then Some ''.cjs''
      else if resolvedExtension = ''.json'' then Some ''.json''
      else None)"

section \<open>The rewriter\<close>

record hostRewriter =
  host_resolver :: resolver
  options :: Options
  useCaseSensitiveFileNames :: bool
  currentDirectory :: string

text \<open>
  The context: the file name of the source file and the specifier node, either of which may be
  nil. \<open>None\<close> as the result is a panic.
\<close>

record RewriteContext =
  SourceFile :: "string option"
  SpecifierNode :: "parents option"

definition RewriteModuleSpecifier ::
  "unicode_tables \<Rightarrow> hostRewriter \<Rightarrow> RewriteContext \<Rightarrow> string \<Rightarrow> (string \<times> bool) panics" where
  "RewriteModuleSpecifier U r context specifier =
     (case (SourceFile context, SpecifierNode context) of
        (Some fileName, Some node) \<Rightarrow>
          (case decide (options r) specifier of
             None \<Rightarrow> None
           | Some (rewrite, withExtension) \<Rightarrow>
               (if \<not> rewrite then Some (specifier, False)
                else (case resolveSpecifier (host_resolver r) node specifier of
                        None \<Rightarrow> Some (specifier, False)
                      | Some resolved \<Rightarrow>
                          (if \<not> IsResolved (Some resolved) then Some (specifier, False)
                           else if IsExternalLibraryImport resolved
                                   \<or> str_contains (ResolvedFileName resolved) ''/node_modules/''
                           then Some (specifier, False)
                           else (case outputExtension (ResolvedExtension resolved) of
                                   None \<Rightarrow> Some (specifier, False)
                                 | Some outputExt0 \<Rightarrow>
                                     (let outputExt = (if \<not> withExtension \<and> outputExt0 \<noteq> ''.json'' then []
                                                       else outputExt0);
                                          target = TrimSuffix (ResolvedFileName resolved)
                                                     (ResolvedExtension resolved) @ outputExt
                                      in case GetRelativePathFromFile U fileName target
                                                \<lparr>UseCaseSensitiveFileNames = useCaseSensitiveFileNames r,
                                                 CurrentDirectory = currentDirectory r\<rparr> of
                                           None \<Rightarrow> None
                                         | Some relative0 \<Rightarrow>
                                             (let relative = EnsurePathIsNonModuleName relative0 in
                                              if relative = specifier then Some (specifier, False)
                                              else Some (relative, True))))))))
      | _ \<Rightarrow> Some (specifier, False))"

section \<open>The plugin (pathrewrite.go)\<close>

record plugin =
  declarations :: bool
  plugin_notices :: "string list"
  reported :: bool

definition NewHostPlugin :: "Options option \<Rightarrow> plugin" where
  "NewHostPlugin opts0 =
     (let opts = (case opts0 of None \<Rightarrow> defaultOptions | Some x \<Rightarrow> x)
      in \<lparr>declarations = Declarations opts, plugin_notices = notices opts, reported = False\<rparr>)"

definition TakeDiagnostics :: "plugin \<Rightarrow> string \<Rightarrow> plugin \<times> string list" where
  "TakeDiagnostics p path =
     (if reported p \<or> plugin_notices p = [] then (p, [])
      else (p\<lparr>reported := True\<rparr>, plugin_notices p))"

section \<open>The decision\<close>

definition valid_rules :: "Options \<Rightarrow> bool" where
  "valid_rules opts \<longleftrightarrow> (\<forall>rule\<in>set (aliasRules opts). IsValid (rule_pattern rule))"

text \<open>Every configured rule has a valid pattern: the others are dropped.\<close>

lemma parseAliasRule_valid: "parseAliasRule pattern v = Some rule \<Longrightarrow> IsValid (rule_pattern rule)"
  by (auto simp: parseAliasRule_def Let_def split: if_splits json.splits)

lemma parsed_rules_valid:
  "\<forall>rule\<in>set rules. IsValid (rule_pattern rule) \<Longrightarrow>
   \<forall>rule\<in>set (foldl (\<lambda>rules (pattern, ruleValue).
       case parseAliasRule pattern ruleValue of Some rule \<Rightarrow> rules @ [rule] | None \<Rightarrow> rules) rules entries).
     IsValid (rule_pattern rule)"
proof (induction entries arbitrary: rules)
  case (Cons e entries)
  have "\<forall>rule\<in>set (case e of (pattern, ruleValue) \<Rightarrow>
      case parseAliasRule pattern ruleValue of Some rule \<Rightarrow> rules @ [rule] | None \<Rightarrow> rules).
      IsValid (rule_pattern rule)"
    using Cons.prems parseAliasRule_valid by (auto split: prod.split option.split)
  from Cons.IH [OF this] show ?case by simp
qed simp

lemma options_from_entry_valid: "valid_rules (options_from_entry entry ns)"
proof (cases "ConfigGet entry ''alias''")
  case None
  then show ?thesis by (simp add: valid_rules_def options_from_entry_def defaultOptions_def)
next
  case (Some v)
  then show ?thesis using parsed_rules_valid [of "[]"]
    by (cases v) (simp_all add: valid_rules_def options_from_entry_def defaultOptions_def ConfigEach_def
        Let_def)
qed

lemma OptionsFromConfig_valid: "OptionsFromConfig raw = Some opts \<Longrightarrow> valid_rules opts"
  by (auto simp: OptionsFromConfig_def options_from_entry_valid split: option.splits)

text \<open>
  The specification: the first exact rule that matches decides; otherwise the first of the
  matching star rules with the longest text before the star; otherwise the global settings.
\<close>

definition exact_match :: "string \<Rightarrow> aliasRule \<Rightarrow> bool" where
  "exact_match c rule \<longleftrightarrow> StarIndex (rule_pattern rule) = None \<and> Text (rule_pattern rule) = c"

definition star_match :: "string \<Rightarrow> aliasRule \<Rightarrow> bool" where
  "star_match c rule \<longleftrightarrow>
     StarIndex (rule_pattern rule) \<noteq> None \<and> (\<exists>s. c = substitute (rule_pattern rule) s)"

definition star_index :: "aliasRule \<Rightarrow> nat" where
  "star_index rule = the (StarIndex (rule_pattern rule))"

definition longest_star :: "string \<Rightarrow> aliasRule list \<Rightarrow> aliasRule option" where
  "longest_star c rules =
     List.find (\<lambda>rule. star_match c rule
       \<and> (\<forall>rule'\<in>set rules. star_match c rule' \<longrightarrow> star_index rule' \<le> star_index rule)) rules"

definition decision :: "Options \<Rightarrow> string \<Rightarrow> bool \<times> bool" where
  "decision opts c =
     (case List.find (exact_match c) (aliasRules opts) of
        Some rule \<Rightarrow> (rule_enabled rule, ruleExtension rule (Extension opts))
      | None \<Rightarrow>
          (case longest_star c (aliasRules opts) of
             Some rule \<Rightarrow> (rule_enabled rule, ruleExtension rule (Extension opts))
           | None \<Rightarrow> (aliasEnabled opts, Extension opts)))"

lemma find_append: "List.find P (xs @ ys) = (case List.find P xs of None \<Rightarrow> List.find P ys | Some x \<Rightarrow> Some x)"
  by (induction xs) auto

lemma find_cong': "(\<And>x. x \<in> set xs \<Longrightarrow> P x = Q x) \<Longrightarrow> List.find P xs = List.find Q xs"
  by (induction xs) auto

lemma Matches_rule:
  assumes "IsValid (rule_pattern rule)"
  shows "Matches (rule_pattern rule) c = Some (exact_match c rule \<or> star_match c rule)"
  using Matches_substitute [OF assms, of c]
  by (auto simp: exact_match_def star_match_def substitute_def split: option.split)

text \<open>
  The loop's invariant: what it has chosen among the rules \<open>done\<close> is what the specification
  chooses among them.
\<close>

definition chosen :: "bool \<Rightarrow> bool \<Rightarrow> string \<Rightarrow> aliasRule list \<Rightarrow> bool \<Rightarrow> bool \<Rightarrow> nat option \<Rightarrow> bool" where
  "chosen global dflt c rules enabled extension best \<longleftrightarrow>
     (case longest_star c rules of
        None \<Rightarrow> best = None \<and> enabled = dflt \<and> extension = global
      | Some rule \<Rightarrow> best = Some (star_index rule) \<and> enabled = rule_enabled rule
          \<and> extension = ruleExtension rule global)"

lemma longest_star_Some:
  "longest_star c rules = Some rule \<Longrightarrow> star_match c rule \<and> rule \<in> set rules
     \<and> (\<forall>rule'\<in>set rules. star_match c rule' \<longrightarrow> star_index rule' \<le> star_index rule)"
  unfolding longest_star_def by (drule find_SomeD) simp

lemma find_None: "List.find P xs = None \<longleftrightarrow> (\<forall>x\<in>set xs. \<not> P x)"
  by (induction xs) auto

lemma maximal_star:
  "rule \<in> set rules \<Longrightarrow> star_match c rule \<Longrightarrow>
   \<exists>r\<in>set rules. star_match c r \<and> (\<forall>r'\<in>set rules. star_match c r' \<longrightarrow> star_index r' \<le> star_index r)"
proof (induction rules arbitrary: rule)
  case (Cons x rules)
  show ?case
  proof (cases "\<exists>r\<in>set rules. star_match c r")
    case True
    then obtain r where r: "r \<in> set rules" "star_match c r"
      "\<forall>r'\<in>set rules. star_match c r' \<longrightarrow> star_index r' \<le> star_index r" using Cons.IH by blast
    show ?thesis
    proof (cases "star_match c x \<and> star_index r < star_index x")
      case True
      with r show ?thesis by fastforce
    next
      case False
      with r show ?thesis by fastforce
    qed
  next
    case False
    with Cons.prems show ?thesis by auto
  qed
qed simp

lemma longest_star_None: "longest_star c rules = None \<longleftrightarrow> (\<forall>r\<in>set rules. \<not> star_match c r)"
  using maximal_star unfolding longest_star_def find_None by blast

lemma longest_star_snoc:
  "longest_star c (rules @ [rule]) =
     (if star_match c rule
         \<and> (case longest_star c rules of None \<Rightarrow> True | Some r \<Rightarrow> star_index r < star_index rule)
      then Some rule else longest_star c rules)"
proof -
  let ?P = "\<lambda>q. star_match c q
      \<and> (\<forall>r'\<in>set (rules @ [rule]). star_match c r' \<longrightarrow> star_index r' \<le> star_index q)"
  have u: "longest_star c (rules @ [rule])
      = (case List.find ?P rules of None \<Rightarrow> if ?P rule then Some rule else None | Some x \<Rightarrow> Some x)"
    by (simp only: longest_star_def find_append List.find.simps)
  show ?thesis
  proof (cases "longest_star c rules")
    case None
    then have no: "\<forall>r\<in>set rules. \<not> star_match c r" by (simp add: longest_star_None)
    then have "List.find ?P rules = None" by (simp add: find_None)
    with None no u show ?thesis by auto
  next
    case (Some r)
    note r = longest_star_Some [OF Some]
    show ?thesis
    proof (cases "star_match c rule \<and> star_index r < star_index rule")
      case True
      have "List.find ?P rules = None"
        unfolding find_None using True r by fastforce
      moreover have "?P rule" using True r by fastforce
      ultimately show ?thesis using Some True u by simp
    next
      case False
      have "List.find ?P rules = longest_star c rules"
        unfolding longest_star_def by (rule find_cong') (use r False in fastforce)
      with Some False u show ?thesis by auto
    qed
  qed
qed

lemma decide_loop_chosen:
  "chosen global dflt c before enabled extension best \<Longrightarrow>
   \<forall>rule\<in>set before. \<not> exact_match c rule \<Longrightarrow>
   \<forall>rule\<in>set rules. IsValid (rule_pattern rule) \<Longrightarrow>
   decide_loop global c rules enabled extension best =
     Some (case List.find (exact_match c) rules of
             Some rule \<Rightarrow> (rule_enabled rule, ruleExtension rule global)
           | None \<Rightarrow> (case longest_star c (before @ rules) of
                       Some rule \<Rightarrow> (rule_enabled rule, ruleExtension rule global)
                     | None \<Rightarrow> (dflt, global)))"
proof (induction rules arbitrary: before enabled extension best)
  case Nil
  then show ?case by (auto simp: chosen_def split: option.splits)
next
  case (Cons rule rules)
  have m: "Matches (rule_pattern rule) c = Some (exact_match c rule \<or> star_match c rule)"
    using Cons.prems by (intro Matches_rule) simp
  show ?case
  proof (cases "exact_match c rule")
    case True
    with m show ?thesis by (simp add: exact_match_def)
  next
    case False
    show ?thesis
    proof (cases "star_match c rule")
      case no: False
      have ls: "longest_star c (before @ [rule]) = longest_star c before"
        using no by (simp add: longest_star_snoc)
      have "chosen global dflt c (before @ [rule]) enabled extension best"
        using Cons.prems(1) no by (auto simp: chosen_def ls split: option.split)
      from Cons.IH [OF this, unfolded append_assoc append_Cons append_Nil] Cons.prems False no m show ?thesis by simp
    next
      case star: True
      then obtain i where i: "StarIndex (rule_pattern rule) = Some i" "star_index rule = i"
        by (auto simp: star_match_def star_index_def)
      have b: "(case best of None \<Rightarrow> True | Some b \<Rightarrow> i > b) \<longleftrightarrow>
          (case longest_star c before of None \<Rightarrow> True | Some r \<Rightarrow> star_index r < i)"
        using Cons.prems(1) by (auto simp: chosen_def split: option.splits)
      show ?thesis
      proof (cases "case best of None \<Rightarrow> True | Some b \<Rightarrow> i > b")
        case True
        have "longest_star c (before @ [rule]) = Some rule"
          using True star b i Cons.prems(1)
          by (auto simp: longest_star_snoc chosen_def split: option.splits)
        then have "chosen global dflt c (before @ [rule]) (rule_enabled rule) (ruleExtension rule global) (Some i)"
          using i by (simp add: chosen_def)
        from Cons.IH [OF this, unfolded append_assoc append_Cons append_Nil] Cons.prems True False star m i show ?thesis by simp
      next
        case no: False
        then obtain r where r: "longest_star c before = Some r" "\<not> star_index r < i"
          using b by (auto split: option.splits)
        then have "longest_star c (before @ [rule]) = longest_star c before"
          using i by (simp add: longest_star_snoc)
        then have "chosen global dflt c (before @ [rule]) enabled extension best"
          using Cons.prems(1) r by (simp add: chosen_def)
        from Cons.IH [OF this, unfolded append_assoc append_Cons append_Nil] Cons.prems no False star m i show ?thesis by simp
      qed
    qed
  qed
qed

lemma decide_decision: "valid_rules opts \<Longrightarrow> decide opts c = Some (decision opts c)"
  using decide_loop_chosen [of "Extension opts" "aliasEnabled opts" c "[]", unfolded append_Nil]
  by (simp add: decide_def decision_def chosen_def longest_star_def valid_rules_def)

section \<open>What a rewrite can be\<close>

definition emitted_extension :: "string \<Rightarrow> bool \<Rightarrow> string option" where
  "emitted_extension ext withExtension =
     map_option (\<lambda>e. if \<not> withExtension \<and> e \<noteq> ''.json'' then [] else e) (outputExtension ext)"

definition rewrite_options :: "hostRewriter \<Rightarrow> ComparePathsOptions" where
  "rewrite_options r = \<lparr>UseCaseSensitiveFileNames = useCaseSensitiveFileNames r,
     CurrentDirectory = currentDirectory r\<rparr>"

lemma rewrite_changed:
  assumes "RewriteModuleSpecifier U r context s = Some (out, True)"
  obtains fileName node withExtension m e rel where
    "SourceFile context = Some fileName" "SpecifierNode context = Some node"
    "decide (options r) s = Some (True, withExtension)"
    "resolveSpecifier (host_resolver r) node s = Some m" "ResolvedFileName m \<noteq> []"
    "\<not> IsExternalLibraryImport m" "\<not> str_contains (ResolvedFileName m) ''/node_modules/''"
    "emitted_extension (ResolvedExtension m) withExtension = Some e"
    "GetRelativePathFromFile U fileName (TrimSuffix (ResolvedFileName m) (ResolvedExtension m) @ e)
       (rewrite_options r) = Some rel"
    "out = EnsurePathIsNonModuleName rel" "out \<noteq> s"
proof -
  obtain fileName node where c: "SourceFile context = Some fileName" "SpecifierNode context = Some node"
    using assms by (auto simp: RewriteModuleSpecifier_def split: option.splits)
  obtain w where d: "decide (options r) s = Some (True, w)"
    using assms c by (auto simp: RewriteModuleSpecifier_def split: option.splits if_splits)
  obtain m where m: "resolveSpecifier (host_resolver r) node s = Some m"
    using assms c d by (auto simp: RewriteModuleSpecifier_def split: option.splits)
  have m': "ResolvedFileName m \<noteq> []" "\<not> IsExternalLibraryImport m"
    "\<not> str_contains (ResolvedFileName m) ''/node_modules/''"
    using assms c d m by (auto simp: RewriteModuleSpecifier_def IsResolved_def split: if_splits)
  obtain e0 where e0: "outputExtension (ResolvedExtension m) = Some e0"
    using assms c d m m'
    by (cases "outputExtension (ResolvedExtension m)")
      (simp_all add: RewriteModuleSpecifier_def IsResolved_def)
  define e where "e = (if \<not> w \<and> e0 \<noteq> ''.json'' then [] else e0)"
  have ee: "emitted_extension (ResolvedExtension m) w = Some e"
    by (simp add: emitted_extension_def e0 e_def)
  let ?rel = "GetRelativePathFromFile U fileName
      (TrimSuffix (ResolvedFileName m) (ResolvedExtension m) @ e) (rewrite_options r)"
  have run: "RewriteModuleSpecifier U r context s =
      (case ?rel of None \<Rightarrow> None
       | Some relative0 \<Rightarrow>
           (let relative = EnsurePathIsNonModuleName relative0 in
            if relative = s then Some (s, False) else Some (relative, True)))"
    using c d m m' e0 unfolding e_def rewrite_options_def
    by (simp add: RewriteModuleSpecifier_def IsResolved_def Let_def)
  then obtain rel where rel: "?rel = Some rel" using assms by (cases ?rel) auto
  with run assms have "out = EnsurePathIsNonModuleName rel" "out \<noteq> s"
    by (auto simp: Let_def split: if_splits)
  with that c d m m' ee rel show thesis by blast
qed

text \<open>A rewritten specifier is never a bare module name.\<close>

lemma EnsurePathIsNonModuleName_path:
  "PathIsAbsolute (EnsurePathIsNonModuleName p) \<or> PathIsRelative (EnsurePathIsNonModuleName p)"
proof (cases "\<not> PathIsAbsolute p \<and> \<not> PathIsRelative p")
  case True
  have "PathIsRelative (''./'' @ p)" by (simp add: PathIsRelative_def)
  with True show ?thesis by (simp add: EnsurePathIsNonModuleName_def)
qed (auto simp: EnsurePathIsNonModuleName_def)

lemma EnsurePathIsNonModuleName_idem:
  "EnsurePathIsNonModuleName (EnsurePathIsNonModuleName p) = EnsurePathIsNonModuleName p"
  using EnsurePathIsNonModuleName_path [of p]
  by (auto simp: EnsurePathIsNonModuleName_def [of "EnsurePathIsNonModuleName p"])

lemma rewrite_is_path:
  "RewriteModuleSpecifier U r context s = Some (out, True) \<Longrightarrow>
   (PathIsAbsolute out \<or> PathIsRelative out) \<and> out \<noteq> s"
  by (erule rewrite_changed) (simp add: EnsurePathIsNonModuleName_path)

lemma rewrite_unchanged:
  "RewriteModuleSpecifier U r context s = Some (out, False) \<Longrightarrow> out = s"
  by (auto simp: RewriteModuleSpecifier_def Let_def split: option.splits if_splits)

lemma output_extensions: "outputExtension e = Some x \<Longrightarrow> x \<in> {''.js'', ''.mjs'', ''.cjs'', ''.json''}"
  by (auto simp: outputExtension_def split: if_splits)

text \<open>
  A lookup of this very usage that found nothing is final: no other tier is asked, and nothing
  is rewritten.
\<close>

lemma failed_usage_is_final:
  assumes "hasUsableParentChain node" "per_usage R node s = Some m" "ResolvedFileName m = []"
  shows "resolveSpecifier R node s = Some m"
  using assms by (simp add: resolveSpecifier_def IsResolved_def)

text \<open>Where a resolution can come from.\<close>

lemma probe_result:
  "probe modes seen resolve = Some m \<Longrightarrow>
     \<exists>mode\<in>set modes. mode \<notin> set seen \<and> resolve mode = Some m \<and> IsResolved (Some m)"
  by (induction modes seen resolve rule: probe.induct) (auto simp: Let_def split: if_splits)

lemma probe_None:
  "probe modes seen resolve = None \<longleftrightarrow> (\<forall>mode\<in>set modes - set seen. \<not> IsResolved (resolve mode))"
  by (induction modes seen resolve rule: probe.induct) (auto simp: Let_def IsResolved_def split: option.splits)

lemma resolveByProbingModes_None:
  "resolveByProbingModes d resolve = None \<longleftrightarrow> (\<forall>mode. \<not> IsResolved (resolve mode))"
proof -
  have "mode \<in> set [d, ModeNone, ModeESM, ModeCommonJS]" for mode by (cases mode) simp_all
  then have "set [d, ModeNone, ModeESM, ModeCommonJS] - set [] = UNIV" by auto
  then show ?thesis unfolding resolveByProbingModes_def probe_None by simp
qed

lemma resolveByProbingModes_Some:
  "resolveByProbingModes d resolve = Some m \<Longrightarrow> \<exists>mode. resolve mode = Some m \<and> IsResolved (Some m)"
  unfolding resolveByProbingModes_def by (drule probe_result) blast

text \<open>
  When the resolution succeeds it is the answer of one of the tiers; it fails only when every
  tier it may ask fails.
\<close>

lemma resolveSpecifier_source:
  assumes "IsResolved (resolveSpecifier R node s)"
  shows "(hasUsableParentChain node \<and> resolveSpecifier R node s = per_usage R node s)
    \<or> (\<exists>d lookup mode. text_mode R = Some (d, lookup) \<and> resolveSpecifier R node s = lookup s mode)
    \<or> (\<exists>resolve mode. live R = Some resolve \<and> resolveSpecifier R node s = resolve s mode)"
proof -
  define r1 where "r1 = (if hasUsableParentChain node then per_usage R node s else None)"
  define r2 where "r2 = (if \<not> IsResolved r1
      then (case text_mode R of Some (d, lookup) \<Rightarrow> resolveByProbingModes d (lookup s) | None \<Rightarrow> r1)
      else r1)"
  define r3 where "r3 = (if \<not> IsResolved r2
      then (case live R of Some resolve \<Rightarrow>
              resolveByProbingModes (case text_mode R of Some (m, _) \<Rightarrow> m | None \<Rightarrow> ModeNone) (resolve s)
            | None \<Rightarrow> r2)
      else r2)"
  have "resolveSpecifier R node s = (if hasUsableParentChain node \<and> r1 \<noteq> None \<and> \<not> IsResolved r1 then r1 else r3)"
    by (simp only: resolveSpecifier_def Let_def r1_def r2_def r3_def)
  with assms have eq: "resolveSpecifier R node s = r3" and res: "IsResolved r3"
    by (auto split: if_splits)
  show ?thesis
  proof (cases "IsResolved r2")
    case False
    then obtain resolve where "live R = Some resolve"
      "r3 = resolveByProbingModes (case text_mode R of Some (m, _) \<Rightarrow> m | None \<Rightarrow> ModeNone) (resolve s)"
      using res by (auto simp: r3_def split: option.splits)
    moreover from res obtain m where "r3 = Some m" by (auto simp: IsResolved_def split: option.splits)
    ultimately obtain mode where "resolve s mode = r3"
      using resolveByProbingModes_Some by metis
    with \<open>live R = Some resolve\<close> eq show ?thesis by metis
  next
    case r2: True
    then have eq2: "resolveSpecifier R node s = r2" using eq by (simp add: r3_def)
    show ?thesis
    proof (cases "IsResolved r1")
      case True
      with eq2 show ?thesis
        by (auto simp: r2_def r1_def IsResolved_def split: if_splits)
    next
      case False
      then obtain d lookup where "text_mode R = Some (d, lookup)" "r2 = resolveByProbingModes d (lookup s)"
        using r2 by (auto simp: r2_def split: option.splits)
      moreover from r2 obtain m where "r2 = Some m" by (auto simp: IsResolved_def split: option.splits)
      ultimately obtain mode where "lookup s mode = r2"
        using resolveByProbingModes_Some by metis
      with \<open>text_mode R = Some (d, lookup)\<close> eq2 show ?thesis by metis
    qed
  qed
qed

section \<open>Properties\<close>

text \<open>C3: The decision per specifier is the documented one for every configuration: an exact alias
  rule decides before any star rule, among star rules the first with the longest text before the
  star decides, and without a matching rule the global settings do; the loop never panics, since
  rules with an invalid pattern are dropped when the options are read.\<close>
theorem decide_is_decision:
  assumes "OptionsFromConfig raw = Some opts"
  shows "decide opts specifier = Some (decision opts specifier)"
  using assms OptionsFromConfig_valid decide_decision by blast

definition example_config :: "unit json" where
  "example_config = JObj [(''compilerOptions'', JObj [(''plugins'', JArr [
     JObj [(''name'', JStr PluginName),
           (''alias'', JObj [(''@a/*'', JBool True), (''@a/b'', JBool False)])]])])]"

theorem decide_is_decision_witness:
  "\<exists>opts. OptionsFromConfig example_config = Some opts
     \<and> decide opts ''@a/b'' = Some (decision opts ''@a/b'')"
proof -
  have "case OptionsFromConfig example_config of None \<Rightarrow> False | Some _ \<Rightarrow> True" by code_simp
  then obtain opts where "OptionsFromConfig example_config = Some opts" by (auto split: option.splits)
  with decide_is_decision [OF this] show ?thesis by blast
qed

text \<open>A specifier is replaced only when a rule or the global setting enables it and the compiler
  resolved it to a file of the project, outside every \<open>node_modules\<close>, whose extension has an
  emitted counterpart; the replacement differs from what was written and is an absolute or a
  dot-relative path, never a bare module name.\<close>
theorem RewriteModuleSpecifier_safe:
  assumes "RewriteModuleSpecifier U r context s = Some (out, True)"
  shows "(PathIsAbsolute out \<or> PathIsRelative out) \<and> out \<noteq> s
    \<and> (\<exists>node m withExtension. SpecifierNode context = Some node
         \<and> decide (options r) s = Some (True, withExtension)
         \<and> resolveSpecifier (host_resolver r) node s = Some m \<and> ResolvedFileName m \<noteq> []
         \<and> \<not> IsExternalLibraryImport m \<and> \<not> str_contains (ResolvedFileName m) ''/node_modules/''
         \<and> outputExtension (ResolvedExtension m) \<noteq> None)"
  using rewrite_is_path [OF assms] rewrite_changed [OF assms]
  by (metis (no_types, lifting) emitted_extension_def map_option_is_None option.distinct(1))

definition example_rewriter :: hostRewriter where
  "example_rewriter =
     \<lparr>host_resolver =
        \<lparr>per_usage = (\<lambda>_ s. if s = ''@app/util''
           then Some \<lparr>ResolvedFileName = ''/p/lib/util.ts'', ResolvedExtension = ''.ts'',
                      PackageIdName = [], IsExternalLibraryImport = False\<rparr>
           else Some \<lparr>ResolvedFileName = [], ResolvedExtension = [], PackageIdName = [], IsExternalLibraryImport = False\<rparr>),
         text_mode = None, live = None\<rparr>,
      options = defaultOptions, useCaseSensitiveFileNames = True, currentDirectory = ''/p''\<rparr>"

definition example_context :: RewriteContext where
  "example_context = \<lparr>SourceFile = Some ''/p/src/main.ts'', SpecifierNode = Some [OtherParent]\<rparr>"

lemma example_rewrite:
  "RewriteModuleSpecifier plain_tables example_rewriter example_context ''@app/util''
     = Some (''../lib/util.js'', True)"
  by code_simp

theorem RewriteModuleSpecifier_safe_witness:
  "PathIsAbsolute ''../lib/util.js'' \<or> PathIsRelative ''../lib/util.js''"
  using RewriteModuleSpecifier_safe [OF example_rewrite] by blast

text \<open>A lookup of this very usage that the compiler recorded as failed is final: the specifier is
  left as written even when another resolution mode, or a fresh resolution, would find a file.\<close>
theorem RewriteModuleSpecifier_respects_failure:
  assumes "SpecifierNode context = Some node" "hasUsableParentChain node"
    and "per_usage (host_resolver r) node s = Some m" "ResolvedFileName m = []"
    and "RewriteModuleSpecifier U r context s = Some (out, replaced)"
  shows "out = s \<and> \<not> replaced"
proof -
  have "resolveSpecifier (host_resolver r) node s = Some m"
    using assms(2,3,4) by (rule failed_usage_is_final)
  then have "\<not> replaced"
    using assms(1,4,5) by (cases replaced) (auto elim: rewrite_changed)
  with assms(5) rewrite_unchanged show ?thesis by auto
qed

theorem RewriteModuleSpecifier_respects_failure_witness:
  "RewriteModuleSpecifier plain_tables example_rewriter example_context ''x'' = Some (''x'', False)"
proof -
  let ?run = "RewriteModuleSpecifier plain_tables example_rewriter example_context ''x''"
  have "case ?run of None \<Rightarrow> False | Some _ \<Rightarrow> True" by code_simp
  then obtain out ok where run: "?run = Some (out, ok)" by (auto split: option.splits)
  have "out = ''x'' \<and> \<not> ok"
    by (rule RewriteModuleSpecifier_respects_failure [OF _ _ _ _ run, of "[OtherParent]"
          "\<lparr>ResolvedFileName = [], ResolvedExtension = [], PackageIdName = [], IsExternalLibraryImport = False\<rparr>"])
      (simp_all add: example_context_def hasUsableParentChain_def example_rewriter_def)
  with run show ?thesis by simp
qed



text \<open>The configuration notices of the path-rewrite plugin are reported exactly once per program:
  over any sequence of drains, for whatever files, the first one returns all of them and the
  others return nothing.\<close>
theorem TakeDiagnostics_once:
  "concat (snd (foldl (\<lambda>(p, out) path. let (p', ds) = TakeDiagnostics p path in (p', out @ [ds]))
     (NewHostPlugin opts, []) paths))
   = (if paths = [] then [] else plugin_notices (NewHostPlugin opts))"
proof -
  let ?step = "\<lambda>(p, out) path. let (p', ds) = TakeDiagnostics p path in (p', out @ [ds])"
  have silent: "concat (snd (foldl ?step (p, out) paths)) = concat out"
    if "reported p \<or> plugin_notices p = []" for p out paths
    using that by (induction paths arbitrary: out) (simp_all add: TakeDiagnostics_def)
  have new: "\<not> reported (NewHostPlugin opts)" by (simp add: NewHostPlugin_def Let_def)
  show ?thesis
  proof (cases paths)
    case (Cons path rest)
    show ?thesis
    proof (cases "plugin_notices (NewHostPlugin opts) = []")
      case True
      with silent [of "NewHostPlugin opts" "[]" paths] show ?thesis by simp
    next
      case False
      with new Cons show ?thesis
        using silent [of "(NewHostPlugin opts)\<lparr>reported := True\<rparr>"] by (simp add: TakeDiagnostics_def)
    qed
  qed simp
qed

end
