(* ===== verification/JsStrings.thy ===== *)
theory JsStrings
  imports StringUtil
begin

text \<open>
  The rest of \<open>tsc/internal/stringutil/util.go\<close>: indentation, URI escaping, byte order
  marks, quotes, and JavaScript strings whose lone surrogates are carried as three-byte
  sentinels inside a Go string.
\<close>

section \<open>Indentation and URI escaping\<close>

abbreviation MAX_SMI_X86 :: nat where "MAX_SMI_X86 \<equiv> 0x3fffffff"

function indent_of :: "string \<Rightarrow> nat \<Rightarrow> nat \<Rightarrow> nat" where
  "indent_of line indentation i =
     (if i < length line \<and> i < indentation then
        (let (ch, size) = decode_rune (drop i line) in
         if \<not> IsWhiteSpaceLike ch then i else indent_of line indentation (i + size))
      else i)"
  by pat_completeness auto
termination
proof (relation "measure (\<lambda>(line, indentation, i). length line - i)")
  fix line :: string and indentation i :: nat and x ch size
  assume i: "i < length line \<and> i < indentation" and "x = decode_rune (drop i line)" "(ch, size) = x"
  then have "size = snd (decode_rune (drop i line))" by (metis snd_conv)
  with i have "0 < size" by (simp add: decode_rune_size_pos)
  with i show "((line, indentation, i + size), line, indentation, i)
      \<in> measure (\<lambda>(line, indentation, i). length line - i)" by auto
qed simp

declare indent_of.simps [simp del]

fun GuessIndentation_loop :: "string list \<Rightarrow> nat \<Rightarrow> nat" where
  "GuessIndentation_loop [] indentation =
     (if indentation = MAX_SMI_X86 then 0 else indentation)"
| "GuessIndentation_loop (line # ls) indentation =
     (if line = [] then GuessIndentation_loop ls indentation
      else (let i = indent_of line indentation 0;
                indentation' = (if i < indentation then i else indentation)
            in if indentation' = 0 then 0 else GuessIndentation_loop ls indentation'))"

definition GuessIndentation :: "string list \<Rightarrow> nat" where
  "GuessIndentation ls = GuessIndentation_loop ls MAX_SMI_X86"

definition upperhex :: string where
  "upperhex = ''0123456789ABCDEF''"

definition shouldEscapeForEncodeURI :: "char \<Rightarrow> bool" where
  "shouldEscapeForEncodeURI b =
     (if 0x41 \<le> byte b \<and> byte b \<le> 0x5A then False
      else if 0x61 \<le> byte b \<and> byte b \<le> 0x7A then False
      else if 0x30 \<le> byte b \<and> byte b \<le> 0x39 then False
      else b \<notin> set '';/?:@&=+$,#-_.!~*()'' \<union> {CHR 0x27})"

fun EncodeURI :: "string \<Rightarrow> string" where
  "EncodeURI [] = []"
| "EncodeURI (b # s) =
     (if \<not> shouldEscapeForEncodeURI b then b # EncodeURI s
      else CHR ''%'' # upperhex ! (byte b div 16) # upperhex ! (byte b mod 16) # EncodeURI s)"

text \<open>Specification: percent-decoding, the inverse every reader of a URI applies.\<close>

definition hex_value :: "char \<Rightarrow> nat" where
  "hex_value c = (if byte c \<le> 0x39 then byte c - 0x30 else byte c - 0x37)"

fun percent_decode :: "string \<Rightarrow> string" where
  "percent_decode [] = []"
| "percent_decode (c # s) =
     (if c = CHR ''%'' then
        (case s of
           h # l # s' \<Rightarrow> char_of (hex_value h * 16 + hex_value l) # percent_decode s'
         | _ \<Rightarrow> c # s)
      else c # percent_decode s)"

lemma hex_value_upperhex: "n < 16 \<Longrightarrow> hex_value (upperhex ! n) = n"
proof -
  have "\<forall>n\<in>set [0..<16]. hex_value (upperhex ! n) = n" by code_simp
  then show "n < 16 \<Longrightarrow> hex_value (upperhex ! n) = n" by simp
qed

lemma escape_percent: "shouldEscapeForEncodeURI (CHR ''%'')"
  by (simp add: shouldEscapeForEncodeURI_def)

section \<open>Byte order marks and quotes\<close>

definition getByteOrderMarkLength :: "string \<Rightarrow> nat" where
  "getByteOrderMarkLength tx =
     (if 1 \<le> length tx then
        (let ch0 = byte (tx ! 0) in
         if ch0 = 0xFE then (if 2 \<le> length tx \<and> byte (tx ! 1) = 0xFF then 2 else 0)
         else if ch0 = 0xFF then (if 2 \<le> length tx \<and> byte (tx ! 1) = 0xFE then 2 else 0)
         else if ch0 = 0xEF then
           (if 3 \<le> length tx \<and> byte (tx ! 1) = 0xBB \<and> byte (tx ! 2) = 0xBF then 3 else 0)
         else 0)
      else 0)"

definition RemoveByteOrderMark :: "string \<Rightarrow> string" where
  "RemoveByteOrderMark tx =
     (let n = getByteOrderMarkLength tx in if 0 < n then drop n tx else tx)"

definition AddUTF8ByteOrderMark :: "string \<Rightarrow> string" where
  "AddUTF8ByteOrderMark tx =
     (if getByteOrderMarkLength tx = 0 then [CHR 0xEF, CHR 0xBB, CHR 0xBF] @ tx else tx)"

text \<open>
  \<open>StripQuotes\<close> compares the first and the last rune; both must be one of three ASCII
  quotes, and a rune is an ASCII quote exactly when its byte is.
\<close>

definition StripQuotes :: "string \<Rightarrow> string" where
  "StripQuotes name =
     (if length name < 2 then name
      else if hd name = last name \<and> hd name \<in> {CHR 0x27, CHR 0x22, CHR 0x60}
      then take (length name - 2) (drop 1 name)
      else name)"

text \<open>Replacing every match of the expression \<open>\\.\<close> (a backslash and a rune other than
  the line feed) by the match without its backslash.\<close>

fun unescape_slashes :: "string \<Rightarrow> string" where
  "unescape_slashes [] = []"
| "unescape_slashes [c] = [c]"
| "unescape_slashes (c # d # s) =
     (if c = CHR 0x5C \<and> d \<noteq> LF then d # unescape_slashes s else c # unescape_slashes (d # s))"

definition UnquoteString :: "string \<Rightarrow> string" where
  "UnquoteString str = unescape_slashes (StripQuotes str)"

definition LowerFirstChar :: "unicode_tables \<Rightarrow> string \<Rightarrow> string" where
  "LowerFirstChar U str =
     (let (ch, size) = decode_rune str in
      if 0 < size then encode_rune (rune_lower U ch) @ drop size str else str)"

fun truncate_pieces :: "(rune \<times> string) list \<Rightarrow> nat \<Rightarrow> string" where
  "truncate_pieces [] n = []"
| "truncate_pieces (p # ps) 0 = []"
| "truncate_pieces (p # ps) (Suc n) = snd p @ truncate_pieces ps n"

definition TruncateByRunes :: "string \<Rightarrow> int \<Rightarrow> string" where
  "TruncateByRunes str maxLength =
     (if int (length str) < maxLength then str
      else if maxLength \<le> 0 then []
      else truncate_pieces (rune_pieces str) (nat maxLength))"

section \<open>JavaScript strings\<close>

abbreviation SurrogateLowStart :: rune where "SurrogateLowStart \<equiv> 0xDC00"

definition IsHighSurrogate :: "rune \<Rightarrow> bool" where
  "IsHighSurrogate ch \<longleftrightarrow> is_surrogate ch \<and> ch < SurrogateLowStart"

definition IsLowSurrogate :: "rune \<Rightarrow> bool" where
  "IsLowSurrogate ch \<longleftrightarrow> is_surrogate ch \<and> SurrogateLowStart \<le> ch"

definition SurrogatePairToCodePoint :: "rune \<Rightarrow> rune \<Rightarrow> rune" where
  "SurrogatePairToCodePoint high low = utf16_decode high low"

definition CodePointToSurrogatePair :: "rune \<Rightarrow> rune \<times> rune" where
  "CodePointToSurrogatePair ch = utf16_encode ch"

abbreviation surrogateUTF8Lead :: nat where "surrogateUTF8Lead \<equiv> 0xED"

definition EncodeJSStringRune :: "rune \<Rightarrow> string" where
  "EncodeJSStringRune ch =
     (if is_surrogate ch
      then [char_of surrogateUTF8Lead, char_of (0x80 + ch div 64 mod 64), char_of (0x80 + ch mod 64)]
      else encode_rune ch)"

definition DecodeJSStringRune :: "string \<Rightarrow> rune \<times> nat" where
  "DecodeJSStringRune s =
     (if 3 \<le> length s \<and> byte (s ! 0) = surrogateUTF8Lead
         \<and> 0xA0 \<le> byte (s ! 1) \<and> byte (s ! 1) \<le> 0xBF
         \<and> 0x80 \<le> byte (s ! 2) \<and> byte (s ! 2) \<le> 0xBF
      then (0xD000 + byte (s ! 1) mod 64 * 64 + byte (s ! 2) mod 64, 3)
      else decode_rune s)"

lemma DecodeJS_size_pos: "s \<noteq> [] \<Longrightarrow> 0 < snd (DecodeJSStringRune s)"
  by (simp add: DecodeJSStringRune_def decode_rune_size_pos)

lemma DecodeJS_Nil [simp]: "DecodeJSStringRune [] = (RuneError, 0)"
  by (simp add: DecodeJSStringRune_def)

function combine_loop :: "string \<Rightarrow> string" where
  "combine_loop s =
     (if s = [] then []
      else (let r = fst (DecodeJSStringRune s); size = snd (DecodeJSStringRune s);
                low = fst (DecodeJSStringRune (drop size s));
                lowSize = snd (DecodeJSStringRune (drop size s))
            in if IsHighSurrogate r \<and> IsLowSurrogate low
               then encode_rune (SurrogatePairToCodePoint r low) @ combine_loop (drop (size + lowSize) s)
               else take size s @ combine_loop (drop size s)))"
  by pat_completeness auto
termination
  by (relation "measure length") (auto simp: DecodeJS_size_pos add_pos_nonneg)

declare combine_loop.simps [simp del]

definition CombineSurrogatePairs :: "string \<Rightarrow> string" where
  "CombineSurrogatePairs s =
     (if index_byte s (char_of surrogateUTF8Lead) = None then s else combine_loop s)"

text \<open>
  The specification, on the code points of the string: an adjacent high and low surrogate
  become the supplementary code point they stand for, everything else is kept.
\<close>

fun merge_pairs :: "rune list \<Rightarrow> rune list" where
  "merge_pairs [] = []"
| "merge_pairs [r] = [r]"
| "merge_pairs (h # l # rs) =
     (if IsHighSurrogate h \<and> IsLowSurrogate l then utf16_decode h l # merge_pairs rs
      else h # merge_pairs (l # rs))"

definition js_string :: "rune list \<Rightarrow> string" where
  "js_string rs = concat (map EncodeJSStringRune rs)"

lemma js_string_Nil [simp]: "js_string [] = []"
  by (simp add: js_string_def)

lemma js_string_Cons: "js_string (r # rs) = EncodeJSStringRune r @ js_string rs"
  by (simp add: js_string_def)

lemma encode_rune_lead:
  assumes "valid_rune r" "3 \<le> length (encode_rune r @ s)"
    "byte ((encode_rune r @ s) ! 0) = surrogateUTF8Lead"
  shows "byte ((encode_rune r @ s) ! 1) < 0xA0"
proof -
  have r: "r \<le> 0x10FFFF" "\<not> is_surrogate r" using assms(1) by (auto simp: valid_rune_def)
  consider "r < 0x80" | "0x80 \<le> r" "r < 0x800" | "0x800 \<le> r" "r < 0x10000" | "0x10000 \<le> r"
    by linarith
  then show ?thesis
  proof cases
    case 1
    with assms(3) show ?thesis by (simp add: encode_rune_def byte_char_of)
  next
    case 2
    then have "r div 64 < 32" by auto
    with 2 assms(3) show ?thesis by (simp add: encode_rune_def byte_char_of)
  next
    case 3
    have "r div 4096 < 16" using 3 by auto
    with 3 assms(1,3) have "r div 4096 = 13"
      by (simp add: encode_rune_def encode3_def byte_char_of)
    then obtain k where k: "r = 13 * 4096 + k" "k < 4096"
      by (metis div_mult_mod_eq mod_less_divisor mult.commute zero_less_numeral)
    with r(2) have "k div 64 < 32" by (auto simp: is_surrogate_def)
    then have "(13 * 64 + k div 64) mod 64 < 32" by (simp only: mod_mult_self3 mod_less)
    moreover have "r div 64 = 13 * 64 + k div 64" using k by simp
    ultimately have "r div 64 mod 64 < 32" by simp
    with 3 assms(1) show ?thesis by (simp add: encode_rune_def encode3_def byte_char_of)
  next
    case 4
    have "r div 262144 \<le> 4" using r by auto
    with 4 assms(1,3) show ?thesis by (simp add: encode_rune_def byte_char_of)
  qed
qed

lemma decode_encode_js:
  assumes "r \<le> 0x10FFFF"
  shows "DecodeJSStringRune (EncodeJSStringRune r @ s) = (r, length (EncodeJSStringRune r))"
proof (cases "is_surrogate r")
  case False
  with assms have v: "valid_rune r" by (simp add: valid_rune_def)
  with encode_rune_lead [OF v, of s] False show ?thesis
    by (auto simp: DecodeJSStringRune_def EncodeJSStringRune_def decode_encode_rune)
next
  case True
  define q m where "q = (r - 0xD800) div 64" and "m = (r - 0xD800) mod 64"
  have qm: "r = 0xD800 + (q * 64 + m)" "m < 64"
    using True by (simp_all add: q_def m_def is_surrogate_def)
  have q: "q < 32" using True by (auto simp: q_def is_surrogate_def)
  have hi: "r div 64 mod 64 = 32 + q"
  proof -
    have "r div 64 = 13 * 64 + (32 + q)" using qm by simp
    with q show ?thesis by (simp only: mod_mult_self3 mod_less)
  qed
  have lo: "r mod 64 = m"
  proof -
    have "r = (0x360 + q) * 64 + m" using qm(1) by simp
    with qm(2) show ?thesis by (simp only: mod_mult_self3 mod_less)
  qed
  have v: "byte (char_of (0x80 + (32 + q))) = 0x80 + (32 + q)"
      "byte (char_of (0x80 + m)) = 0x80 + m"
    using q qm(2) by (simp_all add: byte_char_of)
  have "(2 * 64 + (32 + q)) mod 64 = 32 + q" "(2 * 64 + m) mod 64 = m"
    using q qm(2) by (simp_all only: mod_mult_self3 mod_less)
  with v have d: "byte (char_of (0x80 + (32 + q))) mod 64 = 32 + q"
      "byte (char_of (0x80 + m)) mod 64 = m" by simp_all
  have e: "EncodeJSStringRune r
      = [char_of surrogateUTF8Lead, char_of (0x80 + (32 + q)), char_of (0x80 + m)]"
    using True by (simp only: EncodeJSStringRune_def hi lo if_True)
  have sum: "0xD000 + (32 + q) * 64 + m = r" using qm(1) by simp
  have lead: "byte (char_of surrogateUTF8Lead) = surrogateUTF8Lead" by (simp add: byte_char_of)
  show ?thesis unfolding e DecodeJSStringRune_def
    using q qm(2) v d sum lead by (simp del: of_char_of)
qed

lemma EncodeJS_not_Nil [simp]: "EncodeJSStringRune r \<noteq> []"
  by (simp add: EncodeJSStringRune_def)

lemma combine_loop_js:
  "\<forall>r\<in>set rs. r \<le> 0x10FFFF \<Longrightarrow> combine_loop (js_string rs) = js_string (merge_pairs rs)"
proof (induction rs rule: merge_pairs.induct)
  case 1
  then show ?case by (simp add: combine_loop.simps)
next
  case (2 r)
  then have "DecodeJSStringRune (EncodeJSStringRune r) = (r, length (EncodeJSStringRune r))"
    using decode_encode_js [of r "[]"] by simp
  then show ?case
    by (subst combine_loop.simps)
      (simp add: js_string_Cons combine_loop.simps [of "[]"] IsLowSurrogate_def is_surrogate_def)
next
  case (3 h l rs)
  have dh: "DecodeJSStringRune (js_string (h # l # rs)) = (h, length (EncodeJSStringRune h))"
    and dl: "DecodeJSStringRune (js_string (l # rs)) = (l, length (EncodeJSStringRune l))"
    using "3.prems" decode_encode_js by (simp_all add: js_string_Cons)
  have ne: "js_string (h # l # rs) \<noteq> []" by (simp add: js_string_Cons)
  have d1: "drop (length (EncodeJSStringRune h)) (js_string (h # l # rs)) = js_string (l # rs)"
    and d2: "drop (length (EncodeJSStringRune h) + length (EncodeJSStringRune l))
        (js_string (h # l # rs)) = js_string rs"
    and t1: "take (length (EncodeJSStringRune h)) (js_string (h # l # rs)) = EncodeJSStringRune h"
    by (simp_all add: js_string_Cons)
  show ?case
  proof (cases "IsHighSurrogate h \<and> IsLowSurrogate l")
    case True
    then have "\<not> is_surrogate (utf16_decode h l)"
      by (auto simp: IsHighSurrogate_def IsLowSurrogate_def is_surrogate_def utf16_decode_def)
    then have "EncodeJSStringRune (utf16_decode h l) = encode_rune (utf16_decode h l)"
      by (simp add: EncodeJSStringRune_def)
    with True 3 show ?thesis
      by (subst combine_loop.simps)
        (simp add: Let_def ne dh dl d1 d2 SurrogatePairToCodePoint_def js_string_Cons [of "utf16_decode h l"])
  next
    case False
    with 3 show ?thesis
      by (subst combine_loop.simps) (auto simp: Let_def ne dh dl d1 t1 js_string_Cons [of h "merge_pairs _"])
  qed
qed

lemma merge_pairs_id: "\<forall>r\<in>set rs. \<not> is_surrogate r \<Longrightarrow> merge_pairs rs = rs"
  by (induction rs rule: merge_pairs.induct) (auto simp: IsHighSurrogate_def)

lemma combine_js: "\<forall>r\<in>set rs. r \<le> 0x10FFFF \<Longrightarrow> CombineSurrogatePairs (js_string rs) = js_string (merge_pairs rs)"
proof (cases "index_byte (js_string rs) (char_of surrogateUTF8Lead) = None")
  case False
  then show "\<forall>r\<in>set rs. r \<le> 0x10FFFF \<Longrightarrow> ?thesis"
    by (simp only: CombineSurrogatePairs_def combine_loop_js if_False)
next
  case True
  then have "char_of surrogateUTF8Lead \<notin> set (js_string rs)" unfolding index_byte_None_iff .
  then have no: "\<forall>r\<in>set rs. char_of surrogateUTF8Lead \<notin> set (EncodeJSStringRune r)"
    by (simp add: js_string_def)
  have "is_surrogate r \<Longrightarrow> char_of surrogateUTF8Lead \<in> set (EncodeJSStringRune r)" for r
    unfolding EncodeJSStringRune_def if_P by simp
  with no have "\<forall>r\<in>set rs. \<not> is_surrogate r" by blast
  with True show ?thesis by (simp add: CombineSurrogatePairs_def merge_pairs_id)
qed

lemma decode_encode_uri: "percent_decode (EncodeURI s) = s"
proof (induction s)
  case (Cons b s)
  have "byte b div 16 * 16 + byte b mod 16 = byte b" by simp
  moreover have "byte b div 16 < 16" using byte_less [of b] by (simp add: less_mult_imp_div_less)
  moreover have "\<not> shouldEscapeForEncodeURI b \<Longrightarrow> b \<noteq> CHR ''%''" using escape_percent by auto
  ultimately show ?case using Cons by (simp add: hex_value_upperhex)
qed simp

text \<open>The escaped text has only characters that need no escape, and the percent sign.\<close>

lemma upperhex_plain: "n < 16 \<Longrightarrow> \<not> shouldEscapeForEncodeURI (upperhex ! n)"
proof -
  have "\<forall>n\<in>set [0..<16]. \<not> shouldEscapeForEncodeURI (upperhex ! n)" by code_simp
  then show "n < 16 \<Longrightarrow> ?thesis" by simp
qed

lemma EncodeURI_plain: "c \<in> set (EncodeURI s) \<Longrightarrow> c = CHR ''%'' \<or> \<not> shouldEscapeForEncodeURI c"
proof (induction s)
  case (Cons b s)
  have "byte b div 16 < 16" using byte_less [of b] by (simp add: less_mult_imp_div_less)
  with Cons show ?case by (auto simp: upperhex_plain split: if_splits)
qed simp

section \<open>Properties\<close>

text \<open>\<open>CombineSurrogatePairs\<close> on the encoding of any sequence of code points, unpaired surrogates
  included, gives the encoding of the sequence in which each adjacent high and low surrogate is
  replaced by the supplementary code point they stand for; its shortcut for strings without a
  surrogate lead byte agrees.\<close>
theorem CombineSurrogatePairs_merges:
  assumes "\<forall>r\<in>set rs. r \<le> 0x10FFFF"
  shows "CombineSurrogatePairs (js_string rs) = js_string (merge_pairs rs)"
  using assms by (rule combine_js)

theorem CombineSurrogatePairs_merges_witness:
  "CombineSurrogatePairs (js_string [0x61, 0xD83D, 0xDE00, 0xDC00])
     = js_string (merge_pairs [0x61, 0xD83D, 0xDE00, 0xDC00])"
  by (rule CombineSurrogatePairs_merges) simp

text \<open>Decoding a JavaScript string from its first byte gives back every code point, surrogate or
  not, and the number of bytes its encoding has, whatever follows it in the string.\<close>
theorem DecodeJSStringRune_roundtrip:
  assumes "r \<le> 0x10FFFF"
  shows "DecodeJSStringRune (EncodeJSStringRune r @ s) = (r, length (EncodeJSStringRune r))"
  using assms by (rule decode_encode_js)

theorem DecodeJSStringRune_roundtrip_witness:
  "DecodeJSStringRune (EncodeJSStringRune 0xD800 @ ''x'') = (0xD800, length (EncodeJSStringRune 0xD800))"
  by (rule DecodeJSStringRune_roundtrip) simp

text \<open>\<open>EncodeURI\<close> loses nothing: percent-decoding its result gives the string back byte for byte,
  and the result consists of the percent sign and of characters that need no escape.\<close>
theorem EncodeURI_roundtrip:
  "percent_decode (EncodeURI s) = s
   \<and> (\<forall>c. c \<in> set (EncodeURI s) \<longrightarrow> c = CHR ''%'' \<or> \<not> shouldEscapeForEncodeURI c)"
  using decode_encode_uri EncodeURI_plain by blast

theorem EncodeURI_roundtrip_witness: "percent_decode (EncodeURI ''a b%'') = ''a b%''"
  using EncodeURI_roundtrip [of "''a b%''"] by blast

end
