(* ===== verification/Visitor.thy ===== *)
theory Visitor
  imports Prelude
begin

text \<open>
  \<open>tsc/internal/ast/visitor.go\<close>: the visitor all emit transformers run on. A callback returns
  for a node \<open>nil\<close> (\<open>None\<close>), the node itself, another node, or a syntax list whose children are
  to be merged. The argument \<open>kids\<close> gives the children of a node of kind \<open>KindSyntaxList\<close> and
  \<open>None\<close> for every other node. Identity of nodes is equality here: where the code makes a new
  list because a callback returned an equal copy, the new list has the elements of the old one.
\<close>

record ('n, 'loc) NodeList =
  Nodes :: "'n list"
  Loc :: 'loc

text \<open>\<open>VisitSlice\<close>: the inner loop once a node has been replaced, then the outer loop.\<close>

definition merge_visited :: "('n \<Rightarrow> 'n list option) \<Rightarrow> 'n option \<Rightarrow> 'n list" where
  "merge_visited kids visited =
     (case visited of
        None \<Rightarrow> []
      | Some v \<Rightarrow> (case kids v of Some children \<Rightarrow> children | None \<Rightarrow> [v]))"

fun visit_rest :: "('n \<Rightarrow> 'n list option) \<Rightarrow> ('n \<Rightarrow> 'n option) \<Rightarrow> 'n list \<Rightarrow> 'n list \<Rightarrow> 'n list" where
  "visit_rest kids visit updated [] = updated"
| "visit_rest kids visit updated (node # nodes) =
     visit_rest kids visit (updated @ merge_visited kids (visit node)) nodes"

fun VisitSlice_loop ::
  "('n \<Rightarrow> 'n list option) \<Rightarrow> ('n \<Rightarrow> 'n option) \<Rightarrow> 'n list \<Rightarrow> 'n list \<Rightarrow> 'n list \<times> bool" where
  "VisitSlice_loop kids visit seen [] = (seen, False)"
| "VisitSlice_loop kids visit seen (node # nodes) =
     (let visited = visit node in
      if visited \<noteq> Some node
      then (visit_rest kids visit (seen @ merge_visited kids visited) nodes, True)
      else VisitSlice_loop kids visit (seen @ [node]) nodes)"

definition VisitSlice ::
  "('n \<Rightarrow> 'n list option) \<Rightarrow> ('n \<Rightarrow> 'n option) \<Rightarrow> 'n list \<Rightarrow> 'n list \<times> bool" where
  "VisitSlice kids visit nodes = VisitSlice_loop kids visit [] nodes"

definition VisitNodes ::
  "('n \<Rightarrow> 'n list option) \<Rightarrow> ('n \<Rightarrow> 'n option) \<Rightarrow> ('n, 'loc) NodeList option \<Rightarrow> ('n, 'loc) NodeList option" where
  "VisitNodes kids visit nodes =
     (case nodes of
        None \<Rightarrow> None
      | Some list \<Rightarrow>
          (case VisitSlice kids visit (Nodes list) of
             (result, changed) \<Rightarrow>
               if changed then Some \<lparr>Nodes = result, Loc = Loc list\<rparr> else Some list))"

text \<open>\<open>VisitNode\<close> panics (\<open>None\<close>) when a syntax list does not lift to one node.\<close>

definition VisitNode :: "('n \<Rightarrow> 'n list option) \<Rightarrow> ('n \<Rightarrow> 'n option) \<Rightarrow> 'n option \<Rightarrow> 'n option panics" where
  "VisitNode kids visit node =
     (case node of
        None \<Rightarrow> Some None
      | Some n \<Rightarrow>
          (case visit n of
             None \<Rightarrow> Some None
           | Some visited \<Rightarrow>
               (case kids visited of
                  None \<Rightarrow> Some (Some visited)
                | Some [child] \<Rightarrow> (if kids child \<noteq> None then None else Some (Some child))
                | Some _ \<Rightarrow> None)))"

lemma merge_visited_simps [simp]:
  "merge_visited kids None = []"
  "kids v = None \<Longrightarrow> merge_visited kids (Some v) = [v]"
  "kids v = Some children \<Longrightarrow> merge_visited kids (Some v) = children"
  by (simp_all add: merge_visited_def)

lemma visit_rest_eq:
  "visit_rest kids visit updated nodes = updated @ concat (map (\<lambda>n. merge_visited kids (visit n)) nodes)"
  by (induction nodes arbitrary: updated) simp_all

lemma VisitSlice_loop_fst:
  "\<forall>n\<in>set nodes. kids n = None \<Longrightarrow>
   fst (VisitSlice_loop kids visit seen nodes) = seen @ concat (map (\<lambda>n. merge_visited kids (visit n)) nodes)"
  by (induction nodes arbitrary: seen) (auto simp: Let_def visit_rest_eq)

lemma VisitSlice_loop_snd:
  "snd (VisitSlice_loop kids visit seen nodes) \<longleftrightarrow> (\<exists>n\<in>set nodes. visit n \<noteq> Some n)"
  by (induction nodes arbitrary: seen) (simp_all add: Let_def)

text \<open>The nodes of a list after the visit: every node replaced by what the callback gives.\<close>

definition visited_nodes :: "('n \<Rightarrow> 'n list option) \<Rightarrow> ('n \<Rightarrow> 'n option) \<Rightarrow> 'n list \<Rightarrow> 'n list" where
  "visited_nodes kids visit nodes = concat (map (\<lambda>n. merge_visited kids (visit n)) nodes)"

lemma visited_nodes_simps [simp]:
  "visited_nodes kids visit [] = []"
  "visited_nodes kids visit (n # ns) = merge_visited kids (visit n) @ visited_nodes kids visit ns"
  by (simp_all add: visited_nodes_def)

lemma VisitSlice_fst:
  "\<forall>n\<in>set nodes. kids n = None \<Longrightarrow> fst (VisitSlice kids visit nodes) = visited_nodes kids visit nodes"
  by (simp add: VisitSlice_def VisitSlice_loop_fst visited_nodes_def)

lemma VisitSlice_snd:
  "snd (VisitSlice kids visit nodes) \<longleftrightarrow> (\<exists>n\<in>set nodes. visit n \<noteq> Some n)"
  by (simp add: VisitSlice_def VisitSlice_loop_snd)

lemma VisitNodes_Nodes:
  assumes "\<forall>n\<in>set (Nodes l). kids n = None"
  shows "VisitNodes kids visit (Some l) = Some (l\<lparr>Nodes := visited_nodes kids visit (Nodes l)\<rparr>)"
proof (cases "VisitSlice kids visit (Nodes l)")
  case (Pair result c)
  have r: "result = visited_nodes kids visit (Nodes l)"
    using VisitSlice_fst [OF assms, of visit] Pair by simp
  show ?thesis
  proof (cases c)
    case False
    then have "\<forall>n\<in>set (Nodes l). visit n = Some n"
      using VisitSlice_snd [of kids visit "Nodes l"] Pair by simp
    then have "visited_nodes kids visit (Nodes l) = Nodes l"
      using assms unfolding visited_nodes_def
      by (induction "Nodes l" arbitrary: l) (auto simp: concat_map_singleton cong: map_cong)
    with Pair False show ?thesis by (simp add: VisitNodes_def)
  qed (use Pair r in \<open>simp add: VisitNodes_def\<close>)
qed

end
