(* ===== verification/Bouncer.thy ===== *)
theory Bouncer
  imports Config GoUnicode Visitor
begin

text \<open>
  \<open>tsc/internal/tscp/bouncer\<close>: the declaration-gating plugin. \<open>config.go\<close> (actions, release
  channels, profiles), \<open>tag.go\<close> (the \<open>@bouncer\<close> directive of a declaration) and
  \<open>transformer.go\<close> (what an action does to a top-level declaration in each emit pipeline).

  A statement is a value of \<open>'x node\<close>: the six kinds of declaration the plugin handles, with
  their modifiers and names, the two statements it makes, the syntax list, and any other
  statement; \<open>'x\<close> stands for the parts the plugin copies unread. A node's JSDoc comments are an
  argument (\<open>jsdoc_of\<close>), and so is the map to the parse tree (\<open>parse_node\<close>).
\<close>

section \<open>Configuration (config.go)\<close>

definition PluginName :: string where
  "PluginName = ''@conmoong/bouncer''"

datatype ActionKind =
    ActionNone | ActionRemove | ActionExport | ActionExportDefault | ActionExportAs
  | ActionRelease | ActionNoExport

record Action =
  Kind :: ActionKind
  Name :: string

definition plain_action :: "ActionKind \<Rightarrow> Action" where
  "plain_action k = \<lparr>Kind = k, Name = ''''\<rparr>"

definition releaseRank :: "string \<Rightarrow> int option" where
  "releaseRank = [''public'' \<mapsto> 0, ''beta'' \<mapsto> 1, ''alpha'' \<mapsto> 2, ''internal'' \<mapsto> 3]"

record Options =
  Profiles :: "string \<rightharpoonup> Action"
  ReleaseRank :: int

definition defaultOptions :: Options where
  "defaultOptions = \<lparr>Profiles = Map.empty, ReleaseRank = -1\<rparr>"

definition parseProfileAction :: "'n json \<Rightarrow> Action option" where
  "parseProfileAction value =
     (case as_string value of
        Some s \<Rightarrow>
          if s = ''remove'' then Some (plain_action ActionRemove)
          else if s = ''export'' then Some (plain_action ActionExport)
          else if s = ''no-export'' then Some (plain_action ActionNoExport)
          else if s = ''export-default'' then Some (plain_action ActionExportDefault)
          else None
      | None \<Rightarrow>
          (case Option.bind (ConfigGet value ''export-as'') as_string of
             Some (c # cs) \<Rightarrow> Some \<lparr>Kind = ActionExportAs, Name = c # cs\<rparr>
           | _ \<Rightarrow>
               (case Option.bind (ConfigGet value ''release'') as_string of
                  Some channel \<Rightarrow>
                    if releaseRank channel \<noteq> None
                    then Some \<lparr>Kind = ActionRelease, Name = channel\<rparr> else None
                | None \<Rightarrow> None)))"

definition OptionsFromConfig :: "'n json \<Rightarrow> Options option" where
  "OptionsFromConfig raw =
     (case FindPluginEntry raw PluginName of
        None \<Rightarrow> None
      | Some entry \<Rightarrow>
          let options = defaultOptions;
              options = (case Option.bind (Option.bind (ConfigGet entry ''release'') as_string) releaseRank of
                           Some rank \<Rightarrow> options\<lparr>ReleaseRank := rank\<rparr>
                         | None \<Rightarrow> options)
          in Some
            (case ConfigGet entry ''profiles'' of
               None \<Rightarrow> options
             | Some value \<Rightarrow>
                 ConfigEach value
                   (\<lambda>options name actionValue.
                      case parseProfileAction actionValue of
                        Some action \<Rightarrow> options\<lparr>Profiles := (Profiles options)(name \<mapsto> action)\<rparr>
                      | None \<Rightarrow> options)
                   (options\<lparr>Profiles := Map.empty\<rparr>)))"

section \<open>Directives (tag.go)\<close>

definition tagName :: string where
  "tagName = ''bouncer''"

text \<open>
  A tag's comment is a list of text and link parts; \<open>GetTextOfJSDocComment\<close> concatenates them
  and trims white space on the right.
\<close>

datatype comment_part = JSDocText string | JSDocLink string | OtherComment

datatype tag =
    JSDocUnknownTag "string option" "comment_part list option"
  | OtherTag

type_synonym jsdoc = "tag list option"

definition comment_text :: "comment_part \<Rightarrow> string" where
  "comment_text p = (case p of JSDocText s \<Rightarrow> s | JSDocLink s \<Rightarrow> s | OtherComment \<Rightarrow> '''')"

definition TrimRightSpace :: "string \<Rightarrow> string" where
  "TrimRightSpace s = concat (map snd (rev (dropWhile (\<lambda>(r, _). is_space r) (rev (rune_pieces s)))))"

definition GetTextOfJSDocComment :: "comment_part list option \<Rightarrow> string" where
  "GetTextOfJSDocComment comment =
     (case comment of
        None \<Rightarrow> ''''
      | Some nodes \<Rightarrow> TrimRightSpace (foldl (\<lambda>b n. b @ comment_text n) '''' nodes))"

definition parseDirective :: "string \<Rightarrow> Options \<Rightarrow> Action option" where
  "parseDirective txt options =
     (let fields = Fields txt in
      if length fields = 0 then None
      else if fields ! 0 = ''remove'' then
        if length fields = 1 then Some (plain_action ActionRemove) else None
      else if fields ! 0 = ''no-export'' then
        if length fields = 1 then Some (plain_action ActionNoExport) else None
      else if fields ! 0 = ''export'' then
        if length fields = 1 then Some (plain_action ActionExport)
        else if length fields = 2 then
          if fields ! 1 = ''default'' then Some (plain_action ActionExportDefault)
          else Some \<lparr>Kind = ActionExportAs, Name = fields ! 1\<rparr>
        else None
      else if fields ! 0 = ''release'' then
        if length fields = 2 then
          if releaseRank (fields ! 1) \<noteq> None
          then Some \<lparr>Kind = ActionRelease, Name = fields ! 1\<rparr> else None
        else None
      else if fields ! 0 = ''profile'' then
        if length fields = 2 then Profiles options (fields ! 1) else None
      else None)"

definition tag_step :: "Options \<Rightarrow> Action \<Rightarrow> tag \<Rightarrow> Action" where
  "tag_step options action t =
     (case t of
        OtherTag \<Rightarrow> action
      | JSDocUnknownTag name comment \<Rightarrow>
          if name = None \<or> name \<noteq> Some tagName then action
          else (case parseDirective (GetTextOfJSDocComment comment) options of
                  Some parsed \<Rightarrow> parsed
                | None \<Rightarrow> action))"

definition actionForNode :: "jsdoc list \<Rightarrow> Options \<Rightarrow> Action" where
  "actionForNode jsdocs options =
     foldl (\<lambda>action jsdoc. case jsdoc of None \<Rightarrow> action | Some tags \<Rightarrow> foldl (tag_step options) action tags)
       (plain_action ActionNone) jsdocs"

section \<open>The transformer (transformer.go)\<close>

datatype EmitKind = EmitKindScript | EmitKindDeclaration

datatype modifier = ExportKeyword | DefaultKeyword | OtherModifier string

text \<open>A modifier list has the flags of its modifiers (\<open>NewModifierList\<close>, \<open>ModifiersToFlags\<close>).\<close>

type_synonym modifiers = "modifier list option"

definition has_flag :: "modifier \<Rightarrow> modifiers \<Rightarrow> bool" where
  "has_flag flag ms = (case ms of None \<Rightarrow> False | Some nodes \<Rightarrow> flag \<in> set nodes)"

datatype binding_name = Identifier string | BindingPattern string

datatype 'x node =
    FunctionDeclaration modifiers "binding_name option" 'x
  | ClassDeclaration modifiers "binding_name option" 'x
  | VariableStatement modifiers "(binding_name \<times> 'x) list"
  | InterfaceDeclaration modifiers "binding_name option" 'x
  | TypeAliasDeclaration modifiers "binding_name option" 'x
  | EnumDeclaration modifiers "binding_name option" 'x
  | ExportAssignment string
  | ExportDeclaration string string
  | SyntaxList "'x node list"
  | OtherStatement 'x

fun syntax_list :: "'x node \<Rightarrow> 'x node list option" where
  "syntax_list (SyntaxList nodes) = Some nodes"
| "syntax_list _ = None"

fun Modifiers :: "'x node \<Rightarrow> modifiers" where
  "Modifiers (FunctionDeclaration m _ _) = m"
| "Modifiers (ClassDeclaration m _ _) = m"
| "Modifiers (VariableStatement m _) = m"
| "Modifiers (InterfaceDeclaration m _ _) = m"
| "Modifiers (TypeAliasDeclaration m _ _) = m"
| "Modifiers (EnumDeclaration m _ _) = m"
| "Modifiers _ = None"

definition identifier_text :: "binding_name option \<Rightarrow> string option" where
  "identifier_text name = (case name of Some (Identifier s) \<Rightarrow> Some s | _ \<Rightarrow> None)"

fun declarationName :: "'x node \<Rightarrow> string option" where
  "declarationName (FunctionDeclaration _ name _) = identifier_text name"
| "declarationName (ClassDeclaration _ name _) = identifier_text name"
| "declarationName (InterfaceDeclaration _ name _) = identifier_text name"
| "declarationName (TypeAliasDeclaration _ name _) = identifier_text name"
| "declarationName (EnumDeclaration _ name _) = identifier_text name"
| "declarationName (VariableStatement _ declarations) =
     (if length declarations \<noteq> 1 then None else identifier_text (Some (fst (declarations ! 0))))"
| "declarationName _ = None"

fun updateDeclarationModifiers :: "'x node \<Rightarrow> modifiers \<Rightarrow> 'x node" where
  "updateDeclarationModifiers (FunctionDeclaration _ name x) m = FunctionDeclaration m name x"
| "updateDeclarationModifiers (ClassDeclaration _ name x) m = ClassDeclaration m name x"
| "updateDeclarationModifiers (VariableStatement _ ds) m = VariableStatement m ds"
| "updateDeclarationModifiers (InterfaceDeclaration _ name x) m = InterfaceDeclaration m name x"
| "updateDeclarationModifiers (TypeAliasDeclaration _ name x) m = TypeAliasDeclaration m name x"
| "updateDeclarationModifiers (EnumDeclaration _ name x) m = EnumDeclaration m name x"
| "updateDeclarationModifiers node m = node"

definition rebuildModifiers :: "modifiers \<Rightarrow> bool \<Rightarrow> modifiers" where
  "rebuildModifiers ms want =
     (let existing = (case ms of None \<Rightarrow> [] | Some nodes \<Rightarrow> nodes);
          hasExport = has_flag ExportKeyword ms in
      if hasExport = want then ms
      else Some (if want then ExportKeyword # existing
                 else filter (\<lambda>m. m \<noteq> ExportKeyword \<and> m \<noteq> DefaultKeyword) existing))"

definition setExport :: "'x node \<Rightarrow> bool \<Rightarrow> 'x node" where
  "setExport node want =
     (let ms = Modifiers node in
      if has_flag DefaultKeyword ms then node
      else let newModifiers = rebuildModifiers ms want in
           if newModifiers = ms then node else updateDeclarationModifiers node newModifiers)"

definition appendExportStatement :: "'x node \<Rightarrow> (string \<Rightarrow> 'x node) \<Rightarrow> 'x node" where
  "appendExportStatement node makeStatement =
     (case declarationName node of
        None \<Rightarrow> node
      | Some name \<Rightarrow>
          let strippedModifiers = rebuildModifiers (Modifiers node) False;
              updated = updateDeclarationModifiers node strippedModifiers;
              statement = makeStatement name
          in SyntaxList [updated, statement])"

text \<open>\<open>releaseRank[action.Name]\<close> on a missing key is 0.\<close>

definition rank_of :: "string \<Rightarrow> int" where
  "rank_of level = (case releaseRank level of Some r \<Rightarrow> r | None \<Rightarrow> 0)"

record 'x tree =
  parse_node :: "'x node \<Rightarrow> 'x node option"
  jsdoc_of :: "'x node \<Rightarrow> jsdoc list"

definition apply_action :: "Options \<Rightarrow> EmitKind \<Rightarrow> Action \<Rightarrow> 'x node \<Rightarrow> 'x node option" where
  "apply_action options emitKind action node =
     (case Kind action of
        ActionRemove \<Rightarrow> None
      | ActionRelease \<Rightarrow>
          if emitKind = EmitKindDeclaration \<and> 0 \<le> ReleaseRank options
             \<and> ReleaseRank options < rank_of (Name action)
          then None else Some node
      | ActionExport \<Rightarrow> Some (setExport node True)
      | ActionNoExport \<Rightarrow>
          if emitKind = EmitKindDeclaration then None else Some (setExport node False)
      | ActionExportDefault \<Rightarrow> Some (appendExportStatement node (\<lambda>nameRef. ExportAssignment nameRef))
      | ActionExportAs \<Rightarrow>
          Some (appendExportStatement node (\<lambda>nameRef. ExportDeclaration nameRef (Name action)))
      | ActionNone \<Rightarrow> Some node)"

definition node_action :: "'x tree \<Rightarrow> Options \<Rightarrow> 'x node \<Rightarrow> Action" where
  "node_action T options node =
     (let original = (case parse_node T node of Some n \<Rightarrow> n | None \<Rightarrow> node)
      in actionForNode (jsdoc_of T original) options)"

definition apply_node :: "'x tree \<Rightarrow> Options \<Rightarrow> EmitKind \<Rightarrow> 'x node \<Rightarrow> 'x node option" where
  "apply_node T options emitKind node = apply_action options emitKind (node_action T options node) node"

fun visit_statement :: "'x tree \<Rightarrow> Options \<Rightarrow> EmitKind \<Rightarrow> 'x node \<Rightarrow> 'x node option" where
  "visit_statement T options emitKind (ExportAssignment s) = Some (ExportAssignment s)"
| "visit_statement T options emitKind (ExportDeclaration s s') = Some (ExportDeclaration s s')"
| "visit_statement T options emitKind (SyntaxList nodes) = Some (SyntaxList nodes)"
| "visit_statement T options emitKind (OtherStatement x) = Some (OtherStatement x)"
| "visit_statement T options emitKind node = apply_node T options emitKind node"

text \<open>The visit of a source file: its statements are visited and merged.\<close>

definition visit_file ::
  "'x tree \<Rightarrow> Options \<Rightarrow> EmitKind \<Rightarrow> ('x node, 'loc) NodeList option \<Rightarrow> ('x node, 'loc) NodeList option" where
  "visit_file T options emitKind statements =
     VisitNodes syntax_list (visit_statement T options emitKind) statements"

section \<open>Actions of a declaration\<close>

text \<open>What one tag asks for, if it is a \<open>@bouncer\<close> tag that can be parsed.\<close>

definition directive_of :: "Options \<Rightarrow> tag \<Rightarrow> Action option" where
  "directive_of options t =
     (case t of
        JSDocUnknownTag (Some name) comment \<Rightarrow>
          if name = tagName then parseDirective (GetTextOfJSDocComment comment) options else None
      | _ \<Rightarrow> None)"

definition last_or :: "'a \<Rightarrow> 'a list \<Rightarrow> 'a" where
  "last_or a xs = (if xs = [] then a else last xs)"

lemma last_or_simps [simp]:
  "last_or a [] = a"
  "last_or a (x # xs) = last_or x xs"
  by (simp_all add: last_or_def)

lemma last_or_append: "last_or a (xs @ ys) = last_or (last_or a xs) ys"
  by (induction xs arbitrary: a) simp_all

lemma tag_step_eq: "tag_step options action t = (case directive_of options t of Some a \<Rightarrow> a | None \<Rightarrow> action)"
  by (auto simp: tag_step_def directive_of_def split: tag.splits option.splits)

lemma tags_last:
  "foldl (tag_step options) action tags = last_or action (List.map_filter (directive_of options) tags)"
  by (induction tags arbitrary: action)
    (simp_all add: tag_step_eq map_filter_simps split: option.split)

definition all_tags :: "jsdoc list \<Rightarrow> tag list" where
  "all_tags jsdocs = concat (map (\<lambda>d. case d of None \<Rightarrow> [] | Some tags \<Rightarrow> tags) jsdocs)"

lemma map_filter_append: "List.map_filter f (xs @ ys) = List.map_filter f xs @ List.map_filter f ys"
  by (simp add: List.map_filter_def)

lemma jsdocs_last:
  "foldl (\<lambda>action jsdoc. case jsdoc of None \<Rightarrow> action | Some tags \<Rightarrow> foldl (tag_step options) action tags) action jsdocs
   = last_or action (List.map_filter (directive_of options) (all_tags jsdocs))"
  by (induction jsdocs arbitrary: action)
    (simp_all add: all_tags_def tags_last map_filter_append last_or_append map_filter_simps split: option.split)

text \<open>
  the action of a declaration is the one of the last of its tags, over all its comments, that
  is a \<open>@bouncer\<close> tag with a directive that parses; it is \<open>ActionNone\<close> when there is none. In
  particular a tag that does not parse, or another plugin's tag, never undoes an earlier one.
\<close>

theorem actionForNode_last_parsed_wins:
  "actionForNode jsdocs options =
     (let parsed = List.map_filter (directive_of options) (all_tags jsdocs)
      in if parsed = [] then plain_action ActionNone else last parsed)"
  by (simp add: actionForNode_def jsdocs_last last_or_def Let_def)

section \<open>The grammar of directives\<close>

inductive directive :: "Options \<Rightarrow> string list \<Rightarrow> Action \<Rightarrow> bool" for options where
  d_remove: "directive options [''remove''] (plain_action ActionRemove)"
| d_no_export: "directive options [''no-export''] (plain_action ActionNoExport)"
| d_export: "directive options [''export''] (plain_action ActionExport)"
| d_default: "directive options [''export'', ''default''] (plain_action ActionExportDefault)"
| d_export_as: "n \<noteq> ''default'' \<Longrightarrow> directive options [''export'', n] \<lparr>Kind = ActionExportAs, Name = n\<rparr>"
| d_release: "releaseRank l \<noteq> None \<Longrightarrow> directive options [''release'', l] \<lparr>Kind = ActionRelease, Name = l\<rparr>"
| d_profile: "Profiles options p = Some a \<Longrightarrow> directive options [''profile'', p] a"

inductive_cases directiveE: "directive options ws a"

lemma parseDirective_directive: "directive options (Fields txt) a \<Longrightarrow> parseDirective txt options = Some a"
  by (erule directiveE) (simp_all add: parseDirective_def Let_def)

lemma directive_parseDirective:
  assumes "parseDirective txt options = Some a"
  shows "directive options (Fields txt) a"
proof (cases "Fields txt")
  case Nil
  then show ?thesis using assms by (simp add: parseDirective_def)
next
  case (Cons w ws)
  note F = this
  show ?thesis
  proof (cases ws)
    case Nil
    then show ?thesis using assms F
      by (simp add: parseDirective_def Let_def split: if_splits) (auto intro: directive.intros)
  next
    case (Cons v vs)
    then have "vs = []" using assms F by (simp add: parseDirective_def Let_def split: if_splits)
    then show ?thesis using assms F Cons
      by (simp add: parseDirective_def Let_def split: if_splits) (auto intro: directive.intros)
  qed
qed

lemma fields_of_word:
  "\<forall>c\<in>set w. word_char c \<Longrightarrow> fields_of (rune_pieces (w @ s)) v = fields_of (rune_pieces s) (v @ w)"
  by (induction w arbitrary: v) (simp_all add: rune_pieces_ascii word_char_def)

lemma fields_of_blank: "fields_of (rune_pieces (CHR '' '' # s)) v = (if v = [] then Fields s else v # Fields s)"
  by (simp add: rune_pieces_ascii is_space_def Fields_def)

lemma Fields_join:
  assumes "\<forall>w\<in>set ws. is_word w"
  shows "Fields (str_join ws '' '') = ws"
  using assms
proof (induction ws rule: induct_list012)
  case 1
  show ?case by (simp add: Fields_def)
next
  case (2 w)
  then show ?case using fields_of_word [of w "[]" "[]"] by (simp add: Fields_def is_word_def)
next
  case (3 w v ws)
  then have "fields_of (rune_pieces (w @ CHR '' '' # str_join (v # ws) '' '')) []
      = fields_of (rune_pieces (CHR '' '' # str_join (v # ws) '' '')) w"
    using fields_of_word [of w _ "[]"] by (simp add: is_word_def)
  with 3 show ?case by (simp add: Fields_def [of "w @ _"] fields_of_blank is_word_def)
qed

text \<open>The text of the directive that asks for an action, and the actions that have one.\<close>

definition directive_words :: "Action \<Rightarrow> string list" where
  "directive_words a =
     (case Kind a of
        ActionRemove \<Rightarrow> [''remove'']
      | ActionExport \<Rightarrow> [''export'']
      | ActionNoExport \<Rightarrow> [''no-export'']
      | ActionExportDefault \<Rightarrow> [''export'', ''default'']
      | ActionExportAs \<Rightarrow> [''export'', Name a]
      | ActionRelease \<Rightarrow> [''release'', Name a]
      | ActionNone \<Rightarrow> [])"

definition direct_action :: "Action \<Rightarrow> bool" where
  "direct_action a =
     (case Kind a of
        ActionNone \<Rightarrow> False
      | ActionExportAs \<Rightarrow> is_word (Name a) \<and> Name a \<noteq> ''default''
      | ActionRelease \<Rightarrow> releaseRank (Name a) \<noteq> None
      | _ \<Rightarrow> Name a = '''')"

lemma release_word: "releaseRank l \<noteq> None \<Longrightarrow> is_word l"
  by (auto simp: releaseRank_def is_word_def word_char_def is_space_def split: if_splits)

lemma plain_action_sel [simp]: "Kind (plain_action k) = k" "Name (plain_action k) = ''''"
  by (simp_all add: plain_action_def)

lemma directive_words_directive:
  assumes "direct_action a"
  shows "directive options (directive_words a) a"
proof (cases a)
  case (fields k n)
  with assms show ?thesis
    by (cases k)
      (auto simp: direct_action_def directive_words_def plain_action_def
        intro: directive.intros [unfolded plain_action_def])
qed

lemma directive_words_words: "direct_action a \<Longrightarrow> \<forall>w\<in>set (directive_words a). is_word w"
  by (cases "Kind a")
    (auto simp: direct_action_def directive_words_def release_word, simp_all add: is_word_def word_char_def is_space_def)

text \<open>
  directives round trip. The words of an action, joined by blanks, parse back to that action
  whatever the profiles are; and whatever text parses to an action is, split at white space, the
  words of that action or the name of a profile that stands for it.
\<close>

theorem parseDirective_roundtrip:
  "(direct_action a \<longrightarrow> parseDirective (str_join (directive_words a) '' '') options = Some a)
   \<and> (parseDirective txt options = Some a \<longrightarrow>
        (Fields txt = directive_words a \<and> Kind a \<noteq> ActionNone
         \<or> (\<exists>p. Fields txt = [''profile'', p] \<and> Profiles options p = Some a)))"
proof
  show "direct_action a \<longrightarrow> parseDirective (str_join (directive_words a) '' '') options = Some a"
    using Fields_join [OF directive_words_words, of a] directive_words_directive [of a options]
    by (auto intro: parseDirective_directive)
  show "parseDirective txt options = Some a \<longrightarrow>
        (Fields txt = directive_words a \<and> Kind a \<noteq> ActionNone
         \<or> (\<exists>p. Fields txt = [''profile'', p] \<and> Profiles options p = Some a))"
    by (auto dest!: directive_parseDirective elim!: directiveE simp: directive_words_def plain_action_def)
qed

theorem parseDirective_roundtrip_witness:
  "parseDirective ''export renamed'' defaultOptions = Some \<lparr>Kind = ActionExportAs, Name = ''renamed''\<rparr>
   \<and> Fields ''  remove'' = [''remove'']"
proof
  let ?a = "\<lparr>Kind = ActionExportAs, Name = ''renamed''\<rparr>"
  have "direct_action ?a" by (simp add: direct_action_def is_word_def word_char_def is_space_def)
  then show "parseDirective ''export renamed'' defaultOptions = Some ?a"
    using conjunct1 [OF parseDirective_roundtrip [of ?a defaultOptions "''''"]]
    by (simp add: directive_words_def)
  have "parseDirective ''  remove'' defaultOptions = Some (plain_action ActionRemove)"
    by (simp add: parseDirective_def Fields_def rune_pieces_ascii is_space_def Let_def)
  then show "Fields ''  remove'' = [''remove'']"
    using parseDirective_roundtrip [of "plain_action ActionRemove" defaultOptions "''  remove''"]
    by (auto simp: directive_words_def defaultOptions_def)
qed

section \<open>What a transformed file declares and exports\<close>

definition binding_text :: "binding_name \<Rightarrow> string" where
  "binding_text b = (case b of Identifier s \<Rightarrow> s | BindingPattern s \<Rightarrow> s)"

text \<open>The local names a statement binds.\<close>

fun declared :: "'x node \<Rightarrow> string list" where
  "declared (FunctionDeclaration _ name _) = (case name of None \<Rightarrow> [] | Some b \<Rightarrow> [binding_text b])"
| "declared (ClassDeclaration _ name _) = (case name of None \<Rightarrow> [] | Some b \<Rightarrow> [binding_text b])"
| "declared (InterfaceDeclaration _ name _) = (case name of None \<Rightarrow> [] | Some b \<Rightarrow> [binding_text b])"
| "declared (TypeAliasDeclaration _ name _) = (case name of None \<Rightarrow> [] | Some b \<Rightarrow> [binding_text b])"
| "declared (EnumDeclaration _ name _) = (case name of None \<Rightarrow> [] | Some b \<Rightarrow> [binding_text b])"
| "declared (VariableStatement _ ds) = map (\<lambda>d. binding_text (fst d)) ds"
| "declared _ = []"

text \<open>The exports of a statement: external name and local names.\<close>

definition exported_by :: "modifiers \<Rightarrow> string list \<Rightarrow> (string \<times> string list) list" where
  "exported_by ms ns =
     (if \<not> has_flag ExportKeyword ms then []
      else if has_flag DefaultKeyword ms then [(''default'', ns)]
      else map (\<lambda>n. (n, [n])) ns)"

fun exports :: "'x node \<Rightarrow> (string \<times> string list) list" where
  "exports (ExportAssignment n) = [(''default'', [n])]"
| "exports (ExportDeclaration n m) = [(m, [n])]"
| "exports (SyntaxList _) = []"
| "exports (OtherStatement _) = []"
| "exports node = exported_by (Modifiers node) (declared node)"

definition is_declaration :: "'x node \<Rightarrow> bool" where
  "is_declaration node \<longleftrightarrow>
     (case node of ExportAssignment _ \<Rightarrow> False | ExportDeclaration _ _ \<Rightarrow> False | SyntaxList _ \<Rightarrow> False
      | OtherStatement _ \<Rightarrow> False | _ \<Rightarrow> True)"

text \<open>Whether an action omits a declaration from a pipeline's output.\<close>

definition omitted :: "Options \<Rightarrow> EmitKind \<Rightarrow> Action \<Rightarrow> bool" where
  "omitted options emitKind a \<longleftrightarrow>
     Kind a = ActionRemove
     \<or> emitKind = EmitKindDeclaration \<and>
        (Kind a = ActionNoExport
         \<or> Kind a = ActionRelease \<and> 0 \<le> ReleaseRank options \<and> ReleaseRank options < rank_of (Name a))"

text \<open>The exports an action asks for.\<close>

definition gated_exports :: "Action \<Rightarrow> 'x node \<Rightarrow> (string \<times> string list) list" where
  "gated_exports a node =
     (let own = exports node; is_default = has_flag DefaultKeyword (Modifiers node) in
      case Kind a of
        ActionExport \<Rightarrow> if is_default then own else map (\<lambda>n. (n, [n])) (declared node)
      | ActionNoExport \<Rightarrow> if is_default then own else []
      | ActionExportDefault \<Rightarrow>
          (case declarationName node of None \<Rightarrow> own | Some n \<Rightarrow> [(''default'', [n])])
      | ActionExportAs \<Rightarrow> (case declarationName node of None \<Rightarrow> own | Some n \<Rightarrow> [(Name a, [n])])
      | _ \<Rightarrow> own)"

lemma update_modifiers [simp]:
  assumes "is_declaration node"
  shows "Modifiers (updateDeclarationModifiers node m) = m"
    and "declared (updateDeclarationModifiers node m) = declared node"
    and "exports (updateDeclarationModifiers node m) = exported_by m (declared node)"
    and "syntax_list (updateDeclarationModifiers node m) = None"
  using assms by (cases node; simp add: is_declaration_def)+

lemma declaration_exports: "is_declaration node \<Longrightarrow> exports node = exported_by (Modifiers node) (declared node)"
  by (cases node) (simp_all add: is_declaration_def)

lemma declaration_plain [simp]: "is_declaration node \<Longrightarrow> syntax_list node = None"
  by (cases node) (simp_all add: is_declaration_def)

lemma rebuild_flags:
  "has_flag ExportKeyword (rebuildModifiers ms want) \<longleftrightarrow> want"
  "has_flag DefaultKeyword (rebuildModifiers ms True) = has_flag DefaultKeyword ms"
  by (auto simp: rebuildModifiers_def has_flag_def Let_def split: option.splits)

lemma exported_by_rebuild:
  "exported_by (rebuildModifiers ms False) ns = []"
  "\<not> has_flag DefaultKeyword ms \<Longrightarrow> exported_by (rebuildModifiers ms True) ns = map (\<lambda>n. (n, [n])) ns"
  by (simp_all add: exported_by_def rebuild_flags)

lemma setExport_surface:
  assumes "is_declaration node"
  shows "declared (setExport node want) = declared node"
    and "syntax_list (setExport node want) = None"
    and "exports (setExport node want) =
      (if has_flag DefaultKeyword (Modifiers node) then exports node
       else if want then map (\<lambda>n. (n, [n])) (declared node) else [])"
proof -
  have e: "setExport node want =
      (if has_flag DefaultKeyword (Modifiers node) \<or> rebuildModifiers (Modifiers node) want = Modifiers node
       then node else updateDeclarationModifiers node (rebuildModifiers (Modifiers node) want))"
    by (simp add: setExport_def Let_def)
  show "declared (setExport node want) = declared node" "syntax_list (setExport node want) = None"
    using assms by (simp_all add: e)
  show "exports (setExport node want) =
      (if has_flag DefaultKeyword (Modifiers node) then exports node
       else if want then map (\<lambda>n. (n, [n])) (declared node) else [])"
    using assms exported_by_rebuild [of "Modifiers node" "declared node"]
    unfolding e declaration_exports [OF assms]
    by (cases want; cases "rebuildModifiers (Modifiers node) want = Modifiers node")
      (simp_all add: declaration_exports)
qed

abbreviation output_of :: "'x node option \<Rightarrow> 'x node list" where
  "output_of v \<equiv> merge_visited syntax_list v"

lemma apply_action_surface:
  assumes "is_declaration node"
  shows "concat (map declared (output_of (apply_action options emitKind a node)))
      = (if omitted options emitKind a then [] else declared node)"
    and "concat (map exports (output_of (apply_action options emitKind a node)))
      = (if omitted options emitKind a then [] else gated_exports a node)"
  using assms setExport_surface [OF assms]
  by (cases "Kind a"; cases "declarationName node";
      simp add: apply_action_def omitted_def gated_exports_def Let_def appendExportStatement_def
        exported_by_rebuild)+

lemma visit_statement_declaration:
  "is_declaration node \<Longrightarrow> visit_statement T options emitKind node = apply_node T options emitKind node"
  by (cases node) (simp_all add: is_declaration_def)

lemma visit_statement_other:
  "\<not> is_declaration node \<Longrightarrow> visit_statement T options emitKind node = Some node"
  by (cases node) (simp_all add: is_declaration_def)

definition no_syntax_list :: "'x node list \<Rightarrow> bool" where
  "no_syntax_list nodes \<longleftrightarrow> (\<forall>n\<in>set nodes. syntax_list n = None)"

lemma no_syntax_list_simps [simp]:
  "no_syntax_list []"
  "no_syntax_list (n # ns) \<longleftrightarrow> syntax_list n = None \<and> no_syntax_list ns"
  by (auto simp: no_syntax_list_def)

definition kept :: "'x tree \<Rightarrow> Options \<Rightarrow> EmitKind \<Rightarrow> 'x node \<Rightarrow> bool" where
  "kept T options emitKind n \<longleftrightarrow> \<not> is_declaration n \<or> \<not> omitted options emitKind (node_action T options n)"

lemma visited_surface:
  assumes "no_syntax_list nodes"
  shows "concat (map declared (visited_nodes syntax_list (visit_statement T options emitKind) nodes))
      = concat (map declared (filter (kept T options emitKind) nodes))"
    and "concat (map exports (visited_nodes syntax_list (visit_statement T options emitKind) nodes))
      = concat (map (\<lambda>n. if is_declaration n then gated_exports (node_action T options n) n else exports n)
          (filter (kept T options emitKind) nodes))"
  using assms
proof (induction nodes)
  case (Cons n nodes)
  { case 1 with Cons show ?case
      by (cases "is_declaration n")
        (simp_all add: visit_statement_declaration visit_statement_other apply_node_def kept_def apply_action_surface) }
  { case 2 with Cons show ?case
      by (cases "is_declaration n")
        (simp_all add: visit_statement_declaration visit_statement_other apply_node_def kept_def apply_action_surface) }
qed simp_all


definition sample_tree :: "unit tree" where
  "sample_tree =
     \<lparr>parse_node = (\<lambda>_. None),
      jsdoc_of = (\<lambda>n. case n of
         FunctionDeclaration _ _ _ \<Rightarrow>
           [Some [JSDocUnknownTag (Some ''bouncer'') (Some [JSDocText ''export  renamed ''])]]
       | ClassDeclaration _ _ _ \<Rightarrow>
           [None, Some [OtherTag, JSDocUnknownTag (Some ''bouncer'') (Some [JSDocText ''release beta''])]]
       | _ \<Rightarrow> [])\<rparr>"

definition sample_statements :: "(unit node, unit) NodeList" where
  "sample_statements =
     \<lparr>Nodes =
        [FunctionDeclaration (Some [ExportKeyword]) (Some (Identifier ''f'')) (),
         ClassDeclaration (Some [ExportKeyword]) (Some (Identifier ''c'')) ()],
      Loc = ()\<rparr>"

lemma sample_actions:
  "node_action sample_tree o1 (FunctionDeclaration m n x) = \<lparr>Kind = ActionExportAs, Name = ''renamed''\<rparr>"
  "node_action sample_tree o1 (ClassDeclaration m n x) = \<lparr>Kind = ActionRelease, Name = ''beta''\<rparr>"
  by (simp_all add: node_action_def sample_tree_def actionForNode_def tag_step_def tagName_def
      GetTextOfJSDocComment_def TrimRightSpace_def comment_text_def rune_pieces_ascii is_space_def
      parseDirective_def Let_def Fields_def releaseRank_def)


lemma parseDirective_channel [simp]: "parseDirective txt (o1\<lparr>ReleaseRank := r\<rparr>) = parseDirective txt o1"
proof -
  have "Profiles (o1\<lparr>ReleaseRank := r\<rparr>) = Profiles o1" by simp
  then show ?thesis unfolding parseDirective_def by (rule arg_cong)
qed

lemma tag_step_channel [simp]: "tag_step (o1\<lparr>ReleaseRank := r\<rparr>) = tag_step o1"
  unfolding tag_step_def parseDirective_channel by simp

lemma node_action_channel [simp]: "node_action T (o1\<lparr>ReleaseRank := r\<rparr>) n = node_action T o1 n"
  by (simp add: node_action_def actionForNode_def)

text \<open>A statement in declaration output, over the channels.\<close>

lemma visit_channel:
  "visit_statement T (o1\<lparr>ReleaseRank := r\<rparr>) EmitKindDeclaration n =
     (if is_declaration n \<and> Kind (node_action T o1 n) = ActionRelease
         \<and> 0 \<le> r \<and> r < rank_of (Name (node_action T o1 n))
      then None else visit_statement T (o1\<lparr>ReleaseRank := -1\<rparr>) EmitKindDeclaration n)"
  by (cases "is_declaration n"; cases "Kind (node_action T o1 n)")
    (simp_all add: visit_statement_declaration visit_statement_other apply_node_def apply_action_def)

lemma visit_script:
  "visit_statement T (o1\<lparr>ReleaseRank := r\<rparr>) EmitKindScript n
     = visit_statement T (o1\<lparr>ReleaseRank := r'\<rparr>) EmitKindScript n"
  by (cases "is_declaration n"; cases "Kind (node_action T o1 n)")
    (simp_all add: visit_statement_declaration visit_statement_other apply_node_def apply_action_def)

lemma visited_subseq:
  assumes "\<And>n. v n = None \<or> v n = w n"
  shows "subseq (visited_nodes kids v nodes) (visited_nodes kids w nodes)"
proof (induction nodes)
  case (Cons n nodes)
  have "subseq (merge_visited kids (v n)) (merge_visited kids (w n))"
    using assms [of n] by (metis list_emb_Nil merge_visited_simps(1) subseq_order.order_refl)
  with Cons show ?case by (simp add: list_emb_append_mono)
qed simp

text \<open>
  release channels. In declaration output a build for a more experimental channel keeps every
  statement a more stable build keeps, in order, and no build loses a statement when the channel is
  not configured; the JavaScript output does not depend on the channel at all.
\<close>

theorem release_channels_nested:
  assumes "0 \<le> r" "r \<le> r'"
  shows "subseq (visited_nodes syntax_list (visit_statement T (o1\<lparr>ReleaseRank := r\<rparr>) EmitKindDeclaration) nodes)
          (visited_nodes syntax_list (visit_statement T (o1\<lparr>ReleaseRank := r'\<rparr>) EmitKindDeclaration) nodes)
    \<and> subseq (visited_nodes syntax_list (visit_statement T (o1\<lparr>ReleaseRank := r'\<rparr>) EmitKindDeclaration) nodes)
          (visited_nodes syntax_list (visit_statement T (o1\<lparr>ReleaseRank := -1\<rparr>) EmitKindDeclaration) nodes)
    \<and> VisitSlice syntax_list (visit_statement T (o1\<lparr>ReleaseRank := r\<rparr>) EmitKindScript) nodes
        = VisitSlice syntax_list (visit_statement T (o1\<lparr>ReleaseRank := r'\<rparr>) EmitKindScript) nodes"
proof (intro conjI)
  show "subseq (visited_nodes syntax_list (visit_statement T (o1\<lparr>ReleaseRank := r\<rparr>) EmitKindDeclaration) nodes)
          (visited_nodes syntax_list (visit_statement T (o1\<lparr>ReleaseRank := r'\<rparr>) EmitKindDeclaration) nodes)"
    by (rule visited_subseq, unfold visit_channel [of T r] visit_channel [of T r']) (use assms in auto)
  show "subseq (visited_nodes syntax_list (visit_statement T (o1\<lparr>ReleaseRank := r'\<rparr>) EmitKindDeclaration) nodes)
          (visited_nodes syntax_list (visit_statement T (o1\<lparr>ReleaseRank := -1\<rparr>) EmitKindDeclaration) nodes)"
    by (rule visited_subseq, unfold visit_channel [of T r']) auto
  show "VisitSlice syntax_list (visit_statement T (o1\<lparr>ReleaseRank := r\<rparr>) EmitKindScript) nodes
        = VisitSlice syntax_list (visit_statement T (o1\<lparr>ReleaseRank := r'\<rparr>) EmitKindScript) nodes"
    by (rule arg_cong [where f = "\<lambda>v. VisitSlice syntax_list v nodes"], rule ext, rule visit_script)
qed

theorem release_channels_nested_witness:
  "subseq (visited_nodes syntax_list (visit_statement sample_tree (defaultOptions\<lparr>ReleaseRank := 0\<rparr>) EmitKindDeclaration)
             (Nodes sample_statements))
     (visited_nodes syntax_list (visit_statement sample_tree (defaultOptions\<lparr>ReleaseRank := 1\<rparr>) EmitKindDeclaration)
             (Nodes sample_statements))
   \<and> length (visited_nodes syntax_list (visit_statement sample_tree (defaultOptions\<lparr>ReleaseRank := 0\<rparr>) EmitKindDeclaration)
             (Nodes sample_statements)) = 2
   \<and> length (visited_nodes syntax_list (visit_statement sample_tree (defaultOptions\<lparr>ReleaseRank := 1\<rparr>) EmitKindDeclaration)
             (Nodes sample_statements)) = 3"
proof (intro conjI)
  show "subseq (visited_nodes syntax_list (visit_statement sample_tree (defaultOptions\<lparr>ReleaseRank := 0\<rparr>) EmitKindDeclaration)
             (Nodes sample_statements))
     (visited_nodes syntax_list (visit_statement sample_tree (defaultOptions\<lparr>ReleaseRank := 1\<rparr>) EmitKindDeclaration)
             (Nodes sample_statements))"
    by (rule release_channels_nested [THEN conjunct1]) simp_all
qed (simp_all add: sample_statements_def apply_node_def sample_actions apply_action_def rank_of_def releaseRank_def
      appendExportStatement_def identifier_text_def)

end
