(* ===== verification/ParisConfig.thy ===== *)
theory ParisConfig
  imports Config GoUnicode PathAbs "HOL-Library.List_Lexorder" "HOL-Library.Char_ord" "HOL-Library.Multiset"
begin

text \<open>
  \<open>tsc/internal/tscp/paris/config.go\<close>: the variables a build defines. \<open>'n\<close> is \<open>float64\<close>. What the
  configuration reads from outside is a record: the environment, the files, and the JSON parser
  of the standard library. Error messages are values of \<open>config_error\<close>, one constructor per
  message of the source, with the arguments of the message.
\<close>

definition PluginName :: string where
  "PluginName = ''@conmoong/paris''"

text \<open>A configured value (\<open>Value\<close>), by its kind.\<close>

datatype 'n Value =
    KindString string
  | KindNumber 'n
  | KindBool bool
  | KindJSON "'n json"
  | KindBytes string bool

datatype 'n config_error =
    NeedsValueOrFrom string
  | NameNotString string
  | UnknownSource string "'n json"
  | NeedsPath string
  | TypeNotString string
  | CannotReadFile string string
  | NotValidJSON string string
  | UnknownFileType string string
  | WildcardNeedsFrom string
  | WildcardSource string "'n json"
  | PathNotString string
  | CannotReadDotEnv string string
  | InvalidDotEnv string string nat

record 'n outside =
  LookupEnv :: "string \<Rightarrow> string option"
  Environ :: "string list"
  ReadFile :: "string \<Rightarrow> string + string"
  Unmarshal :: "string \<Rightarrow> string + 'n json"

record 'n Options =
  Values :: "string \<rightharpoonup> 'n Value"
  ConfigErrors :: "'n config_error list"

definition addError :: "'n Options \<Rightarrow> 'n config_error \<Rightarrow> 'n Options" where
  "addError o1 e = o1\<lparr>ConfigErrors := ConfigErrors o1 @ [e]\<rparr>"

definition set_value :: "'n Options \<Rightarrow> string \<Rightarrow> 'n Value \<Rightarrow> 'n Options" where
  "set_value o1 name v = o1\<lparr>Values := (Values o1)(name \<mapsto> v)\<rparr>"

definition classify :: "'n json \<Rightarrow> 'n Value" where
  "classify v =
     (case v of
        JStr s \<Rightarrow> KindString s
      | JNum n \<Rightarrow> KindNumber n
      | JBool b \<Rightarrow> KindBool b
      | _ \<Rightarrow> KindJSON v)"

definition resolvePath :: "string \<Rightarrow> string \<Rightarrow> string" where
  "resolvePath configDir path =
     (if IsRootedDiskPath path then path else CombinePaths configDir [path])"

section \<open>.env files\<close>

text \<open>Quotes around a value are dropped when they match.\<close>

definition unquote_value :: "string \<Rightarrow> string" where
  "unquote_value value =
     (if 2 \<le> length value
         \<and> (value ! 0 = CHR 0x22 \<and> value ! (length value - 1) = CHR 0x22
            \<or> value ! 0 = CHR 0x27 \<and> value ! (length value - 1) = CHR 0x27)
      then take (length value - 2) (drop 1 value) else value)"

datatype env_line = Skipped | Entry string string | NotKeyValue

definition parse_env_line :: "string \<Rightarrow> env_line" where
  "parse_env_line line0 =
     (let line = TrimSpace (TrimSuffix line0 [CHR 0x0D]) in
      if line = '''' \<or> HasPrefix line ''#'' then Skipped
      else
        let line = TrimPrefix line ''export '' in
        case str_cut line ''='' of
          (key, value, found) \<Rightarrow>
            let key = TrimSpace key in
            if \<not> found \<or> key = '''' then NotKeyValue
            else Entry key (unquote_value (TrimSpace value)))"

text \<open>The result is the number of the first bad line, or the entries.\<close>

fun parse_env_lines :: "nat \<Rightarrow> string list \<Rightarrow> (string \<rightharpoonup> string) \<Rightarrow> nat + (string \<rightharpoonup> string)" where
  "parse_env_lines i [] entries = Inr entries"
| "parse_env_lines i (line # lines) entries =
     (case parse_env_line line of
        Skipped \<Rightarrow> parse_env_lines (i + 1) lines entries
      | NotKeyValue \<Rightarrow> Inl (i + 1)
      | Entry key value \<Rightarrow> parse_env_lines (i + 1) lines (entries(key \<mapsto> value)))"

definition parseDotEnv :: "string \<Rightarrow> nat + (string \<rightharpoonup> string)" where
  "parseDotEnv content = parse_env_lines 0 (split_byte (CHR 0x0A) content) Map.empty"

definition loadDotEnv ::
  "'n outside \<Rightarrow> 'n Options \<Rightarrow> string \<Rightarrow> 'n json \<Rightarrow> string \<Rightarrow> 'n Options \<times> (string \<rightharpoonup> string) option" where
  "loadDotEnv W o1 name spec configDir =
     (let read = (\<lambda>path.
            case ReadFile W (resolvePath configDir path) of
              Inl err \<Rightarrow> (addError o1 (CannotReadDotEnv name err), None)
            | Inr content \<Rightarrow>
                (case parseDotEnv content of
                   Inl line \<Rightarrow> (addError o1 (InvalidDotEnv name path line), None)
                 | Inr entries \<Rightarrow> (o1, Some entries)))
      in case ConfigGet spec ''path'' of
           None \<Rightarrow> read ''.env''
         | Some pathValue \<Rightarrow>
             (case as_string pathValue of
                None \<Rightarrow> (addError o1 (PathNotString name), None)
              | Some s \<Rightarrow> read (if s \<noteq> '''' then s else ''.env'')))"

section \<open>Definitions\<close>

definition resolveFile :: "'n outside \<Rightarrow> 'n Options \<Rightarrow> string \<Rightarrow> 'n json \<Rightarrow> string \<Rightarrow> 'n Options" where
  "resolveFile W o1 name spec configDir =
     (case Option.bind (ConfigGet spec ''path'') as_string of
        None \<Rightarrow> addError o1 (NeedsPath name)
      | Some path \<Rightarrow>
          if path = '''' then addError o1 (NeedsPath name)
          else
            let fileType = (case ConfigGet spec ''type'' of
                              None \<Rightarrow> Some ''string''
                            | Some typeValue \<Rightarrow> as_string typeValue)
            in case fileType of
                 None \<Rightarrow> addError o1 (TypeNotString name)
               | Some fileType \<Rightarrow>
                   (case ReadFile W (resolvePath configDir path) of
                      Inl err \<Rightarrow> addError o1 (CannotReadFile name err)
                    | Inr content \<Rightarrow>
                        if fileType = ''string'' then set_value o1 name (KindString content)
                        else if fileType = ''uint8array'' then set_value o1 name (KindBytes content False)
                        else if fileType = ''buffer'' then set_value o1 name (KindBytes content True)
                        else if fileType = ''json'' then
                          (case Unmarshal W content of
                             Inl err \<Rightarrow> addError o1 (NotValidJSON name err)
                           | Inr parsed \<Rightarrow> set_value o1 name (classify parsed))
                        else addError o1 (UnknownFileType name fileType)))"

text \<open>The optional \<open>"name"\<close> of an entry: \<open>None\<close> when it is not a non-empty string.\<close>

definition name_override :: "string \<Rightarrow> 'n json \<Rightarrow> string option" where
  "name_override name spec =
     (case ConfigGet spec ''name'' of
        None \<Rightarrow> Some name
      | Some override \<Rightarrow>
          (case as_string override of
             Some s \<Rightarrow> if s \<noteq> '''' then Some s else None
           | None \<Rightarrow> None))"

definition resolveExact :: "'n outside \<Rightarrow> 'n Options \<Rightarrow> string \<Rightarrow> 'n json \<Rightarrow> string \<Rightarrow> 'n Options" where
  "resolveExact W o1 name spec configDir =
     (if (case spec of JStr _ \<Rightarrow> True | JNum _ \<Rightarrow> True | JBool _ \<Rightarrow> True | _ \<Rightarrow> False)
      then set_value o1 name (classify spec)
      else case ConfigGet spec ''value'' of
        Some literal \<Rightarrow> set_value o1 name (classify literal)
      | None \<Rightarrow>
          (case ConfigGet spec ''from'' of
             None \<Rightarrow> addError o1 (NeedsValueOrFrom name)
           | Some from1 \<Rightarrow>
               if as_string from1 = Some ''env'' then
                 (case name_override name spec of
                    None \<Rightarrow> addError o1 (NameNotString name)
                  | Some envName \<Rightarrow>
                      (case LookupEnv W envName of
                         Some value \<Rightarrow> set_value o1 name (KindString value)
                       | None \<Rightarrow> o1))
               else if as_string from1 = Some ''file'' then resolveFile W o1 name spec configDir
               else if as_string from1 = Some ''dot_env'' then
                 (case loadDotEnv W o1 name spec configDir of
                    (o2, None) \<Rightarrow> o2
                  | (o2, Some entries) \<Rightarrow>
                      (case name_override name spec of
                         None \<Rightarrow> addError o2 (NameNotString name)
                       | Some key \<Rightarrow>
                           (case entries key of
                              Some value \<Rightarrow> set_value o2 name (KindString value)
                            | None \<Rightarrow> o2)))
               else addError o1 (UnknownSource name from1)))"

definition environ_entries :: "string list \<Rightarrow> (string \<rightharpoonup> string)" where
  "environ_entries pairs =
     foldl (\<lambda>entries pair. case str_cut pair ''='' of
                            (key, value, found) \<Rightarrow> if found then entries(key \<mapsto> value) else entries)
       Map.empty pairs"

text \<open>
  The loop over the entries of a map sets a different name in each iteration, so its order does
  not matter and the result is written as one update.
\<close>

definition import_entries :: "'n Options \<Rightarrow> string \<Rightarrow> (string \<rightharpoonup> string) \<Rightarrow> 'n Options" where
  "import_entries o1 pattern entries =
     (let prefix = TrimSuffix pattern ''*''
      in o1\<lparr>Values := Values o1 ++
           (\<lambda>key. if HasPrefix key prefix then map_option KindString (entries key) else None)\<rparr>)"

definition resolveWildcard :: "'n outside \<Rightarrow> 'n Options \<Rightarrow> string \<Rightarrow> 'n json \<Rightarrow> string \<Rightarrow> 'n Options" where
  "resolveWildcard W o1 pattern spec configDir =
     (case ConfigGet spec ''from'' of
        None \<Rightarrow> addError o1 (WildcardNeedsFrom pattern)
      | Some from1 \<Rightarrow>
          if as_string from1 = Some ''env'' then import_entries o1 pattern (environ_entries (Environ W))
          else if as_string from1 = Some ''dot_env'' then
            (case loadDotEnv W o1 pattern spec configDir of
               (o2, None) \<Rightarrow> o2
             | (o2, Some entries) \<Rightarrow> import_entries o2 pattern entries)
          else addError o1 (WildcardSource pattern from1))"

text \<open>The three lists of definitions: \<open>"*"\<close>, names ending in a star, and other names.\<close>

definition sort_definition ::
  "(string \<times> 'v) list \<times> (string \<times> 'v) list \<times> (string \<times> 'v) list \<Rightarrow> string \<Rightarrow> 'v \<Rightarrow>
   (string \<times> 'v) list \<times> (string \<times> 'v) list \<times> (string \<times> 'v) list" where
  "sort_definition st name spec =
     (case st of (star, partials, exacts) \<Rightarrow>
        if name = ''*'' then (star @ [(name, spec)], partials, exacts)
        else if HasSuffix name ''*'' then (star, partials @ [(name, spec)], exacts)
        else (star, partials, exacts @ [(name, spec)]))"

text \<open>\<open>sort.Slice\<close> by name; names are distinct, so any sort gives the same list.\<close>

definition byName :: "(string \<times> 'v) list \<Rightarrow> (string \<times> 'v) list" where
  "byName definitions = sort_key fst definitions"

definition OptionsFromConfig :: "'n outside \<Rightarrow> 'n json \<Rightarrow> string \<Rightarrow> 'n Options option" where
  "OptionsFromConfig W raw configDir =
     (case FindPluginEntry raw PluginName of
        None \<Rightarrow> None
      | Some entry \<Rightarrow>
          let options = \<lparr>Values = Map.empty, ConfigErrors = []\<rparr> in
          (case ConfigGet entry ''define'' of
             None \<Rightarrow> Some options
           | Some defineRaw \<Rightarrow>
               (case ConfigEach defineRaw sort_definition ([], [], []) of
                  (star, partials, exacts) \<Rightarrow>
                    let options = foldl (\<lambda>o1 (name, spec). resolveWildcard W o1 name spec configDir) options
                                    (byName star @ byName partials)
                    in Some (foldl (\<lambda>o1 (name, spec). resolveExact W o1 name spec configDir) options
                               (byName exacts)))))"

section \<open>Writing and reading .env files\<close>

text \<open>A line that defines a variable, with the value quoted.\<close>

definition env_name :: "string \<Rightarrow> bool" where
  "env_name k \<longleftrightarrow> is_word k \<and> hd k \<noteq> CHR ''#'' \<and> CHR ''='' \<notin> set k"

definition render_entry :: "string \<times> string \<Rightarrow> string" where
  "render_entry e = fst e @ ''='' @ [CHR 0x22] @ snd e @ [CHR 0x22]"

lemma quote_word_char: "word_char (CHR 0x22)"
  by (simp add: word_char_def is_space_def)

lemma env_name_no_export: "env_name k \<Longrightarrow> \<not> HasPrefix (k @ CHR ''='' # s) ''export ''"
proof
  assume k: "env_name k" and h: "HasPrefix (k @ CHR ''='' # s) ''export ''"
  have ns: "CHR '' '' \<notin> set k" using k by (auto simp: env_name_def is_word_def word_char_def is_space_def)
  have "length ''export '' = 7" by simp
  then have t: "take 7 (k @ CHR ''='' # s) = ''export ''" using h unfolding HasPrefix_def by argo
  have "take 7 (k @ CHR ''='' # s) ! 6 = CHR '' ''" using t by simp
  then have a: "(k @ CHR ''='' # s) ! 6 = CHR '' ''" by (subst (asm) nth_take) simp_all
  show False
  proof (cases "6 < length k")
    case True
    with a ns show False by (metis nth_append nth_mem)
  next
    case False
    have "CHR ''='' \<in> set (take 7 (k @ CHR ''='' # s))" using False by (auto simp: take_Cons')
    with t show False by simp
  qed
qed

lemma parse_env_line_render:
  assumes "env_name k"
  shows "parse_env_line (render_entry (k, v)) = Entry k v"
proof -
  obtain c k' where k: "k = c # k'" using assms by (cases k) (auto simp: env_name_def is_word_def)
  have c: "word_char c" using assms k by (simp add: env_name_def is_word_def)
  let ?line = "render_entry (k, v)"
  have l: "?line = c # (k' @ CHR ''='' # CHR 0x22 # v) @ [CHR 0x22]" by (simp add: render_entry_def k)
  have "\<not> HasSuffix ?line [CHR 0x0D]" by (simp add: render_entry_def HasSuffix_def)
  then have trim: "TrimSpace (TrimSuffix ?line [CHR 0x0D]) = ?line"
    unfolding TrimSuffix_def by (simp add: l TrimSpace_bracketed [OF c quote_word_char, of "k' @ CHR ''='' # CHR 0x22 # v", simplified])
  have ne: "?line \<noteq> ''''" "\<not> HasPrefix ?line ''#''"
    unfolding l using assms k by (simp_all add: HasPrefix_def env_name_def)
  have exp: "TrimPrefix ?line ''export '' = ?line"
    using env_name_no_export [OF assms] by (simp add: TrimPrefix_def render_entry_def)
  have idx: "index_byte (k @ CHR ''='' # s) (CHR ''='') = Some (length k)" if "CHR ''='' \<notin> set k" for s :: string and k
    using that by (induction k) auto
  have cut: "str_cut ?line ''='' = (k, [CHR 0x22] @ v @ [CHR 0x22], True)"
    using idx [of k] assms by (simp add: str_cut_def str_index_byte render_entry_def env_name_def)
  have key: "TrimSpace k = k" "k \<noteq> ''''" using assms by (auto simp: env_name_def TrimSpace_word is_word_def)
  have val: "unquote_value (TrimSpace ([CHR 0x22] @ v @ [CHR 0x22])) = v"
    using TrimSpace_bracketed [OF quote_word_char quote_word_char, of v]
    by (simp add: unquote_value_def nth_append)
  show ?thesis
    unfolding parse_env_line_def Let_def trim exp cut prod.case key val using ne key by simp
qed

lemma parse_env_lines_render:
  "\<forall>e\<in>set es. env_name (fst e) \<Longrightarrow>
   parse_env_lines i (map render_entry es) m = Inr (m ++ map_of (rev es))"
proof (induction es arbitrary: i m)
  case (Cons e es)
  then show ?case using parse_env_line_render [of "fst e" "snd e"]
    by (simp add: map_add_upd_left fun_eq_iff map_add_def split: option.split)
qed simp

text \<open>
  .env files round trip. A file with one \<open>NAME="value"\<close> line per entry is read back as those
  entries, the last one of a name winning, for any values without a line feed (white space, quotes,
  comment signs and malformed UTF-8 included).
\<close>

theorem parseDotEnv_roundtrip:
  assumes "\<forall>e\<in>set es. env_name (fst e) \<and> CHR 0x0A \<notin> set (snd e)" and "es \<noteq> []"
  shows "parseDotEnv (str_join (map render_entry es) [CHR 0x0A]) = Inr (map_of (rev es))"
proof -
  have "CHR 0x0A \<notin> set (render_entry e)" if "e \<in> set es" for e
  proof -
    have "\<not> word_char (CHR 0x0A)" by (simp add: word_char_def is_space_def)
    then have "CHR 0x0A \<notin> set (fst e)" using assms(1) that by (auto simp: env_name_def is_word_def)
    with assms(1) that show ?thesis by (auto simp: render_entry_def)
  qed
  then have "split_byte (CHR 0x0A) (str_join (map render_entry es) [CHR 0x0A]) = map render_entry es"
    using assms(2) by (intro split_byte_join) auto
  then show ?thesis
    using parse_env_lines_render [of es 0 Map.empty] assms(1) by (simp add: parseDotEnv_def)
qed

theorem parseDotEnv_roundtrip_witness:
  "parseDotEnv (str_join (map render_entry [(''A'', ''# 1''), (''B'', ''''), (''A'', ''2'')]) [CHR 0x0A])
     = Inr [''B'' \<mapsto> '''', ''A'' \<mapsto> ''2'']"
proof -
  have "parseDotEnv (str_join (map render_entry [(''A'', ''# 1''), (''B'', ''''), (''A'', ''2'')]) [CHR 0x0A])
     = Inr (map_of (rev [(''A'', ''# 1''), (''B'', ''''), (''A'', ''2'')]))"
    by (rule parseDotEnv_roundtrip) (simp_all add: env_name_def is_word_def word_char_def is_space_def)
  then show ?thesis by (simp add: fun_eq_iff)
qed

section \<open>What one definition contributes\<close>

text \<open>The errors of a definition and the values it sets do not depend on what was set before.\<close>

definition contribute ::
  "'n Options \<Rightarrow> 'n config_error list \<times> (string \<rightharpoonup> 'n Value) \<Rightarrow> 'n Options" where
  "contribute o1 c = o1\<lparr>Values := Values o1 ++ snd c, ConfigErrors := ConfigErrors o1 @ fst c\<rparr>"

definition no_options :: "'n Options" where
  "no_options = \<lparr>Values = Map.empty, ConfigErrors = []\<rparr>"

definition contribution :: "'n Options \<Rightarrow> 'n config_error list \<times> (string \<rightharpoonup> 'n Value)" where
  "contribution o1 = (ConfigErrors o1, Values o1)"

lemma contribute_addError: "addError o1 e = contribute o1 (contribution (addError no_options e))"
  by (simp add: addError_def contribute_def contribution_def no_options_def)

lemma contribute_set_value: "set_value o1 n v = contribute o1 (contribution (set_value no_options n v))"
  by (simp add: set_value_def contribute_def contribution_def no_options_def)

lemma contribute_none: "o1 = contribute o1 (contribution no_options)"
  by (simp add: contribute_def contribution_def no_options_def)

lemma contribute_import:
  "import_entries o1 p es = contribute o1 (contribution (import_entries no_options p es))"
  by (simp add: import_entries_def contribute_def contribution_def no_options_def Let_def)

lemmas contributes = contribute_addError contribute_set_value contribute_import

lemma loadDotEnv_cases:
  obtains (Loaded) entries where "\<And>o1. loadDotEnv W o1 name spec dir = (o1, Some entries)"
  | (Failed) e where "\<And>o1. loadDotEnv W o1 name spec dir = (addError o1 e, None)"
proof -
  have read: "(\<exists>entries. \<forall>o1. (case ReadFile W (resolvePath dir path) of
            Inl err \<Rightarrow> (addError o1 (CannotReadDotEnv name err), None)
          | Inr content \<Rightarrow>
              (case parseDotEnv content of
                 Inl line \<Rightarrow> (addError o1 (InvalidDotEnv name path line), None)
               | Inr entries \<Rightarrow> (o1, Some entries))) = (o1, Some entries))
      \<or> (\<exists>e. \<forall>o1. (case ReadFile W (resolvePath dir path) of
            Inl err \<Rightarrow> (addError o1 (CannotReadDotEnv name err), None)
          | Inr content \<Rightarrow>
              (case parseDotEnv content of
                 Inl line \<Rightarrow> (addError o1 (InvalidDotEnv name path line), None)
               | Inr entries \<Rightarrow> (o1, Some entries))) = (addError o1 e, None))" for path
    by (cases "ReadFile W (resolvePath dir path)"; cases "parseDotEnv (projr (ReadFile W (resolvePath dir path)))") auto
  show ?thesis
  proof (cases "ConfigGet spec ''path''")
    case None
    then show ?thesis using read [of "''.env''"] Loaded Failed by (auto simp: loadDotEnv_def Let_def)
  next
    case (Some pv)
    show ?thesis
    proof (cases "as_string pv")
      case None
      with Some show ?thesis using Failed by (simp add: loadDotEnv_def Let_def)
    next
      case (Some s)
      with \<open>ConfigGet spec ''path'' = Some pv\<close> show ?thesis
        using read [of "if s \<noteq> '''' then s else ''.env''"] Loaded Failed
        by (auto simp: loadDotEnv_def Let_def simp del: split_paired_All)
    qed
  qed
qed

lemma resolveWildcard_contributes:
  "resolveWildcard W o1 p spec dir = contribute o1 (contribution (resolveWildcard W no_options p spec dir))"
proof (cases "ConfigGet spec ''from''")
  case None
  then show ?thesis unfolding resolveWildcard_def by (simp add: contribute_addError [symmetric])
next
  case (Some f)
  show ?thesis
  proof (rule loadDotEnv_cases [of W p spec dir])
    fix entries assume "\<And>o1. loadDotEnv W o1 p spec dir = (o1, Some entries)"
    with Some show ?thesis
      unfolding resolveWildcard_def by (simp add: contributes [symmetric])
  next
    fix e assume "\<And>o1. loadDotEnv W o1 p spec dir = (addError o1 e, None)"
    with Some show ?thesis
      unfolding resolveWildcard_def by (simp add: contributes [symmetric])
  qed
qed

text \<open>An exact definition sets its name, or reports one error, or does nothing.\<close>

definition sets :: "('n Options \<Rightarrow> 'n Options) \<Rightarrow> string \<Rightarrow> 'n Value \<Rightarrow> bool" where
  "sets f name v \<longleftrightarrow> (\<forall>o1. f o1 = set_value o1 name v)"

definition fails :: "('n Options \<Rightarrow> 'n Options) \<Rightarrow> 'n config_error \<Rightarrow> bool" where
  "fails f e \<longleftrightarrow> (\<forall>o1. f o1 = addError o1 e)"

definition has_outcome :: "('n Options \<Rightarrow> 'n Options) \<Rightarrow> string \<Rightarrow> bool \<Rightarrow> bool" where
  "has_outcome f name absent \<longleftrightarrow>
     (\<exists>v. sets f name v) \<or> (\<exists>e. fails f e) \<or> (\<forall>o1. f o1 = o1) \<and> absent"

lemma has_outcome_intros [intro]:
  "has_outcome (\<lambda>o1. set_value o1 name v) name absent"
  "has_outcome (\<lambda>o1. addError o1 e) name absent"
  "absent \<Longrightarrow> has_outcome (\<lambda>o1. o1) name absent"
  by (auto simp: has_outcome_def sets_def fails_def)

lemma has_outcome_if:
  "has_outcome f name absent \<Longrightarrow> has_outcome g name absent \<Longrightarrow>
   has_outcome (\<lambda>o1. if b then f o1 else g o1) name absent"
  by (cases b) simp_all

lemma resolveFile_outcome: "has_outcome (\<lambda>o1. resolveFile W o1 name spec dir) name absent"
proof (cases "Option.bind (ConfigGet spec ''path'') as_string")
  case None
  then show ?thesis unfolding resolveFile_def by auto
next
  case (Some path)
  let ?t = "case ConfigGet spec ''type'' of None \<Rightarrow> Some ''string'' | Some typeValue \<Rightarrow> as_string typeValue"
  show ?thesis
  proof (cases "path = '''' \<or> ?t = None")
    case True
    with Some show ?thesis unfolding resolveFile_def Let_def by (cases "path = ''''") auto
  next
    case False
    then obtain t where t: "?t = Some t" by blast
    show ?thesis
    proof (cases "ReadFile W (resolvePath dir path)")
      case (Inl err)
      with False Some t show ?thesis unfolding resolveFile_def Let_def by (simp add: has_outcome_intros)
    next
      case (Inr content)
      have json: "has_outcome (\<lambda>o1. case Unmarshal W content of
            Inl err \<Rightarrow> addError o1 (NotValidJSON name err)
          | Inr parsed \<Rightarrow> set_value o1 name (classify parsed)) name absent"
        by (cases "Unmarshal W content") (simp_all add: has_outcome_intros)
      have "path \<noteq> ''''" using False by simp
      with Inr Some t show ?thesis
        unfolding resolveFile_def Let_def Some t option.case sum.case if_not_P [OF \<open>path \<noteq> ''''\<close>] Inr
        by (intro has_outcome_if has_outcome_intros json)
    qed
  qed
qed

text \<open>The entry names a variable that its source does not have.\<close>

definition missing_variable :: "'n outside \<Rightarrow> string \<Rightarrow> 'n json \<Rightarrow> string \<Rightarrow> bool" where
  "missing_variable W name spec dir \<longleftrightarrow>
     ConfigGet spec ''value'' = None
     \<and> (\<exists>from1 key. ConfigGet spec ''from'' = Some from1 \<and> name_override name spec = Some key
         \<and> (as_string from1 = Some ''env'' \<and> LookupEnv W key = None
            \<or> as_string from1 = Some ''dot_env''
               \<and> (\<exists>entries. loadDotEnv W no_options name spec dir = (no_options, Some entries)
                    \<and> entries key = None)))"

lemma resolveExact_outcome:
  "has_outcome (\<lambda>o1. resolveExact W o1 name spec dir) name (missing_variable W name spec dir)"
proof (cases "case spec of JStr _ \<Rightarrow> True | JNum _ \<Rightarrow> True | JBool _ \<Rightarrow> True | _ \<Rightarrow> False")
  case True
  then show ?thesis unfolding resolveExact_def by auto
next
  case not_literal: False
  note unfolds = resolveExact_def if_not_P [OF not_literal]
  show ?thesis
  proof (cases "ConfigGet spec ''value''")
    case (Some v)
    then show ?thesis unfolding unfolds by auto
  next
    case no_value: None
    show ?thesis
    proof (cases "ConfigGet spec ''from''")
      case None
      with no_value show ?thesis unfolding unfolds by auto
    next
      case (Some f)
      consider "as_string f = Some ''env''" | "as_string f = Some ''file''" | "as_string f = Some ''dot_env''"
        | "as_string f \<noteq> Some ''env''" "as_string f \<noteq> Some ''file''" "as_string f \<noteq> Some ''dot_env''"
        by blast
      then show ?thesis
      proof cases
        case 1
        with no_value Some show ?thesis unfolding unfolds
          by (cases "name_override name spec"; cases "LookupEnv W (the (name_override name spec))")
            (auto simp: missing_variable_def)
      next
        case 2
        with no_value Some show ?thesis unfolding unfolds by (simp add: resolveFile_outcome)
      next
        case 3
        show ?thesis
        proof (rule loadDotEnv_cases [of W name spec dir])
          fix entries assume "\<And>o1. loadDotEnv W o1 name spec dir = (o1, Some entries)"
          with 3 no_value Some show ?thesis unfolding unfolds
            by (cases "name_override name spec"; cases "entries (the (name_override name spec))")
              (auto simp: missing_variable_def)
        next
          fix e assume "\<And>o1. loadDotEnv W o1 name spec dir = (addError o1 e, None)"
          with 3 no_value Some show ?thesis unfolding unfolds by auto
        qed
      next
        case 4
        with no_value Some show ?thesis unfolding unfolds by auto
      qed
    qed
  qed
qed

lemma outcome_contributes:
  assumes "has_outcome f name absent"
  shows "f o1 = contribute o1 (contribution (f no_options))"
  using assms by (auto simp: has_outcome_def sets_def fails_def contributes [symmetric] contribute_none [symmetric])

lemmas resolveExact_contributes = outcome_contributes [OF resolveExact_outcome]

text \<open>
  definitions are never silently wrong. An exact definition either sets exactly its own name, or
  adds exactly one configuration error and sets nothing, or leaves the options as they are; and it
  does the last only when it names an environment variable, or a variable of a .env file that could be
  read, that does not exist.
\<close>

theorem resolveExact_explicit:
  "(\<exists>v. sets (\<lambda>o1. resolveExact W o1 name spec dir) name v)
   \<or> (\<exists>e. fails (\<lambda>o1. resolveExact W o1 name spec dir) e)
   \<or> (\<forall>o1. resolveExact W o1 name spec dir = o1) \<and> missing_variable W name spec dir"
  using resolveExact_outcome [of W name spec dir] by (simp add: has_outcome_def)

section \<open>Precedence\<close>

lemma contribute_contribute:
  "contribute (contribute o1 c) d = contribute o1 (fst c @ fst d, snd c ++ snd d)"
  by (simp add: contribute_def)

definition exact_of :: "'n outside \<Rightarrow> string \<Rightarrow> string \<times> 'n json \<Rightarrow> 'n config_error list \<times> (string \<rightharpoonup> 'n Value)" where
  "exact_of W dir d = contribution (resolveExact W no_options (fst d) (snd d) dir)"

definition wildcard_of :: "'n outside \<Rightarrow> string \<Rightarrow> string \<times> 'n json \<Rightarrow> 'n config_error list \<times> (string \<rightharpoonup> 'n Value)" where
  "wildcard_of W dir d = contribution (resolveWildcard W no_options (fst d) (snd d) dir)"

definition combined :: "('e list \<times> ('k \<rightharpoonup> 'v)) list \<Rightarrow> 'e list \<times> ('k \<rightharpoonup> 'v)" where
  "combined cs = (concat (map fst cs), foldl (++) Map.empty (map snd cs))"

lemma foldl_map_add: "foldl (++) m ms = m ++ foldl (++) Map.empty ms"
proof (induction ms arbitrary: m)
  case (Cons a ms)
  show ?case by (simp add: Cons [of "m ++ a"] Cons [of a])
qed simp

lemma combined_simps:
  "combined [] = ([], Map.empty)"
  "combined (c # cs) = (fst c @ fst (combined cs), snd c ++ snd (combined cs))"
  by (simp_all add: combined_def foldl_map_add [of "snd c"])

lemma combined_append:
  "combined (cs @ ds) = (fst (combined cs) @ fst (combined ds), snd (combined cs) ++ snd (combined ds))"
  by (induction cs) (simp_all add: combined_simps)

lemma foldl_contribute:
  assumes "\<And>o1 x. f o1 x = contribute o1 (c x)"
  shows "foldl f o1 xs = contribute o1 (combined (map c xs))"
proof (induction xs arbitrary: o1)
  case Nil
  show ?case by (simp add: contribute_def combined_simps)
next
  case (Cons x xs)
  have "foldl f o1 (x # xs) = foldl f (contribute o1 (c x)) xs" by (simp add: assms)
  also have "\<dots> = contribute (contribute o1 (c x)) (combined (map c xs))" by (rule Cons)
  finally show ?case by (simp add: contribute_contribute combined_simps)
qed

lemma foldl_map_add_lookup:
  "foldl (++) Map.empty ms k = (case List.find (\<lambda>m. m k \<noteq> None) (rev ms) of Some m \<Rightarrow> m k | None \<Rightarrow> None)"
proof (induction ms rule: rev_induct)
  case (snoc m ms)
  then show ?case by (cases "m k") (simp_all add: map_add_def)
qed simp

lemma sort_definition_filters:
  "foldl (\<lambda>s (key, entryValue). sort_definition s key entryValue) (st, ps, es) ds =
     (st @ filter (\<lambda>d. fst d = ''*'') ds,
      ps @ filter (\<lambda>d. fst d \<noteq> ''*'' \<and> HasSuffix (fst d) ''*'') ds,
      es @ filter (\<lambda>d. fst d \<noteq> ''*'' \<and> \<not> HasSuffix (fst d) ''*'') ds)"
  by (induction ds arbitrary: st ps es) (auto simp: sort_definition_def)

text \<open>The entries of an object, however it is stored.\<close>

definition entries_of :: "'n json \<Rightarrow> (string \<times> 'n json) list option" where
  "entries_of v = (case v of JObj es \<Rightarrow> Some es | JMap es \<Rightarrow> Some es | _ \<Rightarrow> None)"

definition wildcards :: "(string \<times> 'v) list \<Rightarrow> (string \<times> 'v) list" where
  "wildcards ds = byName (filter (\<lambda>d. fst d = ''*'') ds)
      @ byName (filter (\<lambda>d. fst d \<noteq> ''*'' \<and> HasSuffix (fst d) ''*'') ds)"

definition exact_definitions :: "(string \<times> 'v) list \<Rightarrow> (string \<times> 'v) list" where
  "exact_definitions ds = byName (filter (\<lambda>d. fst d \<noteq> ''*'' \<and> \<not> HasSuffix (fst d) ''*'') ds)"

text \<open>The options in terms of the contributions, in the order in which they are applied.\<close>

lemma OptionsFromConfig_entries:
  assumes "FindPluginEntry raw PluginName = Some entry"
    and "ConfigGet entry ''define'' = Some d" and "entries_of d = Some ds"
  shows "OptionsFromConfig W raw dir = Some (contribute no_options
      (combined (map (wildcard_of W dir) (wildcards ds) @ map (exact_of W dir) (exact_definitions ds))))"
proof -
  have w: "foldl (\<lambda>o1 (name, spec). resolveWildcard W o1 name spec dir) o1 xs
      = contribute o1 (combined (map (wildcard_of W dir) xs))" for o1 xs
    by (rule foldl_contribute) (simp add: wildcard_of_def split_beta, rule resolveWildcard_contributes)
  have e: "foldl (\<lambda>o1 (name, spec). resolveExact W o1 name spec dir) o1 xs
      = contribute o1 (combined (map (exact_of W dir) xs))" for o1 xs
    by (rule foldl_contribute) (simp add: exact_of_def split_beta, rule resolveExact_contributes)
  have each: "ConfigEach d sort_definition ([], [], []) =
      (filter (\<lambda>d. fst d = ''*'') ds,
       filter (\<lambda>d. fst d \<noteq> ''*'' \<and> HasSuffix (fst d) ''*'') ds,
       filter (\<lambda>d. fst d \<noteq> ''*'' \<and> \<not> HasSuffix (fst d) ''*'') ds)"
    using assms(3) sort_definition_filters [of "[]" "[]" "[]" ds]
    by (cases d) (simp_all add: entries_of_def ConfigEach_def)
  have "OptionsFromConfig W raw dir = Some (contribute (contribute no_options
      (combined (map (wildcard_of W dir) (wildcards ds)))) (combined (map (exact_of W dir) (exact_definitions ds))))"
    unfolding OptionsFromConfig_def assms option.case Let_def each prod.case w e
      wildcards_def exact_definitions_def no_options_def by (rule refl)
  then show ?thesis
    unfolding contribute_contribute combined_append .
qed

text \<open>Where the contributions are defined.\<close>

lemma exact_of_other: "k \<noteq> fst d \<Longrightarrow> snd (exact_of W dir d) k = None"
  using resolveExact_outcome [of W "fst d" "snd d" dir]
  by (auto simp: exact_of_def contribution_def has_outcome_def sets_def fails_def set_value_def
      addError_def no_options_def)

lemma wildcard_of_prefix:
  assumes "snd (wildcard_of W dir d) k = Some v"
  shows "HasPrefix k (TrimSuffix (fst d) ''*'') \<and> (\<exists>s. v = KindString s)"
proof -
  have import: "Values (import_entries no_options (fst d) es) k = Some v \<Longrightarrow> ?thesis" for es
    by (auto simp: import_entries_def no_options_def Let_def split: if_splits)
  show ?thesis
  proof (cases "ConfigGet (snd d) ''from''")
    case None
    with assms show ?thesis
      unfolding wildcard_of_def contribution_def resolveWildcard_def by (simp add: addError_def no_options_def)
  next
    case (Some f)
    show ?thesis
    proof (rule loadDotEnv_cases [of W "fst d" "snd d" dir])
      fix entries assume "\<And>o1. loadDotEnv W o1 (fst d) (snd d) dir = (o1, Some entries)"
      with Some assms import show ?thesis
        unfolding wildcard_of_def contribution_def resolveWildcard_def
        by (auto simp: addError_def no_options_def split: if_splits)
    next
      fix e assume "\<And>o1. loadDotEnv W o1 (fst d) (snd d) dir = (addError o1 e, None)"
      with Some assms import show ?thesis
        unfolding wildcard_of_def contribution_def resolveWildcard_def
        by (auto simp: addError_def no_options_def split: if_splits)
    qed
  qed
qed

lemma sort_key_same_entries:
  assumes "mset xs = mset ys" "distinct (map fst ys)"
  shows "byName (filter P xs) = byName (filter P ys)"
  unfolding byName_def
proof (rule sort_key_inj_key_eq)
  show "mset (filter P xs) = mset (sort_key fst (filter P ys))" using assms by (simp add: mset_filter)
  have "inj_on fst (set ys)" using assms(2) by (simp add: distinct_map)
  moreover have "set xs = set ys" using assms(1) by (metis set_mset_mset)
  ultimately show "inj_on fst (set (filter P xs))" by (auto simp: inj_on_def)
qed simp

text \<open>
  the build's variables and configuration errors do not depend on the order in which the
  entries of \<open>define\<close> are iterated, written order or that of a Go map: objects with the same
  entries under distinct names give the same options.
\<close>

theorem define_order_irrelevant:
  assumes "FindPluginEntry raw PluginName = Some entry" "ConfigGet entry ''define'' = Some d"
    and "FindPluginEntry raw' PluginName = Some entry'" "ConfigGet entry' ''define'' = Some d'"
    and "entries_of d = Some ds" "entries_of d' = Some ds'"
    and "mset ds = mset ds'" "distinct (map fst ds')"
  shows "OptionsFromConfig W raw dir = OptionsFromConfig W raw' dir"
proof -
  have "wildcards ds = wildcards ds'" "exact_definitions ds = exact_definitions ds'"
    unfolding wildcards_def exact_definitions_def using sort_key_same_entries [OF assms(7,8)] by simp_all
  then show ?thesis
    unfolding OptionsFromConfig_entries [OF assms(1,2,5)] OptionsFromConfig_entries [OF assms(3,4,6)] by simp
qed

lemma find_rev_map_add:
  "foldl (++) Map.empty ms k = None \<longleftrightarrow> (\<forall>m\<in>set ms. m k = None)"
  by (induction ms rule: rev_induct) (auto simp: map_add_None)

lemma foldl_map_add_last:
  assumes "foldl (++) Map.empty (map c ds) k = Some v"
  shows "\<exists>i<length ds. c (ds ! i) k = Some v \<and> (\<forall>j<length ds. i < j \<longrightarrow> c (ds ! j) k = None)"
  using assms
proof (induction ds rule: rev_induct)
  case (snoc d ds)
  show ?case
  proof (cases "c d k")
    case None
    with snoc obtain i where "i < length ds" "c (ds ! i) k = Some v" "\<forall>j<length ds. i < j \<longrightarrow> c (ds ! j) k = None"
      by (auto simp: map_add_def)
    with None show ?thesis by (intro exI [of _ i]) (auto simp: nth_append less_Suc_eq)
  next
    case (Some w)
    with snoc.prems have "w = v" by (simp add: map_add_def)
    with Some show ?thesis by (intro exI [of _ "length ds"]) (auto simp: nth_append)
  qed
qed simp

lemma wildcards_set: "set (wildcards ds) = {d \<in> set ds. HasSuffix (fst d) ''*''}"
  by (auto simp: wildcards_def byName_def HasSuffix_def)

lemma exact_definitions_set: "set (exact_definitions ds) = {d \<in> set ds. \<not> HasSuffix (fst d) ''*''}"
  by (auto simp: exact_definitions_def byName_def HasSuffix_def)

text \<open>The order of the wildcards: the star alone first, the others by name.\<close>

lemma wildcards_order:
  assumes "i < j" "j < length (wildcards ds)"
  shows "fst (wildcards ds ! i) = ''*'' \<or> fst (wildcards ds ! j) \<noteq> ''*'' \<and> fst (wildcards ds ! i) \<le> fst (wildcards ds ! j)"
proof -
  let ?s = "byName (filter (\<lambda>d. fst d = ''*'') ds)"
  let ?p = "byName (filter (\<lambda>d. fst d \<noteq> ''*'' \<and> HasSuffix (fst d) ''*'') ds)"
  have s: "\<forall>d\<in>set ?s. fst d = ''*''" and p: "\<forall>d\<in>set ?p. fst d \<noteq> ''*''" by (auto simp: byName_def)
  show ?thesis
  proof (cases "i < length ?s")
    case True
    then have "wildcards ds ! i \<in> set ?s" by (simp add: wildcards_def nth_append)
    with s show ?thesis by blast
  next
    case False
    with assms have l: "i - length ?s < j - length ?s" "j - length ?s < length ?p" by (auto simp: wildcards_def)
    have "sorted (map fst ?p)" by (simp add: byName_def)
    with l have "fst (?p ! (i - length ?s)) \<le> fst (?p ! (j - length ?s))"
      using sorted_nth_mono [of "map fst ?p" "i - length ?s" "j - length ?s"] by simp
    moreover have "wildcards ds ! i = ?p ! (i - length ?s)" "wildcards ds ! j = ?p ! (j - length ?s)"
      using False assms(1) by (simp_all add: wildcards_def nth_append)
    moreover have "fst (?p ! (j - length ?s)) \<noteq> ''*''"
      using p nth_mem [OF l(2)] by blast
    ultimately show ?thesis by metis
  qed
qed

text \<open>The value a name has according to its exact definition, if there is one.\<close>

definition exact_value :: "'n outside \<Rightarrow> string \<Rightarrow> (string \<times> 'n json) list \<Rightarrow> string \<Rightarrow> 'n Value option" where
  "exact_value W dir ds k =
     (if HasSuffix k ''*'' then None
      else case map_of ds k of Some spec \<Rightarrow> snd (exact_of W dir (k, spec)) k | None \<Rightarrow> None)"

text \<open>A wildcard is used for a name when no wildcard with the name defined comes after it.\<close>

definition strongest :: "'n outside \<Rightarrow> string \<Rightarrow> (string \<times> 'n json) list \<Rightarrow> string \<Rightarrow> string \<times> 'n json \<Rightarrow> bool" where
  "strongest W dir ds k d \<longleftrightarrow>
     d \<in> set ds \<and> HasSuffix (fst d) ''*'' \<and> snd (wildcard_of W dir d) k \<noteq> None
     \<and> (\<forall>d'\<in>set ds. HasSuffix (fst d') ''*'' \<and> snd (wildcard_of W dir d') k \<noteq> None \<longrightarrow>
          fst d' = ''*'' \<or> fst d \<noteq> ''*'' \<and> fst d' \<le> fst d)"

lemma exact_lookup:
  assumes "distinct (map fst ds)"
  shows "snd (combined (map (exact_of W dir) (exact_definitions ds))) k = exact_value W dir ds k"
proof (cases "exact_value W dir ds k")
  case None
  have "snd (exact_of W dir d) k = None" if "d \<in> set (exact_definitions ds)" for d
  proof (cases "k = fst d")
    case True
    with that have "map_of ds k = Some (snd d)" "\<not> HasSuffix k ''*''"
      using assms by (auto simp: exact_definitions_set map_of_eq_Some_iff [OF assms])
    with None True show ?thesis by (simp add: exact_value_def)
  qed (rule exact_of_other)
  then show ?thesis using None by (simp add: combined_def find_rev_map_add)
next
  case (Some v)
  then obtain spec where sp: "map_of ds k = Some spec" "snd (exact_of W dir (k, spec)) k = Some v" "\<not> HasSuffix k ''*''"
    by (auto simp: exact_value_def split: if_splits option.splits)
  then have mem: "(k, spec) \<in> set (exact_definitions ds)" by (simp add: exact_definitions_set map_of_SomeD)
  then have "foldl (++) Map.empty (map (\<lambda>d. snd (exact_of W dir d)) (exact_definitions ds)) k \<noteq> None"
    using sp find_rev_map_add [of "map (\<lambda>d. snd (exact_of W dir d)) (exact_definitions ds)" k] by force
  then obtain w where w: "foldl (++) Map.empty (map (\<lambda>d. snd (exact_of W dir d)) (exact_definitions ds)) k = Some w"
    by blast
  obtain i where i: "i < length (exact_definitions ds)" "snd (exact_of W dir (exact_definitions ds ! i)) k = Some w"
    using foldl_map_add_last [OF w] by blast
  then have "fst (exact_definitions ds ! i) = k" by (metis exact_of_other option.distinct(1))
  moreover have "exact_definitions ds ! i \<in> set ds" using nth_mem [OF i(1)] by (simp add: exact_definitions_set)
  ultimately have "exact_definitions ds ! i = (k, spec)"
    using sp(1) map_of_eq_Some_iff [OF assms] by (metis option.inject prod.collapse)
  with i sp w Some show ?thesis by (simp add: combined_def comp_def)
qed

text \<open>
  C7: precedence of definitions. An exact definition that yields a value decides it. Otherwise the
  value comes from the wildcard that is last in the order of names, \<open>"*"\<close> being the weakest, among
  those that supply the name; so it is also the value left when an exact definition names a missing
  environment variable. A name nothing supplies is undefined.
\<close>

theorem define_precedence:
  assumes "FindPluginEntry raw PluginName = Some entry" "ConfigGet entry ''define'' = Some d"
    and "entries_of d = Some ds" "distinct (map fst ds)"
    and "OptionsFromConfig W raw dir = Some options"
  shows "(case exact_value W dir ds k of
            Some v \<Rightarrow> Values options k = Some v
          | None \<Rightarrow>
              (case Values options k of
                 Some v \<Rightarrow> \<exists>d. strongest W dir ds k d \<and> snd (wildcard_of W dir d) k = Some v
               | None \<Rightarrow> \<forall>d. \<not> strongest W dir ds k d))"
proof -
  let ?w = "foldl (++) Map.empty (map (\<lambda>d. snd (wildcard_of W dir d)) (wildcards ds))"
  have V: "Values options = ?w ++ snd (combined (map (exact_of W dir) (exact_definitions ds)))"
    using assms(5) OptionsFromConfig_entries [OF assms(1-3), of W dir]
    by (auto simp: contribute_def no_options_def combined_append combined_def [of "map (wildcard_of W dir) _"] comp_def)
  show ?thesis
  proof (cases "exact_value W dir ds k")
    case (Some v)
    then show ?thesis using V exact_lookup [OF assms(4), of W dir k] by (simp add: map_add_def)
  next
    case None
    then have K: "Values options k = ?w k" using V exact_lookup [OF assms(4), of W dir k] by (simp add: map_add_def)
    show ?thesis
    proof (cases "?w k")
      case none: None
      then have "\<forall>d\<in>set (wildcards ds). snd (wildcard_of W dir d) k = None"
        by (simp add: find_rev_map_add)
      then show ?thesis using None none K by (auto simp: wildcards_set strongest_def)
    next
      case (Some v)
      obtain i where i: "i < length (wildcards ds)" "snd (wildcard_of W dir (wildcards ds ! i)) k = Some v"
        "\<forall>j<length (wildcards ds). i < j \<longrightarrow> snd (wildcard_of W dir (wildcards ds ! j)) k = None"
        using foldl_map_add_last [OF Some] by blast
      have "strongest W dir ds k (wildcards ds ! i)"
        unfolding strongest_def
      proof (intro conjI ballI impI)
        show "wildcards ds ! i \<in> set ds" "HasSuffix (fst (wildcards ds ! i)) ''*''"
          using nth_mem [OF i(1)] by (simp_all add: wildcards_set)
        show "snd (wildcard_of W dir (wildcards ds ! i)) k \<noteq> None" using i by simp
        fix d' assume d': "d' \<in> set ds" "HasSuffix (fst d') ''*'' \<and> snd (wildcard_of W dir d') k \<noteq> None"
        then have "d' \<in> set (wildcards ds)" by (simp add: wildcards_set)
        then obtain j where j: "j < length (wildcards ds)" "wildcards ds ! j = d'" by (auto simp: in_set_conv_nth)
        with d' i(3) have "j \<le> i" by (meson leI)
        then show "fst d' = ''*'' \<or> fst (wildcards ds ! i) \<noteq> ''*'' \<and> fst d' \<le> fst (wildcards ds ! i)"
          using wildcards_order [of j i ds] i(1) j by (cases "j = i") auto
      qed
      then have "\<exists>d. strongest W dir ds k d \<and> snd (wildcard_of W dir d) k = Some v" using i(2) by blast
      with None Some K show ?thesis by simp
    qed
  qed
qed

definition sample_defines :: "(string \<times> nat json) list" where
  "sample_defines =
     [(''A_*'', JObj [(''from'', JStr ''env'')]),
      (''A_X'', JObj [(''from'', JStr ''env''), (''name'', JStr ''NONE'')]),
      (''*'', JObj [(''from'', JStr ''dot_env'')])]"

definition sample_raw :: "(string \<times> nat json) list \<Rightarrow> nat json" where
  "sample_raw ds = JObj [(''compilerOptions'', JObj [(''plugins'', JArr [JObj [(''name'', JStr PluginName), (''define'', JObj ds)]])])]"

definition sample_outside :: "nat outside" where
  "sample_outside =
     \<lparr>LookupEnv = Map.empty, Environ = [''A_X=one''],
      ReadFile = (\<lambda>_. Inl ''no file''), Unmarshal = (\<lambda>_. Inl ''no parser'')\<rparr>"

lemma sample_raw_entries:
  "FindPluginEntry (sample_raw ds) PluginName = Some (JObj [(''name'', JStr PluginName), (''define'', JObj ds)])"
  "ConfigGet (JObj [(''name'', JStr PluginName), (''define'', JObj ds)]) ''define'' = Some (JObj ds)"
  by (simp_all add: sample_raw_def FindPluginEntry_def ConfigGet_def)

theorem define_order_irrelevant_witness:
  "OptionsFromConfig sample_outside (sample_raw sample_defines) ''/p''
     = OptionsFromConfig sample_outside (sample_raw (rev sample_defines)) ''/p''"
proof (rule define_order_irrelevant [OF sample_raw_entries sample_raw_entries])
  show "entries_of (JObj sample_defines) = Some sample_defines"
    "entries_of (JObj (rev sample_defines)) = Some (rev sample_defines)" by (simp_all add: entries_of_def)
  show "mset sample_defines = mset (rev sample_defines)" "distinct (map fst (rev sample_defines))"
    by (simp_all add: sample_defines_def)
qed

theorem define_precedence_witness:
  "\<exists>options. OptionsFromConfig sample_outside (sample_raw sample_defines) ''/p'' = Some options
     \<and> Values options ''A_X'' = Some (KindString ''one'')"
proof -
  obtain os where got: "OptionsFromConfig sample_outside (sample_raw sample_defines) ''/p'' = Some os"
    using OptionsFromConfig_entries [OF sample_raw_entries] by (simp add: entries_of_def)
  have e: "exact_value sample_outside ''/p'' sample_defines ''A_X'' = None"
    by (simp add: exact_value_def sample_defines_def exact_of_def resolveExact_def ConfigGet_def as_string_def
        name_override_def sample_outside_def contribution_def no_options_def HasSuffix_def)
  have env: "snd (wildcard_of sample_outside ''/p'' (''A_*'', JObj [(''from'', JStr ''env'')])) ''A_X''
      = Some (KindString ''one'')"
    by (simp add: wildcard_of_def resolveWildcard_def ConfigGet_def as_string_def import_entries_def
        environ_entries_def str_cut_def sample_outside_def contribution_def no_options_def HasPrefix_def TrimSuffix_def
        HasSuffix_def Let_def)
  have dotf: "snd (wildcard_of sample_outside ''/p'' (''*'', JObj [(''from'', JStr ''dot_env'')])) k = None" for k
    by (simp add: wildcard_of_def resolveWildcard_def ConfigGet_def as_string_def loadDotEnv_def
        sample_outside_def contribution_def no_options_def addError_def Let_def)
  have best: "strongest sample_outside ''/p'' sample_defines ''A_X'' (''A_*'', JObj [(''from'', JStr ''env'')])"
    using env dotf by (simp add: strongest_def sample_defines_def HasSuffix_def)
  have only: "strongest sample_outside ''/p'' sample_defines ''A_X'' d
      \<Longrightarrow> d = (''A_*'', JObj [(''from'', JStr ''env'')])" for d
    using dotf by (auto simp: strongest_def sample_defines_def HasSuffix_def)
  have ds: "entries_of (JObj sample_defines) = Some sample_defines" "distinct (map fst sample_defines)"
    by (simp_all add: entries_of_def sample_defines_def)
  note p = define_precedence [OF sample_raw_entries ds got, where k = "''A_X''", unfolded e option.case]
  have "Values os ''A_X'' = Some (KindString ''one'')"
  proof (cases "Values os ''A_X''")
    case None
    with p best show ?thesis by simp
  next
    case (Some v)
    with p obtain d where "strongest sample_outside ''/p'' sample_defines ''A_X'' d"
      "snd (wildcard_of sample_outside ''/p'' d) ''A_X'' = Some v" by auto
    with only env Some show ?thesis by metis
  qed
  with got show ?thesis by blast
qed

end
