(* ===== verification/ParisEval.thy ===== *)
theory ParisEval
  imports ParisConfig
begin

text \<open>
  \<open>tsc/internal/tscp/paris/eval.go\<close>: deciding a condition at build time, and \<open>paris.go\<close>: the
  plugin's diagnostics. The operations on \<open>float64\<close> (\<open>'n\<close>), \<open>strconv\<close> on them and
  \<open>regexp.Compile\<close> are a record; a compiled regular expression is its \<open>MatchString\<close>. An error is
  a value of \<open>eval_error\<close>, and a nil dereference a panic (\<open>None\<close>).
\<close>

datatype predicate =
    predIfDef | predIfNotDef | predIfEq | predIfNotEq | predIfMatch | predIfNotMatch
  | predIfGt | predIfGte | predIfLt | predIfLte | predIfTrue | predIfFalse
  | predIfTruthy | predIfNotTruthy | predValue

definition predicate_table :: "(string \<times> predicate) list" where
  "predicate_table =
     [(''ifDef'', predIfDef), (''ifNotDef'', predIfNotDef), (''ifEq'', predIfEq), (''ifNotEq'', predIfNotEq),
      (''ifMatch'', predIfMatch), (''ifNotMatch'', predIfNotMatch), (''ifGt'', predIfGt), (''ifGte'', predIfGte),
      (''ifLt'', predIfLt), (''ifLte'', predIfLte), (''ifTrue'', predIfTrue), (''ifFalse'', predIfFalse),
      (''ifTruthy'', predIfTruthy), (''ifNotTruthy'', predIfNotTruthy), (''value'', predValue)]"

definition predicateNames :: "string \<Rightarrow> predicate option" where
  "predicateNames = map_of predicate_table"

text \<open>\<open>name()\<close> searches the table, in which every predicate has one name.\<close>

definition predicate_name :: "predicate \<Rightarrow> string" where
  "predicate_name p = (case List.find (\<lambda>e. snd e = p) predicate_table of Some e \<Rightarrow> fst e | None \<Rightarrow> ''?'')"

definition argCount :: "predicate \<Rightarrow> nat" where
  "argCount p =
     (case p of
        predIfDef \<Rightarrow> 2 | predIfNotDef \<Rightarrow> 2 | predIfTrue \<Rightarrow> 2 | predIfFalse \<Rightarrow> 2
      | predIfTruthy \<Rightarrow> 2 | predIfNotTruthy \<Rightarrow> 2
      | predValue \<Rightarrow> 1
      | _ \<Rightarrow> 3)"

datatype 'n comparand = CompareString string | CompareNumber 'n | CompareBool bool

record 'n runtime =
  ParseFloat :: "string \<Rightarrow> 'n option"
  ParseInt :: "string \<Rightarrow> 'n option"
  FormatFloat :: "'n \<Rightarrow> string"
  float_less :: "'n \<Rightarrow> 'n \<Rightarrow> bool"
  float_eq :: "'n \<Rightarrow> 'n \<Rightarrow> bool"
  float_neg :: "'n \<Rightarrow> 'n"
  float_zero :: 'n
  RegexpCompile :: "string \<Rightarrow> string + (string \<Rightarrow> bool)"
  tables :: unicode_tables

datatype eval_error =
    VariableNotDefined predicate string
  | NotComparable string
  | StringNotNumber predicate string string
  | NotNumber predicate string
  | NotBoolean predicate string
  | NotScalar predicate string
  | NotString predicate string
  | UnhandledPredicate predicate

definition strictEquals :: "'n runtime \<Rightarrow> string \<Rightarrow> 'n Value \<Rightarrow> 'n comparand \<Rightarrow> eval_error + bool" where
  "strictEquals R varName v arg =
     (case v of
        KindString s \<Rightarrow> Inr (case arg of CompareString t \<Rightarrow> s = t | _ \<Rightarrow> False)
      | KindNumber n \<Rightarrow> Inr (case arg of CompareNumber m \<Rightarrow> float_eq R n m | _ \<Rightarrow> False)
      | KindBool b \<Rightarrow> Inr (case arg of CompareBool c \<Rightarrow> b = c | _ \<Rightarrow> False)
      | _ \<Rightarrow> Inl (NotComparable varName))"

definition asNumber :: "'n runtime \<Rightarrow> predicate \<Rightarrow> string \<Rightarrow> 'n Value \<Rightarrow> eval_error + 'n" where
  "asNumber R pred varName v =
     (case v of
        KindNumber n \<Rightarrow> Inr n
      | KindString s \<Rightarrow>
          (case ParseFloat R (TrimSpace s) of
             Some n \<Rightarrow> Inr n
           | None \<Rightarrow> Inl (StringNotNumber pred varName s))
      | _ \<Rightarrow> Inl (NotNumber pred varName))"

definition isTruthy :: "'n runtime \<Rightarrow> predicate \<Rightarrow> string \<Rightarrow> 'n Value \<Rightarrow> eval_error + bool" where
  "isTruthy R pred varName v =
     (case v of
        KindBool b \<Rightarrow> Inr b
      | KindNumber n \<Rightarrow> Inr (\<not> float_eq R n (float_zero R))
      | KindString s \<Rightarrow>
          let txt = TrimSpace s in
          (case ParseFloat R txt of
             Some n \<Rightarrow> Inr (\<not> float_eq R n (float_zero R))
           | None \<Rightarrow> Inr (ToLower (tables R) txt \<in> {''true'', ''on'', ''yes''}))
      | _ \<Rightarrow> Inl (NotScalar pred varName))"

text \<open>\<open>arg.num\<close> of a comparand that is not a number is the zero value.\<close>

definition comparand_num :: "'n runtime \<Rightarrow> 'n comparand \<Rightarrow> 'n" where
  "comparand_num R arg = (case arg of CompareNumber n \<Rightarrow> n | _ \<Rightarrow> float_zero R)"

definition compare_number :: "'n runtime \<Rightarrow> predicate \<Rightarrow> 'n \<Rightarrow> 'n \<Rightarrow> bool" where
  "compare_number R pred n m =
     (case pred of
        predIfGt \<Rightarrow> float_less R m n
      | predIfGte \<Rightarrow> float_less R m n \<or> float_eq R n m
      | predIfLt \<Rightarrow> float_less R n m
      | _ \<Rightarrow> float_less R n m \<or> float_eq R n m)"

definition evaluate_defined ::
  "'n runtime \<Rightarrow> predicate \<Rightarrow> string \<Rightarrow> 'n Value \<Rightarrow> 'n comparand option \<Rightarrow> (string \<Rightarrow> bool) option
   \<Rightarrow> (eval_error + bool) panics" where
  "evaluate_defined R pred varName v arg pattern =
     (if pred = predIfEq \<or> pred = predIfNotEq then
        (case v of
           KindJSON _ \<Rightarrow> Some (Inl (NotComparable varName))
         | KindBytes _ _ \<Rightarrow> Some (Inl (NotComparable varName))
         | _ \<Rightarrow>
           (case arg of
              None \<Rightarrow> None
            | Some a \<Rightarrow>
                (case strictEquals R varName v a of
                   Inl e \<Rightarrow> Some (Inl e)
                 | Inr equal \<Rightarrow> Some (Inr (equal = (pred = predIfEq))))))
      else if pred = predIfGt \<or> pred = predIfGte \<or> pred = predIfLt \<or> pred = predIfLte then
        (case asNumber R pred varName v of
           Inl e \<Rightarrow> Some (Inl e)
         | Inr number \<Rightarrow>
             (case arg of
                None \<Rightarrow> None
              | Some a \<Rightarrow> Some (Inr (compare_number R pred number (comparand_num R a)))))
      else if pred = predIfTrue \<or> pred = predIfFalse then
        (case v of
           KindBool b \<Rightarrow> Some (Inr (b = (pred = predIfTrue)))
         | _ \<Rightarrow> Some (Inl (NotBoolean pred varName)))
      else if pred = predIfTruthy \<or> pred = predIfNotTruthy then
        (case isTruthy R pred varName v of
           Inl e \<Rightarrow> Some (Inl e)
         | Inr truthy \<Rightarrow> Some (Inr (truthy = (pred = predIfTruthy))))
      else if pred = predIfMatch \<or> pred = predIfNotMatch then
        (case v of
           KindString s \<Rightarrow>
             (case pattern of
                None \<Rightarrow> None
              | Some matches \<Rightarrow> Some (Inr (matches s = (pred = predIfMatch))))
         | _ \<Rightarrow> Some (Inl (NotString pred varName)))
      else Some (Inl (UnhandledPredicate pred)))"

definition evaluate ::
  "'n runtime \<Rightarrow> predicate \<Rightarrow> string \<Rightarrow> 'n Value option \<Rightarrow> 'n comparand option \<Rightarrow> (string \<Rightarrow> bool) option
   \<Rightarrow> (eval_error + bool) panics" where
  "evaluate R pred varName value1 arg pattern =
     (if pred = predIfDef then Some (Inr (value1 \<noteq> None))
      else if pred = predIfNotDef then Some (Inr (value1 = None))
      else
        case value1 of
          None \<Rightarrow> Some (Inl (VariableNotDefined pred varName))
        | Some v \<Rightarrow> evaluate_defined R pred varName v arg pattern)"

section \<open>Regular expressions\<close>

datatype regex_error = NotRegexLiteral | MalformedRegex string | UnsupportedFlag rune | UnsupportedRegex string

fun inline_flags :: "rune list \<Rightarrow> string \<Rightarrow> regex_error + string" where
  "inline_flags [] inline = Inr inline"
| "inline_flags (flag # flags) inline =
     (if flag = byte (CHR ''i'') \<or> flag = byte (CHR ''m'') \<or> flag = byte (CHR ''s'')
      then inline_flags flags (inline @ encode_rune flag)
      else if flag = byte (CHR ''g'') \<or> flag = byte (CHR ''u'') \<or> flag = byte (CHR ''v'')
              \<or> flag = byte (CHR ''d'') \<or> flag = byte (CHR ''y'')
      then inline_flags flags inline
      else Inl (UnsupportedFlag flag))"

definition compileJSRegex :: "'n runtime \<Rightarrow> string \<Rightarrow> string \<Rightarrow> regex_error + (string \<Rightarrow> bool)" where
  "compileJSRegex R pattern flags =
     (case inline_flags (runes flags) '''' of
        Inl e \<Rightarrow> Inl e
      | Inr inline \<Rightarrow>
          let source = (if inline \<noteq> '''' then ''(?'' @ inline @ '')'' @ pattern else pattern) in
          (case RegexpCompile R source of
             Inl err \<Rightarrow> Inl (UnsupportedRegex err)
           | Inr compiled \<Rightarrow> Inr compiled))"

section \<open>The plugin's diagnostics (paris.go)\<close>

datatype ('n, 'd) diagnostic = ConfigDiagnostic "'n config_error" | FileDiagnostic 'd

record ('n, 'd) plugin =
  options :: "'n Options"
  diagnostics :: "string \<rightharpoonup> 'd list"
  configReported :: bool

definition NewPlugin :: "'n Options option \<Rightarrow> ('n, 'd) plugin" where
  "NewPlugin o1 =
     \<lparr>options = (case o1 of Some o2 \<Rightarrow> o2 | None \<Rightarrow> \<lparr>Values = Map.empty, ConfigErrors = []\<rparr>),
      diagnostics = Map.empty, configReported = False\<rparr>"

definition addDiagnostic :: "('n, 'd) plugin \<Rightarrow> string \<Rightarrow> 'd \<Rightarrow> ('n, 'd) plugin" where
  "addDiagnostic p path d =
     p\<lparr>diagnostics := (diagnostics p)(path \<mapsto> (case diagnostics p path of Some ds \<Rightarrow> ds | None \<Rightarrow> []) @ [d])\<rparr>"

definition TakeDiagnostics :: "('n, 'd) plugin \<Rightarrow> string \<Rightarrow> ('n, 'd) plugin \<times> ('n, 'd) diagnostic list" where
  "TakeDiagnostics p path =
     (let (p, result) =
        (if configReported p then (p, [])
         else (p\<lparr>configReported := True\<rparr>, map ConfigDiagnostic (ConfigErrors (options p))))
      in case diagnostics p path of
           Some fileDiagnostics \<Rightarrow>
             (p\<lparr>diagnostics := (diagnostics p)(path := None)\<rparr>, result @ map FileDiagnostic fileDiagnostics)
         | None \<Rightarrow> (p, result))"

section \<open>Conditions and their complements\<close>

lemma predicate_name_inverse: "predicateNames (predicate_name p) = Some p"
  by (cases p) (simp_all add: predicateNames_def predicate_name_def predicate_table_def)

definition complement :: "predicate \<Rightarrow> predicate option" where
  "complement p =
     (case p of
        predIfDef \<Rightarrow> Some predIfNotDef | predIfNotDef \<Rightarrow> Some predIfDef
      | predIfEq \<Rightarrow> Some predIfNotEq | predIfNotEq \<Rightarrow> Some predIfEq
      | predIfMatch \<Rightarrow> Some predIfNotMatch | predIfNotMatch \<Rightarrow> Some predIfMatch
      | predIfTrue \<Rightarrow> Some predIfFalse | predIfFalse \<Rightarrow> Some predIfTrue
      | predIfTruthy \<Rightarrow> Some predIfNotTruthy | predIfNotTruthy \<Rightarrow> Some predIfTruthy
      | _ \<Rightarrow> None)"

text \<open>The operands the transformer passes for a predicate.\<close>

definition operands_ok :: "predicate \<Rightarrow> 'n comparand option \<Rightarrow> (string \<Rightarrow> bool) option \<Rightarrow> bool" where
  "operands_ok pred arg pattern \<longleftrightarrow>
     pred \<noteq> predValue
     \<and> (pred \<in> {predIfEq, predIfNotEq, predIfGt, predIfGte, predIfLt, predIfLte} \<longrightarrow> arg \<noteq> None)
     \<and> (pred \<in> {predIfMatch, predIfNotMatch} \<longrightarrow> pattern \<noteq> None)"

text \<open>The values a predicate is defined on.\<close>

definition supports :: "'n runtime \<Rightarrow> predicate \<Rightarrow> 'n Value option \<Rightarrow> bool" where
  "supports R pred value1 \<longleftrightarrow>
     (if pred = predIfDef \<or> pred = predIfNotDef then True
      else case value1 of
        None \<Rightarrow> False
      | Some (KindString s) \<Rightarrow>
          pred \<notin> {predIfTrue, predIfFalse}
          \<and> (pred \<in> {predIfGt, predIfGte, predIfLt, predIfLte} \<longrightarrow> ParseFloat R (TrimSpace s) \<noteq> None)
      | Some (KindNumber _) \<Rightarrow> pred \<notin> {predIfTrue, predIfFalse, predIfMatch, predIfNotMatch}
      | Some (KindBool _) \<Rightarrow> pred \<notin> {predIfGt, predIfGte, predIfLt, predIfLte, predIfMatch, predIfNotMatch}
      | Some (KindJSON _) \<Rightarrow> False
      | Some (KindBytes _ _) \<Rightarrow> False)"

lemmas evaluate_unfold = evaluate_def evaluate_defined_def strictEquals_def asNumber_def isTruthy_def Let_def

lemma ex_bool [simp]: "\<exists>b::bool. b" "Ex Not"
  by auto

lemma evaluate_value_cases:
  assumes "operands_ok pred arg pattern"
  shows "(\<exists>b. evaluate R pred n (Some v) arg pattern = Some (Inr b)) \<and> supports R pred (Some v)
    \<or> (\<exists>e. evaluate R pred n (Some v) arg pattern = Some (Inl e)) \<and> \<not> supports R pred (Some v)"
proof (cases v)
  case (KindString s)
  then show ?thesis using assms
    by (cases pred; cases "ParseFloat R (TrimSpace s)"; cases arg; cases pattern)
      (simp_all add: evaluate_unfold operands_ok_def supports_def)
next
  case (KindNumber m)
  then show ?thesis using assms
    by (cases pred; cases arg; cases pattern) (simp_all add: evaluate_unfold operands_ok_def supports_def)
next
  case (KindBool m)
  then show ?thesis using assms
    by (cases pred; cases arg; cases pattern) (simp_all add: evaluate_unfold operands_ok_def supports_def)
next
  case (KindJSON m)
  then show ?thesis using assms
    by (cases pred; cases arg; cases pattern) (simp_all add: evaluate_unfold operands_ok_def supports_def)
next
  case (KindBytes m b)
  then show ?thesis using assms
    by (cases pred; cases arg; cases pattern) (simp_all add: evaluate_unfold operands_ok_def supports_def)
qed

lemma evaluate_cases:
  assumes "operands_ok pred arg pattern"
  shows "(\<exists>b. evaluate R pred n w arg pattern = Some (Inr b)) \<and> supports R pred w
    \<or> (\<exists>e. evaluate R pred n w arg pattern = Some (Inl e)) \<and> \<not> supports R pred w"
proof (cases w)
  case None
  then show ?thesis using assms by (auto simp: evaluate_def supports_def intro: exI [of _ True] exI [of _ False])
next
  case (Some v)
  show ?thesis unfolding Some by (rule evaluate_value_cases [OF assms])
qed

lemma evaluate_complement_value:
  assumes "complement pred = Some q"
  shows "case evaluate R pred n (Some v) arg pattern of
           None \<Rightarrow> evaluate R q n (Some v) arg pattern = None
         | Some (Inl _) \<Rightarrow> (\<exists>e. evaluate R q n (Some v) arg pattern = Some (Inl e))
         | Some (Inr b) \<Rightarrow> evaluate R q n (Some v) arg pattern = Some (Inr (\<not> b))"
  using assms
  by (cases pred; cases v; cases arg; cases pattern; simp add: complement_def evaluate_unfold)
    (auto simp: evaluate_unfold Let_def split: option.splits)

text \<open>
  C8: conditions are decided, and decided consistently. With the operands the transformer passes, a
  condition never panics, and is an error exactly when the variable is undefined or its value is not of
  a type the predicate is defined on (only \<open>ifDef\<close> and \<open>ifNotDef\<close> accept an undefined one). The negative
  form of a predicate is an error on the same values, and otherwise its exact negation.
\<close>

theorem evaluate_decides:
  assumes "operands_ok pred arg pattern"
  shows "(case evaluate R pred n w arg pattern of
            None \<Rightarrow> False
          | Some (Inl _) \<Rightarrow> \<not> supports R pred w
          | Some (Inr b) \<Rightarrow> supports R pred w
              \<and> (\<forall>q. complement pred = Some q \<longrightarrow> evaluate R q n w arg pattern = Some (Inr (\<not> b))))
    \<and> (\<forall>q. complement pred = Some q \<longrightarrow> supports R q w = supports R pred w)"
proof -
  have s: "supports R q w = supports R pred w" if q: "complement pred = Some q" for q
  proof (cases w)
    case None
    then show ?thesis using q by (cases pred) (auto simp: complement_def supports_def)
  next
    case (Some v)
    then show ?thesis using q by (cases pred; cases v) (auto simp: complement_def supports_def)
  qed
  show ?thesis
  proof (cases w)
    case None
    then show ?thesis using assms s
      by (cases pred) (auto simp: complement_def evaluate_def supports_def)
  next
    case (Some v)
    have "\<forall>q. complement pred = Some q \<longrightarrow> (case evaluate R pred n (Some v) arg pattern of
           None \<Rightarrow> evaluate R q n (Some v) arg pattern = None
         | Some (Inl _) \<Rightarrow> (\<exists>e. evaluate R q n (Some v) arg pattern = Some (Inl e))
         | Some (Inr b) \<Rightarrow> evaluate R q n (Some v) arg pattern = Some (Inr (\<not> b)))"
      using evaluate_complement_value by blast
    then show ?thesis
      using evaluate_value_cases [OF assms, of R n v] s unfolding Some by auto
  qed
qed

definition sample_runtime :: "nat runtime" where
  "sample_runtime =
     \<lparr>ParseFloat = (\<lambda>s. if s = ''1'' then Some 1 else None), ParseInt = (\<lambda>_. None), FormatFloat = (\<lambda>_. ''1''),
      float_less = (<), float_eq = (=), float_neg = (\<lambda>n. n), float_zero = 0,
      RegexpCompile = (\<lambda>_. Inl ''none''), tables = plain_tables\<rparr>"

theorem evaluate_decides_witness:
  "evaluate sample_runtime predIfNotEq ''V'' (Some (KindNumber 3)) (Some (CompareNumber 3)) None = Some (Inr False)"
proof -
  have e: "evaluate sample_runtime predIfEq ''V'' (Some (KindNumber 3)) (Some (CompareNumber 3)) None = Some (Inr True)"
    by (simp add: evaluate_unfold sample_runtime_def)
  have "operands_ok predIfEq (Some (CompareNumber (3::nat))) None" by (simp add: operands_ok_def)
  from evaluate_decides [OF this, where R = sample_runtime and n = "''V''" and w = "Some (KindNumber 3)"] show ?thesis
    by (simp add: e complement_def)
qed

section \<open>Diagnostics are neither lost nor repeated\<close>

text \<open>
  The plugin's methods run under its lock, so the calls of concurrently emitted files are a sequence of
  events: a diagnostic recorded for a file, or the diagnostics taken for a file with their result.
\<close>

datatype ('n, 'd) event = Recorded string 'd | Taken string "('n, 'd) diagnostic list"

inductive runs :: "('n, 'd) plugin \<Rightarrow> ('n, 'd) event list \<Rightarrow> ('n, 'd) plugin \<Rightarrow> bool" for p0 where
  runs_start: "runs p0 [] p0"
| runs_record: "runs p0 es p \<Longrightarrow> runs p0 (es @ [Recorded path d]) (addDiagnostic p path d)"
| runs_take: "runs p0 es p \<Longrightarrow> TakeDiagnostics p path = (p', result) \<Longrightarrow> runs p0 (es @ [Taken path result]) p'"

definition recorded :: "('n, 'd) event list \<Rightarrow> string \<Rightarrow> 'd list" where
  "recorded es path = concat (map (\<lambda>e. case e of Recorded q d \<Rightarrow> if q = path then [d] else [] | Taken _ _ \<Rightarrow> []) es)"

definition file_part :: "('n, 'd) diagnostic list \<Rightarrow> 'd list" where
  "file_part ds = concat (map (\<lambda>d. case d of FileDiagnostic x \<Rightarrow> [x] | ConfigDiagnostic _ \<Rightarrow> []) ds)"

definition config_part :: "('n, 'd) diagnostic list \<Rightarrow> 'n config_error list" where
  "config_part ds = concat (map (\<lambda>d. case d of ConfigDiagnostic x \<Rightarrow> [x] | FileDiagnostic _ \<Rightarrow> []) ds)"

definition taken :: "('n, 'd) event list \<Rightarrow> string \<Rightarrow> ('n, 'd) diagnostic list" where
  "taken es path = concat (map (\<lambda>e. case e of Taken q ds \<Rightarrow> if q = path then ds else [] | Recorded _ _ \<Rightarrow> []) es)"

definition all_taken :: "('n, 'd) event list \<Rightarrow> ('n, 'd) diagnostic list" where
  "all_taken es = concat (map (\<lambda>e. case e of Taken q ds \<Rightarrow> ds | Recorded _ _ \<Rightarrow> []) es)"

definition pending :: "('n, 'd) plugin \<Rightarrow> string \<Rightarrow> 'd list" where
  "pending p path = (case diagnostics p path of Some ds \<Rightarrow> ds | None \<Rightarrow> [])"

lemmas event_defs = recorded_def file_part_def config_part_def taken_def all_taken_def

lemma event_snoc [simp]:
  "recorded (es @ [Recorded q d]) path = recorded es path @ (if q = path then [d] else [])"
  "recorded (es @ [Taken q ds]) path = recorded es path"
  "taken (es @ [Recorded q d]) path = taken es path"
  "taken (es @ [Taken q ds]) path = taken es path @ (if q = path then ds else [])"
  "all_taken (es @ [Recorded q d]) = all_taken es"
  "all_taken (es @ [Taken q ds]) = all_taken es @ ds"
  by (simp_all add: event_defs)

lemma parts_append [simp]:
  "file_part (ds @ ds') = file_part ds @ file_part ds'"
  "config_part (ds @ ds') = config_part ds @ config_part ds'"
  "file_part (map FileDiagnostic xs) = xs" "config_part (map FileDiagnostic xs) = []"
  "file_part (map ConfigDiagnostic cs) = []" "config_part (map ConfigDiagnostic cs) = cs"
  "file_part [] = []" "config_part [] = []"
  by (simp_all add: event_defs comp_def concat_map_singleton)

lemma Take_result:
  assumes "TakeDiagnostics p path = (p', result)"
  shows "file_part result = pending p path"
    and "config_part result = (if configReported p then [] else ConfigErrors (options p))"
    and "pending p' q = (if q = path then [] else pending p q)"
    and "configReported p'" and "options p' = options p"
  using assms
  by (cases "diagnostics p path"; cases "configReported p"; auto simp: TakeDiagnostics_def pending_def)+

lemma addDiagnostic_result [simp]:
  "pending (addDiagnostic p path d) q = pending p q @ (if q = path then [d] else [])"
  "configReported (addDiagnostic p path d) = configReported p"
  "options (addDiagnostic p path d) = options p"
  by (simp_all add: addDiagnostic_def pending_def split: option.split)

lemma runs_invariant:
  assumes "runs (NewPlugin o1) es p"
  shows "file_part (taken es path) @ pending p path = recorded es path"
    and "config_part (all_taken es) = (if configReported p then ConfigErrors (options p) else [])"
    and "configReported p \<longleftrightarrow> (\<exists>q ds. Taken q ds \<in> set es)"
    and "options p = (case o1 of Some o2 \<Rightarrow> o2 | None \<Rightarrow> \<lparr>Values = Map.empty, ConfigErrors = []\<rparr>)"
  using assms
proof (induction arbitrary: path)
  case runs_start
  { case 1 show ?case by (simp add: event_defs NewPlugin_def pending_def) }
  { case 2 show ?case by (simp add: event_defs NewPlugin_def) }
  { case 3 show ?case by (simp add: NewPlugin_def) }
  { case 4 show ?case by (simp add: NewPlugin_def) }
next
  case (runs_record es p q d)
  { case 1 show ?case using runs_record.IH(1) [of path] by (auto simp: append_assoc [symmetric] simp del: append_assoc) }
  { case 2 show ?case using runs_record.IH(2) by simp }
  { case 3 show ?case using runs_record.IH(3) by auto }
  { case 4 show ?case using runs_record.IH(4) by simp }
next
  case (runs_take es p q p' result)
  { case 1 show ?case using runs_take.IH(1) [of path] Take_result [OF runs_take.hyps(2)]
      by (auto simp: append_assoc [symmetric] simp del: append_assoc) }
  { case 2 show ?case using runs_take.IH(2) Take_result [OF runs_take.hyps(2)] by auto }
  { case 3 show ?case using Take_result [OF runs_take.hyps(2)] by auto }
  { case 4 show ?case using runs_take.IH(4) Take_result [OF runs_take.hyps(2)] by simp }
qed

text \<open>
  C9: over any interleaving of recording and taking diagnostics, the diagnostics taken for a file so
  far, followed by those still pending, are those recorded for it, in order; and the configuration
  errors are in the results exactly once, from the first time diagnostics are taken.
\<close>

theorem diagnostics_conserved:
  assumes "runs (NewPlugin (Some o1)) es p"
  shows "file_part (taken es path) @ pending p path = recorded es path
    \<and> config_part (all_taken es) = (if \<exists>q ds. Taken q ds \<in> set es then ConfigErrors o1 else [])"
  using runs_invariant [OF assms] by (simp add: NewPlugin_def)

theorem diagnostics_conserved_witness:
  "file_part (taken [Recorded ''a'' (1::nat), Taken ''b'' [], Taken ''a'' [FileDiagnostic 1 :: (nat, nat) diagnostic]] ''a'') = [1]"
proof -
  let ?o = "\<lparr>Values = Map.empty, ConfigErrors = []\<rparr> :: nat Options"
  let ?p = "NewPlugin (Some ?o) :: (nat, nat) plugin"
  have r1: "runs ?p [Recorded ''a'' 1] (addDiagnostic ?p ''a'' 1)"
    using runs_record [OF runs_start, of ?p "''a''" 1] by simp
  have t2: "TakeDiagnostics (addDiagnostic ?p ''a'' 1) ''b'' = ((addDiagnostic ?p ''a'' 1)\<lparr>configReported := True\<rparr>, [])"
    by (simp add: TakeDiagnostics_def addDiagnostic_def NewPlugin_def)
  let ?q = "(addDiagnostic ?p ''a'' 1)\<lparr>configReported := True\<rparr>"
  have t3: "TakeDiagnostics ?q ''a'' = (?q\<lparr>diagnostics := (diagnostics ?q)(''a'' := None)\<rparr>, [FileDiagnostic 1])"
    by (simp add: TakeDiagnostics_def addDiagnostic_def NewPlugin_def)
  have "runs ?p [Recorded ''a'' 1, Taken ''b'' [], Taken ''a'' [FileDiagnostic 1]]
      (?q\<lparr>diagnostics := (diagnostics ?q)(''a'' := None)\<rparr>)"
    using runs_take [OF runs_take [OF r1 t2] t3] by simp
  from diagnostics_conserved [OF this, of "''a''"] show ?thesis
    by (simp add: pending_def recorded_def)
qed

end
