(* ===== verification/ParisTransform.thy ===== *)
theory ParisTransform
  imports ParisEval
begin

text \<open>
  \<open>tsc/internal/tscp/paris/transformer.go\<close> and \<open>value.go\<close>: freezing the calls of the paris package
  in one file. A syntax tree is, as in the source, a node with a kind, a text and its children in the
  order of \<open>ForEachChild\<close>; a child slot holds a node or nil, a list or nil, or the statement a loop
  or branch controls. Positions, comments and links to the original nodes are not represented. The
  visit passes the list of recorded diagnostics, each with the node it is anchored at.
\<close>

section \<open>Trees\<close>

datatype kind =
    KindSourceFile | KindExpressionStatement | KindCallExpression | KindNewExpression
  | KindPropertyAccessExpression | KindIdentifier | KindStringLiteral | KindNoSubstitutionTemplateLiteral
  | KindNumericLiteral | KindRegularExpressionLiteral | KindTrueKeyword | KindFalseKeyword | KindNullKeyword
  | KindPrefixUnaryExpression bool
  | KindFunctionExpression | KindArrowFunction | KindFunctionLike string | KindClassLike string
  | KindBlock | KindReturnStatement | KindEmptyStatement | KindVariableStatement
  | KindVariableDeclarationList bool | KindVariableDeclaration | KindObjectBindingPattern | KindBindingElement
  | KindImportDeclaration | KindImportClause | KindNamespaceImport | KindNamedImports | KindImportSpecifier
  | KindArrayLiteralExpression | KindObjectLiteralExpression | KindPropertyAssignment
  | KindOther string

datatype node = Node (kind_of: kind) (text_of: string) (slots_of: "slot list")
  and slot =
    Child "node option"
  | Children "node list option"
  | Embedded "node option"

definition leaf :: "kind \<Rightarrow> string \<Rightarrow> node" where
  "leaf k s = Node k s []"

text \<open>The field of a node in a slot, \<open>None\<close> for nil; the elements of a list field.\<close>

definition child :: "nat \<Rightarrow> node \<Rightarrow> node option" where
  "child i n =
     (if i < length (slots_of n)
      then (case slots_of n ! i of Child c \<Rightarrow> c | Embedded c \<Rightarrow> c | Children _ \<Rightarrow> None) else None)"

definition child_list :: "nat \<Rightarrow> node \<Rightarrow> node list option" where
  "child_list i n =
     (if i < length (slots_of n) then (case slots_of n ! i of Children ns \<Rightarrow> ns | _ \<Rightarrow> None) else None)"

definition child_nodes :: "nat \<Rightarrow> node \<Rightarrow> node list" where
  "child_nodes i n = (case child_list i n of Some ns \<Rightarrow> ns | None \<Rightarrow> [])"

fun slot_nodes :: "slot \<Rightarrow> node list" where
  "slot_nodes (Child c) = (case c of Some n \<Rightarrow> [n] | None \<Rightarrow> [])"
| "slot_nodes (Embedded c) = (case c of Some n \<Rightarrow> [n] | None \<Rightarrow> [])"
| "slot_nodes (Children c) = (case c of Some ns \<Rightarrow> ns | None \<Rightarrow> [])"

definition subnodes :: "node \<Rightarrow> node list" where
  "subnodes n = concat (map slot_nodes (slots_of n))"

text \<open>A subtree is smaller.\<close>

lemma slot_nodes_size: "m \<in> set (slot_nodes s) \<Longrightarrow> size m < size s"
proof (cases s)
  case (Children c)
  then show "m \<in> set (slot_nodes s) \<Longrightarrow> ?thesis"
    by (cases c) (auto dest: size_list_estimation' [where y = "size m" and f = size, OF _ order_refl])
qed (auto split: option.splits)

lemma slot_size: "s \<in> set ss \<Longrightarrow> size s < Suc (size_list size ss)"
  using size_list_estimation' [of s ss "size s" size] by simp

lemma slot_size_node: "s \<in> set (slots_of n) \<Longrightarrow> size s < size n"
  by (cases n) (simp add: slot_size)

lemma subnodes_size: "m \<in> set (subnodes n) \<Longrightarrow> size m < size n"
  using slot_nodes_size slot_size_node by (fastforce simp: subnodes_def)

lemma slot_nodes_list_size: "size_list size (slot_nodes s) < size s"
  by (cases s) (auto split: option.splits)

lemma subnodes_list_size: "size_list size (subnodes n) < size n"
proof -
  have "size_list size (concat (map slot_nodes ss)) \<le> size_list size ss" for ss
  proof (induction ss)
    case (Cons s ss)
    then show ?case using slot_nodes_list_size [of s] by (simp add: size_list_append)
  qed simp
  then show ?thesis by (cases n) (simp add: subnodes_def le_imp_less_Suc)
qed

lemma child_subnode: "child i n = Some m \<Longrightarrow> m \<in> set (subnodes n)"
proof -
  assume a: "child i n = Some m"
  then have i: "i < length (slots_of n)" by (simp add: child_def split: if_splits)
  have "m \<in> set (slot_nodes (slots_of n ! i))"
    using a i by (cases "slots_of n ! i") (simp_all add: child_def)
  with i show ?thesis unfolding subnodes_def by (auto intro: bexI [of _ "slots_of n ! i"])
qed

lemma child_nodes_slot:
  assumes "m \<in> set (child_nodes i n)"
  shows "\<exists>ns. Children (Some ns) \<in> set (slots_of n) \<and> child_nodes i n = ns"
proof -
  obtain ns where "child_list i n = Some ns" using assms by (cases "child_list i n") (simp_all add: child_nodes_def)
  moreover from this have "i < length (slots_of n)" "slots_of n ! i = Children (Some ns)"
    by (auto simp: child_list_def split: if_splits slot.splits)
  ultimately show ?thesis by (metis child_nodes_def nth_mem option.case(2))
qed

lemma child_nodes_subnode: "m \<in> set (child_nodes i n) \<Longrightarrow> m \<in> set (subnodes n)"
  using child_nodes_slot [of m i n] by (force simp: subnodes_def)

section \<open>Literals for values (value.go)\<close>

text \<open>\<open>strconv.Itoa\<close> on a natural number.\<close>

fun itoa :: "nat \<Rightarrow> string" where
  "itoa n = (if n < 10 then [char_of (48 + n)] else itoa (n div 10) @ [char_of (48 + n mod 10)])"

declare itoa.simps [simp del]

definition numberExpression :: "'n runtime \<Rightarrow> 'n \<Rightarrow> node" where
  "numberExpression R number =
     (let txt = FormatFloat R number in
      if HasPrefix txt ''-''
      then Node (KindPrefixUnaryExpression True) '''' [Child (Some (leaf KindNumericLiteral (drop 1 txt)))]
      else leaf KindNumericLiteral txt)"

definition boolExpression :: "bool \<Rightarrow> node" where
  "boolExpression b = (if b then leaf KindTrueKeyword '''' else leaf KindFalseKeyword '''')"

definition property_assignment :: "string \<times> node \<Rightarrow> node" where
  "property_assignment p =
     Node KindPropertyAssignment ''''
       [Children None, Child (Some (leaf KindStringLiteral (fst p))), Child None, Child None, Child (Some (snd p))]"

text \<open>
  \<open>jsonExpression\<close> with \<open>jsonProperty\<close>. Its error for a value that is not JSON has no counterpart,
  every \<open>json\<close> being one. The keys of a plain Go map are sorted.
\<close>

fun jsonExpression :: "'n runtime \<Rightarrow> 'n json \<Rightarrow> node" where
  "jsonExpression R JNull = leaf KindNullKeyword ''''"
| "jsonExpression R (JStr s) = leaf KindStringLiteral s"
| "jsonExpression R (JNum n) = numberExpression R n"
| "jsonExpression R (JBool b) = boolExpression b"
| "jsonExpression R (JArr vs) = Node KindArrayLiteralExpression '''' [Children (Some (map (jsonExpression R) vs))]"
| "jsonExpression R (JMap es) =
     Node KindObjectLiteralExpression ''''
       [Children (Some (map property_assignment (byName (map (\<lambda>(key, v). (key, jsonExpression R v)) es))))]"
| "jsonExpression R (JObj es) =
     Node KindObjectLiteralExpression ''''
       [Children (Some (map (\<lambda>(key, v). property_assignment (key, jsonExpression R v)) es))]"

definition bytesExpression :: "string \<Rightarrow> bool \<Rightarrow> node" where
  "bytesExpression bytes buffer =
     (let elements = map (\<lambda>b. leaf KindNumericLiteral (itoa (byte b))) bytes;
          array = Node KindArrayLiteralExpression '''' [Children (Some elements)];
          arguments = Children (Some [array])
      in if buffer
         then Node KindCallExpression ''''
                [Child (Some (Node KindPropertyAccessExpression ''''
                   [Child (Some (leaf KindIdentifier ''Buffer'')), Child None, Child (Some (leaf KindIdentifier ''from''))])),
                 Child None, Children None, arguments]
         else Node KindNewExpression ''''
                [Child (Some (leaf KindIdentifier ''Uint8Array'')), Children None, arguments])"

definition expressionForValue :: "'n runtime \<Rightarrow> 'n Value \<Rightarrow> node" where
  "expressionForValue R v =
     (case v of
        KindString s \<Rightarrow> leaf KindStringLiteral s
      | KindNumber n \<Rightarrow> numberExpression R n
      | KindBool b \<Rightarrow> boolExpression b
      | KindJSON j \<Rightarrow> jsonExpression R j
      | KindBytes bytes buffer \<Rightarrow> bytesExpression bytes buffer)"

section \<open>Imports of the runtime package\<close>

text \<open>The local names a file binds to the package; \<open>named\<close> and \<open>namespaces\<close> of the transformer.\<close>

record bindings =
  named :: "(string \<times> predicate) list"
  namespaces :: "string list"

definition no_bindings :: bindings where
  "no_bindings = \<lparr>named = [], namespaces = []\<rparr>"

definition addNamespace :: "string \<Rightarrow> bindings \<Rightarrow> bindings" where
  "addNamespace localName B = B\<lparr>namespaces := localName # namespaces B\<rparr>"

definition addNamed :: "string \<Rightarrow> string \<Rightarrow> bindings \<Rightarrow> bindings" where
  "addNamed exportedName localName B =
     (case predicateNames exportedName of
        Some pred \<Rightarrow> B\<lparr>named := (localName, pred) # named B\<rparr>
      | None \<Rightarrow> B)"

definition lookup_named :: "bindings \<Rightarrow> string \<Rightarrow> predicate option" where
  "lookup_named B name = map_of (named B) name"

definition text_of_child :: "nat \<Rightarrow> node \<Rightarrow> string" where
  "text_of_child i n = (case child i n of Some m \<Rightarrow> text_of m | None \<Rightarrow> '''')"

text \<open>Slots of an import: modifiers, clause, specifier, attributes; of a clause: name, bindings.\<close>

definition is_paris_import :: "node \<Rightarrow> bool" where
  "is_paris_import n \<longleftrightarrow>
     kind_of n = KindImportDeclaration
     \<and> (case child 2 n of Some spec \<Rightarrow> kind_of spec = KindStringLiteral \<and> text_of spec = PluginName | None \<Rightarrow> False)"

definition import_specifier :: "bindings \<Rightarrow> node \<Rightarrow> bindings" where
  "import_specifier B element =
     (let localName = text_of_child 1 element;
          exported = (case child 0 element of Some p \<Rightarrow> text_of p | None \<Rightarrow> localName)
      in addNamed exported localName B)"

definition collectESMImport :: "bindings \<Rightarrow> node \<Rightarrow> bindings" where
  "collectESMImport B statement =
     (if \<not> is_paris_import statement then B
      else case child 1 statement of
        None \<Rightarrow> B
      | Some clause \<Rightarrow>
          let B = (case child 0 clause of Some name \<Rightarrow> addNamespace (text_of name) B | None \<Rightarrow> B) in
          (case child 1 clause of
             None \<Rightarrow> B
           | Some bs \<Rightarrow>
               if kind_of bs = KindNamespaceImport then addNamespace (text_of_child 0 bs) B
               else if kind_of bs = KindNamedImports then foldl import_specifier B (child_nodes 0 bs)
               else B))"

definition is_string_literal_like :: "node \<Rightarrow> bool" where
  "is_string_literal_like n \<longleftrightarrow> kind_of n = KindStringLiteral \<or> kind_of n = KindNoSubstitutionTemplateLiteral"

text \<open>Slots of a call: callee, question-dot, type arguments, arguments.\<close>

definition IsRequireCall :: "node \<Rightarrow> bool" where
  "IsRequireCall n \<longleftrightarrow>
     kind_of n = KindCallExpression
     \<and> (case child 0 n of Some c \<Rightarrow> kind_of c = KindIdentifier \<and> text_of c = ''require'' | None \<Rightarrow> False)
     \<and> length (child_nodes 3 n) = 1
     \<and> is_string_literal_like (child_nodes 3 n ! 0)"

text \<open>Slots of a variable declaration: name, exclamation token, type, initializer.\<close>

definition isParisRequireDeclaration :: "node \<Rightarrow> bool" where
  "isParisRequireDeclaration declaration =
     (case child 3 declaration of
        None \<Rightarrow> False
      | Some init \<Rightarrow> IsRequireCall init \<and> text_of (child_nodes 3 init ! 0) = PluginName)"

text \<open>Slots of a binding element: dots, property name, name, initializer.\<close>

definition collect_element :: "bindings \<Rightarrow> node \<Rightarrow> bindings" where
  "collect_element B binding =
     (if child 0 binding \<noteq> None then B
      else case child 2 binding of
        None \<Rightarrow> B
      | Some localName \<Rightarrow>
          if kind_of localName \<noteq> KindIdentifier then B
          else case child 1 binding of
            None \<Rightarrow> addNamed (text_of localName) (text_of localName) B
          | Some p \<Rightarrow>
              if kind_of p \<noteq> KindIdentifier \<and> kind_of p \<noteq> KindStringLiteral then B
              else addNamed (text_of p) (text_of localName) B)"

definition variable_declarations :: "node \<Rightarrow> node list" where
  "variable_declarations statement =
     (case child 1 statement of Some declList \<Rightarrow> child_nodes 0 declList | None \<Rightarrow> [])"

definition collect_declarator :: "bindings \<Rightarrow> node \<Rightarrow> bindings" where
  "collect_declarator B declaration =
     (if \<not> isParisRequireDeclaration declaration then B
      else case child 0 declaration of
        None \<Rightarrow> B
      | Some name \<Rightarrow>
          if kind_of name = KindIdentifier then addNamespace (text_of name) B
          else if kind_of name = KindObjectBindingPattern then foldl collect_element B (child_nodes 0 name)
          else B)"

definition collectRequireImport :: "bindings \<Rightarrow> node \<Rightarrow> bindings" where
  "collectRequireImport B statement = foldl collect_declarator B (variable_declarations statement)"

definition collectImport :: "bindings \<Rightarrow> node \<Rightarrow> bindings" where
  "collectImport B statement =
     (if kind_of statement = KindImportDeclaration then collectESMImport B statement
      else if kind_of statement = KindVariableStatement then collectRequireImport B statement
      else B)"

section \<open>Calls of the package\<close>

text \<open>Slots of a property access: object, question-dot, name.\<close>

definition classifyCall :: "bindings \<Rightarrow> node \<Rightarrow> predicate option" where
  "classifyCall B call =
     (case child 0 call of
        None \<Rightarrow> None
      | Some callee \<Rightarrow>
          if kind_of callee = KindIdentifier then lookup_named B (text_of callee)
          else if kind_of callee = KindPropertyAccessExpression then
            (case child 0 callee of
               None \<Rightarrow> None
             | Some object \<Rightarrow>
                 if kind_of object \<noteq> KindIdentifier \<or> text_of object \<notin> set (namespaces B) then None
                 else predicateNames (text_of_child 2 callee))
          else None)"

definition stringLiteral :: "node \<Rightarrow> string option" where
  "stringLiteral n = (if is_string_literal_like n then Some (text_of n) else None)"

datatype operand_error = MustBeLiteral | MustBeTypedLiteral | UnsupportedNumeric string | BoundNotNumber
  | RegexError regex_error

definition parseNumericLiteral :: "'n runtime \<Rightarrow> string \<Rightarrow> operand_error + 'n" where
  "parseNumericLiteral R txt0 =
     (let txt = filter (\<lambda>c. c \<noteq> CHR ''_'') txt0 in
      case ParseFloat R txt of
        Some number \<Rightarrow> Inr number
      | None \<Rightarrow>
          (case ParseInt R txt of
             Some integer \<Rightarrow> Inr integer
           | None \<Rightarrow> Inl (UnsupportedNumeric txt)))"

definition literalComparand :: "'n runtime \<Rightarrow> node \<Rightarrow> operand_error + 'n comparand" where
  "literalComparand R n =
     (let negative = (kind_of n = KindPrefixUnaryExpression True);
          n = (if negative then (case child 0 n of Some m \<Rightarrow> m | None \<Rightarrow> n) else n)
      in case kind_of n of
           KindStringLiteral \<Rightarrow> if negative then Inl MustBeLiteral else Inr (CompareString (text_of n))
         | KindNoSubstitutionTemplateLiteral \<Rightarrow>
             if negative then Inl MustBeLiteral else Inr (CompareString (text_of n))
         | KindNumericLiteral \<Rightarrow>
             (case parseNumericLiteral R (text_of n) of
                Inl e \<Rightarrow> Inl e
              | Inr number \<Rightarrow> Inr (CompareNumber (if negative then float_neg R number else number)))
         | KindTrueKeyword \<Rightarrow> Inr (CompareBool True)
         | KindFalseKeyword \<Rightarrow> Inr (CompareBool False)
         | _ \<Rightarrow> Inl MustBeTypedLiteral)"

definition regexLiteral :: "'n runtime \<Rightarrow> node \<Rightarrow> regex_error + (string \<Rightarrow> bool)" where
  "regexLiteral R n =
     (if kind_of n \<noteq> KindRegularExpressionLiteral then Inl NotRegexLiteral
      else
        let txt = text_of n in
        case last_index_byte txt (CHR 0x2F) of
          None \<Rightarrow> Inl (MalformedRegex txt)
        | Some lastSlash \<Rightarrow>
            if length txt < 2 \<or> txt ! 0 \<noteq> CHR 0x2F \<or> lastSlash = 0 then Inl (MalformedRegex txt)
            else compileJSRegex R (drop 1 (take lastSlash txt)) (drop (lastSlash + 1) txt))"

section \<open>Callback bodies\<close>

fun is_function_like :: "kind \<Rightarrow> bool" where
  "is_function_like KindFunctionExpression = True"
| "is_function_like KindArrowFunction = True"
| "is_function_like (KindFunctionLike _) = True"
| "is_function_like _ = False"

fun is_class_like :: "kind \<Rightarrow> bool" where
  "is_class_like (KindClassLike _) = True"
| "is_class_like _ = False"

datatype body_error = ContainsReturn | DeclaresVar

text \<open>A variable statement whose declaration list has neither the let nor the const flag.\<close>

definition is_var_statement :: "node \<Rightarrow> bool" where
  "is_var_statement n \<longleftrightarrow>
     kind_of n = KindVariableStatement
     \<and> (case child 1 n of Some declList \<Rightarrow> kind_of declList = KindVariableDeclarationList False | None \<Rightarrow> False)"

text \<open>The recursive closure \<open>walk\<close>, the error found so far being the state.\<close>

function walk :: "body_error option \<Rightarrow> node \<Rightarrow> body_error option"
  and walk_all :: "body_error option \<Rightarrow> node list \<Rightarrow> body_error option" where
  "walk err n =
     (if err \<noteq> None then err
      else if kind_of n = KindReturnStatement then Some ContainsReturn
      else if is_var_statement n then Some DeclaresVar
      else if is_function_like (kind_of n) \<or> is_class_like (kind_of n) then err
      else walk_all err (subnodes n))"
| "walk_all err [] = err"
| "walk_all err (n # ns) = walk_all (walk err n) ns"
  by pat_completeness auto
termination
proof (relation "measure (\<lambda>x. case x of Inl (_, n) \<Rightarrow> size n | Inr (_, ns) \<Rightarrow> size_list size ns)", goal_cases)
  case (2 err n)
  show ?case by (simp add: subnodes_list_size)
qed auto

declare walk.simps [simp del]

definition scanBody :: "node list \<Rightarrow> body_error option" where
  "scanBody statements = walk_all None statements"

datatype callback_error = IsGenerator | HasParameters | IsAsync | NotInline | BadBody body_error

definition checked_body :: "node \<Rightarrow> callback_error + node list" where
  "checked_body body =
     (let statements =
            (if kind_of body = KindBlock then child_nodes 0 body
             else [Node KindExpressionStatement '''' [Child (Some body)]])
      in case scanBody statements of
           Some e \<Rightarrow> Inl (BadBody e)
         | None \<Rightarrow> Inr statements)"

text \<open>
  Slots of a function expression: modifiers, asterisk, name, type parameters, parameters, type, full
  signature, body; of an arrow function: modifiers, type parameters, parameters, type, full signature,
  arrow, body.
\<close>

definition callbackBlock :: "node \<Rightarrow> callback_error + node list" where
  "callbackBlock callback =
     (if kind_of callback = KindFunctionExpression then
        if child 1 callback \<noteq> None then Inl IsGenerator
        else if child_nodes 4 callback \<noteq> [] then Inl HasParameters
        else if child_list 0 callback \<noteq> None then Inl IsAsync
        else (case child 7 callback of Some body \<Rightarrow> checked_body body | None \<Rightarrow> Inl NotInline)
      else if kind_of callback = KindArrowFunction then
        if child_nodes 2 callback \<noteq> [] then Inl HasParameters
        else if child_list 0 callback \<noteq> None then Inl IsAsync
        else (case child 6 callback of Some body \<Rightarrow> checked_body body | None \<Rightarrow> Inl NotInline)
      else Inl NotInline)"

section \<open>Conditions and values\<close>

datatype message =
    MustBeStatement predicate
  | ArgumentCount predicate nat nat
  | NameNotLiteral predicate
  | BadOperand predicate string operand_error
  | BadCallback predicate string callback_error
  | Evaluation eval_error
  | Panicked
  | ValueArgumentCount nat
  | ValueNameNotLiteral
  | ValueNotDefined string

record 'n transformer =
  configured :: "string \<rightharpoonup> 'n Value"
  runtime_of :: "'n runtime"
  bound :: bindings

text \<open>The operands of a predicate: the comparand and the pattern, or an error.\<close>

definition operands ::
  "'n runtime \<Rightarrow> predicate \<Rightarrow> node list \<Rightarrow> operand_error + 'n comparand option \<times> (string \<Rightarrow> bool) option" where
  "operands R pred arguments =
     (if pred = predIfEq \<or> pred = predIfNotEq then
        (case literalComparand R (arguments ! 1) of Inl e \<Rightarrow> Inl e | Inr literal \<Rightarrow> Inr (Some literal, None))
      else if pred = predIfGt \<or> pred = predIfGte \<or> pred = predIfLt \<or> pred = predIfLte then
        (case literalComparand R (arguments ! 1) of
           Inl e \<Rightarrow> Inl e
         | Inr literal \<Rightarrow>
             (case literal of CompareNumber _ \<Rightarrow> Inr (Some literal, None) | _ \<Rightarrow> Inl BoundNotNumber))
      else if pred = predIfMatch \<or> pred = predIfNotMatch then
        (case regexLiteral R (arguments ! 1) of
           Inl e \<Rightarrow> Inl (RegexError e)
         | Inr compiled \<Rightarrow> Inr (None, Some compiled))
      else Inr (None, None))"

text \<open>
  \<open>applyCondition\<close> up to the visit of the surviving body: what becomes of the statement. \<open>Panicked\<close>
  stands for a nil dereference in \<open>evaluate\<close>.
\<close>

datatype outcome = Misuse message | Pruned | Survives "node list"

definition applyCondition :: "'n transformer \<Rightarrow> node \<Rightarrow> predicate \<Rightarrow> outcome" where
  "applyCondition tx call pred =
     (let arguments = child_nodes 3 call in
      if length arguments \<noteq> argCount pred then Misuse (ArgumentCount pred (argCount pred) (length arguments))
      else
        case stringLiteral (arguments ! 0) of
          None \<Rightarrow> Misuse (NameNotLiteral pred)
        | Some varName \<Rightarrow>
            (case operands (runtime_of tx) pred arguments of
               Inl e \<Rightarrow> Misuse (BadOperand pred varName e)
             | Inr (arg, pattern) \<Rightarrow>
                 (case callbackBlock (arguments ! (length arguments - 1)) of
                    Inl e \<Rightarrow> Misuse (BadCallback pred varName e)
                  | Inr body \<Rightarrow>
                      (case evaluate (runtime_of tx) pred varName (configured tx varName) arg pattern of
                         None \<Rightarrow> Misuse Panicked
                       | Some (Inl e) \<Rightarrow> Misuse (Evaluation e)
                       | Some (Inr result) \<Rightarrow> if result then Survives body else Pruned))))"

definition applyValue :: "'n transformer \<Rightarrow> node \<Rightarrow> message + node" where
  "applyValue tx call =
     (let arguments = child_nodes 3 call in
      if length arguments \<noteq> 1 then Inl (ValueArgumentCount (length arguments))
      else
        case stringLiteral (arguments ! 0) of
          None \<Rightarrow> Inl ValueNameNotLiteral
        | Some varName \<Rightarrow>
            (case configured tx varName of
               None \<Rightarrow> Inl (ValueNotDefined varName)
             | Some v \<Rightarrow> Inr (expressionForValue (runtime_of tx) v)))"

lemma checked_body_size:
  "checked_body body = Inr statements \<Longrightarrow> size_list size statements \<le> size body + 6"
proof -
  assume a: "checked_body body = Inr statements"
  have "size_list size (child_nodes 0 body) < size body" if "kind_of body = KindBlock"
  proof (cases "child_nodes 0 body")
    case Nil
    then show ?thesis by (cases body) simp
  next
    case (Cons m ms)
    then obtain ns where "Children (Some ns) \<in> set (slots_of body)" "child_nodes 0 body = ns"
      using child_nodes_slot [of m 0 body] by auto
    then show ?thesis using slot_size_node [of "Children (Some ns)" body] by simp
  qed
  with a show ?thesis
    by (auto simp: checked_body_def Let_def split: option.splits if_splits)
qed

lemma callbackBlock_size:
  assumes "callbackBlock callback = Inr statements"
  shows "size_list size statements < size callback + 6"
proof -
  obtain i body where b: "child i callback = Some body" "checked_body body = Inr statements"
    using assms by (auto simp: callbackBlock_def split: if_splits option.splits)
  have "size body < size callback" using child_subnode [OF b(1)] by (rule subnodes_size)
  with checked_body_size [OF b(2)] show ?thesis by simp
qed

lemma size_list_nth: "i < length ss \<Longrightarrow> size (ss ! i) + Suc i \<le> size_list size ss"
proof (induction ss arbitrary: i)
  case (Cons s ss)
  show ?case
  proof (cases i)
    case (Suc j)
    then show ?thesis using Cons.IH [of j] Cons.prems by simp
  qed simp
qed simp

lemma argument_size:
  assumes "m \<in> set (child_nodes 3 call)"
  shows "size m + 6 \<le> size call"
proof -
  obtain ns where ns: "child_list 3 call = Some ns" "m \<in> set ns"
    using assms by (cases "child_list 3 call") (simp_all add: child_nodes_def)
  then have i: "3 < length (slots_of call)" "slots_of call ! 3 = Children (Some ns)"
    by (auto simp: child_list_def split: if_splits slot.splits)
  have "size m < size_list size ns" using ns(2) by (induction ns) auto
  with size_list_nth [OF i(1)] i(2) show ?thesis by (cases call) simp
qed

lemma survivor_size:
  assumes "applyCondition tx call pred = Survives body"
  shows "size_list size body < size call"
proof -
  let ?as = "child_nodes 3 call"
  have l: "length ?as = argCount pred"
    using assms by (auto simp: applyCondition_def Let_def split: if_splits)
  then have "?as \<noteq> []" by (cases pred) (auto simp: argCount_def)
  then have "?as ! (length ?as - 1) \<in> set ?as" by simp
  note s = argument_size [OF this]
  have "callbackBlock (?as ! (length ?as - 1)) = Inr body"
    using assms l unfolding applyCondition_def Let_def
    by (auto split: option.splits sum.splits prod.splits if_splits)
  from callbackBlock_size [OF this] s show ?thesis by linarith
qed

section \<open>The visit\<close>

text \<open>
  What \<open>visit\<close> does with a node: \<open>visitExpressionStatement\<close> hands a condition call in statement
  position to \<open>applyCondition\<close>, and \<open>visitCallExpression\<close> reports a condition call anywhere else and
  hands a value call to \<open>applyValue\<close>; every other node is kept and its children are visited.
\<close>

definition statement_call :: "bindings \<Rightarrow> node \<Rightarrow> (node \<times> predicate) option" where
  "statement_call B n =
     (if kind_of n \<noteq> KindExpressionStatement then None
      else case child 0 n of
        None \<Rightarrow> None
      | Some expression \<Rightarrow>
          if kind_of expression \<noteq> KindCallExpression then None
          else (case classifyCall B expression of
                  Some pred \<Rightarrow> if pred \<noteq> predValue then Some (expression, pred) else None
                | None \<Rightarrow> None))"

datatype step = Descend | Report message | Remove | Replace node | Unwrap "node list"

definition visit_step :: "'n transformer \<Rightarrow> node \<Rightarrow> step" where
  "visit_step tx n =
     (case statement_call (bound tx) n of
        Some (call, pred) \<Rightarrow>
          (case applyCondition tx call pred of
             Misuse m \<Rightarrow> Report m
           | Pruned \<Rightarrow> Remove
           | Survives body \<Rightarrow> Unwrap body)
      | None \<Rightarrow>
          if kind_of n \<noteq> KindCallExpression then Descend
          else (case classifyCall (bound tx) n of
                  None \<Rightarrow> Descend
                | Some pred \<Rightarrow>
                    if pred \<noteq> predValue then Report (MustBeStatement pred)
                    else (case applyValue tx n of Inl m \<Rightarrow> Report m | Inr literal \<Rightarrow> Replace literal)))"

lemma unwrap_size:
  assumes "visit_step tx n = Unwrap body"
  shows "size_list size body < size n"
proof -
  obtain call pred where c: "child 0 n = Some call" "applyCondition tx call pred = Survives body"
    using assms unfolding visit_step_def statement_call_def
    by (auto split: option.splits if_splits outcome.splits sum.splits)
  show ?thesis using survivor_size [OF c(2)] subnodes_size [OF child_subnode [OF c(1)]] by simp
qed

lemma slots_of_size: "size_list size (slots_of n) < size n"
  by (cases n) simp

text \<open>
  The visitor: a child may become nil, nil elements leave their list, and a controlled statement
  that becomes nil is replaced by an empty statement. A misused call is recorded and left as it is;
  the statements of a surviving body become a block and are visited in turn.
\<close>

definition emptyStatement :: node where
  "emptyStatement = leaf KindEmptyStatement ''''"

definition block :: "node list \<Rightarrow> node" where
  "block statements = Node KindBlock '''' [Children (Some statements)]"

type_synonym diagnostic = "node \<times> message"

function visit :: "'n transformer \<Rightarrow> node \<Rightarrow> diagnostic list \<Rightarrow> node option \<times> diagnostic list"
  and visit_slot :: "'n transformer \<Rightarrow> slot \<Rightarrow> diagnostic list \<Rightarrow> slot \<times> diagnostic list"
  and visit_slots :: "'n transformer \<Rightarrow> slot list \<Rightarrow> diagnostic list \<Rightarrow> slot list \<times> diagnostic list"
  and visit_nodes :: "'n transformer \<Rightarrow> node list \<Rightarrow> diagnostic list \<Rightarrow> node list \<times> diagnostic list" where
  "visit tx n ds =
     (case visit_step tx n of
        Report m \<Rightarrow> (Some n, ds @ [(n, m)])
      | Remove \<Rightarrow> (None, ds)
      | Replace literal \<Rightarrow> (Some literal, ds)
      | Unwrap body \<Rightarrow> (let (body', ds') = visit_nodes tx body ds in (Some (block body'), ds'))
      | Descend \<Rightarrow>
          (let (slots, ds') = visit_slots tx (slots_of n) ds in (Some (Node (kind_of n) (text_of n) slots), ds')))"
| "visit_slot tx (Child None) ds = (Child None, ds)"
| "visit_slot tx (Child (Some n)) ds = (let (v, ds') = visit tx n ds in (Child v, ds'))"
| "visit_slot tx (Embedded None) ds = (Embedded None, ds)"
| "visit_slot tx (Embedded (Some n)) ds =
     (let (v, ds') = visit tx n ds
      in (Embedded (Some (case v of Some n' \<Rightarrow> n' | None \<Rightarrow> emptyStatement)), ds'))"
| "visit_slot tx (Children None) ds = (Children None, ds)"
| "visit_slot tx (Children (Some ns)) ds = (let (ns', ds') = visit_nodes tx ns ds in (Children (Some ns'), ds'))"
| "visit_slots tx [] ds = ([], ds)"
| "visit_slots tx (s # ss) ds =
     (let (s', ds') = visit_slot tx s ds; (ss', ds'') = visit_slots tx ss ds' in (s' # ss', ds''))"
| "visit_nodes tx [] ds = ([], ds)"
| "visit_nodes tx (n # ns) ds =
     (let (v, ds') = visit tx n ds; (ns', ds'') = visit_nodes tx ns ds'
      in ((case v of Some n' \<Rightarrow> n' # ns' | None \<Rightarrow> ns'), ds''))"
  by pat_completeness auto
termination
  by (relation "measure (\<lambda>x. case x of
      Inl (Inl (_, n, _)) \<Rightarrow> size n
    | Inl (Inr (_, s, _)) \<Rightarrow> size s
    | Inr (Inl (_, ss, _)) \<Rightarrow> size_list size ss
    | Inr (Inr (_, ns, _)) \<Rightarrow> size_list size ns)")
    (auto simp: unwrap_size slots_of_size)

declare visit.simps [simp del]

section \<open>The import statements left over\<close>

text \<open>
  The closure \<open>count\<close> visits the nodes that are not introductions of the names; \<open>uses\<close> are the texts
  of the identifiers it comes to, so \<open>remaining[name]\<close> is their number for a tracked name.
\<close>

function uses :: "node \<Rightarrow> string list"
  and uses_all :: "node list \<Rightarrow> string list" where
  "uses n =
     (if is_paris_import n \<or> kind_of n = KindVariableDeclaration \<and> isParisRequireDeclaration n then []
      else (if kind_of n = KindIdentifier then [text_of n] else []) @ uses_all (subnodes n))"
| "uses_all [] = []"
| "uses_all (n # ns) = uses n @ uses_all ns"
  by pat_completeness auto
termination
  by (relation "measure (\<lambda>x. case x of Inl n \<Rightarrow> size n | Inr ns \<Rightarrow> size_list size ns)")
    (auto simp: subnodes_list_size)

declare uses.simps [simp del]

definition tracked :: "bindings \<Rightarrow> string \<Rightarrow> bool" where
  "tracked B name \<longleftrightarrow> name \<in> fst ` set (named B) \<or> name \<in> set (namespaces B)"

definition remaining :: "bindings \<Rightarrow> node list \<Rightarrow> string \<Rightarrow> nat" where
  "remaining B statements name =
     (if tracked B name then length (filter (\<lambda>s. s = name) (uses_all statements)) else 0)"

definition isFullyUnusedParisImport :: "bindings \<Rightarrow> (string \<Rightarrow> nat) \<Rightarrow> node \<Rightarrow> bool" where
  "isFullyUnusedParisImport B rest statement =
     (if \<not> is_paris_import statement then False
      else case child 1 statement of
        None \<Rightarrow> False
      | Some clause \<Rightarrow>
          if (case child 0 clause of Some name \<Rightarrow> 0 < rest (text_of name) | None \<Rightarrow> False) then False
          else case child 1 clause of
            None \<Rightarrow> True
          | Some bs \<Rightarrow>
              if kind_of bs = KindNamespaceImport then \<not> 0 < rest (text_of_child 0 bs)
              else if kind_of bs = KindNamedImports then
                list_all (\<lambda>element. text_of_child 1 element \<in> fst ` set (named B)
                                   \<and> \<not> 0 < rest (text_of_child 1 element)) (child_nodes 0 bs)
              else True)"

definition isFullyUnusedParisRequire :: "bindings \<Rightarrow> (string \<Rightarrow> nat) \<Rightarrow> node \<Rightarrow> bool" where
  "isFullyUnusedParisRequire B rest statement =
     (if kind_of statement \<noteq> KindVariableStatement then False
      else
        let declarations = variable_declarations statement in
        if length declarations \<noteq> 1 then False
        else if \<not> isParisRequireDeclaration (declarations ! 0) then False
        else case child 0 (declarations ! 0) of
          None \<Rightarrow> False
        | Some name \<Rightarrow>
            if kind_of name = KindIdentifier then rest (text_of name) = 0
            else if kind_of name = KindObjectBindingPattern then
              list_all (\<lambda>binding.
                  child 0 binding = None
                  \<and> (case child 2 binding of
                       None \<Rightarrow> False
                     | Some localName \<Rightarrow>
                         kind_of localName = KindIdentifier
                         \<and> text_of localName \<in> fst ` set (named B)
                         \<and> \<not> 0 < rest (text_of localName))) (child_nodes 0 name)
            else False)"

definition elideUnusedImports :: "bindings \<Rightarrow> node list \<Rightarrow> node list" where
  "elideUnusedImports B statements =
     (let rest = remaining B statements
      in filter (\<lambda>statement. \<not> (isFullyUnusedParisImport B rest statement
                              \<or> isFullyUnusedParisRequire B rest statement)) statements)"

text \<open>\<open>visitSourceFile\<close>: the statements of the file, before and after.\<close>

definition collect_bindings :: "node list \<Rightarrow> bindings" where
  "collect_bindings statements = foldl collectImport no_bindings statements"

definition visitSourceFile ::
  "'n runtime \<Rightarrow> (string \<rightharpoonup> 'n Value) \<Rightarrow> node list \<Rightarrow> node list \<times> diagnostic list" where
  "visitSourceFile R vals statements =
     (let B = collect_bindings statements in
      if named B = [] \<and> namespaces B = [] then (statements, [])
      else
        let (result, ds) = visit_nodes \<lparr>configured = vals, runtime_of = R, bound = B\<rparr> statements []
        in (elideUnusedImports B result, ds))"

section \<open>Bodies\<close>

text \<open>The nodes of a callback body that belong to the callback itself.\<close>

inductive own :: "node list \<Rightarrow> node \<Rightarrow> bool" for body where
  own_statement: "n \<in> set body \<Longrightarrow> own body n"
| own_child: "own body n \<Longrightarrow> \<not> is_function_like (kind_of n) \<Longrightarrow> \<not> is_class_like (kind_of n) \<Longrightarrow>
    m \<in> set (subnodes n) \<Longrightarrow> own body m"

definition forbidden :: "node \<Rightarrow> body_error option" where
  "forbidden n =
     (if kind_of n = KindReturnStatement then Some ContainsReturn
      else if is_var_statement n then Some DeclaresVar else None)"

lemma own_mono: "own body n \<Longrightarrow> set body \<subseteq> set body' \<Longrightarrow> own body' n"
  by (induction rule: own.induct) (auto intro: own.intros)

lemma own_subnodes:
  "own (subnodes n) m \<Longrightarrow> \<not> is_function_like (kind_of n) \<Longrightarrow> \<not> is_class_like (kind_of n) \<Longrightarrow> n \<in> set body \<Longrightarrow> own body m"
  by (induction rule: own.induct) (auto intro: own.intros)

lemma own_cases_statement:
  "own body m \<Longrightarrow> \<exists>n\<in>set body. m = n
      \<or> \<not> is_function_like (kind_of n) \<and> \<not> is_class_like (kind_of n) \<and> own (subnodes n) m"
proof (induction rule: own.induct)
  case (own_child k m)
  then obtain n where n: "n \<in> set body"
    "k = n \<or> \<not> is_function_like (kind_of n) \<and> \<not> is_class_like (kind_of n) \<and> own (subnodes n) k" by blast
  then have "\<not> is_function_like (kind_of n) \<and> \<not> is_class_like (kind_of n) \<and> own (subnodes n) m"
    using own_child own.own_child [of "subnodes n" k m] own_statement [of m "subnodes n"] by blast
  with n(1) show ?case by blast
qed blast

lemma walk_eq:
  "walk err n =
     (case err of
        Some e \<Rightarrow> Some e
      | None \<Rightarrow>
          (case forbidden n of
             Some e \<Rightarrow> Some e
           | None \<Rightarrow>
               if is_function_like (kind_of n) \<or> is_class_like (kind_of n) then None
               else walk_all None (subnodes n)))"
  by (cases err) (simp_all add: walk.simps [of _ n] forbidden_def)

lemma walk_error: "walk (Some e) n = Some e" "walk_all (Some e) ns = Some e"
  by (induction ns) (simp_all add: walk.simps)

lemma walk_sound:
  "walk err n = Some e \<Longrightarrow> err = Some e \<or> (\<exists>m. own [n] m \<and> forbidden m = Some e)"
  "walk_all err ns = Some e \<Longrightarrow> err = Some e \<or> (\<exists>m. own ns m \<and> forbidden m = Some e)"
proof (induction err n and err ns rule: walk_walk_all.induct)
  case (1 err n)
  show ?case
  proof (cases "err \<noteq> None \<or> forbidden n \<noteq> None \<or> is_function_like (kind_of n) \<or> is_class_like (kind_of n)")
    case True
    have "own [n] n" by (simp add: own_statement)
    with 1(2) True show ?thesis unfolding walk_eq [of err n]
      by (cases err; cases "forbidden n") auto
  next
    case False
    then have w: "walk_all None (subnodes n) = Some e"
      using 1(2) unfolding walk_eq [of err n] by simp
    have "\<not> err \<noteq> None" "kind_of n \<noteq> KindReturnStatement" "\<not> is_var_statement n"
      using False by (auto simp: forbidden_def split: if_splits)
    then obtain m where "own (subnodes n) m" "forbidden m = Some e"
      using 1(1) False w by auto
    with False show ?thesis using own_subnodes [of n m "[n]"] by auto
  qed
next
  case (3 err n ns)
  from 3(3) have "walk_all (walk err n) ns = Some e" by simp
  from 3(2) [OF this] show ?case
  proof
    assume "walk err n = Some e"
    from 3(1) [OF this] show ?thesis using own_mono [of "[n]" _ "n # ns"] by auto
  next
    assume "\<exists>m. own ns m \<and> forbidden m = Some e"
    then show ?thesis using own_mono [of ns _ "n # ns"] by auto
  qed
qed simp

lemma walk_complete:
  "walk err n = None \<Longrightarrow> err = None \<and> (\<forall>m. own [n] m \<longrightarrow> forbidden m = None)"
  "walk_all err ns = None \<Longrightarrow> err = None \<and> (\<forall>m. own ns m \<longrightarrow> forbidden m = None)"
proof (induction err n and err ns rule: walk_walk_all.induct)
  case (1 err n)
  have e: "err = None" and f: "forbidden n = None"
    using 1(2) unfolding walk_eq [of err n] by (auto split: option.splits)
  have "\<forall>m. own (subnodes n) m \<longrightarrow> forbidden m = None"
    if nf: "\<not> is_function_like (kind_of n)" "\<not> is_class_like (kind_of n)"
  proof -
    have w: "walk_all None (subnodes n) = None"
      using 1(2) e f nf unfolding walk_eq [of err n] by simp
    have "kind_of n \<noteq> KindReturnStatement" "\<not> is_var_statement n"
      using f by (auto simp: forbidden_def split: if_splits)
    with 1(1) e nf w show ?thesis by auto
  qed
  then have "forbidden m = None" if "own [n] m" for m
    using own_cases_statement [OF that] f by auto
  with e show ?case by blast
next
  case (2 err)
  then show ?case using own_cases_statement [of "[]"] by auto
next
  case (3 err n ns)
  from 3(3) have "walk_all (walk err n) ns = None" by simp
  from 3(2) [OF this] have w: "walk err n = None" "\<forall>m. own ns m \<longrightarrow> forbidden m = None" by auto
  from 3(1) [OF w(1)] have "err = None" "\<forall>m. own [n] m \<longrightarrow> forbidden m = None" by auto
  moreover have "own (n # ns) m \<Longrightarrow> own [n] m \<or> own ns m" for m
    by (induction rule: own.induct) (simp, metis list.set_intros(1) own_statement, metis own.own_child)
  ultimately show ?case using w(2) by metis
qed

text \<open>
  a callback body is accepted exactly when no node that belongs to the callback itself, at any depth
  but not inside a nested function or class, is a return statement or a \<open>var\<close> statement; and a reported
  problem is that of such a node.
\<close>

theorem scanBody_accepts:
  "(case scanBody body of
      None \<Rightarrow> \<nexists>m. own body m \<and> (kind_of m = KindReturnStatement \<or> is_var_statement m)
    | Some ContainsReturn \<Rightarrow> \<exists>m. own body m \<and> kind_of m = KindReturnStatement
    | Some DeclaresVar \<Rightarrow> \<exists>m. own body m \<and> is_var_statement m)"
proof (cases "scanBody body")
  case None
  then have "\<forall>m. own body m \<longrightarrow> forbidden m = None" using walk_complete(2) by (auto simp: scanBody_def)
  with None show ?thesis by (auto simp: forbidden_def split: if_splits)
next
  case (Some e)
  then obtain m where "own body m" "forbidden m = Some e" using walk_sound(2) by (fastforce simp: scanBody_def)
  with Some show ?thesis by (cases e) (auto simp: forbidden_def split: if_splits)
qed

definition for_var_loop :: node where
  "for_var_loop =
     Node (KindOther ''ForStatement'') ''''
       [Child (Some (Node (KindVariableDeclarationList False) ''''
          [Children (Some [Node KindVariableDeclaration ''''
             [Child (Some (leaf KindIdentifier ''i'')), Child None, Child None, Child None]])])),
        Child None, Child None, Embedded (Some emptyStatement)]"

text \<open>
  the scan lets a \<open>var\<close> of a loop header through: the body of \<open>() => { for (var i;;); }\<close> is accepted
  although its declaration hoists out of the block the body becomes, because the header of a loop holds
  a declaration list and not a variable statement.
\<close>

theorem scanBody_misses_loop_var:
  "scanBody [for_var_loop] = None
   \<and> (\<exists>m. own [for_var_loop] m \<and> kind_of m = KindVariableDeclarationList False)"
proof
  show "scanBody [for_var_loop] = None"
    by (simp add: scanBody_def for_var_loop_def walk.simps is_var_statement_def subnodes_def leaf_def emptyStatement_def)
  have "own [for_var_loop] (hd (subnodes for_var_loop))"
    by (rule own_child [OF own_statement [of for_var_loop]])
      (simp_all add: for_var_loop_def subnodes_def)
  moreover have "kind_of (hd (subnodes for_var_loop)) = KindVariableDeclarationList False"
    by (simp add: for_var_loop_def subnodes_def)
  ultimately show "\<exists>m. own [for_var_loop] m \<and> kind_of m = KindVariableDeclarationList False" by blast
qed

end
