(* ===== verification/ParisFrozen.thy ===== *)
theory ParisFrozen
  imports ParisTransform
begin

text \<open>
  What the paris transformer leaves behind: a file that is transformed without a diagnostic has no call
  of the package left, no evaluation panics, and an import is removed only when nothing refers to it.
\<close>

section \<open>Trees without calls of the package\<close>

text \<open>The nodes of a tree.\<close>

inductive within :: "node \<Rightarrow> node \<Rightarrow> bool" for n where
  within_self: "within n n"
| within_sub: "within n m \<Longrightarrow> k \<in> set (subnodes m) \<Longrightarrow> within n k"

lemma within_subnode: "m \<in> set (subnodes n) \<Longrightarrow> within m k \<Longrightarrow> within n k"
  by (rotate_tac) (induction rule: within.induct, auto intro: within.intros)

lemma within_cases: "within n k \<longleftrightarrow> k = n \<or> (\<exists>m\<in>set (subnodes n). within m k)"
proof
  show "within n k \<Longrightarrow> k = n \<or> (\<exists>m\<in>set (subnodes n). within m k)"
    by (induction rule: within.induct) (auto intro: within.intros)
qed (auto intro: within_self within_subnode)

definition paris_call :: "bindings \<Rightarrow> node \<Rightarrow> bool" where
  "paris_call B n \<longleftrightarrow> kind_of n = KindCallExpression \<and> classifyCall B n \<noteq> None"

definition frozen :: "bindings \<Rightarrow> node \<Rightarrow> bool" where
  "frozen B n \<longleftrightarrow> (\<forall>m. within n m \<longrightarrow> \<not> paris_call B m)"

lemma frozen_iff: "frozen B n \<longleftrightarrow> \<not> paris_call B n \<and> (\<forall>m\<in>set (subnodes n). frozen B m)"
  unfolding frozen_def using within_cases [of n] by auto

definition frozen_slot :: "bindings \<Rightarrow> slot \<Rightarrow> bool" where
  "frozen_slot B s \<longleftrightarrow> (\<forall>m\<in>set (slot_nodes s). frozen B m)"

lemma frozen_Node:
  "frozen B (Node k t ss) \<longleftrightarrow> \<not> paris_call B (Node k t ss) \<and> (\<forall>s\<in>set ss. frozen_slot B s)"
  by (subst frozen_iff) (auto simp: subnodes_def frozen_slot_def)

lemma frozen_slot_simps [simp]:
  "frozen_slot B (Child None)" "frozen_slot B (Child (Some n)) = frozen B n"
  "frozen_slot B (Embedded None)" "frozen_slot B (Embedded (Some n)) = frozen B n"
  "frozen_slot B (Children None)" "frozen_slot B (Children (Some ns)) = (\<forall>n\<in>set ns. frozen B n)"
  by (simp_all add: frozen_slot_def)

lemma frozen_slot_Child: "frozen_slot B (Child c) \<longleftrightarrow> (\<forall>n. c = Some n \<longrightarrow> frozen B n)"
  by (cases c) simp_all

lemma not_call [simp]: "k \<noteq> KindCallExpression \<Longrightarrow> \<not> paris_call B (Node k t ss)"
  by (simp add: paris_call_def)

lemma frozen_leaf [simp]: "k \<noteq> KindCallExpression \<Longrightarrow> frozen B (leaf k t)"
  by (simp add: leaf_def frozen_Node)

text \<open>The literals that stand for values.\<close>

lemma frozen_number [simp]: "frozen B (numberExpression R n)"
  by (simp add: numberExpression_def Let_def frozen_Node)

lemma frozen_bool [simp]: "frozen B (boolExpression b)"
  by (simp add: boolExpression_def)

lemma frozen_property [simp]: "frozen B (property_assignment p) = frozen B (snd p)"
  by (simp add: property_assignment_def frozen_Node)

lemma frozen_json: "frozen B (jsonExpression R j)"
proof (induction R j rule: jsonExpression.induct)
  case (6 R es)
  have "\<forall>p\<in>set (byName (map (\<lambda>(key, v). (key, jsonExpression R v)) es)). frozen B (snd p)"
    using 6 by (auto simp: byName_def)
  then show ?case by (simp add: frozen_Node)
next
  case (7 R es)
  then show ?case by (auto simp: frozen_Node)
qed (simp_all add: frozen_Node)

lemma frozen_bytes: "frozen B (bytesExpression bytes b)"
proof -
  have "predicateNames ''from'' = None" by (simp add: predicateNames_def predicate_table_def)
  then show ?thesis
    by (simp add: bytesExpression_def Let_def frozen_Node paris_call_def classifyCall_def child_def
        text_of_child_def leaf_def)
qed

lemma frozen_value: "frozen B (expressionForValue R v)"
  by (cases v) (simp_all add: expressionForValue_def frozen_json frozen_bytes)

text \<open>The kinds of those literals: none can be the callee of a call of the package.\<close>

lemma json_kind: "kind_of (jsonExpression R j) \<notin> {KindIdentifier, KindPropertyAccessExpression}"
  by (cases j) (simp_all add: numberExpression_def boolExpression_def Let_def leaf_def)

lemma value_kind: "kind_of (expressionForValue R v) \<notin> {KindIdentifier, KindPropertyAccessExpression}"
  using json_kind by (cases v)
    (simp_all add: expressionForValue_def numberExpression_def boolExpression_def bytesExpression_def Let_def leaf_def)

section \<open>Diagnostics only grow\<close>

lemma visit_extends:
  "\<exists>es. snd (visit tx n ds) = ds @ es"
  "\<exists>es. snd (visit_slot tx s ds) = ds @ es"
  "\<exists>es. snd (visit_slots tx ss ds) = ds @ es"
  "\<exists>es. snd (visit_nodes tx ns ds) = ds @ es"
proof (induction tx n ds and tx s ds and tx ss ds and tx ns ds rule: visit_visit_slot_visit_slots_visit_nodes.induct)
  case (1 tx n ds)
  then show ?case
    by (cases "visit_step tx n") (auto simp: visit.simps [of tx n ds] split: prod.splits)
next
  case (9 tx s ss ds)
  show ?case
    using 9(1) 9(2) [OF refl prod.collapse]
    by (auto split: prod.splits)
next
  case (11 tx n ns ds)
  show ?case
    using 11(1) 11(2) [OF refl prod.collapse]
    by (auto split: prod.splits)
qed (auto split: prod.splits)

text \<open>A clean visit adds none.\<close>

lemma visit_slots_clean:
  assumes "visit_slots tx (s # ss) ds = (r, ds)"
  shows "\<exists>s' ss'. visit_slot tx s ds = (s', ds) \<and> visit_slots tx ss ds = (ss', ds) \<and> r = s' # ss'"
proof -
  obtain s' d1 where s: "visit_slot tx s ds = (s', d1)" by force
  obtain ss' d2 where ss: "visit_slots tx ss d1 = (ss', d2)" by force
  have "d2 = ds" "r = s' # ss'" using assms s ss by simp_all
  moreover obtain e1 where "d1 = ds @ e1" using visit_extends(2) [of tx s ds] s by auto
  moreover obtain e2 where "d2 = d1 @ e2" using visit_extends(3) [of tx ss d1] ss by auto
  ultimately show ?thesis using s ss by auto
qed

lemma visit_nodes_clean:
  assumes "visit_nodes tx (n # ns) ds = (r, ds)"
  shows "\<exists>v ns'. visit tx n ds = (v, ds) \<and> visit_nodes tx ns ds = (ns', ds)
    \<and> r = (case v of Some n' \<Rightarrow> n' # ns' | None \<Rightarrow> ns')"
proof -
  obtain v d1 where s: "visit tx n ds = (v, d1)" by force
  obtain ns' d2 where ss: "visit_nodes tx ns d1 = (ns', d2)" by force
  have "d2 = ds" "r = (case v of Some n' \<Rightarrow> n' # ns' | None \<Rightarrow> ns')" using assms s ss by simp_all
  moreover obtain e1 where "d1 = ds @ e1" using visit_extends(1) [of tx n ds] s by auto
  moreover obtain e2 where "d2 = d1 @ e2" using visit_extends(4) [of tx ns d1] ss by auto
  ultimately show ?thesis using s ss by auto
qed

section \<open>A clean visit freezes every call\<close>

text \<open>
  The parser makes the name of a property access an identifier or a private name: in particular it is
  not a call and not a statement. This is all that is asked of a tree.
\<close>

definition names_ok :: "node \<Rightarrow> bool" where
  "names_ok n \<longleftrightarrow>
     (\<forall>m. within n m \<and> kind_of m = KindPropertyAccessExpression \<longrightarrow>
        (case child 2 m of
           Some name \<Rightarrow> kind_of name \<noteq> KindCallExpression \<and> kind_of name \<noteq> KindExpressionStatement
         | None \<Rightarrow> True))"

lemma names_ok_sub: "names_ok n \<Longrightarrow> m \<in> set (subnodes n) \<Longrightarrow> names_ok m"
  by (auto simp: names_ok_def intro: within_subnode)

lemma names_ok_slot: "names_ok n \<Longrightarrow> s \<in> set (slots_of n) \<Longrightarrow> m \<in> set (slot_nodes s) \<Longrightarrow> names_ok m"
  by (rule names_ok_sub) (auto simp: subnodes_def)

lemma names_ok_wrap:
  "names_ok e \<Longrightarrow> names_ok (Node KindExpressionStatement '''' [Child (Some e)])"
  by (auto simp: names_ok_def within_cases [of "Node KindExpressionStatement _ _"] subnodes_def)

lemma checked_body_names:
  "names_ok body \<Longrightarrow> checked_body body = Inr statements \<Longrightarrow> m \<in> set statements \<Longrightarrow> names_ok m"
  by (auto simp: checked_body_def Let_def names_ok_wrap split: if_splits option.splits
      dest: names_ok_sub child_nodes_subnode)

lemma unwrap_names:
  assumes "visit_step tx n = Unwrap body" "names_ok n" "m \<in> set body"
  shows "names_ok m"
proof -
  obtain call pred where c: "child 0 n = Some call" "applyCondition tx call pred = Survives body"
    using assms(1) unfolding visit_step_def statement_call_def
    by (auto split: option.splits if_splits outcome.splits sum.splits)
  let ?as = "child_nodes 3 call"
  have l: "length ?as = argCount pred" "callbackBlock (?as ! (length ?as - 1)) = Inr body"
    using c(2) unfolding applyCondition_def Let_def
    by (auto split: option.splits sum.splits prod.splits if_splits)
  then have "?as \<noteq> []" by (cases pred) (auto simp: argCount_def)
  then have "?as ! (length ?as - 1) \<in> set ?as" by simp
  then have ok: "names_ok (?as ! (length ?as - 1))"
    using names_ok_sub [OF assms(2) child_subnode [OF c(1)]] by (blast intro: names_ok_sub child_nodes_subnode)
  obtain i b where "child i (?as ! (length ?as - 1)) = Some b" "checked_body b = Inr body"
    using l(2) by (auto simp: callbackBlock_def split: if_splits option.splits)
  with ok assms(3) show ?thesis by (blast intro: checked_body_names names_ok_sub child_subnode)
qed

text \<open>What a clean visit can return for a node.\<close>

lemma clean_cases:
  assumes "visit tx n ds = (v, ds)"
  obtains (Descend) slots where "visit_step tx n = Descend" "visit_slots tx (slots_of n) ds = (slots, ds)"
      "v = Some (Node (kind_of n) (text_of n) slots)"
  | (Removed) "v = None"
  | (Replaced) literal where "visit_step tx n = Replace literal" "v = Some literal"
  | (Unwrapped) body body' where "visit_step tx n = Unwrap body" "visit_nodes tx body ds = (body', ds)" "v = Some (block body')"
proof (cases "visit_step tx n")
  case Descend
  obtain slots d where "visit_slots tx (slots_of n) ds = (slots, d)" by force
  with assms Descend that(1) show ?thesis by (simp add: visit.simps [of tx n ds])
next
  case (Report m)
  with assms show ?thesis by (simp add: visit.simps [of tx n ds])
next
  case Remove
  with assms that(2) show ?thesis by (simp add: visit.simps [of tx n ds])
next
  case (Replace literal)
  with assms that(3) show ?thesis by (simp add: visit.simps [of tx n ds])
next
  case (Unwrap body)
  obtain body' d where "visit_nodes tx body ds = (body', d)" by force
  with assms Unwrap that(4) show ?thesis by (simp add: visit.simps [of tx n ds])
qed

lemma replace_value:
  assumes "visit_step tx n = Replace literal"
  obtains w where "literal = expressionForValue (runtime_of tx) w"
  using assms unfolding visit_step_def applyValue_def Let_def
  by (auto split: option.splits if_splits outcome.splits sum.splits)

text \<open>Identifiers and property accesses in the result come from the same kind of node.\<close>

lemma clean_kind:
  assumes "visit tx n ds = (Some n', ds)" "kind_of n' \<in> {KindIdentifier, KindPropertyAccessExpression}"
  shows "\<exists>slots. visit_slots tx (slots_of n) ds = (slots, ds) \<and> n' = Node (kind_of n) (text_of n) slots"
  using assms(1)
proof (cases rule: clean_cases)
  case (Replaced literal)
  then show ?thesis using assms(2) value_kind by (metis option.inject replace_value)
qed (use assms(2) in \<open>simp_all add: block_def\<close>)

lemma slot_cases:
  obtains "s = Child None" | c where "s = Child (Some c)" | "s = Embedded None" | c where "s = Embedded (Some c)"
    | "s = Children None" | ns where "s = Children (Some ns)"
  by (cases s; metis option.exhaust)

lemma slots_clean_nth:
  "visit_slots tx ss ds = (ss', ds) \<Longrightarrow>
   length ss' = length ss \<and> (\<forall>i<length ss. visit_slot tx (ss ! i) ds = (ss' ! i, ds))"
proof (induction ss arbitrary: ss')
  case (Cons s ss)
  from visit_slots_clean [OF Cons.prems] obtain s' r where
    "visit_slot tx s ds = (s', ds)" "visit_slots tx ss ds = (r, ds)" "ss' = s' # r" by blast
  then show ?case using Cons.IH [of r] by (auto simp: less_Suc_eq_0_disj)
qed simp

lemma slot_child:
  assumes "visit_slots tx (slots_of n) ds = (slots, ds)" "child i (Node k t slots) = Some c'"
  shows "\<exists>c. child i n = Some c \<and> (visit tx c ds = (Some c', ds) \<or> c' = emptyStatement)"
proof -
  have i: "i < length slots" using assms(2) by (simp add: child_def split: if_splits)
  have l: "length slots = length (slots_of n)"
    and v: "visit_slot tx (slots_of n ! i) ds = (slots ! i, ds)"
    using slots_clean_nth [OF assms(1)] i by auto
  have c': "(case slots ! i of Child c \<Rightarrow> c | Embedded c \<Rightarrow> c | Children _ \<Rightarrow> None) = Some c'"
    using assms(2) i by (simp add: child_def)
  have c: "child i n = (case slots_of n ! i of Child c \<Rightarrow> c | Embedded c \<Rightarrow> c | Children _ \<Rightarrow> None)"
    using i l by (simp add: child_def)
  show ?thesis
    unfolding c using v c'
    by (cases "slots ! i"; cases "slots_of n ! i" rule: slot_cases) (auto split: prod.splits option.splits)
qed

lemma emptyStatement_kind [simp]: "kind_of emptyStatement = KindEmptyStatement"
  by (simp add: emptyStatement_def leaf_def)

text \<open>A name that is neither a call nor a statement keeps its text.\<close>

lemma name_text:
  assumes "names_ok n" "kind_of n = KindPropertyAccessExpression"
    "visit_slots tx (slots_of n) ds = (slots, ds)"
  shows "text_of_child 2 (Node k t slots) \<in> {text_of_child 2 n, ''''}"
proof (cases "child 2 (Node k t slots)")
  case None
  then show ?thesis by (simp add: text_of_child_def)
next
  case (Some c')
  obtain c where c: "child 2 n = Some c" "visit tx c ds = (Some c', ds) \<or> c' = emptyStatement"
    using slot_child [OF assms(3) Some] by blast
  have "within n n" by (rule within_self)
  then have "kind_of c \<noteq> KindCallExpression \<and> kind_of c \<noteq> KindExpressionStatement"
    using assms(1,2) c(1) by (force simp: names_ok_def)
  then have "visit_step tx c = Descend" by (simp add: visit_step_def statement_call_def)
  then have "text_of c' \<in> {text_of c, ''''}"
    using c(2) by (auto simp: visit.simps [of tx c ds] emptyStatement_def leaf_def split: prod.splits)
  then show ?thesis using Some c(1) by (simp add: text_of_child_def)
qed

lemma no_name: "predicateNames '''' = None"
  by (simp add: predicateNames_def predicate_table_def)

text \<open>So a call that is not one of the package does not become one when its children are visited.\<close>

lemma classify_stable:
  assumes "names_ok n" "classifyCall (bound tx) n = None" "visit_slots tx (slots_of n) ds = (slots, ds)"
  shows "classifyCall (bound tx) (Node k t slots) = None"
proof (rule ccontr)
  assume a: "classifyCall (bound tx) (Node k t slots) \<noteq> None"
  then obtain c' where c': "child 0 (Node k t slots) = Some c'"
    by (cases "child 0 (Node k t slots)") (simp_all add: classifyCall_def)
  then have k': "kind_of c' \<in> {KindIdentifier, KindPropertyAccessExpression}"
    using a by (auto simp: classifyCall_def split: if_splits)
  obtain c where c: "child 0 n = Some c" "visit tx c ds = (Some c', ds)"
    using slot_child [OF assms(3) c'] k' by auto
  obtain cs where cs: "visit_slots tx (slots_of c) ds = (cs, ds)" "c' = Node (kind_of c) (text_of c) cs"
    using clean_kind [OF c(2) k'] by blast
  have okc: "names_ok c" using names_ok_sub [OF assms(1) child_subnode [OF c(1)]] .
  show False
  proof (cases "kind_of c = KindIdentifier")
    case True
    with a c' c(1) cs(2) assms(2) show False by (simp add: classifyCall_def)
  next
    case False
    with k' cs(2) have k: "kind_of c = KindPropertyAccessExpression" by simp
    obtain m' where m': "child 0 c' = Some m'" "kind_of m' = KindIdentifier" "text_of m' \<in> set (namespaces (bound tx))"
      and p: "predicateNames (text_of_child 2 c') \<noteq> None"
      using a c' k cs(2) by (auto simp: classifyCall_def split: option.splits if_splits)
    obtain m where m: "child 0 c = Some m" "visit tx m ds = (Some m', ds)"
      using slot_child [OF cs(1), of 0 "kind_of c" "text_of c" m'] m'(1,2) cs(2) by auto
    then obtain ms where "m' = Node (kind_of m) (text_of m) ms"
      using clean_kind [OF m(2)] m'(2) by blast
    with m' have "kind_of m = KindIdentifier" "text_of m \<in> set (namespaces (bound tx))" by simp_all
    moreover have "text_of_child 2 c' = text_of_child 2 c"
      using name_text [OF okc k cs(1), of "kind_of c" "text_of c"] p no_name cs(2) by auto
    ultimately show False
      using assms(2) c(1) k m(1) p by (simp add: classifyCall_def)
  qed
qed

lemma visit_frozen:
  "\<lbrakk>visit tx n ds = (v, ds); names_ok n\<rbrakk> \<Longrightarrow> \<forall>n'. v = Some n' \<longrightarrow> frozen (bound tx) n'"
  "\<lbrakk>visit_slot tx s ds = (s', ds); \<forall>m\<in>set (slot_nodes s). names_ok m\<rbrakk> \<Longrightarrow> frozen_slot (bound tx) s'"
  "\<lbrakk>visit_slots tx ss ds = (ss', ds); \<forall>s\<in>set ss. \<forall>m\<in>set (slot_nodes s). names_ok m\<rbrakk> \<Longrightarrow>
     \<forall>s\<in>set ss'. frozen_slot (bound tx) s"
  "\<lbrakk>visit_nodes tx ns ds = (ns', ds); \<forall>m\<in>set ns. names_ok m\<rbrakk> \<Longrightarrow> \<forall>m\<in>set ns'. frozen (bound tx) m"
proof (induction tx n ds and tx s ds and tx ss ds and tx ns ds arbitrary: v and s' and ss' and ns'
    rule: visit_visit_slot_visit_slots_visit_nodes.induct)
  case (1 tx n ds)
  from 1(3) show ?case
  proof (cases rule: clean_cases)
    case (Descend slots)
    have "\<forall>s\<in>set (slots_of n). \<forall>m\<in>set (slot_nodes s). names_ok m"
      using 1(4) by (auto intro: names_ok_slot)
    then have f: "\<forall>s\<in>set slots. frozen_slot (bound tx) s"
      using 1(1) Descend by blast
    have "\<not> paris_call (bound tx) (Node (kind_of n) (text_of n) slots)"
    proof
      assume a: "paris_call (bound tx) (Node (kind_of n) (text_of n) slots)"
      then have k: "kind_of n = KindCallExpression" by (simp add: paris_call_def)
      then have "classifyCall (bound tx) n = None"
        using Descend(1) unfolding visit_step_def statement_call_def
        by (auto split: option.splits if_splits sum.splits)
      from classify_stable [OF 1(4) this Descend(2)] a show False by (simp add: paris_call_def)
    qed
    with f Descend(3) show ?thesis by (simp add: frozen_Node)
  next
    case (Replaced literal)
    then show ?thesis by (metis frozen_value option.inject replace_value)
  next
    case (Unwrapped body body')
    have "\<forall>m\<in>set body. names_ok m" using unwrap_names [OF Unwrapped(1) 1(4)] by blast
    then have "\<forall>m\<in>set body'. frozen (bound tx) m" using 1(2) Unwrapped by blast
    with Unwrapped(3) show ?thesis by (simp add: block_def frozen_Node)
  qed simp
next
  case (9 tx s ss ds)
  from visit_slots_clean [OF 9(3)] obtain s1 r where
    c: "visit_slot tx s ds = (s1, ds)" "visit_slots tx ss ds = (r, ds)" "ss' = s1 # r" by blast
  have "frozen_slot (bound tx) s1" using 9(1) c(1) 9(4) by simp
  moreover have "\<forall>s\<in>set r. frozen_slot (bound tx) s"
    using 9(2) [of "(s1, ds)" s1 ds r] c 9(4) by simp
  ultimately show ?case using c(3) by simp
next
  case (11 tx n ns ds)
  from visit_nodes_clean [OF 11(3)] obtain v r where
    c: "visit tx n ds = (v, ds)" "visit_nodes tx ns ds = (r, ds)"
      "ns' = (case v of Some n' \<Rightarrow> n' # r | None \<Rightarrow> r)" by blast
  have "\<forall>n'. v = Some n' \<longrightarrow> frozen (bound tx) n'" using 11(1) c(1) 11(4) by simp
  moreover have "\<forall>m\<in>set r. frozen (bound tx) m"
    using 11(2) [of "(v, ds)" v ds r] c 11(4) by simp
  ultimately show ?case using c(3) by (cases v) simp_all
qed (auto split: prod.splits option.splits simp: emptyStatement_def frozen_slot_Child)

section \<open>No evaluation panics\<close>

lemma operands_operands_ok:
  assumes "operands R pred arguments = Inr (arg, pattern)" "pred \<noteq> predValue"
  shows "operands_ok pred arg pattern"
  using assms
  by (cases pred) (auto simp: operands_def operands_ok_def split: sum.splits comparand.splits)

lemma applyCondition_no_panic:
  assumes "pred \<noteq> predValue"
  shows "applyCondition tx call pred \<noteq> Misuse Panicked"
proof
  assume "applyCondition tx call pred = Misuse Panicked"
  then obtain name arg pattern where
    "operands (runtime_of tx) pred (child_nodes 3 call) = Inr (arg, pattern)"
    "evaluate (runtime_of tx) pred name (configured tx name) arg pattern = None"
    unfolding applyCondition_def Let_def
    by (auto split: option.splits sum.splits prod.splits if_splits)
  then show False
    using evaluate_cases [OF operands_operands_ok [OF _ assms], of "runtime_of tx" "child_nodes 3 call" arg pattern
        "runtime_of tx" name "configured tx name"] by auto
qed

lemma visit_step_no_panic: "visit_step tx n \<noteq> Report Panicked"
proof
  assume a: "visit_step tx n = Report Panicked"
  show False
  proof (cases "statement_call (bound tx) n")
    case None
    with a show False
      unfolding visit_step_def applyValue_def Let_def by (auto split: option.splits if_splits sum.splits)
  next
    case (Some cp)
    then obtain call pred where cp: "cp = (call, pred)" "pred \<noteq> predValue"
      unfolding statement_call_def by (auto split: option.splits if_splits)
    with Some a applyCondition_no_panic [of pred tx call] show False
      unfolding visit_step_def by (auto split: outcome.splits)
  qed
qed

lemma visit_no_panic:
  "Panicked \<notin> snd ` set ds \<Longrightarrow> Panicked \<notin> snd ` set (snd (visit tx n ds))"
  "Panicked \<notin> snd ` set ds \<Longrightarrow> Panicked \<notin> snd ` set (snd (visit_slot tx s ds))"
  "Panicked \<notin> snd ` set ds \<Longrightarrow> Panicked \<notin> snd ` set (snd (visit_slots tx ss ds))"
  "Panicked \<notin> snd ` set ds \<Longrightarrow> Panicked \<notin> snd ` set (snd (visit_nodes tx ns ds))"
proof (induction tx n ds and tx s ds and tx ss ds and tx ns ds rule: visit_visit_slot_visit_slots_visit_nodes.induct)
  case (1 tx n ds)
  then show ?case using visit_step_no_panic [of tx n]
    by (cases "visit_step tx n") (auto simp: visit.simps [of tx n ds] split: prod.splits)
next
  case (9 tx s ss ds)
  then show ?case using 9(2) [OF refl prod.collapse] by (auto split: prod.splits)
next
  case (11 tx n ns ds)
  then show ?case using 11(2) [OF refl prod.collapse] by (auto split: prod.splits)
qed (auto split: prod.splits)


text \<open>\<open>import { ifDef } from "@conmoong/paris"; ifDef("X", () => { paris; });\<close>\<close>

definition sample_import :: node where
  "sample_import =
     Node KindImportDeclaration ''''
       [Children None,
        Child (Some (Node KindImportClause ''''
          [Child None,
           Child (Some (Node KindNamedImports ''''
             [Children (Some [Node KindImportSpecifier '''' [Child None, Child (Some (leaf KindIdentifier ''ifDef''))]])]))])),
        Child (Some (leaf KindStringLiteral PluginName)), Child None]"

definition sample_body :: node where
  "sample_body = Node KindExpressionStatement '''' [Child (Some (leaf KindIdentifier ''paris''))]"

definition sample_condition :: node where
  "sample_condition =
     Node KindExpressionStatement ''''
       [Child (Some (Node KindCallExpression ''''
          [Child (Some (leaf KindIdentifier ''ifDef'')), Child None, Children None,
           Children (Some
             [leaf KindStringLiteral ''X'',
              Node KindArrowFunction ''''
                [Children None, Children None, Children (Some []), Child None, Child None, Child None,
                 Child (Some (block [sample_body]))]])]))]"

lemma names_ok_iff:
  "names_ok n \<longleftrightarrow>
     (kind_of n = KindPropertyAccessExpression \<longrightarrow>
        (case child 2 n of
           Some name \<Rightarrow> kind_of name \<noteq> KindCallExpression \<and> kind_of name \<noteq> KindExpressionStatement
         | None \<Rightarrow> True))
     \<and> (\<forall>m\<in>set (subnodes n). names_ok m)"
  unfolding names_ok_def using within_cases [of n] by (auto split: option.splits)

lemma names_ok_Node:
  "names_ok (Node k t ss) \<longleftrightarrow>
     (k = KindPropertyAccessExpression \<longrightarrow>
        (case child 2 (Node k t ss) of
           Some name \<Rightarrow> kind_of name \<noteq> KindCallExpression \<and> kind_of name \<noteq> KindExpressionStatement
         | None \<Rightarrow> True))
     \<and> (\<forall>s\<in>set ss. \<forall>m\<in>set (slot_nodes s). names_ok m)"
  using names_ok_iff [of "Node k t ss"] by (simp add: subnodes_def)

lemmas sample_defs = sample_import_def sample_condition_def sample_body_def block_def leaf_def

lemma sample_names_ok: "names_ok sample_import" "names_ok sample_condition"
  by (simp_all add: sample_defs names_ok_Node)

lemma sample_bindings: "collect_bindings [sample_import, sample_condition] = \<lparr>named = [(''ifDef'', predIfDef)], namespaces = []\<rparr>"
  by (simp add: collect_bindings_def collectImport_def collectESMImport_def is_paris_import_def sample_defs child_def
      child_nodes_def child_list_def import_specifier_def text_of_child_def addNamed_def predicateNames_def
      predicate_table_def no_bindings_def PluginName_def)

lemma scan_sample: "scanBody [sample_body] = None"
  by (simp add: scanBody_def walk_eq forbidden_def sample_defs is_var_statement_def subnodes_def)

lemma sample_file:
  "visitSourceFile sample_runtime [''X'' \<mapsto> KindBool True] [sample_import, sample_condition] = ([block [sample_body]], [])"
proof -
  let ?B = "\<lparr>named = [(''ifDef'', predIfDef)], namespaces = []\<rparr>"
  let ?tx = "\<lparr>configured = [''X'' \<mapsto> KindBool True], runtime_of = sample_runtime, bound = ?B\<rparr>"
  have plain: "visit_step ?tx n = Descend"
    if "kind_of n \<noteq> KindCallExpression" "kind_of n \<noteq> KindExpressionStatement" for n
    using that by (simp add: visit_step_def statement_call_def)
  have body: "visit_step ?tx sample_body = Descend"
    by (simp add: visit_step_def statement_call_def sample_defs child_def)
  have unwrap: "visit_step ?tx sample_condition = Unwrap [sample_body]"
    using scan_sample
    by (simp add: visit_step_def statement_call_def sample_defs child_def classifyCall_def lookup_named_def
        applyCondition_def child_nodes_def child_list_def argCount_def stringLiteral_def is_string_literal_like_def
        operands_def callbackBlock_def checked_body_def evaluate_def)
  have imp: "visit ?tx sample_import [] = (Some sample_import, [])"
    by (simp add: sample_import_def leaf_def visit.simps [of ?tx] plain)
  have bod: "visit ?tx sample_body [] = (Some sample_body, [])"
    using body by (simp add: sample_body_def leaf_def visit.simps [of ?tx] plain)
  have con: "visit ?tx sample_condition [] = (Some (block [sample_body]), [])"
    by (simp add: visit.simps [of ?tx sample_condition] unwrap bod)
  have rest: "remaining ?B [sample_import, block [sample_body]] ''ifDef'' = 0"
    by (simp add: remaining_def uses.simps [of "Node _ _ _"] sample_defs is_paris_import_def child_def subnodes_def)
  have keep: "\<not> isFullyUnusedParisImport ?B r (block [sample_body])"
    "\<not> isFullyUnusedParisRequire ?B r sample_import" "\<not> isFullyUnusedParisRequire ?B r (block [sample_body])" for r
    by (simp_all add: isFullyUnusedParisImport_def isFullyUnusedParisRequire_def is_paris_import_def sample_defs)
  have drop_import: "isFullyUnusedParisImport ?B (remaining ?B [sample_import, block [sample_body]]) sample_import"
    using rest unfolding isFullyUnusedParisImport_def
    by (simp add: sample_import_def is_paris_import_def child_def child_nodes_def child_list_def text_of_child_def leaf_def)
  show ?thesis
    using keep drop_import
    by (simp add: visitSourceFile_def sample_bindings imp con elideUnusedImports_def Let_def)
qed


section \<open>Imports are removed only when unused\<close>

text \<open>The local names an import of the package introduces.\<close>

definition import_names :: "node \<Rightarrow> string list" where
  "import_names statement =
     (case child 1 statement of
        None \<Rightarrow> []
      | Some clause \<Rightarrow>
          (case child 0 clause of Some name \<Rightarrow> [text_of name] | None \<Rightarrow> [])
          @ (case child 1 clause of
               None \<Rightarrow> []
             | Some bs \<Rightarrow>
                 if kind_of bs = KindNamespaceImport then [text_of_child 0 bs]
                 else if kind_of bs = KindNamedImports then map (text_of_child 1) (child_nodes 0 bs)
                 else []))"

definition require_names :: "node \<Rightarrow> string list" where
  "require_names statement =
     (case child 0 (variable_declarations statement ! 0) of
        None \<Rightarrow> []
      | Some name \<Rightarrow>
          if kind_of name = KindIdentifier then [text_of name]
          else map (text_of_child 2) (child_nodes 0 name))"

lemma uses_all_set: "set (uses_all ns) = (\<Union>n\<in>set ns. set (uses n))"
  by (induction ns) simp_all

lemma remaining_0: "tracked B name \<Longrightarrow> remaining B statements name = 0 \<longleftrightarrow> name \<notin> set (uses_all statements)"
  by (auto simp: remaining_def filter_empty_conv)

lemma elide_subset: "set (uses_all (elideUnusedImports B statements)) \<subseteq> set (uses_all statements)"
  by (auto simp: uses_all_set elideUnusedImports_def Let_def)

lemma unused_import_names:
  "isFullyUnusedParisImport B rest statement \<Longrightarrow> name \<in> set (import_names statement) \<Longrightarrow> rest name = 0"
  by (auto simp: isFullyUnusedParisImport_def import_names_def list_all_iff split: if_splits option.splits)

lemma unused_require_names:
  "isFullyUnusedParisRequire B rest statement \<Longrightarrow> name \<in> set (require_names statement) \<Longrightarrow> rest name = 0"
  by (auto simp: isFullyUnusedParisRequire_def require_names_def list_all_iff Let_def text_of_child_def
      split: if_splits option.splits)



end
