(* ===== verification/GraphConfig.thy ===== *)
theory GraphConfig
  imports Config Pattern "HOL-Library.AList"
begin

text \<open>
  \<open>tsc/internal/tscp/graph/config.go\<close>: the severities and rules of the module-graph plugin and how
  they are read from its entry in a tsconfig. A nil \<open>*Severity\<close> is \<open>None\<close>. The map \<open>byPattern\<close> and
  the list \<open>order\<close> of \<open>parseRules\<close> are one association list in the order of the first occurrences.
\<close>

section \<open>Severities\<close>

datatype Severity = SeverityAllow | SeverityWarning | SeverityError

fun severity_int :: "Severity \<Rightarrow> int" where
  "severity_int SeverityAllow = 0"
| "severity_int SeverityWarning = 1"
| "severity_int SeverityError = 2"

lemma severity_int_inject: "severity_int a = severity_int b \<longleftrightarrow> a = b"
  by (cases a; cases b) simp_all

instantiation Severity :: linorder
begin

definition less_eq_Severity :: "Severity \<Rightarrow> Severity \<Rightarrow> bool" where
  "a \<le> b \<longleftrightarrow> severity_int a \<le> severity_int b"

definition less_Severity :: "Severity \<Rightarrow> Severity \<Rightarrow> bool" where
  "a < b \<longleftrightarrow> severity_int a < severity_int b"

instance
  by standard (auto simp: less_eq_Severity_def less_Severity_def severity_int_inject)

end

lemma reported_iff: "SeverityAllow < s \<longleftrightarrow> s \<noteq> SeverityAllow"
  by (cases s) (simp_all add: less_Severity_def)

definition parseSeverity :: "'n json \<Rightarrow> Severity option" where
  "parseSeverity v =
     (case as_string v of
        None \<Rightarrow> None
      | Some s \<Rightarrow>
          (if s = ''error'' then Some SeverityError
           else if s = ''warning'' then Some SeverityWarning
           else if s = ''allow'' then Some SeverityAllow
           else None))"

section \<open>Rules\<close>

record ImportRule =
  import_pattern :: Pattern
  import_severity :: Severity

record Rule =
  rule_pattern :: Pattern
  PatternText :: string
  PhantomImport :: "Severity option"
  CycleRule :: "Severity option"
  DevLeak :: "Severity option"
  Unused :: "Severity option"
  ImportRules :: "ImportRule list"

definition new_rule :: "Pattern \<Rightarrow> string \<Rightarrow> Rule" where
  "new_rule p t =
     \<lparr>rule_pattern = p, PatternText = t, PhantomImport = None, CycleRule = None, DevLeak = None, Unused = None,
      ImportRules = []\<rparr>"

text \<open>The \<open>module\<close> of an entry, when it is a string and a valid pattern.\<close>

definition module_pattern :: "'n json \<Rightarrow> (string \<times> Pattern) option" where
  "module_pattern entry =
     (case ConfigGet entry ''module'' of
        None \<Rightarrow> None
      | Some moduleValue \<Rightarrow>
          (case as_string moduleValue of
             None \<Rightarrow> None
           | Some patternText \<Rightarrow>
               (let parsed = TryParsePattern patternText
                in if IsValid parsed then Some (patternText, parsed) else None)))"

definition import_rule :: "'n json \<Rightarrow> ImportRule option" where
  "import_rule entry =
     (case module_pattern entry of
        None \<Rightarrow> None
      | Some (_, parsed) \<Rightarrow>
          Some \<lparr>import_pattern = parsed,
                import_severity =
                  (case ConfigGet entry ''severity'' of
                     None \<Rightarrow> SeverityAllow
                   | Some v \<Rightarrow> (case parseSeverity v of Some s \<Rightarrow> s | None \<Rightarrow> SeverityAllow))\<rparr>)"

definition parseImportRules :: "'n json list \<Rightarrow> ImportRule list" where
  "parseImportRules xs = List.map_filter import_rule xs"

text \<open>A setting of the entry replaces the rule's, when it is there and is a severity.\<close>

definition severity_setting :: "'n json \<Rightarrow> string \<Rightarrow> Severity option \<Rightarrow> Severity option" where
  "severity_setting entry key old =
     (case ConfigGet entry key of
        None \<Rightarrow> old
      | Some v \<Rightarrow> (case parseSeverity v of Some s \<Rightarrow> Some s | None \<Rightarrow> old))"

definition import_setting :: "'n json \<Rightarrow> ImportRule list \<Rightarrow> ImportRule list" where
  "import_setting entry old =
     (case ConfigGet entry ''importRules'' of
        Some (JArr innerList) \<Rightarrow> parseImportRules innerList
      | _ \<Rightarrow> old)"

definition merge_entry :: "'n json \<Rightarrow> Rule \<Rightarrow> Rule" where
  "merge_entry entry r =
     r\<lparr>PhantomImport := severity_setting entry ''phantomImport'' (PhantomImport r),
       CycleRule := severity_setting entry ''cycle'' (CycleRule r),
       DevLeak := severity_setting entry ''devLeak'' (DevLeak r),
       Unused := severity_setting entry ''unused'' (Unused r),
       ImportRules := import_setting entry (ImportRules r)\<rparr>"

definition parse_rule_step :: "(string \<times> Rule) list \<Rightarrow> 'n json \<Rightarrow> (string \<times> Rule) list" where
  "parse_rule_step byPattern entry =
     (case module_pattern entry of
        None \<Rightarrow> byPattern
      | Some (patternText, parsed) \<Rightarrow>
          (let r = (case map_of byPattern patternText of Some r \<Rightarrow> r | None \<Rightarrow> new_rule parsed patternText)
           in AList.update patternText (merge_entry entry r) byPattern))"

definition parseRules :: "'n json list \<Rightarrow> Rule list" where
  "parseRules xs = map snd (foldl parse_rule_step [] xs)"

section \<open>What parsing gives\<close>

definition rule_valid :: "Rule \<Rightarrow> bool" where
  "rule_valid r \<longleftrightarrow>
     IsValid (rule_pattern r) \<and> rule_pattern r = TryParsePattern (PatternText r)
     \<and> list_all (\<lambda>i. IsValid (import_pattern i)) (ImportRules r)"

definition rules_valid :: "Rule list \<Rightarrow> bool" where
  "rules_valid rules \<longleftrightarrow> list_all rule_valid rules \<and> distinct (map PatternText rules)"

lemma module_pattern_valid:
  "module_pattern entry = Some (t, p) \<Longrightarrow> IsValid p \<and> p = TryParsePattern t"
  by (auto simp: module_pattern_def Let_def split: option.splits if_splits)

lemma parseImportRules_valid: "list_all (\<lambda>i. IsValid (import_pattern i)) (parseImportRules xs)"
  by (auto simp: parseImportRules_def import_rule_def list_all_iff List.map_filter_def split: option.splits
      dest: module_pattern_valid)

lemma merge_entry_valid: "rule_valid r \<Longrightarrow> rule_valid (merge_entry entry r)"
  by (auto simp: rule_valid_def merge_entry_def import_setting_def parseImportRules_valid
      split: option.splits json.splits)

lemma new_rule_valid: "module_pattern entry = Some (t, p) \<Longrightarrow> rule_valid (new_rule p t)"
  by (auto simp: rule_valid_def new_rule_def dest: module_pattern_valid)

text \<open>The association list of \<open>parseRules\<close>: its keys are the texts of its rules' patterns.\<close>

definition by_pattern_ok :: "(string \<times> Rule) list \<Rightarrow> bool" where
  "by_pattern_ok al \<longleftrightarrow>
     distinct (map fst al) \<and> list_all (\<lambda>(t, r). PatternText r = t \<and> rule_valid r) al"

lemma PatternText_merge [simp]: "PatternText (merge_entry entry r) = PatternText r"
  by (simp add: merge_entry_def)

lemma update_ok:
  "list_all P al \<Longrightarrow> P (k, v) \<Longrightarrow> list_all P (AList.update k v al)"
  by (induction al) (auto split: if_splits)

lemma parse_rule_step_ok:
  assumes ok: "by_pattern_ok al"
  shows "by_pattern_ok (parse_rule_step al entry)"
proof (cases "module_pattern entry")
  case (Some tp)
  obtain t p where tp: "tp = (t, p)" by (cases tp)
  let ?r = "case map_of al t of Some r \<Rightarrow> r | None \<Rightarrow> new_rule p t"
  have "PatternText ?r = t \<and> rule_valid ?r"
  proof (cases "map_of al t")
    case None
    then show ?thesis using new_rule_valid [of entry t p] Some tp by (simp add: new_rule_def)
  next
    case (Some r)
    then have "(t, r) \<in> set al" by (rule map_of_SomeD)
    with ok Some show ?thesis by (auto simp: by_pattern_ok_def list_all_iff)
  qed
  then show ?thesis
    using ok Some tp unfolding by_pattern_ok_def parse_rule_step_def
    by (auto simp: distinct_update merge_entry_valid intro!: update_ok)
qed (use ok in \<open>simp add: parse_rule_step_def\<close>)

lemma parse_rules_ok: "by_pattern_ok al \<Longrightarrow> by_pattern_ok (foldl parse_rule_step al xs)"
  by (induction xs arbitrary: al) (simp_all add: parse_rule_step_ok)

lemma rules_valid_parse: "rules_valid (parseRules xs)"
proof -
  have ok: "by_pattern_ok (foldl parse_rule_step [] xs)"
    by (rule parse_rules_ok) (simp add: by_pattern_ok_def)
  then have "map (PatternText \<circ> snd) (foldl parse_rule_step [] xs) = map fst (foldl parse_rule_step [] xs)"
    by (auto simp: by_pattern_ok_def list_all_iff)
  then have "distinct (map (PatternText \<circ> snd) (foldl parse_rule_step [] xs))"
    using ok unfolding by_pattern_ok_def by metis
  moreover have "list_all rule_valid (map snd (foldl parse_rule_step [] xs))"
    using ok by (auto simp: by_pattern_ok_def list_all_iff)
  ultimately show ?thesis by (simp add: rules_valid_def parseRules_def)
qed

text \<open>Whatever the \<open>rules\<close> array of the configuration holds, what \<open>parseRules\<close> makes of it is well formed:
  every pattern, inner patterns of \<open>importRules\<close> included, is valid and is the parse of the text it was
  written as, and no two rules have the same text.\<close>
theorem parseRules_valid: "rules_valid (parseRules xs)"
  by (rule rules_valid_parse)

section \<open>Entries with the same module\<close>

text \<open>
  The reference: group the entries by the text of their module, the groups in the order of their
  first entries, and let the entries of a group set the fields of its rule one after the other.
\<close>

definition entry_text :: "'n json \<Rightarrow> string option" where
  "entry_text entry = map_option fst (module_pattern entry)"

definition first_occurrences :: "'a list \<Rightarrow> 'a list" where
  "first_occurrences xs = rev (remdups (rev xs))"

definition group_rule :: "'n json list \<Rightarrow> string \<Rightarrow> Rule" where
  "group_rule xs t =
     foldl (\<lambda>r entry. merge_entry entry r) (new_rule (TryParsePattern t) t) (filter (\<lambda>e. entry_text e = Some t) xs)"

definition grouped_rules :: "'n json list \<Rightarrow> Rule list" where
  "grouped_rules xs = map (group_rule xs) (first_occurrences (List.map_filter entry_text xs))"

lemma first_occurrences_snoc:
  "first_occurrences (xs @ [x]) = (if x \<in> set xs then first_occurrences xs else first_occurrences xs @ [x])"
  by (simp add: first_occurrences_def)

lemma set_first_occurrences [simp]: "set (first_occurrences xs) = set xs"
  by (simp add: first_occurrences_def)

lemma update_old:
  "distinct ks \<Longrightarrow> k \<in> set ks \<Longrightarrow>
     AList.update k v (map (\<lambda>t. (t, f t)) ks) = map (\<lambda>t. (t, (f(k := v)) t)) ks"
  by (induction ks) auto

lemma update_fresh: "k \<notin> set ks \<Longrightarrow> AList.update k v (map (\<lambda>t. (t, f t)) ks) = map (\<lambda>t. (t, f t)) ks @ [(k, v)]"
  by (induction ks) auto

lemma group_rule_snoc:
  "group_rule (xs @ [e]) t = (if entry_text e = Some t then merge_entry e (group_rule xs t) else group_rule xs t)"
  by (simp add: group_rule_def)

lemma group_rule_new:
  "t \<notin> set (List.map_filter entry_text xs) \<Longrightarrow> group_rule xs t = new_rule (TryParsePattern t) t"
proof -
  assume "t \<notin> set (List.map_filter entry_text xs)"
  then have "filter (\<lambda>e. entry_text e = Some t) xs = []"
    by (force simp: List.map_filter_def filter_empty_conv)
  then show ?thesis by (simp add: group_rule_def)
qed

lemma map_filter_snoc:
  "List.map_filter f (xs @ [x]) = (case f x of None \<Rightarrow> List.map_filter f xs | Some y \<Rightarrow> List.map_filter f xs @ [y])"
  by (simp add: List.map_filter_def split: option.splits)

lemma parse_rules_grouped:
  "foldl parse_rule_step [] xs =
     map (\<lambda>t. (t, group_rule xs t)) (first_occurrences (List.map_filter entry_text xs))"
proof (induction xs rule: rev_induct)
  case Nil
  then show ?case by (simp add: first_occurrences_def List.map_filter_def)
next
  case (snoc e xs)
  let ?ks = "first_occurrences (List.map_filter entry_text xs)"
  have dis: "distinct ?ks" by (simp add: first_occurrences_def)
  show ?case
  proof (cases "module_pattern e")
    case None
    then have "entry_text e = None" by (simp add: entry_text_def)
    with None snoc show ?thesis by (simp add: parse_rule_step_def map_filter_snoc group_rule_snoc)
  next
    case (Some tp)
    obtain t p where tp: "tp = (t, p)" by (cases tp)
    have et: "entry_text e = Some t" using Some tp by (simp add: entry_text_def)
    have p: "p = TryParsePattern t" using module_pattern_valid Some tp by blast
    show ?thesis
    proof (cases "t \<in> set (List.map_filter entry_text xs)")
      case True
      then have "map_of (map (\<lambda>t. (t, group_rule xs t)) ?ks) t = Some (group_rule xs t)"
        by (simp add: map_of_map_restrict)
      with True et Some tp snoc dis show ?thesis
        by (auto simp: parse_rule_step_def map_filter_snoc first_occurrences_snoc group_rule_snoc update_old)
    next
      case False
      then have "map_of (map (\<lambda>t. (t, group_rule xs t)) ?ks) t = None"
        by (simp add: map_of_map_restrict)
      with False et Some tp snoc p show ?thesis
        by (auto simp: parse_rule_step_def map_filter_snoc first_occurrences_snoc group_rule_snoc update_fresh
            group_rule_new)
    qed
  qed
qed

text \<open>\<open>parseRules\<close> merges the entries that share the same module text: there is one rule per text, in the
  order in which the texts first occur, and its fields are what the entries of that text, one after
  the other, have set: a later entry overrides an earlier one field by field, and replaces its
  \<open>importRules\<close> as a whole.\<close>
theorem parseRules_groups: "parseRules xs = grouped_rules xs"
  by (simp add: parseRules_def grouped_rules_def parse_rules_grouped)

end
