(* ===== verification/FilePath.thy ===== *)
theory FilePath
  imports GoStrings
begin

text \<open>
  What the program uses of Go's \<open>path/filepath\<close>, as it is on Unix: \<open>Clean\<close> by the elements of the
  path, and what is defined with it.
\<close>

section \<open>Clean\<close>

definition clean_step :: "bool \<Rightarrow> string list \<Rightarrow> string \<Rightarrow> string list" where
  "clean_step rooted out c =
     (if c = [] \<or> c = ''.'' then out
      else if c = ''..'' then
        (case out of
           [] \<Rightarrow> (if rooted then [] else [''..''])
         | e # es \<Rightarrow> (if e = ''..'' then ''..'' # out else es))
      else c # out)"

definition rooted :: "string \<Rightarrow> bool" where
  "rooted p \<longleftrightarrow> HasPrefix p ''/''"

text \<open>The elements of the clean path.\<close>

definition clean_elements :: "string \<Rightarrow> string list" where
  "clean_elements p = rev (foldl (clean_step (rooted p)) [] (split_byte (CHR ''/'') p))"

definition Clean :: "string \<Rightarrow> string" where
  "Clean p =
     (if rooted p then CHR ''/'' # str_join (clean_elements p) ''/''
      else if clean_elements p = [] then ''.''
      else str_join (clean_elements p) ''/'')"

definition Join :: "string \<Rightarrow> string \<Rightarrow> string" where
  "Join a b = (if a \<noteq> [] then Clean (a @ ''/'' @ b) else if b \<noteq> [] then Clean b else [])"

text \<open>What is before and after the last slash.\<close>

definition path_head :: "string \<Rightarrow> string" where
  "path_head p = rev (dropWhile (\<lambda>c. c \<noteq> CHR ''/'') (rev p))"

definition path_tail :: "string \<Rightarrow> string" where
  "path_tail p = rev (takeWhile (\<lambda>c. c \<noteq> CHR ''/'') (rev p))"

definition Dir :: "string \<Rightarrow> string" where
  "Dir p = Clean (path_head p)"

definition Base :: "string \<Rightarrow> string" where
  "Base p =
     (if p = [] then ''.''
      else (let q = rev (dropWhile (\<lambda>c. c = CHR ''/'') (rev p)) in if path_tail q = [] then ''/'' else path_tail q))"

definition Ext :: "string \<Rightarrow> string" where
  "Ext p = (case last_index_byte (path_tail p) (CHR ''.'') of None \<Rightarrow> [] | Some i \<Rightarrow> drop i (path_tail p))"

definition IsAbs :: "string \<Rightarrow> bool" where
  "IsAbs p = HasPrefix p ''/''"

fun drop_common :: "string list \<Rightarrow> string list \<Rightarrow> string list \<times> string list" where
  "drop_common (b # bs) (t # ts) = (if b = t then drop_common bs ts else (b # bs, t # ts))"
| "drop_common bs ts = (bs, ts)"

text \<open>\<open>Rel\<close>; its errors are \<open>None\<close>.\<close>

definition Rel :: "string \<Rightarrow> string \<Rightarrow> string option" where
  "Rel base targ =
     (if Clean base = Clean targ then Some ''.''
      else if rooted base \<noteq> rooted targ then None
      else
        let (bs, ts) = drop_common (clean_elements base) (clean_elements targ)
        in if bs \<noteq> [] \<and> hd bs = ''..'' then None
           else Some (str_join (replicate (length bs) ''..'' @ ts) ''/''))"

section \<open>The parent directory is shorter\<close>

definition weight :: "string list \<Rightarrow> nat" where
  "weight es = sum_list (map (\<lambda>e. if e = [] then 0 else length e + 1) es)"

lemma weight_simps [simp]:
  "weight [] = 0" "weight (e # es) = (if e = [] then 0 else length e + 1) + weight es"
  "weight (es @ fs) = weight es + weight fs" "weight (rev es) = weight es"
  by (simp_all add: weight_def rev_map [symmetric])

lemma weight_clean: "weight (foldl (clean_step r) out cs) \<le> weight out + weight cs"
proof (induction cs arbitrary: out)
  case (Cons c cs)
  have "weight (clean_step r out c) \<le> weight out + weight [c]"
    by (auto simp: clean_step_def split: list.splits)
  with Cons [of "clean_step r out c"] show ?case by simp
qed simp

lemma total_split: "sum_list (map (\<lambda>e. length e + 1) (split_byte d s)) = length s + 1"
  by (induction s) (auto split: list.splits)

lemma weight_split: "weight (split_byte d s) \<le> length s + 1"
proof -
  have "weight es \<le> sum_list (map (\<lambda>e. length e + 1) es)" for es :: "string list"
    by (induction es) auto
  then show ?thesis by (metis total_split)
qed

lemma length_join: "es \<noteq> [] \<Longrightarrow> [] \<notin> set es \<Longrightarrow> length (str_join es ''/'') + 1 = weight es"
proof (induction es)
  case (Cons e es)
  then show ?case by (cases es) auto
qed simp

lemma foldl_clean_nonempty: "[] \<notin> set out \<Longrightarrow> [] \<notin> set (foldl (clean_step r) out cs)"
proof (induction cs arbitrary: out)
  case (Cons c cs)
  then have "[] \<notin> set (clean_step r out c)" by (cases out) (auto simp: clean_step_def)
  with Cons show ?case by simp
qed simp

lemma clean_elements_weight:
  "[] \<notin> set (clean_elements p)" "weight (clean_elements p) \<le> weight (split_byte (CHR ''/'') p)"
  using foldl_clean_nonempty [of "[]"] weight_clean [of "rooted p" "[]"] by (simp_all add: clean_elements_def)

lemma Clean_dir:
  assumes "h = q @ ''/''" "q \<noteq> []"
  shows "length (Clean h) < length h" "Clean h \<noteq> []"
proof -
  let ?es = "clean_elements h"
  have s: "split_byte (CHR ''/'') h = split_byte (CHR ''/'') q @ [[]]"
    by (simp add: assms(1) split_byte_append_sep)
  have w: "weight ?es \<le> weight (split_byte (CHR ''/'') q)"
    using clean_elements_weight(2) [of h] by (simp add: s)
  have r: "weight ?es \<le> length q" if ro: "rooted h"
  proof -
    obtain t where "q = CHR ''/'' # t" using ro assms by (cases q) (auto simp: rooted_def HasPrefix_def)
    then show ?thesis using w weight_split [of "CHR ''/''" t] by simp
  qed
  have j: "length (str_join ?es ''/'') + 1 = weight ?es" if "?es \<noteq> []"
    using length_join that clean_elements_weight(1) by blast
  have q: "0 < length q" using assms(2) by simp
  show "length (Clean h) < length h"
  proof (cases "rooted h")
    case True
    then show ?thesis using r j q assms(1) by (cases "?es = []") (simp_all add: Clean_def)
  next
    case False
    then show ?thesis
      using w weight_split [of "CHR ''/''" q] j q assms(1) by (cases "?es = []") (simp_all add: Clean_def)
  qed
  have "str_join ?es ''/'' \<noteq> []" if ne: "?es \<noteq> []"
  proof -
    obtain e es where "?es = e # es" using ne by (cases ?es) auto
    moreover from this have "e \<noteq> []" using clean_elements_weight(1) [of h] by auto
    ultimately show ?thesis by (cases es) simp_all
  qed
  then show "Clean h \<noteq> []" by (auto simp: Clean_def)
qed

lemma path_head_cases:
  obtains "path_head p = []" | q where "path_head p = q @ ''/''" "length q < length p" "\<exists>t. p = q @ ''/'' @ t"
proof (cases "dropWhile (\<lambda>c. c \<noteq> CHR ''/'') (rev p)")
  case (Cons d ds)
  have d: "d = CHR ''/''" using hd_dropWhile [of "\<lambda>c. c \<noteq> CHR ''/''" "rev p"] Cons by auto
  have "rev p = takeWhile (\<lambda>c. c \<noteq> CHR ''/'') (rev p) @ d # ds"
    using Cons by (metis takeWhile_dropWhile_id)
  then have "rev (rev p) = rev (takeWhile (\<lambda>c. c \<noteq> CHR ''/'') (rev p) @ d # ds)" by (rule arg_cong)
  then have p: "p = rev ds @ ''/'' @ path_tail p" by (simp add: path_tail_def d)
  have "length (rev ds) < length p" using arg_cong [OF p, where f = length] by simp
  moreover have "\<exists>t. p = rev ds @ ''/'' @ t" using p by blast
  ultimately show ?thesis using Cons d by (intro that(2) [of "rev ds"]) (auto simp: path_head_def)
qed (auto simp: path_head_def intro: that)

text \<open>A measure that going to a different parent directory decreases.\<close>

definition dir_depth :: "string \<Rightarrow> nat" where
  "dir_depth p = (if p = [] then 3 else if p = ''.'' then 2 else 2 * length p + 1)"

lemma Dir_decreases:
  assumes "Dir p \<noteq> p"
  shows "dir_depth (Dir p) < dir_depth p"
proof (cases p rule: path_head_cases)
  case 1
  then have "Dir p = ''.''" by (simp add: Dir_def Clean_def clean_elements_def clean_step_def rooted_def HasPrefix_def)
  with assms show ?thesis by (cases p) (auto simp: dir_depth_def)
next
  case (2 q)
  show ?thesis
  proof (cases "q = []")
    case True
    then have "Dir p = ''/''"
      using 2 by (simp add: Dir_def Clean_def clean_elements_def clean_step_def rooted_def HasPrefix_def)
    moreover obtain t where "p = ''/'' @ t" using 2 True by auto
    ultimately show ?thesis using assms by (cases t) (auto simp: dir_depth_def)
  next
    case False
    then have "length (Dir p) < Suc (length q)" "Dir p \<noteq> []"
      using Clean_dir [of "path_head p" q] 2 by (auto simp: Dir_def)
    moreover have "length q < length p" "p \<noteq> ''.''" using 2 False by auto
    ultimately show ?thesis by (auto simp: dir_depth_def)
  qed
qed

end
