(* ===== verification/GraphOptions.thy ===== *)
theory GraphOptions
  imports GraphConfig FilePath
begin

text \<open>
  The options of the module-graph plugin (\<open>OptionsFromConfig\<close> of \<open>tsc/internal/tscp/graph/config.go\<close>).
  The file system is an argument: \<open>read_package\<close> says what \<open>os.ReadFile\<close> and \<open>json.Unmarshal\<close> give for
  a path. A set of dependency names is the list of the names; a nil set behaves as the empty one.
\<close>

record GraphOptions =
  EmitEnabled :: bool
  EmitPath :: string
  Rules :: "Rule list"
  ConfigDir :: string
  Dependencies :: "string list"
  DevDependencies :: "string list"
  PackageName :: string

record minimalPackageJson =
  json_name :: string
  json_dependencies :: "string list"
  json_devDependencies :: "string list"

datatype package_file = Unreadable | Malformed | Parsed minimalPackageJson

definition graphPluginName :: string where "graphPluginName = ''@conmoong/graph''"

definition defaultEmitPath :: "string \<Rightarrow> string \<Rightarrow> string" where
  "defaultEmitPath configDir configPath =
     (if configPath = [] then Join configDir ''tsconfig.graph.json''
      else (let base = Base configPath;
                base = take (length base - length (Ext base)) base
            in Join (Dir configPath) (base @ ''.graph.json'')))"

definition resolveOutputPath :: "string \<Rightarrow> string \<Rightarrow> string" where
  "resolveOutputPath configDir path = (if IsAbs path then path else Join configDir path)"

text \<open>The walk up to the nearest \<open>package.json\<close>.\<close>

function loadNearestPackageJson ::
  "(string \<Rightarrow> package_file) \<Rightarrow> string \<Rightarrow> string list \<times> string list \<times> string" where
  "loadNearestPackageJson read_package dir =
     (case read_package (Join dir ''package.json'') of
        Parsed p \<Rightarrow> (json_dependencies p, json_devDependencies p, json_name p)
      | Malformed \<Rightarrow> ([], [], [])
      | Unreadable \<Rightarrow>
          (let parent = Dir dir
           in if parent = dir \<or> Base dir = ''node_modules'' then ([], [], [])
              else loadNearestPackageJson read_package parent))"
  by pat_completeness auto
termination
  by (relation "measure (\<lambda>(r, dir). dir_depth dir)") (auto intro: Dir_decreases)

declare loadNearestPackageJson.simps [simp del]

definition emit_setting :: "'n json \<Rightarrow> string \<Rightarrow> string \<Rightarrow> (bool \<times> string)" where
  "emit_setting entry configDir configPath =
     (case ConfigGet entry ''emit'' of
        Some (JBool v) \<Rightarrow> (v, if v then defaultEmitPath configDir configPath else [])
      | Some (JStr v) \<Rightarrow> (if v \<noteq> [] then (True, resolveOutputPath configDir v) else (False, []))
      | _ \<Rightarrow> (False, []))"

definition rules_setting :: "'n json \<Rightarrow> Rule list" where
  "rules_setting entry =
     (case ConfigGet entry ''rules'' of Some (JArr xs) \<Rightarrow> parseRules xs | _ \<Rightarrow> [])"

definition GraphOptionsFromConfig ::
  "(string \<Rightarrow> package_file) \<Rightarrow> 'n json \<Rightarrow> string \<Rightarrow> string \<Rightarrow> GraphOptions option" where
  "GraphOptionsFromConfig read_package raw configDir configPath =
     (case FindPluginEntry raw graphPluginName of
        None \<Rightarrow> None
      | Some entry \<Rightarrow>
          (let (enabled, path) = emit_setting entry configDir configPath;
               (deps, devDeps, name) = loadNearestPackageJson read_package configDir
           in Some \<lparr>EmitEnabled = enabled, EmitPath = path, Rules = rules_setting entry, ConfigDir = configDir,
                    Dependencies = deps, DevDependencies = devDeps, PackageName = name\<rparr>))"

section \<open>The nearest package.json\<close>

text \<open>The directories the walk looks into.\<close>

function searched :: "string \<Rightarrow> string list" where
  "searched dir = dir # (if Dir dir = dir \<or> Base dir = ''node_modules'' then [] else searched (Dir dir))"
  by pat_completeness auto
termination
  by (relation "measure dir_depth") (auto intro: Dir_decreases)

declare searched.simps [simp del]

definition package_of :: "(string \<Rightarrow> package_file) \<Rightarrow> string \<Rightarrow> package_file" where
  "package_of read_package dir = read_package (Join dir ''package.json'')"

text \<open>C17: The walk to the nearest \<open>package.json\<close> ends for every start directory and file system, and its result
  is that of the first directory, from the start through its parents to the root or to a directory
  named \<open>node_modules\<close>, in which a \<open>package.json\<close> can be read; when that file cannot be parsed, or
  there is none, there are no dependencies, and the walk does not go on past a malformed file.\<close>
theorem loadNearestPackageJson_nearest:
  "loadNearestPackageJson read_package dir =
     (case List.find (\<lambda>d. package_of read_package d \<noteq> Unreadable) (searched dir) of
        None \<Rightarrow> ([], [], [])
      | Some d \<Rightarrow>
          (case package_of read_package d of
             Parsed p \<Rightarrow> (json_dependencies p, json_devDependencies p, json_name p)
           | _ \<Rightarrow> ([], [], [])))"
proof (induction read_package dir rule: loadNearestPackageJson.induct)
  case (1 read_package dir)
  have p: "read_package (Join dir ''package.json'') = package_of read_package dir"
    by (simp add: package_of_def)
  show ?case
  proof (cases "package_of read_package dir")
    case Unreadable
    show ?thesis
    proof (cases "Dir dir = dir \<or> Base dir = ''node_modules''")
      case True
      with Unreadable show ?thesis
        unfolding loadNearestPackageJson.simps [of _ dir] searched.simps [of dir] p by auto
    next
      case False
      then have "loadNearestPackageJson read_package (Dir dir) =
        (case List.find (\<lambda>d. package_of read_package d \<noteq> Unreadable) (searched (Dir dir)) of
           None \<Rightarrow> ([], [], [])
         | Some d \<Rightarrow>
             (case package_of read_package d of
                Parsed p \<Rightarrow> (json_dependencies p, json_devDependencies p, json_name p)
              | _ \<Rightarrow> ([], [], [])))"
        using 1 [OF _ refl] Unreadable by (simp add: p)
      with False Unreadable show ?thesis
        unfolding loadNearestPackageJson.simps [of _ dir] searched.simps [of dir] p by (simp add: Let_def)
    qed
  qed (unfold loadNearestPackageJson.simps [of _ dir] searched.simps [of dir] p, simp_all)
qed

text \<open>Whatever the configuration, the rules of the options are well formed.\<close>

lemma rules_setting_parsed:
  "rules_setting entry = parseRules (case ConfigGet entry ''rules'' of Some (JArr xs) \<Rightarrow> xs | _ \<Rightarrow> [])"
  unfolding rules_setting_def by (simp add: parseRules_def split: option.split json.split)

lemma options_rules:
  "GraphOptionsFromConfig read_package raw configDir configPath = Some options \<Longrightarrow> rules_valid (Rules options)"
  by (auto simp: GraphOptionsFromConfig_def Let_def rules_setting_parsed rules_valid_parse
      split: option.splits prod.splits)

end
