(* ===== verification/Tarjan.thy ===== *)
theory Tarjan
  imports Main
begin

text \<open>
  \<open>findCycles\<close> of \<open>tsc/internal/tscp/graph/rules.go\<close>: Tarjan's algorithm on the internal edges of a
  module graph, over any type of vertices, and its correctness. The closure \<open>strongConnect\<close> passes
  its captured variables as a record; the stack's top is the head of the list. Its recursion has
  fuel, and one more unit than there are vertices is shown to be enough.
\<close>

record 'v search =
  next_index :: nat
  indices :: "'v \<rightharpoonup> nat"
  lowlink :: "'v \<Rightarrow> nat"
  onStack :: "'v \<Rightarrow> bool"
  stack :: "'v list"
  cyclic :: "'v \<Rightarrow> bool"

definition no_search :: "'v search" where
  "no_search =
     \<lparr>next_index = 0, indices = Map.empty, lowlink = (\<lambda>_. 0), onStack = (\<lambda>_. False), stack = [], cyclic = (\<lambda>_. False)\<rparr>"

definition push_vertex :: "'v \<Rightarrow> 'v search \<Rightarrow> 'v search" where
  "push_vertex v s =
     s\<lparr>indices := (indices s)(v \<mapsto> next_index s), lowlink := (lowlink s)(v := next_index s),
       next_index := next_index s + 1, stack := v # stack s, onStack := (onStack s)(v := True)\<rparr>"

definition lower :: "'v \<Rightarrow> nat \<Rightarrow> 'v search \<Rightarrow> 'v search" where
  "lower v n s = (if n < lowlink s v then s\<lparr>lowlink := (lowlink s)(v := n)\<rparr> else s)"

text \<open>The loop that pops a component: its vertices, and the stack and marks that are left.\<close>

fun pop_component :: "'v \<Rightarrow> 'v list \<Rightarrow> 'v list \<times> 'v list" where
  "pop_component v [] = ([], [])"
| "pop_component v (w # st) =
     (if w = v then ([w], st) else (let (component, rest) = pop_component v st in (w # component, rest)))"

definition close_component :: "('v \<Rightarrow> 'v list) \<Rightarrow> 'v \<Rightarrow> 'v search \<Rightarrow> 'v search" where
  "close_component adjacency v s =
     (if indices s v \<noteq> Some (lowlink s v) then s
      else
        let (component, rest) = pop_component v (stack s);
            s = s\<lparr>stack := rest, onStack := (\<lambda>w. onStack s w \<and> w \<notin> set component)\<rparr>
        in if 1 < length component then s\<lparr>cyclic := (\<lambda>w. cyclic s w \<or> w \<in> set component)\<rparr>
           else if length component = 1 \<and> component ! 0 \<in> set (adjacency (component ! 0))
           then s\<lparr>cyclic := (cyclic s)(component ! 0 := True)\<rparr>
           else s)"

fun strongConnect :: "nat \<Rightarrow> ('v \<Rightarrow> 'v list) \<Rightarrow> 'v \<Rightarrow> 'v search \<Rightarrow> 'v search option"
  and connect_all :: "nat \<Rightarrow> ('v \<Rightarrow> 'v list) \<Rightarrow> 'v \<Rightarrow> 'v list \<Rightarrow> 'v search \<Rightarrow> 'v search option" where
  "strongConnect 0 adjacency v s = None"
| "strongConnect (Suc fuel) adjacency v s =
     map_option (close_component adjacency v) (connect_all fuel adjacency v (adjacency v) (push_vertex v s))"
| "connect_all fuel adjacency v [] s = Some s"
| "connect_all fuel adjacency v (w # ws) s =
     (case indices s w of
        None \<Rightarrow>
          (case strongConnect fuel adjacency w s of
             None \<Rightarrow> None
           | Some s' \<Rightarrow> connect_all fuel adjacency v ws (lower v (lowlink s' w) s'))
      | Some i \<Rightarrow>
          connect_all fuel adjacency v ws (if onStack s w then lower v i s else s))"

fun connect_files :: "nat \<Rightarrow> ('v \<Rightarrow> 'v list) \<Rightarrow> 'v list \<Rightarrow> 'v search \<Rightarrow> 'v search option" where
  "connect_files fuel adjacency [] s = Some s"
| "connect_files fuel adjacency (file # files) s =
     (if indices s file = None
      then (case strongConnect fuel adjacency file s of
              None \<Rightarrow> None
            | Some s' \<Rightarrow> connect_files fuel adjacency files s')
      else connect_files fuel adjacency files s)"

text \<open>The result with the given fuel; \<open>vertices\<close> is a list of all vertices.\<close>

definition find_cycles :: "('v \<Rightarrow> 'v list) \<Rightarrow> 'v list \<Rightarrow> 'v list \<Rightarrow> ('v \<Rightarrow> bool) option" where
  "find_cycles adjacency vertices files =
     map_option cyclic (connect_files (Suc (length vertices)) adjacency files no_search)"

section \<open>Paths\<close>

locale finite_graph =
  fixes adjacency :: "'v \<Rightarrow> 'v list" and vertices :: "'v set"
  assumes finite_vertices: "finite vertices"
    and closed: "v \<in> vertices \<Longrightarrow> set (adjacency v) \<subseteq> vertices"
begin

definition edges :: "('v \<times> 'v) set" where
  "edges = {(u, w). w \<in> set (adjacency u)}"

lemma edge_iff [simp]: "(u, w) \<in> edges \<longleftrightarrow> w \<in> set (adjacency u)"
  by (simp add: edges_def)

definition reaches :: "'v \<Rightarrow> 'v \<Rightarrow> bool" where
  "reaches u w \<longleftrightarrow> (u, w) \<in> edges\<^sup>*"

definition on_cycle :: "'v \<Rightarrow> bool" where
  "on_cycle u \<longleftrightarrow> (u, u) \<in> edges\<^sup>+"

lemma reaches_refl [simp]: "reaches u u"
  by (simp add: reaches_def)

lemma reaches_trans: "reaches u w \<Longrightarrow> reaches w x \<Longrightarrow> reaches u x"
  unfolding reaches_def by (rule rtrancl_trans)

lemma reaches_edge: "w \<in> set (adjacency u) \<Longrightarrow> reaches u w"
  by (simp add: reaches_def r_into_rtrancl)

lemma reaches_closed:
  assumes "reaches u w" "u \<in> X" "\<And>x. x \<in> X \<Longrightarrow> set (adjacency x) \<subseteq> X"
  shows "w \<in> X"
  using assms(1,2) unfolding reaches_def
  by (induction rule: rtrancl_induct) (use assms(3) in \<open>auto simp: edges_def\<close>)

lemma mutual_on_cycle: "reaches u w \<Longrightarrow> reaches w u \<Longrightarrow> u \<noteq> w \<Longrightarrow> on_cycle u"
  unfolding reaches_def on_cycle_def by (metis rtranclD trancl_rtrancl_trancl)

lemma on_cycle_cases:
  assumes "on_cycle u"
  shows "u \<in> set (adjacency u) \<or> (\<exists>w. w \<noteq> u \<and> reaches u w \<and> reaches w u)"
proof -
  obtain w where "(u, w) \<in> edges" "(w, u) \<in> edges\<^sup>*"
    using assms unfolding on_cycle_def by (meson tranclD)
  then show ?thesis using reaches_edge [of w u] by (cases "w = u") (auto simp: reaches_def)
qed

lemma self_edge_on_cycle: "u \<in> set (adjacency u) \<Longrightarrow> on_cycle u"
  by (simp add: on_cycle_def r_into_trancl)

section \<open>The invariant of the search\<close>

definition visited_set :: "'v search \<Rightarrow> 'v set" where
  "visited_set s = dom (indices s)"

lemma visited_iff: "u \<in> visited_set s \<longleftrightarrow> indices s u \<noteq> None"
  by (simp add: visited_set_def domIff)

definition num :: "'v search \<Rightarrow> 'v \<Rightarrow> nat" where
  "num s v = the (indices s v)"

text \<open>The vertices whose component is finished.\<close>

definition finished :: "'v search \<Rightarrow> 'v set" where
  "finished s = visited_set s - set (stack s)"

text \<open>\<open>active\<close> is the set of vertices whose \<open>strongConnect\<close> is running.\<close>

definition search_inv :: "'v set \<Rightarrow> 'v search \<Rightarrow> bool" where
  "search_inv active s \<longleftrightarrow>
     distinct (stack s) \<and> (\<forall>w. onStack s w \<longleftrightarrow> w \<in> set (stack s))
     \<and> set (stack s) \<subseteq> visited_set s \<and> visited_set s \<subseteq> vertices \<and> active \<subseteq> set (stack s)
     \<and> (\<forall>u\<in>visited_set s. num s u < next_index s)
     \<and> sorted_wrt (\<lambda>x y. num s y < num s x) (stack s)
     \<and> (\<forall>u\<in>visited_set s - active. set (adjacency u) \<subseteq> visited_set s)
     \<and> (\<forall>u\<in>finished s. set (adjacency u) \<subseteq> finished s)
     \<and> (\<forall>x\<in>set (stack s). \<forall>y\<in>set (stack s). num s x \<le> num s y \<longrightarrow> reaches x y)
     \<and> (\<forall>y\<in>set (stack s). \<exists>x\<in>active. num s x \<le> num s y \<and> reaches y x)
     \<and> (\<forall>u. cyclic s u \<longleftrightarrow> u \<in> finished s \<and> on_cycle u)"

lemma search_invD:
  assumes "search_inv active s"
  shows "distinct (stack s)" "\<And>w. onStack s w \<longleftrightarrow> w \<in> set (stack s)"
    and "set (stack s) \<subseteq> visited_set s" "visited_set s \<subseteq> vertices" "active \<subseteq> set (stack s)"
    and "\<And>u. u \<in> visited_set s \<Longrightarrow> num s u < next_index s"
    and "sorted_wrt (\<lambda>x y. num s y < num s x) (stack s)"
    and "\<And>u. u \<in> visited_set s \<Longrightarrow> u \<notin> active \<Longrightarrow> set (adjacency u) \<subseteq> visited_set s"
    and "\<And>u. u \<in> finished s \<Longrightarrow> set (adjacency u) \<subseteq> finished s"
    and "\<And>x y. x \<in> set (stack s) \<Longrightarrow> y \<in> set (stack s) \<Longrightarrow> num s x \<le> num s y \<Longrightarrow> reaches x y"
    and "\<And>y. y \<in> set (stack s) \<Longrightarrow> \<exists>x\<in>active. num s x \<le> num s y \<and> reaches y x"
    and "\<And>u. cyclic s u \<longleftrightarrow> u \<in> finished s \<and> on_cycle u"
  using assms unfolding search_inv_def by blast+

lemma search_invI:
  assumes "distinct (stack s)" "\<And>w. onStack s w \<longleftrightarrow> w \<in> set (stack s)"
    and "set (stack s) \<subseteq> visited_set s" "visited_set s \<subseteq> vertices" "active \<subseteq> set (stack s)"
    and "\<And>u. u \<in> visited_set s \<Longrightarrow> num s u < next_index s"
    and "sorted_wrt (\<lambda>x y. num s y < num s x) (stack s)"
    and "\<And>u. u \<in> visited_set s \<Longrightarrow> u \<notin> active \<Longrightarrow> set (adjacency u) \<subseteq> visited_set s"
    and "\<And>u. u \<in> finished s \<Longrightarrow> set (adjacency u) \<subseteq> finished s"
    and "\<And>x y. x \<in> set (stack s) \<Longrightarrow> y \<in> set (stack s) \<Longrightarrow> num s x \<le> num s y \<Longrightarrow> reaches x y"
    and "\<And>y. y \<in> set (stack s) \<Longrightarrow> \<exists>x\<in>active. num s x \<le> num s y \<and> reaches y x"
    and "\<And>u. cyclic s u \<longleftrightarrow> u \<in> finished s \<and> on_cycle u"
  shows "search_inv active s"
  unfolding search_inv_def using assms by blast

text \<open>The state grows: \<open>seg\<close> is what has been pushed.\<close>

definition grows :: "'v search \<Rightarrow> 'v search \<Rightarrow> 'v list \<Rightarrow> bool" where
  "grows s s' seg \<longleftrightarrow>
     stack s' = seg @ stack s \<and> indices s \<subseteq>\<^sub>m indices s' \<and> set seg \<inter> visited_set s = {}
     \<and> next_index s \<le> next_index s' \<and> (\<forall>u\<in>visited_set s. lowlink s' u = lowlink s u)"

lemma num_mono: "indices s \<subseteq>\<^sub>m indices s' \<Longrightarrow> u \<in> visited_set s \<Longrightarrow> num s' u = num s u"
  by (simp add: num_def map_le_def visited_set_def)

lemma visited_mono: "indices s \<subseteq>\<^sub>m indices s' \<Longrightarrow> visited_set s \<subseteq> visited_set s'"
  unfolding visited_set_def by (rule map_le_implies_dom_le)

lemma grows_num: "grows s s' seg \<Longrightarrow> u \<in> visited_set s \<Longrightarrow> num s' u = num s u"
  by (rule num_mono) (simp_all add: grows_def)

lemma grows_visited: "grows s s' seg \<Longrightarrow> visited_set s \<subseteq> visited_set s'"
  by (simp add: grows_def visited_mono)

lemma grows_trans:
  assumes "grows s s1 seg" "grows s1 s2 seg'"
  shows "grows s s2 (seg' @ seg)"
proof -
  have "lowlink s2 u = lowlink s u" if "u \<in> visited_set s" for u
    using assms that grows_visited [OF assms(1)] unfolding grows_def by (metis subsetD)
  then show ?thesis
    using assms grows_visited [OF assms(1)] unfolding grows_def
    by (auto intro: map_le_trans)
qed

lemma push_vertex_simps [simp]:
  "stack (push_vertex v s) = v # stack s" "next_index (push_vertex v s) = next_index s + 1"
  "indices (push_vertex v s) = (indices s)(v \<mapsto> next_index s)" "cyclic (push_vertex v s) = cyclic s"
  "lowlink (push_vertex v s) = (lowlink s)(v := next_index s)" "onStack (push_vertex v s) = (onStack s)(v := True)"
  by (simp_all add: push_vertex_def)

lemma visited_push [simp]: "visited_set (push_vertex v s) = insert v (visited_set s)"
  by (simp add: visited_set_def)

lemma num_push: "num (push_vertex v s) u = (if u = v then next_index s else num s u)"
  by (simp add: num_def)

text \<open>Starting a vertex.\<close>

lemma push_inv:
  assumes inv: "search_inv active s" and v: "v \<notin> visited_set s" "v \<in> vertices"
    and act: "\<And>g. g \<in> active \<Longrightarrow> reaches g v"
  shows "search_inv (insert v active) (push_vertex v s)"
proof -
  note I = search_invD [OF inv]
  have st: "v \<notin> set (stack s)" using I(3) v(1) by blast
  have fin: "finished (push_vertex v s) = finished s" using v(1) by (auto simp: finished_def)
  have old: "num s u < next_index s" "u \<noteq> v" if "u \<in> set (stack s)" for u
    using I(3) I(6) that st by blast+
  show ?thesis
  proof (rule search_invI)
    show "sorted_wrt (\<lambda>x y. num (push_vertex v s) y < num (push_vertex v s) x) (stack (push_vertex v s))"
      using old(1) sorted_wrt_mono_rel [OF _ I(7), of "\<lambda>x y. num (push_vertex v s) y < num (push_vertex v s) x"]
      by (simp add: num_push old(2))
  next
    fix u assume "u \<in> finished (push_vertex v s)"
    then show "set (adjacency u) \<subseteq> finished (push_vertex v s)" using I(9) by (simp add: fin)
  next
    fix x y assume xy: "x \<in> set (stack (push_vertex v s))" "y \<in> set (stack (push_vertex v s))"
      "num (push_vertex v s) x \<le> num (push_vertex v s) y"
    show "reaches x y"
    proof (cases "y = v")
      case True
      show ?thesis
      proof (cases "x = v")
        case False
        with xy obtain g where "g \<in> active" "reaches x g" using I(11) by auto
        with act True show ?thesis by (blast intro: reaches_trans)
      qed (use True in simp)
    next
      case False
      then have "x \<noteq> v" using xy old(1) [of y] by (auto simp: num_push)
      with False xy I(10) show ?thesis by (simp add: num_push)
    qed
  next
    fix y assume y: "y \<in> set (stack (push_vertex v s))"
    show "\<exists>x\<in>insert v active. num (push_vertex v s) x \<le> num (push_vertex v s) y \<and> reaches y x"
    proof (cases "y = v")
      case False
      with y obtain x where "x \<in> active" "num s x \<le> num s y" "reaches y x" using I(11) by auto
      moreover have "x \<noteq> v" using I(5) st \<open>x \<in> active\<close> by blast
      ultimately show ?thesis using False by (auto simp: num_push)
    qed simp
  next
    fix u assume "u \<in> visited_set (push_vertex v s)" "u \<notin> insert v active"
    then have "set (adjacency u) \<subseteq> visited_set s" by (intro I(8)) auto
    then show "set (adjacency u) \<subseteq> visited_set (push_vertex v s)" by auto
  qed (use I v st fin in \<open>auto simp: num_push less_Suc_eq\<close>)
qed

section \<open>The loop over the edges of a vertex\<close>

text \<open>What \<open>strongConnect v\<close> does to a state \<open>s\<close>.\<close>

definition connected :: "'v set \<Rightarrow> 'v \<Rightarrow> 'v search \<Rightarrow> 'v search \<Rightarrow> bool" where
  "connected active v s s' \<longleftrightarrow>
     search_inv active s' \<and> v \<in> visited_set s' \<and> next_index s \<le> num s' v
     \<and> (\<exists>seg. grows s s' seg
          \<and> (if seg = [] then lowlink s' v = num s' v
             else lowlink s' v < num s' v
               \<and> (\<forall>u\<in>set seg. \<forall>w\<in>set (adjacency u). w \<in> set (stack s) \<longrightarrow> lowlink s' v \<le> num s w)
               \<and> (\<exists>x\<in>set (stack s). num s x = lowlink s' v \<and> reaches v x)))"

text \<open>
  The state inside the call on \<open>v\<close>, entered in state \<open>s\<close>, when the edges to \<open>ws\<close> have been
  followed.
\<close>

definition following :: "'v set \<Rightarrow> 'v \<Rightarrow> 'v search \<Rightarrow> 'v set \<Rightarrow> 'v search \<Rightarrow> bool" where
  "following active v s ws s1 \<longleftrightarrow>
     search_inv (insert v active) s1
     \<and> (\<exists>seg. stack s1 = seg @ v # stack s \<and> indices (push_vertex v s) \<subseteq>\<^sub>m indices s1
          \<and> set seg \<inter> visited_set (push_vertex v s) = {} \<and> next_index s < next_index s1
          \<and> (\<forall>u\<in>visited_set s. lowlink s1 u = lowlink s u)
          \<and> (\<forall>u\<in>set seg. \<forall>w\<in>set (adjacency u). w \<in> set (stack s) \<longrightarrow> lowlink s1 v \<le> num s w))
     \<and> (\<forall>w\<in>ws. w \<in> visited_set s1 \<and> (w \<in> set (stack s) \<longrightarrow> lowlink s1 v \<le> num s w))
     \<and> lowlink s1 v \<le> next_index s
     \<and> (\<exists>x\<in>set (stack s1). num s1 x = lowlink s1 v \<and> reaches v x)"

lemma following_start:
  assumes "search_inv active s" "v \<notin> visited_set s" "v \<in> vertices" "\<And>g. g \<in> active \<Longrightarrow> reaches g v"
  shows "following active v s {} (push_vertex v s)"
  using push_inv [OF assms] assms(2) unfolding following_def
  by (auto simp: num_push)

lemma lower_simps [simp]:
  "stack (lower v n s) = stack s" "indices (lower v n s) = indices s" "next_index (lower v n s) = next_index s"
  "onStack (lower v n s) = onStack s" "cyclic (lower v n s) = cyclic s"
  "lowlink (lower v n s) v = min n (lowlink s v)" "u \<noteq> v \<Longrightarrow> lowlink (lower v n s) u = lowlink s u"
  by (simp_all add: lower_def)

lemma lower_num [simp]:
  "num (lower v n s) = num s" "finished (lower v n s) = finished s" "visited_set (lower v n s) = visited_set s"
  by (simp_all add: num_def finished_def visited_set_def fun_eq_iff)

lemma lower_inv: "search_inv active (lower v n s) = search_inv active s"
  by (simp add: search_inv_def)

lemma following_num:
  assumes "following active v s ws s1"
  shows "\<And>u. u \<in> visited_set s \<Longrightarrow> u \<noteq> v \<Longrightarrow> num s1 u = num s u" and "num s1 v = next_index s"
    and "v \<in> set (stack s1)" "set (stack s) \<subseteq> set (stack s1)"
proof -
  have m: "indices (push_vertex v s) \<subseteq>\<^sub>m indices s1" using assms by (auto simp: following_def)
  show "u \<in> visited_set s \<Longrightarrow> u \<noteq> v \<Longrightarrow> num s1 u = num s u" for u
    using num_mono [OF m, of u] by (auto simp: num_push)
  show "num s1 v = next_index s" using num_mono [OF m, of v] by (simp add: num_push)
  show "v \<in> set (stack s1)" "set (stack s) \<subseteq> set (stack s1)" using assms by (auto simp: following_def)
qed

text \<open>An edge to a vertex that has been visited.\<close>

lemma following_visited:
  assumes f: "following active v s ws s1" and v: "v \<notin> visited_set s" and w: "indices s1 w = Some i"
    and e: "w \<in> set (adjacency v)" and inv: "search_inv active s"
  shows "following active v s (insert w ws) (if onStack s1 w then lower v i s1 else s1)"
proof -
  have I: "search_inv (insert v active) s1" using f by (simp add: following_def)
  have os: "onStack s1 w \<longleftrightarrow> w \<in> set (stack s1)" using search_invD(2) [OF I] .
  have i: "num s1 w = i" "w \<in> visited_set s1" using w by (auto simp: num_def visited_iff)
  have sv: "w \<noteq> v" "num s1 w = num s w" if "w \<in> set (stack s)"
    using that search_invD(3) [OF inv] v following_num(1) [OF f] by blast+
  show ?thesis
  proof (cases "w \<in> set (stack s1)")
    case False
    then have "w \<notin> set (stack s)" using following_num(4) [OF f] by blast
    with f i(2) os False show ?thesis by (simp add: following_def)
  next
    case True
    have uv: "u \<noteq> v" if "u \<in> visited_set s" for u using that v by blast
    obtain x where x: "x \<in> set (stack s1)" "num s1 x = lowlink s1 v" "reaches v x"
      using f by (auto simp: following_def)
    have "\<exists>x\<in>set (stack s1). num s1 x = min i (lowlink s1 v) \<and> reaches v x"
      using x True i(1) reaches_edge [OF e] by (cases "i \<le> lowlink s1 v") (auto simp: min_def)
    moreover have "\<forall>w'\<in>insert w ws. w' \<in> visited_set s1 \<and> (w' \<in> set (stack s) \<longrightarrow> min i (lowlink s1 v) \<le> num s w')"
      using f i sv by (auto simp: following_def min.coboundedI2)
    moreover obtain seg where
      "stack s1 = seg @ v # stack s" "indices (push_vertex v s) \<subseteq>\<^sub>m indices s1"
      "set seg \<inter> visited_set (push_vertex v s) = {}" "next_index s < next_index s1"
      "\<forall>u\<in>visited_set s. lowlink s1 u = lowlink s u"
      "\<forall>u\<in>set seg. \<forall>w\<in>set (adjacency u). w \<in> set (stack s) \<longrightarrow> lowlink s1 v \<le> num s w"
      using f by (auto simp: following_def)
    moreover have "lowlink s1 v \<le> next_index s" using f by (simp add: following_def)
    ultimately show ?thesis
      using I os True uv unfolding following_def lower_inv
      by (auto simp: lower_inv min.coboundedI2)
  qed
qed

text \<open>An edge to a new vertex, after the recursive call on it.\<close>

lemma following_call:
  assumes f: "following active v s ws s1" and v: "v \<notin> visited_set s" and w: "w \<notin> visited_set s1"
    and e: "w \<in> set (adjacency v)" and inv: "search_inv active s"
    and c: "connected (insert v active) w s1 s2"
  shows "following active v s (insert w ws) (lower v (lowlink s2 w) s2)"
proof -
  have I1: "search_inv (insert v active) s1" using f by (simp add: following_def)
  have I2: "search_inv (insert v active) s2" and w2: "w \<in> visited_set s2" using c by (simp_all add: connected_def)
  obtain seg where seg:
    "stack s1 = seg @ v # stack s" "indices (push_vertex v s) \<subseteq>\<^sub>m indices s1"
    "set seg \<inter> visited_set (push_vertex v s) = {}" "next_index s < next_index s1"
    "\<forall>u\<in>visited_set s. lowlink s1 u = lowlink s u"
    "\<forall>u\<in>set seg. \<forall>w\<in>set (adjacency u). w \<in> set (stack s) \<longrightarrow> lowlink s1 v \<le> num s w"
    using f by (auto simp: following_def)
  obtain seg' where g: "grows s1 s2 seg'"
    and low: "if seg' = [] then lowlink s2 w = num s2 w
             else lowlink s2 w < num s2 w
               \<and> (\<forall>u\<in>set seg'. \<forall>w'\<in>set (adjacency u). w' \<in> set (stack s1) \<longrightarrow> lowlink s2 w \<le> num s1 w')
               \<and> (\<exists>x\<in>set (stack s1). num s1 x = lowlink s2 w \<and> reaches w x)"
    using c unfolding connected_def by blast
  have vv: "v \<in> visited_set s1" using following_num(3) [OF f] search_invD(3) [OF I1] by blast
  have lv: "lowlink s2 v = lowlink s1 v" using g vv by (simp add: grows_def)
  have vs: "visited_set s \<subseteq> visited_set s1"
    using visited_mono [OF seg(2)] by auto
  have vs2: "visited_set s1 \<subseteq> visited_set s2" by (rule grows_visited [OF g])
  have n2: "num s2 x = num s1 x" if "x \<in> visited_set s1" for x using grows_num [OF g that] .
  have n1: "num s1 x = num s x" if "x \<in> set (stack s)" for x
    using following_num(1) [OF f] search_invD(3) [OF inv] v that by blast
  have wst: "w \<notin> set (stack s)" using w vs search_invD(3) [OF inv] by blast
  let ?low = "min (lowlink s2 w) (lowlink s1 v)"
  have st2: "stack s2 = (seg' @ seg) @ v # stack s" using g seg(1) by (simp add: grows_def)
  have m: "indices (push_vertex v s) \<subseteq>\<^sub>m indices s2" using seg(2) g by (auto simp: grows_def intro: map_le_trans)
  have d: "set (seg' @ seg) \<inter> visited_set (push_vertex v s) = {}"
    using seg(3) g vs vv unfolding grows_def by auto
  have l: "\<forall>u\<in>visited_set s. lowlink s2 u = lowlink s u"
    using seg(5) g vs unfolding grows_def by (metis subsetD)
  have edges: "\<forall>u\<in>set (seg' @ seg). \<forall>w'\<in>set (adjacency u). w' \<in> set (stack s) \<longrightarrow> ?low \<le> num s w'"
  proof (intro ballI impI)
    fix u w' assume u: "u \<in> set (seg' @ seg)" "w' \<in> set (adjacency u)" "w' \<in> set (stack s)"
    then have "w' \<in> set (stack s1)" "num s1 w' = num s w'" using seg(1) n1 by auto
    have "lowlink s2 w \<le> num s w' \<or> lowlink s1 v \<le> num s w'"
    proof (cases "u \<in> set seg'")
      case True
      then have "seg' \<noteq> []" by auto
      with low have "\<forall>u\<in>set seg'. \<forall>w'\<in>set (adjacency u). w' \<in> set (stack s1) \<longrightarrow> lowlink s2 w \<le> num s1 w'"
        by simp
      with True u(2) have "lowlink s2 w \<le> num s1 w'" using \<open>w' \<in> set (stack s1)\<close> by blast
      then show ?thesis using \<open>num s1 w' = num s w'\<close> by simp
    next
      case False
      then show ?thesis using u seg(6) by auto
    qed
    then show "?low \<le> num s w'" by linarith
  qed
  have wit: "\<exists>x\<in>set (stack s2). num s2 x = ?low \<and> reaches v x"
  proof (cases "lowlink s2 w < lowlink s1 v")
    case True
    have "lowlink s1 v < num s2 w"
      using f c seg(4) by (simp add: following_def connected_def)
    with True low have "seg' \<noteq> []" by auto
    with low obtain x where x: "x \<in> set (stack s1)" "num s1 x = lowlink s2 w" "reaches w x" by auto
    moreover have "x \<in> visited_set s1" using x(1) search_invD(3) [OF I1] by blast
    moreover have "x \<in> set (stack s2)" using g x(1) by (simp add: grows_def)
    ultimately show ?thesis
      using True n2 reaches_trans [OF reaches_edge [OF e] x(3)] by (intro bexI [of _ x]) auto
  next
    case False
    obtain x where x: "x \<in> set (stack s1)" "num s1 x = lowlink s1 v" "reaches v x"
      using f by (auto simp: following_def)
    moreover have "x \<in> set (stack s2)" using g x(1) by (simp add: grows_def)
    moreover have "x \<in> visited_set s1" using x(1) search_invD(3) [OF I1] by blast
    ultimately show ?thesis using False n2 by (intro bexI [of _ x]) auto
  qed
  have ws: "\<forall>w'\<in>insert w ws. w' \<in> visited_set s2 \<and> (w' \<in> set (stack s) \<longrightarrow> ?low \<le> num s w')"
    using f w2 wst vs2 by (auto simp: following_def min.coboundedI2)
  have uv: "u \<noteq> v" if "u \<in> visited_set s" for u using that v by blast
  have "lowlink s1 v \<le> next_index s" "next_index s < next_index s2"
    using f g seg(4) by (auto simp: following_def grows_def)
  then show ?thesis
    using I2 st2 m d l edges wit ws uv lv unfolding following_def
    by (auto simp: lower_inv)
qed

section \<open>Closing a component\<close>

lemma pop_component_append: "v \<notin> set seg \<Longrightarrow> pop_component v (seg @ v # st) = (seg @ [v], st)"
  by (induction seg) auto

lemma followingE:
  assumes "following active v s ws s1"
  obtains seg where "stack s1 = seg @ v # stack s" "indices (push_vertex v s) \<subseteq>\<^sub>m indices s1"
    "set seg \<inter> visited_set (push_vertex v s) = {}" "next_index s < next_index s1"
    "\<forall>u\<in>visited_set s. lowlink s1 u = lowlink s u"
    "\<And>u w. u \<in> set seg \<Longrightarrow> w \<in> set (adjacency u) \<Longrightarrow> w \<in> set (stack s) \<Longrightarrow> lowlink s1 v \<le> num s w"
  using assms unfolding following_def by blast

text \<open>On the stack, exactly what was there before the call has a smaller number than \<open>v\<close>.\<close>

lemma following_below:
  assumes f: "following active v s ws s1" and x: "x \<in> set (stack s1)"
  shows "num s1 x < num s1 v \<longleftrightarrow> x \<in> set (stack s)"
proof -
  have I: "search_inv (insert v active) s1" using f by (simp add: following_def)
  obtain seg where "stack s1 = seg @ v # stack s" using f by (rule followingE)
  then show ?thesis using search_invD(7) [OF I] search_invD(1) [OF I] x
    by (auto simp: sorted_wrt_append)
qed

text \<open>A call that returns with its component still open.\<close>

lemma inv_leave:
  assumes "search_inv (insert v active) s" "set (adjacency v) \<subseteq> visited_set s"
    and "\<forall>y\<in>set (stack s). \<exists>x\<in>active. num s x \<le> num s y \<and> reaches y x"
  shows "search_inv active s"
proof -
  have "\<forall>u\<in>visited_set s - active. set (adjacency u) \<subseteq> visited_set s"
    using search_invD(8) [OF assms(1)] assms(2) by blast
  then show ?thesis using assms(1,3) unfolding search_inv_def by simp
qed

text \<open>The vertex of lowest number it reaches is above it: nothing is popped.\<close>

lemma close_open:
  assumes f: "following active v s (set (adjacency v)) s1" and inv: "search_inv active s"
    and v: "v \<notin> visited_set s" and ne: "lowlink s1 v \<noteq> num s1 v"
  shows "connected active v s s1"
proof -
  have I: "search_inv (insert v active) s1" using f by (simp add: following_def)
  note J = search_invD [OF I]
  have lt: "lowlink s1 v < num s1 v" using f ne following_num(2) [OF f] by (simp add: following_def)
  obtain x where x: "x \<in> set (stack s1)" "num s1 x = lowlink s1 v" "reaches v x"
    using f by (auto simp: following_def)
  have xs: "x \<in> set (stack s)" using following_below [OF f x(1)] x(2) lt by simp
  then have nx: "num s x = num s1 x" using following_num(1) [OF f] search_invD(3) [OF inv] v by (metis subsetD)
  obtain seg where seg: "stack s1 = seg @ v # stack s" "indices (push_vertex v s) \<subseteq>\<^sub>m indices s1"
    "set seg \<inter> visited_set (push_vertex v s) = {}" "next_index s < next_index s1"
    "\<forall>u\<in>visited_set s. lowlink s1 u = lowlink s u"
    "\<And>u w. u \<in> set seg \<Longrightarrow> w \<in> set (adjacency u) \<Longrightarrow> w \<in> set (stack s) \<Longrightarrow> lowlink s1 v \<le> num s w"
    using f by (rule followingE) blast
  have leave: "\<exists>x\<in>active. num s1 x \<le> num s1 y \<and> reaches y x" if y: "y \<in> set (stack s1)" for y
  proof -
    obtain x1 where x1: "x1 \<in> insert v active" "num s1 x1 \<le> num s1 x" "reaches x x1" using J(11) [OF x(1)] by blast
    then have a1: "x1 \<in> active" using lt x(2) by auto
    obtain z where z: "z \<in> insert v active" "num s1 z \<le> num s1 y" "reaches y z" using J(11) [OF y] by blast
    show ?thesis
    proof (cases "z = v")
      case True
      then have "num s1 x1 \<le> num s1 y" "reaches y x1"
        using z x1 x lt by (auto intro: reaches_trans)
      with a1 show ?thesis by blast
    qed (use z in auto)
  qed
  have "set (adjacency v) \<subseteq> visited_set s1" using f by (auto simp: following_def)
  then have "search_inv active s1" using inv_leave [OF I] leave by blast
  moreover have "grows s s1 (seg @ [v])"
    unfolding grows_def
  proof (intro conjI)
    show "indices s \<subseteq>\<^sub>m indices s1"
      using seg(2) v unfolding push_vertex_simps map_le_def visited_iff by (metis domIff fun_upd_other domI)
  qed (use seg(1,3-5) v in auto)
  moreover have "lowlink s1 v \<le> num s w" if "u \<in> set (seg @ [v])" "w \<in> set (adjacency u)" "w \<in> set (stack s)" for u w
    using that seg(6) f by (auto simp: following_def)
  moreover have "v \<in> visited_set s1" using following_num(3) [OF f] J(3) by blast
  ultimately show ?thesis
    using lt xs x nx following_num(2) [OF f] unfolding connected_def
    by (intro conjI exI [of _ "seg @ [v]"]) auto
qed

text \<open>Otherwise the component of \<open>v\<close> is what is above \<open>v\<close> on the stack.\<close>

lemma close_component_eq:
  assumes "indices s v = Some (lowlink s v)" "stack s = seg @ v # st" "v \<notin> set seg"
  shows "indices (close_component adjacency v s) = indices s" "stack (close_component adjacency v s) = st"
    "lowlink (close_component adjacency v s) = lowlink s" "next_index (close_component adjacency v s) = next_index s"
    "onStack (close_component adjacency v s) w \<longleftrightarrow> onStack s w \<and> w \<notin> insert v (set seg)"
    "cyclic (close_component adjacency v s) w \<longleftrightarrow>
       cyclic s w \<or> (if seg = [] then w = v \<and> v \<in> set (adjacency v) else w \<in> insert v (set seg))"
  using assms by (auto simp: close_component_def Let_def pop_component_append)

lemma component_closed:
  assumes f: "following active v s (set (adjacency v)) s1" and inv: "search_inv active s"
    and v: "v \<notin> visited_set s" and eq: "lowlink s1 v = num s1 v" and seg: "stack s1 = seg @ v # stack s"
    and u: "u \<in> insert v (set seg)" "w \<in> set (adjacency u)"
  shows "w \<in> finished s1 \<union> insert v (set seg)"
proof -
  have I: "search_inv (insert v active) s1" using f by (simp add: following_def)
  note J = search_invD [OF I]
  have "u \<notin> insert v active" if "u \<noteq> v"
    using that u(1) J(1) search_invD(5) [OF inv] by (auto simp: seg)
  moreover have "u \<in> visited_set s1" using u(1) J(3) by (auto simp: seg)
  ultimately have "w \<in> visited_set s1"
    using u(2) J(8) f by (cases "u = v") (auto simp: following_def)
  moreover have "w \<notin> set (stack s)"
  proof
    assume w: "w \<in> set (stack s)"
    obtain seg' where "stack s1 = seg' @ v # stack s"
      and low: "\<And>u w. u \<in> set seg' \<Longrightarrow> w \<in> set (adjacency u) \<Longrightarrow> w \<in> set (stack s) \<Longrightarrow> lowlink s1 v \<le> num s w"
      using f by (rule followingE) blast
    then have "seg' = seg" using seg by simp
    then have "lowlink s1 v \<le> num s w" using low u w f by (cases "u = v") (auto simp: following_def)
    moreover have "num s1 w = num s w"
      using following_num(1) [OF f] search_invD(3) [OF inv] v w by (metis subsetD)
    moreover have "num s1 w < num s1 v" using following_below [OF f, of w] w by (auto simp: seg)
    ultimately show False using eq by simp
  qed
  ultimately show ?thesis by (auto simp: finished_def seg)
qed

text \<open>Every member of the component is connected to \<open>v\<close> in both directions.\<close>

lemma component_mutual:
  assumes f: "following active v s (set (adjacency v)) s1" and inv: "search_inv active s"
    and seg: "stack s1 = seg @ v # stack s" and u: "u \<in> insert v (set seg)"
  shows "reaches u v" "reaches v u"
proof -
  have I: "search_inv (insert v active) s1" using f by (simp add: following_def)
  note J = search_invD [OF I]
  have us: "u \<in> set (stack s1)" "v \<in> set (stack s1)" using u by (auto simp: seg)
  have "u = v \<or> u \<notin> set (stack s)" using u J(1) by (auto simp: seg)
  then have "num s1 v \<le> num s1 u" using following_below [OF f us(1)] by fastforce
  then show "reaches v u" using J(10) us by blast
  obtain x where x: "x \<in> insert v active" "reaches u x" using J(11) [OF us(1)] by blast
  have "reaches x v"
  proof (cases "x = v")
    case False
    then have "x \<in> set (stack s)" using x(1) search_invD(5) [OF inv] by blast
    moreover from this have xs: "x \<in> set (stack s1)" by (simp add: seg)
    ultimately have "num s1 x \<le> num s1 v" using following_below [OF f xs] by simp
    then show ?thesis using J(10) us(2) \<open>x \<in> set (stack s1)\<close> by blast
  qed simp
  with x(2) show "reaches u v" by (rule reaches_trans)
qed

lemma component_cyclic:
  assumes f: "following active v s (set (adjacency v)) s1" and inv: "search_inv active s"
    and v: "v \<notin> visited_set s" and eq: "lowlink s1 v = num s1 v" and seg: "stack s1 = seg @ v # stack s"
    and u: "u \<in> insert v (set seg)"
  shows "on_cycle u \<longleftrightarrow> (if seg = [] then v \<in> set (adjacency v) else True)"
proof (cases seg)
  case Nil
  then have uv: "u = v" using u by simp
  have I: "search_inv (insert v active) s1" using f by (simp add: following_def)
  note J = search_invD [OF I]
  have "v \<in> set (adjacency v)" if c: "on_cycle v"
  proof (rule ccontr)
    assume "v \<notin> set (adjacency v)"
    then obtain w where w: "w \<noteq> v" "reaches v w" "reaches w v" using on_cycle_cases [OF c] by blast
    have "set (adjacency x) \<subseteq> finished s1 \<union> {v}" if "x \<in> finished s1 \<union> {v}" for x
      using that component_closed [OF f inv v eq seg, of v] J(9) Nil by auto
    then have "w \<in> finished s1 \<union> {v}" using reaches_closed [OF w(2), of "finished s1 \<union> {v}"] by blast
    then have "w \<in> finished s1" using w(1) by simp
    then have "v \<in> finished s1" using reaches_closed [OF w(3)] J(9) by blast
    then show False by (simp add: finished_def seg)
  qed
  then show ?thesis using Nil uv self_edge_on_cycle by auto
next
  case (Cons y ys)
  have I: "search_inv (insert v active) s1" using f by (simp add: following_def)
  have "y \<noteq> v" using search_invD(1) [OF I] Cons by (auto simp: seg)
  note m = component_mutual [OF f inv seg]
  obtain z where "z \<in> insert v (set seg)" "z \<noteq> u" using Cons \<open>y \<noteq> v\<close> by (cases "u = v") auto
  then have "reaches u z" "reaches z u" using m u reaches_trans by blast+
  then show ?thesis using mutual_on_cycle \<open>z \<noteq> u\<close> Cons by auto
qed

lemma close_shut:
  assumes f: "following active v s (set (adjacency v)) s1" and inv: "search_inv active s"
    and v: "v \<notin> visited_set s" and eq: "lowlink s1 v = num s1 v"
  shows "connected active v s (close_component adjacency v s1)"
proof -
  let ?s = "close_component adjacency v s1"
  have I: "search_inv (insert v active) s1" using f by (simp add: following_def)
  note J = search_invD [OF I] and K = search_invD [OF inv]
  obtain seg where seg: "stack s1 = seg @ v # stack s" and m: "indices (push_vertex v s) \<subseteq>\<^sub>m indices s1"
    and nx: "next_index s < next_index s1" and ll: "\<forall>u\<in>visited_set s. lowlink s1 u = lowlink s u"
    using f by (rule followingE) blast
  have vs: "v \<in> visited_set s1" using following_num(3) [OF f] J(3) by blast
  then have ix: "indices s1 v = Some (lowlink s1 v)" using eq by (auto simp: num_def visited_iff)
  have dis: "v \<notin> set seg" "insert v (set seg) \<inter> set (stack s) = {}" using J(1) by (auto simp: seg)
  note E = close_component_eq [OF ix seg dis(1)]
  have vis: "visited_set ?s = visited_set s1" "num ?s = num s1"
    by (simp_all add: visited_set_def num_def E(1) fun_eq_iff)
  have fin: "finished ?s = finished s1 \<union> insert v (set seg)"
    using J(3) dis by (auto simp: finished_def vis E(2) seg)
  have ns: "num s1 x = num s x" if "x \<in> set (stack s)" for x
    using following_num(1) [OF f] K(3) v that by blast
  have top: "x \<in> set (stack s1)" if "x \<in> set (stack s)" for x using that by (simp add: seg)
  have adj: "set (adjacency v) \<subseteq> visited_set s1" using f by (auto simp: following_def)
  have "search_inv active ?s"
  proof (rule search_invI)
    show "distinct (stack ?s)" "sorted_wrt (\<lambda>x y. num ?s y < num ?s x) (stack ?s)"
      using J(1,7) by (simp_all add: seg E(2) vis sorted_wrt_append)
    show "set (stack ?s) \<subseteq> visited_set ?s" "visited_set ?s \<subseteq> vertices" "active \<subseteq> set (stack ?s)"
      using J(3,4) K(5) by (auto simp: seg E(2) vis)
    show "onStack ?s w \<longleftrightarrow> w \<in> set (stack ?s)" for w
      using dis(2) by (auto simp: E(2,5) J(2) seg)
    show "num ?s u < next_index ?s" if "u \<in> visited_set ?s" for u using that J(6) by (simp add: vis E(4))
    show "set (adjacency u) \<subseteq> visited_set ?s" if "u \<in> visited_set ?s" "u \<notin> active" for u
      using that J(8) [of u] adj by (cases "u = v") (simp_all add: vis)
    show "set (adjacency u) \<subseteq> finished ?s" if "u \<in> finished ?s" for u
      using that J(9) component_closed [OF f inv v eq seg, of u] unfolding fin by blast
    show "reaches x y" if "x \<in> set (stack ?s)" "y \<in> set (stack ?s)" "num ?s x \<le> num ?s y" for x y
      using that J(10) top by (simp add: E(2) vis)
    show "\<exists>x\<in>active. num ?s x \<le> num ?s y \<and> reaches y x" if y: "y \<in> set (stack ?s)" for y
    proof -
      obtain x where "x \<in> active" "num s x \<le> num s y" "reaches y x" using K(11) y by (auto simp: E(2))
      then show ?thesis using ns y K(5) by (auto simp: E(2) vis intro!: bexI [of _ x])
    qed
    show "cyclic ?s u \<longleftrightarrow> u \<in> finished ?s \<and> on_cycle u" for u
    proof (cases "u \<in> insert v (set seg)")
      case True
      then have "u \<notin> finished s1" by (auto simp: finished_def seg)
      then show ?thesis using component_cyclic [OF f inv v eq seg True] True by (auto simp: E(6) fin J(12))
    next
      case False
      then show ?thesis by (auto simp: E(6) fin J(12) split: if_splits)
    qed
  qed
  moreover have "grows s ?s []"
    unfolding grows_def E
  proof (intro conjI)
    show "indices s \<subseteq>\<^sub>m indices s1"
      using m v unfolding push_vertex_simps map_le_def visited_iff by (metis domIff fun_upd_other domI)
  qed (use nx ll in auto)
  ultimately show ?thesis
    using vs eq following_num(2) [OF f] unfolding connected_def vis E
    by (intro conjI exI [of _ "[]"]) (simp_all add: vis E)
qed

lemma close_connected:
  assumes "following active v s (set (adjacency v)) s1" "search_inv active s" "v \<notin> visited_set s"
  shows "connected active v s (close_component adjacency v s1)"
proof (cases "lowlink s1 v = num s1 v")
  case False
  then have "close_component adjacency v s1 = s1" by (auto simp: close_component_def num_def)
  then show ?thesis using close_open [OF assms False] by simp
qed (rule close_shut [OF assms])

section \<open>The calls return\<close>

definition unvisited :: "'v search \<Rightarrow> nat" where
  "unvisited s = card (vertices - visited_set s)"

lemma unvisited_push:
  assumes "v \<in> vertices" "v \<notin> visited_set s"
  shows "unvisited s = Suc (unvisited (push_vertex v s))"
proof -
  have "vertices - visited_set s = insert v (vertices - insert v (visited_set s))" using assms by auto
  then show ?thesis unfolding unvisited_def visited_push
    using finite_vertices by (metis card_insert_disjoint finite_Diff insertI1 Diff_iff)
qed

lemma unvisited_mono: "visited_set s \<subseteq> visited_set s' \<Longrightarrow> unvisited s' \<le> unvisited s"
  unfolding unvisited_def using finite_vertices by (intro card_mono) auto

text \<open>The vertices whose calls are running reach every vertex that is entered from them.\<close>

lemma following_active:
  assumes "following active v s ws s1" "\<And>g. g \<in> active \<Longrightarrow> reaches g v" "w \<in> set (adjacency v)" "g \<in> insert v active"
  shows "reaches g w"
  using assms(2) [of g] reaches_edge [OF assms(3)] assms(4) by (auto intro: reaches_trans)

lemma following_visited_mono: "following active v s ws s1 \<Longrightarrow> insert v (visited_set s) \<subseteq> visited_set s1"
  using visited_mono [of "push_vertex v s" s1] by (auto simp: following_def)

definition calls_return :: "nat \<Rightarrow> bool" where
  "calls_return n \<longleftrightarrow>
     (\<forall>active v s. search_inv active s \<and> v \<notin> visited_set s \<and> v \<in> vertices \<and> (\<forall>g\<in>active. reaches g v)
        \<and> unvisited s \<le> n \<longrightarrow> (\<exists>s'. strongConnect n adjacency v s = Some s' \<and> connected active v s s'))"

lemma calls_returnE:
  assumes "calls_return n" "search_inv active s" "v \<notin> visited_set s" "v \<in> vertices"
    "\<And>g. g \<in> active \<Longrightarrow> reaches g v" "unvisited s \<le> n"
  obtains s' where "strongConnect n adjacency v s = Some s'" "connected active v s s'"
  using assms unfolding calls_return_def by blast

lemma connect_all_following:
  assumes calls: "calls_return n" and inv: "search_inv active s" and v: "v \<notin> visited_set s" "v \<in> vertices"
    and act: "\<And>g. g \<in> active \<Longrightarrow> reaches g v" and n: "unvisited (push_vertex v s) \<le> n"
  shows "following active v s ws s1 \<Longrightarrow> set es \<subseteq> set (adjacency v)
    \<Longrightarrow> \<exists>s2. connect_all n adjacency v es s1 = Some s2 \<and> following active v s (ws \<union> set es) s2"
proof (induction es arbitrary: ws s1)
  case (Cons w es)
  have e: "w \<in> set (adjacency v)" and es: "set es \<subseteq> set (adjacency v)" using Cons.prems(2) by auto
  have I: "search_inv (insert v active) s1" using Cons.prems(1) by (simp add: following_def)
  show ?case
  proof (cases "indices s1 w")
    case (Some i)
    show ?thesis
      using Cons.IH [OF following_visited [OF Cons.prems(1) v(1) Some e inv] es] Some by simp
  next
    case None
    then have w: "w \<notin> visited_set s1" by (simp add: visited_iff)
    have wv: "w \<in> vertices" using closed [OF v(2)] e by blast
    have un: "unvisited s1 \<le> n"
      using unvisited_mono [of "push_vertex v s" s1] following_visited_mono [OF Cons.prems(1)] n by simp
    obtain s2 where s2: "strongConnect n adjacency w s1 = Some s2" "connected (insert v active) w s1 s2"
      using calls_returnE [OF calls I w wv following_active [OF Cons.prems(1) act e] un] by blast
    show ?thesis
      using Cons.IH [OF following_call [OF Cons.prems(1) v(1) w e inv s2(2)] es] None s2(1) by simp
  qed
qed simp

lemma strongConnect_returns: "calls_return n"
proof (induction n)
  case 0
  have "unvisited s \<noteq> 0" if "v \<notin> visited_set s" "v \<in> vertices" for v s
    using unvisited_push [OF that(2,1)] by simp
  then show ?case unfolding calls_return_def by fastforce
next
  case (Suc n)
  show ?case unfolding calls_return_def
  proof (intro allI impI)
    fix active v s
    assume "search_inv active s \<and> v \<notin> visited_set s \<and> v \<in> vertices \<and> (\<forall>g\<in>active. reaches g v)
      \<and> unvisited s \<le> Suc n"
    then have a: "search_inv active s" "v \<notin> visited_set s" "v \<in> vertices" "\<And>g. g \<in> active \<Longrightarrow> reaches g v"
      and n: "unvisited (push_vertex v s) \<le> n"
      using unvisited_push [of v s] by auto
    obtain s1 where "connect_all n adjacency v (adjacency v) (push_vertex v s) = Some s1"
      "following active v s (set (adjacency v)) s1"
      using connect_all_following [OF Suc a n following_start [OF a] subset_refl] by auto
    then show "\<exists>s'. strongConnect (Suc n) adjacency v s = Some s' \<and> connected active v s s'"
      using close_connected [OF _ a(1,2)] by auto
  qed
qed

section \<open>The loop over the files\<close>

lemma no_search_inv: "search_inv {} no_search"
  by (simp add: search_inv_def no_search_def visited_set_def finished_def)

lemma connect_files_cyclic:
  assumes "search_inv {} s" "set files \<subseteq> vertices" "unvisited s \<le> n"
  shows "\<exists>s'. connect_files n adjacency files s = Some s' \<and> search_inv {} s'
    \<and> visited_set s \<union> set files \<subseteq> visited_set s'"
  using assms
proof (induction files arbitrary: s)
  case (Cons v files)
  show ?case
  proof (cases "indices s v")
    case (Some i)
    then have "v \<in> visited_set s" by (simp add: visited_iff)
    then show ?thesis using Cons Some by fastforce
  next
    case None
    then have v: "v \<notin> visited_set s" "v \<in> vertices" using Cons.prems(2) by (simp_all add: visited_iff)
    obtain s1 where s1: "strongConnect n adjacency v s = Some s1" "connected {} v s s1"
      using calls_returnE [OF strongConnect_returns Cons.prems(1) v _ Cons.prems(3)] by blast
    then have m: "visited_set s \<subseteq> visited_set s1" "v \<in> visited_set s1" "search_inv {} s1"
      by (auto simp: connected_def dest: grows_visited)
    obtain s' where s': "connect_files n adjacency files s1 = Some s'" "search_inv {} s'"
      "visited_set s1 \<union> set files \<subseteq> visited_set s'"
      using Cons.IH [OF m(3)] Cons.prems(2,3) unvisited_mono [OF m(1)] by auto
    show ?thesis
    proof (intro exI conjI)
      show "connect_files n adjacency (v # files) s = Some s'" using None s1(1) s'(1) by simp
    qed (use s' m in auto)
  qed
qed auto

lemma find_cycles_on_cycle:
  assumes "set vs = vertices" "set files \<subseteq> vertices"
  obtains c where "find_cycles adjacency vs files = Some c" "\<And>u. u \<in> set files \<Longrightarrow> c u \<longleftrightarrow> on_cycle u"
    "\<And>u. c u \<Longrightarrow> on_cycle u"
proof -
  have "card vertices \<le> length vs" using assms(1) card_length by blast
  then have "unvisited no_search \<le> Suc (length vs)"
    unfolding unvisited_def using finite_vertices by (metis Diff_subset card_mono le_SucI le_trans)
  then obtain s where s: "connect_files (Suc (length vs)) adjacency files no_search = Some s"
    "search_inv {} s" "set files \<subseteq> visited_set s"
    using connect_files_cyclic [OF no_search_inv assms(2)] by blast
  note I = search_invD [OF s(2)]
  have "stack s = []" using I(11) by (cases "stack s") auto
  then have "cyclic s u \<longleftrightarrow> u \<in> visited_set s \<and> on_cycle u" for u
    using I(12) by (simp add: finished_def)
  with s show ?thesis by (intro that [of "cyclic s"]) (auto simp: find_cycles_def)
qed

end

end
