(* ===== verification/GoSlices.thy ===== *)
theory GoSlices
  imports Prelude "HOL-Library.Multiset"
begin

text \<open>
  What the code uses of Go's \<open>sort\<close> and \<open>slices\<close>: sorting, binary search, and \<open>core.DeduplicateSorted\<close>.
  Sorting is an insertion sort here; Go's is not stable, and nothing that is proved depends on
  the order of equal elements. The binary search is the library's loop.
\<close>

section \<open>Sorting with a less function\<close>

fun insert_slice :: "('a \<Rightarrow> 'a \<Rightarrow> bool) \<Rightarrow> 'a \<Rightarrow> 'a list \<Rightarrow> 'a list" where
  "insert_slice lt x [] = [x]"
| "insert_slice lt x (y # ys) = (if lt y x then y # insert_slice lt x ys else x # y # ys)"

definition sort_slice :: "('a \<Rightarrow> 'a \<Rightarrow> bool) \<Rightarrow> 'a list \<Rightarrow> 'a list" where
  "sort_slice lt xs = foldr (insert_slice lt) xs []"

text \<open>What \<open>sort.Slice\<close> promises for a strict weak order.\<close>

locale slice_order =
  fixes lt :: "'a \<Rightarrow> 'a \<Rightarrow> bool"
  assumes asym: "lt x y \<Longrightarrow> \<not> lt y x"
    and neg_trans: "\<not> lt y x \<Longrightarrow> \<not> lt z y \<Longrightarrow> \<not> lt z x"
begin

lemma insert_sorted: "sorted_wrt (\<lambda>x y. \<not> lt y x) ys \<Longrightarrow> sorted_wrt (\<lambda>x y. \<not> lt y x) (insert_slice lt x ys)"
proof (induction ys)
  case (Cons y ys)
  have "set (insert_slice lt x ys) = insert x (set ys)" for x by (induction ys) auto
  with Cons show ?case by (auto dest: asym) (metis neg_trans)
qed simp

lemma sort_sorted: "sorted_wrt (\<lambda>x y. \<not> lt y x) (sort_slice lt xs)"
  by (induction xs) (simp_all add: sort_slice_def insert_sorted)

end

lemma mset_insert_slice [simp]: "mset (insert_slice lt x ys) = add_mset x (mset ys)"
  by (induction ys) auto

lemma mset_sort_slice [simp]: "mset (sort_slice lt xs) = mset xs"
  by (induction xs) (simp_all add: sort_slice_def)

lemma set_sort_slice [simp]: "set (sort_slice lt xs) = set xs"
  by (metis mset_sort_slice set_mset_mset)

section \<open>Binary search\<close>

text \<open>The loop of \<open>sort.Search\<close>: the first index from \<open>i\<close> to \<open>j\<close> at which \<open>f\<close> holds, for a monotone \<open>f\<close>.\<close>

function search_loop :: "(nat \<Rightarrow> bool) \<Rightarrow> nat \<Rightarrow> nat \<Rightarrow> nat" where
  "search_loop f i j =
     (if i < j
      then (let h = (i + j) div 2 in if \<not> f h then search_loop f (h + 1) j else search_loop f i h)
      else i)"
  by pat_completeness auto
termination by (relation "measure (\<lambda>(f, i, j). j - i)") auto

declare search_loop.simps [simp del]

definition sort_Search :: "nat \<Rightarrow> (nat \<Rightarrow> bool) \<Rightarrow> nat" where
  "sort_Search n f = search_loop f 0 n"

text \<open>\<open>slices.BinarySearchFunc\<close>.\<close>

definition BinarySearchFunc :: "'a list \<Rightarrow> 'b \<Rightarrow> ('a \<Rightarrow> 'b \<Rightarrow> int) \<Rightarrow> nat \<times> bool" where
  "BinarySearchFunc xs target cmp =
     (let i = search_loop (\<lambda>h. \<not> cmp (xs ! h) target < 0) 0 (length xs)
      in (i, i < length xs \<and> cmp (xs ! i) target = 0))"

lemma search_loop_range: "i \<le> j \<Longrightarrow> i \<le> search_loop f i j \<and> search_loop f i j \<le> j"
proof (induction f i j rule: search_loop.induct)
  case (1 f i j)
  show ?case
  proof (cases "i < j")
    case True
    define h where "h = (i + j) div 2"
    have h: "i \<le> h" "h < j" using True by (auto simp: h_def)
    show ?thesis
      using "1.IH"(1) [OF True h_def] "1.IH"(2) [OF True h_def] h True
      by (cases "f h") (simp_all add: search_loop.simps [of f i j] h_def [symmetric])
  next
    case False
    then have "search_loop f i j = i" by (simp add: search_loop.simps [of f i j])
    then show ?thesis using "1.prems" by simp
  qed
qed

lemma search_loop_first:
  assumes "\<And>k l. f k \<Longrightarrow> k \<le> l \<Longrightarrow> l < n \<Longrightarrow> f l" "i \<le> j" "j \<le> n"
    and "\<And>k. k < i \<Longrightarrow> \<not> f k" "\<And>k. j \<le> k \<Longrightarrow> k < n \<Longrightarrow> f k"
  shows "(\<forall>k<search_loop f i j. \<not> f k) \<and> (\<forall>k. search_loop f i j \<le> k \<longrightarrow> k < n \<longrightarrow> f k)"
  using assms
proof (induction f i j rule: search_loop.induct)
  case (1 f i j)
  show ?case
  proof (cases "i < j")
    case True
    define h where "h = (i + j) div 2"
    have h: "i \<le> h" "h < j" using True by (auto simp: h_def)
    show ?thesis
    proof (cases "f h")
      case False
      have eq: "search_loop f i j = search_loop f (h + 1) j"
        using True False by (simp add: search_loop.simps [of f i j] h_def)
      have below: "\<not> f k" if "k < h + 1" for k
      proof
        assume "f k"
        then have "f h" by (rule "1.prems"(1)) (use that h "1.prems"(3) in simp_all)
        with False show False ..
      qed
      have "h + 1 \<le> j" using h by simp
      from "1.IH"(1) [OF True h_def False "1.prems"(1) this "1.prems"(3) below "1.prems"(5)]
      show ?thesis unfolding eq .
    next
      case True2: True
      have eq: "search_loop f i j = search_loop f i h"
        using True True2 by (simp add: search_loop.simps [of f i j] h_def)
      have above: "f k" if "h \<le> k" "k < n" for k
        using "1.prems"(1) [OF True2 that] .
      have "\<not> \<not> f h" "h \<le> n" using True2 h "1.prems"(3) by simp_all
      from "1.IH"(2) [OF True h_def this(1) "1.prems"(1) h(1) this(2) "1.prems"(4) above]
      show ?thesis unfolding eq .
    qed
  next
    case False
    then have eq: "search_loop f i j = i" by (simp add: search_loop.simps [of f i j])
    have "i = j" using False "1.prems"(2) by simp
    then show ?thesis unfolding eq using "1.prems"(4,5) by blast
  qed
qed

lemma sort_Search_first:
  assumes "\<forall>k l. f k \<longrightarrow> k \<le> l \<longrightarrow> l < n \<longrightarrow> f l"
  shows "sort_Search n f \<le> n" "k < sort_Search n f \<Longrightarrow> \<not> f k" "sort_Search n f \<le> k \<Longrightarrow> k < n \<Longrightarrow> f k"
proof -
  have "(\<forall>k<search_loop f 0 n. \<not> f k) \<and> (\<forall>k. search_loop f 0 n \<le> k \<longrightarrow> k < n \<longrightarrow> f k)"
    by (rule search_loop_first [where n = n]) (use assms in auto)
  then show "sort_Search n f \<le> n" "k < sort_Search n f \<Longrightarrow> \<not> f k" "sort_Search n f \<le> k \<Longrightarrow> k < n \<Longrightarrow> f k"
    using search_loop_range [of 0 n f] by (auto simp: sort_Search_def)
qed

text \<open>On a slice that is sorted for the key that is searched, everything before the result is smaller.\<close>

lemma BinarySearchFunc_first:
  assumes "BinarySearchFunc xs t cmp = (i, found)"
    and "\<forall>k l. k \<le> l \<longrightarrow> l < length xs \<longrightarrow> cmp (xs ! l) t < 0 \<longrightarrow> cmp (xs ! k) t < 0"
  shows "i \<le> length xs" "found \<longleftrightarrow> i < length xs \<and> cmp (xs ! i) t = 0"
    and "k < i \<Longrightarrow> cmp (xs ! k) t < 0" "i \<le> k \<Longrightarrow> k < length xs \<Longrightarrow> cmp (xs ! k) t \<ge> 0"
proof -
  have i: "i = sort_Search (length xs) (\<lambda>h. \<not> cmp (xs ! h) t < 0)"
    using assms(1) by (simp add: BinarySearchFunc_def sort_Search_def Let_def)
  note first = sort_Search_first [of "\<lambda>h. \<not> cmp (xs ! h) t < 0" "length xs", folded i]
  show "i \<le> length xs" "k < i \<Longrightarrow> cmp (xs ! k) t < 0" "i \<le> k \<Longrightarrow> k < length xs \<Longrightarrow> cmp (xs ! k) t \<ge> 0"
    using first assms(2) by (meson not_less)+
  show "found \<longleftrightarrow> i < length xs \<and> cmp (xs ! i) t = 0"
    using assms(1) by (auto simp: BinarySearchFunc_def Let_def)
qed

end
