(* ===== verification/GraphRules.thy ===== *)
theory GraphRules
  imports GraphConfig Tarjan GoSlices
begin

text \<open>
  \<open>tsc/internal/tscp/graph/rules.go\<close>: the evaluation of the rules against a module graph, and the
  graph's type from \<open>facts.go\<close>. A map from names to \<open>true\<close> is the list of its keys in the order in
  which an iteration gives them; \<open>quote\<close> is \<open>%q\<close> of \<open>fmt.Sprintf\<close>. A panic (of \<open>Pattern.Matches\<close>) is
  \<open>None\<close>. \<open>sort.Slice\<close> is an insertion sort here; Go's is not stable, and nothing below depends on
  the order of equal elements.
\<close>

section \<open>The graph\<close>

record ExportFact =
  ExportFile :: string
  ExportName :: string

datatype edge_kind = KindInternal | KindExternal

record EdgeFact =
  From :: string
  To :: string
  Specifier :: string
  EdgeKind :: edge_kind
  ResolvedPackage :: string
  EdgeNames :: "string list"
  IsDefault :: bool
  IsNamespace :: bool

record Graph =
  Package :: string
  Tsconfig :: string
  Files :: "string list"
  Exports :: "ExportFact list"
  Edges :: "EdgeFact list"

datatype check = CycleCheck | PhantomImportCheck | DevLeakCheck | UnusedCheck | ImportRulesCheck

fun check_name :: "check \<Rightarrow> string" where
  "check_name CycleCheck = ''cycle''"
| "check_name PhantomImportCheck = ''phantomImport''"
| "check_name DevLeakCheck = ''devLeak''"
| "check_name UnusedCheck = ''unused''"
| "check_name ImportRulesCheck = ''importRules''"

record Finding =
  Check :: check
  FindingFile :: string
  FindingSeverity :: Severity
  Message :: string

section \<open>The most specific rule\<close>

text \<open>
  The loop of \<open>bestSeverity\<close> and the two of \<open>bestImportRuleSeverity\<close>: \<open>eligible\<close> is the part of the
  guard before the pattern is matched, an exact pattern ends the loop, and of the others the first
  with the greatest \<open>StarIndex\<close> stays. \<open>bestStarIndex\<close> starts at \<open>-2\<close>.
\<close>

fun best_match_loop ::
  "('r \<Rightarrow> bool) \<Rightarrow> ('r \<Rightarrow> Pattern) \<Rightarrow> string \<Rightarrow> 'r list \<Rightarrow> 'r option \<Rightarrow> int \<Rightarrow> 'r option panics" where
  "best_match_loop eligible pat candidate [] best bestStarIndex = Some best"
| "best_match_loop eligible pat candidate (r # rs) best bestStarIndex =
     (if \<not> eligible r then best_match_loop eligible pat candidate rs best bestStarIndex
      else
        case Matches (pat r) candidate of
          None \<Rightarrow> None
        | Some False \<Rightarrow> best_match_loop eligible pat candidate rs best bestStarIndex
        | Some True \<Rightarrow>
            (case StarIndex (pat r) of
               None \<Rightarrow> Some (Some r)
             | Some i \<Rightarrow>
                 (if int i > bestStarIndex then best_match_loop eligible pat candidate rs (Some r) (int i)
                  else best_match_loop eligible pat candidate rs best bestStarIndex)))"

definition best_match :: "('r \<Rightarrow> bool) \<Rightarrow> ('r \<Rightarrow> Pattern) \<Rightarrow> string \<Rightarrow> 'r list \<Rightarrow> 'r option panics" where
  "best_match eligible pat candidate rs = best_match_loop eligible pat candidate rs None (- 2)"

definition bestSeverity :: "Rule list \<Rightarrow> string \<Rightarrow> (Rule \<Rightarrow> Severity option) \<Rightarrow> Severity option panics" where
  "bestSeverity rules candidate field =
     map_option (\<lambda>best. Option.bind best field)
       (best_match (\<lambda>r. field r \<noteq> None) rule_pattern candidate rules)"

definition bestImportRuleSeverity :: "Rule list \<Rightarrow> string \<Rightarrow> string \<Rightarrow> Severity option panics" where
  "bestImportRuleSeverity rules src dst =
     (case best_match (\<lambda>r. ImportRules r \<noteq> []) rule_pattern src rules of
        None \<Rightarrow> None
      | Some None \<Rightarrow> Some None
      | Some (Some best) \<Rightarrow>
          map_option (\<lambda>bestInner. Some (case bestInner of None \<Rightarrow> SeverityAllow | Some i \<Rightarrow> import_severity i))
            (best_match (\<lambda>_. True) import_pattern dst (ImportRules best)))"

section \<open>Cycles\<close>

definition adjacency :: "Graph \<Rightarrow> string \<Rightarrow> string list" where
  "adjacency g v = map To (filter (\<lambda>e. EdgeKind e = KindInternal \<and> To e \<noteq> [] \<and> From e = v) (Edges g))"

definition graph_vertices :: "Graph \<Rightarrow> string list" where
  "graph_vertices g = Files g @ map From (Edges g) @ map To (Edges g)"

definition findCycles :: "Graph \<Rightarrow> (string \<Rightarrow> bool) option" where
  "findCycles g = find_cycles (adjacency g) (graph_vertices g) (Files g)"

section \<open>Usage\<close>

text \<open>Membership in the two maps that \<open>usage\<close> builds.\<close>

definition usedFiles :: "Graph \<Rightarrow> string \<Rightarrow> bool" where
  "usedFiles g f \<longleftrightarrow> list_ex (\<lambda>e. EdgeKind e = KindInternal \<and> To e \<noteq> [] \<and> To e = f) (Edges g)"

definition usedPackages :: "Graph \<Rightarrow> string \<Rightarrow> bool" where
  "usedPackages g p \<longleftrightarrow>
     list_ex (\<lambda>e. EdgeKind e = KindExternal \<and> ResolvedPackage e \<noteq> [] \<and> ResolvedPackage e = p) (Edges g)"

section \<open>Evaluation\<close>

text \<open>A loop that appends to \<open>findings\<close>: the findings of each element, or a panic.\<close>

fun gather :: "('a \<Rightarrow> 'b list panics) \<Rightarrow> 'a list \<Rightarrow> 'b list panics" where
  "gather f [] = Some []"
| "gather f (x # xs) =
     (case f x of None \<Rightarrow> None | Some ys \<Rightarrow> (case gather f xs of None \<Rightarrow> None | Some zs \<Rightarrow> Some (ys @ zs)))"

text \<open>\<open>if severity, ok := ...; ok && severity > SeverityAllow { findings = append(findings, ...) }\<close>\<close>

definition finding_if :: "Severity option panics \<Rightarrow> (Severity \<Rightarrow> Finding) \<Rightarrow> Finding list panics" where
  "finding_if best finding =
     map_option (\<lambda>b. case b of None \<Rightarrow> [] | Some severity \<Rightarrow> (if severity > SeverityAllow then [finding severity] else [])) best"

definition cycle_findings :: "Rule list \<Rightarrow> (string \<Rightarrow> bool) \<Rightarrow> string \<Rightarrow> Finding list panics" where
  "cycle_findings rules cyc f =
     (if cyc f
      then finding_if (bestSeverity rules f CycleRule)
             (\<lambda>s. \<lparr>Check = CycleCheck, FindingFile = f, FindingSeverity = s,
                    Message = f @ '' participates in an import cycle''\<rparr>)
      else Some [])"

definition phantom_message :: "(string \<Rightarrow> string) \<Rightarrow> EdgeFact \<Rightarrow> string" where
  "phantom_message quote e =
     From e @ '' imports '' @ quote (ResolvedPackage e) @ '', which is not declared in package.json dependencies''"

definition leak_message :: "(string \<Rightarrow> string) \<Rightarrow> EdgeFact \<Rightarrow> string" where
  "leak_message quote e = From e @ '' imports '' @ quote (ResolvedPackage e) @ '', which is only a devDependency''"

definition external_findings ::
  "(string \<Rightarrow> string) \<Rightarrow> Rule list \<Rightarrow> string list \<Rightarrow> string list \<Rightarrow> EdgeFact \<Rightarrow> Finding list panics" where
  "external_findings quote rules deps devDeps e =
     (if EdgeKind e \<noteq> KindExternal \<or> ResolvedPackage e = [] then Some []
      else if ResolvedPackage e \<in> set deps then Some []
      else
        (case finding_if (bestSeverity rules (ResolvedPackage e) PhantomImport)
                (\<lambda>s. \<lparr>Check = PhantomImportCheck, FindingFile = From e, FindingSeverity = s,
                       Message = phantom_message quote e\<rparr>) of
           None \<Rightarrow> None
         | Some phantom \<Rightarrow>
             (if ResolvedPackage e \<in> set devDeps
              then map_option ((@) phantom)
                     (finding_if (bestSeverity rules (From e) DevLeak)
                        (\<lambda>s. \<lparr>Check = DevLeakCheck, FindingFile = From e, FindingSeverity = s,
                               Message = leak_message quote e\<rparr>))
              else Some phantom)))"

definition unused_file_findings :: "Rule list \<Rightarrow> Graph \<Rightarrow> string \<Rightarrow> Finding list panics" where
  "unused_file_findings rules g f =
     (if usedFiles g f then Some []
      else finding_if (bestSeverity rules f Unused)
             (\<lambda>s. \<lparr>Check = UnusedCheck, FindingFile = f, FindingSeverity = s,
                    Message = f @ '' is never imported anywhere in this project's graph''\<rparr>))"

definition unused_message :: "(string \<Rightarrow> string) \<Rightarrow> string \<Rightarrow> string \<Rightarrow> string" where
  "unused_message quote label name =
     label @ '' '' @ quote name
     @ '' is declared in package.json but never imported anywhere in this project's graph''"

definition unused_dependency_findings ::
  "(string \<Rightarrow> string) \<Rightarrow> Rule list \<Rightarrow> Graph \<Rightarrow> string \<Rightarrow> Finding list panics" where
  "unused_dependency_findings quote rules g name =
     (if usedPackages g name then Some []
      else finding_if (bestSeverity rules name Unused)
             (\<lambda>s. \<lparr>Check = UnusedCheck, FindingFile = [], FindingSeverity = s,
                    Message = unused_message quote ''dependency'' name\<rparr>))"

definition unused_dev_findings ::
  "(string \<Rightarrow> string) \<Rightarrow> Rule list \<Rightarrow> Graph \<Rightarrow> string list \<Rightarrow> string \<Rightarrow> Finding list panics" where
  "unused_dev_findings quote rules g deps name =
     (if usedPackages g name \<or> name \<in> set deps then Some []
      else finding_if (bestSeverity rules name Unused)
             (\<lambda>s. \<lparr>Check = UnusedCheck, FindingFile = [], FindingSeverity = s,
                    Message = unused_message quote ''devDependency'' name\<rparr>))"

definition boundary_target :: "EdgeFact \<Rightarrow> string option" where
  "boundary_target e =
     (if EdgeKind e = KindExternal
      then (if ResolvedPackage e = [] then None else Some (ResolvedPackage e))
      else Some (To e))"

definition boundary_findings :: "(string \<Rightarrow> string) \<Rightarrow> Rule list \<Rightarrow> EdgeFact \<Rightarrow> Finding list panics" where
  "boundary_findings quote rules e =
     (case boundary_target e of
        None \<Rightarrow> Some []
      | Some target \<Rightarrow>
          finding_if (bestImportRuleSeverity rules (From e) target)
            (\<lambda>s. \<lparr>Check = ImportRulesCheck, FindingFile = From e, FindingSeverity = s,
                   Message = From e @ '' must not import '' @ quote target\<rparr>))"

definition finding_less :: "Finding \<Rightarrow> Finding \<Rightarrow> bool" where
  "finding_less a b =
     (if FindingFile a \<noteq> FindingFile b then str_less (FindingFile a) (FindingFile b)
      else str_less (check_name (Check a)) (check_name (Check b)))"

definition all_findings ::
  "(string \<Rightarrow> string) \<Rightarrow> Graph \<Rightarrow> Rule list \<Rightarrow> string list \<Rightarrow> string list \<Rightarrow> (string \<Rightarrow> bool) \<Rightarrow> Finding list panics" where
  "all_findings quote g rules deps devDeps cyc =
     map_option concat (those
       [gather (cycle_findings rules cyc) (Files g),
        gather (external_findings quote rules deps devDeps) (Edges g),
        gather (unused_file_findings rules g) (Files g),
        gather (unused_dependency_findings quote rules g) deps,
        gather (unused_dev_findings quote rules g deps) devDeps,
        gather (boundary_findings quote rules) (Edges g)])"

definition Evaluate ::
  "(string \<Rightarrow> string) \<Rightarrow> Graph \<Rightarrow> Rule list \<Rightarrow> string list \<Rightarrow> string list \<Rightarrow> Finding list panics" where
  "Evaluate quote g rules deps devDeps =
     (case findCycles g of
        None \<Rightarrow> None
      | Some cyc \<Rightarrow> map_option (sort_slice finding_less) (all_findings quote g rules deps devDeps cyc))"

definition EvaluateIncremental ::
  "(string \<Rightarrow> string) \<Rightarrow> Graph \<Rightarrow> Rule list \<Rightarrow> string list \<Rightarrow> string list \<Rightarrow> Finding list panics" where
  "EvaluateIncremental quote g rules deps devDeps =
     map_option (filter (\<lambda>f. Check f \<noteq> UnusedCheck)) (Evaluate quote g rules deps devDeps)"

section \<open>The most specific of the rules that match\<close>

text \<open>An exact pattern outranks a starred one, and of two starred ones the one with the longer prefix.\<close>

definition outranks :: "Pattern \<Rightarrow> Pattern \<Rightarrow> bool" where
  "outranks p q \<longleftrightarrow>
     (case StarIndex q of
        None \<Rightarrow> False
      | Some j \<Rightarrow> (case StarIndex p of None \<Rightarrow> True | Some i \<Rightarrow> j < i))"

text \<open>The reference: the first rule that no other outranks.\<close>

definition most_specific :: "('r \<Rightarrow> Pattern) \<Rightarrow> 'r list \<Rightarrow> 'r option" where
  "most_specific pat rs = List.find (\<lambda>r. \<not> list_ex (\<lambda>q. outranks (pat q) (pat r)) rs) rs"

definition matching :: "('r \<Rightarrow> bool) \<Rightarrow> ('r \<Rightarrow> Pattern) \<Rightarrow> string \<Rightarrow> 'r list \<Rightarrow> 'r list" where
  "matching eligible pat candidate rs = filter (\<lambda>r. eligible r \<and> Matches (pat r) candidate = Some True) rs"

lemma most_specific_drop:
  assumes "outranks (pat q) (pat b)"
  shows "most_specific pat (b # q # rs) = most_specific pat (q # rs)"
proof -
  have "outranks (pat q) (pat r)" if "outranks (pat b) (pat r)" for r
    using assms that by (auto simp: outranks_def split: option.splits)
  then have "list_ex (\<lambda>x. outranks (pat x) (pat r)) (b # q # rs)
      = list_ex (\<lambda>x. outranks (pat x) (pat r)) (q # rs)" for r
    by auto
  with assms show ?thesis by (simp add: most_specific_def)
qed

lemma most_specific_keep:
  assumes "\<not> outranks (pat q) (pat b)" "StarIndex (pat q) \<noteq> None"
  shows "most_specific pat (b # q # rs) = most_specific pat (b # rs)"
proof -
  have "outranks (pat b) (pat r)" if "outranks (pat q) (pat r)" for r
    using assms that by (auto simp: outranks_def split: option.splits)
  then have eq: "list_ex (\<lambda>x. outranks (pat x) (pat r)) (b # q # rs)
      = list_ex (\<lambda>x. outranks (pat x) (pat r)) (b # rs)" for r
    by auto
  have "list_ex (\<lambda>x. outranks (pat x) (pat q)) (b # rs)" if "list_ex (\<lambda>x. outranks (pat x) (pat b)) (b # rs)"
    using assms that unfolding list_ex_iff by (fastforce simp: outranks_def split: option.splits)
  then show ?thesis unfolding most_specific_def eq by auto
qed

lemma most_specific_exact: "StarIndex (pat r) = None \<Longrightarrow> most_specific pat (r # rs) = Some r"
  by (auto simp: most_specific_def outranks_def list_ex_iff)

lemma most_specific_Nil [simp]: "most_specific pat [] = None"
  by (simp add: most_specific_def)

lemma best_match_loop_spec:
  assumes "list_all (\<lambda>r. IsValid (pat r)) rs"
    and "case best of None \<Rightarrow> idx = - 2 | Some b \<Rightarrow> \<exists>i. StarIndex (pat b) = Some i \<and> idx = int i"
  shows "best_match_loop eligible pat c rs best idx =
    Some (most_specific pat ((case best of None \<Rightarrow> [] | Some b \<Rightarrow> [b]) @ matching eligible pat c rs))"
  using assms
proof (induction eligible pat c rs best idx rule: best_match_loop.induct)
  case (1 eligible pat c best idx)
  then show ?case
    by (cases best) (auto simp: matching_def most_specific_def outranks_def)
next
  case (2 eligible pat c r rs best idx)
  obtain m where m: "Matches (pat r) c = Some m" using Matches_valid "2.prems"(1) by fastforce
  show ?case
  proof (cases "eligible r \<and> m")
    case False
    with 2 m show ?thesis by (cases "eligible r"; cases m) (simp_all add: matching_def)
  next
    case True
    then have mt: "matching eligible pat c (r # rs) = r # matching eligible pat c rs"
      using m by (simp add: matching_def)
    show ?thesis
    proof (cases "StarIndex (pat r)")
      case None
      have "most_specific pat (b # r # matching eligible pat c rs) = Some r"
        if "best = Some b" for b
      proof -
        have "outranks (pat r) (pat b)" using "2.prems"(2) None that by (auto simp: outranks_def)
        then show ?thesis by (simp add: most_specific_drop most_specific_exact None)
      qed
      then show ?thesis using True m None mt by (cases best) (simp_all add: most_specific_exact)
    next
      case (Some i)
      show ?thesis
      proof (cases "int i > idx")
        case gt: True
        have "most_specific pat (b # r # matching eligible pat c rs) = most_specific pat (r # matching eligible pat c rs)"
          if "best = Some b" for b
          by (rule most_specific_drop) (use "2.prems"(2) Some gt that in \<open>auto simp: outranks_def\<close>)
        then show ?thesis
          using True m Some mt gt "2.IH"(2) [OF _ m _ Some gt] "2.prems" by (cases best) simp_all
      next
        case le: False
        then obtain b where b: "best = Some b" using "2.prems"(2) by (cases best) auto
        have "most_specific pat (b # r # matching eligible pat c rs) = most_specific pat (b # matching eligible pat c rs)"
          by (rule most_specific_keep) (use "2.prems"(2) Some le b in \<open>auto simp: outranks_def\<close>)
        then show ?thesis
          using True m Some mt le b "2.IH"(3) [OF _ m _ Some le] "2.prems" by simp
      qed
    qed
  qed
qed

lemma best_match_spec:
  "list_all (\<lambda>r. IsValid (pat r)) rs \<Longrightarrow>
     best_match eligible pat c rs = Some (most_specific pat (matching eligible pat c rs))"
  by (simp add: best_match_def best_match_loop_spec)

text \<open>What a check says of a candidate, by the reference.\<close>

definition severity_for :: "Rule list \<Rightarrow> (Rule \<Rightarrow> Severity option) \<Rightarrow> string \<Rightarrow> Severity option" where
  "severity_for rules field c =
     Option.bind (most_specific rule_pattern (matching (\<lambda>r. field r \<noteq> None) rule_pattern c rules)) field"

definition boundary_severity :: "Rule list \<Rightarrow> string \<Rightarrow> string \<Rightarrow> Severity option" where
  "boundary_severity rules src dst =
     (case most_specific rule_pattern (matching (\<lambda>r. ImportRules r \<noteq> []) rule_pattern src rules) of
        None \<Rightarrow> None
      | Some r \<Rightarrow>
          (case most_specific import_pattern (matching (\<lambda>_. True) import_pattern dst (ImportRules r)) of
             None \<Rightarrow> Some SeverityAllow
           | Some i \<Rightarrow> Some (import_severity i)))"

lemma most_specific_in: "most_specific pat rs = Some r \<Longrightarrow> r \<in> set rs"
  by (auto simp: most_specific_def dest: find_SomeD)

lemma rules_patterns: "rules_valid rules \<Longrightarrow> list_all (\<lambda>r. IsValid (rule_pattern r)) rules"
  by (auto simp: rules_valid_def rule_valid_def list_all_iff)

lemma bestSeverity_eq: "rules_valid rules \<Longrightarrow> bestSeverity rules c field = Some (severity_for rules field c)"
  by (simp add: bestSeverity_def severity_for_def best_match_spec rules_patterns)

lemma bestImportRuleSeverity_eq:
  assumes "rules_valid rules"
  shows "bestImportRuleSeverity rules src dst = Some (boundary_severity rules src dst)"
proof (cases "most_specific rule_pattern (matching (\<lambda>r. ImportRules r \<noteq> []) rule_pattern src rules)")
  case None
  then show ?thesis
    using assms by (simp add: bestImportRuleSeverity_def boundary_severity_def best_match_spec rules_patterns)
next
  case (Some r)
  then have "r \<in> set rules" using most_specific_in by (fastforce simp: matching_def)
  then have "list_all (\<lambda>i. IsValid (import_pattern i)) (ImportRules r)"
    using assms by (auto simp: rules_valid_def rule_valid_def list_all_iff)
  with Some assms show ?thesis
    by (auto simp: bestImportRuleSeverity_def boundary_severity_def best_match_spec rules_patterns split: option.splits)
qed

text \<open>With the rules that \<open>parseRules\<close> gives, the loops of \<open>bestSeverity\<close> and \<open>bestImportRuleSeverity\<close> never
  call \<open>Matches\<close> on a pattern it panics on, and they find what the reference finds: of the rules that
  define the field and match the candidate, the first that none of the others outranks (an exact
  pattern before a starred one, a longer prefix before a shorter one), and no severity when there is
  none; for a boundary, the outer pattern is chosen first and its inner list is then the only one
  that is read.\<close>
theorem bestSeverity_most_specific:
  "bestSeverity (parseRules xs) c field = Some (severity_for (parseRules xs) field c)
   \<and> bestImportRuleSeverity (parseRules xs) c dst = Some (boundary_severity (parseRules xs) c dst)"
  by (simp add: bestSeverity_eq bestImportRuleSeverity_eq rules_valid_parse)

section \<open>Cycles are found exactly\<close>

definition internal_edges :: "Graph \<Rightarrow> (string \<times> string) set" where
  "internal_edges g = (\<lambda>e. (From e, To e)) ` {e \<in> set (Edges g). EdgeKind e = KindInternal \<and> To e \<noteq> []}"

lemma adjacency_iff: "w \<in> set (adjacency g v) \<longleftrightarrow> (v, w) \<in> internal_edges g"
  by (auto simp: adjacency_def internal_edges_def)

interpretation cycles: finite_graph "adjacency g" "set (graph_vertices g)" for g
  by unfold_locales (auto simp: adjacency_def graph_vertices_def)

lemma cycles_edges: "cycles.edges g = internal_edges g"
  by (auto simp: cycles.edges_def adjacency_iff)

lemma cycles_on_cycle: "cycles.on_cycle g f \<longleftrightarrow> (f, f) \<in> (internal_edges g)\<^sup>+"
  by (simp add: cycles.on_cycle_def cycles_edges)

lemma findCycles_exact:
  obtains c where "findCycles g = Some c" "\<And>f. f \<in> set (Files g) \<Longrightarrow> c f \<longleftrightarrow> (f, f) \<in> (internal_edges g)\<^sup>+"
proof -
  have "set (Files g) \<subseteq> set (graph_vertices g)" by (auto simp: graph_vertices_def)
  then obtain c where "find_cycles (adjacency g) (graph_vertices g) (Files g) = Some c"
    "\<And>u. u \<in> set (Files g) \<Longrightarrow> c u \<longleftrightarrow> cycles.on_cycle g u"
    using cycles.find_cycles_on_cycle [OF refl] by metis
  then show ?thesis using that by (simp add: findCycles_def cycles_on_cycle)
qed

text \<open>C16: Tarjan's algorithm in \<open>findCycles\<close> ends on every graph, and the files it marks are exactly those
  from which a path of one or more internal edges leads back to the file.\<close>
theorem findCycles_correct:
  "map_option (\<lambda>c. filter c (Files g)) (findCycles g) = Some (filter (\<lambda>f. (f, f) \<in> (internal_edges g)\<^sup>+) (Files g))"
  by (rule findCycles_exact [of g]) (auto intro: filter_cong)

section \<open>What is a violation\<close>

text \<open>
  The specification of \<open>Evaluate\<close>, one rule for each check. It knows nothing of loops, of the order
  of the findings or of the algorithm that finds cycles.
\<close>

inductive violation ::
  "(string \<Rightarrow> string) \<Rightarrow> Graph \<Rightarrow> Rule list \<Rightarrow> string set \<Rightarrow> string set \<Rightarrow> Finding \<Rightarrow> bool"
  for quote g rules deps devDeps where
  Cyclic: "f \<in> set (Files g) \<Longrightarrow> (f, f) \<in> (internal_edges g)\<^sup>+ \<Longrightarrow> severity_for rules CycleRule f = Some s
    \<Longrightarrow> s \<noteq> SeverityAllow
    \<Longrightarrow> violation quote g rules deps devDeps
          \<lparr>Check = CycleCheck, FindingFile = f, FindingSeverity = s, Message = f @ '' participates in an import cycle''\<rparr>"
| Phantom: "e \<in> set (Edges g) \<Longrightarrow> EdgeKind e = KindExternal \<Longrightarrow> ResolvedPackage e \<noteq> []
    \<Longrightarrow> ResolvedPackage e \<notin> deps \<Longrightarrow> severity_for rules PhantomImport (ResolvedPackage e) = Some s
    \<Longrightarrow> s \<noteq> SeverityAllow
    \<Longrightarrow> violation quote g rules deps devDeps
          \<lparr>Check = PhantomImportCheck, FindingFile = From e, FindingSeverity = s, Message = phantom_message quote e\<rparr>"
| Leak: "e \<in> set (Edges g) \<Longrightarrow> EdgeKind e = KindExternal \<Longrightarrow> ResolvedPackage e \<noteq> []
    \<Longrightarrow> ResolvedPackage e \<in> devDeps - deps \<Longrightarrow> severity_for rules DevLeak (From e) = Some s
    \<Longrightarrow> s \<noteq> SeverityAllow
    \<Longrightarrow> violation quote g rules deps devDeps
          \<lparr>Check = DevLeakCheck, FindingFile = From e, FindingSeverity = s, Message = leak_message quote e\<rparr>"
| UnusedFile: "f \<in> set (Files g) \<Longrightarrow> f \<notin> Range (internal_edges g) \<Longrightarrow> severity_for rules Unused f = Some s
    \<Longrightarrow> s \<noteq> SeverityAllow
    \<Longrightarrow> violation quote g rules deps devDeps
          \<lparr>Check = UnusedCheck, FindingFile = f, FindingSeverity = s,
           Message = f @ '' is never imported anywhere in this project's graph''\<rparr>"
| UnusedDependency: "name \<in> deps \<Longrightarrow> \<not> usedPackages g name \<Longrightarrow> severity_for rules Unused name = Some s
    \<Longrightarrow> s \<noteq> SeverityAllow
    \<Longrightarrow> violation quote g rules deps devDeps
          \<lparr>Check = UnusedCheck, FindingFile = [], FindingSeverity = s, Message = unused_message quote ''dependency'' name\<rparr>"
| UnusedDev: "name \<in> devDeps - deps \<Longrightarrow> \<not> usedPackages g name \<Longrightarrow> severity_for rules Unused name = Some s
    \<Longrightarrow> s \<noteq> SeverityAllow
    \<Longrightarrow> violation quote g rules deps devDeps
          \<lparr>Check = UnusedCheck, FindingFile = [], FindingSeverity = s, Message = unused_message quote ''devDependency'' name\<rparr>"
| Boundary: "e \<in> set (Edges g) \<Longrightarrow> boundary_target e = Some target
    \<Longrightarrow> boundary_severity rules (From e) target = Some s \<Longrightarrow> s \<noteq> SeverityAllow
    \<Longrightarrow> violation quote g rules deps devDeps
          \<lparr>Check = ImportRulesCheck, FindingFile = From e, FindingSeverity = s,
           Message = From e @ '' must not import '' @ quote target\<rparr>"

text \<open>The findings of each step, as sets.\<close>

named_theorems findings_of "the set of findings a step of the evaluation gives"

definition gives :: "Finding list panics \<Rightarrow> Finding set \<Rightarrow> bool" where
  "gives m S \<longleftrightarrow> map_option set m = Some S"

lemma gives_Some [simp]: "gives (Some xs) S \<longleftrightarrow> set xs = S"
  by (simp add: gives_def)

lemma givesE:
  assumes "gives m S"
  obtains xs where "m = Some xs" "set xs = S"
  using assms by (auto simp: gives_def)

lemma usedFiles_iff: "usedFiles g f \<longleftrightarrow> f \<in> Range (internal_edges g)"
  by (auto simp: usedFiles_def internal_edges_def list_ex_iff Range_iff)

lemma finding_if_set [findings_of]:
  "gives (finding_if (Some best) finding) {finding s | s. best = Some s \<and> s \<noteq> SeverityAllow}"
  by (auto simp: finding_if_def reported_iff split: option.splits)

lemma gather_set:
  "(\<And>x. x \<in> set xs \<Longrightarrow> gives (f x) (S x)) \<Longrightarrow> gives (gather f xs) (\<Union>x\<in>set xs. S x)"
proof (induction xs)
  case (Cons x xs)
  then have "gives (f x) (S x)" "gives (gather f xs) (\<Union>x\<in>set xs. S x)" by simp_all
  then show ?case by (auto elim!: givesE)
qed simp

lemma those_set:
  "list_all2 gives ms Ss \<Longrightarrow> gives (map_option concat (those ms)) (\<Union>(set Ss))"
proof (induction rule: list_all2_induct)
  case (Cons m ms S Ss)
  obtain x where "m = Some x" "set x = S" using Cons.hyps(1) by (rule givesE)
  moreover obtain y where "map_option concat (those ms) = Some y" "set y = \<Union>(set Ss)"
    using Cons.IH by (rule givesE)
  ultimately show ?case by auto
qed simp

text \<open>Each check, in the terms of the specification.\<close>

definition cycle_set :: "Graph \<Rightarrow> Rule list \<Rightarrow> string \<Rightarrow> Finding set" where
  "cycle_set g rules f =
     {\<lparr>Check = CycleCheck, FindingFile = f, FindingSeverity = s, Message = f @ '' participates in an import cycle''\<rparr>
      | s. (f, f) \<in> (internal_edges g)\<^sup>+ \<and> severity_for rules CycleRule f = Some s \<and> s \<noteq> SeverityAllow}"

definition external_set ::
  "(string \<Rightarrow> string) \<Rightarrow> Rule list \<Rightarrow> string set \<Rightarrow> string set \<Rightarrow> EdgeFact \<Rightarrow> Finding set" where
  "external_set quote rules deps devDeps e =
     {\<lparr>Check = PhantomImportCheck, FindingFile = From e, FindingSeverity = s, Message = phantom_message quote e\<rparr>
      | s. EdgeKind e = KindExternal \<and> ResolvedPackage e \<noteq> [] \<and> ResolvedPackage e \<notin> deps
           \<and> severity_for rules PhantomImport (ResolvedPackage e) = Some s \<and> s \<noteq> SeverityAllow}
     \<union> {\<lparr>Check = DevLeakCheck, FindingFile = From e, FindingSeverity = s, Message = leak_message quote e\<rparr>
      | s. EdgeKind e = KindExternal \<and> ResolvedPackage e \<noteq> [] \<and> ResolvedPackage e \<in> devDeps - deps
           \<and> severity_for rules DevLeak (From e) = Some s \<and> s \<noteq> SeverityAllow}"

definition unused_file_set :: "Graph \<Rightarrow> Rule list \<Rightarrow> string \<Rightarrow> Finding set" where
  "unused_file_set g rules f =
     {\<lparr>Check = UnusedCheck, FindingFile = f, FindingSeverity = s,
       Message = f @ '' is never imported anywhere in this project's graph''\<rparr>
      | s. f \<notin> Range (internal_edges g) \<and> severity_for rules Unused f = Some s \<and> s \<noteq> SeverityAllow}"

definition unused_package_set :: "(string \<Rightarrow> string) \<Rightarrow> Graph \<Rightarrow> Rule list \<Rightarrow> string \<Rightarrow> string \<Rightarrow> Finding set" where
  "unused_package_set quote g rules label name =
     {\<lparr>Check = UnusedCheck, FindingFile = [], FindingSeverity = s, Message = unused_message quote label name\<rparr>
      | s. \<not> usedPackages g name \<and> severity_for rules Unused name = Some s \<and> s \<noteq> SeverityAllow}"

definition boundary_set :: "(string \<Rightarrow> string) \<Rightarrow> Rule list \<Rightarrow> EdgeFact \<Rightarrow> Finding set" where
  "boundary_set quote rules e =
     {\<lparr>Check = ImportRulesCheck, FindingFile = From e, FindingSeverity = s,
       Message = From e @ '' must not import '' @ quote target\<rparr>
      | s target. boundary_target e = Some target \<and> boundary_severity rules (From e) target = Some s
           \<and> s \<noteq> SeverityAllow}"

lemma finding_if_gives:
  "S = {finding s | s. best = Some s \<and> s \<noteq> SeverityAllow} \<Longrightarrow> gives (finding_if (Some best) finding) S"
  using finding_if_set by blast

lemma cycle_findings_set:
  assumes "rules_valid rules" "cyc f \<longleftrightarrow> (f, f) \<in> (internal_edges g)\<^sup>+"
  shows "gives (cycle_findings rules cyc f) (cycle_set g rules f)"
  using assms by (auto simp: cycle_findings_def bestSeverity_eq cycle_set_def intro!: finding_if_gives)

lemma external_findings_set:
  assumes "rules_valid rules"
  shows "gives (external_findings quote rules deps devDeps e) (external_set quote rules (set deps) (set devDeps) e)"
proof (cases "EdgeKind e \<noteq> KindExternal \<or> ResolvedPackage e = [] \<or> ResolvedPackage e \<in> set deps")
  case True
  then show ?thesis by (auto simp: external_findings_def external_set_def)
next
  case False
  let ?p = "\<lambda>s. \<lparr>Check = PhantomImportCheck, FindingFile = From e, FindingSeverity = s, Message = phantom_message quote e\<rparr>"
  let ?l = "\<lambda>s. \<lparr>Check = DevLeakCheck, FindingFile = From e, FindingSeverity = s, Message = leak_message quote e\<rparr>"
  obtain ps where ps: "finding_if (Some (severity_for rules PhantomImport (ResolvedPackage e))) ?p = Some ps"
    "set ps = {?p s | s. severity_for rules PhantomImport (ResolvedPackage e) = Some s \<and> s \<noteq> SeverityAllow}"
    using finding_if_set by (rule givesE)
  obtain ls where ls: "finding_if (Some (severity_for rules DevLeak (From e))) ?l = Some ls"
    "set ls = {?l s | s. severity_for rules DevLeak (From e) = Some s \<and> s \<noteq> SeverityAllow}"
    using finding_if_set by (rule givesE)
  show ?thesis
    using False ps ls assms by (auto simp: external_findings_def external_set_def bestSeverity_eq)
qed

lemma unused_file_findings_set:
  "rules_valid rules \<Longrightarrow> gives (unused_file_findings rules g f) (unused_file_set g rules f)"
  by (auto simp: unused_file_findings_def usedFiles_iff bestSeverity_eq unused_file_set_def intro!: finding_if_gives)

lemma unused_dependency_findings_set:
  "rules_valid rules \<Longrightarrow>
     gives (unused_dependency_findings quote rules g name) (unused_package_set quote g rules ''dependency'' name)"
  by (auto simp: unused_dependency_findings_def bestSeverity_eq unused_package_set_def intro!: finding_if_gives)

lemma unused_dev_findings_set:
  "rules_valid rules \<Longrightarrow>
     gives (unused_dev_findings quote rules g deps name)
       (if name \<in> set deps then {} else unused_package_set quote g rules ''devDependency'' name)"
  by (auto simp: unused_dev_findings_def bestSeverity_eq unused_package_set_def intro!: finding_if_gives)

lemma boundary_findings_set:
  "rules_valid rules \<Longrightarrow> gives (boundary_findings quote rules e) (boundary_set quote rules e)"
  by (cases "boundary_target e")
    (auto simp: boundary_findings_def bestImportRuleSeverity_eq boundary_set_def intro!: finding_if_gives)

lemma Evaluate_gives:
  assumes "rules_valid rules"
  shows "gives (Evaluate quote g rules deps devDeps)
    ((\<Union>f\<in>set (Files g). cycle_set g rules f) \<union> (\<Union>e\<in>set (Edges g). external_set quote rules (set deps) (set devDeps) e)
     \<union> (\<Union>f\<in>set (Files g). unused_file_set g rules f) \<union> (\<Union>n\<in>set deps. unused_package_set quote g rules ''dependency'' n)
     \<union> (\<Union>n\<in>set devDeps - set deps. unused_package_set quote g rules ''devDependency'' n)
     \<union> (\<Union>e\<in>set (Edges g). boundary_set quote rules e))"
    (is "gives _ ?S")
proof -
  obtain cyc where cyc: "findCycles g = Some cyc"
    "\<And>f. f \<in> set (Files g) \<Longrightarrow> cyc f \<longleftrightarrow> (f, f) \<in> (internal_edges g)\<^sup>+"
    by (rule findCycles_exact [of g]) blast
  have dev: "(\<Union>n\<in>set devDeps. if n \<in> set deps then {} else unused_package_set quote g rules ''devDependency'' n)
      = (\<Union>n\<in>set devDeps - set deps. unused_package_set quote g rules ''devDependency'' n)" by auto
  have "gives (all_findings quote g rules deps devDeps cyc)
     (\<Union>(set [(\<Union>f\<in>set (Files g). cycle_set g rules f),
               (\<Union>e\<in>set (Edges g). external_set quote rules (set deps) (set devDeps) e),
               (\<Union>f\<in>set (Files g). unused_file_set g rules f),
               (\<Union>n\<in>set deps. unused_package_set quote g rules ''dependency'' n),
               (\<Union>n\<in>set devDeps. if n \<in> set deps then {} else unused_package_set quote g rules ''devDependency'' n),
               (\<Union>e\<in>set (Edges g). boundary_set quote rules e)]))"
    unfolding all_findings_def
    by (intro those_set list.rel_intros gather_set cycle_findings_set external_findings_set unused_file_findings_set
        unused_dependency_findings_set unused_dev_findings_set boundary_findings_set assms cyc(2))
  then have "gives (all_findings quote g rules deps devDeps cyc) ?S"
    unfolding dev by (simp add: Un_assoc)
  then show ?thesis
    by (rule givesE) (simp add: Evaluate_def cyc(1))
qed

lemma Evaluate_valid:
  assumes "rules_valid rules"
  shows "gives (Evaluate quote g rules deps devDeps) {f. violation quote g rules (set deps) (set devDeps) f}"
proof -
  have "(\<Union>f\<in>set (Files g). cycle_set g rules f)
     \<union> (\<Union>e\<in>set (Edges g). external_set quote rules (set deps) (set devDeps) e)
     \<union> (\<Union>f\<in>set (Files g). unused_file_set g rules f)
     \<union> (\<Union>n\<in>set deps. unused_package_set quote g rules ''dependency'' n)
     \<union> (\<Union>n\<in>set devDeps - set deps. unused_package_set quote g rules ''devDependency'' n)
     \<union> (\<Union>e\<in>set (Edges g). boundary_set quote rules e)
     = {f. violation quote g rules (set deps) (set devDeps) f}"
    by (auto simp: violation.simps [of quote g] cycle_set_def external_set_def unused_file_set_def
        unused_package_set_def boundary_set_def)
  then show ?thesis using Evaluate_gives [OF assms] by metis
qed

lemma violation_severity: "violation quote g rules deps devDeps f \<Longrightarrow> FindingSeverity f \<noteq> SeverityAllow"
  by (induction rule: violation.induct) simp_all

text \<open>C15: \<open>Evaluate\<close> implements the specification of a violation: with the rules of any configuration it returns,
  without a panic, and its findings are exactly the violations: nothing the specification calls a
  violation is missed and nothing else is reported.\<close>
theorem Evaluate_violations:
  "map_option set (Evaluate quote g (parseRules xs) deps devDeps) =
     Some {f. violation quote g (parseRules xs) (set deps) (set devDeps) f}"
  using Evaluate_valid [OF rules_valid_parse] by (simp add: gives_def)

section \<open>The order of the findings\<close>

lemma check_name_inj: "check_name a = check_name b \<longleftrightarrow> a = b"
  by (cases a; cases b) simp_all

lemma finding_less_cases:
  "finding_less a b \<longleftrightarrow>
     str_less (FindingFile a) (FindingFile b)
     \<or> FindingFile a = FindingFile b \<and> str_less (check_name (Check a)) (check_name (Check b))"
  by (auto simp: finding_less_def)

interpretation findings: slice_order finding_less
proof
  show "\<not> finding_less y x" if "finding_less x y" for x y
    using that unfolding finding_less_cases by (metis str_less_antisym str_less_irrefl)
  show "\<not> finding_less z x" if "\<not> finding_less y x" "\<not> finding_less z y" for x y z
    using that unfolding finding_less_cases by (metis str_less_antisym str_less_linear str_less_trans)
qed

lemma Evaluate_sorted:
  "Evaluate quote g rules deps devDeps = Some fs \<Longrightarrow> sorted_wrt (\<lambda>a b. \<not> finding_less b a) fs"
  by (auto simp: Evaluate_def findings.sort_sorted split: option.splits)

section \<open>Partial graphs\<close>

definition graph_le :: "Graph \<Rightarrow> Graph \<Rightarrow> bool" where
  "graph_le g g' \<longleftrightarrow> set (Files g) \<subseteq> set (Files g') \<and> set (Edges g) \<subseteq> set (Edges g')"

lemma graph_le_cycle:
  assumes "graph_le g g'" "(f, f) \<in> (internal_edges g)\<^sup>+"
  shows "(f, f) \<in> (internal_edges g')\<^sup>+"
proof -
  have "internal_edges g \<subseteq> internal_edges g'" using assms(1) by (auto simp: graph_le_def internal_edges_def)
  then show ?thesis using assms(2) trancl_mono by blast
qed

lemma violation_mono:
  assumes "violation quote g rules deps devDeps f" "graph_le g g'" "Check f \<noteq> UnusedCheck"
  shows "violation quote g' rules deps devDeps f"
proof -
  have le: "set (Files g) \<subseteq> set (Files g')" "set (Edges g) \<subseteq> set (Edges g')"
    using assms(2) by (simp_all add: graph_le_def)
  show ?thesis
    using assms(1,3)
  proof (induction rule: violation.induct)
    case (Cyclic f s)
    then show ?case using le graph_le_cycle [OF assms(2)] by (intro violation.Cyclic) auto
  next
    case (Phantom e s)
    then show ?case using le by (intro violation.Phantom) auto
  next
    case (Leak e s)
    then show ?case using le by (intro violation.Leak) auto
  next
    case (Boundary e target s)
    then show ?case using le by (intro violation.Boundary) auto
  qed simp_all
qed

lemma EvaluateIncremental_gives:
  "rules_valid rules \<Longrightarrow>
     gives (EvaluateIncremental quote g rules deps devDeps)
       {f. violation quote g rules (set deps) (set devDeps) f \<and> Check f \<noteq> UnusedCheck}"
  using Evaluate_valid [of rules quote g deps devDeps] by (auto simp: EvaluateIncremental_def elim!: givesE)

text \<open>Evaluating a partial graph is safe: every finding of \<open>EvaluateIncremental\<close> on a graph is still a
  finding of it, with the same severity and message, on every graph with more files and more edges,
  so what is reported while files are still missing is never retracted.\<close>
theorem EvaluateIncremental_monotone:
  assumes "graph_le g g'"
  shows "\<exists>fs fs'. EvaluateIncremental quote g (parseRules xs) deps devDeps = Some fs
    \<and> EvaluateIncremental quote g' (parseRules xs) deps devDeps = Some fs' \<and> set fs \<subseteq> set fs'"
proof -
  obtain fs where "EvaluateIncremental quote g (parseRules xs) deps devDeps = Some fs"
    "set fs = {f. violation quote g (parseRules xs) (set deps) (set devDeps) f \<and> Check f \<noteq> UnusedCheck}"
    using EvaluateIncremental_gives [OF rules_valid_parse] by (rule givesE)
  moreover obtain fs' where "EvaluateIncremental quote g' (parseRules xs) deps devDeps = Some fs'"
    "set fs' = {f. violation quote g' (parseRules xs) (set deps) (set devDeps) f \<and> Check f \<noteq> UnusedCheck}"
    using EvaluateIncremental_gives [OF rules_valid_parse] by (rule givesE)
  ultimately show ?thesis using violation_mono [OF _ assms] by auto
qed

text \<open>A project of two files, before and after the second has been walked.\<close>

definition internal_edge :: "string \<Rightarrow> string \<Rightarrow> EdgeFact" where
  "internal_edge src dst =
     \<lparr>From = src, To = dst, Specifier = dst, EdgeKind = KindInternal, ResolvedPackage = [], EdgeNames = [],
      IsDefault = False, IsNamespace = False\<rparr>"

definition partial_graph :: Graph where
  "partial_graph =
     \<lparr>Package = [], Tsconfig = [], Files = [''./a.ts''], Exports = [], Edges = [internal_edge ''./a.ts'' ''./b.ts'']\<rparr>"

definition full_graph :: Graph where
  "full_graph =
     \<lparr>Package = [], Tsconfig = [], Files = [''./a.ts'', ''./b.ts''], Exports = [],
      Edges = [internal_edge ''./a.ts'' ''./b.ts'', internal_edge ''./b.ts'' ''./a.ts'']\<rparr>"

definition cycle_entry :: "unit json" where
  "cycle_entry = JObj [(''module'', JStr ''./*''), (''cycle'', JStr ''error''), (''unused'', JStr ''warning'')]"

theorem EvaluateIncremental_monotone_witness:
  "\<exists>fs fs'. EvaluateIncremental id partial_graph (parseRules [cycle_entry]) [] [] = Some fs
    \<and> EvaluateIncremental id full_graph (parseRules [cycle_entry]) [] [] = Some fs' \<and> set fs \<subseteq> set fs'"
  by (rule EvaluateIncremental_monotone) (simp add: graph_le_def partial_graph_def full_graph_def)

text \<open>The check \<open>unused\<close> is not of that kind, which is why \<open>EvaluateIncremental\<close> leaves it out: with the same
  rules, a file is reported as never imported while the file that imports it has not been walked,
  and is not once it has.\<close>
theorem Evaluate_unused_not_monotone:
  "\<exists>f fs fs'. graph_le partial_graph full_graph
     \<and> Evaluate id partial_graph (parseRules [cycle_entry]) [] [] = Some fs \<and> f \<in> set fs
     \<and> Evaluate id full_graph (parseRules [cycle_entry]) [] [] = Some fs' \<and> f \<notin> set fs'"
proof -
  have "graph_le partial_graph full_graph" by (simp add: graph_le_def partial_graph_def full_graph_def)
  moreover have "Evaluate id partial_graph (parseRules [cycle_entry]) [] [] =
    Some [\<lparr>Check = UnusedCheck, FindingFile = ''./a.ts'', FindingSeverity = SeverityWarning,
           Message = ''./a.ts is never imported anywhere in this project's graph''\<rparr>]"
    by code_simp
  moreover have "Evaluate id full_graph (parseRules [cycle_entry]) [] [] =
    Some [\<lparr>Check = CycleCheck, FindingFile = ''./a.ts'', FindingSeverity = SeverityError,
           Message = ''./a.ts participates in an import cycle''\<rparr>,
          \<lparr>Check = CycleCheck, FindingFile = ''./b.ts'', FindingSeverity = SeverityError,
           Message = ''./b.ts participates in an import cycle''\<rparr>]"
    by code_simp
  ultimately show ?thesis by fastforce
qed

end
