(* ===== verification/GraphFacts.thy ===== *)
theory GraphFacts
  imports GraphRules
begin

text \<open>
  The accumulator of \<open>tsc/internal/tscp/graph/facts.go\<close>: the facts that the walks of all files of a
  compilation gather, and the graph that a snapshot makes of them. The keys of the map \<open>files\<close> are a
  list without duplicates, in the order in which an iteration gives them; \<open>'f\<close> is the type of the
  source files themselves. Every operation runs under the accumulator's lock, so it is one step.
\<close>

record 'f accumulator =
  acc_files :: "string list"
  acc_exports :: "ExportFact list"
  acc_edges :: "EdgeFact list"
  sourceFiles :: "string \<rightharpoonup> 'f"

definition newAccumulator :: "'f accumulator" where
  "newAccumulator = \<lparr>acc_files = [], acc_exports = [], acc_edges = [], sourceFiles = Map.empty\<rparr>"

definition addFile :: "string \<Rightarrow> 'f \<Rightarrow> 'f accumulator \<Rightarrow> 'f accumulator" where
  "addFile path file a =
     a\<lparr>acc_files := List.insert path (acc_files a), sourceFiles := (sourceFiles a)(path \<mapsto> file)\<rparr>"

definition sourceFileFor :: "'f accumulator \<Rightarrow> string \<Rightarrow> 'f option" where
  "sourceFileFor a path = sourceFiles a path"

definition addExport :: "string \<Rightarrow> string \<Rightarrow> 'f accumulator \<Rightarrow> 'f accumulator" where
  "addExport path name a = a\<lparr>acc_exports := acc_exports a @ [\<lparr>ExportFile = path, ExportName = name\<rparr>]\<rparr>"

definition addEdge :: "EdgeFact \<Rightarrow> 'f accumulator \<Rightarrow> 'f accumulator" where
  "addEdge edge a = a\<lparr>acc_edges := acc_edges a @ [edge]\<rparr>"

definition export_less :: "ExportFact \<Rightarrow> ExportFact \<Rightarrow> bool" where
  "export_less a b =
     (if ExportFile a \<noteq> ExportFile b then str_less (ExportFile a) (ExportFile b)
      else str_less (ExportName a) (ExportName b))"

definition edge_less :: "EdgeFact \<Rightarrow> EdgeFact \<Rightarrow> bool" where
  "edge_less a b =
     (if From a \<noteq> From b then str_less (From a) (From b)
      else if To a \<noteq> To b then str_less (To a) (To b)
      else str_less (Specifier a) (Specifier b))"

definition snapshot :: "'f accumulator \<Rightarrow> string \<Rightarrow> string \<Rightarrow> Graph" where
  "snapshot a packageName tsconfigPath =
     \<lparr>Package = packageName, Tsconfig = tsconfigPath, Files = sort_slice str_less (acc_files a),
      Exports = sort_slice export_less (acc_exports a), Edges = sort_slice edge_less (acc_edges a)\<rparr>"

section \<open>What a walk records\<close>

text \<open>The calls a walk makes, as data: one element for each call of \<open>addFile\<close>, \<open>addExport\<close> and \<open>addEdge\<close>.\<close>

datatype 'f fact = FileFact string 'f | ExportOf string string | Edge EdgeFact

fun record_fact :: "'f fact \<Rightarrow> 'f accumulator \<Rightarrow> 'f accumulator" where
  "record_fact (FileFact path file) a = addFile path file a"
| "record_fact (ExportOf path name) a = addExport path name a"
| "record_fact (Edge e) a = addEdge e a"

definition record_facts :: "'f fact list \<Rightarrow> 'f accumulator \<Rightarrow> 'f accumulator" where
  "record_facts facts a = foldl (\<lambda>a x. record_fact x a) a facts"

lemma record_facts_simps [simp]:
  "record_facts [] a = a" "record_facts (x # xs) a = record_facts xs (record_fact x a)"
  "record_facts (xs @ ys) a = record_facts ys (record_facts xs a)"
  by (simp_all add: record_facts_def)

fun file_of :: "'f fact \<Rightarrow> string option" where
  "file_of (FileFact path file) = Some path"
| "file_of (ExportOf path name) = None"
| "file_of (Edge e) = None"

fun edge_of :: "'f fact \<Rightarrow> EdgeFact option" where
  "edge_of (FileFact path file) = None"
| "edge_of (ExportOf path name) = None"
| "edge_of (Edge e) = Some e"

definition fact_files :: "'f fact list \<Rightarrow> string set" where
  "fact_files xs = set (List.map_filter file_of xs)"

definition fact_edges :: "'f fact list \<Rightarrow> EdgeFact set" where
  "fact_edges xs = set (List.map_filter edge_of xs)"

lemma fact_simps [simp]:
  "fact_files [] = {}" "fact_edges [] = {}"
  "fact_files (xs @ ys) = fact_files xs \<union> fact_files ys"
  "fact_edges (xs @ ys) = fact_edges xs \<union> fact_edges ys"
  "fact_files (x # xs) = set_option (file_of x) \<union> fact_files xs"
  "fact_edges (x # xs) = set_option (edge_of x) \<union> fact_edges xs"
  by (auto simp: fact_files_def fact_edges_def List.map_filter_def)

lemma record_fact_sets:
  "set (acc_files (record_fact x a)) = set_option (file_of x) \<union> set (acc_files a)"
  "set (acc_edges (record_fact x a)) = set_option (edge_of x) \<union> set (acc_edges a)"
  by (cases x; simp add: addFile_def addExport_def addEdge_def)+

lemma record_facts_sets:
  "set (acc_files (record_facts xs a)) = set (acc_files a) \<union> fact_files xs"
  "set (acc_edges (record_facts xs a)) = set (acc_edges a) \<union> fact_edges xs"
  by (induction xs arbitrary: a) (auto simp: record_fact_sets)

lemma record_facts_distinct: "distinct (acc_files a) \<Longrightarrow> distinct (acc_files (record_facts xs a))"
proof (induction xs arbitrary: a)
  case (Cons x xs)
  then have "distinct (acc_files (record_fact x a))" by (cases x) (simp_all add: addFile_def addExport_def addEdge_def)
  with Cons show ?case by simp
qed simp

lemma snapshot_sets [simp]:
  "set (Files (snapshot a n t)) = set (acc_files a)" "set (Edges (snapshot a n t)) = set (acc_edges a)"
  by (simp_all add: snapshot_def)

text \<open>The graph is determined by the facts, up to the order of exports and edges that the sorts leave open.\<close>

interpretation strings: slice_order str_less
  by unfold_locales (metis str_less_antisym, metis str_less_linear str_less_trans)

lemma edge_less_cases:
  "edge_less a b \<longleftrightarrow>
     str_less (From a) (From b)
     \<or> From a = From b \<and> (str_less (To a) (To b) \<or> To a = To b \<and> str_less (Specifier a) (Specifier b))"
  by (auto simp: edge_less_def)

interpretation edges: slice_order edge_less
proof
  show "\<not> edge_less y x" if "edge_less x y" for x y
    using that unfolding edge_less_cases by (metis str_less_antisym str_less_irrefl)
  show "\<not> edge_less z x" if "\<not> edge_less y x" "\<not> edge_less z y" for x y z
    using that unfolding edge_less_cases by (metis str_less_antisym str_less_linear str_less_trans)
qed

lemma export_less_cases:
  "export_less a b \<longleftrightarrow>
     str_less (ExportFile a) (ExportFile b) \<or> ExportFile a = ExportFile b \<and> str_less (ExportName a) (ExportName b)"
  by (auto simp: export_less_def)

interpretation exports: slice_order export_less
proof
  show "\<not> export_less y x" if "export_less x y" for x y
    using that unfolding export_less_cases by (metis str_less_antisym str_less_irrefl)
  show "\<not> export_less z x" if "\<not> export_less y x" "\<not> export_less z y" for x y z
    using that unfolding export_less_cases by (metis str_less_antisym str_less_linear str_less_trans)
qed

text \<open>Distinct strings in ascending order are determined by the set of them.\<close>

lemma sorted_strings_unique:
  assumes "sorted_wrt str_less xs" "sorted_wrt str_less ys" "set xs = set ys"
  shows "xs = ys"
  using assms
proof (induction xs arbitrary: ys)
  case (Cons x xs)
  then obtain y ys' where ys: "ys = y # ys'" by (cases ys) auto
  have "x = y"
  proof (rule ccontr)
    assume "x \<noteq> y"
    then have "y \<in> set xs" "x \<in> set ys'" using Cons.prems(3) ys by auto
    then show False using Cons.prems(1,2) ys by (auto dest: str_less_antisym)
  qed
  moreover have "x \<notin> set xs" "y \<notin> set ys'" using Cons.prems(1,2) ys str_less_irrefl by auto
  ultimately have "set xs = set ys'" using Cons.prems(3) ys by auto
  with Cons.IH [of ys'] Cons.prems \<open>x = y\<close> ys show ?case by simp
qed simp

lemma sort_strings_ascending:
  assumes "distinct xs"
  shows "sorted_wrt str_less (sort_slice str_less xs)"
proof -
  have "distinct (sort_slice str_less xs)"
    using assms by (metis mset_eq_imp_distinct_iff mset_sort_slice)
  moreover have "sorted_wrt str_less ys" if "sorted_wrt (\<lambda>x y. \<not> str_less y x) ys" "distinct ys" for ys
    using that by (induction ys) (auto, metis str_less_linear)
  ultimately show ?thesis using strings.sort_sorted by blast
qed

lemma sort_exports_unique:
  assumes "mset xs = mset ys"
  shows "sort_slice export_less xs = sort_slice export_less ys"
proof -
  have total: "a = b" if "\<not> export_less a b" "\<not> export_less b a" for a b
    using that unfolding export_less_cases by (cases a; cases b) (metis ExportFact.ext_inject ExportFact.surjective str_less_linear)
  have unique: "us = vs"
    if "sorted_wrt (\<lambda>x y. \<not> export_less y x) us" "sorted_wrt (\<lambda>x y. \<not> export_less y x) vs" "mset us = mset vs"
    for us vs :: "ExportFact list"
    using that
  proof (induction us arbitrary: vs)
    case (Cons u us)
    then obtain v vs' where vs: "vs = v # vs'" by (cases vs) auto
    have "u = v"
    proof (rule ccontr)
      assume "u \<noteq> v"
      have "set (u # us) = set vs" using Cons.prems(3) by (metis set_mset_mset)
      then have "v \<in> set us" "u \<in> set vs'" using \<open>u \<noteq> v\<close> vs by auto
      then show False using Cons.prems(1,2) vs total \<open>u \<noteq> v\<close> by auto
    qed
    with Cons vs show ?case by auto
  qed simp
  show ?thesis using assms by (intro unique exports.sort_sorted) simp
qed

lemma record_facts_exports:
  "mset (acc_exports (record_facts xs a)) =
     mset (acc_exports a) + mset (List.map_filter (\<lambda>x. case x of ExportOf f n \<Rightarrow> Some \<lparr>ExportFile = f, ExportName = n\<rparr> | _ \<Rightarrow> None) xs)"
  "mset (acc_edges (record_facts xs a)) = mset (acc_edges a) + mset (List.map_filter edge_of xs)"
proof (induction xs arbitrary: a)
  case (Cons x xs)
  {
    case 1
    show ?case using Cons(1) [of "record_fact x a"]
      by (cases x) (simp_all add: addFile_def addExport_def addEdge_def List.map_filter_def)
  next
    case 2
    show ?case using Cons(2) [of "record_fact x a"]
      by (cases x) (simp_all add: addFile_def addExport_def addEdge_def List.map_filter_def)
  }
qed (simp_all add: List.map_filter_def)

lemma map_filter_mset: "mset xs = mset ys \<Longrightarrow> mset (List.map_filter f xs) = mset (List.map_filter f ys)"
  unfolding List.map_filter_def by (metis (no_types) mset_filter mset_map)

text \<open>The order in which concurrent walks record their facts does not matter for the graph: of the same
  facts in any other order, a snapshot has the same list of files, in ascending order and each once,
  the same list of exports, and the same edges with the same multiplicities, in ascending order of
  source, target and specifier.\<close>
theorem snapshot_order_irrelevant:
  assumes "mset facts = mset facts'"
  shows "Files (snapshot (record_facts facts newAccumulator) n t) = Files (snapshot (record_facts facts' newAccumulator) n t)
   \<and> sorted_wrt str_less (Files (snapshot (record_facts facts newAccumulator) n t))
   \<and> Exports (snapshot (record_facts facts newAccumulator) n t) = Exports (snapshot (record_facts facts' newAccumulator) n t)
   \<and> mset (Edges (snapshot (record_facts facts newAccumulator) n t))
       = mset (Edges (snapshot (record_facts facts' newAccumulator) n t))
   \<and> sorted_wrt (\<lambda>a b. \<not> edge_less b a) (Edges (snapshot (record_facts facts newAccumulator) n t))"
proof -
  let ?a = "record_facts facts newAccumulator" and ?b = "record_facts facts' newAccumulator"
  have d: "distinct (acc_files ?a)" "distinct (acc_files ?b)"
    by (simp_all add: record_facts_distinct newAccumulator_def)
  have "fact_files facts = fact_files facts'"
    unfolding fact_files_def using map_filter_mset [OF assms, of file_of] by (metis set_mset_mset)
  then have "set (acc_files ?a) = set (acc_files ?b)" by (simp add: record_facts_sets)
  then have "sort_slice str_less (acc_files ?a) = sort_slice str_less (acc_files ?b)"
    using sort_strings_ascending d by (intro sorted_strings_unique) simp_all
  moreover have m: "mset (acc_exports ?a) = mset (acc_exports ?b)" "mset (acc_edges ?a) = mset (acc_edges ?b)"
    by (simp_all add: record_facts_exports map_filter_mset [OF assms])
  ultimately show ?thesis
    using sort_strings_ascending [OF d(1)] sort_exports_unique [OF m(1)]
    by (simp add: snapshot_def edges.sort_sorted)
qed

theorem snapshot_order_irrelevant_witness:
  "Files (snapshot (record_facts [FileFact ''./b.ts'' (), FileFact ''./a.ts'' ()] newAccumulator) [] [])
   = Files (snapshot (record_facts [FileFact ''./a.ts'' (), FileFact ''./b.ts'' ()] newAccumulator) [] [])"
  by (rule snapshot_order_irrelevant [THEN conjunct1]) simp

end
