(* ===== verification/GraphPlugin.thy ===== *)
theory GraphPlugin
  imports GraphOptions GraphFacts
begin

text \<open>
  \<open>tsc/internal/tscp/graph/graph.go\<close>: the plugin of one compilation, which turns the gathered facts
  into diagnostics or into the graph it writes. A path is a string, \<open>'f\<close> the type of source files. The
  maps from paths and keys to \<open>true\<close> are lists without duplicates, of which only membership and
  length are used. \<open>write_error\<close> is what \<open>os.WriteFile\<close> reports, \<open>None\<close> for success. A panic of the
  evaluation is \<open>None\<close>.
\<close>

datatype category = CategoryMessage | CategoryWarning | CategoryError

record 'f Diagnostic =
  anchor :: "'f option"
  diag_category :: category
  diag_text :: string

record 'f Plugin =
  acc :: "'f accumulator"
  reported :: "string list"
  notedEmitRulesInfo :: bool
  notedUnusedDeferral :: bool
  fileDiagnostics :: "string \<Rightarrow> 'f Diagnostic list"
  totalFiles :: nat
  seen :: "string list"
  graphComplete :: bool

definition NewPlugin :: "'f Plugin" where
  "NewPlugin =
     \<lparr>acc = newAccumulator, reported = [], notedEmitRulesInfo = False, notedUnusedDeferral = False,
      fileDiagnostics = (\<lambda>_. []), totalFiles = 0, seen = [], graphComplete = False\<rparr>"

text \<open>
  The count that \<open>ScriptTransformer\<close> takes when it is first called; \<open>isDeclaration\<close> tells the
  declaration files of the program.
\<close>

definition countEmittableFiles :: "('f \<Rightarrow> bool) \<Rightarrow> 'f list \<Rightarrow> nat" where
  "countEmittableFiles isDeclaration files = length (filter (\<lambda>f. \<not> isDeclaration f) files)"

definition anyUnusedConfigured :: "Rule list \<Rightarrow> bool" where
  "anyUnusedConfigured rules = list_ex (\<lambda>r. Unused r \<noteq> None) rules"

definition add_note :: "string \<Rightarrow> string \<Rightarrow> 'f Plugin \<Rightarrow> 'f Plugin" where
  "add_note path message p =
     p\<lparr>fileDiagnostics := (fileDiagnostics p)(path := fileDiagnostics p path @
         [\<lparr>anchor = sourceFileFor (acc p) path, diag_category = CategoryMessage, diag_text = message\<rparr>])\<rparr>"

definition quoted :: "string \<Rightarrow> string" where
  "quoted w = [CHR 0x22] @ w @ [CHR 0x22]"

definition em_dash :: string where "em_dash = [CHR 0xE2, CHR 0x80, CHR 0x94]"

definition emit_rules_note :: string where
  "emit_rules_note =
     ''@conmoong/graph: '' @ quoted ''emit'' @ '' is enabled, so the graph is written but '' @ quoted ''rules''
     @ '' are not evaluated here '' @ em_dash
     @ '' run @conmoong/graph-validate against this tsconfig to apply them''"

definition unused_note :: string where
  "unused_note =
     ''@conmoong/graph: '' @ quoted ''unused'' @ '' is configured but is never evaluated by tsc-p itself '' @ em_dash
     @ '' run @conmoong/graph-validate against this tsconfig to enforce it''"

definition noteEmitRulesDeferral :: "string \<Rightarrow> 'f Plugin \<Rightarrow> 'f Plugin" where
  "noteEmitRulesDeferral path p =
     (if notedEmitRulesInfo p then p else add_note path emit_rules_note (p\<lparr>notedEmitRulesInfo := True\<rparr>))"

definition noteUnusedRequiresGraphValidate :: "string \<Rightarrow> 'f Plugin \<Rightarrow> 'f Plugin" where
  "noteUnusedRequiresGraphValidate path p =
     (if notedUnusedDeferral p then p else add_note path unused_note (p\<lparr>notedUnusedDeferral := True\<rparr>))"

section \<open>TakeDiagnostics\<close>

text \<open>Its steps, each of which is one critical section.\<close>

definition drain :: "string \<Rightarrow> 'f Plugin \<Rightarrow> 'f Diagnostic list \<times> 'f Plugin" where
  "drain path p = (fileDiagnostics p path, p\<lparr>fileDiagnostics := (fileDiagnostics p)(path := [])\<rparr>)"

definition plugin_snapshot :: "GraphOptions \<Rightarrow> 'f Plugin \<Rightarrow> Graph" where
  "plugin_snapshot options p = snapshot (acc p) (PackageName options) (EmitPath options)"

definition mark_seen :: "string \<Rightarrow> 'f Plugin \<Rightarrow> bool \<times> 'f Plugin" where
  "mark_seen path p =
     (let p = p\<lparr>seen := List.insert path (seen p)\<rparr>;
          complete = (\<not> graphComplete p \<and> length (seen p) \<ge> totalFiles p)
      in (complete, if complete then p\<lparr>graphComplete := True\<rparr> else p))"

definition evaluate_graph :: "(string \<Rightarrow> string) \<Rightarrow> GraphOptions \<Rightarrow> bool \<Rightarrow> Graph \<Rightarrow> Finding list panics" where
  "evaluate_graph quote options complete g =
     (if complete then Evaluate quote g (Rules options) (Dependencies options) (DevDependencies options)
      else EvaluateIncremental quote g (Rules options) (Dependencies options) (DevDependencies options))"

definition finding_key :: "Finding \<Rightarrow> string" where
  "finding_key f = check_name (Check f) @ ''|'' @ FindingFile f @ ''|'' @ Message f"

text \<open>Whether a finding is reported now: its key is new and it is not allowed.\<close>

definition report_finding :: "Finding \<Rightarrow> 'f Plugin \<Rightarrow> bool \<times> 'f Plugin" where
  "report_finding f p =
     (let alreadyReported = finding_key f \<in> set (reported p);
          p = p\<lparr>reported := List.insert (finding_key f) (reported p)\<rparr>
      in (\<not> alreadyReported \<and> FindingSeverity f \<noteq> SeverityAllow, p))"

fun report_findings :: "Finding list \<Rightarrow> 'f Plugin \<Rightarrow> Finding list \<times> 'f Plugin" where
  "report_findings [] p = ([], p)"
| "report_findings (f # fs) p =
     (let (now, p) = report_finding f p; (rest, p) = report_findings fs p
      in (if now then f # rest else rest, p))"

definition finding_diagnostic :: "'f Plugin \<Rightarrow> Finding \<Rightarrow> 'f Diagnostic" where
  "finding_diagnostic p f =
     \<lparr>anchor = sourceFileFor (acc p) (FindingFile f),
      diag_category = (if FindingSeverity f = SeverityError then CategoryError else CategoryWarning),
      diag_text = ''['' @ check_name (Check f) @ ''] '' @ Message f\<rparr>"

text \<open>The branch that evaluates the rules.\<close>

definition take_inline ::
  "(string \<Rightarrow> string) \<Rightarrow> GraphOptions \<Rightarrow> string \<Rightarrow> 'f Plugin \<Rightarrow> (Finding list \<times> 'f Plugin) panics" where
  "take_inline quote options path p =
     (let g = plugin_snapshot options p; (complete, p) = mark_seen path p
      in map_option (\<lambda>fs. report_findings fs p) (evaluate_graph quote options complete g))"

definition write_failure :: "GraphOptions \<Rightarrow> string \<Rightarrow> 'f Diagnostic" where
  "write_failure options err =
     \<lparr>anchor = None, diag_category = CategoryError,
      diag_text = ''failed to write '' @ EmitPath options @ '': '' @ err\<rparr>"

definition take_emit :: "GraphOptions \<Rightarrow> string \<Rightarrow> 'f Plugin \<Rightarrow> 'f Plugin" where
  "take_emit options path p =
     (let p = (if Rules options \<noteq> [] then noteEmitRulesDeferral path p else p)
      in if anyUnusedConfigured (Rules options) then noteUnusedRequiresGraphValidate path p else p)"

definition TakeDiagnostics ::
  "(string \<Rightarrow> string) \<Rightarrow> GraphOptions \<Rightarrow> string option \<Rightarrow> string \<Rightarrow> 'f Plugin
     \<Rightarrow> ('f Diagnostic list \<times> Graph option \<times> 'f Plugin) panics" where
  "TakeDiagnostics quote options write_error path p =
     (let (pending, p) = drain path p; g = plugin_snapshot options p in
      if EmitEnabled options
      then (let p = take_emit options path p in
            case write_error of
              Some err \<Rightarrow> Some (pending @ [write_failure options err], None, p)
            | None \<Rightarrow> Some (pending, Some g, p))
      else if Rules options = [] then Some (pending, None, p)
      else map_option (\<lambda>(fs, p'). (pending @ map (finding_diagnostic p') fs, None, p'))
             (take_inline quote options path p))"

section \<open>Reporting\<close>

lemma report_findings_spec:
  assumes "\<And>f. f \<in> set fs \<Longrightarrow> FindingSeverity f \<noteq> SeverityAllow"
  obtains now keys where "report_findings fs p = (now, p\<lparr>reported := keys\<rparr>)"
    "set keys = set (reported p) \<union> finding_key ` set fs" "set now \<subseteq> set fs" "distinct (map finding_key now)"
    "finding_key ` set now = finding_key ` set fs - set (reported p)"
proof -
  have "\<exists>now keys. report_findings fs p = (now, p\<lparr>reported := keys\<rparr>)
      \<and> set keys = set (reported p) \<union> finding_key ` set fs \<and> set now \<subseteq> set fs \<and> distinct (map finding_key now)
      \<and> finding_key ` set now = finding_key ` set fs - set (reported p)"
    using assms
  proof (induction fs arbitrary: p)
    case Nil
    have "p\<lparr>reported := reported p\<rparr> = p" by simp
    then have eq: "report_findings [] p = ([], p\<lparr>reported := reported p\<rparr>)" by (simp only: report_findings.simps)
    show ?case by (rule exI [of _ "[]"], rule exI [of _ "reported p"]) (intro conjI eq; simp)
  next
    case (Cons f fs)
    let ?p = "p\<lparr>reported := List.insert (finding_key f) (reported p)\<rparr>"
    obtain now keys where r: "report_findings fs ?p = (now, ?p\<lparr>reported := keys\<rparr>)"
      "set keys = set (reported ?p) \<union> finding_key ` set fs" "set now \<subseteq> set fs" "distinct (map finding_key now)"
      "finding_key ` set now = finding_key ` set fs - set (reported ?p)"
      using Cons.IH [of ?p] Cons.prems by auto
    have s: "FindingSeverity f \<noteq> SeverityAllow" using Cons.prems by simp
    show ?case
    proof (cases "finding_key f \<in> set (reported p)")
      case True
      then have "report_findings (f # fs) p = (now, p\<lparr>reported := keys\<rparr>)"
        using r(1) by (simp add: report_finding_def Let_def)
      with True r show ?thesis by auto
    next
      case False
      then have "report_findings (f # fs) p = (f # now, p\<lparr>reported := keys\<rparr>)"
        using r(1) s by (simp add: report_finding_def Let_def)
      moreover have "set keys = set (reported p) \<union> finding_key ` set (f # fs)" using r(2) by simp
      moreover have "set (f # now) \<subseteq> set (f # fs)" using r(3) by auto
      moreover have "distinct (map finding_key (f # now))" using r(4,5) by simp
      moreover have "finding_key ` set (f # now) = finding_key ` set (f # fs) - set (reported p)"
        using r(5) False by auto
      ultimately show ?thesis by (intro exI conjI)
    qed
  qed
  then show ?thesis by (elim exE conjE) (rule that)
qed

section \<open>A compilation with one thread\<close>

text \<open>
  The emission of a file: the walk of its script (the plugin's transformer runs last), then
  \<open>TakeDiagnostics\<close>, and once more after the declaration transformers when declarations are emitted.
\<close>

record 'f source =
  source_path :: string
  source_facts :: "'f fact list"

definition walk_file :: "'f fact list \<Rightarrow> 'f Plugin \<Rightarrow> 'f Plugin" where
  "walk_file facts p = p\<lparr>acc := record_facts facts (acc p)\<rparr>"

fun take_times ::
  "(string \<Rightarrow> string) \<Rightarrow> GraphOptions \<Rightarrow> nat \<Rightarrow> string \<Rightarrow> 'f Plugin \<Rightarrow> ('f Diagnostic list \<times> 'f Plugin) panics" where
  "take_times quote options 0 path p = Some ([], p)"
| "take_times quote options (Suc n) path p =
     (case TakeDiagnostics quote options None path p of
        None \<Rightarrow> None
      | Some (ds, _, p) \<Rightarrow>
          (case take_times quote options n path p of
             None \<Rightarrow> None
           | Some (es, p) \<Rightarrow> Some (ds @ es, p)))"

fun emit_files ::
  "(string \<Rightarrow> string) \<Rightarrow> GraphOptions \<Rightarrow> bool \<Rightarrow> 'f source list \<Rightarrow> 'f Plugin \<Rightarrow> ('f Diagnostic list \<times> 'f Plugin) panics"
where
  "emit_files quote options declarations [] p = Some ([], p)"
| "emit_files quote options declarations (f # fs) p =
     (case take_times quote options (if declarations then 2 else 1) (source_path f) (walk_file (source_facts f) p) of
        None \<Rightarrow> None
      | Some (ds, p) \<Rightarrow>
          (case emit_files quote options declarations fs p of
             None \<Rightarrow> None
           | Some (es, p) \<Rightarrow> Some (ds @ es, p)))"

text \<open>The plugin when the first file is about to be emitted, of a program with \<open>n\<close> files to count.\<close>

definition started :: "nat \<Rightarrow> 'f Plugin" where
  "started n = NewPlugin\<lparr>totalFiles := n\<rparr>"

definition all_facts :: "'f source list \<Rightarrow> 'f fact list" where
  "all_facts fs = concat (map source_facts fs)"

definition final_graph :: "GraphOptions \<Rightarrow> 'f source list \<Rightarrow> Graph" where
  "final_graph options fs =
     snapshot (record_facts (all_facts fs) newAccumulator) (PackageName options) (EmitPath options)"

definition final_violation :: "(string \<Rightarrow> string) \<Rightarrow> GraphOptions \<Rightarrow> 'f source list \<Rightarrow> Finding \<Rightarrow> bool" where
  "final_violation quote options fs f \<longleftrightarrow>
     violation quote (final_graph options fs) (Rules options) (set (Dependencies options))
       (set (DevDependencies options)) f"

definition report_line :: "Finding \<Rightarrow> category \<times> string" where
  "report_line f =
     (if FindingSeverity f = SeverityError then CategoryError else CategoryWarning,
      ''['' @ check_name (Check f) @ ''] '' @ Message f)"

definition diagnostic_line :: "'f Diagnostic \<Rightarrow> category \<times> string" where
  "diagnostic_line d = (diag_category d, diag_text d)"

lemma line_of_finding: "diagnostic_line (finding_diagnostic p f) = report_line f"
  by (simp add: diagnostic_line_def finding_diagnostic_def report_line_def)

text \<open>What holds between two calls: \<open>done\<close> are the files that have been walked, \<open>out\<close> what has been reported.\<close>

definition progress ::
  "(string \<Rightarrow> string) \<Rightarrow> GraphOptions \<Rightarrow> 'f source list \<Rightarrow> 'f source list \<Rightarrow> string list \<Rightarrow> Finding list \<Rightarrow> 'f Plugin \<Rightarrow> bool"
where
  "progress quote options fs walked taken out p \<longleftrightarrow>
     acc p = record_facts (all_facts walked) newAccumulator \<and> fileDiagnostics p = (\<lambda>_. [])
     \<and> totalFiles p = length fs \<and> distinct (seen p) \<and> set (seen p) = set taken
     \<and> set (reported p) = finding_key ` set out \<and> distinct (map finding_key out)
     \<and> (\<forall>f\<in>set out. final_violation quote options fs f)
     \<and> (if graphComplete p then \<forall>f. final_violation quote options fs f \<longrightarrow> finding_key f \<in> set (reported p)
        else length (seen p) < length fs)"

lemma prefix_graph_le:
  "fs = walked @ rest \<Longrightarrow> acc p = record_facts (all_facts walked) newAccumulator
     \<Longrightarrow> graph_le (plugin_snapshot options p) (final_graph options fs)"
  by (auto simp: graph_le_def plugin_snapshot_def final_graph_def record_facts_sets all_facts_def)

lemma take_progress:
  assumes pr: "progress quote options fs walked taken out p"
    and fs: "fs = walked @ rest" and path: "path \<in> set (map source_path walked)"
    and taken: "set taken \<subseteq> set (map source_path walked)" and dis: "distinct (map source_path fs)"
    and rules: "rules_valid (Rules options)" "Rules options \<noteq> []" "\<not> EmitEnabled options"
  obtains ds now p' where "TakeDiagnostics quote options None path p = Some (ds, None, p')"
    "map diagnostic_line ds = map report_line now" "progress quote options fs walked (path # taken) (out @ now) p'"
proof -
  let ?g = "plugin_snapshot options p"
  let ?V = "\<lambda>g f. violation quote g (Rules options) (set (Dependencies options)) (set (DevDependencies options)) f"
  note P = pr [unfolded progress_def]
  obtain complete p1 where m: "mark_seen path p = (complete, p1)" by (cases "mark_seen path p")
  have p1: "acc p1 = acc p" "reported p1 = reported p" "fileDiagnostics p1 = fileDiagnostics p"
    "totalFiles p1 = totalFiles p" "seen p1 = List.insert path (seen p)"
    "graphComplete p1 \<longleftrightarrow> graphComplete p \<or> complete"
    "complete \<longleftrightarrow> \<not> graphComplete p \<and> length fs \<le> length (seen p1)"
    using m P by (auto simp: mark_seen_def Let_def split: if_splits)
  have le: "graph_le ?g (final_graph options fs)" using prefix_graph_le [OF fs] P by blast
  have all: "?g = final_graph options fs" if "complete"
  proof -
    have "set (seen p1) \<subseteq> set (map source_path walked)" "distinct (seen p1)"
      using P p1(5) path taken by auto
    then have "length (seen p1) \<le> length (map source_path walked)"
      using dis fs by (metis card_length card_mono distinct_card distinct_append map_append List.finite_set le_trans)
    then have "length fs \<le> length walked" using that p1(7) by simp
    then have "rest = []" using fs by simp
    then show ?thesis using fs P by (simp add: plugin_snapshot_def final_graph_def)
  qed
  define S where "S = {f. ?V ?g f \<and> (complete \<or> Check f \<noteq> UnusedCheck)}"
  have "gives (evaluate_graph quote options complete ?g) S"
    using Evaluate_valid [OF rules(1), of quote ?g] EvaluateIncremental_gives [OF rules(1), of quote ?g]
    by (simp add: evaluate_graph_def S_def)
  then obtain found where found: "evaluate_graph quote options complete ?g = Some found" "set found = S"
    by (rule givesE)
  have sev: "FindingSeverity f \<noteq> SeverityAllow" if "f \<in> set found" for f
    using that found(2) violation_severity by (auto simp: S_def)
  obtain now keys where r: "report_findings found p1 = (now, p1\<lparr>reported := keys\<rparr>)"
    "set keys = set (reported p1) \<union> finding_key ` set found" "set now \<subseteq> set found" "distinct (map finding_key now)"
    "finding_key ` set now = finding_key ` set found - set (reported p1)"
    using report_findings_spec [OF sev] by blast
  let ?p = "p1\<lparr>reported := keys\<rparr>"
  have dr: "drain path p = ([], p)" using P by (simp add: drain_def fun_upd_idem)
  have take: "TakeDiagnostics quote options None path p = Some (map (finding_diagnostic ?p) now, None, ?p)"
    using rules m found(1) r(1) by (simp add: TakeDiagnostics_def take_inline_def dr)
  have final: "final_violation quote options fs f" if "f \<in> S" for f
    using that all violation_mono [OF _ le] unfolding S_def final_violation_def by (cases complete) auto
  have "progress quote options fs walked (path # taken) (out @ now) ?p"
    unfolding progress_def
  proof (intro conjI)
    show "distinct (map finding_key (out @ now))" using P r(4,5) p1(2) by auto
    show "set (reported ?p) = finding_key ` set (out @ now)" using P r(2,5) p1(2) by auto
    show "\<forall>f\<in>set (out @ now). final_violation quote options fs f" using P r(3) found(2) final by auto
    show "if graphComplete ?p then \<forall>f. final_violation quote options fs f \<longrightarrow> finding_key f \<in> set (reported ?p)
          else length (seen ?p) < length fs"
    proof (cases "complete")
      case True
      then have "f \<in> S" if "final_violation quote options fs f" for f
        using that all by (simp add: S_def final_violation_def)
      with True r(2) found(2) p1(6) show ?thesis by auto
    next
      case False
      then show ?thesis using P p1 r(2) by auto
    qed
  qed (use P p1 in auto)
  then show ?thesis using take line_of_finding by (intro that [of "map (finding_diagnostic ?p) now"]) (auto simp: comp_def)
qed

lemma take_times_progress:
  assumes "fs = walked @ rest" "path \<in> set (map source_path walked)" "distinct (map source_path fs)"
    and rules: "rules_valid (Rules options)" "Rules options \<noteq> []" "\<not> EmitEnabled options"
  shows "progress quote options fs walked taken out p \<Longrightarrow> set taken \<subseteq> set (map source_path walked) \<Longrightarrow>
    \<exists>ds now p'. take_times quote options n path p = Some (ds, p') \<and> map diagnostic_line ds = map report_line now
      \<and> progress quote options fs walked (replicate n path @ taken) (out @ now) p'"
proof (induction n arbitrary: taken out p)
  case (Suc n)
  obtain ds now p1 where t: "TakeDiagnostics quote options None path p = Some (ds, None, p1)"
    "map diagnostic_line ds = map report_line now" "progress quote options fs walked (path # taken) (out @ now) p1"
    using take_progress [OF Suc.prems(1) assms(1,2) Suc.prems(2) assms(3) rules] by blast
  have "set (path # taken) \<subseteq> set (map source_path walked)" using Suc.prems(2) assms(2) by simp
  then obtain es now' p2 where u: "take_times quote options n path p1 = Some (es, p2)"
    "map diagnostic_line es = map report_line now'"
    "progress quote options fs walked (replicate n path @ path # taken) ((out @ now) @ now') p2"
    using Suc.IH [OF t(3)] by blast
  have "replicate n path @ path # taken = replicate (Suc n) path @ taken" by (simp add: replicate_append_same [symmetric])
  with t u show ?case
    by (intro exI [of _ "ds @ es"] exI [of _ "now @ now'"] exI [of _ p2]) (simp del: replicate_Suc)
qed auto

lemma walk_progress:
  assumes "progress quote options fs walked taken out p"
  shows "progress quote options fs (walked @ [f]) taken out (walk_file (source_facts f) p)"
  using assms unfolding progress_def walk_file_def by (auto simp: all_facts_def)

lemma emit_files_progress:
  assumes dis: "distinct (map source_path fs)"
    and rules: "rules_valid (Rules options)" "Rules options \<noteq> []" "\<not> EmitEnabled options"
  shows "fs = walked @ rest \<Longrightarrow> progress quote options fs walked taken out p \<Longrightarrow> set taken = set (map source_path walked) \<Longrightarrow>
    \<exists>ds now p' taken'. emit_files quote options declarations rest p = Some (ds, p')
      \<and> map diagnostic_line ds = map report_line now
      \<and> progress quote options fs fs taken' (out @ now) p' \<and> set taken' = set (map source_path fs)"
proof (induction rest arbitrary: walked taken out p)
  case Nil
  then show ?case by (intro exI [of _ "[]"] exI [of _ p] exI [of _ taken]) auto
next
  case (Cons f rest)
  let ?n = "if declarations then 2 else 1 :: nat"
  have fs: "fs = (walked @ [f]) @ rest" using Cons.prems(1) by simp
  obtain ds now p1 where t: "take_times quote options ?n (source_path f) (walk_file (source_facts f) p) = Some (ds, p1)"
    "map diagnostic_line ds = map report_line now"
    "progress quote options fs (walked @ [f]) (replicate ?n (source_path f) @ taken) (out @ now) p1"
    using take_times_progress [OF fs _ dis rules walk_progress [OF Cons.prems(2)], of "source_path f" ?n] Cons.prems(3)
    by auto
  have "set (replicate ?n (source_path f) @ taken) = set (map source_path (walked @ [f]))"
    using Cons.prems(3) by (auto simp: numeral_2_eq_2)
  from Cons.IH [OF fs t(3) this]
  obtain es now' p2 taken' where u: "emit_files quote options declarations rest p1 = Some (es, p2)"
    "map diagnostic_line es = map report_line now'" "progress quote options fs fs taken' ((out @ now) @ now') p2"
    "set taken' = set (map source_path fs)"
    by blast
  have "emit_files quote options declarations (f # rest) p = Some (ds @ es, p2)" using t(1) u(1) by simp
  with t(2) u show ?case
    by (intro exI [of _ "ds @ es"] exI [of _ "now @ now'"] exI [of _ p2] exI [of _ taken']) simp
qed

lemma emit_files_complete:
  assumes "distinct (map source_path fs)" "fs \<noteq> []"
    and "rules_valid (Rules options)" "Rules options \<noteq> []" "\<not> EmitEnabled options"
  obtains ds found p taken where
    "emit_files quote options declarations fs (started (length fs)) = Some (ds, p)"
    "map diagnostic_line ds = map report_line found" "progress quote options fs fs taken found p" "graphComplete p"
proof -
  have "progress quote options fs [] [] [] (started (length fs))"
    using assms(2) by (simp add: progress_def started_def NewPlugin_def all_facts_def newAccumulator_def)
  from emit_files_progress [OF assms(1,3,4,5) append_Nil [symmetric] this, where declarations = declarations]
  obtain ds found p taken where e: "emit_files quote options declarations fs (started (length fs)) = Some (ds, p)"
    "map diagnostic_line ds = map report_line found" and pr: "progress quote options fs fs taken found p"
    and taken: "set taken = set (map source_path fs)"
    by auto
  note P = pr [unfolded progress_def]
  have "length (seen p) = card (set (map source_path fs))"
    using P taken by (metis distinct_card)
  then have "length (seen p) = length fs" using assms(1) by (metis distinct_card length_map)
  then have "graphComplete p" using P by (metis less_irrefl)
  with e pr show ?thesis by (rule that)
qed


text \<open>A project of two files that import each other.\<close>

definition sample_sources :: "unit source list" where
  "sample_sources =
     [\<lparr>source_path = ''/p/a.ts'', source_facts = [FileFact ''./a.ts'' (), Edge (internal_edge ''./a.ts'' ''./b.ts'')]\<rparr>,
      \<lparr>source_path = ''/p/b.ts'', source_facts = [FileFact ''./b.ts'' (), Edge (internal_edge ''./b.ts'' ''./a.ts'')]\<rparr>]"

definition sample_options :: "bool \<Rightarrow> GraphOptions" where
  "sample_options emit =
     \<lparr>EmitEnabled = emit, EmitPath = ''/p/tsconfig.graph.json'', Rules = parseRules [cycle_entry], ConfigDir = ''/p'',
      Dependencies = [], DevDependencies = [], PackageName = []\<rparr>"

lemma sample_rules: "rules_valid (Rules (sample_options emit))" "Rules (sample_options emit) \<noteq> []"
proof -
  show "rules_valid (Rules (sample_options emit))" by (simp add: sample_options_def rules_valid_parse)
  have "parseRules [cycle_entry] \<noteq> []" by code_simp
  then show "Rules (sample_options emit) \<noteq> []" by (simp add: sample_options_def)
qed


section \<open>With emit enabled\<close>

text \<open>What has not been taken holds no note, and the note of the deferral is somewhere once it is noted.\<close>

lemma add_note_other: "path \<noteq> q \<Longrightarrow> fileDiagnostics (add_note path m p) q = fileDiagnostics p q"
  by (simp add: add_note_def)

lemma take_emit_other: "path \<noteq> q \<Longrightarrow> fileDiagnostics (take_emit options path p) q = fileDiagnostics p q"
  by (simp add: take_emit_def noteEmitRulesDeferral_def noteUnusedRequiresGraphValidate_def add_note_other Let_def)

lemma TakeDiagnostics_emit:
  "EmitEnabled options \<Longrightarrow> TakeDiagnostics quote options None path p =
     Some (fileDiagnostics p path, Some (plugin_snapshot options (snd (drain path p))), take_emit options path (snd (drain path p)))"
  by (simp add: TakeDiagnostics_def drain_def Let_def)

lemma emit_files_silent:
  assumes "EmitEnabled options"
  shows "distinct (map source_path fs) \<Longrightarrow> (\<And>f. f \<in> set fs \<Longrightarrow> fileDiagnostics p (source_path f) = [])
    \<Longrightarrow> \<exists>p'. emit_files quote options False fs p = Some ([], p')
          \<and> (\<forall>q. q \<notin> source_path ` set fs \<longrightarrow> fileDiagnostics p' q = fileDiagnostics p q)"
proof (induction fs arbitrary: p)
  case (Cons f fs)
  let ?w = "walk_file (source_facts f) p"
  let ?p = "take_emit options (source_path f) (snd (drain (source_path f) ?w))"
  have other: "fileDiagnostics ?p q = fileDiagnostics p q" if "q \<noteq> source_path f" for q
    using that by (simp add: take_emit_other drain_def walk_file_def)
  have take: "take_times quote options 1 (source_path f) ?w = Some ([], ?p)"
    using assms Cons.prems(2) [of f] by (simp add: TakeDiagnostics_emit walk_file_def)
  have "fileDiagnostics ?p (source_path g) = []" if g: "g \<in> set fs" for g
  proof -
    have "source_path g \<noteq> source_path f" using Cons.prems(1) g by (metis distinct.simps(2) image_eqI list.set_map list.simps(9))
    then show ?thesis using other Cons.prems(2) g by simp
  qed
  then obtain p' where "emit_files quote options False fs ?p = Some ([], p')"
    "\<forall>q. q \<notin> source_path ` set fs \<longrightarrow> fileDiagnostics p' q = fileDiagnostics ?p q"
    using Cons.IH [of ?p] Cons.prems(1) by auto
  with take other show ?case by auto
qed simp

text \<open>With \<open>emit\<close> enabled and rules configured, the note that the rules are not evaluated never reaches the user
  when no declarations are emitted: \<open>TakeDiagnostics\<close> drains the notes of the file before it adds the
  note for that file, so the note stays in the plugin and all calls together return nothing.\<close>
theorem emit_note_lost:
  assumes "EmitEnabled options" "Rules options \<noteq> []" "distinct (map source_path (f # fs))"
  shows "\<exists>p. emit_files quote options False (f # fs) (started n) = Some ([], p)
    \<and> emit_rules_note \<in> set (map diag_text (fileDiagnostics p (source_path f)))"
proof -
  let ?w = "walk_file (source_facts f) (started n)"
  let ?p = "take_emit options (source_path f) (snd (drain (source_path f) ?w))"
  have take: "take_times quote options 1 (source_path f) ?w = Some ([], ?p)"
    using assms(1) by (simp add: TakeDiagnostics_emit walk_file_def started_def NewPlugin_def)
  have noted: "emit_rules_note \<in> set (map diag_text (fileDiagnostics ?p (source_path f)))"
    using assms(2) by (simp add: take_emit_def noteEmitRulesDeferral_def noteUnusedRequiresGraphValidate_def
        add_note_def Let_def started_def NewPlugin_def drain_def walk_file_def)
  have "fileDiagnostics ?p (source_path g) = []" if g: "g \<in> set fs" for g
  proof -
    have "source_path g \<noteq> source_path f"
      using assms(3) g by (metis distinct.simps(2) image_eqI list.set_map list.simps(9))
    then show ?thesis by (simp add: take_emit_other drain_def walk_file_def started_def NewPlugin_def)
  qed
  then obtain p where p: "emit_files quote options False fs ?p = Some ([], p)"
    "\<forall>q. q \<notin> source_path ` set fs \<longrightarrow> fileDiagnostics p q = fileDiagnostics ?p q"
    using emit_files_silent [OF assms(1), of fs ?p quote] assms(3) by auto
  moreover have "source_path f \<notin> source_path ` set fs" using assms(3) by simp
  ultimately show ?thesis using take noted by auto
qed

theorem emit_note_lost_witness:
  "\<exists>p. emit_files id (sample_options True) False (hd sample_sources # tl sample_sources) (started 2) = Some ([], p)
    \<and> emit_rules_note \<in> set (map diag_text (fileDiagnostics p (source_path (hd sample_sources))))"
  by (rule emit_note_lost) (use sample_rules in \<open>simp_all add: sample_sources_def sample_options_def\<close>)

section \<open>With declarations only\<close>

text \<open>
  With \<open>emitDeclarationOnly\<close> no script transformer is ever asked for: nothing is walked and the
  number of files to wait for stays zero, but \<open>TakeDiagnostics\<close> runs after the declaration
  transformers of each file.
\<close>

definition unused_entry :: "unit json" where
  "unused_entry = JObj [(''module'', JStr ''*''), (''unused'', JStr ''error'')]"

definition unused_options :: GraphOptions where
  "unused_options =
     \<lparr>EmitEnabled = False, EmitPath = [], Rules = parseRules [unused_entry], ConfigDir = ''/p'',
      Dependencies = [''react''], DevDependencies = [], PackageName = []\<rparr>"

text \<open>When only declarations are emitted, the first file completes the graph, which is still empty, so every
  dependency is reported as never imported, whatever the files import.\<close>
theorem declaration_only_unused:
  "map_option (\<lambda>(ds, g, p). map diagnostic_line ds) (TakeDiagnostics quoted unused_options None path (started 0 :: 'f Plugin))
   = Some [(CategoryError, ''[unused] '' @ unused_message quoted ''dependency'' ''react'')]"
proof -
  let ?finding = "\<lparr>Check = UnusedCheck, FindingFile = [], FindingSeverity = SeverityError,
    Message = unused_message quoted ''dependency'' ''react''\<rparr>"
  let ?p = "(started 0 :: 'f Plugin)\<lparr>fileDiagnostics := (\<lambda>_. [])(path := [])\<rparr>"
  have "evaluate_graph quoted unused_options True (snapshot (newAccumulator :: 'f accumulator) [] []) = Some [?finding]"
    by code_simp
  moreover have "plugin_snapshot unused_options ?p = snapshot (newAccumulator :: 'f accumulator) [] []"
    by (simp add: plugin_snapshot_def started_def NewPlugin_def unused_options_def)
  ultimately have "evaluate_graph quoted unused_options True (plugin_snapshot unused_options ?p) = Some [?finding]"
    by simp
  moreover have "mark_seen path ?p = (True, ?p\<lparr>seen := [path], graphComplete := True\<rparr>)"
    by (simp add: mark_seen_def started_def NewPlugin_def)
  ultimately have "take_inline quoted unused_options path ?p =
    Some (report_findings [?finding] (?p\<lparr>seen := [path], graphComplete := True\<rparr>))"
    by (simp add: take_inline_def)
  then have "take_inline quoted unused_options path ?p =
    Some ([?finding], ?p\<lparr>seen := [path], graphComplete := True, reported := [finding_key ?finding]\<rparr>)"
    by (simp add: report_finding_def Let_def started_def NewPlugin_def)
  moreover have "Rules unused_options \<noteq> []" by code_simp
  moreover have "\<not> EmitEnabled unused_options" by (simp add: unused_options_def)
  moreover have "drain path (started 0 :: 'f Plugin) = ([], ?p)" by (simp add: drain_def started_def NewPlugin_def)
  ultimately show ?thesis
    by (simp add: TakeDiagnostics_def line_of_finding report_line_def)
qed

end
