(* ===== verification/GraphConcurrency.thy ===== *)
theory GraphConcurrency
  imports GraphPlugin "HOL-Library.Transitive_Closure_Table"
begin

text \<open>
  The module-graph plugin when files are emitted in parallel (\<open>graph.go\<close>, \<open>facts.go\<close>). Each file is a
  thread, named by its path; its walk records its facts one at a time, and its \<open>TakeDiagnostics\<close>, in
  the mode that evaluates the rules, takes a snapshot, marks the file as seen and reports its
  findings one at a time. Each of these is one critical section of the code and one step here;
  steps of different threads interleave in any order.
\<close>

datatype 'f stage = Walking "'f fact list" | Snapped Graph | Evaluating "Finding list"

record 'f system =
  plugin :: "'f Plugin"
  stages :: "string \<rightharpoonup> 'f stage"
  emitted :: "Finding list"

definition at_stage :: "string \<Rightarrow> 'f stage \<Rightarrow> 'f Plugin \<Rightarrow> 'f system \<Rightarrow> 'f system" where
  "at_stage t st p s = s\<lparr>plugin := p, stages := (stages s)(t \<mapsto> st)\<rparr>"

text \<open>The next step of a thread; \<open>None\<close> when there is no such thread, or it has finished.\<close>

definition next_step :: "(string \<Rightarrow> string) \<Rightarrow> GraphOptions \<Rightarrow> string \<Rightarrow> 'f system \<Rightarrow> 'f system option" where
  "next_step quote options t s =
     (case stages s t of
        None \<Rightarrow> None
      | Some (Walking (x # xs)) \<Rightarrow> Some (at_stage t (Walking xs) (walk_file [x] (plugin s)) s)
      | Some (Walking []) \<Rightarrow> Some (at_stage t (Snapped (plugin_snapshot options (plugin s))) (plugin s) s)
      | Some (Snapped g) \<Rightarrow>
          (let (complete, p) = mark_seen t (plugin s)
           in map_option (\<lambda>fs. at_stage t (Evaluating fs) p s) (evaluate_graph quote options complete g))
      | Some (Evaluating (f # fs)) \<Rightarrow>
          (let (now, p) = report_finding f (plugin s)
           in Some (at_stage t (Evaluating fs) p (s\<lparr>emitted := (if now then emitted s @ [f] else emitted s)\<rparr>)))
      | Some (Evaluating []) \<Rightarrow> None)"

inductive step :: "(string \<Rightarrow> string) \<Rightarrow> GraphOptions \<Rightarrow> 'f system \<Rightarrow> 'f system \<Rightarrow> bool"
  for quote options where
  "next_step quote options t s = Some s' \<Longrightarrow> step quote options s s'"

definition initial :: "'f source list \<Rightarrow> 'f system" where
  "initial fs =
     \<lparr>plugin = started (length fs), stages = map_of (map (\<lambda>f. (source_path f, Walking (source_facts f))) fs),
      emitted = []\<rparr>"

definition reachable :: "(string \<Rightarrow> string) \<Rightarrow> GraphOptions \<Rightarrow> 'f source list \<Rightarrow> 'f system \<Rightarrow> bool" where
  "reachable quote options fs s \<longleftrightarrow> (step quote options)\<^sup>*\<^sup>* (initial fs) s"

definition all_finished :: "'f system \<Rightarrow> bool" where
  "all_finished s \<longleftrightarrow> (\<nexists>t st. stages s t = Some st \<and> st \<noteq> Evaluating [])"

section \<open>The steps\<close>

inductive_cases stepE: "step quote options s s'"

text \<open>One case for each kind of step.\<close>

lemma step_cases [consumes 1, case_names Record Snap Mark Report]:
  assumes "step quote options s s'"
  obtains (Record) t x xs where "stages s t = Some (Walking (x # xs))"
      "s' = at_stage t (Walking xs) (walk_file [x] (plugin s)) s"
  | (Snap) t where "stages s t = Some (Walking [])"
      "s' = at_stage t (Snapped (plugin_snapshot options (plugin s))) (plugin s) s"
  | (Mark) t g complete p fs where "stages s t = Some (Snapped g)" "mark_seen t (plugin s) = (complete, p)"
      "evaluate_graph quote options complete g = Some fs" "s' = at_stage t (Evaluating fs) p s"
  | (Report) t f fs now p where "stages s t = Some (Evaluating (f # fs))" "report_finding f (plugin s) = (now, p)"
      "s' = at_stage t (Evaluating fs) p (s\<lparr>emitted := (if now then emitted s @ [f] else emitted s)\<rparr>)"
proof -
  obtain t where n: "next_step quote options t s = Some s'" using assms by (rule stepE)
  then obtain st where st: "stages s t = Some st" by (auto simp: next_step_def split: option.splits)
  show ?thesis
  proof (cases st)
    case (Walking xs)
    then show ?thesis using n st by (cases xs) (auto simp: next_step_def intro: Record Snap)
  next
    case (Snapped g)
    then show ?thesis using n st by (auto simp: next_step_def intro: Mark split: prod.splits)
  next
    case (Evaluating fs)
    then show ?thesis using n st by (cases fs) (auto simp: next_step_def Let_def intro: Report split: prod.splits)
  qed
qed

lemma at_stage_simps [simp]:
  "plugin (at_stage t st p s) = p" "stages (at_stage t st p s) = (stages s)(t \<mapsto> st)"
  "emitted (at_stage t st p s) = emitted s"
  by (simp_all add: at_stage_def)

lemma mark_seen_keeps:
  "mark_seen t p = (complete, p') \<Longrightarrow> acc p' = acc p \<and> reported p' = reported p"
  by (auto simp: mark_seen_def Let_def split: if_splits)

lemma report_finding_keeps:
  "report_finding f p = (now, p') \<Longrightarrow>
     acc p' = acc p \<and> set (reported p') = insert (finding_key f) (set (reported p))
     \<and> (now \<longleftrightarrow> finding_key f \<notin> set (reported p) \<and> FindingSeverity f \<noteq> SeverityAllow)"
  by (auto simp: report_finding_def Let_def)

section \<open>The invariant\<close>

text \<open>What has been gathered and what is still to be gathered is, together, what there is.\<close>

definition gathered :: "'f source list \<Rightarrow> 'f system \<Rightarrow> bool" where
  "gathered fs s \<longleftrightarrow>
     (\<forall>t xs. stages s t = Some (Walking xs) \<longrightarrow>
        fact_files xs \<subseteq> fact_files (all_facts fs) \<and> fact_edges xs \<subseteq> fact_edges (all_facts fs))
     \<and> set (acc_files (acc (plugin s))) \<subseteq> fact_files (all_facts fs)
     \<and> set (acc_edges (acc (plugin s))) \<subseteq> fact_edges (all_facts fs)
     \<and> (\<forall>x\<in>fact_files (all_facts fs). x \<in> set (acc_files (acc (plugin s)))
           \<or> (\<exists>t xs. stages s t = Some (Walking xs) \<and> x \<in> fact_files xs))
     \<and> (\<forall>x\<in>fact_edges (all_facts fs). x \<in> set (acc_edges (acc (plugin s)))
           \<or> (\<exists>t xs. stages s t = Some (Walking xs) \<and> x \<in> fact_edges xs))"

definition lasting :: "(string \<Rightarrow> string) \<Rightarrow> GraphOptions \<Rightarrow> 'f source list \<Rightarrow> Finding \<Rightarrow> bool" where
  "lasting quote options fs f \<longleftrightarrow> final_violation quote options fs f \<and> Check f \<noteq> UnusedCheck"

definition sound_stage :: "(string \<Rightarrow> string) \<Rightarrow> GraphOptions \<Rightarrow> 'f source list \<Rightarrow> 'f stage \<Rightarrow> bool" where
  "sound_stage quote options fs st \<longleftrightarrow>
     (case st of
        Walking _ \<Rightarrow> True
      | Snapped g \<Rightarrow> graph_le g (final_graph options fs)
      | Evaluating found \<Rightarrow>
          \<forall>f\<in>set found. FindingSeverity f \<noteq> SeverityAllow \<and> (Check f \<noteq> UnusedCheck \<longrightarrow> lasting quote options fs f))"

definition sound_state :: "(string \<Rightarrow> string) \<Rightarrow> GraphOptions \<Rightarrow> 'f source list \<Rightarrow> 'f system \<Rightarrow> bool" where
  "sound_state quote options fs s \<longleftrightarrow>
     (\<forall>t st. stages s t = Some st \<longrightarrow> sound_stage quote options fs st)
     \<and> set (reported (plugin s)) = finding_key ` set (emitted s) \<and> distinct (map finding_key (emitted s))
     \<and> (\<forall>f\<in>set (emitted s). Check f \<noteq> UnusedCheck \<longrightarrow> lasting quote options fs f)"

text \<open>
  Where a violation is that has not been reported, once no file is being walked any more: a thread
  holds it, or holds a snapshot of the complete graph.
\<close>

definition held :: "GraphOptions \<Rightarrow> 'f source list \<Rightarrow> 'f system \<Rightarrow> Finding \<Rightarrow> bool" where
  "held options fs s f \<longleftrightarrow>
     (\<exists>t xs. stages s t = Some (Walking xs))
     \<or> (\<exists>t g. stages s t = Some (Snapped g) \<and> graph_le (final_graph options fs) g)
     \<or> (\<exists>t found. stages s t = Some (Evaluating found) \<and> f \<in> set found)
     \<or> finding_key f \<in> set (reported (plugin s))"

lemma gathered_le:
  "gathered fs s \<Longrightarrow> graph_le (plugin_snapshot options (plugin s)) (final_graph options fs)"
  by (auto simp: gathered_def graph_le_def plugin_snapshot_def final_graph_def record_facts_sets)

lemma gathered_all:
  assumes "gathered fs s" "\<nexists>t xs. stages s t = Some (Walking xs) \<and> xs \<noteq> []"
  shows "graph_le (final_graph options fs) (plugin_snapshot options (plugin s))"
proof -
  have "xs = []" if "stages s t = Some (Walking xs)" for t xs using assms(2) that by blast
  then have "fact_files (all_facts fs) \<subseteq> set (acc_files (acc (plugin s)))"
    "fact_edges (all_facts fs) \<subseteq> set (acc_edges (acc (plugin s)))"
    using assms(1) unfolding gathered_def by fastforce+
  then show ?thesis
    by (simp add: graph_le_def plugin_snapshot_def final_graph_def record_facts_sets newAccumulator_def)
qed

lemma evaluate_sound:
  assumes "evaluate_graph quote options complete g = Some found" "rules_valid (Rules options)"
  shows "f \<in> set found \<Longrightarrow> FindingSeverity f \<noteq> SeverityAllow"
    and "f \<in> set found \<Longrightarrow> graph_le g (final_graph options fs) \<Longrightarrow> Check f \<noteq> UnusedCheck \<Longrightarrow> lasting quote options fs f"
    and "lasting quote options fs f \<Longrightarrow> graph_le (final_graph options fs) g \<Longrightarrow> f \<in> set found"
proof -
  let ?V = "violation quote g (Rules options) (set (Dependencies options)) (set (DevDependencies options))"
  have s: "set found = {f. ?V f \<and> (complete \<or> Check f \<noteq> UnusedCheck)}"
    using assms(1) Evaluate_valid [OF assms(2), of quote g "Dependencies options" "DevDependencies options"]
      EvaluateIncremental_gives [OF assms(2), of quote g "Dependencies options" "DevDependencies options"]
    by (cases complete) (auto simp: evaluate_graph_def elim!: givesE)
  show "f \<in> set found \<Longrightarrow> FindingSeverity f \<noteq> SeverityAllow" using s violation_severity by auto
  show "f \<in> set found \<Longrightarrow> graph_le g (final_graph options fs) \<Longrightarrow> Check f \<noteq> UnusedCheck \<Longrightarrow> lasting quote options fs f"
    using s violation_mono by (auto simp: lasting_def final_violation_def)
  show "lasting quote options fs f \<Longrightarrow> graph_le (final_graph options fs) g \<Longrightarrow> f \<in> set found"
    using s violation_mono by (auto simp: lasting_def final_violation_def)
qed

section \<open>The steps keep the invariant\<close>

lemma snap_walking:
  assumes "stages s t = Some (Walking [])" "s' = at_stage t (Snapped g) p s"
    and "\<exists>t' xs'. stages s t' = Some (Walking xs') \<and> y \<in> F xs'" "F [] = {}"
  shows "\<exists>t' xs'. stages s' t' = Some (Walking xs') \<and> y \<in> F xs'"
proof -
  obtain t' xs' where t': "stages s t' = Some (Walking xs')" "y \<in> F xs'" using assms(3) by blast
  then have "t' \<noteq> t" using assms(1,4) by auto
  then show ?thesis using t' assms(2) by (intro exI [of _ t'] exI [of _ xs']) simp
qed

lemma gathered_step:
  assumes "step quote options s s'" "gathered fs s"
  shows "gathered fs s'"
  using assms(1)
proof (cases rule: step_cases)
  case (Record t x xs)
  have G: "set_option (file_of x) \<union> fact_files xs \<subseteq> fact_files (all_facts fs)"
    "set_option (edge_of x) \<union> fact_edges xs \<subseteq> fact_edges (all_facts fs)"
  proof -
    have "fact_files (x # xs) \<subseteq> fact_files (all_facts fs) \<and> fact_edges (x # xs) \<subseteq> fact_edges (all_facts fs)"
      using assms(2) Record(1) unfolding gathered_def by blast
    then show "set_option (file_of x) \<union> fact_files xs \<subseteq> fact_files (all_facts fs)"
      "set_option (edge_of x) \<union> fact_edges xs \<subseteq> fact_edges (all_facts fs)" by simp_all
  qed
  have still: "(\<exists>t' xs'. stages s' t' = Some (Walking xs') \<and> P xs')"
    if ex: "\<exists>t' xs'. stages s t' = Some (Walking xs') \<and> P xs'" and P: "P (x # xs) \<Longrightarrow> P xs" for P
  proof -
    obtain t' xs' where t': "stages s t' = Some (Walking xs')" "P xs'" using ex by blast
    show ?thesis
    proof (cases "t' = t")
      case True
      then have "P xs" using t' Record(1) P by auto
      then show ?thesis using Record(2) by (intro exI [of _ t] exI [of _ xs]) simp
    next
      case False
      then show ?thesis using t' Record(2) by (intro exI [of _ t'] exI [of _ xs']) simp
    qed
  qed
  have acc: "set (acc_files (acc (plugin s'))) = set_option (file_of x) \<union> set (acc_files (acc (plugin s)))"
    "set (acc_edges (acc (plugin s'))) = set_option (edge_of x) \<union> set (acc_edges (acc (plugin s)))"
    using Record(2) by (simp_all add: walk_file_def record_fact_sets)
  show ?thesis unfolding gathered_def
  proof (intro conjI allI impI ballI)
    fix y assume y: "y \<in> fact_files (all_facts fs)"
    show "y \<in> set (acc_files (acc (plugin s'))) \<or> (\<exists>t' xs'. stages s' t' = Some (Walking xs') \<and> y \<in> fact_files xs')"
    proof (cases "y \<in> set_option (file_of x)")
      case False
      have "y \<in> set (acc_files (acc (plugin s))) \<or> (\<exists>t' xs'. stages s t' = Some (Walking xs') \<and> y \<in> fact_files xs')"
        using assms(2) y unfolding gathered_def by blast
      then show ?thesis using still [of "\<lambda>l. y \<in> fact_files l"] False unfolding acc by simp blast
    qed (simp add: acc)
  next
    fix y assume y: "y \<in> fact_edges (all_facts fs)"
    show "y \<in> set (acc_edges (acc (plugin s'))) \<or> (\<exists>t' xs'. stages s' t' = Some (Walking xs') \<and> y \<in> fact_edges xs')"
    proof (cases "y \<in> set_option (edge_of x)")
      case False
      have "y \<in> set (acc_edges (acc (plugin s))) \<or> (\<exists>t' xs'. stages s t' = Some (Walking xs') \<and> y \<in> fact_edges xs')"
        using assms(2) y unfolding gathered_def by blast
      then show ?thesis using still [of "\<lambda>l. y \<in> fact_edges l"] False unfolding acc by simp blast
    qed (simp add: acc)
  qed (use assms(2) G Record(2) acc in \<open>auto simp: gathered_def split: if_splits\<close>)
next
  case (Snap t)
  note keep = snap_walking [OF Snap]
  show ?thesis unfolding gathered_def
  proof (intro conjI allI impI ballI)
    fix y assume "y \<in> fact_files (all_facts fs)"
    then have "y \<in> set (acc_files (acc (plugin s))) \<or> (\<exists>t' xs'. stages s t' = Some (Walking xs') \<and> y \<in> fact_files xs')"
      using assms(2) unfolding gathered_def by blast
    moreover have "plugin s' = plugin s" using Snap(2) by simp
    ultimately show "y \<in> set (acc_files (acc (plugin s'))) \<or> (\<exists>t' xs'. stages s' t' = Some (Walking xs') \<and> y \<in> fact_files xs')"
      using keep [of y fact_files] by (metis fact_simps(1))
  next
    fix y assume "y \<in> fact_edges (all_facts fs)"
    then have "y \<in> set (acc_edges (acc (plugin s))) \<or> (\<exists>t' xs'. stages s t' = Some (Walking xs') \<and> y \<in> fact_edges xs')"
      using assms(2) unfolding gathered_def by blast
    moreover have "plugin s' = plugin s" using Snap(2) by simp
    ultimately show "y \<in> set (acc_edges (acc (plugin s'))) \<or> (\<exists>t' xs'. stages s' t' = Some (Walking xs') \<and> y \<in> fact_edges xs')"
      using keep [of y fact_edges] by (metis fact_simps(2))
  qed (use assms(2) Snap in \<open>auto simp: gathered_def split: if_splits\<close>)
next
  case (Mark t g complete p found)
  then have "\<And>t' xs. stages s' t' = Some (Walking xs) \<longleftrightarrow> stages s t' = Some (Walking xs)" by auto
  with assms(2) mark_seen_keeps [OF Mark(2)] Mark(4) show ?thesis unfolding gathered_def by simp
next
  case (Report t f found now p)
  then have "\<And>t' xs. stages s' t' = Some (Walking xs) \<longleftrightarrow> stages s t' = Some (Walking xs)" by auto
  with assms(2) report_finding_keeps [OF Report(2)] Report(3) show ?thesis unfolding gathered_def by simp
qed

lemma sound_stateD: "sound_state quote options fs s \<Longrightarrow> stages s t = Some st \<Longrightarrow> sound_stage quote options fs st"
  by (simp add: sound_state_def)

lemma sound_step:
  assumes "step quote options s s'" "gathered fs s" "sound_state quote options fs s" "rules_valid (Rules options)"
  shows "sound_state quote options fs s'"
  using assms(1)
proof (cases rule: step_cases)
  case (Record t x xs)
  then show ?thesis using assms(3) by (auto simp: sound_state_def sound_stage_def walk_file_def)
next
  case (Snap t)
  then show ?thesis using assms(3) gathered_le [OF assms(2)] by (auto simp: sound_state_def sound_stage_def)
next
  case (Mark t g complete p found)
  have "graph_le g (final_graph options fs)" using sound_stateD [OF assms(3) Mark(1)] by (simp add: sound_stage_def)
  then have "sound_stage quote options fs (Evaluating found)"
    using evaluate_sound(1,2) [OF Mark(3) assms(4)] by (auto simp: sound_stage_def)
  then show ?thesis using assms(3) Mark(4) mark_seen_keeps [OF Mark(2)] by (auto simp: sound_state_def)
next
  case (Report t f found now p)
  have "sound_stage quote options fs (Evaluating (f # found))" using sound_stateD [OF assms(3) Report(1)] .
  then have f: "FindingSeverity f \<noteq> SeverityAllow" "Check f \<noteq> UnusedCheck \<Longrightarrow> lasting quote options fs f"
    and rest: "sound_stage quote options fs (Evaluating found)"
    by (auto simp: sound_stage_def)
  note R = report_finding_keeps [OF Report(2)]
  have now: "now \<longleftrightarrow> finding_key f \<notin> finding_key ` set (emitted s)" using R f(1) assms(3) by (simp add: sound_state_def)
  show ?thesis unfolding sound_state_def
  proof (intro conjI)
    show "distinct (map finding_key (emitted s'))" using assms(3) now Report(3) by (auto simp: sound_state_def)
    show "set (reported (plugin s')) = finding_key ` set (emitted s')"
      using assms(3) R now Report(3) by (auto simp: sound_state_def)
    show "\<forall>f\<in>set (emitted s'). Check f \<noteq> UnusedCheck \<longrightarrow> lasting quote options fs f"
      using assms(3) f(2) Report(3) by (auto simp: sound_state_def)
  qed (use assms(3) rest Report(3) in \<open>auto simp: sound_state_def\<close>)
qed

lemma heldE [consumes 1, case_names Some Graph Found Key]:
  assumes "held options fs s f"
  obtains (Some) t xs where "stages s t = Some (Walking xs)"
  | (Graph) t g where "stages s t = Some (Snapped g)" "graph_le (final_graph options fs) g"
  | (Found) t found where "stages s t = Some (Evaluating found)" "f \<in> set found"
  | (Key) "finding_key f \<in> set (reported (plugin s))"
  using assms unfolding held_def by blast

lemma held_step:
  assumes st: "step quote options s s'" and "gathered fs s" and h: "held options fs s f"
    and l: "lasting quote options fs f" and r: "rules_valid (Rules options)"
  shows "held options fs s' f"
  using st
proof (cases rule: step_cases)
  case (Record t x xs)
  then show ?thesis by (auto simp: held_def)
next
  case (Snap t)
  show ?thesis
  proof (cases "\<exists>t' xs. t' \<noteq> t \<and> stages s t' = Some (Walking xs)")
    case True
    then show ?thesis using Snap by (auto simp: held_def)
  next
    case False
    then have "\<nexists>t' xs. stages s t' = Some (Walking xs) \<and> xs \<noteq> []"
      using Snap(1) by (metis option.inject stage.inject(1))
    then have "graph_le (final_graph options fs) (plugin_snapshot options (plugin s))"
      using gathered_all assms(2) by blast
    then show ?thesis using Snap by (auto simp: held_def)
  qed
next
  case (Mark t g complete p found)
  have "f \<in> set found" if "graph_le (final_graph options fs) g"
    using evaluate_sound(3) [OF Mark(3) r l that] .
  note f = this
  from h show ?thesis
  proof (cases rule: heldE)
    case (Graph t' g')
    show ?thesis
    proof (cases "t' = t")
      case True
      then have "f \<in> set found" using f Graph Mark(1) by simp
      then show ?thesis using Mark(4) unfolding held_def by auto
    next
      case False
      then have "stages s' t' = Some (Snapped g')" using Graph Mark(4) by simp
      then show ?thesis using Graph(2) unfolding held_def by blast
    qed
  next
    case (Some t' xs)
    then have "stages s' t' = Some (Walking xs)" using Mark(1,4) by auto
    then show ?thesis unfolding held_def by blast
  next
    case (Found t' found')
    then have "stages s' t' = Some (Evaluating found')" using Mark(1,4) by auto
    then show ?thesis using Found(2) unfolding held_def by blast
  next
    case Key
    then show ?thesis using mark_seen_keeps [OF Mark(2)] Mark(4) unfolding held_def by simp
  qed
next
  case (Report t h' found now p)
  note R = report_finding_keeps [OF Report(2)]
  from h show ?thesis
  proof (cases rule: heldE)
    case (Some t' xs)
    then have "stages s' t' = Some (Walking xs)" using Report(1,3) by auto
    then show ?thesis unfolding held_def by blast
  next
    case (Graph t' g)
    then have "stages s' t' = Some (Snapped g)" using Report(1,3) by auto
    then show ?thesis using Graph(2) unfolding held_def by blast
  next
    case (Found t' found')
    show ?thesis
    proof (cases "t' = t")
      case True
      then have "f = h' \<or> f \<in> set found" using Found Report(1) by auto
      then show ?thesis using R Report(3) unfolding held_def by auto
    next
      case False
      then have "stages s' t' = Some (Evaluating found')" using Found Report(3) by simp
      then show ?thesis using Found(2) unfolding held_def by blast
    qed
  next
    case Key
    then show ?thesis using R Report(3) unfolding held_def by simp
  qed
qed

section \<open>The reachable states\<close>

lemma initial_stage:
  "distinct (map source_path fs) \<Longrightarrow> f \<in> set fs \<Longrightarrow> stages (initial fs) (source_path f) = Some (Walking (source_facts f))"
  by (auto simp: initial_def comp_def intro!: map_of_is_SomeI)

lemma initial_walking:
  "stages (initial fs) t = Some st \<Longrightarrow> \<exists>f\<in>set fs. st = Walking (source_facts f)"
  by (auto simp: initial_def dest!: map_of_SomeD)

lemma fact_all:
  "fact_files (all_facts fs) = (\<Union>f\<in>set fs. fact_files (source_facts f))"
  "fact_edges (all_facts fs) = (\<Union>f\<in>set fs. fact_edges (source_facts f))"
  by (induction fs) (simp_all add: all_facts_def)

lemma gathered_initial:
  assumes "distinct (map source_path fs)"
  shows "gathered fs (initial fs)"
proof -
  have empty: "acc_files (acc (plugin (initial fs))) = []" "acc_edges (acc (plugin (initial fs))) = []"
    by (simp_all add: initial_def started_def NewPlugin_def newAccumulator_def)
  show ?thesis
    unfolding gathered_def empty
  proof (intro conjI allI impI ballI disjI2)
    fix t xs assume "stages (initial fs) t = Some (Walking xs)"
    then obtain f where "f \<in> set fs" "xs = source_facts f" using initial_walking by blast
    then show "fact_files xs \<subseteq> fact_files (all_facts fs)" "fact_edges xs \<subseteq> fact_edges (all_facts fs)"
      by (auto simp: fact_all)
  next
    fix x assume "x \<in> fact_files (all_facts fs)"
    then obtain f where "f \<in> set fs" "x \<in> fact_files (source_facts f)" by (auto simp: fact_all)
    then show "\<exists>t xs. stages (initial fs) t = Some (Walking xs) \<and> x \<in> fact_files xs"
      using initial_stage [OF assms] by blast
  next
    fix x assume "x \<in> fact_edges (all_facts fs)"
    then obtain f where "f \<in> set fs" "x \<in> fact_edges (source_facts f)" by (auto simp: fact_all)
    then show "\<exists>t xs. stages (initial fs) t = Some (Walking xs) \<and> x \<in> fact_edges xs"
      using initial_stage [OF assms] by blast
  qed simp_all
qed

lemma sound_initial: "sound_state quote options fs (initial fs)"
proof -
  have "emitted (initial fs) = []" "reported (plugin (initial fs)) = []"
    by (simp_all add: initial_def started_def NewPlugin_def)
  moreover have "sound_stage quote options fs st" if "stages (initial fs) t = Some st" for t st
    using initial_walking [OF that] by (auto simp: sound_stage_def)
  ultimately show ?thesis by (simp add: sound_state_def)
qed

lemma held_initial:
  assumes "distinct (map source_path fs)" "fs \<noteq> []"
  shows "held options fs (initial fs) f"
  using initial_stage [OF assms(1), of "hd fs"] assms(2) unfolding held_def by auto

lemma reachable_invariant:
  assumes "reachable quote options fs s" "distinct (map source_path fs)" "fs \<noteq> []" "rules_valid (Rules options)"
  shows "gathered fs s \<and> sound_state quote options fs s \<and> (\<forall>f. lasting quote options fs f \<longrightarrow> held options fs s f)"
  using assms(1) unfolding reachable_def
proof (induction rule: rtranclp_induct)
  case base
  show ?case using gathered_initial sound_initial held_initial assms(2,3) by blast
next
  case (step s s')
  then show ?case using gathered_step sound_step held_step assms(4) by blast
qed

text \<open>C14: Under every interleaving of the files' threads, in every state that can be reached, no finding has been
  reported twice, and whatever has been reported, other than \<open>unused\<close>, is a violation of the
  complete graph with the severity and the message it was reported with.\<close>
theorem interleaved_sound:
  assumes "reachable quote options fs s" "distinct (map source_path fs)" "fs \<noteq> []" "rules_valid (Rules options)"
  shows "distinct (map finding_key (emitted s))
    \<and> set (filter (\<lambda>f. Check f \<noteq> UnusedCheck) (emitted s)) \<subseteq> {f. final_violation quote options fs f}"
  using reachable_invariant [OF assms] by (auto simp: sound_state_def lasting_def)

text \<open>C13: Under every interleaving, once all threads have finished, every violation of the complete graph other
  than \<open>unused\<close> has been reported: whichever thread takes the last snapshot sees every fact.\<close>
theorem interleaved_complete:
  assumes "reachable quote options fs s" "distinct (map source_path fs)" "fs \<noteq> []" "rules_valid (Rules options)"
    and "all_finished s"
  shows "finding_key ` {f. final_violation quote options fs f \<and> Check f \<noteq> UnusedCheck} \<subseteq> set (map finding_key (emitted s))"
proof
  fix k assume "k \<in> finding_key ` {f. final_violation quote options fs f \<and> Check f \<noteq> UnusedCheck}"
  then obtain f where f: "lasting quote options fs f" "k = finding_key f" by (auto simp: lasting_def)
  note R = reachable_invariant [OF assms(1-4)]
  from R f(1) have "held options fs s f" by blast
  then have "finding_key f \<in> set (reported (plugin s))"
  proof (cases rule: heldE)
    case (Found t found)
    then show ?thesis using assms(5) unfolding all_finished_def by fastforce
  qed (use assms(5) in \<open>unfold all_finished_def, blast+\<close>)
  then show "k \<in> set (map finding_key (emitted s))" using R f(2) by (simp add: sound_state_def)
qed

section \<open>Two schedules\<close>

text \<open>Running the threads in the given order.\<close>

fun run_schedule :: "(string \<Rightarrow> string) \<Rightarrow> GraphOptions \<Rightarrow> string list \<Rightarrow> 'f system \<Rightarrow> 'f system option" where
  "run_schedule quote options [] s = Some s"
| "run_schedule quote options (t # ts) s =
     (case next_step quote options t s of None \<Rightarrow> None | Some s' \<Rightarrow> run_schedule quote options ts s')"

lemma run_schedule_steps: "run_schedule quote options ts s = Some s' \<Longrightarrow> (step quote options)\<^sup>*\<^sup>* s s'"
proof (induction ts arbitrary: s)
  case (Cons t ts)
  then obtain s1 where s1: "next_step quote options t s = Some s1" "run_schedule quote options ts s1 = Some s'"
    by (auto split: option.splits)
  then have "step quote options s s1" by (blast intro: step.intros)
  with Cons.IH [OF s1(2)] show ?case by simp
qed simp

lemma run_schedule_reachable:
  "run_schedule quote options ts (initial fs) = Some s \<Longrightarrow> reachable quote options fs s"
  unfolding reachable_def by (rule run_schedule_steps)

text \<open>The first file takes its snapshot before the second is walked, but marks itself as seen after it.\<close>

definition racing_schedule :: "string list" where
  "racing_schedule =
     replicate 3 ''/p/a.ts'' @ replicate 6 ''/p/b.ts'' @ replicate 2 ''/p/a.ts''"

definition race :: "unit system" where
  "race = the (run_schedule id (sample_options False) racing_schedule (initial sample_sources))"

lemma race_runs:
  "run_schedule id (sample_options False) racing_schedule (initial sample_sources) = Some race"
proof -
  have "run_schedule id (sample_options False) racing_schedule (initial sample_sources) \<noteq> None" by code_simp
  then show ?thesis by (auto simp: race_def)
qed

lemma race_reachable: "reachable id (sample_options False) sample_sources race"
  by (rule run_schedule_reachable) (rule race_runs)

text \<open>A schedule keeps the threads, so whether all have finished can be read off the list of files.\<close>

lemma next_step_dom:
  assumes "next_step quote options t s = Some s'"
  shows "dom (stages s') = dom (stages s)"
proof -
  have "step quote options s s'" using assms by (rule step.intros)
  then show ?thesis by (cases rule: step_cases) (simp_all add: insert_absorb domI)
qed

lemma run_schedule_dom: "run_schedule quote options ts s = Some s' \<Longrightarrow> dom (stages s') = dom (stages s)"
proof (induction ts arbitrary: s)
  case (Cons t ts)
  then obtain s1 where s1: "next_step quote options t s = Some s1" "run_schedule quote options ts s1 = Some s'"
    by (auto split: option.splits)
  show ?case unfolding Cons.IH [OF s1(2)] by (rule next_step_dom [OF s1(1)])
qed simp

definition finished_threads :: "'f source list \<Rightarrow> 'f system \<Rightarrow> bool" where
  "finished_threads fs s \<longleftrightarrow>
     list_all (\<lambda>f. case stages s (source_path f) of Some (Evaluating []) \<Rightarrow> True | _ \<Rightarrow> False) fs"

lemma finished_threads_all:
  assumes "run_schedule quote options ts (initial fs) = Some s" "finished_threads fs s"
  shows "all_finished s"
proof -
  have "dom (stages s) = source_path ` set fs"
    using run_schedule_dom [OF assms(1)] by (simp add: initial_def dom_map_of_conv_image_fst image_image)
  moreover have "stages s (source_path f) = Some (Evaluating [])" if f: "f \<in> set fs" for f
  proof -
    have "case stages s (source_path f) of Some (Evaluating []) \<Rightarrow> True | _ \<Rightarrow> False"
      using assms(2) f by (simp add: finished_threads_def list_all_iff)
    then show ?thesis by (simp split: option.splits stage.splits list.splits)
  qed
  ultimately show ?thesis unfolding all_finished_def by (metis domI image_iff option.inject)
qed

theorem interleaved_sound_witness:
  "distinct (map finding_key (emitted race))
    \<and> set (filter (\<lambda>f. Check f \<noteq> UnusedCheck) (emitted race))
        \<subseteq> {f. final_violation id (sample_options False) sample_sources f}"
  by (rule interleaved_sound [OF race_reachable]) (use sample_rules in \<open>simp_all add: sample_sources_def\<close>)

theorem interleaved_complete_witness:
  "finding_key ` {f. final_violation id (sample_options False) sample_sources f \<and> Check f \<noteq> UnusedCheck}
    \<subseteq> set (map finding_key (emitted race))"
proof -
  have "finished_threads sample_sources race" unfolding race_def by code_simp
  then have "all_finished race" using finished_threads_all race_runs by blast
  then show ?thesis
    by (intro interleaved_complete [OF race_reachable]) (use sample_rules in \<open>simp_all add: sample_sources_def\<close>)
qed

text \<open>C18: \<open>unused\<close> is not safe when files are emitted in parallel: a thread can take its snapshot before another
  file has been walked and still be the one that completes the count, because the snapshot is taken
  before the file is marked as seen. It then evaluates \<open>unused\<close> on a graph that misses the other
  file's edges, and a file that is imported is reported as never imported.\<close>
theorem stale_snapshot_unused:
  "\<exists>s f. reachable id (sample_options False) sample_sources s \<and> f \<in> set (emitted s)
    \<and> Check f = UnusedCheck \<and> FindingFile f = ''./a.ts''
    \<and> (''./b.ts'', ''./a.ts'') \<in> internal_edges (final_graph (sample_options False) sample_sources)
    \<and> \<not> final_violation id (sample_options False) sample_sources f"
proof -
  let ?f = "\<lparr>Check = UnusedCheck, FindingFile = ''./a.ts'', FindingSeverity = SeverityWarning,
    Message = ''./a.ts is never imported anywhere in this project's graph''\<rparr>"
  have "?f \<in> set (emitted race)" unfolding race_def by code_simp
  moreover have e: "(''./b.ts'', ''./a.ts'') \<in> internal_edges (final_graph (sample_options False) sample_sources)"
  proof -
    have "internal_edge ''./b.ts'' ''./a.ts'' \<in> set (Edges (final_graph (sample_options False) sample_sources))"
      by code_simp
    then show ?thesis by (force simp: internal_edges_def internal_edge_def)
  qed
  moreover have "\<not> final_violation id (sample_options False) sample_sources ?f"
    unfolding final_violation_def
  proof
    assume "violation id (final_graph (sample_options False) sample_sources) (Rules (sample_options False))
      (set (Dependencies (sample_options False))) (set (DevDependencies (sample_options False))) ?f"
    then show False using e by (cases rule: violation.cases) (auto simp: Range_iff)
  qed
  ultimately show ?thesis using race_reachable by force
qed

end
