(* ===== verification/GraphTransform.thy ===== *)
theory GraphTransform
  imports GraphFacts ParisTransform PathRewrite FilePath
begin

text \<open>
  \<open>tsc/internal/tscp/graph/transformer.go\<close>: the walk of one file that gathers the facts of the module
  graph. Trees are those of \<open>ParisTransform\<close>: the slots of a node are its children in the order of
  \<open>ForEachChild\<close>, and kinds that theory has no constructor for are \<open>KindOther\<close> with their name. An
  \<open>export =\<close> assignment has a kind of its own, as has a meta property of \<open>import\<close>. Which parents a
  specifier has is not part of the tree (synthesized nodes have none): it is a field of the walker.
\<close>

abbreviation (input) KindExportDeclaration :: kind where "KindExportDeclaration \<equiv> KindOther ''ExportDeclaration''"
abbreviation (input) KindNamedExports :: kind where "KindNamedExports \<equiv> KindOther ''NamedExports''"
abbreviation (input) KindNamespaceExport :: kind where "KindNamespaceExport \<equiv> KindOther ''NamespaceExport''"
abbreviation (input) KindImportEquals :: kind where "KindImportEquals \<equiv> KindOther ''ImportEqualsDeclaration''"
abbreviation (input) KindExternalModuleReference :: kind where
  "KindExternalModuleReference \<equiv> KindOther ''ExternalModuleReference''"
abbreviation (input) KindExportAssignment :: kind where "KindExportAssignment \<equiv> KindOther ''ExportAssignment''"
abbreviation (input) KindExportEquals :: kind where "KindExportEquals \<equiv> KindOther ''ExportAssignment =''"
abbreviation (input) KindFunctionDeclaration :: kind where
  "KindFunctionDeclaration \<equiv> KindFunctionLike ''FunctionDeclaration''"
abbreviation (input) KindClassDeclaration :: kind where "KindClassDeclaration \<equiv> KindClassLike ''ClassDeclaration''"
abbreviation (input) KindExportKeyword :: kind where "KindExportKeyword \<equiv> KindOther ''ExportKeyword''"
abbreviation (input) KindDefaultKeyword :: kind where "KindDefaultKeyword \<equiv> KindOther ''DefaultKeyword''"
abbreviation (input) KindImportKeyword :: kind where "KindImportKeyword \<equiv> KindOther ''ImportKeyword''"
abbreviation (input) KindImportMeta :: kind where "KindImportMeta \<equiv> KindOther ''MetaProperty import''"

record 'f walker =
  w_configDir :: string
  w_fileName :: string
  w_file :: 'f
  w_host :: "resolver option"
  w_parents :: "node \<Rightarrow> parents"

definition relativePath :: "string \<Rightarrow> string \<Rightarrow> string" where
  "relativePath configDir fileName =
     (case Rel configDir fileName of
        None \<Rightarrow> fileName
      | Some rel \<Rightarrow> (if \<not> HasPrefix rel ''./'' \<and> \<not> HasPrefix rel ''../'' then ''./'' @ rel else rel))"

definition relPath :: "'f walker \<Rightarrow> string" where
  "relPath w = relativePath (w_configDir w) (w_fileName w)"

section \<open>Edges\<close>

definition specifier_edge ::
  "'f walker \<Rightarrow> node \<Rightarrow> string \<Rightarrow> string list \<Rightarrow> bool \<Rightarrow> bool \<Rightarrow> EdgeFact" where
  "specifier_edge w specifierNode specifierText ns isDefault isNamespace =
     (let edge = \<lparr>From = relPath w, To = [], Specifier = specifierText, EdgeKind = KindExternal, ResolvedPackage = [],
                  EdgeNames = ns, IsDefault = isDefault, IsNamespace = isNamespace\<rparr>
      in case ResolveSpecifier (w_host w) (w_parents w specifierNode) specifierText of
           Some r \<Rightarrow>
             (if \<not> IsResolved (Some r) then edge
              else if IsExternalLibraryImport r \<or> str_contains (ResolvedFileName r) ''/node_modules/''
              then edge\<lparr>ResolvedPackage := (if PackageIdName r = [] then specifierText else PackageIdName r)\<rparr>
              else edge\<lparr>EdgeKind := KindInternal, To := relativePath (w_configDir w) (ResolvedFileName r)\<rparr>)
         | None \<Rightarrow> edge)"

text \<open>Slots of an import clause: name, named bindings; of an import or export specifier: property name, name.\<close>

definition imported_name :: "node \<Rightarrow> string" where
  "imported_name element = (case child 0 element of Some p \<Rightarrow> text_of p | None \<Rightarrow> text_of_child 1 element)"

definition importedNames :: "node option \<Rightarrow> string list \<times> bool \<times> bool" where
  "importedNames clause =
     (case clause of
        None \<Rightarrow> ([], False, False)
      | Some importClause \<Rightarrow>
          (case child 1 importClause of
             None \<Rightarrow> ([], child 0 importClause \<noteq> None, False)
           | Some bindings \<Rightarrow>
               (if kind_of bindings = KindNamedImports then map imported_name (child_nodes 0 bindings) else [],
                child 0 importClause \<noteq> None,
                kind_of bindings = KindNamespaceImport)))"

section \<open>Handlers\<close>

definition visitImportDeclaration :: "'f walker \<Rightarrow> node \<Rightarrow> 'f fact list" where
  "visitImportDeclaration w n =
     (case child 2 n of
        None \<Rightarrow> []
      | Some spec \<Rightarrow>
          (if \<not> is_string_literal_like spec then []
           else (case importedNames (child 1 n) of
                   (ns, isDefault, isNamespace) \<Rightarrow> [Edge (specifier_edge w spec (text_of spec) ns isDefault isNamespace)])))"

text \<open>Slots of an export declaration: modifiers, clause, specifier, attributes.\<close>

definition exported_names :: "node \<Rightarrow> string list" where
  "exported_names n =
     (case child 1 n of
        Some clause \<Rightarrow> (if kind_of clause = KindNamedExports then map (text_of_child 1) (child_nodes 0 clause) else [])
      | None \<Rightarrow> [])"

definition visitExportDeclaration :: "'f walker \<Rightarrow> node \<Rightarrow> 'f fact list" where
  "visitExportDeclaration w n =
     (let ns = exported_names n;
          isNamespace = (case child 1 n of Some clause \<Rightarrow> kind_of clause = KindNamespaceExport | None \<Rightarrow> False);
          recorded = map (ExportOf (relPath w)) ns
            @ (if isNamespace then [ExportOf (relPath w) (text_of_child 0 (the (child 1 n)))] else [])
      in recorded
         @ (case child 2 n of
              Some spec \<Rightarrow>
                (if is_string_literal_like spec
                 then [Edge (specifier_edge w spec (text_of spec) ns False isNamespace)] else [])
            | None \<Rightarrow> []))"

definition HasModifier :: "kind \<Rightarrow> node \<Rightarrow> bool" where
  "HasModifier k n \<longleftrightarrow> list_ex (\<lambda>m. kind_of m = k) (child_nodes 0 n)"

text \<open>Slots of an import-equals declaration: modifiers, name, reference.\<close>

definition visitImportEqualsDeclaration :: "'f walker \<Rightarrow> node \<Rightarrow> 'f fact list" where
  "visitImportEqualsDeclaration w n =
     (case child 2 n of
        None \<Rightarrow> []
      | Some reference \<Rightarrow>
          (if kind_of reference \<noteq> KindExternalModuleReference then []
           else (case child 0 reference of
                   None \<Rightarrow> []
                 | Some e \<Rightarrow>
                     (if \<not> is_string_literal_like e then []
                      else Edge (specifier_edge w e (text_of e) [] False True)
                           # (if HasModifier KindExportKeyword n then [ExportOf (relPath w) (text_of_child 1 n)] else [])))))"

definition visitExportAssignment :: "'f walker \<Rightarrow> node \<Rightarrow> 'f fact list" where
  "visitExportAssignment w n = (if kind_of n = KindExportAssignment then [ExportOf (relPath w) ''default''] else [])"

text \<open>Slots of a function declaration: modifiers, asterisk, name; of a class declaration: modifiers, name.\<close>

definition exportable_name :: "node \<Rightarrow> node option" where
  "exportable_name n = (if kind_of n = KindFunctionDeclaration then child 2 n else child 1 n)"

definition visitExportableDeclaration :: "'f walker \<Rightarrow> node \<Rightarrow> 'f fact list" where
  "visitExportableDeclaration w n =
     (if \<not> HasModifier KindExportKeyword n then []
      else if HasModifier KindDefaultKeyword n then [ExportOf (relPath w) ''default'']
      else (case exportable_name n of
              Some name \<Rightarrow> (if kind_of name = KindIdentifier then [ExportOf (relPath w) (text_of name)] else [])
            | None \<Rightarrow> []))"

definition declarator_export :: "'f walker \<Rightarrow> node \<Rightarrow> 'f fact list" where
  "declarator_export w declarator =
     (case child 0 declarator of
        Some name \<Rightarrow> (if kind_of name = KindIdentifier then [ExportOf (relPath w) (text_of name)] else [])
      | None \<Rightarrow> [])"

definition visitVariableStatement :: "'f walker \<Rightarrow> node \<Rightarrow> 'f fact list" where
  "visitVariableStatement w n =
     (if \<not> HasModifier KindExportKeyword n then [] else concat (map (declarator_export w) (variable_declarations n)))"

definition IsImportCall :: "node \<Rightarrow> bool" where
  "IsImportCall n \<longleftrightarrow>
     kind_of n = KindCallExpression
     \<and> (case child 0 n of
          Some e \<Rightarrow> kind_of e = KindImportKeyword \<or> kind_of e = KindImportMeta \<and> text_of_child 0 e = ''defer''
        | None \<Rightarrow> False)"

definition visitCallExpression :: "'f walker \<Rightarrow> node \<Rightarrow> 'f fact list" where
  "visitCallExpression w n =
     (if IsRequireCall n \<or> IsImportCall n \<and> child_nodes 3 n \<noteq> [] \<and> is_string_literal_like (child_nodes 3 n ! 0)
      then [Edge (specifier_edge w (child_nodes 3 n ! 0) (text_of (child_nodes 3 n ! 0)) [] False True)]
      else [])"

text \<open>What the visit of a node records itself, and whether it goes on to the children.\<close>

definition node_facts :: "'f walker \<Rightarrow> node \<Rightarrow> 'f fact list" where
  "node_facts w n =
     (if kind_of n = KindSourceFile then [FileFact (relPath w) (w_file w)]
      else if kind_of n = KindImportDeclaration then visitImportDeclaration w n
      else if kind_of n = KindExportDeclaration then visitExportDeclaration w n
      else if kind_of n = KindImportEquals then visitImportEqualsDeclaration w n
      else if kind_of n = KindExportAssignment \<or> kind_of n = KindExportEquals then visitExportAssignment w n
      else if kind_of n = KindFunctionDeclaration \<or> kind_of n = KindClassDeclaration then visitExportableDeclaration w n
      else if kind_of n = KindVariableStatement then visitVariableStatement w n
      else if kind_of n = KindCallExpression then visitCallExpression w n
      else [])"

definition descends :: "node \<Rightarrow> bool" where
  "descends n \<longleftrightarrow> kind_of n \<notin> {KindImportDeclaration, KindExportDeclaration, KindImportEquals}"

section \<open>The walk\<close>

function walk_node :: "'f walker \<Rightarrow> node \<Rightarrow> 'f accumulator \<Rightarrow> node \<times> 'f accumulator"
  and walk_slot :: "'f walker \<Rightarrow> slot \<Rightarrow> 'f accumulator \<Rightarrow> slot \<times> 'f accumulator"
  and walk_slots :: "'f walker \<Rightarrow> slot list \<Rightarrow> 'f accumulator \<Rightarrow> slot list \<times> 'f accumulator"
  and walk_nodes :: "'f walker \<Rightarrow> node list \<Rightarrow> 'f accumulator \<Rightarrow> node list \<times> 'f accumulator" where
  "walk_node w n a =
     (let a = record_facts (node_facts w n) a
      in if descends n
         then (let (slots, a) = walk_slots w (slots_of n) a in (Node (kind_of n) (text_of n) slots, a))
         else (n, a))"
| "walk_slot w (Child None) a = (Child None, a)"
| "walk_slot w (Child (Some n)) a = (let (n, a) = walk_node w n a in (Child (Some n), a))"
| "walk_slot w (Embedded None) a = (Embedded None, a)"
| "walk_slot w (Embedded (Some n)) a = (let (n, a) = walk_node w n a in (Embedded (Some n), a))"
| "walk_slot w (Children None) a = (Children None, a)"
| "walk_slot w (Children (Some ns)) a = (let (ns, a) = walk_nodes w ns a in (Children (Some ns), a))"
| "walk_slots w [] a = ([], a)"
| "walk_slots w (s # ss) a = (let (s, a) = walk_slot w s a; (ss, a) = walk_slots w ss a in (s # ss, a))"
| "walk_nodes w [] a = ([], a)"
| "walk_nodes w (n # ns) a = (let (n, a) = walk_node w n a; (ns, a) = walk_nodes w ns a in (n # ns, a))"
  by pat_completeness auto
termination
  by (relation "measure (\<lambda>x. case x of
      Inl (Inl (_, n, _)) \<Rightarrow> size n
    | Inl (Inr (_, s, _)) \<Rightarrow> size s
    | Inr (Inl (_, ss, _)) \<Rightarrow> size_list size ss
    | Inr (Inr (_, ns, _)) \<Rightarrow> size_list size ns)")
    (auto simp: slots_of_size)

declare walk_node.simps [simp del]

text \<open>\<open>TransformSourceFile\<close> of the plugin's transformer.\<close>

definition transform_file :: "'f walker \<Rightarrow> node \<Rightarrow> 'f accumulator \<Rightarrow> node \<times> 'f accumulator" where
  "transform_file w sourceFile a = walk_node w sourceFile a"

section \<open>What the walk comes to\<close>

function visited_from :: "node \<Rightarrow> node list" where
  "visited_from n = n # (if descends n then concat (map visited_from (subnodes n)) else [])"
  by pat_completeness auto
termination
  by (relation "measure size") (auto simp: subnodes_size)

declare visited_from.simps [simp del]

definition facts_from :: "'f walker \<Rightarrow> node list \<Rightarrow> 'f fact list" where
  "facts_from w ns = concat (map (node_facts w) (concat (map visited_from ns)))"

lemma facts_from_simps [simp]:
  "facts_from w [] = []" "facts_from w (ms @ ns) = facts_from w ms @ facts_from w ns"
  by (simp_all add: facts_from_def)

lemma facts_from_Cons: "facts_from w (n # ns) = facts_from w [n] @ facts_from w ns"
  by (simp add: facts_from_def)

lemma facts_from_node:
  "facts_from w [n] = node_facts w n @ (if descends n then facts_from w (subnodes n) else [])"
  by (simp add: facts_from_def visited_from.simps [of n])

lemma walk_records:
  "walk_node w n a = (n, record_facts (facts_from w [n]) a)"
  "walk_slot w s a = (s, record_facts (facts_from w (slot_nodes s)) a)"
  "walk_slots w ss a = (ss, record_facts (facts_from w (concat (map slot_nodes ss))) a)"
  "walk_nodes w ns a = (ns, record_facts (facts_from w ns) a)"
proof (induction w n a and w s a and w ss a and w ns a rule: walk_node_walk_slot_walk_slots_walk_nodes.induct)
  case (1 w n a)
  show ?case
  proof (cases "descends n")
    case True
    then show ?thesis
      using 1 [OF refl True] unfolding walk_node.simps facts_from_node
      by (cases n) (simp add: Let_def subnodes_def)
  next
    case False
    then show ?thesis unfolding walk_node.simps facts_from_node by (simp add: Let_def)
  qed
next
  case (11 w n ns a)
  then show ?case by (simp add: facts_from_Cons [of w n ns])
qed simp_all

text \<open>The fact-gathering transformer returns every tree unchanged, whatever its configuration, so the output
  of a build does not depend on it; and what it records, in this order, are the facts of the nodes
  in source order, at any depth, except below import and export declarations.\<close>
theorem transform_file_records:
  "transform_file w file a = (file, record_facts (concat (map (node_facts w) (visited_from file))) a)"
  by (simp add: transform_file_def walk_records facts_from_def)

section \<open>Edges and specifiers\<close>

text \<open>What an edge says of its target: it is internal exactly when the specifier resolves to a file of the
  project, its target is then that file's path relative to the configuration, with a leading \<open>./\<close> or
  \<open>../\<close> unless no relative path exists, and it names no package; it is external with a package name
  exactly when the specifier resolves into a library; and an unresolved specifier is kept as an
  external edge without a package.\<close>
theorem specifier_edge_cases:
  "let edge = specifier_edge w n text ns d s
   in From edge = relPath w \<and> Specifier edge = text \<and> EdgeNames edge = ns \<and> IsDefault edge = d \<and> IsNamespace edge = s
      \<and> (case ResolveSpecifier (w_host w) (w_parents w n) text of
           Some r \<Rightarrow>
             (if ResolvedFileName r = [] then EdgeKind edge = KindExternal \<and> To edge = [] \<and> ResolvedPackage edge = []
              else if IsExternalLibraryImport r \<or> str_contains (ResolvedFileName r) ''/node_modules/''
              then EdgeKind edge = KindExternal \<and> To edge = []
                   \<and> (ResolvedPackage edge = [] \<longleftrightarrow> PackageIdName r = [] \<and> text = [])
              else EdgeKind edge = KindInternal \<and> ResolvedPackage edge = []
                   \<and> (HasPrefix (To edge) ''./'' \<or> HasPrefix (To edge) ''../''
                      \<or> Rel (w_configDir w) (ResolvedFileName r) = None \<and> To edge = ResolvedFileName r))
         | None \<Rightarrow> EdgeKind edge = KindExternal \<and> To edge = [] \<and> ResolvedPackage edge = [])"
proof -
  have rel: "HasPrefix (relativePath c f) ''./'' \<or> HasPrefix (relativePath c f) ''../''
      \<or> Rel c f = None \<and> relativePath c f = f" for c f
    by (cases "Rel c f") (auto simp: relativePath_def HasPrefix_def)
  show ?thesis
    using rel by (auto simp: specifier_edge_def Let_def IsResolved_def split: option.split)
qed

text \<open>
  The specifier of \<open>{ a as b }\<close> in an import and in an export: property name, name.
\<close>

definition renamed :: "kind \<Rightarrow> string \<Rightarrow> string \<Rightarrow> node" where
  "renamed k a b = Node k [] [Child (Some (leaf KindIdentifier a)), Child (Some (leaf KindIdentifier b))]"

definition import_renamed :: "string \<Rightarrow> string \<Rightarrow> string \<Rightarrow> node" where
  "import_renamed a b x =
     Node KindImportDeclaration []
       [Children None,
        Child (Some (Node KindImportClause []
          [Child None, Child (Some (Node KindNamedImports [] [Children (Some [renamed KindImportSpecifier a b])]))])),
        Child (Some (leaf KindStringLiteral x)), Child None]"

definition export_renamed :: "string \<Rightarrow> string \<Rightarrow> string \<Rightarrow> node" where
  "export_renamed a b x =
     Node KindExportDeclaration []
       [Children None,
        Child (Some (Node KindNamedExports [] [Children (Some [renamed (KindOther ''ExportSpecifier'') a b])])),
        Child (Some (leaf KindStringLiteral x)), Child None]"

text \<open>The names of an edge are the bindings the source reaches for in the target, for an import: of
  \<open>import { a as b } from "x"\<close> it is \<open>a\<close>. For a re-export \<open>export { a as b } from "x"\<close> it is \<open>b\<close>, the
  name under which the file exports it, which need not exist in \<open>x\<close>.\<close>
theorem reexport_names:
  "map EdgeNames (List.map_filter edge_of (visitImportDeclaration w (import_renamed a b x))) = [[a]]
   \<and> map EdgeNames (List.map_filter edge_of (visitExportDeclaration w (export_renamed a b x))) = [[b]]"
proof -
  have names: "EdgeNames (specifier_edge w n t ns d s) = ns" for n t ns d s
    by (auto simp: specifier_edge_def Let_def split: option.split)
  show ?thesis
    by (simp add: visitImportDeclaration_def visitExportDeclaration_def import_renamed_def export_renamed_def renamed_def
        exported_names_def importedNames_def imported_name_def child_def child_list_def child_nodes_def leaf_def
        text_of_child_def is_string_literal_like_def List.map_filter_def names)
qed

end
