(* ===== verification/PathRewriteTransform.thy ===== *)
theory PathRewriteTransform
  imports GraphTransform
begin

text \<open>
  \<open>tsc/internal/tscp/pathrewrite/transformer.go\<close>: the visitor that offers every module specifier of a
  file to a rewriter. The rewriter is a function of the syntactic construct, the specifier's node
  and its text, for one source file and one pipeline; its result is the replacement and whether a
  change is asked for. Trees are those of \<open>ParisTransform\<close>; original nodes and ranges are not
  represented.
\<close>

datatype SpecifierSyntax =
    SyntaxImportDeclaration | SyntaxSideEffectImport | SyntaxExportDeclaration | SyntaxImportCall
  | SyntaxImportEquals | SyntaxImportType | SyntaxRequireCall

type_synonym rewriter = "SpecifierSyntax \<Rightarrow> node \<Rightarrow> string \<Rightarrow> string \<times> bool"

definition Identity :: rewriter where
  "Identity syntax n specifier = (specifier, False)"

definition rewriteSpecifier :: "rewriter \<Rightarrow> SpecifierSyntax \<Rightarrow> node \<Rightarrow> node" where
  "rewriteSpecifier R syntax n =
     (if kind_of n \<noteq> KindStringLiteral then n
      else (case R syntax n (text_of n) of
              (replacement, change) \<Rightarrow>
                (if \<not> change \<or> replacement = text_of n then n else leaf KindStringLiteral replacement)))"

text \<open>Replacing the node in a slot, and the first node of a list.\<close>

fun map_child_slot :: "(node \<Rightarrow> node) \<Rightarrow> slot \<Rightarrow> slot" where
  "map_child_slot f (Child (Some m)) = Child (Some (f m))"
| "map_child_slot f s = s"

fun map_first_slot :: "(node \<Rightarrow> node) \<Rightarrow> slot \<Rightarrow> slot" where
  "map_first_slot f (Children (Some (m # ms))) = Children (Some (f m # ms))"
| "map_first_slot f s = s"

definition map_slot :: "nat \<Rightarrow> (slot \<Rightarrow> slot) \<Rightarrow> node \<Rightarrow> node" where
  "map_slot i f n =
     (if i < length (slots_of n) then Node (kind_of n) (text_of n) ((slots_of n)[i := f (slots_of n ! i)]) else n)"

abbreviation (input) "map_child i f \<equiv> map_slot i (map_child_slot f)"
abbreviation (input) "map_first i f \<equiv> map_slot i (map_first_slot f)"

abbreviation (input) KindImportType :: kind where "KindImportType \<equiv> KindOther ''ImportType''"
abbreviation (input) KindLiteralType :: kind where "KindLiteralType \<equiv> KindOther ''LiteralType''"

text \<open>Slots of an import type: argument, attributes, qualifier, type arguments; of a literal type: literal.\<close>

definition IsLiteralImportTypeNode :: "node \<Rightarrow> bool" where
  "IsLiteralImportTypeNode n \<longleftrightarrow>
     kind_of n = KindImportType
     \<and> (case child 0 n of
          Some argument \<Rightarrow>
            kind_of argument = KindLiteralType
            \<and> (case child 0 argument of Some literal \<Rightarrow> kind_of literal = KindStringLiteral | None \<Rightarrow> False)
        | None \<Rightarrow> False)"

text \<open>What is done to a node once its children have been visited (for a declaration: at once).\<close>

definition rewrite_node :: "rewriter \<Rightarrow> node \<Rightarrow> node" where
  "rewrite_node R n =
     (if kind_of n = KindImportDeclaration then
        map_child 2 (rewriteSpecifier R (if child 1 n = None then SyntaxSideEffectImport else SyntaxImportDeclaration)) n
      else if kind_of n = KindExportDeclaration then map_child 2 (rewriteSpecifier R SyntaxExportDeclaration) n
      else if kind_of n = KindImportEquals then
        (case child 2 n of
           Some ref \<Rightarrow>
             (if kind_of ref = KindExternalModuleReference
              then map_child 2 (map_child 0 (rewriteSpecifier R SyntaxImportEquals)) n else n)
         | None \<Rightarrow> n)
      else if kind_of n = KindImportType then
        (if IsLiteralImportTypeNode n then map_child 0 (map_child 0 (rewriteSpecifier R SyntaxImportType)) n else n)
      else if kind_of n = KindCallExpression then
        (if IsImportCall n \<and> child_nodes 3 n \<noteq> [] then map_first 3 (rewriteSpecifier R SyntaxImportCall) n
         else if IsRequireCall n then map_first 3 (rewriteSpecifier R SyntaxRequireCall) n
         else n)
      else n)"

function rewrite :: "rewriter \<Rightarrow> node \<Rightarrow> node"
  and rewrite_slot :: "rewriter \<Rightarrow> slot \<Rightarrow> slot" where
  "rewrite R n =
     rewrite_node R (if descends n then Node (kind_of n) (text_of n) (map (rewrite_slot R) (slots_of n)) else n)"
| "rewrite_slot R (Child c) = Child (case c of Some n \<Rightarrow> Some (rewrite R n) | None \<Rightarrow> None)"
| "rewrite_slot R (Embedded c) = Embedded (case c of Some n \<Rightarrow> Some (rewrite R n) | None \<Rightarrow> None)"
| "rewrite_slot R (Children c) = Children (case c of Some ns \<Rightarrow> Some (map (rewrite R) ns) | None \<Rightarrow> None)"
  by pat_completeness auto
termination
  by (relation "measure (\<lambda>x. case x of Inl (_, n) \<Rightarrow> size n | Inr (_, s) \<Rightarrow> size s)")
    (auto simp: slot_size_node dest: size_list_estimation' [where f = size, OF _ order_refl])

declare rewrite.simps [simp del]

section \<open>Kinds and texts stay\<close>

definition rewrite_each :: "rewriter \<Rightarrow> node \<Rightarrow> node" where
  "rewrite_each R n = Node (kind_of n) (text_of n) (map (rewrite_slot R) (slots_of n))"

lemma rewrite_eq: "rewrite R n = rewrite_node R (if descends n then rewrite_each R n else n)"
  by (simp add: rewrite.simps [of R n] rewrite_each_def)

lemma map_slot_simps [simp]:
  "kind_of (map_slot i f n) = kind_of n" "text_of (map_slot i f n) = text_of n"
  "length (slots_of (map_slot i f n)) = length (slots_of n)"
  by (simp_all add: map_slot_def)

lemma rewrite_node_simps [simp]: "kind_of (rewrite_node R n) = kind_of n" "text_of (rewrite_node R n) = text_of n"
  by (auto simp: rewrite_node_def split: option.split)

lemma rewrite_each_simps [simp]:
  "kind_of (rewrite_each R n) = kind_of n" "text_of (rewrite_each R n) = text_of n"
  "slots_of (rewrite_each R n) = map (rewrite_slot R) (slots_of n)"
  by (simp_all add: rewrite_each_def)

lemma rewrite_kind [simp]: "kind_of (rewrite R n) = kind_of n" "text_of (rewrite R n) = text_of n"
  by (simp_all add: rewrite_eq)

lemma descends_kind: "kind_of m = kind_of n \<Longrightarrow> descends m = descends n"
  by (simp add: descends_def)

section \<open>Where the specifier of a node is\<close>

datatype site = Direct nat | Nested nat nat | FirstOf nat

fun map_site :: "site \<Rightarrow> (node \<Rightarrow> node) \<Rightarrow> node \<Rightarrow> node" where
  "map_site (Direct i) f n = map_child i f n"
| "map_site (Nested i j) f n = map_child i (map_child j f) n"
| "map_site (FirstOf i) f n = map_first i f n"

definition specifier_site :: "node \<Rightarrow> (site \<times> SpecifierSyntax) option" where
  "specifier_site n =
     (if kind_of n = KindImportDeclaration then
        Some (Direct 2, if child 1 n = None then SyntaxSideEffectImport else SyntaxImportDeclaration)
      else if kind_of n = KindExportDeclaration then Some (Direct 2, SyntaxExportDeclaration)
      else if kind_of n = KindImportEquals then
        (case child 2 n of
           Some ref \<Rightarrow>
             (if kind_of ref = KindExternalModuleReference then Some (Nested 2 0, SyntaxImportEquals) else None)
         | None \<Rightarrow> None)
      else if kind_of n = KindImportType then
        (if IsLiteralImportTypeNode n then Some (Nested 0 0, SyntaxImportType) else None)
      else if kind_of n = KindCallExpression then
        (if IsImportCall n \<and> child_nodes 3 n \<noteq> [] then Some (FirstOf 3, SyntaxImportCall)
         else if IsRequireCall n then Some (FirstOf 3, SyntaxRequireCall)
         else None)
      else None)"

lemma rewrite_node_site:
  "rewrite_node R n =
     (case specifier_site n of None \<Rightarrow> n | Some (st, syntax) \<Rightarrow> map_site st (rewriteSpecifier R syntax) n)"
  by (auto simp: rewrite_node_def specifier_site_def split: option.split)

lemma map_slot_id: "f (slots_of n ! i) = slots_of n ! i \<Longrightarrow> map_slot i f n = n"
  by (cases n) (simp add: map_slot_def)

lemma map_slot_twice: "map_slot i f (map_slot i g n) = map_slot i (f \<circ> g) n"
  by (cases n) (simp add: map_slot_def)

lemma map_slot_cong:
  "(i < length (slots_of n) \<Longrightarrow> f (slots_of n ! i) = g (slots_of n ! i)) \<Longrightarrow> map_slot i f n = map_slot i g n"
  by (simp add: map_slot_def)

lemma map_child_slot_id: "(\<And>m. f m = m) \<Longrightarrow> map_child_slot f s = s"
  by (cases "(f, s)" rule: map_child_slot.cases) simp_all

lemma map_first_slot_id: "(\<And>m. f m = m) \<Longrightarrow> map_first_slot f s = s"
  by (cases "(f, s)" rule: map_first_slot.cases) simp_all

lemma map_site_id: "(\<And>m. f m = m) \<Longrightarrow> map_site st f n = n"
  by (cases st) (simp_all add: map_slot_id map_child_slot_id map_first_slot_id)

text \<open>A rewriter that never asks for a change leaves every tree as it is.\<close>
theorem rewrite_identity: "rewrite Identity n = n"
proof -
  have node: "rewrite_node Identity m = m" for m
    by (auto simp: rewrite_node_site rewriteSpecifier_def Identity_def map_site_id split: option.split)
  have "R = Identity \<Longrightarrow> rewrite R n = n" and "R = Identity \<Longrightarrow> rewrite_slot R s = s" for R n s
  proof (induction R n and R s rule: rewrite_rewrite_slot.induct)
    case (1 R n)
    have "map (rewrite_slot R) (slots_of n) = slots_of n" if "descends n"
      using 1 that by (intro map_idI) blast
    then show ?case using 1(2) by (cases n; cases "descends n") (simp_all add: rewrite.simps [of Identity] node)
  qed (auto split: option.split intro: map_idI)
  then show ?thesis by blast
qed

section \<open>Trees whose string literals are leaves\<close>

definition leaf_ok :: "node \<Rightarrow> bool" where
  "leaf_ok n \<longleftrightarrow> (if kind_of n = KindStringLiteral then slots_of n = [] else True)"

function leaf_literals :: "node \<Rightarrow> bool" where
  "leaf_literals n \<longleftrightarrow> leaf_ok n \<and> list_all leaf_literals (subnodes n)"
  by pat_completeness auto
termination
  by (relation "measure size") (auto simp: subnodes_size)

declare leaf_literals.simps [simp del]

definition leaf_slot :: "slot \<Rightarrow> bool" where
  "leaf_slot s \<longleftrightarrow> list_all leaf_literals (slot_nodes s)"

lemma leaf_literals_iff: "leaf_literals n \<longleftrightarrow> leaf_ok n \<and> list_all leaf_slot (slots_of n)"
  unfolding leaf_literals.simps [of n] by (auto simp: subnodes_def leaf_slot_def list_all_iff)

lemma leaf_literals_leaf [simp]: "leaf_literals (leaf k t)"
  by (simp add: leaf_literals_iff leaf_def leaf_ok_def)

lemma rewriteSpecifier_leaf: "leaf_literals n \<Longrightarrow> leaf_literals (rewriteSpecifier R syntax n)"
  by (auto simp: rewriteSpecifier_def split: prod.splits)

lemma map_slot_leaf:
  assumes "leaf_literals n" "\<And>s. leaf_slot s \<Longrightarrow> leaf_slot (f s)"
  shows "leaf_literals (map_slot i f n)"
proof (cases "i < length (slots_of n)")
  case True
  have "slots_of n \<noteq> []" using True by auto
  with True assms show ?thesis
    by (auto simp: leaf_literals_iff map_slot_def leaf_ok_def list_all_length nth_list_update)
qed (use assms in \<open>simp add: map_slot_def\<close>)

lemma map_child_slot_leaf: "leaf_slot s \<Longrightarrow> (\<And>m. leaf_literals m \<Longrightarrow> leaf_literals (f m)) \<Longrightarrow> leaf_slot (map_child_slot f s)"
  by (cases "(f, s)" rule: map_child_slot.cases) (simp_all add: leaf_slot_def)

lemma map_first_slot_leaf: "leaf_slot s \<Longrightarrow> (\<And>m. leaf_literals m \<Longrightarrow> leaf_literals (f m)) \<Longrightarrow> leaf_slot (map_first_slot f s)"
  by (cases "(f, s)" rule: map_first_slot.cases) (simp_all add: leaf_slot_def)

lemma rewrite_node_leaf: "leaf_literals n \<Longrightarrow> leaf_literals (rewrite_node R n)"
proof -
  have "leaf_literals (map_site st (rewriteSpecifier R sx) n)" if "leaf_literals n" for st sx
    using that by (cases st)
      (auto intro!: map_slot_leaf map_child_slot_leaf map_first_slot_leaf rewriteSpecifier_leaf)
  then show "leaf_literals n \<Longrightarrow> ?thesis" by (auto simp: rewrite_node_site split: option.split)
qed

lemma rewrite_leaf:
  "leaf_literals n \<Longrightarrow> leaf_literals (rewrite R n)" "leaf_slot s \<Longrightarrow> leaf_slot (rewrite_slot R s)"
proof (induction R n and R s rule: rewrite_rewrite_slot.induct)
  case (1 R n)
  have "leaf_literals (rewrite_each R n)" if "descends n"
    using 1 that by (auto simp: leaf_literals_iff leaf_ok_def list_all_iff)
  with 1(2) show ?case by (simp add: rewrite_eq rewrite_node_leaf)
qed (auto simp: leaf_slot_def list_all_iff split: option.splits)

section \<open>Two rewriters\<close>

text \<open>The rewriter that asks the first and then, for what it answers, the second.\<close>

definition then_rewriter :: "rewriter \<Rightarrow> rewriter \<Rightarrow> rewriter" where
  "then_rewriter R R' sx n specifier = (text_of (rewriteSpecifier R' sx (rewriteSpecifier R sx n)), True)"

lemma rewriteSpecifier_kind [simp]: "kind_of (rewriteSpecifier R sx n) = kind_of n"
  by (auto simp: rewriteSpecifier_def leaf_def split: prod.split)

lemma literal_eq: "leaf_literals n \<Longrightarrow> kind_of n = KindStringLiteral \<Longrightarrow> n = leaf KindStringLiteral (text_of n)"
  by (cases n) (simp add: leaf_literals_iff leaf_ok_def leaf_def)

lemma rewriteSpecifier_then:
  assumes "leaf_literals n"
  shows "rewriteSpecifier R' sx (rewriteSpecifier R sx n) = rewriteSpecifier (then_rewriter R R') sx n"
proof (cases "kind_of n = KindStringLiteral")
  case True
  let ?l = "rewriteSpecifier R' sx (rewriteSpecifier R sx n)" and ?r = "rewriteSpecifier (then_rewriter R R') sx n"
  have "text_of ?r = text_of ?l"
    using True by (simp add: rewriteSpecifier_def [of "then_rewriter R R'"] then_rewriter_def leaf_def)
  moreover have "leaf_literals ?l" "leaf_literals ?r" "kind_of ?l = KindStringLiteral" "kind_of ?r = KindStringLiteral"
    using assms True by (simp_all add: rewriteSpecifier_leaf)
  ultimately show ?thesis using literal_eq by metis
qed (simp add: rewriteSpecifier_def)

text \<open>Visiting and rewriting a specifier commute.\<close>

lemma rewrite_literal: "leaf_literals n \<Longrightarrow> kind_of n = KindStringLiteral \<Longrightarrow> rewrite R n = n"
  by (cases n) (auto simp: leaf_literals_iff leaf_ok_def rewrite_eq rewrite_each_def rewrite_node_def)

lemma rewrite_specifier:
  assumes "leaf_literals n"
  shows "rewrite R' (rewriteSpecifier R sx n) = rewriteSpecifier R sx (rewrite R' n)"
proof (cases "kind_of n = KindStringLiteral")
  case True
  then show ?thesis
    using rewrite_literal [OF assms True] rewrite_literal [OF rewriteSpecifier_leaf [OF assms]] by simp
next
  case False
  then show ?thesis by (simp add: rewriteSpecifier_def)
qed

lemma child_each: "child i (rewrite_each R n) = map_option (rewrite R) (child i n)"
  by (cases "i < length (slots_of n)"; cases "slots_of n ! i") (auto simp: child_def split: option.split)

lemma child_nodes_each: "child_nodes i (rewrite_each R n) = map (rewrite R) (child_nodes i n)"
  by (cases "i < length (slots_of n)"; cases "slots_of n ! i")
    (auto simp: child_nodes_def child_list_def split: option.split)

lemma text_of_child_each: "text_of_child i (rewrite_each R n) = text_of_child i n"
  by (simp add: text_of_child_def child_each option.case_eq_if option.map_sel)

lemma rewrite_plain:
  "kind_of n = KindImportMeta \<or> kind_of n = KindLiteralType \<Longrightarrow> rewrite R n = rewrite_each R n"
  by (auto simp: rewrite_eq rewrite_node_def descends_def)

lemma literal_like_rewrite: "is_string_literal_like (rewrite R n) = is_string_literal_like n"
  by (simp add: is_string_literal_like_def)

lemma IsImportCall_each: "IsImportCall (rewrite_each R n) = IsImportCall n"
  by (auto simp: IsImportCall_def child_each rewrite_plain text_of_child_each split: option.split)

lemma IsRequireCall_each: "IsRequireCall (rewrite_each R n) = IsRequireCall n"
  by (auto simp: IsRequireCall_def child_each child_nodes_each literal_like_rewrite split: option.split)

lemma IsLiteralImportTypeNode_each: "IsLiteralImportTypeNode (rewrite_each R n) = IsLiteralImportTypeNode n"
  by (auto simp: IsLiteralImportTypeNode_def child_each rewrite_plain split: option.split)

lemma site_each: "descends n \<Longrightarrow> specifier_site (rewrite_each R n) = specifier_site n"
  by (simp add: specifier_site_def descends_def IsImportCall_each IsRequireCall_each IsLiteralImportTypeNode_each
      child_nodes_each)

lemma map_slot_each:
  "(i < length (slots_of n) \<Longrightarrow> rewrite_slot R (f (slots_of n ! i)) = f' (rewrite_slot R (slots_of n ! i))) \<Longrightarrow>
     rewrite_each R (map_slot i f n) = map_slot i f' (rewrite_each R n)"
  by (simp add: rewrite_each_def map_slot_def map_update)

lemma map_child_each:
  assumes "\<And>m. leaf_literals m \<Longrightarrow> rewrite R (f m) = f' (rewrite R m)" "leaf_slot s"
  shows "rewrite_slot R (map_child_slot f s) = map_child_slot f' (rewrite_slot R s)"
  using assms by (cases "(f, s)" rule: map_child_slot.cases) (auto simp: leaf_slot_def split: option.split)

lemma map_first_each:
  assumes "\<And>m. leaf_literals m \<Longrightarrow> rewrite R (f m) = f' (rewrite R m)" "leaf_slot s"
  shows "rewrite_slot R (map_first_slot f s) = map_first_slot f' (rewrite_slot R s)"
  using assms by (cases "(f, s)" rule: map_first_slot.cases) (auto simp: leaf_slot_def split: option.split)

lemma rewrite_map_child:
  assumes "leaf_literals n" "kind_of n = KindLiteralType"
  shows "rewrite R' (map_child 0 (rewriteSpecifier R sx) n) = map_child 0 (rewriteSpecifier R sx) (rewrite R' n)"
proof -
  have "rewrite_each R' (map_child 0 (rewriteSpecifier R sx) n) = map_child 0 (rewriteSpecifier R sx) (rewrite_each R' n)"
    by (rule map_slot_each, rule map_child_each) (use assms in \<open>simp_all add: rewrite_specifier leaf_literals_iff list_all_length\<close>)
  then show ?thesis using assms(2) by (simp add: rewrite_plain)
qed

text \<open>Only the argument of an import type and of a call are visited at all.\<close>

lemma site_commute:
  assumes "leaf_literals n" "specifier_site n = Some (st, sx)" "descends n"
  shows "rewrite_each R' (map_site st (rewriteSpecifier R sx) n) = map_site st (rewriteSpecifier R sx) (rewrite_each R' n)"
proof -
  have leaf: "leaf_slot (slots_of n ! i)" if "i < length (slots_of n)" for i
    using assms(1) that by (simp add: leaf_literals_iff list_all_length)
  consider (Type) "IsLiteralImportTypeNode n" "st = Nested 0 0" | (Call) "st = FirstOf 3"
    using assms(2,3) by (auto simp: specifier_site_def descends_def split: if_splits)
  then show ?thesis
  proof cases
    case Type
    show ?thesis
    proof (cases "0 < length (slots_of n)")
      case True
      have "rewrite_slot R' (map_child_slot (map_child 0 (rewriteSpecifier R sx)) (slots_of n ! 0))
        = map_child_slot (map_child 0 (rewriteSpecifier R sx)) (rewrite_slot R' (slots_of n ! 0))"
        using Type(1) leaf [OF True] True
        by (cases "slots_of n ! 0")
          (auto simp: IsLiteralImportTypeNode_def child_def leaf_slot_def rewrite_map_child split: option.splits)
      then show ?thesis unfolding Type(2) map_site.simps by (intro map_slot_each)
    qed (simp add: Type(2) map_slot_def rewrite_each_def)
  next
    case Call
    then show ?thesis unfolding Call map_site.simps
      by (intro map_slot_each map_first_each) (simp_all add: rewrite_specifier leaf)
  qed
qed

text \<open>Rewriting a specifier does not change where it is.\<close>

lemma map_child_slot_Child [simp]: "map_child_slot f (Child c) = Child (map_option f c)"
  by (cases c) simp_all

lemma child_map_slot:
  "child j (map_child i f n) = (if i = j then (case slots_of n ! i of Child c \<Rightarrow> map_option f (child j n) | _ \<Rightarrow> child j n) else child j n)"
  by (cases "i < length (slots_of n)"; cases "slots_of n ! i")
    (auto simp: child_def map_slot_def nth_list_update split: option.split)

lemma map_first_keeps:
  "child j (map_first i f n) = child j n"
  "length (child_nodes j (map_first i f n)) = length (child_nodes j n)"
  by (cases "i < length (slots_of n)"; cases "(f, slots_of n ! i)" rule: map_first_slot.cases;
      auto simp: child_def child_nodes_def child_list_def map_slot_def nth_list_update)+

lemma map_first_arg:
  "(\<And>m. kind_of (f m) = kind_of m) \<Longrightarrow> kind_of (child_nodes j (map_first i f n) ! 0) = kind_of (child_nodes j n ! 0)"
  by (cases "i < length (slots_of n)"; cases "(f, slots_of n ! i)" rule: map_first_slot.cases;
      auto simp: child_def child_nodes_def child_list_def map_slot_def nth_list_update)

lemma site_map:
  assumes "specifier_site n = Some (st, sx)"
  shows "specifier_site (map_site st (rewriteSpecifier R sx) n) = specifier_site n"
proof -
  consider (Decl) "kind_of n = KindImportDeclaration \<or> kind_of n = KindExportDeclaration" "st = Direct 2"
    | (Equals) ref where "kind_of n = KindImportEquals" "child 2 n = Some ref"
        "kind_of ref = KindExternalModuleReference" "st = Nested 2 0"
    | (Type) "kind_of n = KindImportType" "IsLiteralImportTypeNode n" "st = Nested 0 0"
    | (Call) "kind_of n = KindCallExpression" "st = FirstOf 3"
    using assms by (auto simp: specifier_site_def split: if_splits option.splits)
  then show ?thesis
  proof cases
    case Decl
    have "child 1 (map_child 2 (rewriteSpecifier R sx) n) = child 1 n" by (simp add: child_map_slot)
    with Decl show ?thesis by (elim disjE) (simp_all add: specifier_site_def)
  next
    case Equals
    then show ?thesis by (auto simp: specifier_site_def child_map_slot split: slot.split)
  next
    case Type
    have inner: "\<exists>l. child 0 (map_child 0 (rewriteSpecifier R sx) m) = Some l \<and> kind_of l = KindStringLiteral"
      if "child 0 m = Some l'" "kind_of l' = KindStringLiteral" for m l'
      using that by (cases "slots_of m ! 0") (simp_all add: child_map_slot)
    obtain a l where a: "child 0 n = Some a" "kind_of a = KindLiteralType" "child 0 a = Some l"
      "kind_of l = KindStringLiteral"
      using Type(2) by (auto simp: IsLiteralImportTypeNode_def split: option.splits)
    obtain l' where "child 0 (map_child 0 (rewriteSpecifier R sx) a) = Some l'" "kind_of l' = KindStringLiteral"
      using inner [OF a(3,4)] by blast
    then have "IsLiteralImportTypeNode (map_site st (rewriteSpecifier R sx) n)"
      using Type a by (cases "slots_of n ! 0") (simp_all add: IsLiteralImportTypeNode_def child_map_slot)
    with Type show ?thesis by (simp add: specifier_site_def)
  next
    case Call
    let ?m = "map_first 3 (rewriteSpecifier R sx) n"
    have "IsImportCall ?m = IsImportCall n" by (simp add: IsImportCall_def map_first_keeps)
    moreover have "child_nodes 3 ?m = [] \<longleftrightarrow> child_nodes 3 n = []"
      using map_first_keeps(2) [of 3 3 "rewriteSpecifier R sx" n] by (metis length_0_conv)
    moreover have "kind_of (child_nodes 3 ?m ! 0) = kind_of (child_nodes 3 n ! 0)"
      by (rule map_first_arg) simp
    then have "IsRequireCall ?m = IsRequireCall n"
      unfolding IsRequireCall_def is_string_literal_like_def map_first_keeps by simp
    ultimately show ?thesis using Call by (simp add: specifier_site_def)
  qed
qed

section \<open>Composition\<close>

text \<open>Two rewriters at one site are the composed rewriter there, on trees whose literals are leaves.\<close>

lemma map_site_then:
  assumes "leaf_literals n"
  shows "map_site st (rewriteSpecifier R' sx) (map_site st (rewriteSpecifier R sx) n)
    = map_site st (rewriteSpecifier (then_rewriter R R') sx) n"
proof -
  have leaf: "leaf_slot (slots_of n ! i)" if "i < length (slots_of n)" for i
    using assms that by (simp add: leaf_literals_iff list_all_length)
  have child: "map_child_slot g (map_child_slot f s) = map_child_slot h s"
    if "leaf_slot s" "\<And>m. leaf_literals m \<Longrightarrow> g (f m) = h m" for f g h s
    using that by (cases "(f, s)" rule: map_child_slot.cases) (auto simp: leaf_slot_def)
  have first: "map_first_slot g (map_first_slot f s) = map_first_slot h s"
    if "leaf_slot s" "\<And>m. leaf_literals m \<Longrightarrow> g (f m) = h m" for f g h s
    using that by (cases "(f, s)" rule: map_first_slot.cases) (auto simp: leaf_slot_def)
  have inner: "map_child j (rewriteSpecifier R' sx) (map_child j (rewriteSpecifier R sx) m)
      = map_child j (rewriteSpecifier (then_rewriter R R') sx) m" if "leaf_literals m" for j m
    unfolding map_slot_twice
    using that by (intro map_slot_cong) (auto simp: leaf_literals_iff list_all_length intro!: child rewriteSpecifier_then)
  show ?thesis
    by (cases st)
      (auto simp: map_slot_twice leaf intro!: map_slot_cong child first inner rewriteSpecifier_then)
qed

lemma rewrite_node_then:
  assumes "leaf_literals n"
  shows "rewrite_node R' (rewrite_node R n) = rewrite_node (then_rewriter R R') n"
  using assms by (cases "specifier_site n") (auto simp: rewrite_node_site site_map map_site_then)

lemma rewrite_each_node:
  assumes "leaf_literals n" "descends n"
  shows "rewrite_each R' (rewrite_node R n) = rewrite_node R (rewrite_each R' n)"
  using assms by (cases "specifier_site n") (auto simp: rewrite_node_site site_each site_commute)

lemma rewrite_then_aux:
  "R = R1 \<Longrightarrow> leaf_literals n \<Longrightarrow> rewrite R2 (rewrite R n) = rewrite (then_rewriter R R2) n"
  "R = R1 \<Longrightarrow> leaf_slot s \<Longrightarrow> rewrite_slot R2 (rewrite_slot R s) = rewrite_slot (then_rewriter R R2) s"
proof (induction R n and R s rule: rewrite_rewrite_slot.induct)
  case (1 R n)
  have kd: "descends (rewrite_node R m) = descends m" for m by (rule descends_kind) simp
  show ?case
  proof (cases "descends n")
    case True
    have slots: "rewrite_slot R2 (rewrite_slot R s) = rewrite_slot (then_rewriter R R2) s" if "s \<in> set (slots_of n)" for s
      using 1 True that by (auto simp: leaf_literals_iff list_all_iff)
    have each: "rewrite_each R2 (rewrite_each R n) = rewrite_each (then_rewriter R R2) n"
      unfolding rewrite_each_def using slots by simp
    have leaf: "leaf_literals (rewrite_each R n)" "leaf_literals (rewrite_each (then_rewriter R R2) n)"
      using 1(3) rewrite_leaf(2) by (auto simp: leaf_literals_iff leaf_ok_def list_all_iff)
    have dm: "descends (rewrite_each R n)" using True descends_kind [of "rewrite_each R n" n] by simp
    show ?thesis
      using True by (simp add: rewrite_eq kd dm rewrite_each_node [OF leaf(1) dm] each rewrite_node_then [OF leaf(2)])
  next
    case False
    then show ?thesis using 1(3) by (simp add: rewrite_eq kd rewrite_node_then)
  qed
qed (auto simp: leaf_slot_def list_all_iff split: option.splits)


text \<open>\<open>import("a").then(...)\<close> in an argument of \<open>require\<close>-like calls, as a sample.\<close>

definition sample_call :: node where
  "sample_call =
     Node KindCallExpression []
       [Child (Some (leaf KindIdentifier ''f'')), Child None, Children None,
        Children (Some
          [Node KindCallExpression []
             [Child (Some (leaf KindImportKeyword [])), Child None, Children None,
              Children (Some [leaf KindStringLiteral ''a''])],
           leaf KindStringLiteral ''a''])]"

definition constant_rewriter :: "string \<Rightarrow> rewriter" where
  "constant_rewriter t sx n specifier = (t, True)"


end
