(* ===== verification/PureAnnotate.thy ===== *)
theory PureAnnotate
  imports Bouncer ParisTransform
begin

text \<open>
  \<open>tsc/internal/tscp/pure/pure.go\<close>: the annotation of calls that run when a module is evaluated.
  Adding a synthetic comment to a node does not change the tree, so the transformer is the list of
  the nodes it annotates, in the order in which it comes to them. Trees are those of
  \<open>ParisTransform\<close>, JSDoc tags those of \<open>Bouncer\<close>; \<open>jsdocs\<close> gives the comments of a statement's
  original in the parse tree.
\<close>

definition purePluginName :: string where "purePluginName = ''@conmoong/pure''"

definition PureEnabled :: "'n json \<Rightarrow> bool" where
  "PureEnabled raw \<longleftrightarrow> FindPluginEntry raw purePluginName \<noteq> None"

definition is_pure_tag :: "tag \<Rightarrow> bool" where
  "is_pure_tag t = (case t of JSDocUnknownTag name _ \<Rightarrow> name = Some ''pure'' | OtherTag \<Rightarrow> False)"

definition hasPureTag :: "jsdoc list \<Rightarrow> bool" where
  "hasPureTag docs = list_ex (\<lambda>doc. case doc of None \<Rightarrow> False | Some tags \<Rightarrow> list_ex is_pure_tag tags) docs"

definition is_call :: "node \<Rightarrow> bool" where
  "is_call n \<longleftrightarrow> kind_of n = KindCallExpression \<or> kind_of n = KindNewExpression"

definition runs_later :: "node \<Rightarrow> bool" where
  "runs_later n \<longleftrightarrow> is_function_like (kind_of n) \<or> is_class_like (kind_of n)"

text \<open>The closure \<open>walk\<close> of \<open>annotateSpine\<close>.\<close>

function annotateSpine :: "node \<Rightarrow> node list" where
  "annotateSpine n =
     (if runs_later n then [] else (if is_call n then [n] else []) @ concat (map annotateSpine (subnodes n)))"
  by pat_completeness auto
termination
  by (relation "measure size") (auto simp: subnodes_size)

declare annotateSpine.simps [simp del]

definition annotate_declarator :: "node \<Rightarrow> node list" where
  "annotate_declarator d = (case child 3 d of Some init \<Rightarrow> annotateSpine init | None \<Rightarrow> [])"

definition annotate_statement :: "(node \<Rightarrow> jsdoc list) \<Rightarrow> node \<Rightarrow> node list" where
  "annotate_statement jsdocs n =
     (if kind_of n = KindVariableStatement \<and> hasPureTag (jsdocs n)
      then concat (map annotate_declarator (variable_declarations n)) else [])"

text \<open>The visit of a source file, whose children are its statements.\<close>

definition annotate_file :: "(node \<Rightarrow> jsdoc list) \<Rightarrow> node \<Rightarrow> node list" where
  "annotate_file jsdocs sourceFile = concat (map (annotate_statement jsdocs) (subnodes sourceFile))"

section \<open>The spine\<close>

text \<open>\<open>on_spine n m\<close>: \<open>m\<close> is \<open>n\<close> or below it with no function or class on the way, both ends included.\<close>

inductive on_spine :: "node \<Rightarrow> node \<Rightarrow> bool" where
  Here: "\<not> runs_later n \<Longrightarrow> on_spine n n"
| Below: "\<not> runs_later n \<Longrightarrow> k \<in> set (subnodes n) \<Longrightarrow> on_spine k m \<Longrightarrow> on_spine n m"

lemma annotateSpine_iff: "m \<in> set (annotateSpine n) \<longleftrightarrow> is_call m \<and> on_spine n m"
proof (induction n rule: annotateSpine.induct)
  case (1 n)
  show ?case
  proof (cases "runs_later n")
    case True
    then show ?thesis by (auto simp: annotateSpine.simps [of n] elim: on_spine.cases)
  next
    case False
    then show ?thesis
      using 1 unfolding annotateSpine.simps [of n]
      by (auto intro: on_spine.intros elim: on_spine.cases)
  qed
qed

lemma annotate_declarator_iff:
  "m \<in> set (annotate_declarator d) \<longleftrightarrow> (\<exists>init. child 3 d = Some init \<and> is_call m \<and> on_spine init m)"
  by (cases "child 3 d") (simp_all add: annotate_declarator_def annotateSpine_iff)

lemma annotate_statement_iff:
  "m \<in> set (annotate_statement jsdocs n) \<longleftrightarrow>
     kind_of n = KindVariableStatement \<and> hasPureTag (jsdocs n)
     \<and> (\<exists>d\<in>set (variable_declarations n). m \<in> set (annotate_declarator d))"
  by (simp add: annotate_statement_def)

lemma annotate_file_statement:
  "m \<in> set (annotate_file jsdocs sourceFile) \<longleftrightarrow>
     (\<exists>statement\<in>set (subnodes sourceFile). m \<in> set (annotate_statement jsdocs statement))"
  by (simp add: annotate_file_def)

text \<open>What is annotated in a file is exactly the calls and \<open>new\<close> expressions on the spine of an initializer
  of a top-level variable statement with the tag \<open>@pure\<close>: nothing inside a function or class, nothing
  in another statement, and every other call.\<close>
theorem annotate_file_iff:
  "set (annotate_file jsdocs sourceFile) =
     {m. is_call m \<and> (\<exists>statement declaration initializer. statement \<in> set (subnodes sourceFile)
           \<and> kind_of statement = KindVariableStatement \<and> hasPureTag (jsdocs statement)
           \<and> declaration \<in> set (variable_declarations statement) \<and> child 3 declaration = Some initializer
           \<and> on_spine initializer m)}"
  by (intro set_eqI)
    (simp only: annotate_file_statement annotate_statement_iff annotate_declarator_iff mem_Collect_eq; blast)

text \<open>The expression a class extends is evaluated when the module is, but it belongs to the class
  expression, so a call there is not annotated, although the tag is documented to cover every call
  its statement's initialisers evaluate.\<close>
theorem heritage_call_not_annotated:
  "annotateSpine (Node (KindClassLike ''ClassExpression'') [] (Children (Some [heritage]) # members)) = []"
  by (simp add: annotateSpine.simps runs_later_def)

end
