(* ===== verification/SourceMapVLQ.thy ===== *)
theory SourceMapVLQ
  imports Prelude
begin

unbundle bit_operations_syntax

text \<open>
  The base64 VLQ numbers of \<open>sourcemap/generator.go\<close> (\<open>appendBase64VLQ\<close>, \<open>base64FormatEncode\<close>) and
  \<open>sourcemap/decoder.go\<close> (\<open>base64VLQFormatDecode\<close>, \<open>base64FormatDecode\<close>). Go's \<open>int\<close> has 64 bits: it is
  modelled by \<open>int\<close> with the wrap-around \<open>int64\<close> written out where a result can leave the range. The
  decoder reads from a position of the whole string, as the code does; the main result is that it
  reads back what the encoder wrote, for every number of fewer than 63 bits.
\<close>

section \<open>Go's int\<close>

definition int64 :: "int \<Rightarrow> int" where
  "int64 x = signed_take_bit 63 x"

definition add64 :: "int \<Rightarrow> int \<Rightarrow> int" where
  "add64 x y = int64 (x + y)"

definition sub64 :: "int \<Rightarrow> int \<Rightarrow> int" where
  "sub64 x y = int64 (x - y)"

lemma int64_id: "- (2 ^ 63) \<le> x \<Longrightarrow> x < 2 ^ 63 \<Longrightarrow> int64 x = x"
  by (simp add: int64_def signed_take_bit_int_eq_self)

lemma int64_range: "- (2 ^ 63) \<le> int64 x \<and> int64 x < 2 ^ 63"
  unfolding int64_def
  using signed_take_bit_int_greater_eq_minus_exp [of 63 x] signed_take_bit_int_less_exp [of 63 x] by simp

section \<open>Digits\<close>

definition base64FormatEncode :: "int \<Rightarrow> char panics" where
  "base64FormatEncode v =
     (if 0 \<le> v \<and> v < 26 then Some (char_of (byte (CHR ''A'') + nat v))
      else if 26 \<le> v \<and> v < 52 then Some (char_of (byte (CHR ''a'') + nat v - 26))
      else if 52 \<le> v \<and> v < 62 then Some (char_of (byte (CHR ''0'') + nat v - 52))
      else if v = 62 then Some (CHR ''+'')
      else if v = 63 then Some (CHR ''/'')
      else None)"

definition base64FormatDecode :: "char \<Rightarrow> int" where
  "base64FormatDecode ch =
     (if byte (CHR ''A'') \<le> byte ch \<and> byte ch \<le> byte (CHR ''Z'') then int (byte ch) - int (byte (CHR ''A''))
      else if byte (CHR ''a'') \<le> byte ch \<and> byte ch \<le> byte (CHR ''z'') then int (byte ch) - int (byte (CHR ''a'')) + 26
      else if byte (CHR ''0'') \<le> byte ch \<and> byte ch \<le> byte (CHR ''9'') then int (byte ch) - int (byte (CHR ''0'')) + 52
      else if ch = CHR ''+'' then 62
      else if ch = CHR ''/'' then 63
      else -1)"

text \<open>The loop of \<open>appendBase64VLQ\<close>, returning what it appends.\<close>

function vlq_digits :: "int \<Rightarrow> string panics" where
  "vlq_digits inValue =
     (let currentDigit = inValue AND 31; inValue' = drop_bit 5 inValue in
      if inValue' > 0
      then (case base64FormatEncode (currentDigit OR 32) of None \<Rightarrow> None
            | Some c \<Rightarrow> map_option ((#) c) (vlq_digits inValue'))
      else map_option (\<lambda>c. [c]) (base64FormatEncode currentDigit))"
  by pat_completeness auto
termination
proof (relation "measure nat", goal_cases)
  case (2 n d m)
  then have "n > 0" by (simp add: drop_bit_eq_div pos_imp_zdiv_pos_iff)
  moreover have "m < n" using 2 \<open>n > 0\<close> by (simp add: drop_bit_eq_div)
  ultimately show ?case by simp
qed simp

declare vlq_digits.simps [simp del]

definition appendBase64VLQ :: "int \<Rightarrow> string panics" where
  "appendBase64VLQ inValue =
     vlq_digits (if inValue < 0 then add64 (int64 (push_bit 1 (int64 (- inValue)))) 1
                 else int64 (push_bit 1 inValue))"

section \<open>Reading\<close>

text \<open>\<open>base64VLQFormatDecode\<close> from a position: the number, the position afterwards and the error.\<close>

function vlq_loop :: "string \<Rightarrow> nat \<Rightarrow> nat \<Rightarrow> int \<Rightarrow> (string + int) \<times> nat" where
  "vlq_loop mappings pos shiftCount v =
     (if pos \<ge> length mappings
      then (Inl ''Error in decoding base64VLQFormatDecode, past the mapping string'', pos)
      else
        (let currentByte = base64FormatDecode (mappings ! pos) in
         if currentByte = -1 then (Inl ''Invalid character in VLQ'', pos)
         else
           (let v = v OR int64 (push_bit shiftCount (currentByte AND 31)) in
            if currentByte AND 32 \<noteq> 0 then vlq_loop mappings (pos + 1) (shiftCount + 5) v
            else (Inr v, pos + 1))))"
  by pat_completeness auto
termination by (relation "measure (\<lambda>(mappings, pos, _, _). length mappings - pos)") auto

declare vlq_loop.simps [simp del]

definition vlq_number :: "int \<Rightarrow> int" where
  "vlq_number v = (if v AND 1 = 0 then drop_bit 1 v else int64 (- drop_bit 1 v))"

section \<open>Digits are read back\<close>

lemma base64FormatEncode_total: "0 \<le> v \<Longrightarrow> v < 64 \<Longrightarrow> \<exists>c. base64FormatEncode v = Some c"
  by (auto simp: base64FormatEncode_def)

lemma base64FormatDecode_encode:
  assumes "base64FormatEncode v = Some c"
  shows "base64FormatDecode c = v \<and> 0 \<le> v \<and> v < 64"
proof -
  have "list_all (\<lambda>v. map_option base64FormatDecode (base64FormatEncode v) = Some v) [0..63]"
    by code_simp
  moreover have "v \<in> set [0..63]"
    using assms by (auto simp: base64FormatEncode_def split: if_splits)
  ultimately have "map_option base64FormatDecode (base64FormatEncode v) = Some v"
    by (simp add: list_all_iff)
  with assms \<open>v \<in> set [0..63]\<close> show ?thesis by simp
qed

lemma five_bits: "(0::int) \<le> n AND 31 \<and> n AND 31 < 32"
proof -
  have "n AND 31 = take_bit 5 n" by (simp add: take_bit_eq_mask mask_eq_exp_minus_1)
  then show ?thesis by (simp add: take_bit_int_def)
qed

lemma more_bit:
  assumes "0 \<le> d" "d < (32::int)"
  shows "d AND 32 = 0" "d AND 31 = d" "(d OR 32) AND 32 \<noteq> 0" "(d OR 32) AND 31 = d" "d OR 32 < 64" "0 \<le> d OR 32"
proof -
  have "list_all (\<lambda>d. (d::int) AND 32 = 0 \<and> d AND 31 = d \<and> (d OR 32) AND 32 \<noteq> 0 \<and> (d OR 32) AND 31 = d
      \<and> d OR 32 < 64 \<and> 0 \<le> d OR 32) [0..31]"
    by code_simp
  moreover have "d \<in> set [0..31]" using assms by auto
  ultimately show "d AND 32 = 0" "d AND 31 = d" "(d OR 32) AND 32 \<noteq> 0" "(d OR 32) AND 31 = d"
    "d OR 32 < 64" "0 \<le> d OR 32"
    unfolding list_all_iff by blast+
qed

lemma vlq_digits_total: "\<exists>s. vlq_digits n = Some s \<and> s \<noteq> []"
proof (induction n rule: vlq_digits.induct)
  case (1 n)
  define d where "d = n AND 31"
  have d: "0 \<le> d" "d < 32" using five_bits [of n] by (simp_all add: d_def)
  obtain c c' where c: "base64FormatEncode d = Some c" "base64FormatEncode (d OR 32) = Some c'"
    using base64FormatEncode_total [of d] base64FormatEncode_total [of "d OR 32"] d more_bit(5,6) [OF d] by auto
  show ?case
    using 1 [OF d_def [unfolded d_def] refl] c unfolding vlq_digits.simps [of n]
    by (auto simp: Let_def d_def)
qed

lemma or_shifted:
  fixes v d :: int
  assumes "0 \<le> v" "v < 2 ^ k"
  shows "v OR push_bit k d = v + d * 2 ^ k"
proof -
  have "take_bit k v = v" using assms by (simp add: take_bit_int_eq_self)
  moreover have "take_bit k v AND push_bit k d = 0"
    by (rule bit_eqI) (simp add: bit_simps)
  ultimately have "v AND push_bit k d = 0" by simp
  then show ?thesis by (simp add: disjunctive_add_eq_or push_bit_eq_mult)
qed

text \<open>Reading the digits of \<open>n\<close> on top of the \<open>k\<close> bits read so far.\<close>

lemma vlq_loop_digits:
  assumes "vlq_digits n = Some s" "0 \<le> n" "n * 2 ^ k < 2 ^ 63" "0 \<le> v" "v < 2 ^ k"
  shows "vlq_loop (pre @ s @ rest) (length pre) k v = (Inr (v + n * 2 ^ k), length pre + length s)"
  using assms
proof (induction n arbitrary: s pre k v rule: vlq_digits.induct)
  case (1 n)
  define d n' where "d = n AND 31" and "n' = drop_bit 5 n"
  have n: "n = d + n' * 32" and d: "0 \<le> d" "d < 32" and n': "0 \<le> n'"
    using 1(3) five_bits [of n] take_bit_eq_mask [of 5 n] div_mult_mod_eq [of n 32]
    by (simp_all add: d_def n'_def drop_bit_eq_div mask_eq_exp_minus_1 take_bit_int_def)
  note bits = more_bit [OF d]
  have d63: "d * 2 ^ k < 2 ^ 63"
    using 1(4) n' by (simp add: n algebra_simps) (smt (verit, ccfv_SIG) mult_nonneg_nonneg zero_le_power)
  have v': "v OR int64 (push_bit k d) = v + d * 2 ^ k"
  proof -
    have "0 \<le> d * 2 ^ k" using d by simp
    then have "int64 (push_bit k d) = d * 2 ^ k" using d63 by (simp add: int64_id push_bit_eq_mult)
    then show ?thesis using or_shifted [OF 1(5,6), of d] by (simp add: push_bit_eq_mult)
  qed
  have range: "0 \<le> v + d * 2 ^ k" "v + d * 2 ^ k < 2 ^ (k + 5)"
  proof -
    show "0 \<le> v + d * 2 ^ k" using 1(5) d by simp
    have "d * 2 ^ k \<le> 31 * 2 ^ k" using d by (intro mult_right_mono) auto
    then have "v + d * 2 ^ k < 2 ^ k + 31 * 2 ^ k" using 1(6) by linarith
    also have "\<dots> = 2 ^ (k + 5)" by (simp add: power_add)
    finally show "v + d * 2 ^ k < 2 ^ (k + 5)" .
  qed
  show ?case
  proof (cases "n' > 0")
    case True
    then obtain c t where c: "base64FormatEncode (d OR 32) = Some c" "vlq_digits n' = Some t" "s = c # t"
      using 1(2) unfolding vlq_digits.simps [of n]
      by (auto simp: Let_def d_def n'_def split: option.splits)
    have "n * 2 ^ k = d * 2 ^ k + n' * 2 ^ (k + 5)" by (simp add: n power_add algebra_simps)
    moreover have "0 \<le> d * 2 ^ k" using d by simp
    ultimately have bound: "n' * 2 ^ (k + 5) < 2 ^ 63" using 1(4) by linarith
    note IH = "1.IH" [OF d_def n'_def True c(1) c(2) n' bound range, of "pre @ [c]"]
    obtain e where e: "base64FormatDecode c = e" "e \<noteq> -1" "e AND 32 \<noteq> 0" "e AND 31 = d"
      using base64FormatDecode_encode [OF c(1)] bits(3,4,6) by (metis order_trans not_one_le_zero neg_0_le_iff_le)
    then show ?thesis
      using IH v' unfolding vlq_loop.simps [of "pre @ s @ rest" "length pre" k v]
      by (simp add: c(3) nth_append Let_def n power_add algebra_simps)
  next
    case False
    then have "n' = 0" using n' by simp
    obtain c where c: "base64FormatEncode d = Some c" "s = [c]"
      using 1(2) False unfolding vlq_digits.simps [of n]
      by (auto simp: Let_def d_def n'_def split: option.splits)
    have "base64FormatDecode c = d" using base64FormatDecode_encode [OF c(1)] by simp
    then show ?thesis
      using bits v' d \<open>n' = 0\<close> unfolding vlq_loop.simps [of "pre @ s @ rest" "length pre" k v]
      by (simp add: c(2) nth_append Let_def n)
  qed
qed

definition encodable_number :: "int \<Rightarrow> bool" where
  "encodable_number v \<longleftrightarrow> - (2 ^ 62) < v \<and> v < 2 ^ 62"

text \<open>The number \<open>base64VLQFormatDecode\<close> returns, and its inverse.\<close>

lemma vlq_loop_number:
  assumes "appendBase64VLQ v = Some s" "encodable_number v"
  shows "\<exists>n. vlq_loop (pre @ s @ rest) (length pre) 0 0 = (Inr n, length pre + length s) \<and> vlq_number n = v"
proof -
  define n where "n = (if v < 0 then 2 * (- v) + 1 else 2 * v)"
  have s: "vlq_digits n = Some s" and n: "0 \<le> n" "n < 2 ^ 63"
    using assms by (auto simp: appendBase64VLQ_def encodable_number_def n_def add64_def int64_id push_bit_eq_mult
        mult.commute)
  have "vlq_loop (pre @ s @ rest) (length pre) 0 0 = (Inr n, length pre + length s)"
    using vlq_loop_digits [OF s n(1), of 0 0 pre rest] n by simp
  moreover have "vlq_number n = v"
  proof -
    have "n AND 1 = n mod 2" by (simp add: and_one_eq)
    moreover have "drop_bit 1 n = n div 2" by (simp add: drop_bit_eq_div)
    ultimately show ?thesis
      using assms(2) by (auto simp: vlq_number_def n_def encodable_number_def int64_id)
  qed
  ultimately show ?thesis by blast
qed

lemma appendBase64VLQ_total: "\<exists>s. appendBase64VLQ v = Some s \<and> s \<noteq> []"
  by (simp add: appendBase64VLQ_def vlq_digits_total del: ex_simps)

end
