(* ===== verification/SourceMapGenerator.thy ===== *)
theory SourceMapGenerator
  imports SourceMapVLQ PathCompare
begin

text \<open>
  \<open>sourcemap/generator.go\<close>: the state of a \<open>Generator\<close> and its operations. An operation that can
  fail returns \<open>Inl\<close> its error and then leaves the state as it is; a panic is \<open>None\<close>. The two lookup
  maps are \<open>\<rightharpoonup>\<close>; the builder of the mappings is the string written so far. A slice of
  optional strings stands for \<open>sourcesContent\<close>.
\<close>

record Generator =
  pathOptions :: ComparePathsOptions
  genFile :: string
  sourceRoot :: string
  sourcesDirectoryPath :: string
  rawSources :: "string list"
  sources :: "string list"
  sourceToSourceIndexMap :: "string \<rightharpoonup> int"
  sourcesContent :: "string option list"
  genNames :: "string list"
  nameToNameIndexMap :: "string \<rightharpoonup> int"
  mappings :: string
  lastGeneratedLine :: int
  lastGeneratedCharacter :: int
  lastSourceIndex :: int
  lastSourceLine :: int
  lastSourceCharacter :: int
  lastNameIndex :: int
  hasLast :: bool
  pendingGeneratedLine :: int
  pendingGeneratedCharacter :: int
  pendingSourceIndex :: int
  pendingSourceLine :: int
  pendingSourceCharacter :: int
  pendingNameIndex :: int
  hasPending :: bool
  hasPendingSource :: bool
  hasPendingName :: bool

record RawSourceMap =
  rawVersion :: int
  rawFile :: string
  rawSourceRoot :: string
  rawSourceList :: "string list"
  rawNames :: "string list"
  rawMappings :: string
  rawSourcesContent :: "string option list"

definition NewGenerator :: "string \<Rightarrow> string \<Rightarrow> string \<Rightarrow> ComparePathsOptions \<Rightarrow> Generator" where
  "NewGenerator file0 root directory options =
     \<lparr>pathOptions = options, genFile = file0, sourceRoot = root, sourcesDirectoryPath = directory,
      rawSources = [], sources = [], sourceToSourceIndexMap = Map.empty, sourcesContent = [],
      genNames = [], nameToNameIndexMap = Map.empty, mappings = [],
      lastGeneratedLine = 0, lastGeneratedCharacter = 0, lastSourceIndex = 0, lastSourceLine = 0,
      lastSourceCharacter = 0, lastNameIndex = 0, hasLast = False,
      pendingGeneratedLine = 0, pendingGeneratedCharacter = 0, pendingSourceIndex = 0, pendingSourceLine = 0,
      pendingSourceCharacter = 0, pendingNameIndex = 0, hasPending = False, hasPendingSource = False,
      hasPendingName = False\<rparr>"

section \<open>Sources and names\<close>

definition AddSource :: "unicode_tables \<Rightarrow> string \<Rightarrow> Generator \<Rightarrow> int \<times> Generator" where
  "AddSource U fileName g =
     (let source = GetRelativePathToDirectoryOrUrl U (sourcesDirectoryPath g) fileName True (pathOptions g) in
      case sourceToSourceIndexMap g source of
        Some sourceIndex \<Rightarrow> (sourceIndex, g)
      | None \<Rightarrow>
          (let sourceIndex = int (length (sources g)) in
           (sourceIndex,
            g\<lparr>sources := sources g @ [source], rawSources := rawSources g @ [fileName],
              sourceToSourceIndexMap := (sourceToSourceIndexMap g)(source \<mapsto> sourceIndex)\<rparr>)))"

definition pad_content :: "nat \<Rightarrow> string option list \<Rightarrow> string option list" where
  "pad_content n cs = cs @ replicate (n - length cs) None"

definition SetSourceContent :: "int \<Rightarrow> string \<Rightarrow> Generator \<Rightarrow> string option \<times> Generator" where
  "SetSourceContent sourceIndex content g =
     (if sourceIndex < 0 \<or> sourceIndex \<ge> int (length (sources g)) then (Some ''sourceIndex is out of range'', g)
      else (None, g\<lparr>sourcesContent :=
              (pad_content (Suc (nat sourceIndex)) (sourcesContent g))[nat sourceIndex := Some content]\<rparr>))"

definition AddName :: "string \<Rightarrow> Generator \<Rightarrow> int \<times> Generator" where
  "AddName name g =
     (case nameToNameIndexMap g name of
        Some nameIndex \<Rightarrow> (nameIndex, g)
      | None \<Rightarrow>
          (let nameIndex = int (length (genNames g)) in
           (nameIndex,
            g\<lparr>genNames := genNames g @ [name], nameToNameIndexMap := (nameToNameIndexMap g)(name \<mapsto> nameIndex)\<rparr>)))"

section \<open>Mappings\<close>

definition isNewGeneratedPosition :: "int \<Rightarrow> int \<Rightarrow> Generator \<Rightarrow> bool" where
  "isNewGeneratedPosition generatedLine generatedCharacter g \<longleftrightarrow>
     \<not> hasPending g \<or> pendingGeneratedLine g \<noteq> generatedLine \<or> pendingGeneratedCharacter g \<noteq> generatedCharacter"

definition isBacktrackingSourcePosition :: "int \<Rightarrow> int \<Rightarrow> int \<Rightarrow> Generator \<Rightarrow> bool" where
  "isBacktrackingSourcePosition sourceIndex sourceLine sourceCharacter g \<longleftrightarrow>
     sourceIndex \<noteq> -1 \<and> sourceLine \<noteq> -1 \<and> sourceCharacter \<noteq> -1
     \<and> pendingSourceIndex g = sourceIndex
     \<and> (pendingSourceLine g > sourceLine
        \<or> pendingSourceLine g = sourceLine \<and> pendingSourceCharacter g > sourceCharacter)"

definition shouldCommitMapping :: "Generator \<Rightarrow> bool" where
  "shouldCommitMapping g \<longleftrightarrow>
     hasPending g
     \<and> (\<not> hasLast g
        \<or> lastGeneratedLine g \<noteq> pendingGeneratedLine g
        \<or> lastGeneratedCharacter g \<noteq> pendingGeneratedCharacter g
        \<or> lastSourceIndex g \<noteq> pendingSourceIndex g
        \<or> lastSourceLine g \<noteq> pendingSourceLine g
        \<or> lastSourceCharacter g \<noteq> pendingSourceCharacter g
        \<or> lastNameIndex g \<noteq> pendingNameIndex g)"

text \<open>Writing one relative number, and the line and comma delimiters.\<close>

definition write_vlq :: "int \<Rightarrow> Generator \<Rightarrow> Generator panics" where
  "write_vlq v g = map_option (\<lambda>s. g\<lparr>mappings := mappings g @ s\<rparr>) (appendBase64VLQ v)"

definition write_delimiters :: "Generator \<Rightarrow> Generator panics" where
  "write_delimiters g =
     (if lastGeneratedLine g < pendingGeneratedLine g
      then Some (g\<lparr>mappings := mappings g @ replicate (nat (pendingGeneratedLine g - lastGeneratedLine g)) (CHR '';''),
                   lastGeneratedLine := pendingGeneratedLine g, lastGeneratedCharacter := 0\<rparr>)
      else if lastGeneratedLine g \<noteq> pendingGeneratedLine g then None
      else Some (if hasLast g then g\<lparr>mappings := mappings g @ '',''\<rparr> else g))"

definition write_name :: "Generator \<Rightarrow> Generator panics" where
  "write_name g =
     (if hasPendingName g
      then map_option (\<lambda>g. g\<lparr>lastNameIndex := pendingNameIndex g\<rparr>)
             (write_vlq (sub64 (pendingNameIndex g) (lastNameIndex g)) g)
      else Some g)"

definition write_source :: "Generator \<Rightarrow> Generator panics" where
  "write_source g =
     (if hasPendingSource g
      then Option.bind (write_vlq (sub64 (pendingSourceIndex g) (lastSourceIndex g)) g) (\<lambda>g.
           let g = g\<lparr>lastSourceIndex := pendingSourceIndex g\<rparr> in
           Option.bind (write_vlq (sub64 (pendingSourceLine g) (lastSourceLine g)) g) (\<lambda>g.
           let g = g\<lparr>lastSourceLine := pendingSourceLine g\<rparr> in
           Option.bind (write_vlq (sub64 (pendingSourceCharacter g) (lastSourceCharacter g)) g) (\<lambda>g.
           let g = g\<lparr>lastSourceCharacter := pendingSourceCharacter g\<rparr> in write_name g)))
      else Some g)"

definition commitPendingMapping :: "Generator \<Rightarrow> Generator panics" where
  "commitPendingMapping g =
     (if \<not> shouldCommitMapping g then Some g
      else
        Option.bind (write_delimiters g) (\<lambda>g.
        Option.bind (write_vlq (sub64 (pendingGeneratedCharacter g) (lastGeneratedCharacter g)) g) (\<lambda>g.
        let g = g\<lparr>lastGeneratedCharacter := pendingGeneratedCharacter g\<rparr> in
        map_option (\<lambda>g. g\<lparr>hasLast := True\<rparr>) (write_source g))))"

definition addMapping :: "int \<Rightarrow> int \<Rightarrow> int \<Rightarrow> int \<Rightarrow> int \<Rightarrow> int \<Rightarrow> Generator \<Rightarrow> Generator panics" where
  "addMapping generatedLine generatedCharacter sourceIndex sourceLine sourceCharacter nameIndex g =
     map_option
       (\<lambda>g. if sourceIndex \<noteq> -1 \<and> sourceLine \<noteq> -1 \<and> sourceCharacter \<noteq> -1
            then (let g = g\<lparr>pendingSourceIndex := sourceIndex, pendingSourceLine := sourceLine,
                           pendingSourceCharacter := sourceCharacter, hasPendingSource := True\<rparr>
                  in if nameIndex \<noteq> -1 then g\<lparr>pendingNameIndex := nameIndex, hasPendingName := True\<rparr> else g)
            else g)
       (if isNewGeneratedPosition generatedLine generatedCharacter g
           \<or> isBacktrackingSourcePosition sourceIndex sourceLine sourceCharacter g
        then map_option
               (\<lambda>g. g\<lparr>pendingGeneratedLine := generatedLine, pendingGeneratedCharacter := generatedCharacter,
                      hasPendingSource := False, hasPendingName := False, hasPending := True\<rparr>)
               (commitPendingMapping g)
        else Some g)"

text \<open>The exported operations: an error with the state unchanged, or the new state.\<close>

definition position_error :: "int \<Rightarrow> int \<Rightarrow> Generator \<Rightarrow> string option" where
  "position_error generatedLine generatedCharacter g =
     (if generatedLine < pendingGeneratedLine g then Some ''generatedLine cannot backtrack''
      else if generatedCharacter < 0 then Some ''generatedCharacter cannot be negative''
      else None)"

definition source_error :: "int \<Rightarrow> int \<Rightarrow> int \<Rightarrow> Generator \<Rightarrow> string option" where
  "source_error sourceIndex sourceLine sourceCharacter g =
     (if sourceIndex < 0 \<or> sourceIndex \<ge> int (length (sources g)) then Some ''sourceIndex is out of range''
      else if sourceLine < 0 then Some ''sourceLine cannot be negative''
      else if sourceCharacter < 0 then Some ''sourceCharacter cannot be negative''
      else None)"

definition AddGeneratedMapping :: "int \<Rightarrow> int \<Rightarrow> Generator \<Rightarrow> (string option \<times> Generator) panics" where
  "AddGeneratedMapping generatedLine generatedCharacter g =
     (case position_error generatedLine generatedCharacter g of
        Some e \<Rightarrow> Some (Some e, g)
      | None \<Rightarrow>
          map_option (\<lambda>g. (None, g\<lparr>hasPendingSource := False, hasPendingName := False\<rparr>))
            (addMapping generatedLine generatedCharacter (-1) (-1) (-1) (-1) g))"

definition keeps_generated :: "int \<Rightarrow> int \<Rightarrow> Generator \<Rightarrow> bool" where
  "keeps_generated generatedLine generatedCharacter g \<longleftrightarrow>
     hasPending g \<and> \<not> isNewGeneratedPosition generatedLine generatedCharacter g \<and> \<not> hasPendingSource g"

definition AddSourceMapping ::
  "int \<Rightarrow> int \<Rightarrow> int \<Rightarrow> int \<Rightarrow> int \<Rightarrow> Generator \<Rightarrow> (string option \<times> Generator) panics" where
  "AddSourceMapping generatedLine generatedCharacter sourceIndex sourceLine sourceCharacter g =
     (case position_error generatedLine generatedCharacter g of
        Some e \<Rightarrow> Some (Some e, g)
      | None \<Rightarrow>
          (case source_error sourceIndex sourceLine sourceCharacter g of
             Some e \<Rightarrow> Some (Some e, g)
           | None \<Rightarrow>
               if keeps_generated generatedLine generatedCharacter g then Some (None, g)
               else map_option (Pair None)
                      (addMapping generatedLine generatedCharacter sourceIndex sourceLine sourceCharacter (-1) g)))"

definition AddNamedSourceMapping ::
  "int \<Rightarrow> int \<Rightarrow> int \<Rightarrow> int \<Rightarrow> int \<Rightarrow> int \<Rightarrow> Generator \<Rightarrow> (string option \<times> Generator) panics" where
  "AddNamedSourceMapping generatedLine generatedCharacter sourceIndex sourceLine sourceCharacter nameIndex g =
     (case position_error generatedLine generatedCharacter g of
        Some e \<Rightarrow> Some (Some e, g)
      | None \<Rightarrow>
          (case source_error sourceIndex sourceLine sourceCharacter g of
             Some e \<Rightarrow> Some (Some e, g)
           | None \<Rightarrow>
               if nameIndex < 0 \<or> nameIndex \<ge> int (length (genNames g)) then Some (Some ''nameIndex is out of range'', g)
               else if keeps_generated generatedLine generatedCharacter g then Some (None, g)
               else map_option (Pair None)
                      (addMapping generatedLine generatedCharacter sourceIndex sourceLine sourceCharacter nameIndex g)))"

definition RawSourceMap_of :: "Generator \<Rightarrow> (RawSourceMap \<times> Generator) panics" where
  "RawSourceMap_of g =
     map_option
       (\<lambda>g. (\<lparr>rawVersion = 3, rawFile = genFile g, rawSourceRoot = sourceRoot g, rawSourceList = sources g,
              rawNames = genNames g, rawMappings = mappings g, rawSourcesContent = sourcesContent g\<rparr>, g))
       (commitPendingMapping g)"

end
