(* ===== verification/SourceMapDecoder.thy ===== *)
theory SourceMapDecoder
  imports SourceMapVLQ
begin

text \<open>
  \<open>sourcemap/decoder.go\<close>: the state of a \<open>MappingsDecoder\<close> and its iteration. \<open>Next\<close> returns the next
  mapping, or \<open>None\<close> when it is done; \<open>Values\<close> is the list of what it returns until then.
\<close>

record Mapping =
  GeneratedLine :: int
  GeneratedCharacter :: int
  SourceIndex :: int
  SourceLine :: int
  SourceCharacter :: int
  NameIndex :: int

definition IsSourceMapping :: "Mapping \<Rightarrow> bool" where
  "IsSourceMapping m \<longleftrightarrow> SourceIndex m \<noteq> -1 \<and> SourceLine m \<noteq> -1 \<and> SourceCharacter m \<noteq> -1"

record MappingsDecoder =
  text_of_mappings :: string
  finished :: bool
  position :: nat
  generatedLine :: int
  generatedCharacter :: int
  sourceIndex :: int
  sourceLine :: int
  sourceCharacter :: int
  nameIndex :: int
  decode_error :: "string option"

definition DecodeMappings :: "string \<Rightarrow> MappingsDecoder" where
  "DecodeMappings s =
     \<lparr>text_of_mappings = s, finished = False, position = 0, generatedLine = 0, generatedCharacter = 0,
      sourceIndex = 0, sourceLine = 0, sourceCharacter = 0, nameIndex = 0, decode_error = None\<rparr>"

definition captureMapping :: "bool \<Rightarrow> bool \<Rightarrow> MappingsDecoder \<Rightarrow> Mapping" where
  "captureMapping hasSource hasName d =
     \<lparr>GeneratedLine = generatedLine d, GeneratedCharacter = generatedCharacter d,
      SourceIndex = (if hasSource then sourceIndex d else -1),
      SourceLine = (if hasSource then sourceLine d else -1),
      SourceCharacter = (if hasSource then sourceCharacter d else -1),
      NameIndex = (if hasName then nameIndex d else -1)\<rparr>"

definition hasReportedError :: "MappingsDecoder \<Rightarrow> bool" where
  "hasReportedError d \<longleftrightarrow> decode_error d \<noteq> None"

definition stopIterating :: "MappingsDecoder \<Rightarrow> Mapping option \<times> MappingsDecoder" where
  "stopIterating d = (None, d\<lparr>finished := True\<rparr>)"

definition setErrorAndStopIterating :: "string \<Rightarrow> MappingsDecoder \<Rightarrow> Mapping option \<times> MappingsDecoder" where
  "setErrorAndStopIterating e d = stopIterating (d\<lparr>decode_error := Some e\<rparr>)"

definition isSourceMappingSegmentEnd :: "MappingsDecoder \<Rightarrow> bool" where
  "isSourceMappingSegmentEnd d \<longleftrightarrow>
     position d = length (text_of_mappings d)
     \<or> text_of_mappings d ! position d = CHR '','' \<or> text_of_mappings d ! position d = CHR '';''"

text \<open>On an error the code returns \<open>-1\<close>, which the caller still adds to its field.\<close>

definition base64VLQFormatDecode :: "MappingsDecoder \<Rightarrow> int \<times> MappingsDecoder" where
  "base64VLQFormatDecode d =
     (case vlq_loop (text_of_mappings d) (position d) 0 0 of
        (Inl e, p) \<Rightarrow> (-1, d\<lparr>position := p, decode_error := Some e\<rparr>)
      | (Inr v, p) \<Rightarrow> (vlq_number v, d\<lparr>position := p\<rparr>))"

text \<open>Reading one field, which the code repeats for each of the five: add the number to the field, stop on
  an error, and report a field that has become negative.\<close>

definition read_field ::
  "((int \<Rightarrow> int) \<Rightarrow> MappingsDecoder \<Rightarrow> MappingsDecoder) \<Rightarrow> (MappingsDecoder \<Rightarrow> int) \<Rightarrow> string \<Rightarrow> MappingsDecoder
   \<Rightarrow> (MappingsDecoder \<Rightarrow> Mapping option \<times> MappingsDecoder) \<Rightarrow> Mapping option \<times> MappingsDecoder" where
  "read_field update field invalid d continue =
     (let (v, d) = base64VLQFormatDecode d;
          d = update (\<lambda>x. add64 x v) d
      in if hasReportedError d then stopIterating d
         else if field d < 0 then setErrorAndStopIterating invalid d
         else continue d)"

definition read_segment :: "MappingsDecoder \<Rightarrow> Mapping option \<times> MappingsDecoder" where
  "read_segment d =
     read_field generatedCharacter_update generatedCharacter ''Invalid generatedCharacter found'' d (\<lambda>d.
       if isSourceMappingSegmentEnd d then (Some (captureMapping False False d), d)
       else
         read_field sourceIndex_update sourceIndex ''Invalid sourceIndex found'' d (\<lambda>d.
           if isSourceMappingSegmentEnd d
           then setErrorAndStopIterating ''Unsupported Format: No entries after sourceIndex'' d
           else
             read_field sourceLine_update sourceLine ''Invalid sourceLine found'' d (\<lambda>d.
               if isSourceMappingSegmentEnd d
               then setErrorAndStopIterating ''Unsupported Format: No entries after sourceLine'' d
               else
                 read_field sourceCharacter_update sourceCharacter ''Invalid sourceCharacter found'' d (\<lambda>d.
                   if isSourceMappingSegmentEnd d then (Some (captureMapping True False d), d)
                   else
                     read_field nameIndex_update nameIndex ''Invalid nameIndex found'' d (\<lambda>d.
                       if isSourceMappingSegmentEnd d then (Some (captureMapping True True d), d)
                       else setErrorAndStopIterating ''Unsupported Error Format: Entries after nameIndex'' d)))))"

function Next :: "MappingsDecoder \<Rightarrow> Mapping option \<times> MappingsDecoder" where
  "Next d =
     (if \<not> finished d \<and> position d < length (text_of_mappings d)
      then
        (let ch = text_of_mappings d ! position d in
         if ch = CHR '';''
         then Next (d\<lparr>generatedLine := generatedLine d + 1, generatedCharacter := 0, position := position d + 1\<rparr>)
         else if ch = CHR '','' then Next (d\<lparr>position := position d + 1\<rparr>)
         else read_segment d)
      else stopIterating d)"
  by pat_completeness auto
termination by (relation "measure (\<lambda>d. length (text_of_mappings d) - position d)") auto

declare Next.simps [simp del]

section \<open>Iteration ends\<close>

lemma vlq_loop_position: "vlq_loop s p k v = (r, q) \<Longrightarrow> p \<le> q \<and> (case r of Inl _ \<Rightarrow> True | Inr _ \<Rightarrow> p < q)"
proof (induction s p k v rule: vlq_loop.induct)
  case (1 s p k v)
  note IH = "1.IH" [OF _ refl _ refl]
  show ?case
    using "1.prems" IH unfolding vlq_loop.simps [of s p k v]
    by (cases "length s \<le> p"; cases "base64FormatDecode (s ! p) = -1"; cases "base64FormatDecode (s ! p) AND 32 = 0")
      (auto simp: Let_def split: sum.splits)
qed

text \<open>A continuation that keeps the text and does not go back.\<close>

definition advances :: "MappingsDecoder \<Rightarrow> MappingsDecoder \<Rightarrow> bool" where
  "advances d d' \<longleftrightarrow> text_of_mappings d' = text_of_mappings d \<and> position d \<le> position d'"

lemma advances_refl: "advances d d"
  by (simp add: advances_def)

lemma advances_trans: "advances a b \<Longrightarrow> advances b c \<Longrightarrow> advances a c"
  by (auto simp: advances_def)

definition keeps_text :: "((int \<Rightarrow> int) \<Rightarrow> MappingsDecoder \<Rightarrow> MappingsDecoder) \<Rightarrow> bool" where
  "keeps_text update \<longleftrightarrow> (\<forall>f d. text_of_mappings (update f d) = text_of_mappings d \<and> position (update f d) = position d
     \<and> decode_error (update f d) = decode_error d)"

lemma keeps_text_fields:
  "keeps_text generatedCharacter_update" "keeps_text sourceIndex_update" "keeps_text sourceLine_update"
  "keeps_text sourceCharacter_update" "keeps_text nameIndex_update"
  by (simp_all add: keeps_text_def)

lemma advances_stop [simp]: "advances d (snd (stopIterating e)) = advances d e"
  by (simp add: stopIterating_def advances_def)

lemma advances_error [simp]: "advances d (snd (setErrorAndStopIterating e d')) = advances d d'"
  by (simp add: setErrorAndStopIterating_def advances_def stopIterating_def)

lemma fst_stop [simp]: "fst (stopIterating d) = None" "fst (setErrorAndStopIterating e d) = None"
  by (simp_all add: stopIterating_def setErrorAndStopIterating_def)

lemma read_field_advances:
  assumes "advances d0 d" "keeps_text update" "\<And>d'. advances d0 d' \<Longrightarrow> advances d0 (snd (continue d'))"
  shows "advances d0 (snd (read_field update field invalid d continue))"
proof -
  obtain v d' where v: "base64VLQFormatDecode d = (v, d')" by (cases "base64VLQFormatDecode d")
  then have "advances d d'"
    by (auto simp: base64VLQFormatDecode_def advances_def dest: vlq_loop_position split: prod.splits sum.splits)
  then have "advances d0 (update (\<lambda>x. add64 x v) d')"
    using assms(1,2) by (auto simp: advances_def keeps_text_def)
  then show ?thesis by (simp add: read_field_def v Let_def assms(3))
qed

lemma if_advances:
  "(b \<Longrightarrow> advances d (snd x)) \<Longrightarrow> (\<not> b \<Longrightarrow> advances d (snd y)) \<Longrightarrow> advances d (snd (if b then x else y))"
  by simp

text \<open>A segment that yields a mapping has read at least one character.\<close>

lemma read_field_progress:
  assumes "keeps_text update" "\<And>d'. advances d' (snd (continue d'))"
    and "fst (read_field update field invalid d continue) \<noteq> None"
  shows "position d < position (snd (read_field update field invalid d continue))"
proof -
  obtain v d' where v: "base64VLQFormatDecode d = (v, d')" by (cases "base64VLQFormatDecode d")
  define e where "e = update (\<lambda>x. add64 x v) d'"
  have e: "decode_error e = decode_error d'" "position e = position d'"
    using assms(1) by (simp_all add: e_def keeps_text_def)
  have ok: "\<not> hasReportedError e" "read_field update field invalid d continue = continue e"
    using assms(3) by (auto simp: read_field_def v Let_def e_def [symmetric] split: if_splits)
  have "position d < position d'"
    using v ok(1) e(1)
    by (auto simp: base64VLQFormatDecode_def hasReportedError_def dest: vlq_loop_position split: prod.splits sum.splits)
  then show ?thesis using assms(2) [of e] ok e by (simp add: advances_def)
qed

lemma read_segment_progress:
  "fst (read_segment d) \<noteq> None \<Longrightarrow> position d < position (snd (read_segment d))"
  unfolding read_segment_def
  by (erule read_field_progress [rotated 2])
    (simp add: keeps_text_fields advances_refl
      | intro conjI impI read_field_advances keeps_text_fields if_advances)+

lemma read_segment_advances: "advances d (snd (read_segment d))"
  unfolding read_segment_def
  by (simp add: keeps_text_fields advances_refl
      | intro conjI impI read_field_advances keeps_text_fields if_advances)+

lemma Next_advances: "advances d (snd (Next d))"
proof (induction d rule: Next.induct)
  case (1 d)
  then show ?case
    unfolding Next.simps [of d]
    by (auto simp: Let_def advances_refl intro: advances_trans [rotated] read_segment_advances)
      (auto simp: advances_def)
qed

lemma Next_progress: "Next d = (Some m, d') \<Longrightarrow> text_of_mappings d' = text_of_mappings d \<and> position d < position d'
    \<and> position d < length (text_of_mappings d)"
proof (induction d rule: Next.induct)
  case (1 d)
  show ?case
  proof (cases "\<not> finished d \<and> position d < length (text_of_mappings d)")
    case True
    then show ?thesis
      using 1 read_segment_progress [of d] read_segment_advances [of d] unfolding Next.simps [of d]
      by (auto simp: Let_def advances_def split: if_splits)
  next
    case False
    then have "Next d = stopIterating d" using Next.simps [of d] by (simp only: if_False)
    then show ?thesis using "1.prems" by (simp add: stopIterating_def)
  qed
qed

function Values :: "MappingsDecoder \<Rightarrow> Mapping list \<times> MappingsDecoder" where
  "Values d =
     (case Next d of
        (None, d') \<Rightarrow> ([], d')
      | (Some m, d') \<Rightarrow> (let (ms, d'') = Values d' in (m # ms, d'')))"
  by pat_completeness auto
termination
  by (relation "measure (\<lambda>d. length (text_of_mappings d) - position d)") (auto dest: sym [THEN Next_progress])

declare Values.simps [simp del]

definition decode_mappings :: "string \<Rightarrow> Mapping list \<times> string option" where
  "decode_mappings s = (let (ms, d) = Values (DecodeMappings s) in (ms, decode_error d))"

end
