(* ===== verification/SourceMapRoundtrip.thy ===== *)
theory SourceMapRoundtrip
  imports SourceMapGenerator SourceMapDecoder
begin

text \<open>
  The generator and the decoder of \<open>sourcemap\<close> together: whatever is added to a generator, the
  string it writes decodes to exactly the mappings it has committed, without an error. The proof
  relates the two states: \<open>reader g rest\<close> is the decoder in front of \<open>rest\<close> when it has read what
  \<open>g\<close> has written. Coordinates have to stay below \<open>2 ^ 62\<close>, beyond which a number does not survive
  the shift that makes room for its sign.
\<close>

section \<open>The decoder behind the generator\<close>

definition reader :: "Generator \<Rightarrow> string \<Rightarrow> MappingsDecoder" where
  "reader g rest =
     \<lparr>text_of_mappings = mappings g @ rest, finished = False, position = length (mappings g),
      generatedLine = lastGeneratedLine g, generatedCharacter = lastGeneratedCharacter g,
      sourceIndex = lastSourceIndex g, sourceLine = lastSourceLine g, sourceCharacter = lastSourceCharacter g,
      nameIndex = lastNameIndex g, decode_error = None\<rparr>"

definition boundary :: "string \<Rightarrow> bool" where
  "boundary rest \<longleftrightarrow> rest = [] \<or> hd rest = CHR '','' \<or> hd rest = CHR '';''"

lemma segment_end_reader [simp]: "isSourceMappingSegmentEnd (reader g rest) \<longleftrightarrow> boundary rest"
  by (cases rest) (auto simp: isSourceMappingSegmentEnd_def reader_def boundary_def nth_append)

lemma vlq_digits_first:
  assumes "vlq_digits n = Some s"
  shows "\<exists>c t. s = c # t \<and> base64FormatDecode c \<noteq> -1"
proof -
  obtain v t where "base64FormatEncode v = Some (hd s)" "s = hd s # t"
    using assms unfolding vlq_digits.simps [of n] by (auto simp: Let_def split: option.splits if_splits)
  then show ?thesis using base64FormatDecode_encode [of v "hd s"] by (cases s) auto
qed

lemma vlq_not_boundary: "appendBase64VLQ v = Some s \<Longrightarrow> \<not> boundary (s @ rest)"
  unfolding appendBase64VLQ_def
  by (drule vlq_digits_first) (auto simp: boundary_def base64FormatDecode_def)

definition in_range :: "int \<Rightarrow> bool" where
  "in_range x \<longleftrightarrow> 0 \<le> x \<and> x < 2 ^ 62"

lemma sub64_in_range: "in_range a \<Longrightarrow> in_range b \<Longrightarrow> sub64 a b = a - b \<and> encodable_number (a - b) \<and> add64 b (a - b) = a"
  by (auto simp: in_range_def sub64_def add64_def encodable_number_def int64_id)

text \<open>A field is read as it was written.\<close>

lemma read_field_written:
  assumes "in_range new" "in_range old" "write_vlq (sub64 new old) g = Some g'"
  shows "\<exists>s. mappings g' = mappings g @ s \<and> g' = g\<lparr>mappings := mappings g @ s\<rparr> \<and> (\<forall>rest. \<not> boundary (s @ rest))
     \<and> (\<forall>rest. base64VLQFormatDecode (reader g (s @ rest)) = (new - old, reader g' rest))"
proof -
  note range = sub64_in_range [OF assms(1,2)]
  from assms(3) range obtain s where s: "appendBase64VLQ (new - old) = Some s" "g' = g\<lparr>mappings := mappings g @ s\<rparr>"
    by (auto simp: write_vlq_def)
  have "base64VLQFormatDecode (reader g (s @ rest)) = (new - old, reader g' rest)" for rest
    using vlq_loop_number [OF s(1), of "mappings g" rest] range
    by (auto simp: base64VLQFormatDecode_def reader_def s(2))
  then show ?thesis using s vlq_not_boundary [OF s(1)] by auto
qed

lemma read_field_reader:
  assumes "base64VLQFormatDecode (reader g (s @ rest)) = (v, reader g' rest)"
    and "update (\<lambda>x. add64 x v) (reader g' rest) = reader g'' rest" "field (reader g'' rest) = new" "in_range new"
  shows "read_field update field e (reader g (s @ rest)) k = k (reader g'' rest)"
  using assms by (simp add: read_field_def hasReportedError_def in_range_def) (simp add: reader_def)

definition pending_mapping :: "Generator \<Rightarrow> Mapping" where
  "pending_mapping g =
     \<lparr>GeneratedLine = pendingGeneratedLine g, GeneratedCharacter = pendingGeneratedCharacter g,
      SourceIndex = (if hasPendingSource g then pendingSourceIndex g else -1),
      SourceLine = (if hasPendingSource g then pendingSourceLine g else -1),
      SourceCharacter = (if hasPendingSource g then pendingSourceCharacter g else -1),
      NameIndex = (if hasPendingSource g \<and> hasPendingName g then pendingNameIndex g else -1)\<rparr>"

definition ranges :: "Generator \<Rightarrow> bool" where
  "ranges g \<longleftrightarrow>
     in_range (lastGeneratedLine g) \<and> in_range (lastGeneratedCharacter g) \<and> in_range (lastSourceIndex g)
     \<and> in_range (lastSourceLine g) \<and> in_range (lastSourceCharacter g) \<and> in_range (lastNameIndex g)
     \<and> in_range (pendingGeneratedLine g) \<and> in_range (pendingGeneratedCharacter g) \<and> in_range (pendingSourceIndex g)
     \<and> in_range (pendingSourceLine g) \<and> in_range (pendingSourceCharacter g) \<and> in_range (pendingNameIndex g)"

text \<open>What a commit writes after the delimiters.\<close>

definition write_segment :: "Generator \<Rightarrow> Generator panics" where
  "write_segment g =
     Option.bind (write_vlq (sub64 (pendingGeneratedCharacter g) (lastGeneratedCharacter g)) g) (\<lambda>g.
        write_source (g\<lparr>lastGeneratedCharacter := pendingGeneratedCharacter g\<rparr>))"

text \<open>The state after it, but for the text.\<close>

definition segment_written :: "Generator \<Rightarrow> string \<Rightarrow> Generator" where
  "segment_written g s =
     g\<lparr>mappings := s, lastGeneratedCharacter := pendingGeneratedCharacter g,
       lastSourceIndex := (if hasPendingSource g then pendingSourceIndex g else lastSourceIndex g),
       lastSourceLine := (if hasPendingSource g then pendingSourceLine g else lastSourceLine g),
       lastSourceCharacter := (if hasPendingSource g then pendingSourceCharacter g else lastSourceCharacter g),
       lastNameIndex := (if hasPendingSource g \<and> hasPendingName g then pendingNameIndex g else lastNameIndex g)\<rparr>"

lemma write_vlq_reader:
  assumes "in_range new" "in_range old"
  obtains s where "write_vlq (sub64 new old) g = Some (g\<lparr>mappings := mappings g @ s\<rparr>)"
    and "\<And>rest. \<not> boundary (s @ rest)"
    and "\<And>rest. base64VLQFormatDecode (reader g (s @ rest)) = (new - old, reader (g\<lparr>mappings := mappings g @ s\<rparr>) rest)"
proof -
  obtain g' where g': "write_vlq (sub64 new old) g = Some g'"
    using appendBase64VLQ_total [of "sub64 new old"] by (auto simp: write_vlq_def)
  from read_field_written [OF assms g'] obtain s where
    "g' = g\<lparr>mappings := mappings g @ s\<rparr>" "\<forall>rest. \<not> boundary (s @ rest)"
    "\<forall>rest. base64VLQFormatDecode (reader g (s @ rest)) = (new - old, reader g' rest)" by blast
  with g' that [of s] show thesis by simp
qed

text \<open>The five relative numbers of a segment: each is the difference to a \<open>last\<close> field of the generator,
  and the decoder adds it to the field of its own that stands for the same value.\<close>

locale vlq_field =
  fixes update :: "(int \<Rightarrow> int) \<Rightarrow> MappingsDecoder \<Rightarrow> MappingsDecoder"
    and field :: "MappingsDecoder \<Rightarrow> int"
    and prev :: "Generator \<Rightarrow> int"
    and put :: "int \<Rightarrow> Generator \<Rightarrow> Generator"
  assumes update_reader: "update f (reader g rest) = reader (put (f (prev g)) g) rest"
    and field_reader: "field (reader (put x g) rest) = x"
    and prev_text: "prev (g\<lparr>mappings := s\<rparr>) = prev g"
begin

lemma written:
  assumes "in_range new" "in_range (prev g)"
  obtains s where "write_vlq (sub64 new (prev g)) g = Some (g\<lparr>mappings := mappings g @ s\<rparr>)"
    and "\<And>rest. \<not> boundary (s @ rest)"
    and "\<And>rest e k. read_field update field e (reader g (s @ rest)) k
           = k (reader (put new (g\<lparr>mappings := mappings g @ s\<rparr>)) rest)"
proof -
  obtain s where s: "write_vlq (sub64 new (prev g)) g = Some (g\<lparr>mappings := mappings g @ s\<rparr>)"
    "\<And>rest. \<not> boundary (s @ rest)"
    "\<And>rest. base64VLQFormatDecode (reader g (s @ rest)) = (new - prev g, reader (g\<lparr>mappings := mappings g @ s\<rparr>) rest)"
    using write_vlq_reader [OF assms, where g = g] by blast
  show thesis
  proof (rule that [of s])
    show "read_field update field e (reader g (s @ rest)) k
           = k (reader (put new (g\<lparr>mappings := mappings g @ s\<rparr>)) rest)" for rest e k
    proof (rule read_field_reader [OF s(3), where field = field and new = new])
      show "update (\<lambda>x. add64 x (new - prev g)) (reader (g\<lparr>mappings := mappings g @ s\<rparr>) rest)
          = reader (put new (g\<lparr>mappings := mappings g @ s\<rparr>)) rest"
        by (simp add: update_reader prev_text sub64_in_range [OF assms])
    qed (simp_all add: field_reader assms(1))
  qed (rule s)+
qed

end

interpretation character: vlq_field generatedCharacter_update generatedCharacter lastGeneratedCharacter
  "\<lambda>x. lastGeneratedCharacter_update (\<lambda>_. x)"
  by unfold_locales (simp_all add: reader_def)

interpretation source_index: vlq_field sourceIndex_update sourceIndex lastSourceIndex
  "\<lambda>x. lastSourceIndex_update (\<lambda>_. x)"
  by unfold_locales (simp_all add: reader_def)

interpretation source_line: vlq_field sourceLine_update sourceLine lastSourceLine
  "\<lambda>x. lastSourceLine_update (\<lambda>_. x)"
  by unfold_locales (simp_all add: reader_def)

interpretation source_character: vlq_field sourceCharacter_update sourceCharacter lastSourceCharacter
  "\<lambda>x. lastSourceCharacter_update (\<lambda>_. x)"
  by unfold_locales (simp_all add: reader_def)

interpretation name_index: vlq_field nameIndex_update nameIndex lastNameIndex
  "\<lambda>x. lastNameIndex_update (\<lambda>_. x)"
  by unfold_locales (simp_all add: reader_def)

section \<open>One segment\<close>

text \<open>Behind a written segment the decoder has the values of the generator.\<close>

definition segment_read :: "Generator \<Rightarrow> bool" where
  "segment_read g \<longleftrightarrow>
     (\<exists>s. write_segment g = Some (segment_written g (mappings g @ s)) \<and> (\<forall>rest. \<not> boundary (s @ rest))
        \<and> (\<forall>rest. boundary rest \<longrightarrow> read_segment (reader g (s @ rest))
               = (Some (pending_mapping g), reader (segment_written g (mappings g @ s)) rest)))"

lemma segment_read:
  assumes r: "ranges g" and line: "lastGeneratedLine g = pendingGeneratedLine g"
  shows "segment_read g"
proof -
  obtain s1 where s1: "write_vlq (sub64 (pendingGeneratedCharacter g) (lastGeneratedCharacter g)) g
      = Some (g\<lparr>mappings := mappings g @ s1\<rparr>)" "\<And>rest. \<not> boundary (s1 @ rest)"
    "\<And>rest e k. read_field generatedCharacter_update generatedCharacter e (reader g (s1 @ rest)) k
       = k (reader (g\<lparr>mappings := mappings g @ s1, lastGeneratedCharacter := pendingGeneratedCharacter g\<rparr>) rest)"
    using r character.written [of "pendingGeneratedCharacter g" g] by (auto simp: ranges_def)
  define g1 where "g1 = g\<lparr>mappings := mappings g @ s1, lastGeneratedCharacter := pendingGeneratedCharacter g\<rparr>"
  show ?thesis
  proof (cases "hasPendingSource g")
    case False
    have "read_segment (reader g (s1 @ rest)) = (Some (pending_mapping g), reader g1 rest)" if "boundary rest" for rest
    proof -
      have "read_segment (reader g (s1 @ rest)) = (Some (captureMapping False False (reader g1 rest)), reader g1 rest)"
        unfolding read_segment_def s1(3) using that by (simp add: g1_def)
      then show ?thesis
        using False line by (simp add: g1_def captureMapping_def pending_mapping_def) (simp add: reader_def)
    qed
    then show ?thesis
      unfolding segment_read_def
      using s1(1,2) False
      by (intro exI [of _ s1]) (simp add: write_segment_def write_source_def segment_written_def g1_def)
  next
    case True
    obtain s2 where s2: "write_vlq (sub64 (pendingSourceIndex g1) (lastSourceIndex g1)) g1
        = Some (g1\<lparr>mappings := mappings g1 @ s2\<rparr>)" "\<And>rest. \<not> boundary (s2 @ rest)"
      "\<And>rest e k. read_field sourceIndex_update sourceIndex e (reader g1 (s2 @ rest)) k
         = k (reader (g1\<lparr>mappings := mappings g1 @ s2, lastSourceIndex := pendingSourceIndex g1\<rparr>) rest)"
      using r source_index.written [of "pendingSourceIndex g1" g1] by (auto simp: ranges_def g1_def)
    define g2 where "g2 = g1\<lparr>mappings := mappings g1 @ s2, lastSourceIndex := pendingSourceIndex g1\<rparr>"
    obtain s3 where s3: "write_vlq (sub64 (pendingSourceLine g2) (lastSourceLine g2)) g2
        = Some (g2\<lparr>mappings := mappings g2 @ s3\<rparr>)" "\<And>rest. \<not> boundary (s3 @ rest)"
      "\<And>rest e k. read_field sourceLine_update sourceLine e (reader g2 (s3 @ rest)) k
         = k (reader (g2\<lparr>mappings := mappings g2 @ s3, lastSourceLine := pendingSourceLine g2\<rparr>) rest)"
      using r source_line.written [of "pendingSourceLine g2" g2] by (auto simp: ranges_def g2_def g1_def)
    define g3 where "g3 = g2\<lparr>mappings := mappings g2 @ s3, lastSourceLine := pendingSourceLine g2\<rparr>"
    obtain s4 where s4: "write_vlq (sub64 (pendingSourceCharacter g3) (lastSourceCharacter g3)) g3
        = Some (g3\<lparr>mappings := mappings g3 @ s4\<rparr>)" "\<And>rest. \<not> boundary (s4 @ rest)"
      "\<And>rest e k. read_field sourceCharacter_update sourceCharacter e (reader g3 (s4 @ rest)) k
         = k (reader (g3\<lparr>mappings := mappings g3 @ s4, lastSourceCharacter := pendingSourceCharacter g3\<rparr>) rest)"
      using r source_character.written [of "pendingSourceCharacter g3" g3] by (auto simp: ranges_def g3_def g2_def g1_def)
    define g4 where "g4 = g3\<lparr>mappings := mappings g3 @ s4, lastSourceCharacter := pendingSourceCharacter g3\<rparr>"
    obtain s5 where s5: "write_vlq (sub64 (pendingNameIndex g4) (lastNameIndex g4)) g4
        = Some (g4\<lparr>mappings := mappings g4 @ s5\<rparr>)" "\<And>rest. \<not> boundary (s5 @ rest)"
      "\<And>rest e k. read_field nameIndex_update nameIndex e (reader g4 (s5 @ rest)) k
         = k (reader (g4\<lparr>mappings := mappings g4 @ s5, lastNameIndex := pendingNameIndex g4\<rparr>) rest)"
      using r name_index.written [of "pendingNameIndex g4" g4]
      by (auto simp: ranges_def g4_def g3_def g2_def g1_def)
    define g5 where "g5 = g4\<lparr>mappings := mappings g4 @ s5, lastNameIndex := pendingNameIndex g4\<rparr>"
    note reads = s1(3) s2(3) s3(3) s4(3) s5(3)
    note folds = g1_def [symmetric] g2_def [symmetric] g3_def [symmetric] g4_def [symmetric] g5_def [symmetric]
    note gs = g5_def g4_def g3_def g2_def g1_def
    have source: "write_source g1 = write_name g4"
      using True s2(1) s3(1) s4(1)
      by (simp add: write_source_def g1_def) (simp add: gs)
    show ?thesis
    proof (cases "hasPendingName g")
      case False
      have "read_segment (reader g (s1 @ s2 @ s3 @ s4 @ rest))
          = (Some (captureMapping True False (reader g4 rest)), reader g4 rest)" if "boundary rest" for rest
        unfolding read_segment_def using that s2(2) s3(2) s4(2) by (simp add: reads folds)
      moreover have "captureMapping True False (reader g4 rest) = pending_mapping g" for rest
        using True False line by (simp add: captureMapping_def pending_mapping_def reader_def gs)
      moreover have "write_segment g = Some g4" using s1(1) source False
        by (simp add: write_segment_def folds) (simp add: write_name_def gs)
      moreover have "g4 = segment_written g (mappings g @ s1 @ s2 @ s3 @ s4)"
        using True False by (simp add: segment_written_def gs)
      ultimately show ?thesis
        unfolding segment_read_def using s1(2) by (intro exI [of _ "s1 @ s2 @ s3 @ s4"]) simp
    next
      case named: True
      have "read_segment (reader g (s1 @ s2 @ s3 @ s4 @ s5 @ rest))
          = (Some (captureMapping True True (reader g5 rest)), reader g5 rest)" if "boundary rest" for rest
        unfolding read_segment_def using that s2(2) s3(2) s4(2) s5(2) by (simp add: reads folds)
      moreover have "captureMapping True True (reader g5 rest) = pending_mapping g" for rest
        using True named line by (simp add: captureMapping_def pending_mapping_def reader_def gs)
      moreover have "write_segment g = Some g5" using s1(1) source named s5(1)
        by (simp add: write_segment_def folds) (simp add: write_name_def gs)
      moreover have "g5 = segment_written g (mappings g @ s1 @ s2 @ s3 @ s4 @ s5)"
        using True named by (simp add: segment_written_def gs)
      ultimately show ?thesis
        unfolding segment_read_def using s1(2) by (intro exI [of _ "s1 @ s2 @ s3 @ s4 @ s5"]) simp
    qed
  qed
qed

section \<open>Commits\<close>

lemma Next_semicolons:
  assumes "text_of_mappings d = pre @ replicate k (CHR '';'') @ rest" "position d = length pre" "\<not> finished d" "0 < k"
  shows "Next d = Next (d\<lparr>generatedLine := generatedLine d + int k, generatedCharacter := 0, position := length pre + k\<rparr>)"
  using assms
proof (induction k arbitrary: d pre)
  case (Suc k)
  define d' where "d' = d\<lparr>generatedLine := generatedLine d + 1, generatedCharacter := 0, position := position d + 1\<rparr>"
  have "Next d = Next d'"
    using Suc.prems unfolding Next.simps [of d] by (simp add: nth_append d'_def)
  moreover have "Next d' = Next (d'\<lparr>generatedLine := generatedLine d' + int k, generatedCharacter := 0,
      position := length (pre @ '';'') + k\<rparr>)" if "0 < k"
    using that Suc.prems by (intro Suc.IH) (simp_all add: d'_def)
  ultimately show ?case
    using Suc.prems by (cases "k = 0") (simp_all add: d'_def algebra_simps)
qed simp

lemma Next_comma:
  "text_of_mappings d = pre @ CHR '','' # rest \<Longrightarrow> position d = length pre \<Longrightarrow> \<not> finished d
   \<Longrightarrow> Next d = Next (d\<lparr>position := length pre + 1\<rparr>)"
  unfolding Next.simps [of d] by (simp add: nth_append)

lemma Next_segment: "\<not> boundary (s @ rest) \<Longrightarrow> Next (reader g (s @ rest)) = read_segment (reader g (s @ rest))"
  unfolding Next.simps [of "reader g (s @ rest)"]
  by (cases "s @ rest") (auto simp: reader_def boundary_def nth_append Let_def)

text \<open>After the delimiters the decoder is in the state that \<open>write_delimiters\<close> leaves.\<close>

lemma delimiters_read:
  assumes "lastGeneratedLine g \<le> pendingGeneratedLine g"
  obtains t g' where "write_delimiters g = Some g'"
    and "g' = g\<lparr>mappings := mappings g @ t, lastGeneratedLine := pendingGeneratedLine g,
            lastGeneratedCharacter := (if lastGeneratedLine g < pendingGeneratedLine g then 0
                                       else lastGeneratedCharacter g)\<rparr>"
    and "hasLast g \<Longrightarrow> \<forall>rest. boundary (t @ rest)"
    and "\<And>rest. Next (reader g (t @ rest)) = Next (reader g' rest)"
proof (cases "lastGeneratedLine g < pendingGeneratedLine g")
  case True
  define k where "k = nat (pendingGeneratedLine g - lastGeneratedLine g)"
  define g' where "g' = g\<lparr>mappings := mappings g @ replicate k (CHR '';''), lastGeneratedLine := pendingGeneratedLine g,
            lastGeneratedCharacter := 0\<rparr>"
  have k: "0 < k" "int k = pendingGeneratedLine g - lastGeneratedLine g" using True by (simp_all add: k_def)
  have "Next (reader g (replicate k (CHR '';'') @ rest)) = Next (reader g' rest)" for rest
    using Next_semicolons [of "reader g (replicate k (CHR '';'') @ rest)" "mappings g" k rest] k
    by (simp add: reader_def g'_def)
  moreover have "boundary (replicate k (CHR '';'') @ rest)" for rest using k(1) by (cases k) (simp_all add: boundary_def)
  moreover have "write_delimiters g = Some g'" using True by (simp add: write_delimiters_def g'_def k_def)
  ultimately show thesis using True by (intro that [of g' "replicate k (CHR '';'')"]) (simp_all add: g'_def)
next
  case False
  then have line: "lastGeneratedLine g = pendingGeneratedLine g" using assms by simp
  define t where "t = (if hasLast g then '','' else [])"
  define g' where "g' = g\<lparr>mappings := mappings g @ t, lastGeneratedLine := pendingGeneratedLine g\<rparr>"
  have "Next (reader g (t @ rest)) = Next (reader g' rest)" for rest
    using Next_comma [of "reader g (t @ rest)" "mappings g" rest] line
    by (simp add: t_def g'_def reader_def)
  moreover have "hasLast g \<Longrightarrow> boundary (t @ rest)" for rest by (simp add: boundary_def t_def)
  moreover have "write_delimiters g = Some g'"
    using line by (simp add: write_delimiters_def g'_def t_def)
  ultimately show thesis using False by (intro that [of g' t]) (simp_all add: g'_def)
qed

text \<open>\<open>pending_written g s\<close>: what a commit makes of the state.\<close>

definition pending_written :: "Generator \<Rightarrow> string \<Rightarrow> Generator" where
  "pending_written g s = (segment_written g s)\<lparr>lastGeneratedLine := pendingGeneratedLine g, hasLast := True\<rparr>"

lemma commit_reads:
  assumes "ranges g" "lastGeneratedLine g \<le> pendingGeneratedLine g" "shouldCommitMapping g"
  obtains t where "commitPendingMapping g = Some (pending_written g (mappings g @ t))"
    and "hasLast g \<Longrightarrow> \<forall>rest. boundary (t @ rest)"
    and "\<And>rest. boundary rest \<Longrightarrow> Next (reader g (t @ rest))
            = (Some (pending_mapping g), reader (pending_written g (mappings g @ t)) rest)"
proof -
  from assms(2) obtain t g' where g': "write_delimiters g = Some g'"
    "g' = g\<lparr>mappings := mappings g @ t, lastGeneratedLine := pendingGeneratedLine g,
            lastGeneratedCharacter := (if lastGeneratedLine g < pendingGeneratedLine g then 0
                                       else lastGeneratedCharacter g)\<rparr>"
    and b: "hasLast g \<Longrightarrow> \<forall>rest. boundary (t @ rest)"
    and n: "\<And>rest. Next (reader g (t @ rest)) = Next (reader g' rest)"
    by (rule delimiters_read) auto
  have "ranges g'" using assms(1) by (simp add: g'(2) ranges_def in_range_def)
  then have "segment_read g'" by (rule segment_read) (simp add: g'(2))
  then obtain s where s: "write_segment g' = Some (segment_written g' (mappings g' @ s))"
    "\<And>rest. \<not> boundary (s @ rest)"
    "\<And>rest. boundary rest \<Longrightarrow> read_segment (reader g' (s @ rest))
               = (Some (pending_mapping g'), reader (segment_written g' (mappings g' @ s)) rest)"
    unfolding segment_read_def by blast
  have w: "(segment_written g' (mappings g' @ s))\<lparr>hasLast := True\<rparr> = pending_written g (mappings g @ t @ s)"
    by (simp add: segment_written_def pending_written_def g'(2))
  have "commitPendingMapping g = map_option (\<lambda>g. g\<lparr>hasLast := True\<rparr>) (write_segment g')"
    using assms(3) g'(1)
    by (simp add: commitPendingMapping_def write_segment_def Let_def split: bind_split option.splits)
  then have "commitPendingMapping g = Some (pending_written g (mappings g @ t @ s))"
    using s(1) w by simp
  moreover have "Next (reader g ((t @ s) @ rest))
      = (Some (pending_mapping g), reader (pending_written g (mappings g @ t @ s)) rest)" if "boundary rest" for rest
  proof -
    have "reader (segment_written g' (mappings g' @ s)) rest = reader (pending_written g (mappings g @ t @ s)) rest"
      unfolding w [symmetric] by (simp add: reader_def)
    moreover have "pending_mapping g' = pending_mapping g" by (simp add: pending_mapping_def g'(2))
    ultimately show ?thesis using n [of "s @ rest"] Next_segment [OF s(2)] s(3) [OF that] by simp
  qed
  ultimately show thesis using b by (intro that [of "t @ s"]) auto
qed

section \<open>Whole runs\<close>

text \<open>The operations a client of the generator can perform, and the mapping an operation commits.\<close>

datatype gen_op =
    OpGenerated int int
  | OpSource int int int int int
  | OpNamed int int int int int int
  | OpAddSource string
  | OpAddName string
  | OpContent int string
  | OpRawSourceMap

fun apply_op :: "unicode_tables \<Rightarrow> gen_op \<Rightarrow> Generator \<Rightarrow> Generator panics" where
  "apply_op U (OpGenerated l c) g = map_option snd (AddGeneratedMapping l c g)"
| "apply_op U (OpSource l c si sl sc) g = map_option snd (AddSourceMapping l c si sl sc g)"
| "apply_op U (OpNamed l c si sl sc ni) g = map_option snd (AddNamedSourceMapping l c si sl sc ni g)"
| "apply_op U (OpAddSource fileName) g = Some (snd (AddSource U fileName g))"
| "apply_op U (OpAddName name) g = Some (snd (AddName name g))"
| "apply_op U (OpContent i content) g = Some (snd (SetSourceContent i content g))"
| "apply_op U OpRawSourceMap g = map_option snd (RawSourceMap_of g)"

definition committed :: "Generator \<Rightarrow> Mapping list" where
  "committed g = (if shouldCommitMapping g then [pending_mapping g] else [])"

definition added_commits :: "int \<Rightarrow> int \<Rightarrow> int \<Rightarrow> int \<Rightarrow> int \<Rightarrow> Generator \<Rightarrow> Mapping list" where
  "added_commits l c si sl sc g =
     (if isNewGeneratedPosition l c g \<or> isBacktrackingSourcePosition si sl sc g then committed g else [])"

fun op_commits :: "gen_op \<Rightarrow> Generator \<Rightarrow> Mapping list" where
  "op_commits (OpGenerated l c) g = (if position_error l c g = None then added_commits l c (-1) (-1) (-1) g else [])"
| "op_commits (OpSource l c si sl sc) g =
     (if position_error l c g = None \<and> source_error si sl sc g = None \<and> \<not> keeps_generated l c g
      then added_commits l c si sl sc g else [])"
| "op_commits (OpNamed l c si sl sc ni) g =
     (if position_error l c g = None \<and> source_error si sl sc g = None \<and> 0 \<le> ni \<and> ni < int (length (genNames g))
         \<and> \<not> keeps_generated l c g
      then added_commits l c si sl sc g else [])"
| "op_commits OpRawSourceMap g = committed g"
| "op_commits _ g = []"

fun run_ops :: "unicode_tables \<Rightarrow> gen_op list \<Rightarrow> Generator \<Rightarrow> Mapping list \<Rightarrow> (Generator \<times> Mapping list) panics" where
  "run_ops U [] g log = Some (g, log)"
| "run_ops U (op # ops) g log =
     Option.bind (apply_op U op g) (\<lambda>g'. run_ops U ops g' (log @ op_commits op g))"

definition op_small :: "gen_op \<Rightarrow> bool" where
  "op_small op =
     (case op of OpGenerated l c \<Rightarrow> l < 2 ^ 62 \<and> c < 2 ^ 62
      | OpSource l c si sl sc \<Rightarrow> l < 2 ^ 62 \<and> c < 2 ^ 62 \<and> si < 2 ^ 62 \<and> sl < 2 ^ 62 \<and> sc < 2 ^ 62
      | OpNamed l c si sl sc ni \<Rightarrow>
          l < 2 ^ 62 \<and> c < 2 ^ 62 \<and> si < 2 ^ 62 \<and> sl < 2 ^ 62 \<and> sc < 2 ^ 62 \<and> ni < 2 ^ 62
      | _ \<Rightarrow> True)"

text \<open>The invariant between the state, its text and what has been committed.\<close>

definition encodes :: "Generator \<Rightarrow> Mapping list \<Rightarrow> bool" where
  "encodes g log \<longleftrightarrow>
     (\<forall>rest. (hasLast g \<longrightarrow> boundary rest) \<longrightarrow>
        Values (DecodeMappings (mappings g @ rest))
        = (log @ fst (Values (reader g rest)), snd (Values (reader g rest))))"

definition gen_ok :: "Generator \<Rightarrow> Mapping list \<Rightarrow> bool" where
  "gen_ok g log \<longleftrightarrow> ranges g \<and> lastGeneratedLine g \<le> pendingGeneratedLine g \<and> encodes g log"

lemma gen_ok_new: "gen_ok (NewGenerator f r d options) []"
  by (simp add: gen_ok_def ranges_def in_range_def NewGenerator_def encodes_def)
    (simp add: DecodeMappings_def reader_def)

text \<open>Only some fields matter.\<close>

definition same_written :: "Generator \<Rightarrow> Generator \<Rightarrow> bool" where
  "same_written g g' \<longleftrightarrow>
     mappings g' = mappings g \<and> hasLast g' = hasLast g
     \<and> lastGeneratedLine g' = lastGeneratedLine g \<and> lastGeneratedCharacter g' = lastGeneratedCharacter g
     \<and> lastSourceIndex g' = lastSourceIndex g \<and> lastSourceLine g' = lastSourceLine g
     \<and> lastSourceCharacter g' = lastSourceCharacter g \<and> lastNameIndex g' = lastNameIndex g"

lemma encodes_same: "same_written g g' \<Longrightarrow> encodes g log \<Longrightarrow> encodes g' log"
proof -
  assume s: "same_written g g'"
  then have "reader g' rest = reader g rest" for rest by (simp add: same_written_def reader_def)
  with s show "encodes g log \<Longrightarrow> encodes g' log" by (simp add: encodes_def same_written_def)
qed

lemma commit_ok:
  assumes "gen_ok g log"
  obtains g' where "commitPendingMapping g = Some g'" "gen_ok g' (log @ committed g)"
    and "pendingGeneratedLine g' = pendingGeneratedLine g"
proof (cases "shouldCommitMapping g")
  case True
  have ok: "ranges g" "lastGeneratedLine g \<le> pendingGeneratedLine g" using assms by (simp_all add: gen_ok_def)
  obtain t where t: "commitPendingMapping g = Some (pending_written g (mappings g @ t))"
    "hasLast g \<Longrightarrow> \<forall>rest. boundary (t @ rest)"
    "\<And>rest. boundary rest \<Longrightarrow> Next (reader g (t @ rest))
            = (Some (pending_mapping g), reader (pending_written g (mappings g @ t)) rest)"
    by (rule commit_reads [OF ok True]) blast
  define g' where "g' = pending_written g (mappings g @ t)"
  have "encodes g' (log @ [pending_mapping g])"
    unfolding encodes_def
  proof (intro allI impI)
    fix rest assume "hasLast g' \<longrightarrow> boundary rest"
    then have b: "boundary rest" by (simp add: g'_def pending_written_def)
    have "Values (DecodeMappings (mappings g @ t @ rest))
        = (log @ fst (Values (reader g (t @ rest))), snd (Values (reader g (t @ rest))))"
      using assms t(2) by (auto simp: gen_ok_def encodes_def)
    moreover have "Values (reader g (t @ rest))
        = (pending_mapping g # fst (Values (reader g' rest)), snd (Values (reader g' rest)))"
      unfolding Values.simps [of "reader g (t @ rest)"] using t(3) [OF b] by (simp add: g'_def split_beta Let_def)
    ultimately show "Values (DecodeMappings (mappings g' @ rest))
        = ((log @ [pending_mapping g]) @ fst (Values (reader g' rest)), snd (Values (reader g' rest)))"
      by (simp add: g'_def pending_written_def segment_written_def)
  qed
  moreover have "ranges g'" "lastGeneratedLine g' \<le> pendingGeneratedLine g'"
    using ok by (simp_all add: g'_def pending_written_def segment_written_def ranges_def)
  ultimately show thesis using t(1) True
    by (intro that [of g']) (simp_all add: gen_ok_def g'_def committed_def, simp_all add: pending_written_def segment_written_def)
next
  case False
  then show thesis using assms by (intro that [of g]) (simp_all add: commitPendingMapping_def committed_def)
qed

lemma addMapping_ok:
  assumes ok: "gen_ok g log" and r: "pendingGeneratedLine g \<le> l" "in_range l" "in_range c"
    and src: "si = -1 \<or> in_range si \<and> in_range sl \<and> in_range sc" and ni: "ni = -1 \<or> in_range ni"
  obtains g' where "addMapping l c si sl sc ni g = Some g'" "gen_ok g' (log @ added_commits l c si sl sc g)"
proof -
  define new where "new \<longleftrightarrow> isNewGeneratedPosition l c g \<or> isBacktrackingSourcePosition si sl sc g"
  obtain h where h: "(if new then map_option
               (\<lambda>g. g\<lparr>pendingGeneratedLine := l, pendingGeneratedCharacter := c,
                      hasPendingSource := False, hasPendingName := False, hasPending := True\<rparr>)
               (commitPendingMapping g) else Some g) = Some h"
    "gen_ok h (log @ added_commits l c si sl sc g)"
  proof (cases new)
    case True
    obtain g' where g': "commitPendingMapping g = Some g'" "gen_ok g' (log @ committed g)"
      "pendingGeneratedLine g' = pendingGeneratedLine g"
      by (rule commit_ok [OF ok])
    define h where "h = g'\<lparr>pendingGeneratedLine := l, pendingGeneratedCharacter := c,
                      hasPendingSource := False, hasPendingName := False, hasPending := True\<rparr>"
    have "same_written g' h" by (simp add: same_written_def h_def)
    then have "gen_ok h (log @ committed g)"
      using g' r by (auto simp: gen_ok_def ranges_def h_def dest: encodes_same)
    then show thesis using True g'(1)
      by (intro that [of h]) (simp_all add: h_def added_commits_def new_def [symmetric])
  next
    case False
    then show thesis using ok by (intro that [of g]) (simp_all add: added_commits_def new_def [symmetric])
  qed
  define h1 where "h1 = (if si \<noteq> -1 \<and> sl \<noteq> -1 \<and> sc \<noteq> -1
            then (let g = h\<lparr>pendingSourceIndex := si, pendingSourceLine := sl,
                           pendingSourceCharacter := sc, hasPendingSource := True\<rparr>
                  in if ni \<noteq> -1 then g\<lparr>pendingNameIndex := ni, hasPendingName := True\<rparr> else g)
            else h)"
  have "addMapping l c si sl sc ni g = Some h1"
    using h(1) by (simp add: addMapping_def new_def h1_def del: Let_def)
  moreover have "gen_ok h1 (log @ added_commits l c si sl sc g)"
  proof -
    have "same_written h h1" by (simp add: same_written_def h1_def Let_def)
    moreover have "ranges h1" "lastGeneratedLine h1 \<le> pendingGeneratedLine h1"
      using h(2) src ni by (auto simp: gen_ok_def ranges_def h1_def Let_def)
    ultimately show ?thesis using h(2) by (auto simp: gen_ok_def dest: encodes_same)
  qed
  ultimately show thesis by (rule that)
qed

lemma position_okD: "position_error l c g = None \<Longrightarrow> pendingGeneratedLine g \<le> l \<and> 0 \<le> c"
  by (simp add: position_error_def split: if_splits)

lemma source_okD: "source_error si sl sc g = None \<Longrightarrow> 0 \<le> si \<and> 0 \<le> sl \<and> 0 \<le> sc"
  by (simp add: source_error_def split: if_splits)

lemma gen_ok_same: "same_written g g' \<Longrightarrow> ranges g' \<Longrightarrow> pendingGeneratedLine g' = pendingGeneratedLine g
    \<Longrightarrow> gen_ok g log \<Longrightarrow> gen_ok g' log"
  by (auto simp: gen_ok_def same_written_def intro: encodes_same)

lemma op_ok:
  assumes ok: "gen_ok g log" and small: "op_small op"
  obtains g' where "apply_op U op g = Some g'" "gen_ok g' (log @ op_commits op g)"
proof -
  have line: "0 \<le> pendingGeneratedLine g" using ok by (simp add: gen_ok_def ranges_def in_range_def)
  note finish = that
  have idle: thesis if idles: "apply_op U op g = Some g'" "op_commits op g = []" "same_written g g'" "ranges g'"
    "pendingGeneratedLine g' = pendingGeneratedLine g" for g'
    using idles ok by (intro finish [of g']) (auto intro: gen_ok_same)
  have ranges: "ranges g" using ok by (simp add: gen_ok_def)
  show thesis
  proof (cases op)
    case (OpGenerated l c)
    show thesis
    proof (cases "position_error l c g")
      case None
      then have "pendingGeneratedLine g \<le> l" "in_range l" "in_range c"
        using position_okD [OF None] small line by (auto simp: in_range_def op_small_def OpGenerated)
      then obtain g' where g': "addMapping l c (-1) (-1) (-1) (-1) g = Some g'"
        "gen_ok g' (log @ added_commits l c (-1) (-1) (-1) g)"
        using addMapping_ok [OF ok, of l c "-1" "-1" "-1" "-1"] by blast
      have "gen_ok (g'\<lparr>hasPendingSource := False, hasPendingName := False\<rparr>) (log @ added_commits l c (-1) (-1) (-1) g)"
        by (rule gen_ok_same [OF _ _ _ g'(2)]) (use g'(2) in \<open>simp_all add: same_written_def gen_ok_def ranges_def\<close>)
      then show thesis using g'(1) None OpGenerated by (intro that) (simp_all add: AddGeneratedMapping_def)
    qed (rule idle [of g], simp_all add: OpGenerated AddGeneratedMapping_def same_written_def ranges)
  next
    case (OpSource l c si sl sc)
    show thesis
    proof (cases "position_error l c g = None \<and> source_error si sl sc g = None \<and> \<not> keeps_generated l c g")
      case True
      then have "pendingGeneratedLine g \<le> l" "in_range l" "in_range c" "in_range si \<and> in_range sl \<and> in_range sc"
        using position_okD [of l c g] source_okD [of si sl sc g] small line by (auto simp: in_range_def op_small_def OpSource)
      then obtain g' where g': "addMapping l c si sl sc (-1) g = Some g'"
        "gen_ok g' (log @ added_commits l c si sl sc g)"
        using addMapping_ok [OF ok, of l c si sl sc "-1"] by blast
      then show thesis using True OpSource by (intro that) (simp_all add: AddSourceMapping_def)
    qed (rule idle [of g], auto simp: OpSource AddSourceMapping_def same_written_def ranges split: option.splits)
  next
    case (OpNamed l c si sl sc ni)
    show thesis
    proof (cases "position_error l c g = None \<and> source_error si sl sc g = None \<and> 0 \<le> ni \<and> ni < int (length (genNames g))
         \<and> \<not> keeps_generated l c g")
      case True
      then have "pendingGeneratedLine g \<le> l" "in_range l" "in_range c" "in_range si \<and> in_range sl \<and> in_range sc" "in_range ni"
        using position_okD [of l c g] source_okD [of si sl sc g] small line by (auto simp: in_range_def op_small_def OpNamed)
      then obtain g' where g': "addMapping l c si sl sc ni g = Some g'"
        "gen_ok g' (log @ added_commits l c si sl sc g)"
        using addMapping_ok [OF ok, of l c si sl sc ni] by blast
      then show thesis using True OpNamed by (intro that) (simp_all add: AddNamedSourceMapping_def)
    qed (rule idle [of g], auto simp: OpNamed AddNamedSourceMapping_def same_written_def ranges split: option.splits)
  next
    case (OpAddSource x)
    then show thesis using ranges
      by (intro idle [of "snd (AddSource U x g)"])
        (auto simp: AddSource_def same_written_def Let_def ranges_def split: option.splits)
  next
    case (OpAddName x)
    then show thesis using ranges
      by (intro idle [of "snd (AddName x g)"])
        (auto simp: AddName_def same_written_def Let_def ranges_def split: option.splits)
  next
    case (OpContent i x)
    then show thesis using ranges
      by (intro idle [of "snd (SetSourceContent i x g)"])
        (auto simp: SetSourceContent_def same_written_def Let_def ranges_def)
  next
    case OpRawSourceMap
    obtain g' where "commitPendingMapping g = Some g'" "gen_ok g' (log @ committed g)"
      by (rule commit_ok [OF ok])
    then show thesis using OpRawSourceMap by (intro that [of g']) (simp_all add: RawSourceMap_of_def)
  qed
qed

lemma run_ok:
  "gen_ok g log \<Longrightarrow> list_all op_small ops \<Longrightarrow> \<exists>g' log'. run_ops U ops g log = Some (g', log') \<and> gen_ok g' log'"
proof (induction ops arbitrary: g log)
  case (Cons op ops)
  then obtain g1 where "apply_op U op g = Some g1" "gen_ok g1 (log @ op_commits op g)"
    using op_ok [of g log op U] by auto
  with Cons show ?case by simp
qed simp

lemma encodes_decode: "encodes g log \<Longrightarrow> decode_mappings (mappings g) = (log, None)"
proof -
  assume "encodes g log"
  then have "Values (DecodeMappings (mappings g)) = (log @ fst (Values (reader g [])), snd (Values (reader g [])))"
    unfolding encodes_def by (metis append_Nil2 boundary_def)
  moreover have "Values (reader g []) = ([], (reader g [])\<lparr>finished := True\<rparr>)"
    by (subst Values.simps, subst Next.simps) (simp add: reader_def stopIterating_def)
  ultimately show ?thesis by (simp add: decode_mappings_def reader_def)
qed

text \<open>C21: Whatever operations a client performs, the generator never panics and what it has written decodes,
  without an error, to exactly the mappings it has committed, in their order. This holds for all
  coordinates below \<open>2 ^ 62\<close>, with errors, repeated positions and source maps taken in between.\<close>
theorem source_map_decodes:
  assumes "list_all op_small ops"
  shows "\<exists>g log. run_ops U ops (NewGenerator f r d options) [] = Some (g, log)
           \<and> decode_mappings (mappings g) = (log, None)"
  using run_ok [OF gen_ok_new assms] encodes_decode by (fastforce simp: gen_ok_def)

section \<open>Mappings in order\<close>

definition position_less :: "Mapping \<Rightarrow> Mapping \<Rightarrow> bool" where
  "position_less m n \<longleftrightarrow>
     GeneratedLine m < GeneratedLine n
     \<or> GeneratedLine m = GeneratedLine n \<and> GeneratedCharacter m < GeneratedCharacter n"

text \<open>A mapping of a generator with so many sources and names.\<close>

definition valid_mapping :: "nat \<Rightarrow> nat \<Rightarrow> Mapping \<Rightarrow> bool" where
  "valid_mapping sourceCount nameCount m \<longleftrightarrow>
     in_range (GeneratedLine m) \<and> in_range (GeneratedCharacter m)
     \<and> (if SourceIndex m = -1 then SourceLine m = -1 \<and> SourceCharacter m = -1 \<and> NameIndex m = -1
        else in_range (SourceIndex m) \<and> SourceIndex m < int sourceCount \<and> in_range (SourceLine m)
             \<and> in_range (SourceCharacter m)
             \<and> (if NameIndex m = -1 then True else in_range (NameIndex m) \<and> NameIndex m < int nameCount))"

definition mapping_op :: "Mapping \<Rightarrow> gen_op" where
  "mapping_op m =
     (if SourceIndex m = -1 then OpGenerated (GeneratedLine m) (GeneratedCharacter m)
      else if NameIndex m = -1
           then OpSource (GeneratedLine m) (GeneratedCharacter m) (SourceIndex m) (SourceLine m) (SourceCharacter m)
           else OpNamed (GeneratedLine m) (GeneratedCharacter m) (SourceIndex m) (SourceLine m) (SourceCharacter m)
                  (NameIndex m))"

lemma commit_state:
  assumes "gen_ok g log" "shouldCommitMapping g"
  shows "\<exists>t. commitPendingMapping g = Some (pending_written g t)"
  using assms commit_reads [of g] by (metis gen_ok_def)

text \<open>What adding a mapping at a new position makes of the state.\<close>

definition with_pending :: "Mapping \<Rightarrow> Generator \<Rightarrow> Generator" where
  "with_pending m g =
     (let g = g\<lparr>pendingGeneratedLine := GeneratedLine m, pendingGeneratedCharacter := GeneratedCharacter m,
                hasPendingSource := False, hasPendingName := False, hasPending := True\<rparr>
      in if SourceIndex m = -1 then g
         else let g = g\<lparr>pendingSourceIndex := SourceIndex m, pendingSourceLine := SourceLine m,
                        pendingSourceCharacter := SourceCharacter m, hasPendingSource := True\<rparr>
              in if NameIndex m = -1 then g else g\<lparr>pendingNameIndex := NameIndex m, hasPendingName := True\<rparr>)"

lemma mapping_op_state:
  assumes "valid_mapping (length (sources g)) (length (genNames g)) m"
    and "pendingGeneratedLine g \<le> GeneratedLine m" "isNewGeneratedPosition (GeneratedLine m) (GeneratedCharacter m) g"
    and "commitPendingMapping g = Some h"
  shows "apply_op U (mapping_op m) g = Some (with_pending m h) \<and> op_commits (mapping_op m) g = committed g"
proof -
  have nokeep: "\<not> keeps_generated (GeneratedLine m) (GeneratedCharacter m) g"
    using assms(3) by (simp add: keeps_generated_def)
  have pos: "position_error (GeneratedLine m) (GeneratedCharacter m) g = None"
    using assms(1,2) by (simp add: position_error_def valid_mapping_def in_range_def)
  show ?thesis
  proof (cases "SourceIndex m = -1")
    case True
    then show ?thesis
      using assms(3,4) pos
      by (simp add: mapping_op_def AddGeneratedMapping_def addMapping_def with_pending_def added_commits_def)
  next
    case False
    then have src: "source_error (SourceIndex m) (SourceLine m) (SourceCharacter m) g = None"
      "SourceLine m \<noteq> -1" "SourceCharacter m \<noteq> -1"
      using assms(1) by (auto simp: source_error_def valid_mapping_def in_range_def)
    moreover have "NameIndex m = -1 \<or> 0 \<le> NameIndex m \<and> NameIndex m < int (length (genNames g))"
      using assms(1) False by (auto simp: valid_mapping_def in_range_def split: if_splits)
    ultimately show ?thesis
      using False assms(3,4) pos nokeep
      by (auto simp: mapping_op_def AddSourceMapping_def AddNamedSourceMapping_def addMapping_def with_pending_def
          added_commits_def Let_def)
  qed
qed

lemma pending_with_pending:
  "valid_mapping a b m \<Longrightarrow> pending_mapping (with_pending m g) = m"
  by (auto simp: pending_mapping_def with_pending_def valid_mapping_def Let_def split: if_splits)

text \<open>The state when the mappings \<open>ms\<close> have been added.\<close>

definition added :: "Generator \<Rightarrow> Generator \<Rightarrow> Mapping list \<Rightarrow> Mapping list \<Rightarrow> bool" where
  "added g0 g log ms \<longleftrightarrow>
     gen_ok g log \<and> sources g = sources g0 \<and> genNames g = genNames g0
     \<and> (if ms = [] then \<not> hasPending g \<and> \<not> hasLast g \<and> log = [] \<and> pendingGeneratedLine g = 0
        else hasPending g \<and> log = butlast ms \<and> pending_mapping g = last ms \<and> shouldCommitMapping g)"

lemma with_pending_fields [simp]:
  "sources (with_pending m g) = sources g" "genNames (with_pending m g) = genNames g"
  "hasPending (with_pending m g)" "hasLast (with_pending m g) = hasLast g"
  "lastGeneratedLine (with_pending m g) = lastGeneratedLine g"
  "lastGeneratedCharacter (with_pending m g) = lastGeneratedCharacter g"
  "pendingGeneratedLine (with_pending m g) = GeneratedLine m"
  "pendingGeneratedCharacter (with_pending m g) = GeneratedCharacter m"
  by (simp_all add: with_pending_def Let_def)

lemma op_small_mapping: "valid_mapping a b m \<Longrightarrow> op_small (mapping_op m)"
  by (auto simp: valid_mapping_def in_range_def mapping_op_def op_small_def split: if_splits)

lemma added_snoc:
  assumes a: "added g0 g log ms" and v: "valid_mapping (length (sources g0)) (length (genNames g0)) m"
    and less: "ms = [] \<or> position_less (last ms) m"
  shows "\<exists>g' log'. run_ops U [mapping_op m] g log = Some (g', log') \<and> added g0 g' log' (ms @ [m])"
proof -
  have ok: "gen_ok g log" and same: "sources g = sources g0" "genNames g = genNames g0"
    using a by (simp_all add: added_def)
  have pend: "pendingGeneratedLine g \<le> GeneratedLine m"
    "isNewGeneratedPosition (GeneratedLine m) (GeneratedCharacter m) g"
    using a less v
    by (auto simp: added_def isNewGeneratedPosition_def position_less_def pending_mapping_def valid_mapping_def in_range_def
        split: if_splits dest!: sym [of _ "last ms"])
  obtain h where h: "commitPendingMapping g = Some h" "sources h = sources g" "genNames h = genNames g"
    "committed g = (if ms = [] then [] else [last ms])"
    "\<not> hasLast h \<or> (lastGeneratedLine h, lastGeneratedCharacter h) \<noteq> (GeneratedLine m, GeneratedCharacter m)"
  proof (cases "ms = []")
    case True
    with a have "\<not> shouldCommitMapping g" "\<not> hasLast g" by (simp_all add: added_def shouldCommitMapping_def)
    with True that [of g] show thesis by (simp add: commitPendingMapping_def committed_def)
  next
    case False
    with a have should: "shouldCommitMapping g" "pending_mapping g = last ms" by (simp_all add: added_def)
    from commit_state [OF ok should(1)] obtain t where t: "commitPendingMapping g = Some (pending_written g t)" by blast
    have "pendingGeneratedLine g = GeneratedLine (last ms)" "pendingGeneratedCharacter g = GeneratedCharacter (last ms)"
      unfolding should(2) [symmetric] by (simp_all add: pending_mapping_def)
    then have "(pendingGeneratedLine g, pendingGeneratedCharacter g) \<noteq> (GeneratedLine m, GeneratedCharacter m)"
      using less False by (auto simp: position_less_def)
    with False t should that [of "pending_written g t"] show thesis
      by (simp add: committed_def pending_written_def segment_written_def)
  qed
  have state: "apply_op U (mapping_op m) g = Some (with_pending m h)" "op_commits (mapping_op m) g = committed g"
    using mapping_op_state [of g m h U] v same pend h(1) by simp_all
  then have run: "run_ops U [mapping_op m] g log = Some (with_pending m h, log @ committed g)"
    by simp
  obtain g' where "apply_op U (mapping_op m) g = Some g'" "gen_ok g' (log @ op_commits (mapping_op m) g)"
    by (rule op_ok [OF ok op_small_mapping [OF v]])
  then have "gen_ok (with_pending m h) (log @ committed g)" using state by simp
  moreover have "shouldCommitMapping (with_pending m h)"
    using h(5) by (auto simp: shouldCommitMapping_def)
  ultimately have "added g0 (with_pending m h) (log @ committed g) (ms @ [m])"
    using a h v same by (auto simp: added_def pending_with_pending)
  with run show ?thesis by blast
qed

lemma run_ops_append:
  "run_ops U (ops @ ops') g log = Option.bind (run_ops U ops g log) (\<lambda>(g, log). run_ops U ops' g log)"
  by (induction ops arbitrary: g log) (auto split: bind_split)

lemma added_all:
  assumes "added g0 g0 [] []" "list_all (valid_mapping (length (sources g0)) (length (genNames g0))) ms"
    and "sorted_wrt position_less ms"
  shows "\<exists>g log. run_ops U (map mapping_op ms) g0 [] = Some (g, log) \<and> added g0 g log ms"
  using assms(2,3)
proof (induction ms rule: rev_induct)
  case Nil
  then show ?case using assms(1) by simp
next
  case (snoc m ms)
  then obtain g log where g: "run_ops U (map mapping_op ms) g0 [] = Some (g, log)" "added g0 g log ms"
    by (auto simp: sorted_wrt_append)
  have "ms = [] \<or> position_less (last ms) m"
    using snoc.prems(2) by (cases ms rule: rev_cases) (auto simp: sorted_wrt_append)
  then have "\<exists>g' log'. run_ops U [mapping_op m] g log = Some (g', log') \<and> added g0 g' log' (ms @ [m])"
    using snoc.prems(1) g(2) by (intro added_snoc) auto
  with g(1) show ?case by (simp add: run_ops_append del: run_ops.simps)
qed

text \<open>A generator with sources and names but no mapping yet.\<close>

definition declare_all :: "unicode_tables \<Rightarrow> string list \<Rightarrow> string list \<Rightarrow> Generator \<Rightarrow> Generator" where
  "declare_all U fileNames ns g =
     fold (\<lambda>name g. snd (AddName name g)) ns (fold (\<lambda>fileName g. snd (AddSource U fileName g)) fileNames g)"

lemma declare_all_fresh: "added g0 g0 [] [] \<Longrightarrow> added (declare_all U fs ns g0) (declare_all U fs ns g0) [] []"
proof -
  define P where "P g \<longleftrightarrow> added g g [] []" for g
  have source: "P (snd (AddSource U x g))" if p: "P g" for x g
  proof -
    have "gen_ok g []" "op_small (OpAddSource x)" using p by (simp_all add: P_def added_def op_small_def)
    then obtain g' where "apply_op U (OpAddSource x) g = Some g'" "gen_ok g' ([] @ op_commits (OpAddSource x) g)"
      by (rule op_ok)
    with p show ?thesis by (auto simp: P_def added_def AddSource_def Let_def split: option.splits)
  qed
  have name: "P (snd (AddName x g))" if p: "P g" for x g
  proof -
    have "gen_ok g []" "op_small (OpAddName x)" using p by (simp_all add: P_def added_def op_small_def)
    then obtain g' where "apply_op U (OpAddName x) g = Some g'" "gen_ok g' ([] @ op_commits (OpAddName x) g)"
      by (rule op_ok)
    with p show ?thesis by (auto simp: P_def added_def AddName_def Let_def split: option.splits)
  qed
  have "P (fold (\<lambda>x g. snd (AddSource U x g)) fs g)" if "P g" for g
    using that by (induction fs arbitrary: g) (simp_all add: source)
  moreover have "P (fold (\<lambda>x g. snd (AddName x g)) ns g)" if "P g" for g
    using that by (induction ns arbitrary: g) (simp_all add: name)
  moreover assume "added g0 g0 [] []"
  ultimately show ?thesis by (simp add: P_def declare_all_def)
qed

lemma added_decode:
  assumes "g0 = declare_all U fileNames ns (NewGenerator f r d options)"
    and "list_all (valid_mapping (length (sources g0)) (length (genNames g0))) ms"
    and "sorted_wrt position_less ms"
  shows "\<exists>g log raw g'. run_ops U (map mapping_op ms) g0 [] = Some (g, log) \<and> RawSourceMap_of g = Some (raw, g')
           \<and> decode_mappings (rawMappings raw) = (ms, None)
           \<and> rawSourceList raw = sources g0 \<and> rawNames raw = genNames g0"
proof -
  have "added (NewGenerator f r d options) (NewGenerator f r d options) [] []"
    using gen_ok_new by (simp add: added_def) (simp add: NewGenerator_def)
  then have "added g0 g0 [] []" unfolding assms(1) by (rule declare_all_fresh)
  then obtain g log where g: "run_ops U (map mapping_op ms) g0 [] = Some (g, log)" "added g0 g log ms"
    using added_all [OF _ assms(2,3)] by blast
  then have "gen_ok g log" by (simp add: added_def)
  then obtain h where h: "commitPendingMapping g = Some h" "gen_ok h (log @ committed g)"
    by (rule commit_ok)
  have "log @ committed g = ms"
    using g(2) by (auto simp: added_def committed_def shouldCommitMapping_def split: if_splits)
  then have "decode_mappings (mappings h) = (ms, None)"
    using h(2) by (auto simp: gen_ok_def intro: encodes_decode)
  moreover have "sources h = sources g \<and> genNames h = genNames g"
  proof (cases "shouldCommitMapping g")
    case True
    with g(2) commit_state [of g log] h(1) show ?thesis
      by (auto simp: added_def pending_written_def segment_written_def)
  next
    case False
    with h(1) show ?thesis by (simp add: commitPendingMapping_def)
  qed
  ultimately show ?thesis using g h(1) by (simp add: RawSourceMap_of_def added_def)
qed

text \<open>C20: Adding any list of mappings in the order of their generated positions, with and without sources and
  names, and taking the source map gives mappings that decode, without an error, to that list.\<close>
theorem added_mappings_decode:
  assumes "g0 = declare_all U fileNames ns (NewGenerator f r d options)"
    and "list_all (valid_mapping (length (sources g0)) (length (genNames g0))) ms"
    and "sorted_wrt position_less ms"
  shows "\<exists>g log raw g'. run_ops U (map mapping_op ms) g0 [] = Some (g, log) \<and> RawSourceMap_of g = Some (raw, g')
           \<and> decode_mappings (rawMappings raw) = (ms, None)
           \<and> rawSourceList raw = sources g0 \<and> rawNames raw = genNames g0"
  using assms by (rule added_decode)

definition sample_options :: ComparePathsOptions where
  "sample_options = \<lparr>UseCaseSensitiveFileNames = True, CurrentDirectory = ''/''\<rparr>"

definition sample_mappings :: "Mapping list" where
  "sample_mappings =
     [\<lparr>GeneratedLine = 0, GeneratedCharacter = 4, SourceIndex = 0, SourceLine = 7, SourceCharacter = 2, NameIndex = 0\<rparr>,
      \<lparr>GeneratedLine = 0, GeneratedCharacter = 9, SourceIndex = -1, SourceLine = -1, SourceCharacter = -1, NameIndex = -1\<rparr>,
      \<lparr>GeneratedLine = 3, GeneratedCharacter = 0, SourceIndex = 0, SourceLine = 1, SourceCharacter = 80, NameIndex = -1\<rparr>]"

theorem source_map_decodes_witness:
  "\<exists>g log. run_ops plain_tables [OpAddSource ''/a.ts'', OpSource 0 0 0 5 3, OpRawSourceMap, OpGenerated 2 7, OpSource 1 0 0 0 0]
             (NewGenerator ''a.js'' [] ''/'' sample_options) [] = Some (g, log)
           \<and> decode_mappings (mappings g) = (log, None)"
  by (rule source_map_decodes) (simp add: op_small_def)

theorem added_mappings_decode_witness:
  "\<exists>g log raw g'. run_ops plain_tables (map mapping_op sample_mappings)
       (declare_all plain_tables [''/a.ts''] [''x''] (NewGenerator ''a.js'' [] ''/'' sample_options)) [] = Some (g, log)
     \<and> RawSourceMap_of g = Some (raw, g') \<and> decode_mappings (rawMappings raw) = (sample_mappings, None)"
proof -
  have counts: "length (sources (declare_all plain_tables [''/a.ts''] [''x''] (NewGenerator ''a.js'' [] ''/'' sample_options))) = 1"
    "length (genNames (declare_all plain_tables [''/a.ts''] [''x''] (NewGenerator ''a.js'' [] ''/'' sample_options))) = 1"
    by (simp_all add: declare_all_def AddSource_def AddName_def NewGenerator_def Let_def)
  show ?thesis
    using added_mappings_decode [OF refl, of plain_tables "[''/a.ts'']" "[''x'']" "''a.js''" "[]" "''/''" sample_options
        sample_mappings] unfolding counts
    by (simp add: sample_mappings_def valid_mapping_def in_range_def position_less_def) blast
qed

text \<open>Taking the source map is not idempotent: when a mapping without a source has replaced one with a
  source at the same position, the second call writes a further segment, so the map that is
  recorded and the text that is written afterwards differ.\<close>
theorem raw_source_map_twice:
  "\<exists>g log raw g' raw' g''.
     run_ops U [OpAddSource fileName, OpSource 0 0 0 5 0, OpGenerated 0 0] (NewGenerator f r d options) [] = Some (g, log)
     \<and> RawSourceMap_of g = Some (raw, g') \<and> rawMappings raw = ''A''
     \<and> RawSourceMap_of g' = Some (raw', g'') \<and> rawMappings raw' = ''A,A''"
proof -
  have zero: "appendBase64VLQ 0 = Some ''A''" by code_simp
  show ?thesis
    by (simp add: AddSource_def Let_def NewGenerator_def AddSourceMapping_def AddGeneratedMapping_def position_error_def
        source_error_def keeps_generated_def isNewGeneratedPosition_def addMapping_def commitPendingMapping_def
        shouldCommitMapping_def isBacktrackingSourcePosition_def RawSourceMap_of_def write_delimiters_def write_vlq_def
        sub64_def int64_id zero write_source_def)
qed

end
