(* ===== verification/SpanMap.thy ===== *)
theory SpanMap
  imports GoSlices "HOL-Library.Word"
begin

unbundle bit_operations_syntax

text \<open>
  \<open>spanmap/spanmap.go\<close>: the map between the virtual text a content mapper produces and the original
  text, and \<open>core/text.go\<close>, whose ranges it maps. A position (\<open>TextPos\<close>, an \<open>int32\<close>) is an \<open>int\<close>:
  texts are shorter than 2 GiB, so that no sum or difference of positions of a valid map leaves the
  range of \<open>int32\<close>. Where numbers from outside are added or subtracted before they have been
  validated, in \<open>Unmarshal\<close> and in the order that \<open>New\<close> sorts by, the wrap-around is written out.
  A pointer to a map that may be nil is an \<open>option\<close>.
\<close>

section \<open>Ranges\<close>

record TextRange =
  range_pos :: int
  range_end :: int

definition NewTextRange :: "int \<Rightarrow> int \<Rightarrow> TextRange" where
  "NewTextRange p e = \<lparr>range_pos = p, range_end = e\<rparr>"

definition IsValidRange :: "TextRange \<Rightarrow> bool" where
  "IsValidRange t \<longleftrightarrow> range_pos t \<ge> 0 \<or> range_end t \<ge> 0"

definition Range_Contains :: "TextRange \<Rightarrow> int \<Rightarrow> bool" where
  "Range_Contains t p \<longleftrightarrow> p \<ge> range_pos t \<and> p < range_end t"

definition ContainsInclusive :: "TextRange \<Rightarrow> int \<Rightarrow> bool" where
  "ContainsInclusive t p \<longleftrightarrow> p \<ge> range_pos t \<and> p \<le> range_end t"

definition ContainsExclusive :: "TextRange \<Rightarrow> int \<Rightarrow> bool" where
  "ContainsExclusive t p \<longleftrightarrow> range_pos t < p \<and> p < range_end t"

definition ContainedBy :: "TextRange \<Rightarrow> TextRange \<Rightarrow> bool" where
  "ContainedBy t t2 \<longleftrightarrow> range_pos t2 \<le> range_pos t \<and> range_end t2 \<ge> range_end t"

definition Overlaps :: "TextRange \<Rightarrow> TextRange \<Rightarrow> bool" where
  "Overlaps t t2 \<longleftrightarrow> max (range_pos t) (range_pos t2) < min (range_end t) (range_end t2)"

definition Intersects :: "TextRange \<Rightarrow> TextRange \<Rightarrow> bool" where
  "Intersects t t2 \<longleftrightarrow> max (range_pos t) (range_pos t2) \<le> min (range_end t) (range_end t2)"

definition CompareTextRanges :: "TextRange \<Rightarrow> TextRange \<Rightarrow> int" where
  "CompareTextRanges r1 r2 =
     (let c = range_pos r1 - range_pos r2 in if c \<noteq> 0 then c else range_end r1 - range_end r2)"

text \<open>Two ranges overlap iff they share a position.\<close>

lemma Overlaps_iff: "Overlaps t u \<longleftrightarrow> (\<exists>p. Range_Contains t p \<and> Range_Contains u p)"
proof
  assume "Overlaps t u"
  then show "\<exists>p. Range_Contains t p \<and> Range_Contains u p"
    by (intro exI [of _ "max (range_pos t) (range_pos u)"]) (auto simp: Overlaps_def Range_Contains_def)
qed (auto simp: Overlaps_def Range_Contains_def)

section \<open>Segments\<close>

definition KindVerbatim :: int where "KindVerbatim = 0"
definition KindAtom :: int where "KindAtom = 1"
definition KindAlias :: int where "KindAlias = 2"

definition FeatureAll :: int where "FeatureAll = 2 ^ 20 - 1"

datatype Fidelity = FidelityExact | FidelityAtom | FidelityApproximate | FidelityNone

definition IsSingleSegment :: "Fidelity \<Rightarrow> bool" where
  "IsSingleSegment f \<longleftrightarrow> f = FidelityExact \<or> f = FidelityAtom"

record Segment =
  VirtualStart :: int
  VirtualEnd :: int
  OriginalStart :: int
  OriginalEnd :: int
  SegmentKind :: int
  Features :: int

record MappedPosition =
  MappedPos :: int
  PosFidelity :: Fidelity

record MappedSpan =
  Span :: TextRange
  SpanFidelity :: Fidelity

record SpanMap =
  segments :: "Segment list"

datatype MappingErrorKind =
    MappingErrorKindOverlap | MappingErrorKindOutOfBounds | MappingErrorKindVerbatimMismatch | MappingErrorKindKind
  | MappingErrorKindFeature

record MappingError =
  ErrorKind :: MappingErrorKind
  ErrorVirtualPos :: int
  ErrorOriginalPos :: int

definition mapping_error :: "MappingErrorKind \<Rightarrow> int \<Rightarrow> int \<Rightarrow> MappingError" where
  "mapping_error k v p = \<lparr>ErrorKind = k, ErrorVirtualPos = v, ErrorOriginalPos = p\<rparr>"

text \<open>\<open>s[a:b]\<close> of a string, within its bounds.\<close>

definition substr :: "string \<Rightarrow> int \<Rightarrow> int \<Rightarrow> string" where
  "substr s a b = take (nat (b - a)) (drop (nat a) s)"

fun validate_segments :: "string \<Rightarrow> string \<Rightarrow> int \<Rightarrow> Segment list \<Rightarrow> MappingError option" where
  "validate_segments virtual original previousVirtualEnd [] = None"
| "validate_segments virtual original previousVirtualEnd (s # ss) =
     (if VirtualStart s < previousVirtualEnd \<or> VirtualEnd s < VirtualStart s \<or> VirtualEnd s > int (length virtual)
      then Some (mapping_error MappingErrorKindOverlap (VirtualStart s) 0)
      else if OriginalStart s < 0 \<or> OriginalEnd s < OriginalStart s \<or> OriginalEnd s > int (length original)
      then Some (mapping_error MappingErrorKindOutOfBounds (VirtualStart s) (OriginalEnd s))
      else if SegmentKind s \<noteq> KindVerbatim \<and> SegmentKind s \<noteq> KindAtom \<and> SegmentKind s \<noteq> KindAlias
      then Some (mapping_error MappingErrorKindKind (VirtualStart s) (OriginalStart s))
      else if SegmentKind s = KindVerbatim
        \<and> (VirtualEnd s - VirtualStart s \<noteq> OriginalEnd s - OriginalStart s
           \<or> substr virtual (VirtualStart s) (VirtualEnd s) \<noteq> substr original (OriginalStart s) (OriginalEnd s))
      then Some (mapping_error MappingErrorKindVerbatimMismatch (VirtualStart s) (OriginalStart s))
      else if Features s AND NOT FeatureAll \<noteq> 0
      then Some (mapping_error MappingErrorKindFeature (VirtualStart s) (OriginalStart s))
      else validate_segments virtual original (VirtualEnd s) ss)"

definition Validate :: "SpanMap option \<Rightarrow> string \<Rightarrow> string \<Rightarrow> MappingError option" where
  "Validate m virtual original =
     (case m of None \<Rightarrow> None | Some m \<Rightarrow> validate_segments virtual original 0 (segments m))"

text \<open>Differences of \<open>int32\<close>.\<close>

definition int32 :: "int \<Rightarrow> int" where
  "int32 x = signed_take_bit 31 x"

definition NewSpanMap :: "Segment list \<Rightarrow> SpanMap" where
  "NewSpanMap segs = \<lparr>segments = sort_slice (\<lambda>a b. int32 (VirtualStart a - VirtualStart b) < 0) segs\<rparr>"

definition supportsFeature :: "Segment \<Rightarrow> int \<Rightarrow> bool" where
  "supportsFeature segment feature \<longleftrightarrow> Features segment AND feature \<noteq> 0"

definition clamp :: "int \<Rightarrow> int \<Rightarrow> int \<Rightarrow> int" where
  "clamp v lo hi = max lo (min v hi)"

section \<open>From the virtual text to the original\<close>

text \<open>The index of the segment and whether the position is inside; \<open>-1\<close> stands before the first segment.\<close>

definition segmentIndexAt :: "SpanMap \<Rightarrow> int \<Rightarrow> int \<times> bool" where
  "segmentIndexAt m p =
     (let segs = segments m; (idx, found) = BinarySearchFunc segs p (\<lambda>s p. VirtualStart s - p) in
      if found then (int idx, True)
      else
        (let prev = int idx - 1 in
         if prev \<ge> 0
            \<and> (p < VirtualEnd (segs ! nat prev)
               \<or> prev = int (length segs) - 1 \<and> p = VirtualEnd (segs ! nat prev))
         then (prev, True)
         else (prev, False)))"

definition insertionPoint :: "SpanMap \<Rightarrow> int \<Rightarrow> int" where
  "insertionPoint m prev = (if prev < 0 then 0 else OriginalEnd (segments m ! nat prev))"

definition mapLow :: "SpanMap \<Rightarrow> int \<Rightarrow> int \<Rightarrow> bool \<Rightarrow> int" where
  "mapLow m p idx inside =
     (if \<not> inside then insertionPoint m idx
      else (let seg = segments m ! nat idx in
            if SegmentKind seg = KindVerbatim
            then clamp (OriginalStart seg + (p - VirtualStart seg)) (OriginalStart seg) (OriginalEnd seg)
            else OriginalStart seg))"

definition mapHigh :: "SpanMap \<Rightarrow> int \<Rightarrow> int \<Rightarrow> bool \<Rightarrow> int" where
  "mapHigh m p idx inside =
     (if \<not> inside then insertionPoint m idx
      else (let seg = segments m ! nat idx in
            if SegmentKind seg = KindVerbatim
            then clamp (OriginalStart seg + (p - VirtualStart seg)) (OriginalStart seg) (OriginalEnd seg)
            else OriginalEnd seg))"

definition VirtualToOriginalPosition :: "SpanMap option \<Rightarrow> int \<Rightarrow> int \<times> Fidelity" where
  "VirtualToOriginalPosition m p =
     (case m of None \<Rightarrow> (p, FidelityExact)
      | Some m \<Rightarrow>
          (let (idx, inside) = segmentIndexAt m p in
           if \<not> inside then (insertionPoint m idx, FidelityNone)
           else (let seg = segments m ! nat idx in
                 if SegmentKind seg = KindVerbatim
                 then (clamp (OriginalStart seg + (p - VirtualStart seg)) (OriginalStart seg) (OriginalEnd seg), FidelityExact)
                 else (OriginalStart seg, FidelityAtom))))"

definition VirtualToOriginalSpan :: "SpanMap option \<Rightarrow> TextRange \<Rightarrow> TextRange \<times> Fidelity" where
  "VirtualToOriginalSpan m0 r =
     (case m0 of None \<Rightarrow> (r, FidelityExact)
      | Some m \<Rightarrow>
          (let virtualStart = range_pos r; virtualEnd = max (range_end r) virtualStart in
           if virtualStart = virtualEnd
           then (let (position, fidelity) = VirtualToOriginalPosition m0 virtualStart
                 in (NewTextRange position position, fidelity))
           else
             (let (startIdx, startIn) = segmentIndexAt m virtualStart;
                  (endIdx, endIn) = segmentIndexAt m (virtualEnd - 1)
              in if startIdx = endIdx \<and> startIn = endIn
                 then
                   (if startIn
                    then (let seg = segments m ! nat startIdx in
                          if SegmentKind seg = KindVerbatim
                          then (let origStart = clamp (OriginalStart seg + (virtualStart - VirtualStart seg))
                                                  (OriginalStart seg) (OriginalEnd seg);
                                    origEnd = clamp (OriginalStart seg + (virtualEnd - VirtualStart seg))
                                                origStart (OriginalEnd seg)
                                in (NewTextRange origStart origEnd, FidelityExact))
                          else (NewTextRange (OriginalStart seg) (OriginalEnd seg), FidelityAtom))
                    else (let p = insertionPoint m startIdx in (NewTextRange p p, FidelityNone)))
                 else
                   (let origStart = mapLow m virtualStart startIdx startIn;
                        origEnd = max (mapHigh m virtualEnd endIdx endIn) origStart
                    in (NewTextRange origStart origEnd, FidelityApproximate)))))"

text \<open>The loop of \<open>virtualSpanSupportsFeature\<close> over the segments from the first one on.\<close>

fun covers :: "Segment list \<Rightarrow> int \<Rightarrow> int \<Rightarrow> int \<Rightarrow> bool" where
  "covers [] coveredThrough e feature = (coveredThrough \<ge> e)"
| "covers (segment # segs) coveredThrough e feature =
     (if coveredThrough < e
      then (if VirtualStart segment > coveredThrough \<or> VirtualEnd segment \<le> coveredThrough
               \<or> \<not> supportsFeature segment feature
            then False
            else covers segs (VirtualEnd segment) e feature)
      else coveredThrough \<ge> e)"

definition virtualSpanSupportsFeature :: "SpanMap \<Rightarrow> TextRange \<Rightarrow> int \<Rightarrow> bool" where
  "virtualSpanSupportsFeature m r feature =
     (let start = range_pos r; e = max (range_end r) start; (index0, inside) = segmentIndexAt m start in
      if start = e then inside \<and> supportsFeature (segments m ! nat index0) feature
      else if \<not> inside then False
      else covers (drop (nat index0) (segments m)) start e feature)"

definition VirtualToOriginalSpanForFeature :: "SpanMap option \<Rightarrow> TextRange \<Rightarrow> int \<Rightarrow> TextRange \<times> Fidelity" where
  "VirtualToOriginalSpanForFeature m r feature =
     (let (mapped, fidelity) = VirtualToOriginalSpan m r in
      case m of None \<Rightarrow> (mapped, fidelity)
      | Some m \<Rightarrow> if virtualSpanSupportsFeature m r feature then (mapped, fidelity) else (mapped, FidelityNone))"

definition VirtualToOriginalPositionExact :: "SpanMap option \<Rightarrow> int \<Rightarrow> int \<times> bool" where
  "VirtualToOriginalPositionExact m0 p =
     (let (mapped, fidelity) = VirtualToOriginalPosition m0 p in
      case m0 of None \<Rightarrow> (mapped, fidelity = FidelityExact)
      | Some m \<Rightarrow>
          if fidelity \<noteq> FidelityExact then (mapped, False)
          else
            (let (index0, inside) = segmentIndexAt m p in
             if \<not> inside \<or> SegmentKind (segments m ! nat index0) \<noteq> KindVerbatim then (mapped, False)
             else if index0 > 0
                     \<and> (let previous = segments m ! nat (index0 - 1) in
                        VirtualEnd previous = p
                        \<and> (SegmentKind previous \<noteq> KindVerbatim
                           \<or> OriginalEnd previous \<noteq> OriginalStart (segments m ! nat index0)))
                  then (mapped, False)
                  else (mapped, True)))"

definition VirtualToOriginalPositionForFeature :: "SpanMap option \<Rightarrow> int \<Rightarrow> int \<Rightarrow> int \<times> Fidelity" where
  "VirtualToOriginalPositionForFeature m0 p feature =
     (let (mapped, fidelity) = VirtualToOriginalPosition m0 p in
      case m0 of None \<Rightarrow> (mapped, fidelity)
      | Some m \<Rightarrow>
          (let (index0, inside) = segmentIndexAt m p in
           if \<not> inside \<or> \<not> supportsFeature (segments m ! nat index0) feature then (mapped, FidelityNone)
           else (mapped, fidelity)))"

definition AliasForVirtualSpan :: "SpanMap option \<Rightarrow> TextRange \<Rightarrow> (Segment option \<times> bool)" where
  "AliasForVirtualSpan m r =
     (case m of None \<Rightarrow> (None, False)
      | Some m \<Rightarrow>
          (let (index0, inside) = segmentIndexAt m (range_pos r) in
           if \<not> inside then (None, False)
           else (let segment = segments m ! nat index0 in
                 (Some segment, SegmentKind segment = KindAlias \<and> range_pos r = VirtualStart segment
                     \<and> range_end r = VirtualEnd segment))))"

end
