(* ===== verification/SpanMapVirtual.thy ===== *)
theory SpanMapVirtual
  imports SpanMap
begin

text \<open>
  What a valid span map promises for positions of the virtual text: what \<open>Validate\<close> accepts, that
  lookups find the segment of a position, that results lie in the original text, that an exact range
  has the same text on both sides, and that a range that is offered to a feature is covered by
  segments that take part in it.
\<close>

section \<open>Valid maps\<close>

definition segment_ok :: "string \<Rightarrow> string \<Rightarrow> Segment \<Rightarrow> bool" where
  "segment_ok virtual original s \<longleftrightarrow>
     0 \<le> VirtualStart s \<and> VirtualStart s \<le> VirtualEnd s \<and> VirtualEnd s \<le> int (length virtual)
     \<and> 0 \<le> OriginalStart s \<and> OriginalStart s \<le> OriginalEnd s \<and> OriginalEnd s \<le> int (length original)
     \<and> SegmentKind s \<in> {KindVerbatim, KindAtom, KindAlias}
     \<and> Features s AND NOT FeatureAll = 0
     \<and> (if SegmentKind s = KindVerbatim
        then VirtualEnd s - VirtualStart s = OriginalEnd s - OriginalStart s
             \<and> substr virtual (VirtualStart s) (VirtualEnd s) = substr original (OriginalStart s) (OriginalEnd s)
        else True)"

definition before :: "Segment \<Rightarrow> Segment \<Rightarrow> bool" where
  "before s t \<longleftrightarrow> VirtualEnd s \<le> VirtualStart t"

lemma if_Some_None: "(if b then Some x else y) = None \<longleftrightarrow> \<not> b \<and> y = None"
  by simp

lemma validate_step:
  "0 \<le> prev \<Longrightarrow> validate_segments virtual original prev (s # ss) = None \<longleftrightarrow>
     prev \<le> VirtualStart s \<and> segment_ok virtual original s \<and> validate_segments virtual original (VirtualEnd s) ss = None"
  unfolding validate_segments.simps segment_ok_def if_Some_None
  by (cases "SegmentKind s = KindVerbatim") (simp_all add: not_less, linarith+)

lemma validate_segments_iff:
  "0 \<le> prev \<Longrightarrow> validate_segments virtual original prev ss = None \<longleftrightarrow>
     list_all (segment_ok virtual original) ss \<and> sorted_wrt before ss \<and> list_all (\<lambda>s. prev \<le> VirtualStart s) ss"
proof (induction ss arbitrary: prev)
  case (Cons s ss)
  have sorted: "sorted_wrt before (s # ss) \<longleftrightarrow> list_all (\<lambda>t. VirtualEnd s \<le> VirtualStart t) ss \<and> sorted_wrt before ss"
    by (simp add: list_all_iff before_def [of s])
  show ?case
  proof (cases "prev \<le> VirtualStart s \<and> segment_ok virtual original s")
    case True
    then have "0 \<le> VirtualEnd s" "VirtualStart s \<le> VirtualEnd s" using Cons.prems by (auto simp: segment_ok_def)
    moreover have "list_all (\<lambda>t. VirtualEnd s \<le> VirtualStart t) ss \<Longrightarrow> list_all (\<lambda>t. prev \<le> VirtualStart t) ss"
      using True \<open>VirtualStart s \<le> VirtualEnd s\<close> by (auto simp: list_all_iff)
    ultimately show ?thesis
      using True validate_step [OF Cons.prems] Cons.IH [of "VirtualEnd s"] sorted unfolding list.pred_inject by metis
  next
    case False
    then show ?thesis using validate_step [OF Cons.prems] unfolding list.pred_inject by metis
  qed
qed simp

definition valid_map :: "string \<Rightarrow> string \<Rightarrow> SpanMap \<Rightarrow> bool" where
  "valid_map virtual original m \<longleftrightarrow> list_all (segment_ok virtual original) (segments m) \<and> sorted_wrt before (segments m)"

lemma Validate_None: "Validate (Some m) virtual original = None \<longleftrightarrow> valid_map virtual original m"
  using validate_segments_iff [of 0 virtual original "segments m"]
  by (auto simp: Validate_def valid_map_def segment_ok_def list_all_iff)

text \<open>C22: \<open>Validate\<close> accepts a map exactly if its segments are ordered and disjoint in the virtual text, every
  segment lies within both texts, has a known kind and known features, and every verbatim segment has
  the same text on both sides; a nil map is accepted.\<close>
theorem Validate_iff:
  "Validate m virtual original = None \<longleftrightarrow>
     (case m of None \<Rightarrow> True
      | Some m \<Rightarrow> list_all (segment_ok virtual original) (segments m) \<and> sorted_wrt before (segments m))"
  by (cases m) (simp_all add: Validate_None valid_map_def, simp add: Validate_def)

section \<open>Lookup\<close>

lemma valid_nth: "valid_map v w m \<Longrightarrow> i < length (segments m) \<Longrightarrow> segment_ok v w (segments m ! i)"
  by (simp add: valid_map_def list_all_length)

lemma valid_before:
  "valid_map v w m \<Longrightarrow> i < j \<Longrightarrow> j < length (segments m) \<Longrightarrow> VirtualEnd (segments m ! i) \<le> VirtualStart (segments m ! j)"
  using sorted_wrt_nth_less [of before "segments m" i j] by (simp add: valid_map_def before_def)

lemma valid_starts:
  "valid_map v w m \<Longrightarrow> i \<le> j \<Longrightarrow> j < length (segments m) \<Longrightarrow> VirtualStart (segments m ! i) \<le> VirtualStart (segments m ! j)"
  using valid_before [of v w m i j] valid_nth [of v w m i] by (cases "i = j") (auto simp: segment_ok_def)

definition inside_segment :: "SpanMap \<Rightarrow> int \<Rightarrow> nat \<Rightarrow> bool" where
  "inside_segment m p i \<longleftrightarrow>
     i < length (segments m) \<and> VirtualStart (segments m ! i) \<le> p
     \<and> (p < VirtualEnd (segments m ! i) \<or> p = VirtualStart (segments m ! i)
        \<or> Suc i = length (segments m) \<and> p = VirtualEnd (segments m ! i))"

lemma segmentIndexAt_cases:
  assumes v: "valid_map v w m"
  obtains (inside) i where "segmentIndexAt m p = (int i, True)" "inside_segment m p i"
  | (gap) i where "segmentIndexAt m p = (i, False)" "-1 \<le> i" "i < int (length (segments m))"
      "\<And>k. int k \<le> i \<Longrightarrow> VirtualEnd (segments m ! k) \<le> p"
      "\<And>k. i < int k \<Longrightarrow> k < length (segments m) \<Longrightarrow> p < VirtualStart (segments m ! k)"
proof -
  define segs where "segs = segments m"
  obtain idx found where b: "BinarySearchFunc segs p (\<lambda>s p. VirtualStart s - p) = (idx, found)"
    by (cases "BinarySearchFunc segs p (\<lambda>s p. VirtualStart s - p)")
  have mono: "\<forall>k l. k \<le> l \<longrightarrow> l < length segs \<longrightarrow> VirtualStart (segs ! l) - p < 0 \<longrightarrow> VirtualStart (segs ! k) - p < 0"
    using valid_starts [OF v] by (fastforce simp: segs_def)
  note first = BinarySearchFunc_first [OF b mono]
  show thesis
  proof (cases found)
    case True
    then have "segmentIndexAt m p = (int idx, True)" by (simp add: segmentIndexAt_def segs_def [symmetric] b)
    moreover have "inside_segment m p idx" using first(2) True by (simp add: inside_segment_def segs_def)
    ultimately show thesis by (rule inside)
  next
    case False
    have later: "p < VirtualStart (segs ! k)" if k: "idx \<le> k" "k < length segs" for k
    proof -
      have "VirtualStart (segs ! idx) - p \<ge> 0" using first(4) [where k = idx] k by simp
      then have "VirtualStart (segs ! idx) > p" using first(2) False k by (cases "VirtualStart (segs ! idx) = p") auto
      then show ?thesis using valid_starts [OF v k(1)] k(2) by (simp add: segs_def)
    qed
    show thesis
    proof (cases idx)
      case 0
      then have "segmentIndexAt m p = (-1, False)" using False by (simp add: segmentIndexAt_def segs_def [symmetric] b)
      then show thesis by (rule gap) (use later 0 in \<open>simp_all add: segs_def\<close>)
    next
      case (Suc i)
      have len: "i < length segs" using first(1) Suc by simp
      have start: "VirtualStart (segs ! i) < p" using first(3) [where k = i] Suc by simp
      show thesis
      proof (cases "p < VirtualEnd (segs ! i) \<or> Suc i = length segs \<and> p = VirtualEnd (segs ! i)")
        case True
        then have "segmentIndexAt m p = (int i, True)"
          using False Suc len by (auto simp: segmentIndexAt_def segs_def [symmetric] b)
        moreover have "inside_segment m p i" using True start len by (auto simp: inside_segment_def segs_def)
        ultimately show thesis by (rule inside)
      next
        case out: False
        then have "segmentIndexAt m p = (int i, False)"
          using False Suc len by (auto simp: segmentIndexAt_def segs_def [symmetric] b)
        moreover have "VirtualEnd (segs ! k) \<le> p" if "int k \<le> int i" for k
          using that out start len valid_before [OF v, of k i] by (cases "k = i") (auto simp: segs_def)
        ultimately show thesis using later Suc len by (intro gap [of "int i"]) (auto simp: segs_def)
      qed
    qed
  qed
qed

section \<open>Results lie in the original text\<close>

lemma valid_original:
  "valid_map v w m \<Longrightarrow> i < length (segments m) \<Longrightarrow>
     0 \<le> OriginalStart (segments m ! i) \<and> OriginalStart (segments m ! i) \<le> OriginalEnd (segments m ! i)
     \<and> OriginalEnd (segments m ! i) \<le> int (length w)"
  using valid_nth [of v w m i] by (simp add: segment_ok_def)

definition in_text :: "string \<Rightarrow> int \<Rightarrow> bool" where
  "in_text s p \<longleftrightarrow> 0 \<le> p \<and> p \<le> int (length s)"

lemma insertionPoint_in_text:
  "valid_map v w m \<Longrightarrow> i < int (length (segments m)) \<Longrightarrow> in_text w (insertionPoint m i)"
  using valid_original [of v w m "nat i"] by (auto simp: insertionPoint_def in_text_def nat_less_iff)

lemma clamp_range: "lo \<le> hi \<Longrightarrow> lo \<le> clamp x lo hi \<and> clamp x lo hi \<le> hi"
  by (simp add: clamp_def)

lemma lookup_in_range:
  assumes "valid_map v w m" "segmentIndexAt m p = (i, b)"
  shows "i < int (length (segments m))" "b \<Longrightarrow> 0 \<le> i"
  using assms(2) by (rule_tac [!] segmentIndexAt_cases [OF assms(1), of p]) (auto simp: inside_segment_def)

lemma map_in_text:
  assumes v: "valid_map v w m" and i: "segmentIndexAt m p = (i, b)"
  shows "in_text w (mapLow m q i b)" "in_text w (mapHigh m q i b)"
proof -
  have point: "in_text w (insertionPoint m i)" using lookup_in_range(1) [OF v i] insertionPoint_in_text [OF v] by simp
  define s where "s = segments m ! nat i"
  have s: "0 \<le> OriginalStart s \<and> OriginalStart s \<le> OriginalEnd s \<and> OriginalEnd s \<le> int (length w)" if b
    using valid_original [OF v, of "nat i"] lookup_in_range [OF v i] that by (simp add: s_def nat_less_iff)
  have within: "in_text w x" if "b" "OriginalStart s \<le> x" "x \<le> OriginalEnd s" for x
    using s that by (simp add: in_text_def)
  show "in_text w (mapLow m q i b)"
    using point s within clamp_range [of "OriginalStart s" "OriginalEnd s"]
    by (cases b) (simp_all add: mapLow_def s_def [symmetric] Let_def)
  show "in_text w (mapHigh m q i b)"
    using point s within clamp_range [of "OriginalStart s" "OriginalEnd s"]
    by (cases b) (simp_all add: mapHigh_def s_def [symmetric] Let_def)
qed

lemma position_in_text:
  assumes "valid_map v w m"
  shows "in_text w (fst (VirtualToOriginalPosition (Some m) p))"
proof -
  obtain i b where i: "segmentIndexAt m p = (i, b)" by (cases "segmentIndexAt m p")
  have "fst (VirtualToOriginalPosition (Some m) p) = mapLow m p i b"
    by (simp add: VirtualToOriginalPosition_def i mapLow_def Let_def)
  then show ?thesis using map_in_text [OF assms i] by simp
qed

definition range_in_text :: "string \<Rightarrow> TextRange \<Rightarrow> bool" where
  "range_in_text s r \<longleftrightarrow> 0 \<le> range_pos r \<and> range_pos r \<le> range_end r \<and> range_end r \<le> int (length s)"

text \<open>The cases of \<open>VirtualToOriginalSpan\<close>.\<close>

definition seg_at :: "SpanMap \<Rightarrow> int \<Rightarrow> Segment" where
  "seg_at m i = segments m ! nat i"

definition exact_range :: "Segment \<Rightarrow> int \<Rightarrow> int \<Rightarrow> TextRange" where
  "exact_range s p q =
     (let origStart = clamp (OriginalStart s + (p - VirtualStart s)) (OriginalStart s) (OriginalEnd s)
      in NewTextRange origStart (clamp (OriginalStart s + (q - VirtualStart s)) origStart (OriginalEnd s)))"

lemma exact_range_range:
  assumes "OriginalStart s \<le> OriginalEnd s"
  shows "OriginalStart s \<le> range_pos (exact_range s p q)" "range_pos (exact_range s p q) \<le> range_end (exact_range s p q)"
    "range_end (exact_range s p q) \<le> OriginalEnd s"
proof -
  define a where "a = clamp (OriginalStart s + (p - VirtualStart s)) (OriginalStart s) (OriginalEnd s)"
  have a: "OriginalStart s \<le> a" "a \<le> OriginalEnd s" using clamp_range [OF assms] by (simp_all add: a_def)
  have r: "exact_range s p q = NewTextRange a (clamp (OriginalStart s + (q - VirtualStart s)) a (OriginalEnd s))"
    by (simp add: exact_range_def a_def Let_def)
  show "OriginalStart s \<le> range_pos (exact_range s p q)" "range_pos (exact_range s p q) \<le> range_end (exact_range s p q)"
    "range_end (exact_range s p q) \<le> OriginalEnd s"
    unfolding r using a clamp_range [OF a(2)] by (simp_all add: NewTextRange_def)
qed

lemma span_point:
  "range_end r \<le> range_pos r \<Longrightarrow> VirtualToOriginalSpan (Some m) r =
     (let (position, fidelity) = VirtualToOriginalPosition (Some m) (range_pos r) in (NewTextRange position position, fidelity))"
  by (simp add: VirtualToOriginalSpan_def Let_def max_absorb2)

lemma span_inside:
  assumes "range_pos r < range_end r" "segmentIndexAt m (range_pos r) = (i, True)" "segmentIndexAt m (range_end r - 1) = (i, True)"
  shows "VirtualToOriginalSpan (Some m) r =
     (if SegmentKind (seg_at m i) = KindVerbatim then (exact_range (seg_at m i) (range_pos r) (range_end r), FidelityExact)
      else (NewTextRange (OriginalStart (seg_at m i)) (OriginalEnd (seg_at m i)), FidelityAtom))"
  using assms by (simp add: VirtualToOriginalSpan_def Let_def max_absorb1 seg_at_def exact_range_def)

lemma span_gap:
  assumes "range_pos r < range_end r" "segmentIndexAt m (range_pos r) = (i, False)" "segmentIndexAt m (range_end r - 1) = (i, False)"
  shows "VirtualToOriginalSpan (Some m) r = (NewTextRange (insertionPoint m i) (insertionPoint m i), FidelityNone)"
  using assms by (simp add: VirtualToOriginalSpan_def Let_def max_absorb1)

lemma span_cross:
  assumes "range_pos r < range_end r" "segmentIndexAt m (range_pos r) = (i, b)" "segmentIndexAt m (range_end r - 1) = (j, c)"
    "(i, b) \<noteq> (j, c)"
  shows "VirtualToOriginalSpan (Some m) r =
     (NewTextRange (mapLow m (range_pos r) i b)
        (max (mapHigh m (range_end r) j c) (mapLow m (range_pos r) i b)), FidelityApproximate)"
  using assms by (auto simp: VirtualToOriginalSpan_def Let_def max_absorb1)

text \<open>C23: For a valid map every virtual range, wherever it lies, maps to a range within the original text.\<close>
theorem VirtualToOriginalSpan_in_text:
  assumes "Validate (Some m) virtual original = None"
  shows "range_in_text original (fst (VirtualToOriginalSpan (Some m) r))"
proof (cases "range_pos r < range_end r")
  case nonempty: True
  have v: "valid_map virtual original m" using assms by (simp add: Validate_None)
  obtain i b where i: "segmentIndexAt m (range_pos r) = (i, b)" by (cases "segmentIndexAt m (range_pos r)")
  obtain j c where j: "segmentIndexAt m (range_end r - 1) = (j, c)" by (cases "segmentIndexAt m (range_end r - 1)")
  show ?thesis
  proof (cases "(i, b) = (j, c)")
    case True
    define s where "s = seg_at m i"
    have s: "0 \<le> OriginalStart s" "OriginalStart s \<le> OriginalEnd s" "OriginalEnd s \<le> int (length original)" if b
      using valid_original [OF v, of "nat i"] lookup_in_range [OF v i] that by (simp_all add: s_def seg_at_def nat_less_iff)
    have "range_in_text original (NewTextRange (OriginalStart s) (OriginalEnd s))" if b
      using s [OF that] by (simp add: range_in_text_def NewTextRange_def)
    moreover have "range_in_text original (exact_range s p q)" if b for p q
      using s [OF that] exact_range_range [OF s(2) [OF that], of p q] by (simp add: range_in_text_def)
    moreover have "range_in_text original (NewTextRange (insertionPoint m i) (insertionPoint m i))"
      using insertionPoint_in_text [OF v lookup_in_range(1) [OF v i]]
      by (simp add: range_in_text_def NewTextRange_def in_text_def)
    ultimately show ?thesis
      using span_inside [OF nonempty, of m i] span_gap [OF nonempty, of m i] i j True
      by (cases b) (simp_all add: s_def)
  next
    case False
    show ?thesis
      using span_cross [OF nonempty i j False] map_in_text(1) [OF v i, of "range_pos r"] map_in_text(2) [OF v j, of "range_end r"]
      by (simp add: range_in_text_def NewTextRange_def in_text_def)
  qed
next
  case False
  then show ?thesis
    using span_point [of r m] position_in_text [of virtual original m "range_pos r"] assms
    by (simp add: Validate_None split_beta range_in_text_def NewTextRange_def in_text_def)
qed

section \<open>Exact ranges\<close>

lemma substr_within:
  assumes "substr v a b = substr w c d" "0 \<le> a" "0 \<le> c" "b - a = d - c" "a \<le> p" "p \<le> q" "q \<le> b"
  shows "substr v p q = substr w (c + (p - a)) (c + (q - a))"
proof -
  have sub: "substr s p' q' = take (nat (q' - p')) (drop (nat (p' - a')) (substr s a' b'))"
    if "0 \<le> a'" "a' \<le> p'" "p' \<le> q'" "q' \<le> b'" for s p' q' a' b'
  proof -
    have "nat (p' - a') + nat a' = nat p'" "nat (q' - p') + nat (p' - a') \<le> nat (b' - a')"
      using that by linarith+
    then have "nat (p' - a') + nat a' = nat p'" "nat (q' - p') \<le> nat (b' - a') - nat (p' - a')" by linarith+
    then have "take (nat (q' - p')) (drop (nat (p' - a')) (take (nat (b' - a')) (drop (nat a') s)))
        = take (nat (q' - p')) (drop (nat p') s)"
      by (simp add: drop_take min_def)
    then show ?thesis by (simp add: substr_def)
  qed
  have "substr w (c + (p - a)) (c + (q - a)) = take (nat (q - p)) (drop (nat (p - a)) (substr w c d))"
    using sub [of c "c + (p - a)" "c + (q - a)" d w] assms by (simp add: algebra_simps)
  then show ?thesis using sub [of a p q b v] assms by simp
qed

lemma empty_substr: "substr s a a = []"
  by (simp add: substr_def)

definition empty_segment :: "Segment \<Rightarrow> bool" where
  "empty_segment s \<longleftrightarrow> VirtualStart s = VirtualEnd s"

text \<open>C24: An exact range has the same text on both sides, so that an edit of the one can be written to the
  other. This needs two things that \<open>Validate\<close> does not ask for: the range must not go beyond the last
  segment, and no segment may be empty.\<close>
theorem exact_span_same_text:
  assumes "Validate (Some m) virtual original = None"
    and "VirtualToOriginalSpan (Some m) r = (r', FidelityExact)" "range_pos r \<le> range_end r"
    and "range_end r \<le> VirtualEnd (last (segments m))" "\<not> list_ex empty_segment (segments m)"
  shows "substr virtual (range_pos r) (range_end r) = substr original (range_pos r') (range_end r')"
proof -
  have v: "valid_map virtual original m" using assms(1) by (simp add: Validate_None)
  show ?thesis
  proof (cases "range_pos r < range_end r")
    case False
    then have "range_pos r = range_end r" using assms(3) by simp
    moreover have "range_pos r' = range_end r'"
      using span_point [of r m] False assms(2) by (auto simp: split_beta NewTextRange_def)
    ultimately show ?thesis by (simp add: empty_substr)
  next
    case nonempty: True
    obtain i b where i: "segmentIndexAt m (range_pos r) = (i, b)" by (cases "segmentIndexAt m (range_pos r)")
    obtain j c where j: "segmentIndexAt m (range_end r - 1) = (j, c)" by (cases "segmentIndexAt m (range_end r - 1)")
    define s where "s = seg_at m i"
    have same: "(j, c) = (i, b)" using span_cross [OF nonempty i j] assms(2) by auto
    have b using span_gap [OF nonempty, of m i] i j same assms(2) by (cases b) auto
    have r': "SegmentKind s = KindVerbatim" "r' = exact_range s (range_pos r) (range_end r)"
      using span_inside [OF nonempty, of m i] i j same \<open>b\<close> assms(2) by (auto simp: s_def split: if_splits)
    have in1: "inside_segment m (range_pos r) (nat i)"
      using i \<open>b\<close> by (rule_tac segmentIndexAt_cases [OF v, of "range_pos r"]) auto
    have in2: "inside_segment m (range_end r - 1) (nat i)"
      using j same \<open>b\<close> by (rule_tac segmentIndexAt_cases [OF v, of "range_end r - 1"]) auto
    have ok: "segment_ok virtual original s" using valid_nth [OF v] in1 by (simp add: s_def seg_at_def inside_segment_def)
    have "s \<in> set (segments m)" using in1 by (simp add: s_def seg_at_def inside_segment_def)
    then have "VirtualStart s < VirtualEnd s"
      using assms(5) ok by (auto simp: list_ex_iff empty_segment_def segment_ok_def order_less_le)
    moreover have "last (segments m) = s" if "Suc (nat i) = length (segments m)"
    proof -
      have "segments m \<noteq> []" using that by auto
      then show ?thesis using that by (simp add: last_conv_nth s_def seg_at_def flip: that)
    qed
    ultimately have "range_end r \<le> VirtualEnd s"
      using in2 assms(4) by (auto simp: inside_segment_def s_def [symmetric] seg_at_def [symmetric])
    moreover have "VirtualStart s \<le> range_pos r" using in1 by (simp add: inside_segment_def s_def seg_at_def)
    moreover have "VirtualEnd s - VirtualStart s = OriginalEnd s - OriginalStart s"
      "substr virtual (VirtualStart s) (VirtualEnd s) = substr original (OriginalStart s) (OriginalEnd s)"
      "0 \<le> VirtualStart s" "0 \<le> OriginalStart s"
      using ok r'(1) by (simp_all add: segment_ok_def)
    ultimately show ?thesis
      using nonempty substr_within [of virtual "VirtualStart s" "VirtualEnd s" original "OriginalStart s" "OriginalEnd s"
          "range_pos r" "range_end r"]
      by (simp add: r'(2) exact_range_def Let_def NewTextRange_def clamp_def)
  qed
qed

section \<open>Ranges for a feature\<close>

lemma covers_position:
  "covers segs c e f \<Longrightarrow> c \<le> p \<Longrightarrow> p < e \<Longrightarrow>
     \<exists>s\<in>set segs. supportsFeature s f \<and> VirtualStart s \<le> p \<and> p < VirtualEnd s"
proof (induction segs c e f rule: covers.induct)
  case (2 s segs c e f)
  then show ?case by (cases "p < VirtualEnd s") (auto split: if_splits)
qed simp

text \<open>If a range is mapped for a feature, every position of it lies in a segment that takes part in the
  feature, whatever the map.\<close>
theorem feature_span_covered:
  assumes "VirtualToOriginalSpanForFeature (Some m) r feature = (r', fidelity)" "fidelity \<noteq> FidelityNone"
    and "range_pos r \<le> p" "p < range_end r"
  shows "list_ex (\<lambda>s. supportsFeature s feature \<and> VirtualStart s \<le> p \<and> p < VirtualEnd s) (segments m)"
proof -
  have "virtualSpanSupportsFeature m r feature"
    using assms(1,2) by (auto simp: VirtualToOriginalSpanForFeature_def split_beta split: if_splits)
  then obtain i where "covers (drop i (segments m)) (range_pos r) (range_end r) feature"
    using assms(3,4) by (auto simp: virtualSpanSupportsFeature_def Let_def max_def split_beta split: if_splits)
  from covers_position [OF this assms(3,4)] show ?thesis
    by (auto simp: list_ex_iff dest: in_set_dropD)
qed

section \<open>Examples\<close>

definition verbatim :: "int \<Rightarrow> int \<Rightarrow> int \<Rightarrow> Segment" where
  "verbatim v p n = \<lparr>VirtualStart = v, VirtualEnd = v + n, OriginalStart = p, OriginalEnd = p + n,
                    SegmentKind = KindVerbatim, Features = FeatureAll\<rparr>"

definition tail_map :: SpanMap where
  "tail_map = NewSpanMap [verbatim 0 0 3]"

definition two_segments :: SpanMap where
  "two_segments = NewSpanMap [verbatim 4 0 2, verbatim 1 5 3]"

theorem Validate_two_segments: "Validate (Some two_segments) ''_cde12'' ''12xyzcdef'' = None"
  by code_simp

text \<open>A range that reaches one position beyond the last segment, into text without an origin, is reported
  as exact although the texts differ, and so is a range that lies wholly behind it.\<close>
theorem exact_beyond_last_segment:
  "Validate (Some tail_map) ''abcX'' ''abc'' = None
   \<and> VirtualToOriginalSpan (Some tail_map) (NewTextRange 1 4) = (NewTextRange 1 3, FidelityExact)
   \<and> substr ''abcX'' 1 4 = ''bcX'' \<and> substr ''abc'' 1 3 = ''bc''
   \<and> VirtualToOriginalSpan (Some tail_map) (NewTextRange 3 4) = (NewTextRange 3 3, FidelityExact)"
  by code_simp

theorem VirtualToOriginalSpan_in_text_witness:
  "range_in_text ''12xyzcdef'' (fst (VirtualToOriginalSpan (Some two_segments) (NewTextRange 0 9)))"
  by (rule VirtualToOriginalSpan_in_text [OF Validate_two_segments])

theorem exact_span_same_text_witness: "substr ''_cde12'' 2 4 = substr ''12xyzcdef'' 6 8"
proof -
  have "VirtualToOriginalSpan (Some two_segments) (NewTextRange 2 4) = (NewTextRange 6 8, FidelityExact)"
    "range_end (NewTextRange 2 4) \<le> VirtualEnd (last (segments two_segments))"
    "\<not> list_ex empty_segment (segments two_segments)" by code_simp+
  from exact_span_same_text [OF Validate_two_segments this(1) _ this(2,3)]
  show ?thesis by (simp add: NewTextRange_def)
qed

theorem feature_span_covered_witness:
  "list_ex (\<lambda>s. supportsFeature s 1 \<and> VirtualStart s \<le> 4 \<and> 4 < VirtualEnd s) (segments two_segments)"
proof -
  have "VirtualToOriginalSpanForFeature (Some two_segments) (NewTextRange 2 5) 1 = (NewTextRange 6 6, FidelityApproximate)"
    by code_simp
  from feature_span_covered [OF this, of 4] show ?thesis by (simp add: NewTextRange_def)
qed

end
