(* ===== verification/SpanMapOriginal.thy ===== *)
theory SpanMapOriginal
  imports SpanMapVirtual
begin

text \<open>
  The other direction of \<open>spanmap/spanmap.go\<close>: the interval index over the original text, with its tree
  of maximal ends in a flat array, the projections of an original position or range into the
  virtual text, and the tuples of the JSON form. The tree walk is proved to be a filter of the
  segments, so that every later result is stated about the segments alone.
\<close>

section \<open>The index\<close>

record originalIndex =
  idx_segments :: "Segment list"
  leafCount :: nat
  maxEnds :: "int list"

definition original_less :: "Segment \<Rightarrow> Segment \<Rightarrow> bool" where
  "original_less a b \<longleftrightarrow>
     (let c = int32 (OriginalStart a - OriginalStart b) in
      if c \<noteq> 0 then c < 0
      else (let c = int32 (OriginalEnd a - OriginalEnd b) in
            if c \<noteq> 0 then c < 0 else int32 (VirtualStart a - VirtualStart b) < 0))"

function leaf_count :: "nat \<Rightarrow> nat \<Rightarrow> nat" where
  "leaf_count n l = (if 0 < l \<and> l < n then leaf_count n (l * 2) else l)"
  by pat_completeness auto
termination by (relation "measure (\<lambda>(n, l). n - l)") auto

declare leaf_count.simps [simp del]

text \<open>The leaves are written first, then the inner nodes from the last to the first.\<close>

fun set_inner :: "nat \<Rightarrow> int list \<Rightarrow> int list" where
  "set_inner 0 a = a"
| "set_inner (Suc i) a = set_inner i (a[Suc i := max (a ! (2 * Suc i)) (a ! (2 * Suc i + 1))])"

definition build_maxEnds :: "Segment list \<Rightarrow> nat \<Rightarrow> int list" where
  "build_maxEnds segs l =
     set_inner (l - 1) (replicate l 0 @ map OriginalEnd segs @ replicate (l - length segs) 0)"

definition origIndex :: "SpanMap \<Rightarrow> originalIndex" where
  "origIndex m =
     (let segs = sort_slice original_less (segments m); l = leaf_count (length segs) 1 in
      \<lparr>idx_segments = segs, leafCount = l, maxEnds = build_maxEnds segs l\<rparr>)"

text \<open>A node has at least one leaf, so that the guard of the leaf case is the code's \<open>end-start == 1\<close>.\<close>

function collectSegmentsEndingAtOrAfter ::
  "originalIndex \<Rightarrow> nat \<Rightarrow> nat \<Rightarrow> nat \<Rightarrow> nat \<Rightarrow> int \<Rightarrow> bool \<Rightarrow> Segment list" where
  "collectSegmentsEndingAtOrAfter i node start e limit p includeEnd =
     (if start \<ge> limit \<or> maxEnds i ! node < p \<or> \<not> includeEnd \<and> maxEnds i ! node = p then []
      else if e - start \<le> 1 then [idx_segments i ! start]
      else (let middle = start + (e - start) div 2 in
            collectSegmentsEndingAtOrAfter i (2 * node) start middle limit p includeEnd
            @ collectSegmentsEndingAtOrAfter i (2 * node + 1) middle e limit p includeEnd))"
  by pat_completeness auto
termination by (relation "measure (\<lambda>(i, node, start, e, _). e - start)") auto

declare collectSegmentsEndingAtOrAfter.simps [simp del]

definition segmentsEndingAfterPosition :: "originalIndex \<Rightarrow> nat \<Rightarrow> int \<Rightarrow> Segment list" where
  "segmentsEndingAfterPosition i limit p = collectSegmentsEndingAtOrAfter i 1 0 (leafCount i) limit p False"

definition segmentsAtOriginalPosition :: "originalIndex \<Rightarrow> int \<Rightarrow> Segment list \<times> bool" where
  "segmentsAtOriginalPosition i p =
     (let segs = idx_segments i;
          start = sort_Search (length segs) (\<lambda>k. OriginalStart (segs ! k) \<ge> p);
          e = sort_Search (length segs) (\<lambda>k. OriginalStart (segs ! k) > p);
          results = segmentsEndingAfterPosition i start p @ take (e - start) (drop start segs)
      in (results, results \<noteq> []))"

record segmentGroup =
  group_segments :: "Segment list"
  atEnd :: bool

definition sameOriginalRange :: "Segment \<Rightarrow> Segment \<Rightarrow> bool" where
  "sameOriginalRange a b \<longleftrightarrow> OriginalStart a = OriginalStart b \<and> OriginalEnd a = OriginalEnd b"

text \<open>The loop over the segments found: runs of segments with one original range.\<close>

function segment_groups :: "int \<Rightarrow> Segment list \<Rightarrow> segmentGroup list" where
  "segment_groups p [] = []"
| "segment_groups p (s # ss) =
     (let same = takeWhile (sameOriginalRange s) ss;
          rest = segment_groups p (drop (length same) ss)
      in if p \<le> OriginalEnd s
         then \<lparr>group_segments = s # same, atEnd = (p = OriginalEnd s \<and> p \<noteq> OriginalStart s)\<rparr> # rest
         else rest)"
  by pat_completeness auto
termination by (relation "measure (length o snd)") auto

definition segmentGroupsAtOriginalPosition :: "originalIndex \<Rightarrow> int \<Rightarrow> segmentGroup list" where
  "segmentGroupsAtOriginalPosition i p =
     (let segs = idx_segments i;
          limit = sort_Search (length segs) (\<lambda>k. OriginalStart (segs ! k) > p)
      in segment_groups p (collectSegmentsEndingAtOrAfter i 1 0 (leafCount i) limit p True))"

section \<open>Projections\<close>

definition mapped_position :: "int \<Rightarrow> bool \<Rightarrow> Segment \<Rightarrow> MappedPosition" where
  "mapped_position p end0 segment =
     (if SegmentKind segment = KindVerbatim
      then \<lparr>MappedPos = clamp (VirtualStart segment + (p - OriginalStart segment)) (VirtualStart segment) (VirtualEnd segment),
            PosFidelity = FidelityExact\<rparr>
      else \<lparr>MappedPos = (if end0 then VirtualEnd segment else VirtualStart segment), PosFidelity = FidelityAtom\<rparr>)"

definition add_position :: "int \<Rightarrow> int \<Rightarrow> bool \<Rightarrow> Segment \<Rightarrow> MappedPosition list \<Rightarrow> MappedPosition list" where
  "add_position p feature end0 segment results =
     (if \<not> supportsFeature segment feature then results
      else let mapped = mapped_position p end0 segment in
           if mapped \<in> set results then results else results @ [mapped])"

definition OriginalToVirtualPositions :: "SpanMap option \<Rightarrow> int \<Rightarrow> int \<Rightarrow> MappedPosition list" where
  "OriginalToVirtualPositions m p feature =
     (case m of None \<Rightarrow> [\<lparr>MappedPos = p, PosFidelity = FidelityExact\<rparr>]
      | Some m \<Rightarrow>
          sort_slice (\<lambda>a b. MappedPos a - MappedPos b < 0)
            (fold (\<lambda>g results. fold (add_position p feature (atEnd g)) (group_segments g) results)
               (segmentGroupsAtOriginalPosition (origIndex m) p) []))"

definition originalStartProjections :: "Segment list \<Rightarrow> int \<Rightarrow> int \<Rightarrow> int list" where
  "originalStartProjections segs start feature =
     map (\<lambda>s. if SegmentKind s = KindVerbatim
              then clamp (VirtualStart s + (start - OriginalStart s)) (VirtualStart s) (VirtualEnd s)
              else VirtualStart s)
       (filter (\<lambda>s. supportsFeature s feature) segs)"

definition originalEndProjections :: "Segment list \<Rightarrow> int \<Rightarrow> int \<Rightarrow> int list" where
  "originalEndProjections segs e feature =
     map (\<lambda>s. if SegmentKind s = KindVerbatim
              then clamp (VirtualStart s + (e - OriginalStart s)) (VirtualStart s) (VirtualEnd s)
              else VirtualEnd s)
       (filter (\<lambda>s. supportsFeature s feature) segs)"

definition originalToVirtualSpansInSegments :: "Segment list \<Rightarrow> int \<Rightarrow> int \<Rightarrow> int \<Rightarrow> MappedSpan list" where
  "originalToVirtualSpansInSegments segs start e feature =
     map (\<lambda>s. if SegmentKind s = KindVerbatim
              then (let virtualStart = clamp (VirtualStart s + (start - OriginalStart s)) (VirtualStart s) (VirtualEnd s);
                        virtualEnd = clamp (VirtualStart s + (e - OriginalStart s)) virtualStart (VirtualEnd s)
                    in \<lparr>Span = NewTextRange virtualStart virtualEnd, SpanFidelity = FidelityExact\<rparr>)
              else \<lparr>Span = NewTextRange (VirtualStart s) (VirtualEnd s), SpanFidelity = FidelityAtom\<rparr>)
       (filter (\<lambda>s. supportsFeature s feature) segs)"

text \<open>The pairing of sorted starts and ends.\<close>

fun pair_projections :: "int list \<Rightarrow> int list \<Rightarrow> MappedSpan list" where
  "pair_projections [] es = []"
| "pair_projections (v # starts) es =
     (let endIndex = fst (BinarySearchFunc es v (\<lambda>e t. e - t)) in
      if endIndex = length es \<or> (case starts of [] \<Rightarrow> False | v' # _ \<Rightarrow> v' \<le> es ! endIndex)
      then pair_projections starts es
      else \<lparr>Span = NewTextRange v (es ! endIndex), SpanFidelity = FidelityApproximate\<rparr> # pair_projections starts es)"

definition OriginalToVirtualSpans :: "SpanMap option \<Rightarrow> TextRange \<Rightarrow> int \<Rightarrow> MappedSpan list" where
  "OriginalToVirtualSpans m0 r feature =
     (case m0 of None \<Rightarrow> [\<lparr>Span = r, SpanFidelity = FidelityExact\<rparr>]
      | Some m \<Rightarrow>
          (let start = range_pos r; e = max (range_end r) start in
           if start = e
           then map (\<lambda>p. \<lparr>Span = NewTextRange (MappedPos p) (MappedPos p), SpanFidelity = PosFidelity p\<rparr>)
                  (OriginalToVirtualPositions m0 start feature)
           else
             (let (startSegments, startInside) = segmentsAtOriginalPosition (origIndex m) start;
                  (endSegments, endInside) = segmentsAtOriginalPosition (origIndex m) (e - 1)
              in if \<not> startInside \<or> \<not> endInside then []
                 else
                   (let containing = filter (\<lambda>s. e \<le> OriginalEnd s) startSegments;
                        results = originalToVirtualSpansInSegments containing start e feature
                    in if containing \<noteq> [] \<and> results \<noteq> []
                       then sort_slice (\<lambda>a b. range_pos (Span a) - range_pos (Span b) < 0) results
                       else
                         (let starts = originalStartProjections startSegments start feature;
                              ends = originalEndProjections endSegments e feature
                          in if starts = [] \<or> ends = [] then []
                             else pair_projections (sort starts) (sort ends))))))"

definition OriginalToVirtualIntersectingSpans :: "SpanMap option \<Rightarrow> TextRange \<Rightarrow> int \<Rightarrow> MappedSpan list" where
  "OriginalToVirtualIntersectingSpans m0 r feature =
     (case m0 of None \<Rightarrow> [\<lparr>Span = r, SpanFidelity = FidelityExact\<rparr>]
      | Some m \<Rightarrow>
          if range_pos r = range_end r then OriginalToVirtualSpans m0 r feature
          else
            concat (map (\<lambda>s.
              if \<not> supportsFeature s feature then []
              else (let start = max (range_pos r) (OriginalStart s); e = min (range_end r) (OriginalEnd s) in
                    if start \<ge> e then []
                    else if SegmentKind s = KindVerbatim
                    then [\<lparr>Span = NewTextRange (VirtualStart s + (start - OriginalStart s)) (VirtualStart s + (e - OriginalStart s)),
                           SpanFidelity = FidelityExact\<rparr>]
                    else [\<lparr>Span = NewTextRange (VirtualStart s) (VirtualEnd s), SpanFidelity = FidelityAtom\<rparr>]))
              (segments m)))"

section \<open>The tuples of the JSON form\<close>

text \<open>\<open>Unmarshal\<close> after \<open>json.Unmarshal\<close> and \<open>Marshal\<close> before \<open>json.Marshal\<close>; an error carries the index and the
  length of the offending tuple.\<close>

definition tuple_segment :: "int list \<Rightarrow> Segment" where
  "tuple_segment t =
     \<lparr>VirtualStart = t ! 0, VirtualEnd = int32 (t ! 0 + t ! 1), OriginalStart = t ! 2,
      OriginalEnd = int32 (t ! 2 + t ! 3), SegmentKind = t ! 4,
      Features = (if length t = 6 then t ! 5 else FeatureAll)\<rparr>"

fun unmarshal_tuples :: "nat \<Rightarrow> int list list \<Rightarrow> (nat \<times> nat) + Segment list" where
  "unmarshal_tuples i [] = Inr []"
| "unmarshal_tuples i (t # ts) =
     (if length t \<noteq> 5 \<and> length t \<noteq> 6 then Inl (i, length t)
      else (case unmarshal_tuples (i + 1) ts of Inl e \<Rightarrow> Inl e | Inr segs \<Rightarrow> Inr (tuple_segment t # segs)))"

definition Unmarshal :: "int list list \<Rightarrow> (nat \<times> nat) + SpanMap" where
  "Unmarshal ts = (case unmarshal_tuples 0 ts of Inl e \<Rightarrow> Inl e | Inr segs \<Rightarrow> Inr (NewSpanMap segs))"

definition segment_tuple :: "Segment \<Rightarrow> int list" where
  "segment_tuple s =
     [VirtualStart s, int32 (VirtualEnd s - VirtualStart s), OriginalStart s, int32 (OriginalEnd s - OriginalStart s),
      SegmentKind s] @ (if Features s \<noteq> FeatureAll then [Features s] else [])"

definition Marshal :: "SpanMap \<Rightarrow> int list list" where
  "Marshal m = map segment_tuple (segments m)"

end
