(* ===== verification/SpanMapIndex.thy ===== *)
theory SpanMapIndex
  imports SpanMapOriginal
begin

text \<open>
  The interval index of \<open>spanmap/spanmap.go\<close> is a filter: what the walk over the tree of maximal ends
  collects is what a scan of the segments would, in the same order and without reading outside of
  the array. From this follow the projections of positions and ranges of the original text.
\<close>

section \<open>The tree of maximal ends\<close>

lemma length_set_inner [simp]: "length (set_inner n a) = length a"
  by (induction n a rule: set_inner.induct) simp_all

lemma set_inner_above: "n < k \<Longrightarrow> set_inner n a ! k = a ! k"
  by (induction n a rule: set_inner.induct) auto

lemma set_inner_heap:
  "2 * n + 1 < length a \<Longrightarrow> 0 < k \<Longrightarrow> k \<le> n \<Longrightarrow>
     set_inner n a ! k = max (set_inner n a ! (2 * k)) (set_inner n a ! (2 * k + 1))"
proof (induction n a rule: set_inner.induct)
  case (2 i a)
  define a' where "a' = a[Suc i := max (a ! (2 * Suc i)) (a ! (2 * Suc i + 1))]"
  show ?case
  proof (cases "k = Suc i")
    case True
    then show ?thesis
      using "2.prems"(1) set_inner_above [of i "Suc i" a'] set_inner_above [of i "2 * Suc i" a']
        set_inner_above [of i "2 * Suc i + 1" a']
      by (simp add: a'_def)
  next
    case False
    then show ?thesis using 2 by simp
  qed
qed simp

lemma leaf_count_power:
  "l = 2 ^ a \<Longrightarrow> \<exists>h. leaf_count n l = 2 ^ h \<and> n \<le> leaf_count n l"
proof (induction n l arbitrary: a rule: leaf_count.induct)
  case (1 n l)
  show ?case
  proof (cases "0 < l \<and> l < n")
    case True
    then show ?thesis using "1.IH" [of "Suc a"] "1.prems" leaf_count.simps [of n l] by simp
  next
    case False
    then have "leaf_count n l = l" using leaf_count.simps [of n l] by (simp only: if_False)
    moreover have "n \<le> l" using False "1.prems" by (metis not_less zero_less_numeral zero_less_power)
    ultimately show ?thesis using "1.prems" by (intro exI [of _ a]) simp
  qed
qed

definition index_ok :: "originalIndex \<Rightarrow> bool" where
  "index_ok i \<longleftrightarrow>
     (\<exists>h. leafCount i = 2 ^ h) \<and> length (idx_segments i) \<le> leafCount i
     \<and> (\<forall>k<length (idx_segments i). maxEnds i ! (leafCount i + k) = OriginalEnd (idx_segments i ! k))
     \<and> (\<forall>k. 0 < k \<longrightarrow> k < leafCount i \<longrightarrow> maxEnds i ! k = max (maxEnds i ! (2 * k)) (maxEnds i ! (2 * k + 1)))"

lemma index_ok_origIndex: "index_ok (origIndex m)"
proof -
  define segs where "segs = sort_slice original_less (segments m)"
  define l where "l = leaf_count (length segs) 1"
  obtain h where h: "l = 2 ^ h" "length segs \<le> l"
    using leaf_count_power [of 1 0 "length segs"] by (auto simp: l_def)
  then have "0 < l" by simp
  define a where "a = replicate l 0 @ map OriginalEnd segs @ replicate (l - length segs) (0::int)"
  have len: "length a = 2 * l" using h(2) by (simp add: a_def)
  have "set_inner (l - 1) a ! (l + k) = OriginalEnd (segs ! k)" if "k < length segs" for k
    using that \<open>0 < l\<close> by (simp add: set_inner_above) (simp add: a_def nth_append)
  moreover have "set_inner (l - 1) a ! k = max (set_inner (l - 1) a ! (2 * k)) (set_inner (l - 1) a ! (2 * k + 1))"
    if "0 < k" "k < l" for k
    using set_inner_heap [of "l - 1" a k] that len by linarith
  moreover have "origIndex m = \<lparr>idx_segments = segs, leafCount = l, maxEnds = set_inner (l - 1) a\<rparr>"
    by (simp add: origIndex_def Let_def segs_def l_def build_maxEnds_def a_def)
  ultimately show ?thesis using h by (simp only: index_ok_def originalIndex.simps) blast
qed

text \<open>A node at height \<open>h\<close> whose first leaf is \<open>start\<close>.\<close>

lemma leaf_below:
  assumes "index_ok i" "node * 2 ^ h = leafCount i + start" "start + 2 ^ h \<le> leafCount i"
    and "start \<le> k" "k < start + 2 ^ h" "k < length (idx_segments i)"
  shows "OriginalEnd (idx_segments i ! k) \<le> maxEnds i ! node"
  using assms(2-)
proof (induction h arbitrary: node start)
  case 0
  then have "k = start" by simp
  then show ?case using 0 assms(1) by (auto simp: index_ok_def)
next
  case (Suc h)
  have "0 < leafCount i" using assms(1) by (auto simp: index_ok_def)
  then have node: "0 < node" using Suc.prems(1) by (cases node) auto
  have "node * 2 ^ Suc h < leafCount i * 2 ^ Suc h"
  proof -
    have "(0::nat) < 2 ^ Suc h" by simp
    then have "node * 2 ^ Suc h < 2 * leafCount i" using Suc.prems(1,2) by linarith
    also have "\<dots> \<le> leafCount i * 2 ^ Suc h" by simp
    finally show ?thesis .
  qed
  then have "node < leafCount i" by simp
  then have heap: "maxEnds i ! (2 * node) \<le> maxEnds i ! node" "maxEnds i ! (2 * node + 1) \<le> maxEnds i ! node"
    using assms(1) node by (auto simp: index_ok_def)
  show ?case
  proof (cases "k < start + 2 ^ h")
    case True
    have "OriginalEnd (idx_segments i ! k) \<le> maxEnds i ! (2 * node)"
      using Suc.prems True by (intro Suc.IH [of _ start]) (simp_all add: algebra_simps)
    then show ?thesis using heap by linarith
  next
    case False
    have "OriginalEnd (idx_segments i ! k) \<le> maxEnds i ! (2 * node + 1)"
      using Suc.prems False by (intro Suc.IH [of _ "start + 2 ^ h"]) (simp_all add: algebra_simps)
    then show ?thesis using heap by linarith
  qed
qed

definition ends_from :: "int \<Rightarrow> bool \<Rightarrow> Segment \<Rightarrow> bool" where
  "ends_from p includeEnd s \<longleftrightarrow> p < OriginalEnd s \<or> includeEnd \<and> p = OriginalEnd s"

lemma upt_join: "i \<le> j \<Longrightarrow> j \<le> k \<Longrightarrow> [i..<j] @ [j..<k] = [i..<k]"
  using upt_add_eq_append [of i j "k - j"] by simp

lemma collect_eq_filter:
  assumes "index_ok i" "node * 2 ^ h = leafCount i + start" "start + 2 ^ h \<le> leafCount i" "limit \<le> length (idx_segments i)"
  shows "collectSegmentsEndingAtOrAfter i node start (start + 2 ^ h) limit p includeEnd
     = filter (ends_from p includeEnd) (map ((!) (idx_segments i)) [start..<min (start + 2 ^ h) limit])"
  using assms(2,3)
proof (induction h arbitrary: node start)
  case 0
  show ?case
  proof (cases "start < limit")
    case True
    then have "maxEnds i ! node = OriginalEnd (idx_segments i ! start)"
      using assms(1,4) 0 by (auto simp: index_ok_def)
    then show ?thesis
      using True unfolding collectSegmentsEndingAtOrAfter.simps [of i node start "start + 2 ^ 0"]
      by (auto simp: ends_from_def)
  next
    case False
    then show ?thesis
      unfolding collectSegmentsEndingAtOrAfter.simps [of i node start "start + 2 ^ 0"] by simp
  qed
next
  case (Suc h)
  show ?case
  proof (cases "start \<ge> limit \<or> maxEnds i ! node < p \<or> \<not> includeEnd \<and> maxEnds i ! node = p")
    case True
    have "\<not> ends_from p includeEnd (idx_segments i ! k)" if "k \<in> set [start..<min (start + 2 ^ Suc h) limit]" for k
      using leaf_below [OF assms(1) Suc.prems, of k] that True assms(4) by (auto simp: ends_from_def)
    then show ?thesis
      using True unfolding collectSegmentsEndingAtOrAfter.simps [of i node start "start + 2 ^ Suc h"]
      by (auto simp: filter_empty_conv)
  next
    case False
    define middle where "middle = start + 2 ^ h"
    have sum: "start + 2 ^ Suc h = middle + 2 ^ h" by (simp add: middle_def)
    have "collectSegmentsEndingAtOrAfter i node start (start + 2 ^ Suc h) limit p includeEnd =
       collectSegmentsEndingAtOrAfter i (2 * node) start middle limit p includeEnd
       @ collectSegmentsEndingAtOrAfter i (2 * node + 1) middle (middle + 2 ^ h) limit p includeEnd"
    proof -
      have "(0::nat) < 2 ^ h" by simp
      then have leaf: "\<not> middle + 2 ^ h - start \<le> 1" unfolding middle_def by linarith
      have half: "start + (middle + 2 ^ h - start) div 2 = middle" by (simp add: middle_def)
      show ?thesis
        unfolding sum
        by (subst collectSegmentsEndingAtOrAfter.simps) (simp only: False leaf half if_False Let_def)
    qed
    also have "\<dots> = filter (ends_from p includeEnd) (map ((!) (idx_segments i)) ([start..<min middle limit] @ [middle..<min (middle + 2 ^ h) limit]))"
      using Suc.IH [of "2 * node" start] Suc.IH [of "2 * node + 1" middle] Suc.prems by (simp add: middle_def algebra_simps)
    also have "[start..<min middle limit] @ [middle..<min (middle + 2 ^ h) limit] = [start..<min (start + 2 ^ Suc h) limit]"
      unfolding sum using upt_join [of start middle "min (middle + 2 ^ h) limit"]
      by (cases "limit \<le> middle") (simp_all add: middle_def min_def)
    finally show ?thesis .
  qed
qed

lemma collect_root:
  assumes "index_ok i" "limit \<le> length (idx_segments i)"
  shows "collectSegmentsEndingAtOrAfter i 1 0 (leafCount i) limit p includeEnd
     = filter (ends_from p includeEnd) (take limit (idx_segments i))"
proof -
  obtain h where h: "leafCount i = 2 ^ h" using assms(1) by (auto simp: index_ok_def)
  have "min (2 ^ h) limit = limit" using assms h by (simp add: index_ok_def)
  then show ?thesis
    using collect_eq_filter [OF assms(1), of 1 h 0 limit p includeEnd] h assms(2)
    by (simp add: take_map map_nth [symmetric] flip: take_map) (metis map_nth take_map take_upt add_0)
qed

section \<open>Segments in the order of the original text\<close>

lemma sort_slice_cong:
  "(\<And>x y. x \<in> set xs \<Longrightarrow> y \<in> set xs \<Longrightarrow> f x y = g x y) \<Longrightarrow> sort_slice f xs = sort_slice g xs"
proof (induction xs)
  case (Cons x xs)
  have "insert_slice f x ys = insert_slice g x ys" if "set ys \<subseteq> set xs" for ys
    using that Cons.prems by (induction ys) auto
  moreover have "set (sort_slice g xs) \<subseteq> set xs" by simp
  ultimately have "insert_slice f x (sort_slice g xs) = insert_slice g x (sort_slice g xs)" by blast
  moreover have "sort_slice f xs = sort_slice g xs" by (rule Cons.IH) (simp add: Cons.prems)
  ultimately show ?case by (simp add: sort_slice_def)
qed (simp add: sort_slice_def)

definition exact_less :: "Segment \<Rightarrow> Segment \<Rightarrow> bool" where
  "exact_less a b \<longleftrightarrow>
     OriginalStart a < OriginalStart b
     \<or> OriginalStart a = OriginalStart b
       \<and> (OriginalEnd a < OriginalEnd b \<or> OriginalEnd a = OriginalEnd b \<and> VirtualStart a < VirtualStart b)"

interpretation original_order: slice_order exact_less
  by unfold_locales (auto simp: exact_less_def)

interpretation virtual_order: slice_order "\<lambda>a b. MappedPos a - MappedPos b < 0"
  by unfold_locales auto

definition small_texts :: "string \<Rightarrow> string \<Rightarrow> bool" where
  "small_texts virtual original \<longleftrightarrow> length virtual < 2 ^ 31 \<and> length original < 2 ^ 31"

lemma int32_id: "- (2 ^ 31) \<le> x \<Longrightarrow> x < 2 ^ 31 \<Longrightarrow> int32 x = x"
  by (simp add: int32_def signed_take_bit_int_eq_self)

lemma int32_diff: "0 \<le> a \<Longrightarrow> a < 2 ^ 31 \<Longrightarrow> 0 \<le> b \<Longrightarrow> b < 2 ^ 31 \<Longrightarrow> int32 (a - b) = a - b"
  by (rule int32_id) simp_all

lemma original_less_exact:
  assumes "segment_ok v w a" "segment_ok v w b" "small_texts v w"
  shows "original_less a b = exact_less a b"
proof -
  have "int32 (OriginalStart a - OriginalStart b) = OriginalStart a - OriginalStart b"
    "int32 (OriginalEnd a - OriginalEnd b) = OriginalEnd a - OriginalEnd b"
    "int32 (VirtualStart a - VirtualStart b) = VirtualStart a - VirtualStart b"
    using assms by (auto simp: segment_ok_def small_texts_def intro!: int32_diff)
  then show ?thesis by (auto simp: original_less_def exact_less_def Let_def)
qed

definition by_start :: "Segment list \<Rightarrow> bool" where
  "by_start segs \<longleftrightarrow> sorted_wrt (\<lambda>s t. OriginalStart s \<le> OriginalStart t) segs"

lemma index_by_start:
  assumes "valid_map v w m" "small_texts v w"
  shows "by_start (idx_segments (origIndex m))"
proof -
  have "sort_slice original_less (segments m) = sort_slice exact_less (segments m)"
    using assms by (intro sort_slice_cong original_less_exact [of v w]) (auto simp: valid_map_def list_all_iff)
  moreover have "sorted_wrt (\<lambda>s t. \<not> exact_less t s) (sort_slice exact_less (segments m))"
    by (rule original_order.sort_sorted)
  ultimately show ?thesis
    unfolding by_start_def by (simp add: origIndex_def Let_def) (erule sorted_wrt_mono_rel [rotated], auto simp: exact_less_def)
qed

lemma set_idx_segments [simp]: "set (idx_segments (origIndex m)) = set (segments m)"
  by (simp add: origIndex_def Let_def)

lemma take_search:
  assumes "by_start segs" "\<And>a b. a \<le> b \<Longrightarrow> P a \<Longrightarrow> P b"
  shows "take (sort_Search (length segs) (\<lambda>k. P (OriginalStart (segs ! k)))) segs = filter (\<lambda>s. \<not> P (OriginalStart s)) segs"
    and "drop (sort_Search (length segs) (\<lambda>k. P (OriginalStart (segs ! k)))) segs = filter (\<lambda>s. P (OriginalStart s)) segs"
proof -
  define f n where "f = (\<lambda>k. P (OriginalStart (segs ! k)))" and "n = sort_Search (length segs) f"
  have mono: "f l" if "f k" "k \<le> l" "l < length segs" for k l
  proof -
    have "OriginalStart (segs ! k) \<le> OriginalStart (segs ! l)"
      using sorted_wrt_nth_less [of "\<lambda>s t. OriginalStart s \<le> OriginalStart t" segs k l] assms(1) that(2,3)
      by (cases "k = l") (simp_all add: by_start_def)
    from assms(2) [OF this] that(1) show ?thesis by (simp add: f_def)
  qed
  then have "\<forall>k l. f k \<longrightarrow> k \<le> l \<longrightarrow> l < length segs \<longrightarrow> f l" by blast
  note first = sort_Search_first [OF this, folded n_def]
  have "\<forall>s\<in>set (take n segs). \<not> P (OriginalStart s)"
    using first(2) first(1) by (auto simp: in_set_conv_nth f_def)
  moreover have "\<forall>s\<in>set (drop n segs). P (OriginalStart s)"
    using first(3) by (auto simp: in_set_conv_nth f_def)
  ultimately have "filter (\<lambda>s. \<not> P (OriginalStart s)) (take n segs @ drop n segs) = take n segs"
    "filter (\<lambda>s. P (OriginalStart s)) (take n segs @ drop n segs) = drop n segs"
    unfolding filter_append by (simp_all add: filter_id_conv filter_empty_conv)
  then show "take (sort_Search (length segs) (\<lambda>k. P (OriginalStart (segs ! k)))) segs = filter (\<lambda>s. \<not> P (OriginalStart s)) segs"
    "drop (sort_Search (length segs) (\<lambda>k. P (OriginalStart (segs ! k)))) segs = filter (\<lambda>s. P (OriginalStart s)) segs"
    by (simp_all add: n_def f_def)
qed

end
