(* ===== verification/SpanMapQueries.thy ===== *)
theory SpanMapQueries
  imports SpanMapIndex
begin

text \<open>
  The projections of \<open>spanmap/spanmap.go\<close> from the original text, stated about the segments of a valid
  map: which positions are returned, that an exact projection has the same text, that positions and
  ranges come back, and that a range across several copies is mapped to the smallest ranges.
\<close>

section \<open>Point queries\<close>

definition contains_original :: "int \<Rightarrow> Segment \<Rightarrow> bool" where
  "contains_original p s \<longleftrightarrow> OriginalStart s = p \<or> OriginalStart s < p \<and> p < OriginalEnd s"

definition touches_original :: "int \<Rightarrow> Segment \<Rightarrow> bool" where
  "touches_original p s \<longleftrightarrow> OriginalStart s \<le> p \<and> p \<le> OriginalEnd s"

lemma take_drop_search:
  assumes "by_start segs"
  shows "take (sort_Search (length segs) (\<lambda>k. OriginalStart (segs ! k) \<ge> p)) segs = filter (\<lambda>s. OriginalStart s < p) segs"
    and "drop (sort_Search (length segs) (\<lambda>k. OriginalStart (segs ! k) \<ge> p)) segs = filter (\<lambda>s. OriginalStart s \<ge> p) segs"
    and "take (sort_Search (length segs) (\<lambda>k. OriginalStart (segs ! k) > p)) segs = filter (\<lambda>s. OriginalStart s \<le> p) segs"
  using take_search [OF assms, of "\<lambda>a. a \<ge> p"] take_search [OF assms, of "\<lambda>a. a > p"] by (simp_all add: not_le not_less)

lemma segmentsAtOriginalPosition_set:
  assumes "index_ok i" "by_start (idx_segments i)"
  shows "set (fst (segmentsAtOriginalPosition i p)) = {s\<in>set (idx_segments i). contains_original p s}"
proof -
  define segs where "segs = idx_segments i"
  define a b where "a = sort_Search (length segs) (\<lambda>k. OriginalStart (segs ! k) \<ge> p)"
    and "b = sort_Search (length segs) (\<lambda>k. OriginalStart (segs ! k) > p)"
  note search = take_drop_search [OF assms(2), of p, folded segs_def, folded a_def b_def]
  have a: "take a segs = filter (\<lambda>s. OriginalStart s < p) segs" "drop a segs = filter (\<lambda>s. OriginalStart s \<ge> p) segs"
    and b: "take b segs = filter (\<lambda>s. OriginalStart s \<le> p) segs" using search by simp_all
  have "a \<le> length segs" using search_loop_range [of 0 "length segs"] by (simp add: a_def sort_Search_def)
  then have part1: "segmentsEndingAfterPosition i a p = filter (ends_from p False) (filter (\<lambda>s. OriginalStart s < p) segs)"
    using collect_root [OF assms(1), of a p False] a(1) by (simp add: segmentsEndingAfterPosition_def segs_def)
  have "take (b - a) (drop a segs) = drop a (take b segs)" by (simp add: drop_take)
  also have "\<dots> = drop a (filter (\<lambda>s. OriginalStart s \<le> p) segs)" by (simp add: b)
  also have "set \<dots> = {s\<in>set segs. OriginalStart s = p}"
  proof -
    have "filter (\<lambda>s. OriginalStart s \<le> p) segs
        = filter (\<lambda>s. OriginalStart s \<le> p) (take a segs) @ filter (\<lambda>s. OriginalStart s \<le> p) (drop a segs)"
      by (metis append_take_drop_id filter_append)
    moreover have "filter (\<lambda>s. OriginalStart s \<le> p) (take a segs) = take a segs"
      unfolding a(1) by (simp add: conj_commute cong: conj_cong)
    ultimately have "drop a (filter (\<lambda>s. OriginalStart s \<le> p) segs) = filter (\<lambda>s. OriginalStart s \<le> p) (drop a segs)"
      using \<open>a \<le> length segs\<close> by simp
    then show ?thesis unfolding a(2) by auto
  qed
  finally have part2: "set (take (b - a) (drop a segs)) = {s\<in>set segs. OriginalStart s = p}" .
  have "fst (segmentsAtOriginalPosition i p) = segmentsEndingAfterPosition i a p @ take (b - a) (drop a segs)"
    by (simp add: segmentsAtOriginalPosition_def Let_def a_def b_def segs_def)
  then show ?thesis using part1 part2 by (auto simp: contains_original_def ends_from_def segs_def)
qed

lemma segmentsAtOriginalPosition_found:
  "snd (segmentsAtOriginalPosition i p) \<longleftrightarrow> fst (segmentsAtOriginalPosition i p) \<noteq> []"
  by (simp add: segmentsAtOriginalPosition_def Let_def)

text \<open>The groups, flattened.\<close>

definition ends_at :: "int \<Rightarrow> Segment \<Rightarrow> bool" where
  "ends_at p s \<longleftrightarrow> p = OriginalEnd s \<and> p \<noteq> OriginalStart s"

lemma fold_groups:
  assumes "list_all (\<lambda>s. p \<le> OriginalEnd s) ss"
  shows "fold (\<lambda>g results. fold (add_position p f (atEnd g)) (group_segments g) results) (segment_groups p ss) acc
     = fold (\<lambda>s. add_position p f (ends_at p s) s) ss acc"
  using assms
proof (induction p ss arbitrary: acc rule: segment_groups.induct)
  case (2 p s ss)
  define same where "same = takeWhile (sameOriginalRange s) ss"
  have ss: "ss = same @ drop (length same) ss"
    by (metis same_def append_take_drop_id takeWhile_eq_take)
  have "ends_at p t = ends_at p s" if "t \<in> set same" for t
    using that set_takeWhileD [of t "sameOriginalRange s" ss] by (auto simp: same_def sameOriginalRange_def ends_at_def)
  then have "fold (\<lambda>t. add_position p f (ends_at p t) t) same acc' = fold (add_position p f (ends_at p s)) same acc'" for acc'
    by (intro fold_cong) simp_all
  moreover have "list_all (\<lambda>s. p \<le> OriginalEnd s) (drop (length same) ss)"
    using "2.prems" ss by (metis list_all_append list.pred_inject(2))
  ultimately show ?case
    using 2 by (subst ss) (simp add: Let_def same_def [symmetric] ends_at_def)
qed simp

lemma add_position_set:
  "set (add_position p f b s acc) = set acc \<union> (if supportsFeature s f then {mapped_position p b s} else {})"
  by (auto simp: add_position_def Let_def)

lemma add_position_distinct: "distinct acc \<Longrightarrow> distinct (add_position p f b s acc)"
  by (auto simp: add_position_def Let_def)

lemma fold_add_set:
  "set (fold (\<lambda>s. add_position p f (ends_at p s) s) ss acc)
     = set acc \<union> (\<lambda>s. mapped_position p (ends_at p s) s) ` {s\<in>set ss. supportsFeature s f}"
  by (induction ss arbitrary: acc) (auto simp: add_position_set)

lemma fold_add_distinct: "distinct acc \<Longrightarrow> distinct (fold (\<lambda>s. add_position p f (ends_at p s) s) ss acc)"
  by (induction ss arbitrary: acc) (auto intro: add_position_distinct)

lemma positions_eq:
  assumes "valid_map v w m" "small_texts v w"
  shows "\<exists>xs. OriginalToVirtualPositions (Some m) p f = sort_slice (\<lambda>a b. MappedPos a - MappedPos b < 0) xs \<and> distinct xs
     \<and> set xs = (\<lambda>s. mapped_position p (ends_at p s) s) ` {s\<in>set (segments m). touches_original p s \<and> supportsFeature s f}"
proof -
  define i where "i = origIndex m"
  have ok: "index_ok i" "by_start (idx_segments i)" using index_ok_origIndex index_by_start [OF assms] by (simp_all add: i_def)
  define n where "n = sort_Search (length (idx_segments i)) (\<lambda>k. OriginalStart (idx_segments i ! k) > p)"
  define ss where "ss = filter (ends_from p True) (filter (\<lambda>s. OriginalStart s \<le> p) (idx_segments i))"
  have "n \<le> length (idx_segments i)" using search_loop_range [of 0 "length (idx_segments i)"] by (simp add: n_def sort_Search_def)
  then have groups: "segmentGroupsAtOriginalPosition i p = segment_groups p ss"
    using collect_root [OF ok(1), of n p True] take_drop_search(3) [OF ok(2), of p]
    by (simp add: segmentGroupsAtOriginalPosition_def Let_def ss_def n_def)
  have ends: "list_all (\<lambda>s. p \<le> OriginalEnd s) ss" by (auto simp: ss_def ends_from_def list_all_iff)
  have "set ss = {s\<in>set (segments m). touches_original p s}"
    by (auto simp: ss_def i_def ends_from_def touches_original_def)
  then have "{s\<in>set ss. supportsFeature s f} = {s\<in>set (segments m). touches_original p s \<and> supportsFeature s f}" by auto
  then show ?thesis
    using fold_groups [OF ends, of f "[]"] groups fold_add_set [of p f ss "[]"] fold_add_distinct [of "[]" p f ss]
    by (intro exI [of _ "fold (\<lambda>s. add_position p f (ends_at p s) s) ss []"])
      (simp add: OriginalToVirtualPositions_def i_def)
qed

lemma positions_projections:
  assumes "Validate (Some m) virtual original = None" "small_texts virtual original"
  shows "set (OriginalToVirtualPositions (Some m) p feature)
       = (\<lambda>s. mapped_position p (p = OriginalEnd s \<and> p \<noteq> OriginalStart s) s)
           ` {s \<in> set (segments m). OriginalStart s \<le> p \<and> p \<le> OriginalEnd s \<and> supportsFeature s feature}
     \<and> distinct (OriginalToVirtualPositions (Some m) p feature)
     \<and> sorted (map MappedPos (OriginalToVirtualPositions (Some m) p feature))"
proof -
  have v: "valid_map virtual original m" using assms(1) by (simp add: Validate_None)
  obtain xs where xs: "OriginalToVirtualPositions (Some m) p feature = sort_slice (\<lambda>a b. MappedPos a - MappedPos b < 0) xs"
    "distinct xs"
    "set xs = (\<lambda>s. mapped_position p (ends_at p s) s) ` {s\<in>set (segments m). touches_original p s \<and> supportsFeature s feature}"
    using positions_eq [OF v assms(2)] by blast
  have "distinct (sort_slice (\<lambda>a b. MappedPos a - MappedPos b < 0) xs)"
    using xs(2) by (metis mset_sort_slice mset_eq_imp_distinct_iff)
  moreover have "sorted (map MappedPos (sort_slice (\<lambda>a b. MappedPos a - MappedPos b < 0) xs))"
    using virtual_order.sort_sorted [of xs] by (simp add: sorted_map not_less)
  ultimately show ?thesis
    unfolding xs(1) using xs(3) by (simp add: touches_original_def ends_at_def conj_assoc)
qed

text \<open>C25: The virtual positions of an original position are exactly the projections of the segments that touch
  it and take part in the feature, each once and in order: the same offset in a verbatim segment, an
  end of any other. The index and its tree make no difference.\<close>
theorem OriginalToVirtualPositions_projections:
  assumes "Validate (Some m) virtual original = None" "small_texts virtual original"
  shows "set (OriginalToVirtualPositions (Some m) p feature)
       = (\<lambda>s. mapped_position p (p = OriginalEnd s \<and> p \<noteq> OriginalStart s) s)
           ` {s \<in> set (segments m). OriginalStart s \<le> p \<and> p \<le> OriginalEnd s \<and> supportsFeature s feature}
     \<and> distinct (OriginalToVirtualPositions (Some m) p feature)
     \<and> sorted (map MappedPos (OriginalToVirtualPositions (Some m) p feature))"
  by (rule positions_projections [OF assms])

text \<open>A virtual position in a verbatim segment that is mapped exactly is among the projections of the
  original position it is mapped to, for every feature its segment takes part in.\<close>
theorem exact_position_comes_back:
  assumes "Validate (Some m) virtual original = None" "small_texts virtual original"
    and "VirtualToOriginalPositionForFeature (Some m) p feature = (q, FidelityExact)"
  shows "\<lparr>MappedPos = p, PosFidelity = FidelityExact\<rparr> \<in> set (OriginalToVirtualPositions (Some m) q feature)"
proof -
  have v: "valid_map virtual original m" using assms(1) by (simp add: Validate_None)
  obtain i b where i: "segmentIndexAt m p = (i, b)" by (cases "segmentIndexAt m p")
  define s where "s = seg_at m i"
  have b: b "supportsFeature s feature" "SegmentKind s = KindVerbatim"
    "q = clamp (OriginalStart s + (p - VirtualStart s)) (OriginalStart s) (OriginalEnd s)"
    using assms(3) i
    by (auto simp: VirtualToOriginalPositionForFeature_def VirtualToOriginalPosition_def s_def seg_at_def Let_def split: if_splits)
  have inside: "inside_segment m p (nat i)" using i b(1) by (rule_tac segmentIndexAt_cases [OF v, of p]) auto
  then have mem: "s \<in> set (segments m)" by (simp add: inside_segment_def s_def seg_at_def)
  have ok: "segment_ok virtual original s" using valid_nth [OF v] inside by (simp add: s_def seg_at_def inside_segment_def)
  then have len: "VirtualEnd s - VirtualStart s = OriginalEnd s - OriginalStart s" "VirtualStart s \<le> VirtualEnd s"
    using b(3) by (simp_all add: segment_ok_def)
  have p: "VirtualStart s \<le> p" "p \<le> VirtualEnd s"
    using inside len(2) by (auto simp: inside_segment_def s_def seg_at_def)
  then have q: "q = OriginalStart s + (p - VirtualStart s)" "OriginalStart s \<le> q" "q \<le> OriginalEnd s"
    using b(4) len by (simp_all add: clamp_def)
  have "mapped_position q e s = \<lparr>MappedPos = p, PosFidelity = FidelityExact\<rparr>" for e
    using b(3) p q by (simp add: mapped_position_def clamp_def)
  then show ?thesis
    using positions_projections [OF assms(1,2), of q feature] mem q(2,3) b(2)
    by (auto intro!: rev_image_eqI [of s])
qed

section \<open>Ranges\<close>

lemma startSegments_set:
  assumes "valid_map v w m" "small_texts v w"
  shows "set (fst (segmentsAtOriginalPosition (origIndex m) p)) = {s\<in>set (segments m). contains_original p s}"
  using segmentsAtOriginalPosition_set [OF index_ok_origIndex index_by_start [OF assms]] by simp

lemma exact_projection_text:
  assumes "segment_ok v w s" "SegmentKind s = KindVerbatim" "OriginalStart s \<le> a" "a \<le> b" "b \<le> OriginalEnd s"
    and "a' = clamp (VirtualStart s + (a - OriginalStart s)) (VirtualStart s) (VirtualEnd s)"
    and "b' = clamp (VirtualStart s + (b - OriginalStart s)) a' (VirtualEnd s)"
  shows "substr v a' b' = substr w a b \<and> b' - a' = b - a"
proof -
  have s: "VirtualEnd s - VirtualStart s = OriginalEnd s - OriginalStart s"
    "substr w (OriginalStart s) (OriginalEnd s) = substr v (VirtualStart s) (VirtualEnd s)"
    "0 \<le> VirtualStart s" "0 \<le> OriginalStart s"
    using assms(1,2) by (simp_all add: segment_ok_def)
  have a': "a' = VirtualStart s + (a - OriginalStart s)" using assms(3-6) s(1) by (simp add: clamp_def)
  have b': "b' = VirtualStart s + (b - OriginalStart s)" using assms(3-5,7) s(1) a' by (simp add: clamp_def)
  show ?thesis
    using substr_within [OF s(2,4,3), of a b] s(1) assms(3-5) by (simp add: a' b')
qed

text \<open>Every exact projection of a range of the original text has the same text and the same length as the
  range.\<close>
theorem exact_projections_same_text:
  assumes "Validate (Some m) virtual original = None" "small_texts virtual original"
    and "range_pos r < range_end r"
    and "ms \<in> set (OriginalToVirtualSpans (Some m) r feature)" "SpanFidelity ms = FidelityExact"
  shows "substr virtual (range_pos (Span ms)) (range_end (Span ms)) = substr original (range_pos r) (range_end r)
     \<and> range_end (Span ms) - range_pos (Span ms) = range_end r - range_pos r"
proof -
  have v: "valid_map virtual original m" using assms(1) by (simp add: Validate_None)
  define a b where "a = range_pos r" and "b = range_end r"
  have ab: "a < b" "max b a = b" using assms(3) by (simp_all add: a_def b_def)
  have approx: "SpanFidelity ms = FidelityApproximate" if "ms \<in> set (pair_projections xs ys)" for xs ys
    using that by (induction xs ys rule: pair_projections.induct) (auto simp: Let_def split: if_splits)
  define containing where "containing = filter (\<lambda>s. b \<le> OriginalEnd s) (fst (segmentsAtOriginalPosition (origIndex m) a))"
  have "ms \<in> set (originalToVirtualSpansInSegments containing a b feature)"
    using assms(4,5) ab approx
    by (auto simp: OriginalToVirtualSpans_def Let_def split_beta a_def [symmetric] b_def [symmetric] containing_def [symmetric]
        split: if_splits)
  then obtain s where s: "s \<in> set containing" "SegmentKind s = KindVerbatim"
    "Span ms = NewTextRange (clamp (VirtualStart s + (a - OriginalStart s)) (VirtualStart s) (VirtualEnd s))
       (clamp (VirtualStart s + (b - OriginalStart s))
          (clamp (VirtualStart s + (a - OriginalStart s)) (VirtualStart s) (VirtualEnd s)) (VirtualEnd s))"
    using assms(5) by (auto simp: originalToVirtualSpansInSegments_def Let_def split: if_splits)
  then have "s \<in> set (segments m)" "OriginalStart s \<le> a" "b \<le> OriginalEnd s"
    using startSegments_set [OF v assms(2), of a] by (auto simp: containing_def contains_original_def)
  moreover have "segment_ok virtual original s" using v calculation(1) by (auto simp: valid_map_def list_all_iff)
  ultimately show ?thesis
    using exact_projection_text [OF _ s(2) _ _ _ refl refl, of virtual original a b] ab s(3)
    by (simp add: NewTextRange_def a_def b_def)
qed

text \<open>What the pairing is for: the smallest ranges with a start and an end among the projections.\<close>

definition smallest_range :: "int set \<Rightarrow> int set \<Rightarrow> int \<Rightarrow> int \<Rightarrow> bool" where
  "smallest_range S E s e \<longleftrightarrow>
     s \<in> S \<and> e \<in> E \<and> s \<le> e
     \<and> \<not> (\<exists>s'\<in>S. s < s' \<and> s' \<le> e) \<and> \<not> (\<exists>e'\<in>E. s \<le> e' \<and> e' < e)"

lemma first_end:
  assumes "sorted es" "fst (BinarySearchFunc es v (\<lambda>e t. e - t)) = i"
  shows "i \<le> length es" "k < i \<Longrightarrow> es ! k < v" "i \<le> k \<Longrightarrow> k < length es \<Longrightarrow> v \<le> es ! k"
proof -
  obtain found where "BinarySearchFunc es v (\<lambda>e t. e - t) = (i, found)"
    using assms(2) by (cases "BinarySearchFunc es v (\<lambda>e t. e - t)") simp
  moreover have "\<forall>k l. k \<le> l \<longrightarrow> l < length es \<longrightarrow> es ! l - v < 0 \<longrightarrow> es ! k - v < 0"
    using sorted_nth_mono [OF assms(1)] by fastforce
  ultimately show "i \<le> length es" "k < i \<Longrightarrow> es ! k < v" "i \<le> k \<Longrightarrow> k < length es \<Longrightarrow> v \<le> es ! k"
    using BinarySearchFunc_first(1) [of es v "\<lambda>e t. e - t" i found] BinarySearchFunc_first(3) [of es v "\<lambda>e t. e - t" i found k]
      BinarySearchFunc_first(4) [of es v "\<lambda>e t. e - t" i found k]
    by auto
qed

lemma least_end_iff:
  assumes "sorted es" "fst (BinarySearchFunc es v (\<lambda>e t. e - t)) = i"
  shows "e \<in> set es \<and> v \<le> e \<and> \<not> (\<exists>e'\<in>set es. v \<le> e' \<and> e' < e) \<longleftrightarrow> i < length es \<and> e = es ! i"
proof
  assume l: "e \<in> set es \<and> v \<le> e \<and> \<not> (\<exists>e'\<in>set es. v \<le> e' \<and> e' < e)"
  then obtain k where k: "k < length es" "e = es ! k" by (auto simp: in_set_conv_nth)
  then have "\<not> k < i" using first_end(2) [OF assms, of k] l by auto
  then have "i \<le> k" by simp
  then have "i < length es" "es ! i \<le> e" using k sorted_nth_mono [OF assms(1)] by auto
  moreover have "\<not> es ! i < e" using l first_end(3) [OF assms, of i] \<open>i < length es\<close> by auto
  ultimately show "i < length es \<and> e = es ! i" by auto
next
  assume r: "i < length es \<and> e = es ! i"
  then have "v \<le> e" using first_end(3) [OF assms, of i] by simp
  moreover have "\<not> (v \<le> e' \<and> e' < e)" if "e' \<in> set es" for e'
  proof -
    obtain k where "k < length es" "e' = es ! k" using \<open>e' \<in> set es\<close> by (auto simp: in_set_conv_nth)
    then show ?thesis
      using first_end(2) [OF assms, of k] sorted_nth_mono [OF assms(1), of i k] r by (cases "k < i") auto
  qed
  ultimately show "e \<in> set es \<and> v \<le> e \<and> \<not> (\<exists>e'\<in>set es. v \<le> e' \<and> e' < e)" using r by auto
qed

definition approximate :: "int \<times> int \<Rightarrow> MappedSpan" where
  "approximate se = \<lparr>Span = NewTextRange (fst se) (snd se), SpanFidelity = FidelityApproximate\<rparr>"

lemma smallest_insert:
  assumes "\<forall>s\<in>S. v \<le> s"
  shows "smallest_range (insert v S) E s e \<longleftrightarrow>
     smallest_range S E s e
     \<or> s = v \<and> v \<notin> S \<and> (e \<in> E \<and> v \<le> e \<and> \<not> (\<exists>e'\<in>E. v \<le> e' \<and> e' < e)) \<and> (\<forall>s'\<in>S. e < s')"
  using assms by (fastforce simp: smallest_range_def not_le)

lemma pair_projections_set:
  "sorted starts \<Longrightarrow> sorted es \<Longrightarrow>
     set (pair_projections starts es) = approximate ` {(s, e). smallest_range (set starts) (set es) s e}"
proof (induction starts es rule: pair_projections.induct)
  case (1 es)
  then show ?case by (simp add: smallest_range_def)
next
  case (2 v starts es)
  have less: "\<forall>s\<in>set starts. v \<le> s" using "2.prems"(1) by simp
  have sorted: "sorted starts" "sorted es" using "2.prems" by simp_all
  define i where "i = fst (BinarySearchFunc es v (\<lambda>e t. e - t))"
  note first = first_end [OF sorted(2) i_def [symmetric]] and least = least_end_iff [OF sorted(2) i_def [symmetric]]
  define skip where "skip \<longleftrightarrow> i = length es \<or> (case starts of [] \<Rightarrow> False | v' # _ \<Rightarrow> v' \<le> es ! i)"
  have "\<not> skip \<longleftrightarrow> v \<notin> set starts \<and> i < length es \<and> (\<forall>s'\<in>set starts. es ! i < s')"
  proof (cases starts)
    case Nil
    then show ?thesis using first(1) by (auto simp: skip_def)
  next
    case (Cons v' rest)
    have hd: "v' \<le> s'" if "s' \<in> set starts" for s' using sorted(1) Cons that by auto
    show ?thesis
    proof (cases "i < length es")
      case True
      have "v \<le> es ! i" using first(3) [of i] True by simp
      then show ?thesis using True hd Cons by (fastforce simp: skip_def not_le)
    next
      case False
      then show ?thesis using first(1) by (simp add: skip_def)
    qed
  qed
  note skip = this
  have new: "smallest_range (set (v # starts)) (set es) s e \<longleftrightarrow>
      smallest_range (set starts) (set es) s e \<or> \<not> skip \<and> s = v \<and> e = es ! i" for s e
    using smallest_insert [OF less, of "set es" s e] unfolding least skip list.set by blast
  have "set (pair_projections (v # starts) es)
      = set (pair_projections starts es) \<union> (if skip then {} else {approximate (v, es ! i)})"
    by (auto simp: Let_def i_def [symmetric] skip_def [symmetric] approximate_def)
  moreover have "set (pair_projections starts es) = approximate ` {(s, e). smallest_range (set starts) (set es) s e}"
    using "2.IH" sorted by (cases skip) (auto simp: skip_def i_def)
  ultimately show ?case unfolding new by auto
qed

text \<open>Across several copies, the starts and ends are paired to exactly the smallest ranges: those that
  contain no other start behind their own and no end before theirs.\<close>
theorem pair_projections_smallest:
  assumes "sorted starts" "sorted ends"
  shows "set (pair_projections starts ends)
     = {ms :: MappedSpan. SpanFidelity ms = FidelityApproximate
            \<and> (\<exists>s e. Span ms = NewTextRange s e \<and> smallest_range (set starts) (set ends) s e)}"
  unfolding pair_projections_set [OF assms]
proof (intro set_eqI iffI)
  fix ms :: MappedSpan assume "ms \<in> {ms. SpanFidelity ms = FidelityApproximate
      \<and> (\<exists>s e. Span ms = NewTextRange s e \<and> smallest_range (set starts) (set ends) s e)}"
  then obtain s e where "Span ms = NewTextRange s e" "SpanFidelity ms = FidelityApproximate"
    "smallest_range (set starts) (set ends) s e" by blast
  then show "ms \<in> approximate ` {(s, e). smallest_range (set starts) (set ends) s e}"
    by (intro image_eqI [of _ _ "(s, e)"]) (simp_all add: approximate_def)
qed (auto simp: approximate_def, blast)

section \<open>The JSON form\<close>

lemma sort_slice_sorted: "sorted_wrt (\<lambda>x y. \<not> lt y x) xs \<Longrightarrow> sort_slice lt xs = xs"
proof (induction xs)
  case (Cons x xs)
  then have "sort_slice lt xs = xs" by simp
  moreover have "insert_slice lt x xs = x # xs" using Cons.prems by (cases xs) auto
  ultimately show ?case by (simp add: sort_slice_def)
qed (simp add: sort_slice_def)

lemma tuple_segment_tuple:
  assumes "segment_ok v w s" "small_texts v w"
  shows "tuple_segment (segment_tuple s) = s"
proof -
  have "int32 (VirtualEnd s - VirtualStart s) = VirtualEnd s - VirtualStart s"
    "int32 (OriginalEnd s - OriginalStart s) = OriginalEnd s - OriginalStart s"
    "int32 (VirtualEnd s) = VirtualEnd s" "int32 (OriginalEnd s) = OriginalEnd s"
    using assms by (auto simp: segment_ok_def small_texts_def intro!: int32_diff int32_id)
  then show ?thesis by (simp add: tuple_segment_def segment_tuple_def)
qed

lemma length_segment_tuple: "length (segment_tuple s) = (if Features s \<noteq> FeatureAll then 6 else 5)"
  by (simp add: segment_tuple_def)

lemma unmarshal_marshal:
  "list_all (segment_ok v w) segs \<Longrightarrow> small_texts v w \<Longrightarrow> unmarshal_tuples i (map segment_tuple segs) = Inr segs"
  by (induction segs arbitrary: i) (auto simp: tuple_segment_tuple [of v w] length_segment_tuple)

text \<open>A valid map survives the JSON form a content mapper sends.\<close>
theorem Unmarshal_Marshal:
  assumes "Validate (Some m) virtual original = None" "small_texts virtual original"
  shows "Unmarshal (Marshal m) = Inr m"
proof -
  have v: "valid_map virtual original m" using assms(1) by (simp add: Validate_None)
  have ok: "segment_ok virtual original s" if "s \<in> set (segments m)" for s
    using v that by (auto simp: valid_map_def list_all_iff)
  have "\<not> int32 (VirtualStart t - VirtualStart s) < 0"
    if "s \<in> set (segments m)" "t \<in> set (segments m)" "before s t" for s t
    using ok [OF that(1)] ok [OF that(2)] that(3) assms(2)
    by (auto simp: before_def segment_ok_def small_texts_def int32_diff)
  then have "sorted_wrt (\<lambda>s t. \<not> int32 (VirtualStart t - VirtualStart s) < 0) (segments m)"
    using v unfolding valid_map_def by (blast intro: sorted_wrt_mono_rel)
  then have "NewSpanMap (segments m) = m" by (simp add: NewSpanMap_def sort_slice_sorted)
  moreover have "unmarshal_tuples 0 (map segment_tuple (segments m)) = Inr (segments m)"
    using v assms(2) by (auto simp: valid_map_def intro: unmarshal_marshal)
  ultimately show ?thesis by (simp add: Unmarshal_def Marshal_def)
qed

section \<open>Witnesses\<close>

lemma small_two_segments: "small_texts ''_cde12'' ''12xyzcdef''"
  by (simp add: small_texts_def)

theorem OriginalToVirtualPositions_projections_witness:
  "set (OriginalToVirtualPositions (Some two_segments) 6 1)
     = (\<lambda>s. mapped_position 6 (6 = OriginalEnd s \<and> 6 \<noteq> OriginalStart s) s)
         ` {s \<in> set (segments two_segments). OriginalStart s \<le> 6 \<and> 6 \<le> OriginalEnd s \<and> supportsFeature s 1}"
  using OriginalToVirtualPositions_projections [OF Validate_two_segments small_two_segments] by blast

theorem exact_position_comes_back_witness:
  "\<lparr>MappedPos = 3, PosFidelity = FidelityExact\<rparr> \<in> set (OriginalToVirtualPositions (Some two_segments) 7 1)"
proof -
  have "VirtualToOriginalPositionForFeature (Some two_segments) 3 1 = (7, FidelityExact)" by code_simp
  from exact_position_comes_back [OF Validate_two_segments small_two_segments this] show ?thesis .
qed

theorem exact_projections_same_text_witness: "substr ''_cde12'' 2 4 = substr ''12xyzcdef'' 6 8"
proof -
  have "\<lparr>Span = NewTextRange 2 4, SpanFidelity = FidelityExact\<rparr>
      \<in> set (OriginalToVirtualSpans (Some two_segments) (NewTextRange 6 8) 1)" by code_simp
  from exact_projections_same_text [OF Validate_two_segments small_two_segments _ this]
  show ?thesis by (simp add: NewTextRange_def)
qed

theorem pair_projections_smallest_witness:
  "set (pair_projections [1, 11] [3, 13])
     = {ms :: MappedSpan. SpanFidelity ms = FidelityApproximate
            \<and> (\<exists>s e. Span ms = NewTextRange s e \<and> smallest_range {1, 11} {3, 13} s e)}"
  using pair_projections_smallest [of "[1, 11]" "[3, 13]"] by simp

theorem Unmarshal_Marshal_witness: "Unmarshal (Marshal two_segments) = Inr two_segments"
  by (rule Unmarshal_Marshal [OF Validate_two_segments small_two_segments])

end
