(* ===== verification/LineMap.thy ===== *)
theory LineMap
  imports StringUtil GoSlices
begin

text \<open>
  Positions in a text: the line starts of \<open>core/core.go\<close> and \<open>ls/lsconv/linemap.go\<close>, the conversions
  between byte positions and lines with UTF-16 characters of \<open>scanner/scanner.go\<close>, and the two of
  \<open>ls/lsconv/converters.go\<close> for the language server. Positions are \<open>nat\<close> (texts are shorter than
  2 GiB, the range of \<open>TextPos\<close>); lines and characters that may be negative are \<open>int\<close>. A panic (of an
  index, a slice or explicit) is \<open>None\<close>.
\<close>

section \<open>UTF-16 lengths\<close>

definition utf16_RuneLen :: "rune \<Rightarrow> int" where
  "utf16_RuneLen r =
     (if r < 0xD800 then 1 else if r < 0xE000 then -1 else if r < 0x10000 then 1 else if r \<le> 0x10FFFF then 2 else -1)"

lemma not_surrogate3:
  fixes d x y :: nat
  assumes "d \<le> 15" "x \<le> (if d = 13 then 31 else 63)" "y \<le> 63"
  shows "valid_rune (d * 4096 + x * 64 + y)"
proof -
  consider "d \<le> 12" | "d = 13" | "14 \<le> d" by linarith
  then show ?thesis using assms by cases (auto simp: valid_rune_def is_surrogate_def)
qed

lemma valid_small: "r < 0xD800 \<Longrightarrow> valid_rune r"
  by (simp add: valid_rune_def is_surrogate_def)

lemma valid_RuneError: "valid_rune RuneError"
  by (simp add: valid_rune_def is_surrogate_def)

lemma decode3_valid:
  assumes "0xE0 \<le> b0" "b0 \<le> 0xEF"
  shows "valid_rune (fst (decode3 b0 s))"
proof (cases "snd (decode3 b0 s) = 3")
  case True
  then obtain c1 c2 t where s: "s = c1 # c2 # t" "byte c1 \<le> (if b0 = 0xED then 0x9F else 0xBF)" "is_cont c2"
    "fst (decode3 b0 s) = (b0 - 0xE0) * 4096 + (byte c1 - 0x80) * 64 + (byte c2 - 0x80)"
    by (auto simp: decode3_def split: list.splits if_splits)
  show ?thesis
    unfolding s(4) using assms s(2,3) by (intro not_surrogate3) (auto simp: is_cont_def split: if_splits)
qed (auto simp: decode3_def valid_RuneError split: list.splits if_splits)

lemma decode4_valid:
  assumes "0xF0 \<le> b0" "b0 \<le> 0xF4"
  shows "valid_rune (fst (decode4 b0 s))"
proof (cases "snd (decode4 b0 s) = 4")
  case True
  then obtain c1 c2 c3 t where s: "s = c1 # c2 # c3 # t" "(if b0 = 0xF0 then 0x90 else 0x80) \<le> byte c1"
    "byte c1 \<le> (if b0 = 0xF4 then 0x8F else 0xBF)" "is_cont c2" "is_cont c3"
    "fst (decode4 b0 s) = (b0 - 0xF0) * 262144 + (byte c1 - 0x80) * 4096 + (byte c2 - 0x80) * 64 + (byte c3 - 0x80)"
    by (auto simp: decode4_def split: list.splits if_splits)
  have "0x10000 \<le> (b0 - 0xF0) * 262144 + (byte c1 - 0x80) * 4096"
    using assms s(2) by (cases "b0 = 0xF0") auto
  moreover have "(b0 - 0xF0) * 262144 + (byte c1 - 0x80) * 4096 \<le> 0x10F000"
    using assms s(3) by (cases "b0 = 0xF4") auto
  moreover have "(byte c2 - 0x80) * 64 \<le> 63 * 64" "byte c3 - 0x80 \<le> 63" using s(4,5) by (auto simp: is_cont_def)
  ultimately show ?thesis unfolding s(6) valid_rune_def is_surrogate_def by linarith
qed (auto simp: decode4_def valid_RuneError split: list.splits if_splits)

lemma decode_rune_valid: "valid_rune (fst (decode_rune s))"
proof (cases s)
  case (Cons c t)
  have "valid_rune (fst (decode2 (byte c) t))" if "0xC2 \<le> byte c" "byte c \<le> 0xDF"
    using that by (auto simp: decode2_def valid_RuneError is_cont_def intro!: valid_small split: list.splits)
  then show ?thesis
    using Cons decode3_valid [of "byte c" t] decode4_valid [of "byte c" t]
    by (simp add: Let_def valid_RuneError valid_small)
qed (simp add: valid_RuneError)

lemma RuneLen_decoded: "utf16_RuneLen (fst (decode_rune s)) = 1 \<or> utf16_RuneLen (fst (decode_rune s)) = 2"
  using decode_rune_valid [of s] by (auto simp: valid_rune_def is_surrogate_def utf16_RuneLen_def)

lemma RuneLen_pos: "0 < utf16_RuneLen (fst (decode_rune s))"
  using RuneLen_decoded [of s] by auto

fun UTF16Len_loop :: "string \<Rightarrow> nat \<Rightarrow> string \<Rightarrow> int" where
  "UTF16Len_loop s i [] = int (length s)"
| "UTF16Len_loop s i (c # t) =
     (if byte c \<ge> 0x80 then int i + sum_list (map utf16_RuneLen (runes (drop i s))) else UTF16Len_loop s (i + 1) t)"

definition UTF16Len :: "string \<Rightarrow> int" where
  "UTF16Len s = UTF16Len_loop s 0 s"

text \<open>The fast path counts what the slow one would.\<close>

definition units :: "string \<Rightarrow> int" where
  "units s = sum_list (map utf16_RuneLen (runes s))"

lemma units_Nil [simp]: "units [] = 0"
  by (simp add: units_def)

lemma units_unfold:
  "s \<noteq> [] \<Longrightarrow> units s = utf16_RuneLen (fst (decode_rune s)) + units (drop (snd (decode_rune s)) s)"
  by (simp add: units_def runes_unfold [of s])

lemma units_ascii: "byte c < 0x80 \<Longrightarrow> units (c # s) = 1 + units s"
  by (simp add: units_unfold [of "c # s"] utf16_RuneLen_def)

lemma UTF16Len_loop_eq: "s = pre @ t \<Longrightarrow> length pre = i \<Longrightarrow> UTF16Len_loop s i t = int i + units t"
proof (induction s i t arbitrary: pre rule: UTF16Len_loop.induct)
  case (2 s i c t)
  then show ?case
    using "2.IH" [of "pre @ [c]"] by (auto simp: units_ascii) (simp add: units_def)
qed simp

lemma UTF16Len_units: "UTF16Len s = units s"
  using UTF16Len_loop_eq [of s "[]" s 0] by (simp add: UTF16Len_def)

section \<open>Line starts\<close>

text \<open>\<open>ComputeECMALineStartsSeq\<close>.\<close>

function ECMA_line_starts :: "string \<Rightarrow> nat \<Rightarrow> nat \<Rightarrow> nat list" where
  "ECMA_line_starts s pos lineStart =
     (if pos < length s
      then
        (let b = byte (s ! pos) in
         if b < 0x80
         then
           (let pos = pos + 1;
                pos = (if b = 0x0D \<and> pos < length s \<and> s ! pos = CHR 0x0A then pos + 1 else pos)
            in if b = 0x0D \<or> b = 0x0A then lineStart # ECMA_line_starts s pos pos
               else ECMA_line_starts s pos lineStart)
         else
           (let (ch, size0) = decode_rune (drop pos s); pos = pos + size0
            in if IsLineBreak ch then lineStart # ECMA_line_starts s pos pos else ECMA_line_starts s pos lineStart))
      else [lineStart])"
  by pat_completeness auto
termination
proof (relation "measure (\<lambda>(s, pos, lineStart). length s - pos)", goal_cases)
  case (4 s pos lineStart b p ch size0 pos')
  then have "0 < size0" using decode_rune_size_pos [of "drop pos s"] by (metis drop_eq_Nil not_le snd_conv)
  then show ?case using 4 by simp
next
  case (5 s pos lineStart b p ch size0 pos')
  then have "0 < size0" using decode_rune_size_pos [of "drop pos s"] by (metis drop_eq_Nil not_le snd_conv)
  then show ?case using 5 by simp
qed auto

declare ECMA_line_starts.simps [simp del]

definition ComputeECMALineStarts :: "string \<Rightarrow> nat list" where
  "ComputeECMALineStarts s = ECMA_line_starts s 0 0"

record LSPLineMap =
  LineStarts :: "nat list"
  AsciiOnly :: bool

function LSP_line_starts :: "string \<Rightarrow> nat \<Rightarrow> nat \<Rightarrow> bool \<Rightarrow> nat list \<times> bool" where
  "LSP_line_starts s pos lineStart asciiOnly =
     (if pos < length s
      then
        (let b = byte (s ! pos) in
         if b < 0x80
         then
           (let pos = pos + 1;
                pos = (if b = 0x0D \<and> pos < length s \<and> s ! pos = CHR 0x0A then pos + 1 else pos)
            in if b = 0x0D \<or> b = 0x0A
               then (let (starts, ascii) = LSP_line_starts s pos pos asciiOnly in (lineStart # starts, ascii))
               else LSP_line_starts s pos lineStart asciiOnly)
         else LSP_line_starts s (pos + snd (decode_rune (drop pos s))) lineStart False)
      else ([lineStart], asciiOnly))"
  by pat_completeness auto
termination
proof (relation "measure (\<lambda>(s, pos, _). length s - pos)", goal_cases)
  case (4 s pos lineStart asciiOnly b)
  then show ?case using decode_rune_size_pos [of "drop pos s"] by simp
qed auto

declare LSP_line_starts.simps [simp del]

definition ComputeLSPLineStarts :: "string \<Rightarrow> LSPLineMap" where
  "ComputeLSPLineStarts s =
     (let (starts, ascii) = LSP_line_starts s 0 0 True in \<lparr>LineStarts = starts, AsciiOnly = ascii\<rparr>)"

section \<open>Lines of positions\<close>

text \<open>The loop of \<open>ComputeLineOfPosition\<close>.\<close>

function line_search :: "nat list \<Rightarrow> int \<Rightarrow> int \<Rightarrow> int \<Rightarrow> int" where
  "line_search starts p low high =
     (if low \<le> high
      then (let middle = low + (high - low) div 2; v = int (starts ! nat middle) in
            if v < p then line_search starts p (middle + 1) high
            else if v > p then line_search starts p low (middle - 1)
            else middle)
      else low - 1)"
  by pat_completeness auto
termination by (relation "measure (\<lambda>(starts, p, low, high). nat (high - low + 1))") auto

declare line_search.simps [simp del]

definition ComputeLineOfPosition :: "nat list \<Rightarrow> int \<Rightarrow> int" where
  "ComputeLineOfPosition starts p = line_search starts p 0 (int (length starts) - 1)"

text \<open>\<open>text[a:b]\<close>, which panics when the bounds are out of order or out of range.\<close>

definition slice_text :: "string \<Rightarrow> nat \<Rightarrow> nat \<Rightarrow> string panics" where
  "slice_text s a b = (if a \<le> b \<and> b \<le> length s then Some (take (b - a) (drop a s)) else None)"

definition GetECMALineAndUTF16CharacterOfPosition :: "string \<Rightarrow> nat \<Rightarrow> (int \<times> int) panics" where
  "GetECMALineAndUTF16CharacterOfPosition s p =
     (let lineMap = ComputeECMALineStarts s; line = ComputeLineOfPosition lineMap (int p) in
      if line < 0 then None
      else map_option (\<lambda>t. (line, UTF16Len t)) (slice_text s (lineMap ! nat line) p))"

definition GetECMALineAndByteOffsetOfPosition :: "string \<Rightarrow> nat \<Rightarrow> (int \<times> int) panics" where
  "GetECMALineAndByteOffsetOfPosition s p =
     (let lineMap = ComputeECMALineStarts s; line = ComputeLineOfPosition lineMap (int p) in
      if line < 0 then None else Some (line, int p - int (lineMap ! nat line)))"

text \<open>The loop of \<open>GetECMAEndLinePosition\<close>.\<close>

function end_line_loop :: "string \<Rightarrow> nat \<Rightarrow> int" where
  "end_line_loop s p =
     (let (ch, size0) = decode_rune (drop p s) in
      if size0 = 0 \<or> IsLineBreak ch then int p - 1 else end_line_loop s (p + size0))"
  by pat_completeness auto
termination
proof (relation "measure (\<lambda>(s, p). length s - p)", goal_cases)
  case (2 s p x ch size0)
  then have "drop p s \<noteq> []" using decode_rune_size_0 [of "drop p s"] by (metis snd_conv)
  then have "p < length s" by simp
  then show ?case using 2 by auto
qed simp

declare end_line_loop.simps [simp del]

definition GetECMAEndLinePosition :: "string \<Rightarrow> nat \<Rightarrow> int panics" where
  "GetECMAEndLinePosition s line =
     (let starts = ComputeECMALineStarts s in
      if line < length starts then Some (end_line_loop s (starts ! line)) else None)"

definition ComputePositionOfLineAndByteOffset :: "nat list \<Rightarrow> int \<Rightarrow> int \<Rightarrow> int panics" where
  "ComputePositionOfLineAndByteOffset starts line byteOffset =
     (if line < 0 \<or> line \<ge> int (length starts) then None else Some (int (starts ! nat line) + byteOffset))"

text \<open>The loop of \<open>ComputePositionOfLineAndUTF16Character\<close>, with its position and its utf16Count at the end.\<close>

function character_loop :: "string \<Rightarrow> nat \<Rightarrow> int \<Rightarrow> nat \<Rightarrow> int \<Rightarrow> (nat \<times> int) panics" where
  "character_loop s lineEnd character p utf16Count =
     (if p < lineEnd
      then
        (if utf16Count \<ge> character then Some (p, utf16Count)
         else if p > length s then None
         else (let (r, size0) = decode_rune (drop p s)
               in character_loop s lineEnd character (p + size0) (utf16Count + utf16_RuneLen r)))
      else Some (p, utf16Count))"
  by pat_completeness auto
termination
proof (relation "measure (\<lambda>(s, lineEnd, character, p, utf16Count). nat (character - utf16Count))", goal_cases)
  case (2 s lineEnd character p utf16Count x r size0)
  then show ?case using RuneLen_pos [of "drop p s"] by (cases "decode_rune (drop p s)") simp
qed simp

declare character_loop.simps [simp del]

definition ComputePositionOfLineAndUTF16Character :: "nat list \<Rightarrow> int \<Rightarrow> int \<Rightarrow> string \<Rightarrow> bool \<Rightarrow> nat panics" where
  "ComputePositionOfLineAndUTF16Character starts line0 character s allowEdits =
     (if (line0 < 0 \<or> line0 \<ge> int (length starts)) \<and> \<not> allowEdits then None
      else
        (let line = (if line0 < 0 then 0 else if line0 \<ge> int (length starts) then int (length starts) - 1 else line0) in
         if line < 0 \<or> line \<ge> int (length starts) then None
         else
           (let lineStart = starts ! nat line in
            if character > 0
            then
              (let lineEnd = (if line + 1 < int (length starts) then starts ! nat (line + 1) else length s) in
               case character_loop s lineEnd character lineStart 0 of
                 None \<Rightarrow> None
               | Some (p, utf16Count) \<Rightarrow>
                   if \<not> allowEdits
                   then (if p = lineEnd \<and> utf16Count < character then None else if p \<le> length s then Some p else None)
                   else Some (if p > length s then length s else p))
            else if allowEdits then Some (if lineStart > length s then length s else lineStart)
            else if lineStart \<le> length s then Some lineStart else None)))"

section \<open>The language server's conversions\<close>

datatype PositionEncodingKind = PositionEncodingKindUTF8 | PositionEncodingKindUTF16

definition ComputeIndexOfLineStart :: "LSPLineMap \<Rightarrow> nat \<Rightarrow> nat" where
  "ComputeIndexOfLineStart lm targetPos =
     (let (lineNumber, ok) = BinarySearchFunc (LineStarts lm) targetPos (\<lambda>p t. int p - int t)
      in if \<not> ok \<and> lineNumber > 0 then lineNumber - 1 else lineNumber)"

function unit_loop :: "string \<Rightarrow> nat \<Rightarrow> int \<Rightarrow> nat \<Rightarrow> int \<Rightarrow> nat panics" where
  "unit_loop s e char p utf16Char =
     (if p < e
      then
        (if p > length s then None
         else (let (r, size0) = decode_rune (drop p s); u16Len = utf16_RuneLen r in
               if utf16Char + u16Len > char then Some p else unit_loop s e char (p + size0) (utf16Char + u16Len)))
      else Some p)"
  by pat_completeness auto
termination
proof (relation "measure (\<lambda>(s, e, char, p, utf16Char). nat (char - utf16Char))", goal_cases)
  case (2 s e char p utf16Char x r size0 u)
  then show ?case using RuneLen_pos [of "drop p s"] by (cases "decode_rune (drop p s)") simp
qed simp

declare unit_loop.simps [simp del]

definition lineAndCharacterToPosition ::
  "LSPLineMap \<Rightarrow> PositionEncodingKind \<Rightarrow> string \<Rightarrow> nat \<Rightarrow> nat \<Rightarrow> nat panics" where
  "lineAndCharacterToPosition lineMap encoding s line char =
     (if line \<ge> length (LineStarts lineMap) then Some (length s)
      else
        (let start = LineStarts lineMap ! line;
             lineEnd = (if line + 1 < length (LineStarts lineMap) then LineStarts lineMap ! (line + 1) else length s)
         in if AsciiOnly lineMap \<or> encoding = PositionEncodingKindUTF8 then Some (max start (min (start + char) lineEnd))
            else unit_loop s lineEnd (int char) start 0))"

definition positionToLineAndCharacter ::
  "LSPLineMap \<Rightarrow> PositionEncodingKind \<Rightarrow> string \<Rightarrow> int \<Rightarrow> (nat \<times> int) panics" where
  "positionToLineAndCharacter lineMap encoding s position0 =
     (let position = nat (max 0 (min position0 (int (length s))));
          (found, isLineStart) = BinarySearchFunc (LineStarts lineMap) position (\<lambda>p t. int p - int t);
          line = max 0 (min (if isLineStart then int found else int found - 1) (int (length (LineStarts lineMap)) - 1))
      in if line \<ge> int (length (LineStarts lineMap)) then None
         else
           (let start = LineStarts lineMap ! nat line in
            if AsciiOnly lineMap \<or> encoding = PositionEncodingKindUTF8
            then Some (nat line, int position - int start)
            else map_option (\<lambda>t. (nat line, sum_list (map utf16_RuneLen (runes t)))) (slice_text s start position)))"

end
