(* ===== verification/LineMapCorrect.thy ===== *)
theory LineMapCorrect
  imports LineMap
begin

text \<open>
  Positions survive the conversion to lines and characters and back: for the scanner's line map and
  for the language server's. The line maps share the contract \<open>text_lines\<close>: their starts begin at
  0, increase, and lie between runes.
\<close>

section \<open>Positions between runes\<close>

function rune_boundary :: "string \<Rightarrow> nat \<Rightarrow> bool" where
  "rune_boundary s p =
     (if p = 0 then True
      else if s = [] then False
      else snd (decode_rune s) \<le> p \<and> rune_boundary (drop (snd (decode_rune s)) s) (p - snd (decode_rune s)))"
  by pat_completeness auto
termination by (relation "measure (length o fst)") (auto simp: decode_rune_size_pos)

declare rune_boundary.simps [simp del]

lemma boundary_0 [simp]: "rune_boundary s 0"
  by (simp add: rune_boundary.simps)

lemma boundary_Nil [simp]: "rune_boundary [] p \<longleftrightarrow> p = 0"
  by (simp add: rune_boundary.simps)

lemma boundary_step:
  "s \<noteq> [] \<Longrightarrow> rune_boundary s (snd (decode_rune s) + p) \<longleftrightarrow> rune_boundary (drop (snd (decode_rune s)) s) p"
  using decode_rune_size_pos [of s] by (subst rune_boundary.simps) simp

lemma boundary_cases:
  assumes "rune_boundary s p"
  obtains "p = 0" | q where "s \<noteq> []" "p = snd (decode_rune s) + q" "rune_boundary (drop (snd (decode_rune s)) s) q"
proof (cases "p = 0")
  case False
  have "s \<noteq> [] \<and> snd (decode_rune s) \<le> p \<and> rune_boundary (drop (snd (decode_rune s)) s) (p - snd (decode_rune s))"
    using assms False rune_boundary.simps [of s p] by (simp split: if_splits)
  then show thesis using that(2) [of "p - snd (decode_rune s)"] by simp
qed (rule that(1))

lemma boundary_le: "rune_boundary s p \<Longrightarrow> p \<le> length s"
proof (induction s p rule: rune_boundary.induct)
  case (1 s p)
  show ?case
    using "1.prems"
  proof (cases rule: boundary_cases)
    case (2 q)
    then have "q \<le> length s - snd (decode_rune s)"
      using 1(1) [of ] decode_rune_size_pos [of s] by fastforce
    then show ?thesis using 2 decode_rune_size_le [of s] by simp
  qed simp
qed

lemma boundary_length: "rune_boundary s (length s)"
proof (induction "length s" arbitrary: s rule: less_induct)
  case less
  show ?case
  proof (cases "s = []")
    case False
    have "rune_boundary (drop (snd (decode_rune s)) s) (length (drop (snd (decode_rune s)) s))"
      using less [of "drop (snd (decode_rune s)) s"] decode_rune_size_pos [OF False] False by simp
    then show ?thesis
      using boundary_step [OF False, of "length s - snd (decode_rune s)"] decode_rune_size_le [of s] by simp
  qed simp
qed

lemma boundary_drop: "rune_boundary s p \<Longrightarrow> p \<le> q \<Longrightarrow> rune_boundary s q \<longleftrightarrow> rune_boundary (drop p s) (q - p)"
proof (induction s p arbitrary: q rule: rune_boundary.induct)
  case (1 s p)
  show ?case
    using "1.prems"(1)
  proof (cases rule: boundary_cases)
    case (2 p')
    define n where "n = snd (decode_rune s)"
    have "0 < n" using decode_rune_size_pos [OF 2(1)] by (simp add: n_def)
    have "rune_boundary s q \<longleftrightarrow> rune_boundary (drop n s) (q - n)"
      using boundary_step [OF 2(1), of "q - n"] "1.prems"(2) 2(2) by (simp add: n_def)
    also have "\<dots> \<longleftrightarrow> rune_boundary (drop p' (drop n s)) (q - n - p')"
      using "1.IH" [of "q - n"] 2 "1.prems" \<open>0 < n\<close> by (simp add: n_def)
    finally show ?thesis using 2(2) by (simp add: n_def add.commute)
  qed simp
qed

text \<open>Decoding looks only at the bytes of the rune.\<close>

lemma decode2_take: "snd (decode2 b t) \<le> Suc m \<Longrightarrow> decode2 b (take m t) = decode2 b t"
  by (cases t; cases m) (auto simp: decode2_def split: if_splits)

lemma decode3_take: "snd (decode3 b t) \<le> Suc m \<Longrightarrow> decode3 b (take m t) = decode3 b t"
proof -
  assume a: "snd (decode3 b t) \<le> Suc m"
  show ?thesis
  proof (cases t)
    case (Cons c1 t')
    show ?thesis
      using a unfolding Cons
      by (cases t'; cases m; cases "m - 1") (auto simp: decode3_def split: if_splits)
  qed simp
qed

lemma decode4_take: "snd (decode4 b t) \<le> Suc m \<Longrightarrow> decode4 b (take m t) = decode4 b t"
proof -
  assume a: "snd (decode4 b t) \<le> Suc m"
  show ?thesis
  proof (cases t)
    case t: (Cons c1 t')
    show ?thesis
    proof (cases t')
      case (Cons c2 t'')
      show ?thesis
        using a unfolding t Cons
        by (cases t''; cases m; cases "m - 1"; cases "m - 2") (auto simp: decode4_def split: if_splits)
    next
      case Nil
      then show ?thesis using t by (cases m; cases "m - 1") (auto simp: decode4_def)
    qed
  qed simp
qed

lemma decode_rune_take:
  assumes "snd (decode_rune s) \<le> n" "s \<noteq> []"
  shows "decode_rune (take n s) = decode_rune s"
proof -
  obtain c t where s: "s = c # t" using assms(2) by (cases s) auto
  obtain k where n: "n = Suc k" using assms decode_rune_size_pos [of s] by (cases n) auto
  show ?thesis
    using assms(1) decode2_take [of "byte c" t k] decode3_take [of "byte c" t k] decode4_take [of "byte c" t k]
    unfolding s n by (auto simp: Let_def split: if_splits)
qed

lemma units_take_step:
  assumes "s \<noteq> []" "snd (decode_rune s) \<le> p"
  shows "units (take p s)
     = utf16_RuneLen (fst (decode_rune s)) + units (take (p - snd (decode_rune s)) (drop (snd (decode_rune s)) s))"
proof -
  have "take p s \<noteq> []" using assms decode_rune_size_pos [OF assms(1)] by (cases p) auto
  then show ?thesis
    using units_unfold [of "take p s"] decode_rune_take [OF assms(2,1)] by (simp add: drop_take)
qed

lemma units_take_pos: "rune_boundary s p \<Longrightarrow> 0 < p \<Longrightarrow> utf16_RuneLen (fst (decode_rune s)) \<le> units (take p s)"
proof (induction "length s" arbitrary: s p rule: less_induct)
  case less
  show ?case
    using less.prems(1)
  proof (cases rule: boundary_cases)
    case (2 q)
    define s' where "s' = drop (snd (decode_rune s)) s"
    have "length s' < length s" using decode_rune_size_pos [OF 2(1)] 2(1) by (simp add: s'_def)
    then have "q = 0 \<or> 0 < units (take q s')"
      using less.hyps [of s' q] 2(3) RuneLen_pos [of s'] by (fastforce simp: s'_def)
    then have "0 \<le> units (take q s')" by auto
    then show ?thesis using units_take_step [OF 2(1), of p] 2(2) by (simp add: s'_def)
  qed (use less.prems in simp)
qed

text \<open>The loops that count characters stop where they should.\<close>

lemma character_loop_finds:
  "rune_boundary (drop p s) n \<Longrightarrow> p + n \<le> lineEnd \<Longrightarrow> lineEnd \<le> length s
   \<Longrightarrow> character = utf16Count + units (take n (drop p s))
   \<Longrightarrow> character_loop s lineEnd character p utf16Count = Some (p + n, character)"
proof (induction s lineEnd character p utf16Count arbitrary: n rule: character_loop.induct)
  case (1 s lineEnd character p utf16Count)
  show ?case
    using "1.prems"(1)
  proof (cases rule: boundary_cases)
    case 1
    then show ?thesis
      using "1.prems" unfolding character_loop.simps [of s lineEnd character p utf16Count] by simp
  next
    case (2 q)
    obtain r size0 where r: "decode_rune (drop p s) = (r, size0)" by (cases "decode_rune (drop p s)")
    have "0 < size0" using decode_rune_size_pos [OF 2(1)] r by simp
    then have p: "p < lineEnd" "p \<le> length s" using "1.prems"(2,3) 2(2) r by simp_all
    have "utf16_RuneLen r \<le> units (take n (drop p s))"
      using units_take_pos [OF "1.prems"(1)] 2(2) r \<open>0 < size0\<close> by simp
    then have less: "utf16Count < character" using RuneLen_pos [of "drop p s"] r "1.prems"(4) by simp
    have "character_loop s lineEnd character (p + size0) (utf16Count + utf16_RuneLen r) = Some (p + size0 + q, character)"
      using "1.IH" [OF p(1) _ _ r [symmetric] refl, of q] less p 2 "1.prems" r units_take_step [OF 2(1), of n]
      by (simp add: add.commute)
    then show ?thesis
      using p less r 2(2) unfolding character_loop.simps [of s lineEnd character p utf16Count] by (simp add: add.assoc)
  qed
qed

lemma unit_loop_finds:
  "rune_boundary (drop p s) n \<Longrightarrow> p + n \<le> e \<Longrightarrow> e \<le> length s
   \<Longrightarrow> char = utf16Char + units (take n (drop p s))
   \<Longrightarrow> unit_loop s e char p utf16Char = Some (p + n)"
proof (induction s e char p utf16Char arbitrary: n rule: unit_loop.induct)
  case (1 s e char p utf16Char)
  obtain r size0 where r: "decode_rune (drop p s) = (r, size0)" by (cases "decode_rune (drop p s)")
  have len: "0 < utf16_RuneLen r" using RuneLen_pos [of "drop p s"] r by simp
  show ?case
    using "1.prems"(1)
  proof (cases rule: boundary_cases)
    case 1
    then show ?thesis
      using "1.prems" len r unfolding unit_loop.simps [of s e char p utf16Char] by (simp add: Let_def)
  next
    case (2 q)
    have "0 < size0" using decode_rune_size_pos [OF 2(1)] r by simp
    then have p: "p < e" "p \<le> length s" using "1.prems"(2,3) 2(2) r by simp_all
    have le: "utf16_RuneLen r \<le> units (take n (drop p s))"
      using units_take_pos [OF "1.prems"(1)] 2(2) r \<open>0 < size0\<close> by simp
    have "unit_loop s e char (p + size0) (utf16Char + utf16_RuneLen r) = Some (p + size0 + q)"
      using "1.IH" [OF p(1) _ r [symmetric] refl refl, of q] le p 2 "1.prems" r units_take_step [OF 2(1), of n]
      by (simp add: add.commute)
    then show ?thesis
      using p le r 2(2) "1.prems"(4) unfolding unit_loop.simps [of s e char p utf16Char]
      by (simp add: Let_def add.assoc)
  qed
qed

section \<open>Line starts\<close>

text \<open>What the starts of lines promise: they begin at 0, increase, and lie between runes.\<close>

definition starts_ok :: "string \<Rightarrow> nat list \<Rightarrow> bool" where
  "starts_ok s starts \<longleftrightarrow>
     starts \<noteq> [] \<and> sorted_wrt (<) starts \<and> (\<forall>p\<in>set starts. rune_boundary s p)"

locale text_lines =
  fixes starts :: "string \<Rightarrow> nat list"
  assumes ok: "starts_ok s (starts s)" and first: "starts s ! 0 = 0"
begin

lemma increasing: "i < j \<Longrightarrow> j < length (starts s) \<Longrightarrow> starts s ! i < starts s ! j"
  using ok [of s] sorted_wrt_nth_less [of "(<)" "starts s" i j] by (simp add: starts_ok_def)

lemma increasing_le: "i \<le> j \<Longrightarrow> j < length (starts s) \<Longrightarrow> starts s ! i \<le> starts s ! j"
  using increasing [of i j s] by (cases "i = j") auto

lemma nonempty: "0 < length (starts s)"
  using ok [of s] by (simp add: starts_ok_def)

lemma start_boundary: "i < length (starts s) \<Longrightarrow> rune_boundary s (starts s ! i)"
  using ok [of s] by (simp add: starts_ok_def)

lemma start_le: "i < length (starts s) \<Longrightarrow> starts s ! i \<le> length s"
  using start_boundary boundary_le by blast

text \<open>The line of a position, and the rest of the line in front of it.\<close>

definition line_end :: "string \<Rightarrow> nat \<Rightarrow> nat" where
  "line_end s i = (if i + 1 < length (starts s) then starts s ! (i + 1) else length s)"

definition on_line :: "string \<Rightarrow> nat \<Rightarrow> nat \<Rightarrow> bool" where
  "on_line s i p \<longleftrightarrow> i < length (starts s) \<and> starts s ! i \<le> p
     \<and> (i + 1 < length (starts s) \<longrightarrow> p < starts s ! (i + 1))"

lemma on_line_end: "on_line s i p \<Longrightarrow> p \<le> length s \<Longrightarrow> p \<le> line_end s i \<and> line_end s i \<le> length s"
  using start_le [of "i + 1" s] by (auto simp: on_line_def line_end_def)

lemma on_line_boundary: "on_line s i p \<Longrightarrow> rune_boundary s p \<Longrightarrow> rune_boundary (drop (starts s ! i) s) (p - starts s ! i)"
  using boundary_drop [OF start_boundary, of i s p] by (simp add: on_line_def)

lemma on_lineI:
  assumes "i < length (starts s)" "\<forall>k<length (starts s). k \<le> i \<longrightarrow> starts s ! k \<le> p"
    and "\<forall>k<length (starts s). i < k \<longrightarrow> p < starts s ! k"
  shows "on_line s i p"
  using assms by (simp add: on_line_def)

end

text \<open>The binary search of \<open>ComputeLineOfPosition\<close> on increasing starts: \<open>line_found starts p r\<close> says that
  \<open>r\<close> is the last line that starts at \<open>p\<close> or before.\<close>

definition line_found :: "nat list \<Rightarrow> int \<Rightarrow> int \<Rightarrow> bool" where
  "line_found starts p r \<longleftrightarrow>
     -1 \<le> r \<and> r < int (length starts)
     \<and> (\<forall>k<length starts. int k \<le> r \<longrightarrow> int (starts ! k) \<le> p)
     \<and> (\<forall>k<length starts. r < int k \<longrightarrow> p < int (starts ! k))"

lemma line_search_finds:
  assumes "sorted_wrt (<) starts" "0 \<le> low" "high < int (length starts)" "low \<le> high + 1"
    and "\<forall>k<length starts. int k < low \<longrightarrow> int (starts ! k) < p"
    and "\<forall>k<length starts. high < int k \<longrightarrow> p < int (starts ! k)"
  shows "line_found starts p (line_search starts p low high)"
  using assms
proof (induction starts p low high rule: line_search.induct)
  case (1 starts p low high)
  have less: "starts ! k < starts ! l" if "k < l" "l < length starts" for k l
    using sorted_wrt_nth_less [OF "1.prems"(1) that] .
  show ?case
  proof (cases "low \<le> high")
    case True
    define middle where "middle = low + (high - low) div 2"
    define v where "v = int (starts ! nat middle)"
    have m: "low \<le> middle" "middle \<le> high" "0 \<le> middle" "nat middle < length starts"
      using True "1.prems"(2,3) by (auto simp: middle_def nat_less_iff)
    have below: "int (starts ! k) \<le> v" if "int k \<le> middle" for k
    proof (cases "k = nat middle")
      case False
      then have "k < nat middle" using that m(3) by linarith
      then show ?thesis using less [of k "nat middle"] m(4) by (simp add: v_def)
    qed (simp add: v_def)
    have above: "v < int (starts ! k)" if "middle < int k" "k < length starts" for k
      using less [of "nat middle" k] m(3) that by (simp add: v_def nat_less_iff)
    consider "v < p" | "p < v" | "v = p" by linarith
    then show ?thesis
    proof cases
      case 1
      have "line_search starts p low high = line_search starts p (middle + 1) high"
        using 1 True by (subst line_search.simps) (simp add: Let_def middle_def v_def)
      moreover have "line_found starts p (line_search starts p (middle + 1) high)"
        using "1.IH"(1) [OF True middle_def v_def 1 "1.prems"(1)] m below 1 "1.prems"(3,6) by force
      ultimately show ?thesis by simp
    next
      case 2
      have "line_search starts p low high = line_search starts p low (middle - 1)"
        using 2 True by (subst line_search.simps) (simp add: Let_def middle_def v_def)
      moreover have "\<forall>k<length starts. middle - 1 < int k \<longrightarrow> p < int (starts ! k)"
        using above 2 v_def m(3) by (smt (verit) nat_int)
      then have "line_found starts p (line_search starts p low (middle - 1))"
        using "1.IH"(2) [OF True middle_def v_def _ 2 "1.prems"(1)] m 2 "1.prems"(2,3,5) by simp
      ultimately show ?thesis by simp
    next
      case 3
      have "line_search starts p low high = middle"
        using 3 True by (subst line_search.simps) (simp add: Let_def middle_def v_def)
      then show ?thesis using below above 3 m by (auto simp: line_found_def nat_less_iff)
    qed
  next
    case False
    have "line_search starts p low high = low - 1" using False by (subst line_search.simps) simp
    moreover have "high = low - 1" using False "1.prems"(4) by simp
    ultimately show ?thesis using "1.prems" by (force simp: line_found_def)
  qed
qed

lemma ComputeLineOfPosition_finds:
  "sorted_wrt (<) starts \<Longrightarrow> line_found starts p (ComputeLineOfPosition starts p)"
  unfolding ComputeLineOfPosition_def by (rule line_search_finds) auto

text \<open>Both line maps of the code have increasing starts between runes.\<close>

lemma boundary_next:
  assumes "rune_boundary s p" "p < length s"
  shows "rune_boundary s (p + snd (decode_rune (drop p s)))" "0 < snd (decode_rune (drop p s))"
  using boundary_drop [OF assms(1), of "p + snd (decode_rune (drop p s))"] boundary_step [of "drop p s" 0] assms(2)
    decode_rune_size_pos [of "drop p s"]
  by simp_all

lemma boundary_ascii: "rune_boundary s p \<Longrightarrow> p < length s \<Longrightarrow> byte (s ! p) < 0x80 \<Longrightarrow> rune_boundary s (Suc p)"
  using boundary_next [of s p] decode_ascii [of "s ! p" "drop (Suc p) s"] by (simp add: Cons_nth_drop_Suc)

text \<open>A line break that the loops step over: one byte, or carriage return and line feed.\<close>

definition ascii_step :: "string \<Rightarrow> nat \<Rightarrow> nat" where
  "ascii_step s p =
     (if byte (s ! p) = 0x0D \<and> p + 1 < length s \<and> s ! (p + 1) = CHR 0x0A then p + 1 + 1 else p + 1)"

lemma boundary_ascii_step:
  assumes "rune_boundary s p" "p < length s" "byte (s ! p) < 0x80"
  shows "rune_boundary s (ascii_step s p)" "p < ascii_step s p"
  using boundary_ascii [OF assms] boundary_ascii [of s "Suc p"] by (auto simp: ascii_step_def)

lemma starts_ok_Cons:
  assumes "starts_ok s L" "L ! 0 = q" "l < q" "rune_boundary s l"
  shows "starts_ok s (l # L)"
proof -
  have "l < x" if "x \<in> set L" for x
    using assms(1-3) that by (cases L) (auto simp: starts_ok_def)
  then show ?thesis using assms(1,4) by (simp add: starts_ok_def)
qed

lemma ECMA_line_starts_ok:
  "rune_boundary s p \<Longrightarrow> rune_boundary s lineStart \<Longrightarrow> lineStart \<le> p \<Longrightarrow>
     starts_ok s (ECMA_line_starts s p lineStart) \<and> ECMA_line_starts s p lineStart ! 0 = lineStart"
proof (induction s p lineStart rule: ECMA_line_starts.induct)
  case (1 s p lineStart)
  show ?case
  proof (cases "p < length s")
    case False
    then show ?thesis
      using "1.prems" by (subst (1 2) ECMA_line_starts.simps) (simp add: starts_ok_def)
  next
    case True
    show ?thesis
    proof (cases "byte (s ! p) < 0x80")
      case ascii: True
      note step = boundary_ascii_step [OF "1.prems"(1) True ascii]
      have eq: "ECMA_line_starts s p lineStart =
          (if byte (s ! p) = 0x0D \<or> byte (s ! p) = 0x0A
           then lineStart # ECMA_line_starts s (ascii_step s p) (ascii_step s p)
           else ECMA_line_starts s (ascii_step s p) lineStart)"
        using True ascii by (subst ECMA_line_starts.simps) (simp add: Let_def ascii_step_def)
      have *: "ascii_step s p = (if byte (s ! p) = 0x0D \<and> p + 1 < length s \<and> s ! (p + 1) = CHR 0x0A then p + 1 + 1 else p + 1)"
        by (rule ascii_step_def)
      show ?thesis
      proof (cases "byte (s ! p) = 0x0D \<or> byte (s ! p) = 0x0A")
        case brk: True
        then show ?thesis
          using "1.IH"(1) [OF True refl ascii refl * brk step(1) step(1) order_refl] eq step(2) "1.prems"(2,3)
          by (auto intro!: starts_ok_Cons [of _ _ "ascii_step s p"])
      next
        case plain: False
        then show ?thesis
          using "1.IH"(2) [OF True refl ascii refl * plain step(1) "1.prems"(2)] eq step(2) "1.prems"(3) by auto
      qed
    next
      case wide: False
      obtain ch size0 where ch: "decode_rune (drop p s) = (ch, size0)" by (cases "decode_rune (drop p s)")
      have step: "rune_boundary s (p + size0)" "0 < size0"
        using boundary_next [OF "1.prems"(1) True] ch by simp_all
      have eq: "ECMA_line_starts s p lineStart =
          (if IsLineBreak ch then lineStart # ECMA_line_starts s (p + size0) (p + size0)
           else ECMA_line_starts s (p + size0) lineStart)"
        using True wide ch by (subst ECMA_line_starts.simps) (simp add: Let_def)
      show ?thesis
      proof (cases "IsLineBreak ch")
        case brk: True
        then show ?thesis
          using "1.IH"(3) [OF True refl wide ch [symmetric] refl refl brk step(1) step(1) order_refl] eq step(2) "1.prems"(2,3)
          by (auto intro!: starts_ok_Cons [of _ _ "p + size0"])
      next
        case plain: False
        then show ?thesis
          using "1.IH"(4) [OF True refl wide ch [symmetric] refl refl plain step(1) "1.prems"(2)] eq step(2) "1.prems"(3)
          by auto
      qed
    qed
  qed
qed

interpretation ECMA: text_lines ComputeECMALineStarts
  by unfold_locales (use ECMA_line_starts_ok [of _ 0 0] in \<open>simp_all add: ComputeECMALineStarts_def\<close>)

lemma LSP_line_starts_ok:
  "rune_boundary s p \<Longrightarrow> rune_boundary s lineStart \<Longrightarrow> lineStart \<le> p \<Longrightarrow>
     starts_ok s (fst (LSP_line_starts s p lineStart a)) \<and> fst (LSP_line_starts s p lineStart a) ! 0 = lineStart"
proof (induction s p lineStart a rule: LSP_line_starts.induct)
  case (1 s p lineStart a)
  show ?case
  proof (cases "p < length s")
    case False
    then show ?thesis
      using "1.prems" by (subst (1 2) LSP_line_starts.simps) (simp add: starts_ok_def)
  next
    case True
    show ?thesis
    proof (cases "byte (s ! p) < 0x80")
      case ascii: True
      note step = boundary_ascii_step [OF "1.prems"(1) True ascii]
      have eq: "fst (LSP_line_starts s p lineStart a) =
          (if byte (s ! p) = 0x0D \<or> byte (s ! p) = 0x0A
           then lineStart # fst (LSP_line_starts s (ascii_step s p) (ascii_step s p) a)
           else fst (LSP_line_starts s (ascii_step s p) lineStart a))"
        using True ascii by (subst LSP_line_starts.simps) (simp add: Let_def ascii_step_def split_beta)
      have *: "ascii_step s p = (if byte (s ! p) = 0x0D \<and> p + 1 < length s \<and> s ! (p + 1) = CHR 0x0A then p + 1 + 1 else p + 1)"
        by (rule ascii_step_def)
      show ?thesis
      proof (cases "byte (s ! p) = 0x0D \<or> byte (s ! p) = 0x0A")
        case brk: True
        then show ?thesis
          using "1.IH"(1) [OF True refl ascii refl * brk step(1) step(1) order_refl] eq step(2) "1.prems"(2,3)
          by (auto intro!: starts_ok_Cons [of _ _ "ascii_step s p"])
      next
        case plain: False
        then show ?thesis
          using "1.IH"(2) [OF True refl ascii refl * plain step(1) "1.prems"(2)] eq step(2) "1.prems"(3) by auto
      qed
    next
      case wide: False
      have step: "rune_boundary s (p + snd (decode_rune (drop p s)))"
        using boundary_next [OF "1.prems"(1) True] by simp
      have eq: "LSP_line_starts s p lineStart a = LSP_line_starts s (p + snd (decode_rune (drop p s))) lineStart False"
        using True wide by (subst LSP_line_starts.simps) (simp add: Let_def)
      show ?thesis
        using "1.IH"(3) [OF True refl wide step "1.prems"(2)] "1.prems"(3) eq by simp
    qed
  qed
qed

lemma LineStarts_eq: "LineStarts (ComputeLSPLineStarts s) = fst (LSP_line_starts s 0 0 True)"
  by (simp add: ComputeLSPLineStarts_def split_beta)

interpretation LSP: text_lines "\<lambda>s. LineStarts (ComputeLSPLineStarts s)"
  by unfold_locales (use LSP_line_starts_ok [of _ 0 0 True] in \<open>simp_all add: LineStarts_eq\<close>)

section \<open>Round trips\<close>

lemma slice_units:
  "a \<le> p \<Longrightarrow> p \<le> length s \<Longrightarrow> slice_text s a p = Some (take (p - a) (drop a s))"
  by (simp add: slice_text_def)

lemma ECMA_line_character:
  assumes "rune_boundary s p"
  obtains i where
    "GetECMALineAndUTF16CharacterOfPosition s p
       = Some (int i, units (take (p - ComputeECMALineStarts s ! i) (drop (ComputeECMALineStarts s ! i) s)))"
    "ECMA.on_line s i p"
    "\<And>allowEdits. ComputePositionOfLineAndUTF16Character (ComputeECMALineStarts s) (int i)
       (units (take (p - ComputeECMALineStarts s ! i) (drop (ComputeECMALineStarts s ! i) s))) s allowEdits = Some p"
proof -
  define starts where "starts = ComputeECMALineStarts s"
  define line where "line = ComputeLineOfPosition starts (int p)"
  have pl: "p \<le> length s" using assms by (rule boundary_le)
  have sorted: "sorted_wrt (<) starts" using ECMA.ok [of s] by (simp add: starts_ok_def starts_def)
  have found: "line_found starts (int p) line" using ComputeLineOfPosition_finds [OF sorted] by (simp add: line_def)
  have "0 < length starts" "starts ! 0 = 0" using ECMA.nonempty ECMA.first by (simp_all add: starts_def)
  then have line0: "0 \<le> line" using found unfolding line_found_def by (metis int_ops(1) linorder_not_le of_nat_0_le_iff order_less_le_trans)
  define i where "i = nat line"
  have i: "line = int i" "i < length starts" using line0 found by (auto simp: i_def line_found_def nat_less_iff)
  have on: "ECMA.on_line s i p"
    using found i by (auto simp: ECMA.on_line_def line_found_def starts_def)
  define a where "a = starts ! i"
  have a: "a \<le> p" using on by (simp add: ECMA.on_line_def a_def starts_def)
  define character where "character = units (take (p - a) (drop a s))"
  have get: "GetECMALineAndUTF16CharacterOfPosition s p = Some (line, character)"
    using line0 pl a
    by (simp add: GetECMALineAndUTF16CharacterOfPosition_def starts_def [symmetric] line_def [symmetric] Let_def i_def [symmetric]
        a_def [symmetric] slice_units UTF16Len_units character_def)
  have bound: "rune_boundary (drop a s) (p - a)" using ECMA.on_line_boundary [OF on assms] by (simp add: a_def starts_def)
  have ends: "p \<le> ECMA.line_end s i" "ECMA.line_end s i \<le> length s" using ECMA.on_line_end [OF on pl] by simp_all
  have returned: "ComputePositionOfLineAndUTF16Character starts line character s allowEdits = Some p" for allowEdits
  proof (cases "p = a")
    case True
    then show ?thesis
      using i pl by (simp add: ComputePositionOfLineAndUTF16Character_def Let_def character_def a_def)
  next
    case False
    have "utf16_RuneLen (fst (decode_rune (drop a s))) \<le> character"
      unfolding character_def by (rule units_take_pos [OF bound]) (use a False in simp)
    then have pos: "0 < character" using RuneLen_pos [of "drop a s"] by linarith
    have loop: "character_loop s (ECMA.line_end s i) character a 0 = Some (p, character)"
      using character_loop_finds [OF bound, of "ECMA.line_end s i" character 0] a ends by (simp add: character_def)
    have le: "(if int i + 1 < int (length starts) then starts ! nat (int i + 1) else length s) = ECMA.line_end s i"
      by (simp add: ECMA.line_end_def starts_def nat_add_distrib)
    have le_inside: "int i + 1 < int (length starts) \<Longrightarrow> starts ! nat (int i + 1) = ECMA.line_end s i"
      and le_last: "\<not> int i + 1 < int (length starts) \<Longrightarrow> length s = ECMA.line_end s i"
      using le by (simp_all split: if_splits)
    show ?thesis
    proof (cases "int i + 1 < int (length starts)")
      case True
      then show ?thesis
        using pos loop i(2) pl le_inside
        by (simp add: ComputePositionOfLineAndUTF16Character_def Let_def i(1) a_def [symmetric])
    next
      case False
      have "character_loop s (length s) character a 0 = Some (p, character)" using loop le_last [OF False] by simp
      then show ?thesis
        using False pos i(2) pl
        by (simp add: ComputePositionOfLineAndUTF16Character_def Let_def i(1) a_def [symmetric])
    qed
  qed
  show ?thesis by (rule that [of i]) (use get returned on i(1) in \<open>simp_all add: starts_def character_def a_def\<close>)
qed

text \<open>The line and UTF-16 character of every position between runes are defined, and converting them back
  gives the position, whether or not out-of-range values are allowed.\<close>
theorem ECMA_position_roundtrip:
  assumes "rune_boundary s p"
  shows "\<exists>line character. GetECMALineAndUTF16CharacterOfPosition s p = Some (line, character)
     \<and> ComputePositionOfLineAndUTF16Character (ComputeECMALineStarts s) line character s allowEdits = Some p"
  by (rule ECMA_line_character [OF assms]) blast

text \<open>A line break of Windows, a rune of two bytes and one of two UTF-16 units.\<close>

definition sample_text :: string where
  "sample_text = [CHR ''a'', CHR 0x0D, CHR 0x0A, CHR ''x'', CHR 0xC3, CHR 0xA9, CHR 0xF0, CHR 0x9F, CHR 0x98, CHR 0x80, CHR ''z'']"

lemma sample_boundary: "rune_boundary sample_text 10"
  unfolding sample_text_def
  by (simp add: rune_boundary.simps decode2_def decode4_def is_cont_def)

lemma ECMA_position_roundtrip_witness:
  "\<exists>line character. GetECMALineAndUTF16CharacterOfPosition sample_text 10 = Some (line, character)
     \<and> ComputePositionOfLineAndUTF16Character (ComputeECMALineStarts sample_text) line character sample_text False = Some 10"
  by (rule ECMA_position_roundtrip [OF sample_boundary])

text \<open>The search of the server finds the line of the position.\<close>

lemma LSP_line:
  assumes "BinarySearchFunc (LineStarts (ComputeLSPLineStarts s)) p (\<lambda>p t. int p - int t) = (found, isLineStart)"
  obtains i where "LSP.on_line s i p" "int i = (if isLineStart then int found else int found - 1)"
proof -
  define starts where "starts = LineStarts (ComputeLSPLineStarts s)"
  have mono: "\<forall>k l. k \<le> l \<longrightarrow> l < length starts \<longrightarrow> int (starts ! l) - int p < 0 \<longrightarrow> int (starts ! k) - int p < 0"
    using LSP.increasing_le [of _ _ s] by (fastforce simp: starts_def)
  note first = BinarySearchFunc_first [OF assms [folded starts_def] mono]
  have zero: "starts ! 0 = 0" "0 < length starts" using LSP.first LSP.nonempty by (simp_all add: starts_def)
  show thesis
  proof (cases isLineStart)
    case True
    then have at: "found < length starts" "starts ! found = p" using first(2) by simp_all
    have "LSP.on_line s found p"
      using at LSP.increasing [of found "found + 1" s] by (simp add: LSP.on_line_def starts_def)
    then show thesis using that True by simp
  next
    case False
    have "found \<noteq> 0"
    proof
      assume "found = 0"
      then have "0 \<le> int (starts ! 0) - int p" using first(4) [of 0] zero(2) by simp
      then show False using False first(2) zero \<open>found = 0\<close> by simp
    qed
    then obtain i where i: "found = Suc i" by (cases found) auto
    have below: "starts ! i < p" using first(3) [of i] i by simp
    have "p < starts ! Suc i" if "Suc i < length starts"
      using first(4) [of "Suc i"] first(2) False that i by simp
    then have "LSP.on_line s i p" using below first(1) i by (simp add: LSP.on_line_def starts_def)
    then show thesis using that [of i] False i by simp
  qed
qed

text \<open>C26: In both encodings that a client can negotiate, the line and character that the server reports for
  a position between runes are defined, lie in the text, and are read back as that position.\<close>
theorem LSP_position_roundtrip:
  assumes "rune_boundary s p"
  shows "\<exists>line character. positionToLineAndCharacter (ComputeLSPLineStarts s) encoding s (int p) = Some (line, character)
     \<and> 0 \<le> character \<and> line < length (LineStarts (ComputeLSPLineStarts s))
     \<and> lineAndCharacterToPosition (ComputeLSPLineStarts s) encoding s line (nat character) = Some p"
proof -
  define lm where "lm = ComputeLSPLineStarts s"
  define starts where "starts = LineStarts lm"
  have pl: "p \<le> length s" using assms by (rule boundary_le)
  obtain found isLineStart where
    search: "BinarySearchFunc starts p (\<lambda>p t. int p - int t) = (found, isLineStart)" by fastforce
  obtain i where on: "LSP.on_line s i p" and i: "int i = (if isLineStart then int found else int found - 1)"
    using LSP_line [OF search [unfolded starts_def lm_def]] .
  have in_map: "i < length starts" using on by (simp add: LSP.on_line_def starts_def lm_def)
  define a where "a = starts ! i"
  have a: "a \<le> p" using on by (simp add: LSP.on_line_def a_def starts_def lm_def)
  have ends: "p \<le> LSP.line_end s i" "LSP.line_end s i \<le> length s" using LSP.on_line_end [OF on pl] by simp_all
  have line_end: "LSP.line_end s i = (if i + 1 < length starts then starts ! (i + 1) else length s)"
    by (simp add: LSP.line_end_def starts_def lm_def)
  define bytes where "bytes \<longleftrightarrow> AsciiOnly lm \<or> encoding = PositionEncodingKindUTF8"
  define character where "character = (if bytes then int p - int a else units (take (p - a) (drop a s)))"
  have line: "max 0 (min (if isLineStart then int found else int found - 1) (int (length starts) - 1)) = int i"
    using i in_map by simp
  have position: "nat (max 0 (min (int p) (int (length s)))) = p" using pl by simp
  have reported: "positionToLineAndCharacter lm encoding s (int p) = Some (i, character)"
    unfolding positionToLineAndCharacter_def Let_def position starts_def [symmetric] search prod.case line
    using in_map a pl by (simp add: a_def [symmetric] bytes_def [symmetric] character_def units_def slice_units)
  have bound: "rune_boundary (drop a s) (p - a)"
    using LSP.on_line_boundary [OF on assms] by (simp add: a_def starts_def lm_def)
  have nonneg: "0 \<le> character"
    using units_take_pos [OF bound] RuneLen_pos [of "drop a s"] a by (cases "p = a") (auto simp: character_def)
  have read: "lineAndCharacterToPosition lm encoding s i (nat character) = Some p"
  proof (cases bytes)
    case True
    have "nat character = p - a" using True a by (simp add: character_def)
    then show ?thesis
      using True in_map a ends unfolding line_end
      by (cases "Suc i < length starts")
        (simp_all add: lineAndCharacterToPosition_def Let_def starts_def [symmetric] a_def [symmetric] bytes_def [symmetric])
  next
    case False
    have "unit_loop s (LSP.line_end s i) character a 0 = Some p"
      using unit_loop_finds [OF bound, of "LSP.line_end s i" character 0] a ends False by (simp add: character_def)
    then show ?thesis
      using in_map False nonneg unfolding line_end
      by (cases "Suc i < length starts")
        (simp_all add: lineAndCharacterToPosition_def Let_def starts_def [symmetric] a_def [symmetric] bytes_def [symmetric])
  qed
  show ?thesis using reported nonneg in_map read by (auto simp: starts_def lm_def)
qed

lemma LSP_position_roundtrip_witness:
  "\<exists>line character. positionToLineAndCharacter (ComputeLSPLineStarts sample_text) PositionEncodingKindUTF16 sample_text (int 10)
       = Some (line, character)
     \<and> 0 \<le> character \<and> line < length (LineStarts (ComputeLSPLineStarts sample_text))
     \<and> lineAndCharacterToPosition (ComputeLSPLineStarts sample_text) PositionEncodingKindUTF16 sample_text line (nat character) = Some 10"
  by (rule LSP_position_roundtrip [OF sample_boundary])

end

