(* ===== verification/GoRegexp.thy ===== *)
theory GoRegexp
  imports GoUnicode
begin

text \<open>
  Regular expressions of Go's \<open>regexp\<close> package, with the leftmost-first rule of its matcher: an alternative is
  tried before the ones after it, a repetition takes as much as it can, and groups are captured. A
  class is given on runes of one byte; a rune of more bytes is the literal of its encoding, which no
  other rune starts with. Only expressions of the form \<open>^...$\<close> are matched.
\<close>

section \<open>Matching\<close>

datatype regex =
    Chars "char \<Rightarrow> bool"
  | Lit string
  | Cat regex regex
  | Alt regex regex
  | Star regex
  | Opt regex
  | Grp nat regex

definition Plus :: "regex \<Rightarrow> regex" where
  "Plus r = Cat r (Star r)"

text \<open>What the groups have matched; a group that took no part is empty, as in \<open>FindStringSubmatch\<close>.\<close>

type_synonym captures = "nat \<Rightarrow> string"

function re_match ::
  "regex \<Rightarrow> string \<Rightarrow> captures \<Rightarrow> (string \<Rightarrow> captures \<Rightarrow> captures option) \<Rightarrow> captures option" where
  "re_match (Chars p) s c k = (case s of [] \<Rightarrow> None | b # t \<Rightarrow> if p b then k t c else None)"
| "re_match (Lit w) s c k = (if HasPrefix s w then k (drop (length w) s) c else None)"
| "re_match (Cat a b) s c k = re_match a s c (\<lambda>t c. re_match b t c k)"
| "re_match (Alt a b) s c k = (case re_match a s c k of Some x \<Rightarrow> Some x | None \<Rightarrow> re_match b s c k)"
| "re_match (Star a) s c k =
     (case re_match a s c (\<lambda>t c. if length t < length s then re_match (Star a) t c k else None) of
        Some x \<Rightarrow> Some x | None \<Rightarrow> k s c)"
| "re_match (Opt a) s c k = (case re_match a s c k of Some x \<Rightarrow> Some x | None \<Rightarrow> k s c)"
| "re_match (Grp i a) s c k =
     re_match a s c (\<lambda>t c. k t (c(i := take (length s - length t) s)))"
  by pat_completeness auto
termination
  by (relation "measures [\<lambda>(r, s, c, k). size r, \<lambda>(r, s, c, k). length s]") auto

text \<open>\<open>^r$\<close> against the whole text.\<close>

definition FindStringSubmatch :: "regex \<Rightarrow> string \<Rightarrow> captures option" where
  "FindStringSubmatch r s = re_match r s (\<lambda>_. []) (\<lambda>t c. if t = [] then Some c else None)"

definition MatchString :: "regex \<Rightarrow> string \<Rightarrow> bool" where
  "MatchString r s \<longleftrightarrow> FindStringSubmatch r s \<noteq> None"

section \<open>What a match is\<close>

inductive parses :: "regex \<Rightarrow> string \<Rightarrow> captures \<Rightarrow> captures \<Rightarrow> bool" where
  Chars: "p b \<Longrightarrow> parses (Chars p) [b] c c"
| Lit: "parses (Lit w) w c c"
| Cat: "parses a u c c' \<Longrightarrow> parses b v c' c'' \<Longrightarrow> parses (Cat a b) (u @ v) c c''"
| Left: "parses a u c c' \<Longrightarrow> parses (Alt a b) u c c'"
| Right: "parses b u c c' \<Longrightarrow> parses (Alt a b) u c c'"
| Stop: "parses (Star a) [] c c"
| Step: "parses a u c c' \<Longrightarrow> u \<noteq> [] \<Longrightarrow> parses (Star a) v c' c'' \<Longrightarrow> parses (Star a) (u @ v) c c''"
| Skip: "parses (Opt a) [] c c"
| Take: "parses a u c c' \<Longrightarrow> parses (Opt a) u c c'"
| Grp: "parses a u c c' \<Longrightarrow> parses (Grp i a) u c (c'(i := u))"

lemma re_match_sound:
  "re_match r s c k = Some x \<Longrightarrow> \<exists>u t c'. s = u @ t \<and> parses r u c c' \<and> k t c' = Some x"
proof (induction r s c k rule: re_match.induct)
  case (1 p s c k)
  then obtain b t where "s = b # t" "p b" "k t c = Some x" by (auto split: list.splits if_splits)
  then show ?case using parses.Chars [of p b c] by (intro exI [of _ "[b]"] exI [of _ t] exI [of _ c]) simp
next
  case (2 w s c k)
  then have "s = w @ drop (length w) s" "k (drop (length w) s) c = Some x"
    by (auto simp: HasPrefix_iff split: if_splits)
  then show ?case using parses.Lit by blast
next
  case (3 a b s c k)
  then obtain u t c' where u: "s = u @ t" "parses a u c c'" "re_match b t c' k = Some x" by auto
  obtain v t' c'' where "t = v @ t'" "parses b v c' c''" "k t' c'' = Some x" using "3.IH"(1) [OF u(3)] by blast
  then show ?case using u parses.Cat [OF u(2), of b v c''] by (metis append_assoc)
next
  case (4 a b s c k)
  show ?case
  proof (cases "re_match a s c k")
    case None
    then have "re_match b s c k = Some x" using "4.prems" by simp
    from "4.IH"(2) [OF None this] show ?thesis using parses.Right by blast
  next
    case (Some y)
    then have "re_match a s c k = Some x" using "4.prems" by simp
    from "4.IH"(1) [OF this] show ?thesis using parses.Left by blast
  qed
next
  case (5 a s c k)
  define k' where "k' = (\<lambda>t c. if length t < length s then re_match (Star a) t c k else None)"
  show ?case
  proof (cases "re_match a s c k'")
    case None
    then have "k s c = Some x" using "5.prems" by (simp add: k'_def)
    then show ?thesis using parses.Stop by (metis append_Nil)
  next
    case (Some y)
    then have "y = x" using "5.prems" by (simp add: k'_def)
    then obtain u t c' where u: "s = u @ t" "parses a u c c'" "k' t c' = Some x"
      using "5.IH"(2) Some unfolding k'_def by blast
    then have "length t < length s" "re_match (Star a) t c' k = Some x" by (auto simp: k'_def split: if_splits)
    then obtain v t' c'' where v: "t = v @ t'" "parses (Star a) v c' c''" "k t' c'' = Some x"
      using "5.IH"(1) [OF \<open>length t < length s\<close>] by blast
    have "u \<noteq> []" using u(1) \<open>length t < length s\<close> by auto
    then show ?thesis using u v parses.Step [OF u(2), of v c''] by (metis append_assoc)
  qed
next
  case (6 a s c k)
  show ?case
  proof (cases "re_match a s c k")
    case None
    then have "k s c = Some x" using "6.prems" by simp
    then show ?thesis using parses.Skip by (metis append_Nil)
  next
    case (Some y)
    then have "re_match a s c k = Some x" using "6.prems" by simp
    from "6.IH" [OF this] show ?thesis using parses.Take by blast
  qed
next
  case (7 i a s c k)
  then obtain u t c' where "s = u @ t" "parses a u c c'" "k t (c'(i := take (length s - length t) s)) = Some x" by auto
  then show ?case using parses.Grp by fastforce
qed

lemma re_match_complete:
  "parses r u c c' \<Longrightarrow> k t c' \<noteq> None \<Longrightarrow> re_match r (u @ t) c k \<noteq> None"
proof (induction r u c c' arbitrary: k t rule: parses.induct)
  case (Cat a u c c' b v c'')
  show ?case using Cat.IH(1) [of "\<lambda>t c. re_match b t c k" "v @ t"] Cat.IH(2) [of k t] Cat.prems by simp
next
  case (Step a u c c' v c'')
  show ?case
    using Step.IH(1) [of "\<lambda>t' c. if length t' < length (u @ v @ t) then re_match (Star a) t' c k else None" "v @ t"]
      Step.IH(2) [of k t] Step.prems Step.hyps(2)
    by (auto split: option.splits)
next
  case (Grp a u c c' i)
  show ?case using Grp.IH [of "\<lambda>t' c. k t' (c(i := take (length (u @ t) - length t') (u @ t)))" t] Grp.prems by simp
next
  case (Left a u c c' b)
  show ?case using Left.IH [of k t] Left.prems by (auto split: option.splits)
next
  case (Take a u c c')
  show ?case using Take.IH [of k t] Take.prems by (auto split: option.splits)
qed (auto split: option.splits)

lemma FindStringSubmatch_sound: "FindStringSubmatch r s = Some c \<Longrightarrow> parses r s (\<lambda>_. []) c"
  unfolding FindStringSubmatch_def by (drule re_match_sound) (auto split: if_splits)

lemma FindStringSubmatch_complete: "parses r s (\<lambda>_. []) c \<Longrightarrow> FindStringSubmatch r s \<noteq> None"
  unfolding FindStringSubmatch_def using re_match_complete [of r s _ c _ "[]"] by simp

text \<open>An expression with one way to match is decided by it.\<close>

lemma FindStringSubmatch_unique:
  assumes "parses r s (\<lambda>_. []) c" "\<forall>c'. parses r s (\<lambda>_. []) c' \<longrightarrow> c' = c"
  shows "FindStringSubmatch r s = Some c"
  using FindStringSubmatch_complete [OF assms(1)] FindStringSubmatch_sound [of r s] assms(2) by blast

lemma MatchString_iff: "MatchString r s \<longleftrightarrow> (\<exists>c. parses r s (\<lambda>_. []) c)"
  unfolding MatchString_def using FindStringSubmatch_sound FindStringSubmatch_complete by blast

section \<open>Parsing each form\<close>

inductive_simps parses_Chars: "parses (Chars p) u c c'"
inductive_simps parses_Lit: "parses (Lit w) u c c'"
inductive_simps parses_Cat: "parses (Cat a b) u c c'"
inductive_simps parses_Alt: "parses (Alt a b) u c c'"
inductive_simps parses_Opt: "parses (Opt a) u c c'"
inductive_simps parses_Grp: "parses (Grp i a) u c c'"
inductive_cases parses_StarE: "parses (Star a) u c c'"

lemmas parses_simps = parses_Chars parses_Lit parses_Cat parses_Alt parses_Opt parses_Grp

text \<open>A repetition of an expression without groups parses the strings made of its pieces.\<close>

definition pieces_of :: "regex \<Rightarrow> string set" where
  "pieces_of r = {u. u \<noteq> [] \<and> parses r u (\<lambda>_. []) (\<lambda>_. [])}"

definition groupless :: "regex \<Rightarrow> bool" where
  "groupless r \<longleftrightarrow> (\<forall>u c c'. parses r u c c' \<longrightarrow> c' = c \<and> (\<forall>d. parses r u d d))"

lemma parses_Star:
  assumes "groupless a"
  shows "parses (Star a) u c c' \<longleftrightarrow> c' = c \<and> (\<exists>ps. set ps \<subseteq> pieces_of a \<and> u = concat ps)"
proof
  show "parses (Star a) u c c' \<Longrightarrow> c' = c \<and> (\<exists>ps. set ps \<subseteq> pieces_of a \<and> u = concat ps)"
  proof (induction "Star a" u c c' rule: parses.induct)
    case (Stop c)
    then show ?case by (auto intro: exI [of _ "[]"])
  next
    case (Step u c c' v c'')
    then have "c' = c" "u \<in> pieces_of a" using assms by (auto simp: groupless_def pieces_of_def)
    then show ?case using Step.hyps(5) by (metis concat.simps(2) insert_subset list.simps(15))
  qed
next
  assume "c' = c \<and> (\<exists>ps. set ps \<subseteq> pieces_of a \<and> u = concat ps)"
  then obtain ps where "c' = c" "set ps \<subseteq> pieces_of a" "u = concat ps" by blast
  then show "parses (Star a) u c c'"
  proof (induction ps arbitrary: u)
    case (Cons p ps)
    then have "parses a p c c" "p \<noteq> []" using assms by (auto simp: groupless_def pieces_of_def)
    then show ?case using Cons parses.Step [of a p c c "concat ps" c] by simp
  qed (simp add: parses.Stop)
qed

lemma groupless_Chars: "groupless (Chars p)"
  by (auto simp: groupless_def parses_simps)

lemma groupless_Alt: "groupless a \<Longrightarrow> groupless b \<Longrightarrow> groupless (Alt a b)"
  by (auto simp: groupless_def parses_simps)

lemma groupless_Lit: "groupless (Lit w)"
  by (auto simp: groupless_def parses_simps)

lemma groupless_Cat: "groupless a \<Longrightarrow> groupless b \<Longrightarrow> groupless (Cat a b)"
  unfolding groupless_def parses_simps by metis

lemma groupless_Star: "groupless a \<Longrightarrow> groupless (Star a)"
  by (auto simp: parses_Star groupless_def [of "Star a"])

lemmas groupless_intros = groupless_Chars groupless_Alt groupless_Lit groupless_Cat groupless_Star

lemma pieces_Chars: "pieces_of (Chars p) = {[b] | b. p b}"
  by (auto simp: pieces_of_def parses_simps)

lemma parses_Star_Chars: "parses (Star (Chars p)) u c c' \<longleftrightarrow> c' = c \<and> list_all p u"
proof -
  have "(\<exists>ps. set ps \<subseteq> {[b] | b. p b} \<and> u = concat ps) \<longleftrightarrow> list_all p u"
  proof
    show "\<exists>ps. set ps \<subseteq> {[b] | b. p b} \<and> u = concat ps \<Longrightarrow> list_all p u"
      by (fastforce simp: list_all_iff subset_iff)
    show "list_all p u \<Longrightarrow> \<exists>ps. set ps \<subseteq> {[b] | b. p b} \<and> u = concat ps"
      by (rule exI [of _ "map (\<lambda>b. [b]) u"]) (auto simp: list_all_iff)
  qed
  then show ?thesis by (simp add: parses_Star [OF groupless_Chars] pieces_Chars)
qed

text \<open>Where a run of characters of a kind ends is determined.\<close>

lemma span_unique:
  assumes "A @ x = B @ y" "list_all p A" "list_all p B"
    and "x = [] \<or> \<not> p (hd x)" "y = [] \<or> \<not> p (hd y)"
  shows "A = B \<and> x = y"
  using assms
proof (induction A arbitrary: B)
  case Nil
  then show ?case by (cases B) auto
next
  case (Cons a A)
  then show ?case by (cases B) auto
qed

end
