(* ===== verification/Semver.thy ===== *)
theory Semver
  imports GoRegexp GoStrings "HOL-Library.Word" "HOL-Library.Char_ord" "HOL-Library.List_Lexorder" "HOL-Library.Product_Lexorder"
begin

text \<open>
  Semantic versions of \<open>semver/version.go\<close>: the version, its components as 32-bit words, precedence, and the
  text of a version. The precedence is proved to be the order of \<open>semver.org\<close>, stated on unbounded
  numbers. A pointer that may be nil is an option.
\<close>

section \<open>Versions\<close>

record Version =
  major :: "32 word"
  minor :: "32 word"
  patch :: "32 word"
  prerelease :: "string list"
  build :: "string list"

definition plain_version :: "32 word \<Rightarrow> 32 word \<Rightarrow> 32 word \<Rightarrow> Version" where
  "plain_version a b c = \<lparr>major = a, minor = b, patch = c, prerelease = [], build = []\<rparr>"

definition versionZero :: Version where
  "versionZero = (plain_version 0 0 0)\<lparr>prerelease := [''0'']\<rparr>"

definition incrementMajor :: "Version \<Rightarrow> Version" where
  "incrementMajor v = plain_version (major v + 1) 0 0"

definition incrementMinor :: "Version \<Rightarrow> Version" where
  "incrementMinor v = plain_version (major v) (minor v + 1) 0"

definition incrementPatch :: "Version \<Rightarrow> Version" where
  "incrementPatch v = plain_version (major v) (minor v) (patch v + 1)"

section \<open>Numbers in texts\<close>

definition is_digit :: "char \<Rightarrow> bool" where
  "is_digit c \<longleftrightarrow> 0x30 \<le> byte c \<and> byte c \<le> 0x39"

definition digit_1_9 :: "char \<Rightarrow> bool" where
  "digit_1_9 c \<longleftrightarrow> 0x31 \<le> byte c \<and> byte c \<le> 0x39"

text \<open>\<open>0|[1-9]\d*\<close>\<close>

definition number_regexp :: regex where
  "number_regexp = Alt (Lit ''0'') (Cat (Chars digit_1_9) (Star (Chars is_digit)))"

definition numericIdentifierRegExp :: regex where
  "numericIdentifierRegExp = number_regexp"

datatype NumError = ErrSyntax | ErrRange

text \<open>\<open>strconv.ParseUint(text, 10, 32)\<close>.\<close>

fun uint_loop :: "nat \<Rightarrow> string \<Rightarrow> NumError + nat" where
  "uint_loop n [] = Inr n"
| "uint_loop n (c # s) =
     (if \<not> is_digit c then Inl ErrSyntax
      else (let m = n * 10 + (byte c - 0x30) in
            if m \<ge> 2 ^ 32 then Inl ErrRange else uint_loop m s))"

definition getUintComponent :: "string \<Rightarrow> NumError + 32 word" where
  "getUintComponent s =
     (if s = [] then Inl ErrSyntax else map_sum id word_of_nat (uint_loop 0 s))"

section \<open>Precedence\<close>

definition cmp_Compare :: "'a::linorder \<Rightarrow> 'a \<Rightarrow> int" where
  "cmp_Compare x y = (if x < y then -1 else if x > y then 1 else 0)"

definition comparePreReleaseIdentifier :: "string \<Rightarrow> string \<Rightarrow> int" where
  "comparePreReleaseIdentifier left right =
     (let compareResult = str_compare left right in
      if compareResult = 0 then compareResult
      else
        (let leftIsNumeric = MatchString numericIdentifierRegExp left;
             rightIsNumeric = MatchString numericIdentifierRegExp right in
         if leftIsNumeric \<or> rightIsNumeric
         then
           (if \<not> rightIsNumeric then -1
            else if \<not> leftIsNumeric then 1
            else
              (case (getUintComponent left, getUintComponent right) of
                 (Inr leftAsNumber, Inr rightAsNumber) \<Rightarrow> cmp_Compare leftAsNumber rightAsNumber
               | _ \<Rightarrow>
                   (let lenCompare = cmp_Compare (length left) (length right) in
                    if lenCompare = 0 then compareResult else lenCompare)))
         else compareResult))"

text \<open>\<open>slices.CompareFunc\<close>.\<close>

fun CompareFunc :: "'a list \<Rightarrow> 'a list \<Rightarrow> ('a \<Rightarrow> 'a \<Rightarrow> int) \<Rightarrow> int" where
  "CompareFunc [] [] f = 0"
| "CompareFunc [] (_ # _) f = -1"
| "CompareFunc (_ # _) [] f = 1"
| "CompareFunc (x # xs) (y # ys) f = (let c = f x y in if c \<noteq> 0 then c else CompareFunc xs ys f)"

definition comparePreReleaseIdentifiers :: "string list \<Rightarrow> string list \<Rightarrow> int" where
  "comparePreReleaseIdentifiers left right =
     (if length left = 0 then (if length right = 0 then 0 else 1)
      else if length right = 0 then -1
      else CompareFunc left right comparePreReleaseIdentifier)"

text \<open>Of two pointers to one version the code says 0 at once, as it would after comparing.\<close>

definition Compare :: "Version option \<Rightarrow> Version option \<Rightarrow> int" where
  "Compare a b =
     (case (a, b) of
        (None, None) \<Rightarrow> 0
      | (None, Some _) \<Rightarrow> -1
      | (Some _, None) \<Rightarrow> 1
      | (Some a, Some b) \<Rightarrow>
          (let r = cmp_Compare (major a) (major b) in
           if r \<noteq> 0 then r
           else
             (let r = cmp_Compare (minor a) (minor b) in
              if r \<noteq> 0 then r
              else
                (let r = cmp_Compare (patch a) (patch b) in
                 if r \<noteq> 0 then r else comparePreReleaseIdentifiers (prerelease a) (prerelease b)))))"

section \<open>The precedence of semver.org\<close>

text \<open>An identifier of a pre-release; numeric ones come first and are compared as numbers of any size.\<close>

datatype pre_identifier = Numeric nat | Alphanumeric string

instantiation pre_identifier :: linorder
begin

fun less_pre_identifier :: "pre_identifier \<Rightarrow> pre_identifier \<Rightarrow> bool" where
  "less_pre_identifier (Numeric m) (Numeric n) = (m < n)"
| "less_pre_identifier (Numeric _) (Alphanumeric _) = True"
| "less_pre_identifier (Alphanumeric _) (Numeric _) = False"
| "less_pre_identifier (Alphanumeric s) (Alphanumeric t) = (s < t)"

definition less_eq_pre_identifier :: "pre_identifier \<Rightarrow> pre_identifier \<Rightarrow> bool" where
  "less_eq_pre_identifier i j \<longleftrightarrow> i = j \<or> i < j"

instance
proof
  fix i j k :: pre_identifier
  show "i < j \<longleftrightarrow> i \<le> j \<and> \<not> j \<le> i" by (cases i; cases j) (auto simp: less_eq_pre_identifier_def)
  show "i \<le> i" by (simp add: less_eq_pre_identifier_def)
  show "i \<le> j \<Longrightarrow> j \<le> k \<Longrightarrow> i \<le> k" by (cases i; cases j; cases k) (auto simp: less_eq_pre_identifier_def)
  show "i \<le> j \<Longrightarrow> j \<le> i \<Longrightarrow> i = j" by (cases i; cases j) (auto simp: less_eq_pre_identifier_def)
  show "i \<le> j \<or> j \<le> i" by (cases i; cases j) (auto simp: less_eq_pre_identifier_def)
qed

end

text \<open>A version with a pre-release comes before the one without.\<close>

datatype stage = Prerelease "pre_identifier list" | Release

instantiation stage :: linorder
begin

fun less_stage :: "stage \<Rightarrow> stage \<Rightarrow> bool" where
  "less_stage (Prerelease is) (Prerelease js) = (is < js)"
| "less_stage (Prerelease _) Release = True"
| "less_stage Release _ = False"

definition less_eq_stage :: "stage \<Rightarrow> stage \<Rightarrow> bool" where
  "less_eq_stage s t \<longleftrightarrow> s = t \<or> s < t"

instance
proof
  fix r s t :: stage
  show "r < s \<longleftrightarrow> r \<le> s \<and> \<not> s \<le> r" by (cases r; cases s) (auto simp: less_eq_stage_def)
  show "r \<le> r" by (simp add: less_eq_stage_def)
  show "r \<le> s \<Longrightarrow> s \<le> t \<Longrightarrow> r \<le> t" by (cases r; cases s; cases t) (auto simp: less_eq_stage_def)
  show "r \<le> s \<Longrightarrow> s \<le> r \<Longrightarrow> r = s" by (cases r; cases s) (auto simp: less_eq_stage_def)
  show "r \<le> s \<or> s \<le> r" by (cases r; cases s) (auto simp: less_eq_stage_def)
qed

end

text \<open>A numeric identifier has digits only and no leading zero.\<close>

definition numeric :: "string \<Rightarrow> bool" where
  "numeric s \<longleftrightarrow> s = ''0'' \<or> s \<noteq> [] \<and> digit_1_9 (hd s) \<and> list_all is_digit s"

definition num_value :: "string \<Rightarrow> nat" where
  "num_value s = foldl (\<lambda>n c. n * 10 + (byte c - 0x30)) 0 s"

definition identifier_of :: "string \<Rightarrow> pre_identifier" where
  "identifier_of s = (if numeric s then Numeric (num_value s) else Alphanumeric s)"

definition precedence :: "Version \<Rightarrow> nat \<times> nat \<times> nat \<times> stage" where
  "precedence v =
     (unat (major v), unat (minor v), unat (patch v),
      if prerelease v = [] then Release else Prerelease (map identifier_of (prerelease v)))"

lemma str_less_iff: "str_less s t \<longleftrightarrow> s < t"
  by (induction s t rule: str_less.induct) (auto simp: less_char_def)

lemma cmp_Compare_eq: "cmp_Compare x y = (if x = y then 0 else if x < y then -1 else 1)"
  by (auto simp: cmp_Compare_def)

section \<open>Numeric identifiers\<close>

lemma parses_digits: "parses (Star (Chars is_digit)) u c c' \<longleftrightarrow> c' = c \<and> list_all is_digit u"
  by (rule parses_Star_Chars)

lemma parses_number: "parses number_regexp u c c' \<longleftrightarrow> c' = c \<and> numeric u"
proof -
  have "is_digit b" if "digit_1_9 b" for b using that by (simp add: is_digit_def digit_1_9_def)
  then have "(\<exists>b v. u = [b] @ v \<and> digit_1_9 b \<and> list_all is_digit v) \<longleftrightarrow> u \<noteq> [] \<and> digit_1_9 (hd u) \<and> list_all is_digit u"
    by (cases u) auto
  moreover have "parses number_regexp u c c' \<longleftrightarrow> c' = c \<and> (u = ''0'' \<or> (\<exists>b v. u = [b] @ v \<and> digit_1_9 b \<and> list_all is_digit v))"
    unfolding number_regexp_def parses_simps parses_digits by blast
  ultimately show ?thesis by (simp add: numeric_def)
qed

lemma groupless_number: "groupless number_regexp"
  unfolding number_regexp_def by (intro groupless_intros)

lemma numeric_match: "MatchString numericIdentifierRegExp s \<longleftrightarrow> numeric s"
  by (simp add: MatchString_iff numericIdentifierRegExp_def parses_number)

lemma numeric_digits: "numeric s \<Longrightarrow> s \<noteq> [] \<and> list_all is_digit s"
  by (auto simp: numeric_def is_digit_def)

text \<open>A number has its value, or is out of range.\<close>

definition digits_value :: "nat \<Rightarrow> string \<Rightarrow> nat" where
  "digits_value n s = foldl (\<lambda>n c. n * 10 + (byte c - 0x30)) n s"

lemma digits_value_simps [simp]:
  "digits_value n [] = n" "digits_value n (c # s) = digits_value (n * 10 + (byte c - 0x30)) s"
  by (simp_all add: digits_value_def)

lemma num_value_digits: "num_value s = digits_value 0 s"
  by (simp add: num_value_def digits_value_def)

lemma digits_value_ge: "n \<le> digits_value n s"
proof (induction s arbitrary: n)
  case (Cons c s)
  show ?case using Cons [of "n * 10 + (byte c - 0x30)"] by simp
qed simp

lemma uint_loop_value:
  "list_all is_digit s \<Longrightarrow> n < 2 ^ 32 \<Longrightarrow>
     uint_loop n s = (if digits_value n s < 2 ^ 32 then Inr (digits_value n s) else Inl ErrRange)"
proof (induction s arbitrary: n)
  case (Cons c s)
  show ?case
    using Cons.IH [of "n * 10 + (byte c - 0x30)"] Cons.prems digits_value_ge [of "n * 10 + (byte c - 0x30)" s]
    by (auto simp: Let_def)
qed simp

lemma getUintComponent_numeric:
  "numeric s \<Longrightarrow> getUintComponent s = (if num_value s < 2 ^ 32 then Inr (word_of_nat (num_value s)) else Inl ErrRange)"
  using numeric_digits [of s] uint_loop_value [of s 0] by (simp add: getUintComponent_def num_value_digits)

text \<open>Numbers without leading zeros are ordered by their length, then as texts.\<close>

lemma digits_value_split: "digits_value n s = n * 10 ^ length s + digits_value 0 s"
proof (induction s arbitrary: n)
  case (Cons c s)
  show ?case using Cons [of "n * 10 + (byte c - 0x30)"] Cons [of "byte c - 0x30"] by (simp add: algebra_simps)
qed simp

lemma digits_value_less: "list_all is_digit s \<Longrightarrow> digits_value 0 s < 10 ^ length s"
proof (induction s)
  case (Cons c s)
  have "byte c - 0x30 \<le> 9" using Cons.prems by (auto simp: is_digit_def)
  then have "(byte c - 0x30) * 10 ^ length s \<le> 9 * 10 ^ length s" by (rule mult_right_mono) simp
  moreover have "digits_value 0 s < 10 ^ length s" using Cons by simp
  ultimately have "digits_value (byte c - 0x30) s < 10 * 10 ^ length s"
    unfolding digits_value_split [of "byte c - 0x30" s] by linarith
  then show ?case by simp
qed simp

lemma digits_value_order:
  "length s = length t \<Longrightarrow> list_all is_digit s \<Longrightarrow> list_all is_digit t \<Longrightarrow> digits_value 0 s < digits_value 0 t \<longleftrightarrow> s < t"
proof (induction s t rule: list_induct2)
  case (Cons c s d t)
  define x y where "x = byte c - 0x30" and "y = byte d - 0x30"
  have v: "digits_value 0 (c # s) = x * 10 ^ length s + digits_value 0 s"
    "digits_value 0 (d # t) = y * 10 ^ length s + digits_value 0 t"
    using digits_value_split [of x s] digits_value_split [of y t] Cons.hyps by (simp_all add: x_def y_def)
  have less: "digits_value 0 s < 10 ^ length s" "digits_value 0 t < 10 ^ length s"
    using digits_value_less Cons.prems Cons.hyps by fastforce+
  have digits: "byte c = 0x30 + x" "byte d = 0x30 + y" using Cons.prems by (auto simp: x_def y_def is_digit_def)
  have c_d: "c < d \<longleftrightarrow> x < y" "c = d \<longleftrightarrow> x = y"
    using digits byte_inj [of c d] by (auto simp: less_char_def)
  consider "x < y" | "x = y" | "y < x" by linarith
  then show ?case
  proof cases
    case 1
    then have "(x + 1) * 10 ^ length s \<le> y * 10 ^ length s" by (intro mult_right_mono) auto
    then show ?thesis using 1 less c_d unfolding v by simp
  next
    case 2
    then show ?thesis using Cons c_d unfolding v by simp
  next
    case 3
    then have "(y + 1) * 10 ^ length s \<le> x * 10 ^ length s" by (intro mult_right_mono) auto
    then show ?thesis using 3 less c_d unfolding v by simp
  qed
qed simp

lemma numeric_lower: "numeric s \<Longrightarrow> s \<noteq> ''0'' \<Longrightarrow> 10 ^ (length s - 1) \<le> num_value s"
proof (cases s)
  case (Cons c t)
  assume "numeric s" "s \<noteq> ''0''"
  then have "1 \<le> byte c - 0x30" using Cons by (auto simp: numeric_def digit_1_9_def)
  then have "1 * 10 ^ length t \<le> (byte c - 0x30) * 10 ^ length t" by (rule mult_right_mono) simp
  then have "10 ^ length t \<le> digits_value (byte c - 0x30) t"
    unfolding digits_value_split [of "byte c - 0x30" t] by linarith
  then show ?thesis using Cons by (simp add: num_value_digits)
qed (simp add: numeric_def)

lemma numeric_shorter:
  assumes "numeric s" "numeric t" "length s < length t"
  shows "num_value s < num_value t"
proof -
  have t: "t \<noteq> ''0''" using assms numeric_digits [OF assms(1)] by auto
  have "num_value s < 10 ^ length s" using digits_value_less numeric_digits [OF assms(1)] by (simp add: num_value_digits)
  also have "\<dots> \<le> 10 ^ (length t - 1)" using assms(3) by (intro power_increasing) auto
  also have "\<dots> \<le> num_value t" by (rule numeric_lower [OF assms(2) t])
  finally show ?thesis .
qed

lemma numeric_order:
  assumes "numeric s" "numeric t"
  shows "num_value s < num_value t \<longleftrightarrow> length s < length t \<or> length s = length t \<and> s < t"
proof -
  consider "length s < length t" | "length t < length s" | "length s = length t" by linarith
  then show ?thesis
  proof cases
    case 3
    then show ?thesis using digits_value_order numeric_digits assms by (simp add: num_value_digits)
  qed (use numeric_shorter assms in fastforce)+
qed

lemma num_value_inj: "numeric s \<Longrightarrow> numeric t \<Longrightarrow> num_value s = num_value t \<longleftrightarrow> s = t"
  using numeric_order [of s t] numeric_order [of t s] by (metis less_irrefl linorder_less_linear)

lemma identifier_of_inj: "identifier_of s = identifier_of t \<longleftrightarrow> s = t"
  using num_value_inj [of s t] by (auto simp: identifier_of_def)

section \<open>Compare is the precedence\<close>

lemma str_compare_cmp: "str_compare s t = cmp_Compare s t"
  using linorder_less_linear [of s t] by (auto simp: str_compare_def str_less_iff cmp_Compare_def)

lemma cmp_Compare_0 [simp]: "cmp_Compare x y = 0 \<longleftrightarrow> x = y"
  by (auto simp: cmp_Compare_def)

lemma cmp_Compare_refl [simp]: "cmp_Compare x x = 0"
  by (simp add: cmp_Compare_def)

lemma cmp_Compare_mono: "(x < y \<longleftrightarrow> x' < y') \<Longrightarrow> (y < x \<longleftrightarrow> y' < x') \<Longrightarrow> cmp_Compare x y = cmp_Compare x' y'"
  by (simp add: cmp_Compare_def)

lemma word_of_nat_compare:
  "m < 2 ^ 32 \<Longrightarrow> n < 2 ^ 32 \<Longrightarrow> cmp_Compare (word_of_nat m :: 32 word) (word_of_nat n) = cmp_Compare m n"
  by (rule cmp_Compare_mono) (simp_all add: word_less_nat_alt unat_of_nat)

lemma numeric_compare:
  assumes "numeric s" "numeric t" "s \<noteq> t"
  shows "(case (getUintComponent s, getUintComponent t) of
            (Inr m, Inr n) \<Rightarrow> cmp_Compare m n
          | _ \<Rightarrow> if cmp_Compare (length s) (length t) = 0 then cmp_Compare s t else cmp_Compare (length s) (length t))
         = cmp_Compare (num_value s) (num_value t)"
proof (cases "num_value s < 2 ^ 32 \<and> num_value t < 2 ^ 32")
  case True
  then show ?thesis using getUintComponent_numeric assms(1,2) by (simp add: word_of_nat_compare)
next
  case False
  have "(if length s = length t then cmp_Compare s t else cmp_Compare (length s) (length t))
      = cmp_Compare (num_value s) (num_value t)"
    using numeric_order [OF assms(1,2)] numeric_order [OF assms(2,1)] by (auto simp: cmp_Compare_def)
  then show ?thesis
    using False getUintComponent_numeric assms(1,2) by (auto split: if_splits)
qed

lemma identifier_compare:
  "comparePreReleaseIdentifier s t = cmp_Compare (identifier_of s) (identifier_of t)"
proof (cases "s = t")
  case False
  have same: "cmp_Compare (Numeric m) (Numeric n) = cmp_Compare m n"
    "cmp_Compare (Alphanumeric u) (Alphanumeric v) = cmp_Compare u v" for m n u v
    by (simp_all add: cmp_Compare_def)
  have mixed: "cmp_Compare (Numeric m) (Alphanumeric u) = -1" "cmp_Compare (Alphanumeric u) (Numeric m) = 1" for m u
    by (simp_all add: cmp_Compare_def)
  show ?thesis
    using numeric_compare [of s t] False
    unfolding comparePreReleaseIdentifier_def Let_def str_compare_cmp numeric_match
    by (cases "numeric s"; cases "numeric t") (simp_all add: identifier_of_def same mixed)
qed (simp add: comparePreReleaseIdentifier_def str_compare_cmp)

lemma CompareFunc_lexicographic:
  assumes "\<And>x y. f x y = cmp_Compare (g x) (g y)"
  shows "CompareFunc xs ys f = cmp_Compare (map g xs) (map g ys)"
  using assms by (induction xs ys f rule: CompareFunc.induct) (auto simp: Let_def cmp_Compare_def)

lemma Compare_cmp: "Compare (Some v) (Some w) = cmp_Compare (precedence v) (precedence w)"
proof -
  have identifiers: "CompareFunc (prerelease v) (prerelease w) comparePreReleaseIdentifier
      = cmp_Compare (map identifier_of (prerelease v)) (map identifier_of (prerelease w))"
    by (rule CompareFunc_lexicographic) (rule identifier_compare)
  have words: "cmp_Compare a b = cmp_Compare (unat a) (unat b)" for a b :: "32 word"
    by (rule cmp_Compare_mono) (simp_all add: word_less_nat_alt)
  have pairs: "cmp_Compare (a, x) (b, y) = (if cmp_Compare a b = 0 then cmp_Compare x y else cmp_Compare a b)"
    for a b :: nat and x y :: "'a::linorder"
    by (auto simp: cmp_Compare_def)
  show ?thesis
    unfolding precedence_def pairs
    by (auto simp: Compare_def Let_def words comparePreReleaseIdentifiers_def identifiers cmp_Compare_def [of Release]
        cmp_Compare_def [of "Prerelease _"] cmp_Compare_def [of "map identifier_of _"])
qed

lemma precedence_eq: "precedence v = precedence w \<longleftrightarrow> v\<lparr>build := []\<rparr> = w\<lparr>build := []\<rparr>"
proof -
  have "map identifier_of xs = map identifier_of ys \<longleftrightarrow> xs = ys" for xs ys
    using identifier_of_inj by (metis inj_map_eq_map injI)
  then show ?thesis by (cases v; cases w) (auto simp: precedence_def word_unat_eq_iff)
qed

text \<open>C33: \<open>Compare\<close> is the precedence of semver.org: it compares major, minor and patch, puts a pre-release
  before its release, and compares pre-releases by identifier, numeric ones first and as numbers of
  any size although their components are read with 32 bits. It says equal exactly for versions that
  differ at most in their build.\<close>
theorem Compare_precedence:
  "Compare (Some v) (Some w) = (if precedence v < precedence w then -1 else if precedence v = precedence w then 0 else 1)
   \<and> (precedence v = precedence w \<longleftrightarrow> v\<lparr>build := []\<rparr> = w\<lparr>build := []\<rparr>)"
  unfolding Compare_cmp precedence_eq [symmetric] by (auto simp: cmp_Compare_def)

end

