(* ===== verification/SemverParse.thy ===== *)
theory SemverParse
  imports Semver
begin

text \<open>
  Reading and writing semantic versions: the regular expressions of \<open>semver/version.go\<close> and the one of
  \<open>semver/version_range.go\<close> for partial versions, \<open>TryParseVersion\<close> and \<open>String\<close>. Writing and reading are
  inverse to each other.
\<close>

section \<open>Regular expressions\<close>

definition ascii_letter :: "char \<Rightarrow> bool" where
  "ascii_letter c \<longleftrightarrow> 0x41 \<le> byte c \<and> byte c \<le> 0x5A \<or> 0x61 \<le> byte c \<and> byte c \<le> 0x7A"

text \<open>\<open>[a-z-]\<close>, \<open>[a-z0-9-]\<close> and \<open>[a-z0-9-.]\<close>.\<close>

definition letter_char :: "char \<Rightarrow> bool" where
  "letter_char c \<longleftrightarrow> ascii_letter c \<or> c = CHR ''-''"

definition part_char :: "char \<Rightarrow> bool" where
  "part_char c \<longleftrightarrow> letter_char c \<or> is_digit c"

definition parts_char :: "char \<Rightarrow> bool" where
  "parts_char c \<longleftrightarrow> part_char c \<or> c = CHR ''.''"

text \<open>With \<open>(?i)\<close> a class with the letters \<open>k\<close> and \<open>s\<close> also has the runes that fold to them: U+017F and U+212A.\<close>

definition long_s :: string where
  "long_s = [CHR 0xC5, CHR 0xBF]"

definition kelvin_sign :: string where
  "kelvin_sign = [CHR 0xE2, CHR 0x84, CHR 0xAA]"

definition insensitive :: "(char \<Rightarrow> bool) \<Rightarrow> regex" where
  "insensitive p = Alt (Chars p) (Alt (Lit long_s) (Lit kelvin_sign))"

text \<open>\<open>(?:-([a-z0-9-.]+))?\<close>, the patch with what follows it, the minor with what follows it, and the whole.\<close>

definition qualifier_regexp :: "char \<Rightarrow> nat \<Rightarrow> regex" where
  "qualifier_regexp b i = Opt (Cat (Lit [b]) (Grp i (Plus (insensitive parts_char))))"

definition patch_regexp :: "regex \<Rightarrow> regex" where
  "patch_regexp n = Cat (Grp 3 n) (Cat (qualifier_regexp CHR ''-'' 4) (qualifier_regexp CHR ''+'' 5))"

definition minor_regexp :: "regex \<Rightarrow> regex" where
  "minor_regexp n = Cat (Grp 2 n) (Opt (Cat (Lit ''.'') (patch_regexp n)))"

definition dotted_regexp :: "regex \<Rightarrow> regex" where
  "dotted_regexp n = Cat (Grp 1 n) (Opt (Cat (Lit ''.'') (minor_regexp n)))"

definition versionRegexp :: regex where
  "versionRegexp = dotted_regexp number_regexp"

definition prereleasePartRegexp :: regex where
  "prereleasePartRegexp =
     Alt (Lit ''0'') (Alt (Cat (Chars digit_1_9) (Star (Chars is_digit)))
       (Cat (insensitive letter_char) (Star (insensitive part_char))))"

definition prereleaseRegexp :: regex where
  "prereleaseRegexp = Cat prereleasePartRegexp (Star (Cat (Lit ''.'') prereleasePartRegexp))"

definition buildPartRegExp :: regex where
  "buildPartRegExp = Plus (insensitive part_char)"

definition buildRegExp :: regex where
  "buildRegExp = Cat buildPartRegExp (Star (Cat (Lit ''.'') buildPartRegExp))"

section \<open>Reading a version\<close>

datatype VersionError = SemverParseError string | ComponentError NumError

definition component :: "string \<Rightarrow> VersionError + 32 word" where
  "component s = (if s = [] then Inr 0 else map_sum ComponentError id (getUintComponent s))"

definition TryParseVersion :: "string \<Rightarrow> VersionError + Version" where
  "TryParseVersion s =
     (case FindStringSubmatch versionRegexp s of
        None \<Rightarrow> Inl (SemverParseError s)
      | Some match \<Rightarrow>
          (case map_sum ComponentError id (getUintComponent (match 1)) of Inl e \<Rightarrow> Inl e
           | Inr a \<Rightarrow>
          (case component (match 2) of Inl e \<Rightarrow> Inl e
           | Inr b \<Rightarrow>
          (case component (match 3) of Inl e \<Rightarrow> Inl e
           | Inr c \<Rightarrow>
               if match 4 \<noteq> [] \<and> \<not> MatchString prereleaseRegexp (match 4) then Inl (SemverParseError s)
               else if match 5 \<noteq> [] \<and> \<not> MatchString buildRegExp (match 5) then Inl (SemverParseError s)
               else Inr \<lparr>major = a, minor = b, patch = c,
                         prerelease = (if match 4 \<noteq> [] then split_byte CHR ''.'' (match 4) else []),
                         build = (if match 5 \<noteq> [] then split_byte CHR ''.'' (match 5) else [])\<rparr>))))"

definition MustParse :: "string \<Rightarrow> Version panics" where
  "MustParse s = (case TryParseVersion s of Inl _ \<Rightarrow> None | Inr v \<Rightarrow> Some v)"

section \<open>Writing a version\<close>

fun decimal :: "nat \<Rightarrow> string" where
  "decimal n = (if n < 10 then [char_of (0x30 + n)] else decimal (n div 10) @ [char_of (0x30 + n mod 10)])"

declare decimal.simps [simp del]

definition VersionString :: "Version \<Rightarrow> string" where
  "VersionString v =
     decimal (unat (major v)) @ ''.'' @ decimal (unat (minor v)) @ ''.'' @ decimal (unat (patch v))
     @ (if length (prerelease v) > 0 then ''-'' @ str_join (prerelease v) ''.'' else [])
     @ (if length (build v) > 0 then ''+'' @ str_join (build v) ''.'' else [])"

section \<open>Decimal numbers\<close>

lemma digit_char: "d < 10 \<Longrightarrow> byte (char_of (0x30 + d) :: char) = 0x30 + d"
  by (simp add: of_char_of)

lemma decimal_not_Nil: "decimal n \<noteq> []"
  by (subst decimal.simps) simp

lemma decimal_digits: "list_all is_digit (decimal n)"
proof (induction n rule: decimal.induct)
  case (1 n)
  have "is_digit (char_of (0x30 + d))" if "d < 10" for d :: nat using that digit_char [OF that] by (simp add: is_digit_def)
  then show ?case using 1 by (subst decimal.simps) simp
qed

lemma decimal_value: "num_value (decimal n) = n"
proof (induction n rule: decimal.induct)
  case (1 n)
  then show ?case by (subst decimal.simps) (simp add: num_value_def digit_char)
qed

lemma decimal_first: "0 < n \<Longrightarrow> digit_1_9 (hd (decimal n))"
proof (induction n rule: decimal.induct)
  case (1 n)
  then show ?case using decimal_not_Nil [of "n div 10"]
    by (subst decimal.simps) (simp add: digit_1_9_def digit_char)
qed

lemma numeric_decimal: "numeric (decimal n)"
proof (cases "n = 0")
  case True
  have "(char_of (48::nat) :: char) = CHR ''0''" by code_simp
  then show ?thesis using True by (simp add: numeric_def decimal.simps [of 0])
next
  case False
  then show ?thesis using decimal_first decimal_digits decimal_not_Nil by (simp add: numeric_def)
qed

lemma getUintComponent_decimal: "getUintComponent (decimal (unat w)) = Inr w"
  using unsigned_less [of w] by (simp add: getUintComponent_numeric numeric_decimal decimal_value)

section \<open>Texts of the classes\<close>

definition class_piece :: "(char \<Rightarrow> bool) \<Rightarrow> string \<Rightarrow> bool" where
  "class_piece p u \<longleftrightarrow> (\<exists>b. p b \<and> u = [b]) \<or> u = long_s \<or> u = kelvin_sign"

definition class_text :: "(char \<Rightarrow> bool) \<Rightarrow> string \<Rightarrow> bool" where
  "class_text p u \<longleftrightarrow> (\<exists>ps. list_all (class_piece p) ps \<and> u = concat ps)"

lemma groupless_insensitive: "groupless (insensitive p)"
  unfolding insensitive_def by (intro groupless_intros)

lemma class_piece_not_Nil: "class_piece p u \<Longrightarrow> u \<noteq> []"
  by (auto simp: class_piece_def long_s_def kelvin_sign_def)

lemma parses_insensitive: "parses (insensitive p) u c c' \<longleftrightarrow> c' = c \<and> class_piece p u"
  by (auto simp: insensitive_def parses_simps class_piece_def)

lemma pieces_insensitive: "pieces_of (insensitive p) = Collect (class_piece p)"
  using class_piece_not_Nil by (auto simp: pieces_of_def parses_insensitive)

lemma parses_insensitive_Star: "parses (Star (insensitive p)) u c c' \<longleftrightarrow> c' = c \<and> class_text p u"
  by (simp add: parses_Star [OF groupless_insensitive] pieces_insensitive class_text_def list_all_iff subset_iff Ball_def)

lemma class_text_Nil [simp]: "class_text p []"
  unfolding class_text_def by (rule exI [of _ "[]"]) simp

lemma class_text_append: "class_text p u \<Longrightarrow> class_text p v \<Longrightarrow> class_text p (u @ v)"
  unfolding class_text_def by (metis concat_append list_all_append)

lemma class_text_piece: "class_piece p u \<Longrightarrow> class_text p u"
  unfolding class_text_def by (rule exI [of _ "[u]"]) simp

lemma class_text_char: "p b \<Longrightarrow> class_text p [b]"
  by (rule class_text_piece) (simp add: class_piece_def)

lemma class_piece_mono: "class_piece p u \<Longrightarrow> (\<And>b. p b \<Longrightarrow> q b) \<Longrightarrow> class_piece q u"
  by (auto simp: class_piece_def)

lemma class_text_all: "list_all p u \<Longrightarrow> class_text p u"
proof (induction u)
  case (Cons b u)
  then show ?case using class_text_append [of p "[b]" u] class_text_char [of p b] by simp
qed simp

lemma class_text_bytes: "class_text p u \<Longrightarrow> list_all (\<lambda>b. p b \<or> 0x80 \<le> byte b) u"
proof -
  have "list_all (\<lambda>b. p b \<or> 0x80 \<le> byte b) v" if "class_piece p v" for v
    using that by (auto simp: class_piece_def long_s_def kelvin_sign_def)
  then have "list_all (class_piece p) ps \<Longrightarrow> list_all (\<lambda>b. p b \<or> 0x80 \<le> byte b) (concat ps)" for ps
    by (induction ps) auto
  then show "class_text p u \<Longrightarrow> ?thesis" by (auto simp: class_text_def)
qed

lemma class_text_cases:
  assumes "class_text p u" "u \<noteq> []"
  obtains v w where "u = v @ w" "class_piece p v" "class_text p w"
proof -
  obtain ps where ps: "list_all (class_piece p) ps" "u = concat ps"
    using assms(1) by (auto simp: class_text_def)
  then obtain v ws where "ps = v # ws" using assms(2) by (cases ps) auto
  moreover from this have "class_text p (concat ws)" using ps(1) unfolding class_text_def by auto
  ultimately show thesis using that [of v "concat ws"] ps by auto
qed

lemma parses_insensitive_Plus: "parses (Plus (insensitive p)) u c c' \<longleftrightarrow> c' = c \<and> u \<noteq> [] \<and> class_text p u"
proof -
  have "(\<exists>v w. u = v @ w \<and> class_piece p v \<and> class_text p w) \<longleftrightarrow> u \<noteq> [] \<and> class_text p u"
    using class_text_cases class_text_append class_text_piece class_piece_not_Nil by (metis append_is_Nil_conv)
  moreover have "parses (Plus (insensitive p)) u c c'
      \<longleftrightarrow> c' = c \<and> (\<exists>v w. u = v @ w \<and> class_piece p v \<and> class_text p w)"
    unfolding Plus_def parses_Cat parses_insensitive parses_insensitive_Star by auto
  ultimately show ?thesis by simp
qed

section \<open>Identifiers and lists of them\<close>

definition pre_part :: "string \<Rightarrow> bool" where
  "pre_part s \<longleftrightarrow> MatchString prereleasePartRegexp s"

definition build_part :: "string \<Rightarrow> bool" where
  "build_part s \<longleftrightarrow> MatchString buildPartRegExp s"

lemma dot_not_part: "\<not> part_char CHR ''.''" "\<not> letter_char CHR ''.''" "\<not> is_digit CHR ''.''"
  by (simp_all add: part_char_def letter_char_def ascii_letter_def is_digit_def)

lemma parses_prerelease_part:
  "parses prereleasePartRegexp u c c' \<longleftrightarrow>
     c' = c \<and> (numeric u \<or> (\<exists>v w. u = v @ w \<and> class_piece letter_char v \<and> class_text part_char w))"
proof -
  have "parses prereleasePartRegexp u c c' \<longleftrightarrow> parses number_regexp u c c'
      \<or> parses (Cat (insensitive letter_char) (Star (insensitive part_char))) u c c'"
    by (auto simp: prereleasePartRegexp_def number_regexp_def parses_Alt)
  then show ?thesis
    unfolding parses_number unfolding parses_Cat parses_insensitive parses_insensitive_Star by blast
qed

lemma groupless_prerelease_part: "groupless prereleasePartRegexp"
  by (simp add: groupless_def parses_prerelease_part)

lemma groupless_build_part: "groupless buildPartRegExp"
  by (simp add: groupless_def buildPartRegExp_def parses_insensitive_Plus)

lemma pre_part_text:
  assumes "pre_part u"
  shows "u \<noteq> [] \<and> class_text part_char u"
proof (cases "numeric u")
  case True
  then show ?thesis
    using numeric_digits [of u] by (auto simp: part_char_def list_all_iff intro!: class_text_all)
next
  case False
  then obtain v w where u: "u = v @ w" "class_piece letter_char v" "class_text part_char w"
    using assms unfolding pre_part_def MatchString_iff parses_prerelease_part by blast
  then have "class_text part_char v"
    by (intro class_text_piece class_piece_mono [OF u(2)]) (auto simp: part_char_def)
  then show ?thesis using u class_text_append class_piece_not_Nil by auto
qed

lemma build_part_text: "build_part u \<longleftrightarrow> u \<noteq> [] \<and> class_text part_char u"
  by (simp add: build_part_def MatchString_iff buildPartRegExp_def parses_insensitive_Plus)

lemma join_dots: "str_join (u # ws) ''.'' = u @ concat (map ((#) CHR ''.'') ws)"
proof (induction ws arbitrary: u)
  case (Cons w ws)
  then show ?case by (simp add: str_join_Cons)
qed simp

lemma MatchString_joined:
  assumes "groupless a" "\<And>u. MatchString a u \<Longrightarrow> CHR ''.'' \<notin> set u"
  shows "MatchString (Cat a (Star (Cat (Lit ''.'') a))) s \<longleftrightarrow> list_all (MatchString a) (split_byte CHR ''.'' s)"
proof -
  have P: "parses a u c c' \<longleftrightarrow> c' = c \<and> MatchString a u" for u c c'
    using assms(1) unfolding MatchString_iff groupless_def by blast
  have pieces: "pieces_of (Cat (Lit ''.'') a) = (#) CHR ''.'' ` Collect (MatchString a)"
    by (auto simp: pieces_of_def parses_Cat parses_Lit P)
  have gl: "groupless (Cat (Lit ''.'') a)" using assms(1) by (intro groupless_intros)
  have concat_eq: "(\<exists>ps. set ps \<subseteq> pieces_of (Cat (Lit ''.'') a) \<and> v = concat ps)
      \<longleftrightarrow> (\<exists>ws. list_all (MatchString a) ws \<and> v = concat (map ((#) CHR ''.'') ws))" for v
  proof
    assume "\<exists>ps. set ps \<subseteq> pieces_of (Cat (Lit ''.'') a) \<and> v = concat ps"
    then obtain ps where ps: "set ps \<subseteq> (#) CHR ''.'' ` Collect (MatchString a)" "v = concat ps" unfolding pieces by blast
    then have "ps \<in> map ((#) CHR ''.'') ` lists (Collect (MatchString a))"
      unfolding lists_image [symmetric] by auto
    then obtain ws where "ps = map ((#) CHR ''.'') ws" "set ws \<subseteq> Collect (MatchString a)"
      by (auto simp: lists_eq_set)
    then show "\<exists>ws. list_all (MatchString a) ws \<and> v = concat (map ((#) CHR ''.'') ws)"
      using ps(2) by (auto simp: list_all_iff)
  next
    assume "\<exists>ws. list_all (MatchString a) ws \<and> v = concat (map ((#) CHR ''.'') ws)"
    then show "\<exists>ps. set ps \<subseteq> pieces_of (Cat (Lit ''.'') a) \<and> v = concat ps"
      unfolding pieces list_all_iff by (metis (no_types, lifting) image_mono list.set_map mem_Collect_eq subsetI)
  qed
  have "MatchString (Cat a (Star (Cat (Lit ''.'') a))) s
      \<longleftrightarrow> (\<exists>u v. s = u @ v \<and> MatchString a u \<and> (\<exists>ws. list_all (MatchString a) ws \<and> v = concat (map ((#) CHR ''.'') ws)))"
    unfolding MatchString_iff [of "Cat a _"] parses_Cat [of a] parses_Star [OF gl] concat_eq P by auto
  also have "\<dots> \<longleftrightarrow> (\<exists>u ws. list_all (MatchString a) (u # ws) \<and> s = str_join (u # ws) ''.'')"
    unfolding join_dots by auto
  also have "\<dots> \<longleftrightarrow> list_all (MatchString a) (split_byte CHR ''.'' s)"
  proof
    assume "\<exists>u ws. list_all (MatchString a) (u # ws) \<and> s = str_join (u # ws) ''.''"
    then obtain u ws where ws: "list_all (MatchString a) (u # ws)" "s = str_join (u # ws) ''.''" by blast
    then have "split_byte CHR ''.'' s = u # ws"
      using split_byte_join [of "u # ws" "CHR ''.''"] assms(2) by (auto simp: list_all_iff)
    with ws(1) show "list_all (MatchString a) (split_byte CHR ''.'' s)" by simp
  next
    assume all: "list_all (MatchString a) (split_byte CHR ''.'' s)"
    obtain u ws where ws: "split_byte CHR ''.'' s = u # ws" by (metis neq_Nil_conv split_byte_not_Nil)
    then show "\<exists>u ws. list_all (MatchString a) (u # ws) \<and> s = str_join (u # ws) ''.''"
      using all str_join_split [of "CHR ''.''" s] by (intro exI [of _ u] exI [of _ ws]) simp
  qed
  finally show ?thesis .
qed

lemma class_text_no_dot: "class_text part_char u \<Longrightarrow> CHR ''.'' \<notin> set u"
  using class_text_bytes [of part_char u] dot_not_part by (auto simp: list_all_iff)

lemma prerelease_list: "MatchString prereleaseRegexp s \<longleftrightarrow> list_all pre_part (split_byte CHR ''.'' s)"
  unfolding prereleaseRegexp_def pre_part_def [abs_def]
  by (rule MatchString_joined [OF groupless_prerelease_part])
    (use pre_part_text class_text_no_dot in \<open>auto simp: pre_part_def\<close>)

lemma build_list: "MatchString buildRegExp s \<longleftrightarrow> list_all build_part (split_byte CHR ''.'' s)"
  unfolding buildRegExp_def build_part_def [abs_def]
  by (rule MatchString_joined [OF groupless_build_part])
    (use build_part_text class_text_no_dot in \<open>auto simp: build_part_def\<close>)

lemma class_text_mono: "class_text p u \<Longrightarrow> (\<And>b. p b \<Longrightarrow> q b) \<Longrightarrow> class_text q u"
  unfolding class_text_def by (metis (mono_tags, lifting) class_piece_mono list.pred_mono_strong)

lemma class_text_join: "list_all (class_text part_char) ws \<Longrightarrow> class_text parts_char (str_join ws ''.'')"
proof (induction ws)
  case (Cons w ws)
  have w: "class_text parts_char w"
    using Cons.prems by (auto simp: parts_char_def intro: class_text_mono)
  have dot: "class_text parts_char ''.''" by (rule class_text_char) (simp add: parts_char_def)
  show ?case
    using w Cons class_text_append [OF w class_text_append [OF dot]] by (cases "ws = []") (simp_all add: str_join_Cons)
qed simp

section \<open>Dotted versions\<close>

text \<open>The parts of a version as \<open>major.minor.patch-prerelease+build\<close>; those missing are empty.\<close>

definition after :: "char \<Rightarrow> string \<Rightarrow> string" where
  "after b u = (if u = [] then [] else b # u)"

definition dotted_text :: "string \<Rightarrow> string \<Rightarrow> string \<Rightarrow> string \<Rightarrow> string \<Rightarrow> string" where
  "dotted_text m n p q b = m @ after CHR ''.'' n @ after CHR ''.'' p @ after CHR ''-'' q @ after CHR ''+'' b"

definition dotted_captures :: "string \<Rightarrow> string \<Rightarrow> string \<Rightarrow> string \<Rightarrow> string \<Rightarrow> captures" where
  "dotted_captures m n p q b = (\<lambda>_. [])(1 := m, 2 := n, 3 := p, 4 := q, 5 := b)"

definition dotted_parts :: "(string \<Rightarrow> bool) \<Rightarrow> string \<Rightarrow> string \<Rightarrow> string \<Rightarrow> string \<Rightarrow> string \<Rightarrow> bool" where
  "dotted_parts P m n p q b \<longleftrightarrow>
     P m \<and> (n = [] \<or> P n) \<and> (p = [] \<or> n \<noteq> [] \<and> P p) \<and> (q = [] \<or> p \<noteq> []) \<and> (b = [] \<or> p \<noteq> [])
     \<and> class_text parts_char q \<and> class_text parts_char b"

lemma dotted_captures_simps [simp]:
  "dotted_captures m n p q b 1 = m" "dotted_captures m n p q b (Suc 0) = m" "dotted_captures m n p q b 2 = n"
  "dotted_captures m n p q b 3 = p" "dotted_captures m n p q b 4 = q" "dotted_captures m n p q b 5 = b"
  by (simp_all add: dotted_captures_def)

lemma ex_empty: "Q [] \<Longrightarrow> (\<exists>q. Q q \<and> R q) \<longleftrightarrow> R [] \<or> (\<exists>q. q \<noteq> [] \<and> Q q \<and> R q)"
  by metis

lemma parses_qualifier:
  assumes "c i = []"
  shows "parses (qualifier_regexp b i) u c c' \<longleftrightarrow> (\<exists>q. class_text parts_char q \<and> u = after b q \<and> c' = c(i := q))"
proof -
  have "c = c(i := [])" using assms by auto
  then have none: "(u = [] \<and> c' = c) \<longleftrightarrow> (u = after b [] \<and> c' = c(i := []))" by (simp add: after_def)
  have some: "(\<exists>q. u = [b] @ q \<and> c' = c(i := q) \<and> q \<noteq> [] \<and> class_text parts_char q)
      \<longleftrightarrow> (\<exists>q. q \<noteq> [] \<and> class_text parts_char q \<and> u = after b q \<and> c' = c(i := q))"
    by (auto simp: after_def)
  have "parses (qualifier_regexp b i) u c c' \<longleftrightarrow> (u = [] \<and> c' = c)
      \<or> (\<exists>q. u = [b] @ q \<and> c' = c(i := q) \<and> q \<noteq> [] \<and> class_text parts_char q)"
    by (auto simp: qualifier_regexp_def parses_Opt parses_Cat parses_Lit parses_Grp parses_insensitive_Plus)
  moreover have "(\<exists>q. class_text parts_char q \<and> u = after b q \<and> c' = c(i := q)) \<longleftrightarrow> (u = after b [] \<and> c' = c(i := []))
      \<or> (\<exists>q. q \<noteq> [] \<and> class_text parts_char q \<and> u = after b q \<and> c' = c(i := q))"
    by (rule ex_empty) simp
  ultimately show ?thesis unfolding none some by simp
qed

text \<open>A number of a version: not empty, and without the characters that separate the parts.\<close>

definition separator :: "char \<Rightarrow> bool" where
  "separator b \<longleftrightarrow> b = CHR ''.'' \<or> b = CHR ''-'' \<or> b = CHR ''+''"

locale dotted_numbers =
  fixes n :: regex and P :: "string \<Rightarrow> bool"
  assumes number: "parses n u c c' \<longleftrightarrow> c' = c \<and> P u"
    and not_empty: "P u \<Longrightarrow> u \<noteq> []"
    and plain: "P u \<Longrightarrow> list_all (\<lambda>b. \<not> separator b) u"
begin

lemma parses_patch:
  assumes "c 4 = []" "c 5 = []"
  shows "parses (patch_regexp n) u c c' \<longleftrightarrow>
    (\<exists>p q b. P p \<and> class_text parts_char q \<and> class_text parts_char b
       \<and> u = p @ after CHR ''-'' q @ after CHR ''+'' b \<and> c' = c(3 := p, 4 := q, 5 := b))"
proof -
  have q: "parses (qualifier_regexp CHR ''-'' 4) v (c(3 := p)) d
      \<longleftrightarrow> (\<exists>q. class_text parts_char q \<and> v = after CHR ''-'' q \<and> d = c(3 := p, 4 := q))" for v p d
    by (rule parses_qualifier) (simp add: assms)
  have b: "parses (qualifier_regexp CHR ''+'' 5) v (c(3 := p, 4 := q)) d
      \<longleftrightarrow> (\<exists>b. class_text parts_char b \<and> v = after CHR ''+'' b \<and> d = c(3 := p, 4 := q, 5 := b))" for v p q d
    by (rule parses_qualifier) (simp add: assms)
  have "parses (patch_regexp n) u c c' \<longleftrightarrow>
      (\<exists>p v w x d. u = p @ v \<and> P p \<and> v = w @ x \<and> parses (qualifier_regexp CHR ''-'' 4) w (c(3 := p)) d
         \<and> parses (qualifier_regexp CHR ''+'' 5) x d c')"
    unfolding patch_regexp_def parses_Cat parses_Grp number by metis
  also have "\<dots> \<longleftrightarrow> (\<exists>p w x q. u = p @ w @ x \<and> P p \<and> class_text parts_char q \<and> w = after CHR ''-'' q
         \<and> parses (qualifier_regexp CHR ''+'' 5) x (c(3 := p, 4 := q)) c')"
    unfolding q by blast
  also have "\<dots> \<longleftrightarrow> (\<exists>p q b. P p \<and> class_text parts_char q \<and> class_text parts_char b
       \<and> u = p @ after CHR ''-'' q @ after CHR ''+'' b \<and> c' = c(3 := p, 4 := q, 5 := b))"
    unfolding b by blast
  finally show ?thesis .
qed

lemma parses_minor:
  assumes "c 3 = []" "c 4 = []" "c 5 = []"
  shows "parses (minor_regexp n) u c c' \<longleftrightarrow>
    (\<exists>k p q b. P k \<and> (p = [] \<and> q = [] \<and> b = [] \<or> P p) \<and> class_text parts_char q \<and> class_text parts_char b
       \<and> u = k @ after CHR ''.'' p @ after CHR ''-'' q @ after CHR ''+'' b
       \<and> c' = c(2 := k, 3 := p, 4 := q, 5 := b))"
proof -
  have none: "c(2 := k, 3 := [], 4 := [], 5 := []) = c(2 := k)" for k using assms by auto
  have p: "parses (patch_regexp n) v (c(2 := k)) d \<longleftrightarrow>
    (\<exists>p q b. P p \<and> class_text parts_char q \<and> class_text parts_char b
       \<and> v = p @ after CHR ''-'' q @ after CHR ''+'' b \<and> d = c(2 := k, 3 := p, 4 := q, 5 := b))" for v k d
    by (rule parses_patch) (simp_all add: assms)
  have "parses (minor_regexp n) u c c' \<longleftrightarrow>
      (\<exists>k v. u = k @ v \<and> P k \<and> (v = [] \<and> c' = c(2 := k)
         \<or> (\<exists>w. v = ''.'' @ w \<and> parses (patch_regexp n) w (c(2 := k)) c')))"
    unfolding minor_regexp_def parses_Cat parses_Opt parses_Lit parses_Grp number by metis
  also have "\<dots> \<longleftrightarrow> (\<exists>k p q b. P k \<and> (p = [] \<and> q = [] \<and> b = [] \<or> P p) \<and> class_text parts_char q
       \<and> class_text parts_char b \<and> u = k @ after CHR ''.'' p @ after CHR ''-'' q @ after CHR ''+'' b
       \<and> c' = c(2 := k, 3 := p, 4 := q, 5 := b))" (is "_ = ?R")
  proof
    assume "\<exists>k v. u = k @ v \<and> P k \<and> (v = [] \<and> c' = c(2 := k)
         \<or> (\<exists>w. v = ''.'' @ w \<and> parses (patch_regexp n) w (c(2 := k)) c'))"
    then obtain k v where k: "u = k @ v" "P k"
      "v = [] \<and> c' = c(2 := k) \<or> (\<exists>w. v = ''.'' @ w \<and> parses (patch_regexp n) w (c(2 := k)) c')" by blast
    from k(3) show ?R
    proof
      assume "v = [] \<and> c' = c(2 := k)"
      then show ?R using k(1,2) none [of k]
        by (intro exI [of _ k] exI [of _ "[]"]) (simp add: after_def)
    next
      assume "\<exists>w. v = ''.'' @ w \<and> parses (patch_regexp n) w (c(2 := k)) c'"
      then obtain p q b where "P p" "class_text parts_char q" "class_text parts_char b"
        "v = ''.'' @ p @ after CHR ''-'' q @ after CHR ''+'' b" "c' = c(2 := k, 3 := p, 4 := q, 5 := b)"
        unfolding p by blast
      then show ?R using k(1,2) not_empty [of p]
        by (intro exI [of _ k] exI [of _ p] exI [of _ q] exI [of _ b]) (simp add: after_def)
    qed
  next
    assume ?R
    then obtain k p q b where r: "P k" "p = [] \<and> q = [] \<and> b = [] \<or> P p" "class_text parts_char q" "class_text parts_char b"
      "u = k @ after CHR ''.'' p @ after CHR ''-'' q @ after CHR ''+'' b" "c' = c(2 := k, 3 := p, 4 := q, 5 := b)" by blast
    from r(2) show "\<exists>k v. u = k @ v \<and> P k \<and> (v = [] \<and> c' = c(2 := k)
         \<or> (\<exists>w. v = ''.'' @ w \<and> parses (patch_regexp n) w (c(2 := k)) c'))"
    proof
      assume "p = [] \<and> q = [] \<and> b = []"
      then show ?thesis using r none [of k] by (intro exI [of _ k] exI [of _ "[]"]) (simp add: after_def)
    next
      assume "P p"
      then have "v = p @ after CHR ''-'' q @ after CHR ''+'' b \<Longrightarrow> parses (patch_regexp n) v (c(2 := k)) c'" for v
        unfolding p using r by blast
      then show ?thesis using r not_empty [OF \<open>P p\<close>]
        by (intro exI [of _ k] exI [of _ "''.'' @ p @ after CHR ''-'' q @ after CHR ''+'' b"]) (simp add: after_def)
    qed
  qed
  finally show ?thesis .
qed

lemma parses_dotted:
  "parses (dotted_regexp n) s (\<lambda>_. []) c
   \<longleftrightarrow> (\<exists>m k p q b. dotted_parts P m k p q b \<and> s = dotted_text m k p q b \<and> c = dotted_captures m k p q b)"
proof
  have r: "parses (minor_regexp n) u ((\<lambda>_. [])(1 := m)) c \<longleftrightarrow>
    (\<exists>k p q b. P k \<and> (p = [] \<and> q = [] \<and> b = [] \<or> P p) \<and> class_text parts_char q \<and> class_text parts_char b
       \<and> u = k @ after CHR ''.'' p @ after CHR ''-'' q @ after CHR ''+'' b \<and> c = dotted_captures m k p q b)" for u m c
    unfolding dotted_captures_def by (rule parses_minor) simp_all
  have split: "parses (dotted_regexp n) s (\<lambda>_. []) c \<longleftrightarrow>
      (\<exists>m v. s = m @ v \<and> P m \<and> (v = [] \<and> c = (\<lambda>_. [])(1 := m)
         \<or> (\<exists>w. v = ''.'' @ w \<and> parses (minor_regexp n) w ((\<lambda>_. [])(1 := m)) c)))"
    unfolding dotted_regexp_def parses_Cat parses_Opt parses_Lit parses_Grp number by metis
  {
    assume "parses (dotted_regexp n) s (\<lambda>_. []) c"
    then obtain m v where m: "s = m @ v" "P m"
      "v = [] \<and> c = (\<lambda>_. [])(1 := m) \<or> (\<exists>w. v = ''.'' @ w \<and> parses (minor_regexp n) w ((\<lambda>_. [])(1 := m)) c)"
      unfolding split by blast
    from m(3) show "\<exists>m k p q b. dotted_parts P m k p q b \<and> s = dotted_text m k p q b \<and> c = dotted_captures m k p q b"
    proof
      assume "v = [] \<and> c = (\<lambda>_. [])(1 := m)"
      moreover from this have "c = dotted_captures m [] [] [] []" by (auto simp: dotted_captures_def)
      ultimately show ?thesis using m(1,2)
        by (intro exI [of _ m] exI [of _ "[]"]) (simp add: dotted_parts_def dotted_text_def after_def)
    next
      assume "\<exists>w. v = ''.'' @ w \<and> parses (minor_regexp n) w ((\<lambda>_. [])(1 := m)) c"
      then obtain k p q b where d: "P k" "p = [] \<and> q = [] \<and> b = [] \<or> P p" "class_text parts_char q" "class_text parts_char b"
        "v = ''.'' @ k @ after CHR ''.'' p @ after CHR ''-'' q @ after CHR ''+'' b" "c = dotted_captures m k p q b"
        unfolding r by blast
      have "dotted_parts P m k p q b" using d(1-4) m(2) not_empty [of k] not_empty [of p] by (auto simp: dotted_parts_def)
      moreover have "s = dotted_text m k p q b"
        using d(1,5) m(1) not_empty [of k] by (simp add: dotted_text_def after_def [of _ k])
      ultimately show ?thesis using d(6) by blast
    qed
  next
    assume "\<exists>m k p q b. dotted_parts P m k p q b \<and> s = dotted_text m k p q b \<and> c = dotted_captures m k p q b"
    then obtain m k p q b where d: "dotted_parts P m k p q b" "s = dotted_text m k p q b" "c = dotted_captures m k p q b" by blast
    show "parses (dotted_regexp n) s (\<lambda>_. []) c"
    proof (cases "k = []")
      case True
      then have "p = []" "q = []" "b = []" using d(1) by (auto simp: dotted_parts_def)
      then have "c = (\<lambda>_. [])(1 := m)" "s = m @ []" "P m"
        using True d by (auto simp: dotted_parts_def dotted_text_def after_def dotted_captures_def)
      then show ?thesis unfolding split by blast
    next
      case False
      then have "parses (minor_regexp n) (k @ after CHR ''.'' p @ after CHR ''-'' q @ after CHR ''+'' b) ((\<lambda>_. [])(1 := m)) c"
        unfolding r d(3) using d(1) by (auto simp: dotted_parts_def)
      moreover have "s = m @ ''.'' @ k @ after CHR ''.'' p @ after CHR ''-'' q @ after CHR ''+'' b" "P m"
        using False d by (simp_all add: dotted_text_def dotted_parts_def after_def)
      ultimately show ?thesis unfolding split by blast
    qed
  }
qed

lemma dotted_unique:
  assumes "dotted_parts P m k p q b" "dotted_parts P m' k' p' q' b'" "dotted_text m k p q b = dotted_text m' k' p' q' b'"
  shows "m = m' \<and> k = k' \<and> p = p' \<and> q = q' \<and> b = b'"
proof -
  define Y where "Y = after CHR ''-'' q @ after CHR ''+'' b"
  define Y' where "Y' = after CHR ''-'' q' @ after CHR ''+'' b'"
  define X where "X = after CHR ''.'' p @ Y"
  define X' where "X' = after CHR ''.'' p' @ Y'"
  note parts = assms(1,2) [unfolded dotted_parts_def]
  have heads: "u @ w = u' @ w' \<Longrightarrow> P u \<Longrightarrow> P u' \<Longrightarrow> w = [] \<or> separator (hd w) \<Longrightarrow> w' = [] \<or> separator (hd w') \<Longrightarrow> u = u' \<and> w = w'"
    for u w u' w'
    using span_unique [of u w u' w' "\<lambda>b. \<not> separator b"] plain by blast
  have sep: "after c u = [] \<or> separator (hd (after c u))" if "separator c" for c u
    using that by (simp add: after_def)
  have seps: "separator CHR ''.''" "separator CHR ''-''" "separator CHR ''+''" by (simp_all add: separator_def)
  have "Y = [] \<or> separator (hd Y)" "Y' = [] \<or> separator (hd Y')" "X = [] \<or> separator (hd X)" "X' = [] \<or> separator (hd X')"
    using sep seps by (auto simp: Y_def Y'_def X_def X'_def after_def separator_def)
  note ends = this
  have whole: "m @ (after CHR ''.'' k @ X) = m' @ (after CHR ''.'' k' @ X')"
    using assms(3) by (simp add: dotted_text_def X_def X'_def Y_def Y'_def)
  have 1: "m = m' \<and> after CHR ''.'' k @ X = after CHR ''.'' k' @ X'"
    using whole parts ends by (intro heads) (auto simp: after_def separator_def)
  have none: "k = [] \<Longrightarrow> X = []" "k' = [] \<Longrightarrow> X' = []" "p = [] \<Longrightarrow> Y = []" "p' = [] \<Longrightarrow> Y' = []"
    using parts by (auto simp: X_def X'_def Y_def Y'_def after_def)
  have 2: "k = k' \<and> X = X'"
  proof (cases "k = [] \<or> k' = []")
    case True
    then show ?thesis using 1 none by (auto simp: after_def split: if_splits)
  next
    case False
    then have "k @ X = k' @ X'" using 1 by (simp add: after_def)
    then show ?thesis using False parts ends by (intro heads) auto
  qed
  then have X: "after CHR ''.'' p @ Y = after CHR ''.'' p' @ Y'" by (simp add: X_def X'_def)
  have 3: "p = p' \<and> Y = Y'"
  proof (cases "p = [] \<or> p' = []")
    case True
    then show ?thesis using X none by (auto simp: after_def split: if_splits)
  next
    case False
    then have "p @ Y = p' @ Y'" using X by (simp add: after_def)
    then show ?thesis using False parts ends by (intro heads) auto
  qed
  then have Y: "after CHR ''-'' q @ after CHR ''+'' b = after CHR ''-'' q' @ after CHR ''+'' b'" by (simp add: Y_def Y'_def)
  have "class_text parts_char q" "class_text parts_char q'" using parts by simp_all
  then have q: "list_all (\<lambda>b. b \<noteq> CHR ''+'') q" "list_all (\<lambda>b. b \<noteq> CHR ''+'') q'"
    using class_text_bytes
    by (fastforce simp: list_all_iff parts_char_def part_char_def letter_char_def ascii_letter_def is_digit_def)+
  have 4: "q = q' \<and> after CHR ''+'' b = after CHR ''+'' b'"
  proof (cases "q = [] \<or> q' = []")
    case True
    then show ?thesis using Y by (auto simp: after_def split: if_splits)
  next
    case False
    then have "q @ after CHR ''+'' b = q' @ after CHR ''+'' b'" using Y by (simp add: after_def)
    then show ?thesis by (rule span_unique [OF _ q]) (simp_all add: after_def)
  qed
  then have "b = b'" by (auto simp: after_def split: if_splits)
  with 1 2 3 4 show ?thesis by blast
qed

lemma submatch_dotted:
  "FindStringSubmatch (dotted_regexp n) s = Some c
   \<longleftrightarrow> (\<exists>m k p q b. dotted_parts P m k p q b \<and> s = dotted_text m k p q b \<and> c = dotted_captures m k p q b)"
proof
  assume "FindStringSubmatch (dotted_regexp n) s = Some c"
  then show "\<exists>m k p q b. dotted_parts P m k p q b \<and> s = dotted_text m k p q b \<and> c = dotted_captures m k p q b"
    using FindStringSubmatch_sound parses_dotted by blast
next
  assume "\<exists>m k p q b. dotted_parts P m k p q b \<and> s = dotted_text m k p q b \<and> c = dotted_captures m k p q b"
  then obtain m k p q b where d: "dotted_parts P m k p q b" "s = dotted_text m k p q b" "c = dotted_captures m k p q b" by blast
  show "FindStringSubmatch (dotted_regexp n) s = Some c"
  proof (rule FindStringSubmatch_unique)
    show "parses (dotted_regexp n) s (\<lambda>_. []) c" unfolding parses_dotted using d by blast
    show "\<forall>c'. parses (dotted_regexp n) s (\<lambda>_. []) c' \<longrightarrow> c' = c"
    proof (intro allI impI)
      fix c' assume "parses (dotted_regexp n) s (\<lambda>_. []) c'"
      then obtain m' k' p' q' b' where "dotted_parts P m' k' p' q' b'" "s = dotted_text m' k' p' q' b'"
        "c' = dotted_captures m' k' p' q' b'" unfolding parses_dotted by blast
      then show "c' = c" using dotted_unique [OF d(1), of m' k' p' q' b'] d(2,3) by simp
    qed
  qed
qed

end

lemma digit_plain: "is_digit b \<Longrightarrow> \<not> separator b"
  by (auto simp: is_digit_def separator_def)

interpretation version: dotted_numbers number_regexp numeric
proof
  show "parses number_regexp u c c' \<longleftrightarrow> c' = c \<and> numeric u" for u c c' by (rule parses_number)
  show "numeric u \<Longrightarrow> u \<noteq> []" for u using numeric_digits by blast
  show "numeric u \<Longrightarrow> list_all (\<lambda>b. \<not> separator b) u" for u
    using numeric_digits [of u] digit_plain by (auto simp: list_all_iff)
qed

section \<open>Round trip\<close>

definition valid_version :: "Version \<Rightarrow> bool" where
  "valid_version v \<longleftrightarrow> list_all pre_part (prerelease v) \<and> list_all build_part (build v)"

lemma component_decimal: "component (decimal (unat w)) = Inr w"
  by (simp add: component_def decimal_not_Nil getUintComponent_decimal)

lemma map_sum_component: "s \<noteq> [] \<Longrightarrow> map_sum ComponentError id (getUintComponent s) = component s"
  by (simp add: component_def)

text \<open>A list of identifiers and its text.\<close>

definition list_text :: "string \<Rightarrow> string list \<Rightarrow> bool" where
  "list_text q ws \<longleftrightarrow> q = [] \<and> ws = [] \<or> q \<noteq> [] \<and> ws = split_byte CHR ''.'' q"

lemma TryParseVersion_parts:
  "TryParseVersion s = Inr v \<longleftrightarrow>
     (\<exists>m k p q b. dotted_parts numeric m k p q b \<and> s = dotted_text m k p q b
        \<and> component m = Inr (major v) \<and> component k = Inr (minor v) \<and> component p = Inr (patch v)
        \<and> list_text q (prerelease v) \<and> list_text b (build v) \<and> valid_version v)"
proof (cases "FindStringSubmatch versionRegexp s")
  case None
  then have "\<not> (\<exists>m k p q b. dotted_parts numeric m k p q b \<and> s = dotted_text m k p q b)"
    using version.submatch_dotted [of s] unfolding versionRegexp_def by (metis option.distinct(1))
  moreover have "TryParseVersion s \<noteq> Inr v" using None by (simp add: TryParseVersion_def)
  ultimately show ?thesis by blast
next
  case (Some c)
  then obtain m k p q b where d: "dotted_parts numeric m k p q b" "s = dotted_text m k p q b" "c = dotted_captures m k p q b"
    using version.submatch_dotted unfolding versionRegexp_def by blast
  have m: "m \<noteq> []" using d(1) numeric_digits by (auto simp: dotted_parts_def)
  have list_some: "list_text q (prerelease v) \<Longrightarrow> q \<noteq> [] \<Longrightarrow> MatchString prereleaseRegexp q \<longleftrightarrow> list_all pre_part (prerelease v)"
    "list_text b (build v) \<Longrightarrow> b \<noteq> [] \<Longrightarrow> MatchString buildRegExp b \<longleftrightarrow> list_all build_part (build v)"
    by (simp_all add: list_text_def prerelease_list build_list)
  have "TryParseVersion s = Inr v \<longleftrightarrow>
      component m = Inr (major v) \<and> component k = Inr (minor v) \<and> component p = Inr (patch v)
      \<and> list_text q (prerelease v) \<and> list_text b (build v)
      \<and> (q = [] \<or> MatchString prereleaseRegexp q) \<and> (b = [] \<or> MatchString buildRegExp b)"
    unfolding TryParseVersion_def Some d(3) using m
    by (cases v) (auto simp: map_sum_component list_text_def split: sum.splits)
  also have "\<dots> \<longleftrightarrow> component m = Inr (major v) \<and> component k = Inr (minor v) \<and> component p = Inr (patch v)
      \<and> list_text q (prerelease v) \<and> list_text b (build v) \<and> valid_version v"
    using list_some unfolding valid_version_def by (auto simp: list_text_def)
  also have "\<dots> \<longleftrightarrow> (\<exists>m k p q b. dotted_parts numeric m k p q b \<and> s = dotted_text m k p q b
        \<and> component m = Inr (major v) \<and> component k = Inr (minor v) \<and> component p = Inr (patch v)
        \<and> list_text q (prerelease v) \<and> list_text b (build v) \<and> valid_version v)"
    (is "?L \<longleftrightarrow> ?R")
  proof
    show "?L \<Longrightarrow> ?R" using d(1,2) by blast
    assume ?R
    then obtain m' k' p' q' b' where r: "dotted_parts numeric m' k' p' q' b'" "s = dotted_text m' k' p' q' b'"
      "component m' = Inr (major v) \<and> component k' = Inr (minor v) \<and> component p' = Inr (patch v)
        \<and> list_text q' (prerelease v) \<and> list_text b' (build v) \<and> valid_version v" by blast
    then show ?L using version.dotted_unique [OF d(1) r(1)] d(2) by simp
  qed
  finally show ?thesis .
qed

lemma join_list_text:
  assumes "list_all (\<lambda>w. w \<noteq> [] \<and> class_text part_char w) ws"
  shows "list_text (str_join ws ''.'') ws" "class_text parts_char (str_join ws ''.'')"
    "str_join ws ''.'' = [] \<longleftrightarrow> ws = []"
proof -
  show nil: "str_join ws ''.'' = [] \<longleftrightarrow> ws = []"
    using assms by (cases ws rule: list_two_cases) auto
  show "class_text parts_char (str_join ws ''.'')"
    using assms by (intro class_text_join) (auto simp: list_all_iff)
  show "list_text (str_join ws ''.'') ws"
    using nil split_byte_join [of ws "CHR ''.''"] assms class_text_no_dot
    by (auto simp: list_text_def list_all_iff)
qed

lemma VersionString_dotted:
  assumes "valid_version v"
  shows "VersionString v = dotted_text (decimal (unat (major v))) (decimal (unat (minor v))) (decimal (unat (patch v)))
     (str_join (prerelease v) ''.'') (str_join (build v) ''.'')"
    and "dotted_parts numeric (decimal (unat (major v))) (decimal (unat (minor v))) (decimal (unat (patch v)))
     (str_join (prerelease v) ''.'') (str_join (build v) ''.'')"
    and "list_text (str_join (prerelease v) ''.'') (prerelease v)" "list_text (str_join (build v) ''.'') (build v)"
proof -
  have pre: "list_all (\<lambda>w. w \<noteq> [] \<and> class_text part_char w) (prerelease v)"
    using assms pre_part_text by (auto simp: valid_version_def list_all_iff)
  have bld: "list_all (\<lambda>w. w \<noteq> [] \<and> class_text part_char w) (build v)"
    using assms build_part_text by (auto simp: valid_version_def list_all_iff)
  note joined = join_list_text [OF pre] join_list_text [OF bld]
  show "list_text (str_join (prerelease v) ''.'') (prerelease v)" "list_text (str_join (build v) ''.'') (build v)"
    by (rule joined)+
  show "VersionString v = dotted_text (decimal (unat (major v))) (decimal (unat (minor v))) (decimal (unat (patch v)))
     (str_join (prerelease v) ''.'') (str_join (build v) ''.'')"
    using joined(3,6) by (simp add: VersionString_def dotted_text_def after_def decimal_not_Nil)
  show "dotted_parts numeric (decimal (unat (major v))) (decimal (unat (minor v))) (decimal (unat (patch v)))
     (str_join (prerelease v) ''.'') (str_join (build v) ''.'')"
    using joined by (simp add: dotted_parts_def numeric_decimal decimal_not_Nil)
qed

lemma TryParse_String: "valid_version v \<Longrightarrow> TryParseVersion (VersionString v) = Inr v"
  unfolding TryParseVersion_parts using VersionString_dotted component_decimal by blast

text \<open>C34: The versions that can be read are exactly those whose identifiers are valid, whatever their numbers,
  and exactly these are read back from their text unchanged.\<close>
theorem TryParseVersion_roundtrip:
  "((\<exists>s. TryParseVersion s = Inr v) \<longleftrightarrow> list_all (MatchString prereleasePartRegexp) (prerelease v)
      \<and> list_all (MatchString buildPartRegExp) (build v))
   \<and> (TryParseVersion (VersionString v) = Inr v \<longleftrightarrow> list_all (MatchString prereleasePartRegexp) (prerelease v)
      \<and> list_all (MatchString buildPartRegExp) (build v))"
proof -
  have valid: "valid_version v \<longleftrightarrow> list_all (MatchString prereleasePartRegexp) (prerelease v)
      \<and> list_all (MatchString buildPartRegExp) (build v)"
    by (simp add: valid_version_def pre_part_def [abs_def] build_part_def [abs_def])
  have "TryParseVersion s = Inr v \<Longrightarrow> valid_version v" for s unfolding TryParseVersion_parts by blast
  then show ?thesis using TryParse_String unfolding valid [symmetric] by blast
qed

end
