(* ===== verification/SemverRange.thy ===== *)
theory SemverRange
  imports SemverParse
begin

text \<open>
  Version ranges of \<open>semver/version_range.go\<close>: alternatives of comparators, their text, the test of a version,
  and the parser with its partial versions, hyphen ranges, tildes and carets. A panic is \<open>None\<close>; where the
  code returns a value and a flag, \<open>Some None\<close> is the value with the flag false.
\<close>

section \<open>Ranges\<close>

type_synonym comparatorOperator = string

record versionComparator =
  operator :: comparatorOperator
  operand :: Version

definition comparator :: "comparatorOperator \<Rightarrow> Version \<Rightarrow> versionComparator" where
  "comparator op v = \<lparr>operator = op, operand = v\<rparr>"

record VersionRange =
  alternatives :: "versionComparator list list"

definition rangeLessThan :: comparatorOperator where "rangeLessThan = ''<''"
definition rangeLessThanEqual :: comparatorOperator where "rangeLessThanEqual = ''<=''"
definition rangeEqual :: comparatorOperator where "rangeEqual = ''=''"
definition rangeGreaterThanEqual :: comparatorOperator where "rangeGreaterThanEqual = ''>=''"
definition rangeGreaterThan :: comparatorOperator where "rangeGreaterThan = ''>''"

lemmas operator_defs =
  rangeLessThan_def rangeLessThanEqual_def rangeEqual_def rangeGreaterThanEqual_def rangeGreaterThan_def

definition formatComparator :: "versionComparator \<Rightarrow> string" where
  "formatComparator c = operator c @ VersionString (operand c)"

definition formatAlternative :: "versionComparator list \<Rightarrow> string" where
  "formatAlternative comparators = str_join (map formatComparator comparators) '' ''"

definition formatDisjunction :: "versionComparator list list \<Rightarrow> string" where
  "formatDisjunction alts =
     (let s = str_join (map formatAlternative alts) '' || '' in if s = [] then ''*'' else s)"

definition RangeString :: "VersionRange \<Rightarrow> string" where
  "RangeString r = formatDisjunction (alternatives r)"

definition testComparator :: "versionComparator \<Rightarrow> Version option \<Rightarrow> bool panics" where
  "testComparator c v =
     (let cmp = Compare v (Some (operand c)) in
      if operator c = rangeLessThan then Some (cmp < 0)
      else if operator c = rangeLessThanEqual then Some (cmp \<le> 0)
      else if operator c = rangeEqual then Some (cmp = 0)
      else if operator c = rangeGreaterThanEqual then Some (cmp \<ge> 0)
      else if operator c = rangeGreaterThan then Some (cmp > 0)
      else None)"

fun testAlternative :: "versionComparator list \<Rightarrow> Version option \<Rightarrow> bool panics" where
  "testAlternative [] v = Some True"
| "testAlternative (c # cs) v =
     (case testComparator c v of
        None \<Rightarrow> None
      | Some ok \<Rightarrow> if \<not> ok then Some False else testAlternative cs v)"

fun test_alternatives :: "versionComparator list list \<Rightarrow> Version option \<Rightarrow> bool panics" where
  "test_alternatives [] v = Some False"
| "test_alternatives (cs # alts) v =
     (case testAlternative cs v of
        None \<Rightarrow> None
      | Some ok \<Rightarrow> if ok then Some True else test_alternatives alts v)"

definition testDisjunction :: "versionComparator list list \<Rightarrow> Version option \<Rightarrow> bool panics" where
  "testDisjunction alts v = (if length alts = 0 then Some True else test_alternatives alts v)"

definition RangeTest :: "VersionRange \<Rightarrow> Version option \<Rightarrow> bool panics" where
  "RangeTest r v = testDisjunction (alternatives r) v"

section \<open>Regular expressions\<close>

definition xr_char :: "char \<Rightarrow> bool" where
  "xr_char c \<longleftrightarrow> c = CHR ''x'' \<or> c = CHR ''X'' \<or> c = CHR ''*'' \<or> c = CHR ''0''"

definition xr_regexp :: regex where
  "xr_regexp = Alt (Chars xr_char) (Cat (Chars digit_1_9) (Star (Chars is_digit)))"

definition partialRegExp :: regex where
  "partialRegExp = dotted_regexp xr_regexp"

text \<open>\<open>[a-z0-9-+.*]\<close> and \<open>\s\<close>.\<close>

definition partial_char :: "char \<Rightarrow> bool" where
  "partial_char c \<longleftrightarrow> parts_char c \<or> c = CHR ''+'' \<or> c = CHR ''*''"

definition white_char :: "char \<Rightarrow> bool" where
  "white_char c \<longleftrightarrow> byte c \<in> {0x09, 0x0A, 0x0C, 0x0D, 0x20}"

definition operator_char :: "char \<Rightarrow> bool" where
  "operator_char c \<longleftrightarrow> c = CHR ''~'' \<or> c = CHR ''^'' \<or> c = CHR ''<'' \<or> c = CHR ''>'' \<or> c = CHR ''=''"

definition hyphenRegExp :: regex where
  "hyphenRegExp =
     Cat (Star (Chars white_char)) (Cat (Grp 1 (Plus (insensitive partial_char)))
       (Cat (Plus (Chars white_char)) (Cat (Lit ''-'') (Cat (Plus (Chars white_char))
         (Cat (Grp 2 (Plus (insensitive partial_char))) (Star (Chars white_char)))))))"

definition rangeRegExp :: regex where
  "rangeRegExp =
     Cat (Opt (Grp 1 (Alt (Chars operator_char) (Alt (Lit ''<='') (Lit ''>='')))))
       (Cat (Star (Chars white_char)) (Grp 2 (Plus (insensitive partial_char))))"

text \<open>\<open>logicalOrRegExp.Split\<close> and \<open>whitespaceRegExp.Split\<close>.\<close>

function split_or :: "string \<Rightarrow> string list" where
  "split_or s =
     (case s of [] \<Rightarrow> [[]]
      | c # t \<Rightarrow>
          if c = CHR ''|'' \<and> t \<noteq> [] \<and> hd t = CHR ''|'' then [] # split_or (tl t)
          else (case split_or t of [] \<Rightarrow> [[c]] | w # ws \<Rightarrow> (c # w) # ws))"
  by pat_completeness auto
termination by (relation "measure length") auto

declare split_or.simps [simp del]

function split_white :: "string \<Rightarrow> string list" where
  "split_white [] = [[]]"
| "split_white (c # s) =
     (if white_char c then [] # split_white (dropWhile white_char s)
      else (case split_white s of [] \<Rightarrow> [[c]] | w # ws \<Rightarrow> (c # w) # ws))"
  by pat_completeness auto
termination by (relation "measure length") (auto simp: le_imp_less_Suc length_dropWhile_le)

section \<open>Partial versions\<close>

definition isWildcard :: "string \<Rightarrow> bool" where
  "isWildcard s \<longleftrightarrow> s = ''*'' \<or> s = ''x'' \<or> s = ''X''"

record partialVersion =
  version :: Version
  majorStr :: string
  minorStr :: string
  patchStr :: string

text \<open>The three numbers, of which none after a wildcard is read; \<open>None\<close> when one is out of range.\<close>

definition partial_numbers :: "string \<Rightarrow> string \<Rightarrow> string \<Rightarrow> (32 word \<times> 32 word \<times> 32 word) option" where
  "partial_numbers majorS minorS patchS =
     (if isWildcard majorS then Some (0, 0, 0)
      else (case getUintComponent majorS of Inl _ \<Rightarrow> None
      | Inr majorNumeric \<Rightarrow>
          if isWildcard minorS then Some (majorNumeric, 0, 0)
          else (case getUintComponent minorS of Inl _ \<Rightarrow> None
          | Inr minorNumeric \<Rightarrow>
              if isWildcard patchS then Some (majorNumeric, minorNumeric, 0)
              else (case getUintComponent patchS of Inl _ \<Rightarrow> None
              | Inr patchNumeric \<Rightarrow> Some (majorNumeric, minorNumeric, patchNumeric)))))"

definition parsePartial :: "string \<Rightarrow> partialVersion option" where
  "parsePartial s =
     (case FindStringSubmatch partialRegExp s of
        None \<Rightarrow> None
      | Some match \<Rightarrow>
          (let majorS = match 1;
               minorS = (if match 2 = [] then ''*'' else match 2);
               patchS = (if match 3 = [] then ''*'' else match 3)
           in case partial_numbers majorS minorS patchS of
                None \<Rightarrow> None
              | Some (a, b, c) \<Rightarrow>
                  Some \<lparr>version = \<lparr>major = a, minor = b, patch = c,
                                    prerelease = (if match 4 \<noteq> [] then split_byte CHR ''.'' (match 4) else []),
                                    build = (if match 5 \<noteq> [] then split_byte CHR ''.'' (match 5) else [])\<rparr>,
                        majorStr = majorS, minorStr = minorS, patchStr = patchS\<rparr>))"

section \<open>Comparators\<close>

definition parseHyphen :: "string \<Rightarrow> string \<Rightarrow> versionComparator list option" where
  "parseHyphen left right =
     (case parsePartial left of None \<Rightarrow> None
      | Some leftResult \<Rightarrow>
     (case parsePartial right of None \<Rightarrow> None
      | Some rightResult \<Rightarrow>
          Some
           ((if \<not> isWildcard (majorStr leftResult)
             then [comparator rangeGreaterThanEqual (version leftResult)] else [])
            @ (if \<not> isWildcard (majorStr rightResult)
               then
                 (let operand0 = version rightResult;
                      (operator0, operand0) =
                        (if isWildcard (minorStr rightResult) then (rangeLessThan, incrementMajor operand0)
                         else if isWildcard (patchStr rightResult) then (rangeLessThan, incrementMinor operand0)
                         else (rangeLessThanEqual, operand0))
                  in [comparator operator0 operand0])
               else []))))"

definition comparator_results :: "string \<Rightarrow> partialVersion \<Rightarrow> versionComparator list panics" where
  "comparator_results op result =
     (let v = version result; anyMinor = isWildcard (minorStr result); anyPatch = isWildcard (patchStr result) in
      if \<not> isWildcard (majorStr result)
      then
        (if op = ''~''
         then Some [comparator rangeGreaterThanEqual v,
                    comparator rangeLessThan (if anyMinor then incrementMajor v else incrementMinor v)]
         else if op = ''^''
         then Some [comparator rangeGreaterThanEqual v,
                    comparator rangeLessThan
                      (if major v > 0 \<or> anyMinor then incrementMajor v
                       else if minor v > 0 \<or> anyPatch then incrementMinor v
                       else incrementPatch v)]
         else if op = ''<'' \<or> op = ''>=''
         then Some [comparator op (if anyMinor \<or> anyPatch then v\<lparr>prerelease := [''0'']\<rparr> else v)]
         else if op = ''<='' \<or> op = ''>''
         then
           (let op' = (if op = rangeLessThanEqual then rangeLessThan else rangeGreaterThanEqual) in
            if anyMinor then Some [comparator op' ((incrementMajor v)\<lparr>prerelease := [''0'']\<rparr>)]
            else if anyPatch then Some [comparator op' ((incrementMinor v)\<lparr>prerelease := [''0'']\<rparr>)]
            else Some [comparator op v])
         else if op = ''='' \<or> op = ''''
         then
           (if anyMinor \<or> anyPatch
            then Some [comparator rangeGreaterThanEqual (v\<lparr>prerelease := [''0'']\<rparr>),
                       comparator rangeLessThan
                         ((if anyMinor then incrementMajor v else incrementMinor v)\<lparr>prerelease := [''0'']\<rparr>)]
            else Some [comparator rangeEqual v])
         else None)
      else if op = rangeLessThan \<or> op = rangeGreaterThan then Some [comparator rangeLessThan versionZero]
      else Some [])"

definition parseComparator :: "string \<Rightarrow> string \<Rightarrow> versionComparator list option panics" where
  "parseComparator op s =
     (case parsePartial s of
        None \<Rightarrow> Some None
      | Some result \<Rightarrow> map_option Some (comparator_results op result))"

section \<open>The parser\<close>

text \<open>The comparators of one range: those of the fields between blanks, one after the other.\<close>

fun parse_simples :: "string list \<Rightarrow> versionComparator list option panics" where
  "parse_simples [] = Some (Some [])"
| "parse_simples (simple # rest) =
     (case FindStringSubmatch rangeRegExp (TrimSpace simple) of
        None \<Rightarrow> Some None
      | Some match \<Rightarrow>
          (case parseComparator (match 1) (match 2) of
             None \<Rightarrow> None
           | Some None \<Rightarrow> Some None
           | Some (Some cs) \<Rightarrow>
               (case parse_simples rest of
                  None \<Rightarrow> None
                | Some None \<Rightarrow> Some None
                | Some (Some ds) \<Rightarrow> Some (Some (cs @ ds)))))"

definition parse_range :: "string \<Rightarrow> versionComparator list option panics" where
  "parse_range r =
     (case FindStringSubmatch hyphenRegExp r of
        Some match \<Rightarrow> Some (parseHyphen (match 1) (match 2))
      | None \<Rightarrow> parse_simples (split_white r))"

fun parse_ranges :: "string list \<Rightarrow> versionComparator list list option panics" where
  "parse_ranges [] = Some (Some [])"
| "parse_ranges (r # rs) =
     (let r = TrimSpace r in
      if r = [] then parse_ranges rs
      else
        (case parse_range r of
           None \<Rightarrow> None
         | Some None \<Rightarrow> Some None
         | Some (Some cs) \<Rightarrow>
             (case parse_ranges rs of
                None \<Rightarrow> None
              | Some None \<Rightarrow> Some None
              | Some (Some alts) \<Rightarrow> Some (Some (cs # alts)))))"

definition parseAlternatives :: "string \<Rightarrow> versionComparator list list option panics" where
  "parseAlternatives s = parse_ranges (split_or (TrimSpace s))"

definition TryParseVersionRange :: "string \<Rightarrow> (VersionRange \<times> bool) panics" where
  "TryParseVersionRange s =
     (case parseAlternatives s of
        None \<Rightarrow> None
      | Some None \<Rightarrow> Some (\<lparr>alternatives = []\<rparr>, False)
      | Some (Some alts) \<Rightarrow> Some (\<lparr>alternatives = alts\<rparr>, True))"

end
