(* ===== verification/SemverRangeCorrect.thy ===== *)
theory SemverRangeCorrect
  imports SemverRange
begin

text \<open>
  Version ranges are read and tested without a panic, their text is read back as a range that accepts the
  same versions, and carets and tildes accept what their names promise, as long as no number overflows.
\<close>

section \<open>Partial versions\<close>

definition xr :: "string \<Rightarrow> bool" where
  "xr u \<longleftrightarrow> (\<exists>b. u = [b] \<and> xr_char b) \<or> u \<noteq> [] \<and> digit_1_9 (hd u) \<and> list_all is_digit u"

lemma parses_xr: "parses xr_regexp u c c' \<longleftrightarrow> c' = c \<and> xr u"
proof -
  have "is_digit b" if "digit_1_9 b" for b using that by (simp add: is_digit_def digit_1_9_def)
  then have "(\<exists>b v. u = [b] @ v \<and> digit_1_9 b \<and> list_all is_digit v) \<longleftrightarrow> u \<noteq> [] \<and> digit_1_9 (hd u) \<and> list_all is_digit u"
    by (cases u) auto
  moreover have "parses xr_regexp u c c' \<longleftrightarrow>
      c' = c \<and> ((\<exists>b. u = [b] \<and> xr_char b) \<or> (\<exists>b v. u = [b] @ v \<and> digit_1_9 b \<and> list_all is_digit v))"
    unfolding xr_regexp_def parses_simps parses_digits by blast
  ultimately show ?thesis by (simp add: xr_def)
qed

interpretation partials: dotted_numbers xr_regexp xr
proof
  show "parses xr_regexp u c c' \<longleftrightarrow> c' = c \<and> xr u" for u c c' by (rule parses_xr)
  show "xr u \<Longrightarrow> u \<noteq> []" for u by (auto simp: xr_def)
  have "\<not> separator b" if "xr_char b" for b using that by (auto simp: xr_char_def separator_def)
  then show "xr u \<Longrightarrow> list_all (\<lambda>b. \<not> separator b) u" for u
    using digit_plain by (auto simp: xr_def list_all_iff)
qed

lemma numeric_xr: "numeric u \<Longrightarrow> xr u"
  by (auto simp: numeric_def xr_def xr_char_def)

lemma decimal_not_wildcard: "\<not> isWildcard (decimal n)"
proof
  assume "isWildcard (decimal n)"
  then have "decimal n = ''*'' \<or> decimal n = ''x'' \<or> decimal n = ''X''" by (simp add: isWildcard_def)
  then show False using decimal_digits [of n] by (auto simp: is_digit_def)
qed

text \<open>An operand: a version as partial versions have it, with identifiers that need not be valid.\<close>

definition operand_ok :: "Version \<Rightarrow> bool" where
  "operand_ok v \<longleftrightarrow>
     (\<exists>q b. class_text parts_char q \<and> class_text parts_char b \<and> list_text q (prerelease v) \<and> list_text b (build v))"

lemma list_text_join: "list_text q ws \<Longrightarrow> str_join ws ''.'' = q \<and> (ws = [] \<longleftrightarrow> q = [])"
  by (auto simp: list_text_def)

lemma operand_plain: "operand_ok (plain_version a b c)"
  unfolding operand_ok_def plain_version_def by (rule exI [of _ "[]"], rule exI [of _ "[]"]) (simp add: list_text_def)

lemma operand_zero:
  assumes "operand_ok v"
  shows "operand_ok (v\<lparr>prerelease := [''0'']\<rparr>)"
proof -
  obtain b where b: "class_text parts_char b" "list_text b (build v)" using assms by (auto simp: operand_ok_def)
  have "class_text parts_char ''0''"
    by (rule class_text_char) (simp add: parts_char_def part_char_def is_digit_def)
  then show ?thesis
    using b unfolding operand_ok_def by (intro exI [of _ "''0''"] exI [of _ b]) (simp add: list_text_def)
qed

lemma operand_increment: "operand_ok (incrementMajor v)" "operand_ok (incrementMinor v)" "operand_ok (incrementPatch v)"
  by (simp_all add: incrementMajor_def incrementMinor_def incrementPatch_def operand_plain)

lemma operand_versionZero: "operand_ok versionZero"
  unfolding versionZero_def by (rule operand_zero [OF operand_plain])

definition full_partial :: "Version \<Rightarrow> partialVersion" where
  "full_partial v = \<lparr>version = v, majorStr = decimal (unat (major v)), minorStr = decimal (unat (minor v)),
     patchStr = decimal (unat (patch v))\<rparr>"

lemma operand_dotted:
  assumes "class_text parts_char q" "class_text parts_char b" "list_text q (prerelease v)" "list_text b (build v)"
  shows "VersionString v = dotted_text (decimal (unat (major v))) (decimal (unat (minor v))) (decimal (unat (patch v))) q b"
    and "dotted_parts xr (decimal (unat (major v))) (decimal (unat (minor v))) (decimal (unat (patch v))) q b"
  using list_text_join [OF assms(3)] list_text_join [OF assms(4)] assms(1,2) numeric_xr [OF numeric_decimal]
  by (auto simp: VersionString_def dotted_text_def after_def decimal_not_Nil dotted_parts_def)

lemma parsePartial_String:
  assumes "operand_ok v"
  shows "parsePartial (VersionString v) = Some (full_partial v)"
proof -
  obtain q b where qb: "class_text parts_char q" "class_text parts_char b" "list_text q (prerelease v)" "list_text b (build v)"
    using assms by (auto simp: operand_ok_def)
  note d = operand_dotted [OF qb]
  define c where "c = dotted_captures (decimal (unat (major v))) (decimal (unat (minor v))) (decimal (unat (patch v))) q b"
  have match: "FindStringSubmatch partialRegExp (VersionString v) = Some c"
    unfolding partialRegExp_def partials.submatch_dotted c_def using d by blast
  have numbers: "partial_numbers (decimal (unat (major v))) (decimal (unat (minor v))) (decimal (unat (patch v)))
      = Some (major v, minor v, patch v)"
    by (simp add: partial_numbers_def decimal_not_wildcard getUintComponent_decimal)
  have lists: "(if q \<noteq> [] then split_byte CHR ''.'' q else []) = prerelease v"
    "(if b \<noteq> [] then split_byte CHR ''.'' b else []) = build v"
    using qb(3,4) by (auto simp: list_text_def)
  show ?thesis
    unfolding parsePartial_def match option.case c_def dotted_captures_simps Let_def
    by (simp add: decimal_not_Nil numbers lists full_partial_def)
qed

lemma parsePartial_operand: "parsePartial s = Some p \<Longrightarrow> operand_ok (version p)"
proof -
  assume p: "parsePartial s = Some p"
  then obtain c where c: "FindStringSubmatch partialRegExp s = Some c" by (auto simp: parsePartial_def split: option.splits)
  then obtain m k p' q b where d: "dotted_parts xr m k p' q b" "c = dotted_captures m k p' q b"
    unfolding partialRegExp_def partials.submatch_dotted by blast
  have "prerelease (version p) = (if q \<noteq> [] then split_byte CHR ''.'' q else [])"
    "build (version p) = (if b \<noteq> [] then split_byte CHR ''.'' b else [])"
    using p unfolding parsePartial_def c option.case d(2) dotted_captures_simps Let_def
    by (auto split: option.splits prod.splits)
  then show ?thesis
    using d(1) unfolding operand_ok_def dotted_parts_def
    by (intro exI [of _ q] exI [of _ b]) (simp add: list_text_def)
qed

section \<open>Comparators\<close>

definition range_operator :: "string \<Rightarrow> bool" where
  "range_operator op \<longleftrightarrow> op = ''<'' \<or> op = ''<='' \<or> op = ''='' \<or> op = ''>='' \<or> op = ''>''"

definition comparator_ok :: "versionComparator \<Rightarrow> bool" where
  "comparator_ok c \<longleftrightarrow> range_operator (operator c) \<and> operand_ok (operand c)"

lemma comparator_simps [simp]: "operator (comparator op v) = op" "operand (comparator op v) = v"
  by (simp_all add: comparator_def)

lemma comparator_eta: "comparator (operator c) (operand c) = c"
  by (simp add: comparator_def)

lemma comparator_ok_comparator: "comparator_ok (comparator op v) \<longleftrightarrow> range_operator op \<and> operand_ok v"
  by (simp add: comparator_ok_def)

definition simple_operator :: "string \<Rightarrow> bool" where
  "simple_operator op \<longleftrightarrow> op = [] \<or> op = ''~'' \<or> op = ''^'' \<or> range_operator op"

lemma comparator_results_ok:
  assumes "simple_operator op" "operand_ok (version p)"
  shows "\<exists>cs. comparator_results op p = Some cs \<and> list_all comparator_ok cs"
proof -
  note ok = comparator_ok_comparator range_operator_def operator_defs operand_increment operand_zero operand_versionZero assms(2)
  from assms(1) consider "op = []" | "op = ''~''" | "op = ''^''" | "op = ''<''" | "op = ''<=''" | "op = ''=''" | "op = ''>=''" | "op = ''>''"
    by (auto simp: simple_operator_def range_operator_def)
  then show ?thesis by cases (simp_all add: comparator_results_def Let_def ok)
qed

lemma parseComparator_ok:
  assumes "simple_operator op"
  shows "\<exists>res. parseComparator op s = Some res \<and> pred_option (list_all comparator_ok) res"
  using comparator_results_ok [OF assms] parsePartial_operand
  by (fastforce simp: parseComparator_def split: option.splits)

lemma parseComparator_String:
  "range_operator op \<Longrightarrow> operand_ok v \<Longrightarrow> parseComparator op (VersionString v) = Some (Some [comparator op v])"
  by (auto simp: parseComparator_def parsePartial_String comparator_results_def Let_def full_partial_def
      decimal_not_wildcard range_operator_def operator_defs)

lemma parseHyphen_ok: "pred_option (list_all comparator_ok) (parseHyphen s t)"
  using parsePartial_operand
  by (auto simp: parseHyphen_def Let_def comparator_ok_comparator range_operator_def operator_defs operand_increment
      split: option.splits)

section \<open>The expression of a comparator\<close>

definition regexp_operator :: "string \<Rightarrow> bool" where
  "regexp_operator op \<longleftrightarrow> op = [] \<or> (\<exists>b. op = [b] \<and> operator_char b) \<or> op = ''<='' \<or> op = ''>=''"

lemma regexp_operator_simple: "regexp_operator op \<Longrightarrow> simple_operator op"
  by (auto simp: regexp_operator_def operator_char_def simple_operator_def range_operator_def)

lemma regexp_operator_chars: "regexp_operator op \<Longrightarrow> list_all operator_char op"
  by (auto simp: regexp_operator_def operator_char_def)

lemma parses_range:
  "parses rangeRegExp s (\<lambda>_. []) c \<longleftrightarrow>
     (\<exists>op w t. regexp_operator op \<and> list_all white_char w \<and> t \<noteq> [] \<and> class_text partial_char t
        \<and> s = op @ w @ t \<and> c = (\<lambda>_. [])(1 := op, 2 := t))"
proof -
  have none: "(\<lambda>_. [])(1 := []) = (\<lambda>_. [] :: string)" by auto
  have op: "parses (Opt (Grp 1 (Alt (Chars operator_char) (Alt (Lit ''<='') (Lit ''>=''))))) u (\<lambda>_. []) c
      \<longleftrightarrow> regexp_operator u \<and> c = (\<lambda>_. [])(1 := u)" for u c
    unfolding parses_simps regexp_operator_def using none by (cases "u = []") auto
  have tail: "parses (Cat (Star (Chars white_char)) (Grp 2 (Plus (insensitive partial_char)))) u c c'
      \<longleftrightarrow> (\<exists>w t. list_all white_char w \<and> t \<noteq> [] \<and> class_text partial_char t \<and> u = w @ t \<and> c' = c(2 := t))" for u c c'
    unfolding parses_Cat parses_Grp parses_Star_Chars parses_insensitive_Plus by blast
  show ?thesis unfolding rangeRegExp_def parses_Cat [of "Opt _"] op tail by blast
qed

lemma partial_not_operator:
  assumes "class_text partial_char t" "t \<noteq> []"
  shows "\<not> operator_char (hd t)" "\<not> white_char (hd t)"
  using class_text_bytes [OF assms(1)] assms(2)
  by (cases t; auto simp: partial_char_def parts_char_def part_char_def letter_char_def ascii_letter_def is_digit_def
      operator_char_def white_char_def)+

lemma submatch_range:
  assumes "regexp_operator op" "t \<noteq> []" "class_text partial_char t"
  shows "FindStringSubmatch rangeRegExp (op @ t) = Some ((\<lambda>_. [])(1 := op, 2 := t))"
proof (rule FindStringSubmatch_unique)
  show "parses rangeRegExp (op @ t) (\<lambda>_. []) ((\<lambda>_. [])(1 := op, 2 := t))"
    unfolding parses_range using assms by (intro exI [of _ op] exI [of _ "[]"] exI [of _ t]) simp
  show "\<forall>c'. parses rangeRegExp (op @ t) (\<lambda>_. []) c' \<longrightarrow> c' = (\<lambda>_. [])(1 := op, 2 := t)"
  proof (intro allI impI)
    fix c' assume "parses rangeRegExp (op @ t) (\<lambda>_. []) c'"
    then obtain op' w t' where r: "regexp_operator op'" "list_all white_char w" "t' \<noteq> []" "class_text partial_char t'"
      "op @ t = op' @ w @ t'" "c' = (\<lambda>_. [])(1 := op', 2 := t')"
      unfolding parses_range by blast
    have "\<not> operator_char (hd (w @ t'))"
      using partial_not_operator [OF r(4,3)] r(2) by (cases w) (auto simp: white_char_def operator_char_def)
    then have op: "op = op' \<and> t = w @ t'"
      using span_unique [OF r(5) regexp_operator_chars regexp_operator_chars] assms(1) r(1)
        partial_not_operator [OF assms(3,2)] by blast
    then have "[] @ t = w @ t'" by simp
    then have "[] = w \<and> t = t'"
      by (rule span_unique [where p = white_char])
        (use r(2) partial_not_operator [OF assms(3,2)] partial_not_operator [OF r(4,3)] in simp_all)
    then show "c' = (\<lambda>_. [])(1 := op, 2 := t)" using op r(6) by simp
  qed
qed

lemma submatch_range_operator:
  "FindStringSubmatch rangeRegExp s = Some c \<Longrightarrow> simple_operator (c 1)"
  by (drule FindStringSubmatch_sound) (auto simp: parses_range intro: regexp_operator_simple)

section \<open>No panic\<close>

lemma parse_simples_ok: "\<exists>res. parse_simples ss = Some res \<and> pred_option (list_all comparator_ok) res"
proof (induction ss)
  case (Cons s ss)
  show ?case
  proof (cases "FindStringSubmatch rangeRegExp (TrimSpace s)")
    case (Some c)
    obtain res where "parseComparator (c 1) (c 2) = Some res" "pred_option (list_all comparator_ok) res"
      using parseComparator_ok submatch_range_operator [OF Some] by blast
    then show ?thesis using Some Cons by (auto split: option.splits)
  qed simp
qed simp

lemma parse_range_ok: "\<exists>res. parse_range r = Some res \<and> pred_option (list_all comparator_ok) res"
  using parse_simples_ok parseHyphen_ok by (auto simp: parse_range_def split: option.splits)

lemma parse_ranges_ok: "\<exists>res. parse_ranges rs = Some res \<and> pred_option (list_all (list_all comparator_ok)) res"
proof (induction rs)
  case (Cons r rs)
  obtain res where "parse_range (TrimSpace r) = Some res" "pred_option (list_all comparator_ok) res"
    using parse_range_ok by blast
  then show ?case using Cons by (auto simp: Let_def split: option.splits)
qed simp

definition range_ok :: "VersionRange \<Rightarrow> bool" where
  "range_ok r \<longleftrightarrow> list_all (list_all comparator_ok) (alternatives r)"

lemma TryParseVersionRange_ok: "\<exists>r ok. TryParseVersionRange s = Some (r, ok) \<and> range_ok r"
  using parse_ranges_ok [of "split_or (TrimSpace s)"]
  by (auto simp: TryParseVersionRange_def parseAlternatives_def range_ok_def split: option.splits)

lemma testAlternative_ok: "list_all comparator_ok cs \<Longrightarrow> \<exists>b. testAlternative cs v = Some b"
proof (induction cs)
  case Nil
  show ?case by (metis testAlternative.simps(1))
next
  case (Cons c cs)
  then have "\<exists>b. testComparator c v = Some b"
    by (auto simp: comparator_ok_def range_operator_def testComparator_def operator_defs)
  then show ?case using Cons by auto
qed

lemma test_alternatives_ok: "list_all (list_all comparator_ok) alts \<Longrightarrow> \<exists>b. test_alternatives alts v = Some b"
proof (induction alts)
  case Nil
  show ?case by (metis test_alternatives.simps(1))
next
  case (Cons cs alts)
  then show ?case using testAlternative_ok [of cs v] by auto
qed

text \<open>C35: No text makes the parser panic, and no range it returns makes the test of a version panic.\<close>
theorem TryParseVersionRange_total:
  "\<exists>r ok. TryParseVersionRange s = Some (r, ok) \<and> (\<exists>accepts. RangeTest r = Some \<circ> accepts)"
proof -
  obtain r ok where r: "TryParseVersionRange s = Some (r, ok)" "range_ok r" using TryParseVersionRange_ok by blast
  have "\<exists>b. RangeTest r v = Some b" for v
    using test_alternatives_ok r(2) unfolding RangeTest_def testDisjunction_def range_ok_def by metis
  then have "RangeTest r v = (Some \<circ> (\<lambda>v. the (RangeTest r v))) v" for v by (metis comp_apply option.sel)
  then have "RangeTest r = Some \<circ> (\<lambda>v. the (RangeTest r v))" by blast
  then show ?thesis using r(1) by blast
qed

section \<open>Trimmed texts\<close>

definition ascii_char :: "char \<Rightarrow> bool" where
  "ascii_char c \<longleftrightarrow> byte c < 0x80"

lemma rune_pieces_piece: "class_piece ascii_char p \<Longrightarrow> rune_pieces (p @ s) = (fst (decode_rune p), p) # rune_pieces s"
  by (auto simp: class_piece_def ascii_char_def rune_pieces_ascii long_s_def kelvin_sign_def)
    (subst rune_pieces.simps, simp add: decode2_def decode3_def is_cont_def)+

lemma rune_pieces_concat:
  "list_all (class_piece ascii_char) ps \<Longrightarrow> rune_pieces (concat ps) = map (\<lambda>p. (fst (decode_rune p), p)) ps"
  by (induction ps) (simp_all add: rune_pieces_piece)

text \<open>A text with no white space at its ends, made of the runes that ranges are made of.\<close>

definition trimmed :: "string \<Rightarrow> bool" where
  "trimmed s \<longleftrightarrow>
     (\<exists>ps. ps \<noteq> [] \<and> list_all (class_piece ascii_char) ps \<and> s = concat ps
        \<and> \<not> is_space (fst (decode_rune (hd ps))) \<and> \<not> is_space (fst (decode_rune (last ps))))"

lemma space_piece: "class_piece ascii_char '' ''"
  by (simp add: class_piece_def ascii_char_def)

lemma trim_pieces:
  assumes "ps \<noteq> []" "\<not> is_space (fst (decode_rune (hd ps)))" "\<not> is_space (fst (decode_rune (last ps)))"
    and "list_all (class_piece ascii_char) ps" "list_all (\<lambda>c. c = CHR '' '') u" "list_all (\<lambda>c. c = CHR '' '') v"
  shows "TrimSpace (u @ concat ps @ v) = concat ps"
proof -
  have blanks: "rune_pieces (w @ t) = map (\<lambda>c. (32, [c])) w @ rune_pieces t" if "list_all (\<lambda>c. c = CHR '' '') w" for w t
    using that by (induction w) (auto simp: rune_pieces_ascii)
  have "rune_pieces (concat ps @ t) = map (\<lambda>p. (fst (decode_rune p), p)) ps @ rune_pieces t" for t
    using assms(4) by (induction ps) (simp_all add: rune_pieces_piece)
  then have all: "rune_pieces (u @ concat ps @ v) = map (\<lambda>c. (32, [c])) u @ map (\<lambda>p. (fst (decode_rune p), p)) ps @ map (\<lambda>c. (32, [c])) v"
    using blanks [OF assms(5)] blanks [OF assms(6), of "[]"] by simp
  have drop: "dropWhile (\<lambda>(r, _). is_space r) (map (\<lambda>c. (32, [c])) w @ t) = dropWhile (\<lambda>(r, _). is_space r) t"
    for w :: string and t
    by (induction w) (simp_all add: is_space_def)
  have keep: "dropWhile (\<lambda>(r, _). is_space r) (map (\<lambda>p. (fst (decode_rune p), p)) qs @ t) = map (\<lambda>p. (fst (decode_rune p), p)) qs @ t"
    if "qs \<noteq> []" "\<not> is_space (fst (decode_rune (hd qs)))" for qs t
    using that by (cases qs) auto
  define R where "R = map (\<lambda>p. (fst (decode_rune p), p)) ps"
  have "dropWhile (\<lambda>(r, _). is_space r) (rune_pieces (u @ concat ps @ v)) = R @ map (\<lambda>c. (32, [c])) v"
    unfolding all drop R_def by (rule keep [OF assms(1,2)])
  moreover have "rev (R @ map (\<lambda>c. (32, [c])) v) = map (\<lambda>c. (32, [c])) (rev v) @ rev R" by (simp add: rev_map)
  moreover have "dropWhile (\<lambda>(r, _). is_space r) (map (\<lambda>c. (32, [c])) (rev v) @ rev R) = rev R"
    unfolding drop R_def rev_map using keep [of "rev ps" "[]"] assms(1,3) by (simp add: hd_rev)
  ultimately have "TrimSpace (u @ concat ps @ v) = concat (map snd (rev (rev R)))" unfolding TrimSpace_def by simp
  then show ?thesis by (simp add: R_def o_def)
qed

lemma trimmed_TrimSpace:
  "trimmed s \<Longrightarrow> list_all (\<lambda>c. c = CHR '' '') u \<Longrightarrow> list_all (\<lambda>c. c = CHR '' '') v \<Longrightarrow> TrimSpace (u @ s @ v) = s"
  unfolding trimmed_def using trim_pieces by blast

lemma trimmed_id: "trimmed s \<Longrightarrow> TrimSpace s = s"
  using trimmed_TrimSpace [of s "[]" "[]"] by simp

lemma trimmed_append:
  assumes "trimmed s" "class_text ascii_char m" "trimmed t"
  shows "trimmed (s @ m @ t)"
proof -
  obtain ps qs rs where ps: "ps \<noteq> []" "list_all (class_piece ascii_char) ps" "s = concat ps" "\<not> is_space (fst (decode_rune (hd ps)))"
    and qs: "qs \<noteq> []" "list_all (class_piece ascii_char) qs" "t = concat qs" "\<not> is_space (fst (decode_rune (last qs)))"
    and rs: "list_all (class_piece ascii_char) rs" "m = concat rs"
    using assms unfolding trimmed_def class_text_def by blast
  show ?thesis
    unfolding trimmed_def using ps qs rs by (intro exI [of _ "ps @ rs @ qs"]) simp
qed

lemma trimmed_word:
  assumes "class_text word_char s" "s \<noteq> []"
  shows "trimmed s"
proof -
  obtain ps where ps: "list_all (class_piece word_char) ps" "s = concat ps" using assms(1) by (auto simp: class_text_def)
  have "ps \<noteq> []" using assms(2) ps(2) by auto
  have "fst (decode_rune long_s) = 0x17F" "fst (decode_rune kelvin_sign) = 0x212A"
    by (simp_all add: long_s_def kelvin_sign_def decode2_def decode3_def is_cont_def)
  then have folded: "\<not> is_space (fst (decode_rune long_s))" "\<not> is_space (fst (decode_rune kelvin_sign))"
    by (simp_all add: is_space_def)
  have space: "\<not> is_space (fst (decode_rune p))" if "class_piece word_char p" for p
    using that folded unfolding class_piece_def by (elim disjE exE conjE) (simp_all add: word_char_def)
  have "class_piece ascii_char p" if "class_piece word_char p" for p
    by (rule class_piece_mono [OF that]) (simp add: word_char_def ascii_char_def)
  then have "list_all (class_piece ascii_char) ps" using ps(1) by (auto simp: list_all_iff)
  then show ?thesis
    unfolding trimmed_def using ps \<open>ps \<noteq> []\<close> space by (intro exI [of _ ps]) (auto simp: list_all_iff)
qed

lemma trimmed_not_Nil: "trimmed s \<Longrightarrow> s \<noteq> []"
proof -
  assume "trimmed s"
  then obtain ps where ps: "ps \<noteq> []" "list_all (class_piece ascii_char) ps" "s = concat ps" unfolding trimmed_def by blast
  then have "hd ps \<noteq> []" using class_piece_not_Nil [of ascii_char "hd ps"] by (cases ps) auto
  then show "s \<noteq> []" using ps(1,3) by (cases ps) auto
qed

section \<open>The text of a range\<close>

lemma partial_chars: "digit_1_9 b \<or> is_digit b \<or> separator b \<or> parts_char b \<Longrightarrow> partial_char b"
  by (auto simp: partial_char_def parts_char_def part_char_def letter_char_def separator_def digit_1_9_def is_digit_def)

lemma partial_word: "partial_char b \<Longrightarrow> word_char b"
  by (auto simp: partial_char_def parts_char_def part_char_def letter_char_def ascii_letter_def is_digit_def word_char_def
      is_space_def)

lemma VersionString_class:
  assumes "operand_ok v"
  shows "VersionString v \<noteq> [] \<and> class_text partial_char (VersionString v)"
proof -
  obtain q b where qb: "class_text parts_char q" "class_text parts_char b" "list_text q (prerelease v)" "list_text b (build v)"
    using assms by (auto simp: operand_ok_def)
  have dec: "class_text partial_char (decimal n)" for n
    using decimal_digits [of n] by (intro class_text_all) (auto simp: list_all_iff intro: partial_chars)
  have after: "class_text partial_char (after c u)" if "separator c" "class_text partial_char u" for c u
    using class_text_append [OF class_text_char [OF partial_chars] that(2), of c] that(1) by (simp add: after_def)
  have parts: "class_text partial_char u" if "class_text parts_char u" for u
    using that by (rule class_text_mono) (simp add: partial_chars)
  show ?thesis
    unfolding operand_dotted(1) [OF qb] dotted_text_def
    using dec after parts qb(1,2) by (simp add: class_text_append separator_def decimal_not_Nil)
qed

text \<open>The text of a comparator has no blanks and no bars, and begins with an operator.\<close>

definition token :: "string \<Rightarrow> bool" where
  "token s \<longleftrightarrow> s \<noteq> [] \<and> class_text word_char s \<and> list_all (\<lambda>b. \<not> white_char b \<and> b \<noteq> CHR ''|'') s \<and> operator_char (hd s)"

lemma range_operator_regexp: "range_operator op \<Longrightarrow> regexp_operator op \<and> op \<noteq> [] \<and> list_all operator_char op"
  by (auto simp: range_operator_def regexp_operator_def operator_char_def)

lemma formatComparator_token:
  assumes "comparator_ok c"
  shows "token (formatComparator c)"
proof -
  note op = range_operator_regexp [of "operator c"]
  have ops: "operator c \<noteq> []" "list_all operator_char (operator c)" using op assms by (simp_all add: comparator_ok_def)
  have vs: "class_text partial_char (VersionString (operand c))"
    using VersionString_class assms by (simp add: comparator_ok_def)
  have "word_char b" if "operator_char b" for b
    using that by (auto simp: operator_char_def word_char_def is_space_def)
  then have "class_text word_char (operator c)" using ops(2) by (intro class_text_all) (auto simp: list_all_iff)
  moreover have "class_text word_char (VersionString (operand c))" using vs partial_word by (rule class_text_mono)
  ultimately have words: "class_text word_char (formatComparator c)" by (simp add: formatComparator_def class_text_append)
  have "list_all (\<lambda>b. partial_char b \<or> 0x80 \<le> byte b) (VersionString (operand c))" by (rule class_text_bytes [OF vs])
  then have "list_all (\<lambda>b. \<not> white_char b \<and> b \<noteq> CHR ''|'') (VersionString (operand c))"
    by (rule list.pred_mono_strong)
      (auto simp: partial_char_def parts_char_def part_char_def letter_char_def ascii_letter_def is_digit_def white_char_def)
  moreover have "list_all (\<lambda>b. \<not> white_char b \<and> b \<noteq> CHR ''|'') (operator c)"
    using ops(2) by (rule list.pred_mono_strong) (auto simp: operator_char_def white_char_def)
  ultimately show ?thesis
    using words ops by (cases "operator c") (simp_all add: token_def formatComparator_def)
qed

lemma parse_simples_format:
  "list_all comparator_ok cs \<Longrightarrow> parse_simples (map formatComparator cs) = Some (Some cs)"
proof (induction cs)
  case (Cons c cs)
  have c: "range_operator (operator c)" "operand_ok (operand c)" using Cons.prems by (simp_all add: comparator_ok_def)
  have "trimmed (formatComparator c)"
    using formatComparator_token [of c] Cons.prems by (simp add: token_def trimmed_word)
  then have "FindStringSubmatch rangeRegExp (TrimSpace (formatComparator c))
      = Some ((\<lambda>_. [])(1 := operator c, 2 := VersionString (operand c)))"
    using submatch_range [of "operator c" "VersionString (operand c)"] range_operator_regexp [OF c(1)] VersionString_class [OF c(2)]
    by (simp add: trimmed_id) (simp add: formatComparator_def)
  then show ?case
    using Cons parseComparator_String [OF c] by (simp add: comparator_eta)
qed simp

lemma split_white_word:
  "list_all (\<lambda>b. \<not> white_char b) w \<Longrightarrow> split_white (w @ CHR '' '' # s) = w # split_white (dropWhile white_char s)"
  by (induction w) (auto simp: white_char_def)

lemma split_white_last: "list_all (\<lambda>b. \<not> white_char b) w \<Longrightarrow> split_white w = [w]"
  by (induction w) auto

lemma split_white_join: "ws \<noteq> [] \<Longrightarrow> list_all token ws \<Longrightarrow> split_white (str_join ws '' '') = ws"
proof (induction ws)
  case (Cons w ws)
  have w: "list_all (\<lambda>b. \<not> white_char b) w" using Cons.prems by (auto simp: token_def list_all_iff)
  show ?case
  proof (cases ws)
    case Nil
    then show ?thesis using w by (simp add: split_white_last)
  next
    case (Cons v us)
    obtain b t where v: "v = b # t" "\<not> white_char b" using Cons.prems Cons by (cases v) (auto simp: token_def)
    have "str_join ws '' '' = b # (t @ (if us = [] then [] else CHR '' '' # str_join us '' ''))"
      using Cons v by (cases us) simp_all
    then have "dropWhile white_char (str_join ws '' '') = str_join ws '' ''" using v(2) by simp
    then show ?thesis
      using Cons.IH Cons.prems Cons split_white_word [OF w, of "str_join ws '' ''"] by (simp add: str_join_Cons)
  qed
qed simp

text \<open>The text of an alternative.\<close>

definition alternative_ok :: "versionComparator list \<Rightarrow> bool" where
  "alternative_ok cs \<longleftrightarrow> cs \<noteq> [] \<and> list_all comparator_ok cs"

lemma join_tokens:
  "ws \<noteq> [] \<Longrightarrow> list_all token ws \<Longrightarrow>
     trimmed (str_join ws '' '') \<and> list_all (\<lambda>b. b \<noteq> CHR ''|'') (str_join ws '' '') \<and> operator_char (hd (str_join ws '' ''))"
proof (induction ws)
  case (Cons w ws)
  have w: "trimmed w" "list_all (\<lambda>b. b \<noteq> CHR ''|'') w" "operator_char (hd w)" "w \<noteq> []"
    using Cons.prems trimmed_word by (auto simp: token_def list_all_iff)
  show ?case
  proof (cases "ws = []")
    case False
    have "class_text ascii_char '' ''" by (rule class_text_char) (simp add: ascii_char_def)
    then have "trimmed (w @ '' '' @ str_join ws '' '')" using Cons False by (intro trimmed_append [OF w(1)]) simp_all
    then show ?thesis
      using w(2-4) Cons False by (simp add: str_join_Cons)
  qed (use w in simp)
qed simp

lemma alternative_text:
  assumes "alternative_ok cs"
  shows "trimmed (formatAlternative cs)" "list_all (\<lambda>b. b \<noteq> CHR ''|'') (formatAlternative cs)"
    "operator_char (hd (formatAlternative cs))"
  using join_tokens [of "map formatComparator cs"] assms formatComparator_token
  by (simp_all add: alternative_ok_def formatAlternative_def list_all_iff)

lemma no_hyphen:
  assumes "s \<noteq> []" "operator_char (hd s)"
  shows "FindStringSubmatch hyphenRegExp s = None"
proof (rule ccontr)
  assume "FindStringSubmatch hyphenRegExp s \<noteq> None"
  then obtain c where "parses hyphenRegExp s (\<lambda>_. []) c" using FindStringSubmatch_sound by blast
  then obtain w t u where "s = w @ t @ u" "list_all white_char w" "t \<noteq> []" "class_text partial_char t"
    unfolding hyphenRegExp_def parses_Cat parses_Grp parses_Star_Chars parses_insensitive_Plus by blast
  then show False
    using assms partial_not_operator [of t] by (cases w) (auto simp: white_char_def operator_char_def)
qed

lemma parse_range_format: "alternative_ok cs \<Longrightarrow> parse_range (formatAlternative cs) = Some (Some cs)"
proof -
  assume cs: "alternative_ok cs"
  have "split_white (formatAlternative cs) = map formatComparator cs"
    unfolding formatAlternative_def
    using cs formatComparator_token by (intro split_white_join) (auto simp: alternative_ok_def list_all_iff)
  then show ?thesis
    using cs no_hyphen [OF trimmed_not_Nil, OF alternative_text(1,3)] parse_simples_format
    by (simp add: parse_range_def alternative_ok_def)
qed

section \<open>Reading the text back\<close>

lemma split_or_step: "split_or (c # s) =
    (if c = CHR ''|'' \<and> s \<noteq> [] \<and> hd s = CHR ''|'' then [] # split_or (tl s)
     else (case split_or s of [] \<Rightarrow> [[c]] | w # ws \<Rightarrow> (c # w) # ws))"
  by (simp add: split_or.simps [of "c # s"])

lemma split_or_bar: "list_all (\<lambda>b. b \<noteq> CHR ''|'') w \<Longrightarrow> split_or (w @ ''||'' @ s) = w # split_or s"
  by (induction w) (simp_all add: split_or_step)

lemma split_or_last: "list_all (\<lambda>b. b \<noteq> CHR ''|'') w \<Longrightarrow> split_or w = [w]"
  by (induction w) (simp_all add: split_or.simps [of "[]"] split_or_step)

lemma parse_ranges_format:
  assumes "as \<noteq> []" "list_all alternative_ok as" "list_all (\<lambda>c. c = CHR '' '') u"
  shows "parse_ranges (split_or (u @ str_join (map formatAlternative as) '' || '')) = Some (Some as)"
  using assms
proof (induction as arbitrary: u)
  case (Cons a as)
  define w where "w = formatAlternative a"
  have a: "alternative_ok a" using Cons.prems(2) by simp
  have w: "trimmed w" "list_all (\<lambda>b. b \<noteq> CHR ''|'') w" "parse_range w = Some (Some a)" "w \<noteq> []"
    unfolding w_def
    by (rule alternative_text [OF a] parse_range_format [OF a] trimmed_not_Nil [OF alternative_text(1) [OF a]])+
  have bars: "list_all (\<lambda>b. b \<noteq> CHR ''|'') u" using Cons.prems(3) by (rule list.pred_mono_strong) simp
  show ?case
  proof (cases "as = []")
    case True
    then show ?thesis
      using w bars split_or_last [of "u @ w"] trimmed_TrimSpace [OF w(1) Cons.prems(3), of "[]"] by (simp add: w_def)
  next
    case False
    have "split_or ((u @ w @ '' '') @ ''||'' @ '' '' @ str_join (map formatAlternative as) '' || '')
        = (u @ w @ '' '') # split_or ('' '' @ str_join (map formatAlternative as) '' || '')"
      by (rule split_or_bar) (use w(2) bars in simp)
    moreover have "parse_ranges (split_or ('' '' @ str_join (map formatAlternative as) '' || '')) = Some (Some as)"
      using Cons.IH [OF False, of "'' ''"] Cons.prems(2) by simp
    moreover have "TrimSpace (u @ w @ '' '') = w" by (rule trimmed_TrimSpace [OF w(1) Cons.prems(3)]) simp
    ultimately show ?thesis using w False by (simp add: str_join_Cons w_def [symmetric])
  qed
qed simp

lemma join_alternatives:
  assumes "as \<noteq> []" "list_all alternative_ok as"
  shows "trimmed (str_join (map formatAlternative as) '' || '')"
  using assms
proof (induction as)
  case (Cons a as)
  have a: "trimmed (formatAlternative a)" using alternative_text(1) [of a] Cons.prems by simp
  show ?case
  proof (cases "as = []")
    case False
    have "class_text ascii_char '' || ''" by (rule class_text_all) (simp add: ascii_char_def)
    then have "trimmed (formatAlternative a @ '' || '' @ str_join (map formatAlternative as) '' || '')"
      using Cons False by (intro trimmed_append [OF a]) simp_all
    then show ?thesis using False by (simp add: str_join_Cons)
  qed (use a in simp)
qed simp

lemma read_RangeString:
  assumes "alternatives r \<noteq> []" "list_all alternative_ok (alternatives r)"
  shows "TryParseVersionRange (RangeString r) = Some (r, True)"
proof -
  note t = join_alternatives [OF assms]
  have "RangeString r = str_join (map formatAlternative (alternatives r)) '' || ''"
    using trimmed_not_Nil [OF t] by (simp add: RangeString_def formatDisjunction_def Let_def)
  then have "parseAlternatives (RangeString r) = Some (Some (alternatives r))"
    using parse_ranges_format [OF assms, of "[]"] by (simp add: parseAlternatives_def trimmed_id [OF t])
  then show ?thesis by (simp add: TryParseVersionRange_def)
qed

text \<open>C36: The text of a range that has been read is read back as the same range, whatever the operators,
  wildcards and hyphens it was written with, unless one of its alternatives accepts everything.\<close>
theorem TryParseVersionRange_roundtrip:
  assumes "TryParseVersionRange s = Some (r, True)" "alternatives r \<noteq> []" "[] \<notin> set (alternatives r)"
  shows "TryParseVersionRange (RangeString r) = Some (r, True)"
proof -
  have "range_ok r" using TryParseVersionRange_ok [of s] assms(1) by auto
  then have "list_all alternative_ok (alternatives r)"
    using assms(3) by (auto simp: range_ok_def alternative_ok_def list_all_iff)
  then show ?thesis by (rule read_RangeString [OF assms(2)])
qed

section \<open>Carets and tildes\<close>

lemma read_operator:
  assumes "op = ''^'' \<or> op = ''~''" "operand_ok v"
  shows "TryParseVersionRange (op @ VersionString v)
     = map_option (\<lambda>cs. (\<lparr>alternatives = [cs]\<rparr>, True)) (comparator_results op (full_partial v))"
proof -
  define s where "s = op @ VersionString v"
  have op: "regexp_operator op" "op \<noteq> []" using assms(1) by (auto simp: regexp_operator_def operator_char_def)
  have vs: "VersionString v \<noteq> []" "class_text partial_char (VersionString v)" using VersionString_class [OF assms(2)] by simp_all
  have "class_text word_char op"
    using assms(1) by (intro class_text_all) (auto simp: word_char_def is_space_def)
  then have "class_text word_char s" unfolding s_def by (rule class_text_append) (rule class_text_mono [OF vs(2) partial_word])
  then have t: "trimmed s" using op by (simp add: trimmed_word s_def)
  have plain: "list_all (\<lambda>b. \<not> white_char b \<and> b \<noteq> CHR ''|'') s"
  proof -
    have "list_all (\<lambda>b. partial_char b \<or> 0x80 \<le> byte b) (VersionString v)" by (rule class_text_bytes [OF vs(2)])
    then have "list_all (\<lambda>b. \<not> white_char b \<and> b \<noteq> CHR ''|'') (VersionString v)"
      by (rule list.pred_mono_strong)
        (auto simp: partial_char_def parts_char_def part_char_def letter_char_def ascii_letter_def is_digit_def white_char_def)
    then show ?thesis using assms(1) by (auto simp: s_def white_char_def)
  qed
  have bars: "split_or s = [s]" by (rule split_or_last) (rule list.pred_mono_strong [OF plain], simp)
  have white: "split_white s = [s]" by (rule split_white_last) (rule list.pred_mono_strong [OF plain], simp)
  have "FindStringSubmatch hyphenRegExp s = None"
    by (rule no_hyphen) (use assms(1) in \<open>auto simp: s_def operator_char_def\<close>)
  moreover have "FindStringSubmatch rangeRegExp s = Some ((\<lambda>_. [])(1 := op, 2 := VersionString v))"
    unfolding s_def by (rule submatch_range [OF op(1) vs])
  ultimately have "parse_range s = map_option Some (comparator_results op (full_partial v))"
    by (simp add: parse_range_def white trimmed_id [OF t] parseComparator_def parsePartial_String [OF assms(2)]
        split: option.splits)
  then have "parseAlternatives s = map_option (\<lambda>cs. Some [cs]) (comparator_results op (full_partial v))"
    using trimmed_not_Nil [OF t]
    by (simp add: parseAlternatives_def trimmed_id [OF t] bars Let_def split: option.splits)
  then show ?thesis
    unfolding s_def [symmetric] by (simp add: TryParseVersionRange_def split: option.splits)
qed

text \<open>The test of a comparator by precedence.\<close>

lemma test_at_least: "testComparator (comparator rangeGreaterThanEqual v) (Some w) = Some (precedence v \<le> precedence w)"
  by (auto simp: testComparator_def operator_defs Compare_cmp cmp_Compare_def)

lemma test_below: "testComparator (comparator rangeLessThan v) (Some w) = Some (precedence w < precedence v)"
  by (auto simp: testComparator_def operator_defs Compare_cmp cmp_Compare_def)

lemma precedence_plain: "precedence (plain_version a b c) = (unat a, unat b, unat c, Release)"
  by (simp add: precedence_def plain_version_def)

lemma precedence_release: "prerelease w = [] \<Longrightarrow> precedence w = (unat (major w), unat (minor w), unat (patch w), Release)"
  by (simp add: precedence_def)

lemma unat_plus_one: "unat (x :: 32 word) < 2 ^ 32 - 1 \<Longrightarrow> unat (x + 1) = unat x + 1"
  by (simp add: unat_word_ariths)

lemma between_test:
  "RangeTest \<lparr>alternatives = [[comparator rangeGreaterThanEqual v, comparator rangeLessThan u]]\<rparr> (Some w)
   = Some (precedence v \<le> precedence w \<and> precedence w < precedence u)"
  by (simp add: RangeTest_def testDisjunction_def test_at_least test_below)

lemma decimal_wildcards:
  "isWildcard (majorStr (full_partial v)) = False" "isWildcard (minorStr (full_partial v)) = False"
  "isWildcard (patchStr (full_partial v)) = False" "version (full_partial v) = v"
  by (simp_all add: full_partial_def decimal_not_wildcard)

lemma caret_results:
  "comparator_results ''^'' (full_partial v) =
     Some [comparator rangeGreaterThanEqual v,
           comparator rangeLessThan (if major v > 0 then incrementMajor v else if minor v > 0 then incrementMinor v else incrementPatch v)]"
  by (simp add: comparator_results_def decimal_wildcards Let_def)

lemma tilde_results:
  "comparator_results ''~'' (full_partial v) =
     Some [comparator rangeGreaterThanEqual v, comparator rangeLessThan (incrementMinor v)]"
  by (simp add: comparator_results_def decimal_wildcards Let_def)

definition plain_precedence :: "nat \<Rightarrow> nat \<Rightarrow> nat \<Rightarrow> nat \<times> nat \<times> nat \<times> stage" where
  "plain_precedence x y z = (x, y, z, Release)"

lemma plain_precedence_less: "plain_precedence x y z < plain_precedence x' y' z' \<longleftrightarrow> x < x' \<or> x = x' \<and> (y < y' \<or> y = y' \<and> z < z')"
  by (auto simp: plain_precedence_def)

lemma plain_precedence_le: "plain_precedence x y z \<le> plain_precedence x' y' z' \<longleftrightarrow> x < x' \<or> x = x' \<and> (y < y' \<or> y = y' \<and> z \<le> z')"
  by (auto simp: plain_precedence_def)

lemma plain_precedences:
  "precedence (plain_version a b c) = plain_precedence (unat a) (unat b) (unat c)"
  "prerelease w = [] \<Longrightarrow> precedence w = plain_precedence (unat (major w)) (unat (minor w)) (unat (patch w))"
  by (simp_all add: precedence_def plain_version_def plain_precedence_def)

text \<open>C37: Below the largest numbers, a caret accepts the releases from its version on that keep the first number
  that is not zero, and a tilde those that keep major and minor.\<close>
theorem caret_tilde_releases:
  assumes "unat a < 2 ^ 32 - 1" "unat b < 2 ^ 32 - 1" "unat c < 2 ^ 32 - 1" "prerelease w = []"
  shows "(\<exists>r. TryParseVersionRange (''^'' @ VersionString (plain_version a b c)) = Some (r, True)
       \<and> RangeTest r (Some w) = Some
           (if a \<noteq> 0 then major w = a \<and> (unat b, unat c) \<le> (unat (minor w), unat (patch w))
            else if b \<noteq> 0 then major w = 0 \<and> minor w = b \<and> c \<le> patch w
            else major w = 0 \<and> minor w = 0 \<and> patch w = c))
    \<and> (\<exists>r. TryParseVersionRange (''~'' @ VersionString (plain_version a b c)) = Some (r, True)
       \<and> RangeTest r (Some w) = Some (major w = a \<and> minor w = b \<and> c \<le> patch w))"
proof -
  define v where "v = plain_version a b c"
  have fields: "major v = a" "minor v = b" "patch v = c" by (simp_all add: v_def plain_version_def)
  have ok: "operand_ok v" unfolding v_def by (rule operand_plain)
  note successor = unat_plus_one [OF assms(1)] unat_plus_one [OF assms(2)] unat_plus_one [OF assms(3)]
  note order = plain_precedences(1) plain_precedences(2) [OF assms(4)] plain_precedence_less plain_precedence_le
    incrementMajor_def incrementMinor_def incrementPatch_def fields [unfolded v_def] successor word_le_nat_alt word_unat_eq_iff
    word_neq_0_conv [symmetric]
  show ?thesis
  proof (intro conjI)
    define u where "u = (if a > 0 then incrementMajor v else if b > 0 then incrementMinor v else incrementPatch v)"
    define accepts where "accepts \<longleftrightarrow>
           (if a \<noteq> 0 then major w = a \<and> (unat b, unat c) \<le> (unat (minor w), unat (patch w))
            else if b \<noteq> 0 then major w = 0 \<and> minor w = b \<and> c \<le> patch w
            else major w = 0 \<and> minor w = 0 \<and> patch w = c)"
    have "precedence v \<le> precedence w \<and> precedence w < precedence u \<longleftrightarrow>
           (if a \<noteq> 0 then major w = a \<and> (unat b, unat c) \<le> (unat (minor w), unat (patch w))
            else if b \<noteq> 0 then major w = 0 \<and> minor w = b \<and> c \<le> patch w
            else major w = 0 \<and> minor w = 0 \<and> patch w = c)"
      unfolding u_def v_def by (auto simp: order)
    then have accepts: "precedence v \<le> precedence w \<and> precedence w < precedence u \<longleftrightarrow> accepts" by (simp add: accepts_def)
    have "comparator_results ''^'' (full_partial v) = Some [comparator rangeGreaterThanEqual v, comparator rangeLessThan u]"
      by (simp add: caret_results fields u_def)
    then have "TryParseVersionRange (''^'' @ VersionString v)
        = Some (\<lparr>alternatives = [[comparator rangeGreaterThanEqual v, comparator rangeLessThan u]]\<rparr>, True)"
      using read_operator [OF _ ok, of "''^''"] by simp
    moreover have "RangeTest \<lparr>alternatives = [[comparator rangeGreaterThanEqual v, comparator rangeLessThan u]]\<rparr> (Some w) = Some accepts"
      by (simp only: between_test accepts)
    ultimately show "\<exists>r. TryParseVersionRange (''^'' @ VersionString (plain_version a b c)) = Some (r, True)
       \<and> RangeTest r (Some w) = Some
           (if a \<noteq> 0 then major w = a \<and> (unat b, unat c) \<le> (unat (minor w), unat (patch w))
            else if b \<noteq> 0 then major w = 0 \<and> minor w = b \<and> c \<le> patch w
            else major w = 0 \<and> minor w = 0 \<and> patch w = c)"
      unfolding v_def [symmetric] accepts_def [symmetric] by blast
  next
    have "precedence v \<le> precedence w \<and> precedence w < precedence (incrementMinor v)
        \<longleftrightarrow> major w = a \<and> minor w = b \<and> c \<le> patch w"
      unfolding v_def by (auto simp: order)
    then show "\<exists>r. TryParseVersionRange (''~'' @ VersionString (plain_version a b c)) = Some (r, True)
       \<and> RangeTest r (Some w) = Some (major w = a \<and> minor w = b \<and> c \<le> patch w)"
      unfolding v_def [symmetric] using read_operator [OF _ ok, of "''~''"]
      by (simp add: tilde_results between_test)
  qed
qed

lemma caret_tilde_releases_witness:
  "(\<exists>r. TryParseVersionRange (''^'' @ VersionString (plain_version 1 2 3)) = Some (r, True)
       \<and> RangeTest r (Some (plain_version 1 9 0)) = Some
           (if (1 :: 32 word) \<noteq> 0 then major (plain_version 1 9 0) = 1
              \<and> (unat (2 :: 32 word), unat (3 :: 32 word)) \<le> (unat (minor (plain_version 1 9 0)), unat (patch (plain_version 1 9 0)))
            else if (2 :: 32 word) \<noteq> 0 then major (plain_version 1 9 0) = 0 \<and> minor (plain_version 1 9 0) = 2 \<and> 3 \<le> patch (plain_version 1 9 0)
            else major (plain_version 1 9 0) = 0 \<and> minor (plain_version 1 9 0) = 0 \<and> patch (plain_version 1 9 0) = 3))
    \<and> (\<exists>r. TryParseVersionRange (''~'' @ VersionString (plain_version 1 2 3)) = Some (r, True)
       \<and> RangeTest r (Some (plain_version 1 9 0)) = Some (major (plain_version 1 9 0) = 1 \<and> minor (plain_version 1 9 0) = 2 \<and> 3 \<le> patch (plain_version 1 9 0)))"
  by (rule caret_tilde_releases [of 1 2 3 "plain_version 1 9 0"]) (simp_all add: plain_version_def)

lemma digit_texts:
  "(char_of (48::nat) :: char) = CHR ''0''" "(char_of (49::nat) :: char) = CHR ''1''" "(char_of (50::nat) :: char) = CHR ''2''"
  "(char_of (52::nat) :: char) = CHR ''4''" "(char_of (53::nat) :: char) = CHR ''5''" "(char_of (54::nat) :: char) = CHR ''6''"
  "(char_of (55::nat) :: char) = CHR ''7''" "(char_of (57::nat) :: char) = CHR ''9''"
  by code_simp+

lemma no_hyphen_white:
  assumes "list_all (\<lambda>b. \<not> white_char b) s"
  shows "FindStringSubmatch hyphenRegExp s = None"
proof (rule ccontr)
  assume "FindStringSubmatch hyphenRegExp s \<noteq> None"
  then obtain c where "parses hyphenRegExp s (\<lambda>_. []) c" using FindStringSubmatch_sound by blast
  then obtain w t b u where "s = w @ t @ [b] @ u" "white_char b"
    unfolding hyphenRegExp_def Plus_def [of "Chars _"] parses_Cat parses_Grp parses_Chars by auto
  then show False using assms by simp
qed

text \<open>A caret on the largest major number accepts nothing: the upper bound wraps around to 0.0.0.\<close>
theorem caret_overflow:
  "\<exists>r. TryParseVersionRange ''^4294967295.1.0'' = Some (r, True) \<and> RangeString r = ''>=4294967295.1.0 <0.0.0''
     \<and> RangeTest r (Some w) = Some False"
proof -
  define v where "v = plain_version 4294967295 1 0"
  have wraps: "(4294967295 :: 32 word) + 1 = 0" by simp
  have "unat (4294967295 :: 32 word) = 4294967295" by simp
  moreover have "decimal 4294967295 = ''4294967295''" "decimal 1 = ''1''" "decimal 0 = ''0''"
    by (simp_all add: decimal.simps digit_texts)
  ultimately have strings: "VersionString v = ''4294967295.1.0''" "VersionString (incrementMajor v) = ''0.0.0''"
    by (simp_all add: VersionString_def v_def plain_version_def incrementMajor_def)
  have results: "comparator_results ''^'' (full_partial v)
      = Some [comparator rangeGreaterThanEqual v, comparator rangeLessThan (incrementMajor v)]"
    by (simp add: caret_results) (simp add: v_def plain_version_def)
  define r where "r = \<lparr>alternatives = [[comparator rangeGreaterThanEqual v, comparator rangeLessThan (incrementMajor v)]]\<rparr>"
  have "TryParseVersionRange (''^'' @ VersionString v) = Some (r, True)"
    using read_operator [of "''^''" v, OF _ operand_plain [of 4294967295 1 0, folded v_def]] by (simp add: results r_def)
  then have "TryParseVersionRange ''^4294967295.1.0'' = Some (r, True)" by (simp add: strings)
  moreover have "RangeString r = ''>=4294967295.1.0 <0.0.0''"
    by (simp add: r_def RangeString_def formatDisjunction_def formatAlternative_def formatComparator_def strings operator_defs)
  moreover have "RangeTest r (Some w) = Some (precedence v \<le> precedence w \<and> precedence w < precedence (incrementMajor v))"
    unfolding r_def by (rule between_test)
  moreover have "precedence (incrementMajor v) \<le> precedence v"
    by (simp add: v_def incrementMajor_def precedence_plain) (simp add: plain_version_def precedence_plain [unfolded plain_version_def])
  ultimately show ?thesis by (intro exI [of _ r]) auto
qed

text \<open>A range with the alternative \<open>*\<close>.\<close>

definition any_or_one :: VersionRange where
  "any_or_one = \<lparr>alternatives = [[], [comparator rangeEqual (plain_version 1 0 0)]]\<rparr>"

text \<open>The text of a range with an alternative that accepts everything drops it: the range of \<open>* || 1.0.0\<close>
  accepts every version, its text is read back as the range that accepts 1.0.0 only.\<close>
theorem star_alternative_lost:
  "TryParseVersionRange ''* || 1.0.0'' = Some (any_or_one, True) \<and> RangeTest any_or_one w = Some True
   \<and> RangeString any_or_one = '' || =1.0.0''
   \<and> (\<exists>r. TryParseVersionRange '' || =1.0.0'' = Some (r, True) \<and> RangeTest r (Some (plain_version 2 0 0)) = Some False)"
proof -
  define c where "c = comparator rangeEqual (plain_version 1 0 0)"
  have "decimal 1 = ''1''" "decimal 0 = ''0''" using digit_texts by (simp_all add: decimal.simps)
  then have one: "VersionString (plain_version 1 0 0) = ''1.0.0''" by (simp add: VersionString_def plain_version_def)
  then have text_c: "formatAlternative [c] = ''=1.0.0''"
    by (simp add: formatAlternative_def formatComparator_def c_def operator_defs)
  have ok: "alternative_ok [c]"
    by (simp add: alternative_ok_def c_def comparator_ok_comparator range_operator_def operator_defs operand_plain)
  have t: "trimmed ''*''" "trimmed ''1.0.0''" "trimmed ''=1.0.0''" "trimmed ''|| =1.0.0''" "trimmed ''* || 1.0.0''"
  proof -
    show plain: "trimmed ''*''" "trimmed ''1.0.0''" "trimmed ''=1.0.0''"
      by (intro trimmed_word class_text_all; simp add: word_char_def is_space_def)+
    have bars: "trimmed ''||''" by (intro trimmed_word class_text_all) (simp_all add: word_char_def is_space_def)
    have blank: "class_text ascii_char '' ''" "class_text ascii_char '' || ''"
      by (intro class_text_all; simp add: ascii_char_def)+
    show "trimmed ''|| =1.0.0''" using trimmed_append [OF bars blank(1) plain(3)] by simp
    show "trimmed ''* || 1.0.0''" using trimmed_append [OF plain(1) blank(2) plain(2)] by simp
  qed
  have trim: "TrimSpace '' || =1.0.0'' = ''|| =1.0.0''" "TrimSpace '' =1.0.0'' = ''=1.0.0''" "TrimSpace ''* '' = ''*''"
    "TrimSpace '' 1.0.0'' = ''1.0.0''"
    using trimmed_TrimSpace [OF t(4), of "'' ''" "[]"] trimmed_TrimSpace [OF t(3), of "'' ''" "[]"]
      trimmed_TrimSpace [OF t(1), of "[]" "'' ''"] trimmed_TrimSpace [OF t(2), of "'' ''" "[]"] by simp_all
  have split: "split_or ''|| =1.0.0'' = [[], '' =1.0.0'']" "split_or ''* || 1.0.0'' = [''* '', '' 1.0.0'']"
    by (simp_all add: split_or_step split_or.simps [of "[]"])
  have returned: "TryParseVersionRange '' || =1.0.0'' = Some (\<lparr>alternatives = [[c]]\<rparr>, True)"
    using parse_range_format [OF ok]
    by (simp add: TryParseVersionRange_def parseAlternatives_def trim split text_c TrimSpace_def [of "[]"])
  have partial_star: "parsePartial ''*'' = Some \<lparr>version = plain_version 0 0 0, majorStr = ''*'', minorStr = ''*'', patchStr = ''*''\<rparr>"
  proof -
    have "dotted_parts xr ''*'' [] [] [] []" "''*'' = dotted_text ''*'' [] [] [] []"
      by (simp_all add: dotted_parts_def xr_def xr_char_def dotted_text_def after_def)
    then have "FindStringSubmatch partialRegExp ''*'' = Some (dotted_captures ''*'' [] [] [] [])"
      unfolding partialRegExp_def partials.submatch_dotted by blast
    then show ?thesis by (simp add: parsePartial_def partial_numbers_def isWildcard_def plain_version_def Let_def)
  qed
  have partial_class: "class_text partial_char ''*''" "class_text partial_char ''1.0.0''"
    by (intro class_text_all; simp add: partial_char_def parts_char_def part_char_def is_digit_def)+
  have star: "parse_range ''*'' = Some (Some [])"
    using submatch_range [of "[]" "''*''"] partial_class no_hyphen_white [of "''*''"]
    by (simp add: parse_range_def white_char_def trimmed_id [OF t(1)] regexp_operator_def parseComparator_def partial_star
        comparator_results_def isWildcard_def Let_def operator_defs)
  have single: "parse_range ''1.0.0'' = Some (Some [c])"
    using submatch_range [of "[]" "''1.0.0''"] partial_class no_hyphen_white [of "''1.0.0''"]
      parsePartial_String [OF operand_plain, of 1 0 0]
    by (simp add: parse_range_def white_char_def trimmed_id [OF t(2)] regexp_operator_def parseComparator_def one
        comparator_results_def decimal_wildcards Let_def c_def)
  have there: "TryParseVersionRange ''* || 1.0.0'' = Some (any_or_one, True)"
    by (simp add: TryParseVersionRange_def parseAlternatives_def trimmed_id [OF t(5)] split trim star single any_or_one_def c_def)
  have "RangeString any_or_one = '' || =1.0.0''"
    using text_c by (simp add: RangeString_def formatDisjunction_def any_or_one_def c_def) (simp add: formatAlternative_def)
  moreover have "RangeTest any_or_one w = Some True"
    by (simp add: any_or_one_def RangeTest_def testDisjunction_def)
  moreover have "RangeTest \<lparr>alternatives = [[c]]\<rparr> (Some (plain_version 2 0 0)) = Some False"
    by (simp add: c_def RangeTest_def testDisjunction_def testComparator_def operator_defs Compare_cmp cmp_Compare_def
        precedence_plain)
  ultimately show ?thesis using returned there by blast
qed

lemma TryParseVersionRange_roundtrip_witness:
  "TryParseVersionRange (RangeString \<lparr>alternatives = [[comparator rangeGreaterThanEqual (plain_version 1 2 3),
       comparator rangeLessThan (incrementMajor (plain_version 1 2 3))]]\<rparr>)
   = Some (\<lparr>alternatives = [[comparator rangeGreaterThanEqual (plain_version 1 2 3),
       comparator rangeLessThan (incrementMajor (plain_version 1 2 3))]]\<rparr>, True)"
proof (rule TryParseVersionRange_roundtrip)
  have "major (plain_version 1 2 3) > 0" by (simp add: plain_version_def)
  then show "TryParseVersionRange (''^'' @ VersionString (plain_version 1 2 3))
      = Some (\<lparr>alternatives = [[comparator rangeGreaterThanEqual (plain_version 1 2 3),
       comparator rangeLessThan (incrementMajor (plain_version 1 2 3))]]\<rparr>, True)"
    using read_operator [of "''^''" "plain_version 1 2 3", OF _ operand_plain] by (simp add: caret_results)
qed simp_all

end
