(* ===== verification/EmitPlugins.thy ===== *)
theory EmitPlugins
  imports PathRewrite Bouncer ParisConfig PureAnnotate GraphPlugin
begin

text \<open>
  \<open>tsc/internal/tscp/defaults/defaults.go\<close> with the parts of \<open>tscp/hooks/hooks.go\<close> and
  \<open>compiler/emitHost.go\<close> that call it: which plugins a compilation gets from its tsconfig, and the
  process-wide cache that shares them. A raw tsconfig is an object, known by its address in
  \<open>objects\<close>, or another value. \<open>pluginCache\<close> is a map; the callers of \<open>EmitPlugins\<close> are threads
  \<open>'t\<close> that take one step at a time, each a call of \<open>Load\<close>, of \<open>buildPlugins\<close> or of \<open>LoadOrStore\<close>.
  The plugins of one run of \<open>buildPlugins\<close> are known by the number of that run, which stands for
  their addresses. What a run reads (environment, \<open>.env\<close> files and \<open>package.json\<close> files) may differ
  from run to run.
\<close>

datatype 'n EmitPlugin =
    PathRewriteOf PathRewrite.Options
  | BouncerOf Bouncer.Options
  | ParisOf "'n ParisConfig.Options"
  | PureOf
  | GraphOf GraphOptions

datatype 'n raw_config = RawObject nat | RawValue "'n json"

type_synonym 'n world = "'n outside \<times> (string \<Rightarrow> package_file)"

definition raw_json :: "(nat \<Rightarrow> 'n json) \<Rightarrow> 'n raw_config \<Rightarrow> 'n json" where
  "raw_json objects raw = (case raw of RawObject a \<Rightarrow> objects a | RawValue v \<Rightarrow> v)"

definition isComparable :: "'n raw_config \<Rightarrow> bool" where
  "isComparable raw = (case raw of RawValue JNull \<Rightarrow> False | RawValue (JMap _) \<Rightarrow> False | _ \<Rightarrow> True)"

text \<open>A slice has no hash: using it in a key of the cache panics.\<close>

definition hashable :: "'n raw_config \<Rightarrow> bool" where
  "hashable raw = (case raw of RawValue (JArr _) \<Rightarrow> False | _ \<Rightarrow> True)"

definition plugin_option :: "('o \<Rightarrow> 'p) \<Rightarrow> 'o option \<Rightarrow> 'p list" where
  "plugin_option create opt = (case opt of None \<Rightarrow> [] | Some o1 \<Rightarrow> [create o1])"

definition buildPlugins :: "'n world \<Rightarrow> 'n json \<Rightarrow> string \<Rightarrow> string \<Rightarrow> 'n EmitPlugin list" where
  "buildPlugins W rawConfig configDir configPath =
     plugin_option PathRewriteOf (PathRewrite.OptionsFromConfig rawConfig)
     @ plugin_option BouncerOf (Bouncer.OptionsFromConfig rawConfig)
     @ plugin_option ParisOf (ParisConfig.OptionsFromConfig (fst W) rawConfig configDir)
     @ (if PureEnabled rawConfig then [PureOf] else [])
     @ plugin_option GraphOf (GraphOptionsFromConfig (snd W) rawConfig configDir configPath)"

record 'n cacheKey =
  key_raw :: "'n raw_config"
  key_configDir :: string
  key_configPath :: string

record 'n built =
  run_number :: nat
  built_plugins :: "'n EmitPlugin list"

text \<open>A caller: before \<open>Load\<close>, before and after its own \<open>buildPlugins\<close>, returned, or panicked.\<close>

datatype 'n caller = Calling | Missed | Built "'n built" | Returned "'n built" | Panicked

record ('t, 'n) cache_state =
  pluginCache :: "'n cacheKey \<rightharpoonup> 'n built"
  runs :: nat
  callers :: "'t \<Rightarrow> 'n caller"

definition run_build :: "(nat \<Rightarrow> 'n json) \<Rightarrow> 'n world \<Rightarrow> 'n cacheKey \<Rightarrow> ('t, 'n) cache_state \<Rightarrow> 'n built" where
  "run_build objects W k s =
     \<lparr>run_number = runs s,
      built_plugins = buildPlugins W (raw_json objects (key_raw k)) (key_configDir k) (key_configPath k)\<rparr>"

definition LoadOrStore :: "'k \<Rightarrow> 'v \<Rightarrow> ('k \<rightharpoonup> 'v) \<Rightarrow> 'v \<times> ('k \<rightharpoonup> 'v)" where
  "LoadOrStore k v m = (case m k of Some w \<Rightarrow> (w, m) | None \<Rightarrow> (v, m(k \<mapsto> v)))"

text \<open>One step of a caller of \<open>EmitPlugins\<close> with the arguments \<open>k\<close>; \<open>W\<close> is what a build reads now.\<close>

definition EmitPlugins_step ::
  "(nat \<Rightarrow> 'n json) \<Rightarrow> 'n world \<Rightarrow> ('t \<Rightarrow> 'n cacheKey) \<Rightarrow> 't \<Rightarrow> ('t, 'n) cache_state \<Rightarrow> ('t, 'n) cache_state option"
where
  "EmitPlugins_step objects W args t s =
     (let k = args t;
          goto = (\<lambda>c. s\<lparr>callers := (callers s)(t := c)\<rparr>);
          build = (\<lambda>done. (goto (done (run_build objects W k s)))\<lparr>runs := Suc (runs s)\<rparr>) in
      case callers s t of
        Calling \<Rightarrow>
          Some (if isComparable (key_raw k)
                then if hashable (key_raw k)
                  then (case pluginCache s k of Some cached \<Rightarrow> goto (Returned cached) | None \<Rightarrow> goto Missed)
                  else goto Panicked
                else build Returned)
      | Missed \<Rightarrow> Some (build Built)
      | Built plugins \<Rightarrow>
          (let (actual, cache) = LoadOrStore k plugins (pluginCache s)
           in Some ((goto (Returned actual))\<lparr>pluginCache := cache\<rparr>))
      | Returned _ \<Rightarrow> None
      | Panicked \<Rightarrow> None)"

inductive cache_step ::
  "(nat \<Rightarrow> 'n json) \<Rightarrow> ('t \<Rightarrow> 'n cacheKey) \<Rightarrow> ('t, 'n) cache_state \<Rightarrow> ('t, 'n) cache_state \<Rightarrow> bool"
  for objects args where
  Step: "EmitPlugins_step objects W args t s = Some s' \<Longrightarrow> cache_step objects args s s'"

definition idle :: "('t, 'n) cache_state" where
  "idle = \<lparr>pluginCache = Map.empty, runs = 0, callers = (\<lambda>_. Calling)\<rparr>"

definition cache_reachable ::
  "(nat \<Rightarrow> 'n json) \<Rightarrow> ('t \<Rightarrow> 'n cacheKey) \<Rightarrow> ('t, 'n) cache_state \<Rightarrow> bool" where
  "cache_reachable objects args s \<longleftrightarrow> (cache_step objects args)\<^sup>*\<^sup>* idle s"

text \<open>\<open>hooks.PluginsFromHost\<close> and \<open>emitHost.TSCPEmitPlugins\<close>: a compiler host that provides plugins
  (\<open>None\<close> is a nil slice, or a host that is not a \<open>Provider\<close>) replaces those of the tsconfig. The
  key is what \<open>EmitPlugins\<close> is called with.\<close>

definition PluginsFromHost :: "(unit \<Rightarrow> 'p list option) option \<Rightarrow> 'p list option" where
  "PluginsFromHost provider = (case provider of Some plugins \<Rightarrow> plugins () | None \<Rightarrow> None)"

definition TSCPEmitPlugins ::
  "(unit \<Rightarrow> 'p list option) option \<Rightarrow> string option \<Rightarrow> string \<Rightarrow> 'n raw_config \<Rightarrow> 'p list + 'n cacheKey" where
  "TSCPEmitPlugins host ConfigFile cwd raw =
     (case PluginsFromHost host of
        Some plugins \<Rightarrow> Inl plugins
      | None \<Rightarrow>
          (let (configDir, configPath) =
             (case ConfigFile of
                Some fileName \<Rightarrow> (GetDirectoryPath fileName, fileName)
              | None \<Rightarrow> (cwd, []))
           in Inr \<lparr>key_raw = raw, key_configDir = configDir, key_configPath = configPath\<rparr>))"

section \<open>Sharing\<close>

inductive_cases cache_stepE: "cache_step objects args s s'"

lemma cache_step_cases [consumes 1, case_names Fresh Hit Miss Panic Build Store]:
  assumes "cache_step objects args s s'"
  obtains (Fresh) t W where "callers s t = Calling" "\<not> isComparable (key_raw (args t))"
      "s' = s\<lparr>callers := (callers s)(t := Returned (run_build objects W (args t) s)), runs := Suc (runs s)\<rparr>"
    | (Hit) t b where "callers s t = Calling" "isComparable (key_raw (args t))" "pluginCache s (args t) = Some b"
      "s' = s\<lparr>callers := (callers s)(t := Returned b)\<rparr>"
    | (Miss) t where "callers s t = Calling" "isComparable (key_raw (args t))"
      "s' = s\<lparr>callers := (callers s)(t := Missed)\<rparr>"
    | (Panic) t where "callers s t = Calling" "isComparable (key_raw (args t))"
      "s' = s\<lparr>callers := (callers s)(t := Panicked)\<rparr>"
    | (Build) t W where "callers s t = Missed"
      "s' = s\<lparr>callers := (callers s)(t := Built (run_build objects W (args t) s)), runs := Suc (runs s)\<rparr>"
    | (Store) t b b' cache where "callers s t = Built b" "LoadOrStore (args t) b (pluginCache s) = (b', cache)"
      "s' = s\<lparr>callers := (callers s)(t := Returned b'), pluginCache := cache\<rparr>"
  using assms
proof -
  obtain W t where Step: "EmitPlugins_step objects W args t s = Some s'" using assms by (rule cache_stepE)
  show ?thesis
  proof (cases "callers s t")
    case Calling
    with Step show ?thesis
      by (auto simp: EmitPlugins_step_def Let_def split: if_splits option.splits intro: Fresh Hit Miss Panic)
  next
    case Missed
    with Step show ?thesis by (auto simp: EmitPlugins_step_def Let_def intro: Build)
  next
    case (Built b)
    with Step show ?thesis
      by (auto simp: EmitPlugins_step_def Let_def split: prod.splits intro: Store)
  next
    case Returned
    with Step show ?thesis by (simp add: EmitPlugins_step_def Let_def)
  next
    case Panicked
    with Step show ?thesis by (simp add: EmitPlugins_step_def Let_def)
  qed
qed

text \<open>The plugins of a key are those that some run built for it.\<close>

definition built_for :: "(nat \<Rightarrow> 'n json) \<Rightarrow> 'n cacheKey \<Rightarrow> 'n built \<Rightarrow> bool" where
  "built_for objects k b \<longleftrightarrow>
     (\<exists>W. built_plugins b = buildPlugins W (raw_json objects (key_raw k)) (key_configDir k) (key_configPath k))"

text \<open>Where a run's plugins are first kept: in the cache, or with a caller that has not stored them.\<close>

datatype ('t, 'n) holder = Cached "'n cacheKey" | Caller 't

fun holds :: "('t \<Rightarrow> 'n cacheKey) \<Rightarrow> ('t, 'n) cache_state \<Rightarrow> ('t, 'n) holder \<Rightarrow> 'n built \<Rightarrow> bool" where
  "holds args s (Cached k) b \<longleftrightarrow> pluginCache s k = Some b"
| "holds args s (Caller t) b \<longleftrightarrow>
     callers s t = Built b \<or> callers s t = Returned b \<and> \<not> isComparable (key_raw (args t))"

definition cache_inv ::
  "(nat \<Rightarrow> 'n json) \<Rightarrow> ('t \<Rightarrow> 'n cacheKey) \<Rightarrow> ('t, 'n) cache_state \<Rightarrow> bool" where
  "cache_inv objects args s \<longleftrightarrow>
     (\<forall>p b. holds args s p b \<longrightarrow> run_number b < runs s
         \<and> built_for objects (case p of Cached k \<Rightarrow> k | Caller t \<Rightarrow> args t) b)
     \<and> (\<forall>p q b c. holds args s p b \<longrightarrow> holds args s q c \<longrightarrow> run_number b = run_number c \<longrightarrow> p = q)
     \<and> (\<forall>t. callers s t = Missed \<or> (\<exists>b. callers s t = Built b) \<longrightarrow> isComparable (key_raw (args t)))
     \<and> (\<forall>t b. callers s t = Returned b \<longrightarrow> isComparable (key_raw (args t)) \<longrightarrow> pluginCache s (args t) = Some b)"

lemma built_for_run: "built_for objects k (run_build objects W k s)"
  unfolding built_for_def by (rule exI [of _ W]) (simp add: run_build_def)

lemma run_number_run: "run_number (run_build objects W k s) = runs s"
  by (simp add: run_build_def)

lemma cache_inv_idle: "cache_inv objects args idle"
proof -
  have "\<not> holds args idle p b" for p b by (cases p) (simp_all add: idle_def)
  then show ?thesis by (auto simp: cache_inv_def idle_def)
qed

definition place_key :: "('t \<Rightarrow> 'n cacheKey) \<Rightarrow> ('t, 'n) holder \<Rightarrow> 'n cacheKey" where
  "place_key args p = (case p of Cached k \<Rightarrow> k | Caller t \<Rightarrow> args t)"

lemma cache_invI:
  assumes inv: "cache_inv objects args s"
    and old: "\<And>p b. holds args s' p b \<Longrightarrow> (holds args s (origin p) b \<and> place_key args (origin p) = place_key args p)
        \<or> (p = fresh \<and> b = run_build objects W (place_key args p) s \<and> runs s < runs s')"
    and inj: "\<And>p q b c. holds args s' p b \<Longrightarrow> holds args s' q c \<Longrightarrow> origin p = origin q \<Longrightarrow> p = q"
    and mono: "runs s \<le> runs s'"
    and comp: "\<And>t. callers s' t = Missed \<or> (\<exists>b. callers s' t = Built b) \<Longrightarrow> isComparable (key_raw (args t))"
    and ret: "\<And>t b. callers s' t = Returned b \<Longrightarrow> isComparable (key_raw (args t)) \<Longrightarrow> pluginCache s' (args t) = Some b"
  shows "cache_inv objects args s'"
  unfolding cache_inv_def
proof (intro conjI allI impI)
  have I: "run_number b < runs s" "built_for objects (place_key args p) b"
    "holds args s q c \<Longrightarrow> run_number b = run_number c \<Longrightarrow> p = q" if "holds args s p b" for p b q c
    using inv that by (simp_all add: cache_inv_def place_key_def)
  fix p b assume p: "holds args s' p b"
  show "run_number b < runs s'" using old [OF p] I(1) mono by (auto simp: run_number_run dest: order_less_le_trans)
  show "built_for objects (case p of Cached k \<Rightarrow> k | Caller t \<Rightarrow> args t) b"
    using old [OF p] I(2) [of "origin p" b] built_for_run [of objects "place_key args p" W s]
    unfolding place_key_def [symmetric] by metis
  fix q c assume q: "holds args s' q c" and eq: "run_number b = run_number c"
  from old [OF p] old [OF q] show "p = q"
  proof (elim disjE conjE)
    assume "holds args s (origin p) b" "holds args s (origin q) c"
    then show "p = q" using I(3) eq inj [OF p q] by blast
  qed (use I(1) [of "origin p" b] I(1) [of "origin q" c] eq in \<open>simp_all add: run_number_run\<close>)
qed (use comp ret in blast)+

lemma cache_inv_comparable:
  "cache_inv objects args s \<Longrightarrow> callers s t = Missed \<Longrightarrow> isComparable (key_raw (args t))"
  "cache_inv objects args s \<Longrightarrow> callers s t = Built b \<Longrightarrow> isComparable (key_raw (args t))"
  by (auto simp: cache_inv_def)

lemma cache_inv_cached:
  "cache_inv objects args s \<Longrightarrow> callers s t = Returned b \<Longrightarrow> isComparable (key_raw (args t))
     \<Longrightarrow> pluginCache s (args t) = Some b"
  by (auto simp: cache_inv_def)

lemmas cache_inv_facts = cache_inv_comparable cache_inv_cached

text \<open>A step of caller \<open>t\<close> that starts no run and leaves the cache alone.\<close>

lemma cache_inv_goto:
  assumes inv: "cache_inv objects args s"
    and c: "case c of Missed \<Rightarrow> isComparable (key_raw (args t)) | Panicked \<Rightarrow> True
      | Returned b \<Rightarrow> isComparable (key_raw (args t)) \<and> pluginCache s (args t) = Some b | _ \<Rightarrow> False"
  shows "cache_inv objects args (s\<lparr>callers := (callers s)(t := c)\<rparr>)"
proof (rule cache_invI [OF inv, where origin = id and fresh = "Caller t"])
  fix p b assume "holds args (s\<lparr>callers := (callers s)(t := c)\<rparr>) p b"
  then have "holds args s p b" using c by (cases p) (auto split: if_splits)
  then show "holds args s (id p) b \<and> place_key args (id p) = place_key args p
      \<or> (p = Caller t \<and> b = run_build objects undefined (place_key args p) s
         \<and> runs s < runs (s\<lparr>callers := (callers s)(t := c)\<rparr>))" by simp
qed (use inv c in \<open>auto split: if_splits intro: cache_inv_facts\<close>)

text \<open>A step that runs \<open>buildPlugins\<close>.\<close>

lemma cache_inv_build:
  assumes inv: "cache_inv objects args s" and b: "b = run_build objects W (args t) s"
    and c: "c = Built b \<and> isComparable (key_raw (args t)) \<or> c = Returned b \<and> \<not> isComparable (key_raw (args t))"
  shows "cache_inv objects args (s\<lparr>callers := (callers s)(t := c), runs := Suc (runs s)\<rparr>)"
proof (rule cache_invI [OF inv, where origin = id and fresh = "Caller t" and W = W])
  fix p b' assume "holds args (s\<lparr>callers := (callers s)(t := c), runs := Suc (runs s)\<rparr>) p b'"
  then show "holds args s (id p) b' \<and> place_key args (id p) = place_key args p
      \<or> (p = Caller t \<and> b' = run_build objects W (place_key args p) s
         \<and> runs s < runs (s\<lparr>callers := (callers s)(t := c), runs := Suc (runs s)\<rparr>))"
    using b c by (cases p) (auto simp: place_key_def split: if_splits)
qed (use inv c in \<open>auto split: if_splits intro: cache_inv_facts\<close>)

lemma cache_inv_store:
  assumes inv: "cache_inv objects args s" and b: "callers s t = Built b" and none: "pluginCache s (args t) = None"
  shows "cache_inv objects args (s\<lparr>callers := (callers s)(t := Returned b), pluginCache := (pluginCache s)(args t \<mapsto> b)\<rparr>)"
    (is "cache_inv objects args ?s")
proof -
  let ?origin = "\<lambda>p. if p = Cached (args t) then Caller t else p"
  have comp: "isComparable (key_raw (args t))" using inv b by (rule cache_inv_comparable)
  have not: "\<not> holds args ?s (Caller t) c" for c using comp by simp
  show ?thesis
  proof (rule cache_invI [OF inv, where origin = ?origin and fresh = "Caller t"])
    fix p b' assume "holds args ?s p b'"
    then have "holds args s (?origin p) b' \<and> place_key args (?origin p) = place_key args p"
      using b comp by (cases p) (auto simp: place_key_def split: if_splits)
    then show "holds args s (?origin p) b' \<and> place_key args (?origin p) = place_key args p
      \<or> (p = Caller t \<and> b' = run_build objects undefined (place_key args p) s \<and> runs s < runs ?s)" ..
  next
    fix p q b' c assume "holds args ?s p b'" "holds args ?s q c" "?origin p = ?origin q"
    then show "p = q" using not by (auto split: if_splits)
  next
    fix u c assume "callers ?s u = Returned c" "isComparable (key_raw (args u))"
    then show "pluginCache ?s (args u) = Some c"
      using cache_inv_cached [OF inv, of u c] none by (cases "u = t") auto
  qed (use inv in \<open>auto split: if_splits intro: cache_inv_facts\<close>)
qed

lemma cache_inv_step:
  assumes "cache_step objects args s s'" "cache_inv objects args s"
  shows "cache_inv objects args s'"
  using assms(1)
proof (cases rule: cache_step_cases)
  case (Store t b b' cache)
  have comp: "isComparable (key_raw (args t))" using assms(2) Store(1) by (rule cache_inv_comparable)
  show ?thesis
  proof (cases "pluginCache s (args t)")
    case None
    then show ?thesis using Store cache_inv_store [OF assms(2) Store(1)] by (auto simp: LoadOrStore_def)
  next
    case (Some w)
    then have "s' = s\<lparr>callers := (callers s)(t := Returned w)\<rparr>"
      using Store by (simp add: LoadOrStore_def)
    then show ?thesis using Some comp cache_inv_goto [OF assms(2)] by simp
  qed
next
  case (Fresh t W)
  then show ?thesis using cache_inv_build [OF assms(2) refl, where c = "Returned (run_build objects W (args t) s)"] by simp
next
  case (Build t W)
  then show ?thesis
    using cache_inv_build [OF assms(2) refl, where c = "Built (run_build objects W (args t) s)"] cache_inv_comparable(1) [OF assms(2)]
    by simp
qed (use assms(2) in \<open>auto intro!: cache_inv_goto\<close>)

lemma cache_inv_reachable: "cache_reachable objects args s \<Longrightarrow> cache_inv objects args s"
  unfolding cache_reachable_def by (induction rule: rtranclp_induct) (auto intro: cache_inv_idle cache_inv_step)

text \<open>C31: However the callers of \<open>EmitPlugins\<close> interleave, and whatever each build reads, two callers that have
  returned hold the plugins of the same build exactly when they are the same caller or were called
  with the same tsconfig object, directory and path of a comparable tsconfig; what a caller returns
  is what some build made of its own arguments. A race makes several builds but only one of them is
  ever used, so the diagnostics and facts a stateful plugin keeps are those of all files.\<close>
theorem EmitPlugins_shared:
  assumes "cache_reachable objects args s" "callers s t = Returned b" "callers s u = Returned c"
  shows "built_for objects (args t) b
    \<and> (run_number b = run_number c \<longleftrightarrow> t = u \<or> args t = args u \<and> isComparable (key_raw (args t)))
    \<and> (run_number b = run_number c \<longrightarrow> b = c)"
proof -
  have inv: "cache_inv objects args s" using assms(1) by (rule cache_inv_reachable)
  define place where "place v = (if isComparable (key_raw (args v)) then Cached (args v) else Caller v)" for v
  have holds: "holds args s (place v) d" if "callers s v = Returned d" for v d
    using cache_inv_cached [OF inv that] that by (simp add: place_def)
  have "built_for objects (place_key args (place t)) b"
    using inv holds [OF assms(2)] by (simp add: cache_inv_def place_key_def)
  then have "built_for objects (args t) b" by (simp add: place_def place_key_def split: if_splits)
  moreover have same: "run_number b = run_number c \<longrightarrow> place t = place u"
    using inv holds [OF assms(2)] holds [OF assms(3)] by (simp add: cache_inv_def)
  moreover have "place t = place u \<longleftrightarrow> t = u \<or> args t = args u \<and> isComparable (key_raw (args t))"
    by (auto simp: place_def)
  moreover have "place t = place u \<longrightarrow> b = c"
    using holds [OF assms(2)] holds [OF assms(3)] assms(2,3) by (auto simp: place_def split: if_splits)
  ultimately show ?thesis by metis
qed

text \<open>A caller is never in another's way: each step of its own brings it closer to its end.\<close>

definition caller_distance :: "'n caller \<Rightarrow> nat" where
  "caller_distance c = (case c of Calling \<Rightarrow> 3 | Missed \<Rightarrow> 2 | Built _ \<Rightarrow> 1 | _ \<Rightarrow> 0)"

lemma EmitPlugins_step_progress:
  "EmitPlugins_step objects W args t s = Some s'
     \<Longrightarrow> caller_distance (callers s' t) < caller_distance (callers s t) \<and> (\<forall>u. u \<noteq> t \<longrightarrow> callers s' u = callers s u)"
  by (auto simp: EmitPlugins_step_def caller_distance_def Let_def split: caller.splits if_splits option.splits prod.splits)

text \<open>A schedule: which caller moves, and what a build reads then.\<close>

fun run_callers ::
  "(nat \<Rightarrow> 'n json) \<Rightarrow> ('t \<Rightarrow> 'n cacheKey) \<Rightarrow> ('t \<times> 'n world) list \<Rightarrow> ('t, 'n) cache_state \<Rightarrow> ('t, 'n) cache_state option"
where
  "run_callers objects args [] s = Some s"
| "run_callers objects args ((t, W) # ts) s =
     Option.bind (EmitPlugins_step objects W args t s) (run_callers objects args ts)"

lemma run_callers_reachable:
  "run_callers objects args ts s = Some s' \<Longrightarrow> (cache_step objects args)\<^sup>*\<^sup>* s s'"
proof (induction ts arbitrary: s)
  case (Cons a ts)
  obtain t W where a: "a = (t, W)" by (cases a)
  with Cons.prems obtain s1 where "EmitPlugins_step objects W args t s = Some s1" "run_callers objects args ts s1 = Some s'"
    by (auto simp: bind_eq_Some_conv)
  then show ?case by (meson Cons.IH cache_step.Step converse_rtranclp_into_rtranclp)
qed simp

definition graph_config :: "unit json" where
  "graph_config = JObj [(''compilerOptions'', JObj [(''plugins'', JArr [JObj [(''name'', JStr graphPluginName)]])])]"

definition graph_key :: "unit cacheKey" where
  "graph_key = \<lparr>key_raw = RawObject 0, key_configDir = ''/p'', key_configPath = ''/p/tsconfig.json''\<rparr>"

definition idle_world :: "unit world" where
  "idle_world = (undefined, \<lambda>_. Unreadable)"

text \<open>Two callers miss, both build, the second stores first.\<close>

definition race_result :: "(bool, unit) cache_state option" where
  "race_result = run_callers (\<lambda>_. graph_config) (\<lambda>_. graph_key)
     (map (\<lambda>t. (t, idle_world)) [False, True, False, True, True, False]) idle"

lemma race_result_callers:
  "map_option (\<lambda>s. (runs s, map_option run_number (pluginCache s graph_key),
       map (\<lambda>t. case callers s t of Returned b \<Rightarrow> Some (run_number b) | _ \<Rightarrow> None) [False, True])) race_result
   = Some (2, Some 1, [Some 1, Some 1])"
  by (simp add: race_result_def idle_def EmitPlugins_step_def graph_key_def isComparable_def hashable_def
      LoadOrStore_def run_build_def)

theorem EmitPlugins_shared_witness:
  "\<exists>s b c. cache_reachable (\<lambda>_. graph_config) (\<lambda>_ :: bool. graph_key) s \<and> runs s = 2
    \<and> callers s False = Returned b \<and> callers s True = Returned c
    \<and> built_for (\<lambda>_. graph_config) graph_key b \<and> b = c"
proof -
  obtain s where s: "race_result = Some s" using race_result_callers by (cases race_result) simp_all
  obtain b c where r: "runs s = 2" "callers s False = Returned b" "callers s True = Returned c"
    using race_result_callers by (auto simp: s split: caller.splits)
  have reach: "cache_reachable (\<lambda>_. graph_config) (\<lambda>_. graph_key) s"
    using run_callers_reachable s unfolding race_result_def cache_reachable_def by blast
  have "isComparable (key_raw graph_key)" by (simp add: graph_key_def isComparable_def)
  then have "built_for (\<lambda>_. graph_config) graph_key b \<and> b = c"
    using EmitPlugins_shared [OF reach r(2,3)] by blast
  with reach r show ?thesis by blast
qed

section \<open>The next compilation of a watching process\<close>

text \<open>
  \<open>execute/watcher.go\<close> keeps its \<open>ParsedCommandLine\<close>, and \<open>ReloadFileNamesOfParsedCommandLine\<close> keeps
  its \<open>Raw\<close>, so the next compilation looks up the same key and goes on with the plugin of the last.
  \<open>settled\<close> is that plugin: it has the facts of \<open>fs\<close>, has reported all their violations and has seen its
  graph complete.
\<close>

definition same_graph :: "Graph \<Rightarrow> Graph \<Rightarrow> bool" where
  "same_graph g h \<longleftrightarrow> graph_le g h \<and> graph_le h g"

definition settled :: "(string \<Rightarrow> string) \<Rightarrow> GraphOptions \<Rightarrow> 'f source list \<Rightarrow> 'f Plugin \<Rightarrow> bool" where
  "settled quote opts fs p \<longleftrightarrow>
     same_graph (plugin_snapshot opts p) (final_graph opts fs) \<and> fileDiagnostics p = (\<lambda>_. []) \<and> graphComplete p
     \<and> (\<forall>f. final_violation quote opts fs f \<longrightarrow> finding_key f \<in> set (reported p))"

lemma facts_mono:
  "set xs \<subseteq> set ys \<Longrightarrow> fact_files xs \<subseteq> fact_files ys \<and> fact_edges xs \<subseteq> fact_edges ys"
  by (auto simp: fact_files_def fact_edges_def List.map_filter_def)

lemma settled_walk:
  assumes "settled quote opts fs p" "set (source_facts f) \<subseteq> set (all_facts fs)"
  shows "settled quote opts fs (walk_file (source_facts f) p)"
proof -
  have "same_graph (plugin_snapshot opts (walk_file (source_facts f) p)) (final_graph opts fs)"
    using assms(1) facts_mono [OF assms(2)]
    by (auto simp: settled_def same_graph_def graph_le_def plugin_snapshot_def final_graph_def
        walk_file_def record_facts_sets)
  then show ?thesis using assms(1) by (simp add: settled_def walk_file_def)
qed

lemma settled_take:
  assumes st: "settled quote opts fs p"
    and rules: "rules_valid (Rules opts)" "Rules opts \<noteq> []" "\<not> EmitEnabled opts"
  shows "\<exists>p'. TakeDiagnostics quote opts None path p = Some ([], None, p') \<and> settled quote opts fs p'"
proof -
  note P = st [unfolded settled_def]
  let ?g = "plugin_snapshot opts p"
  let ?V = "\<lambda>g f. violation quote g (Rules opts) (set (Dependencies opts)) (set (DevDependencies opts)) f"
  have dr: "drain path p = ([], p)" using P by (simp add: drain_def fun_upd_idem)
  let ?p = "p\<lparr>seen := List.insert path (seen p)\<rparr>"
  have m: "mark_seen path p = (False, ?p)" using P by (simp add: mark_seen_def)
  obtain found where found: "evaluate_graph quote opts False ?g = Some found"
    "set found = {f. ?V ?g f \<and> Check f \<noteq> UnusedCheck}"
    unfolding evaluate_graph_def if_False by (rule givesE [OF EvaluateIncremental_gives [OF rules(1)]])
  have sev: "FindingSeverity f \<noteq> SeverityAllow" if "f \<in> set found" for f
    using that found(2) violation_severity by auto
  have old: "finding_key f \<in> set (reported ?p)" if "f \<in> set found" for f
    using that found(2) P violation_mono by (auto simp: final_violation_def same_graph_def)
  obtain now keys where r: "report_findings found ?p = (now, ?p\<lparr>reported := keys\<rparr>)"
    "set keys = set (reported ?p) \<union> finding_key ` set found"
    "finding_key ` set now = finding_key ` set found - set (reported ?p)"
    by (rule report_findings_spec [of found ?p, OF sev])
  have "finding_key ` set now = {}" unfolding r(3) using old by auto
  then have "now = []" by simp
  moreover have "settled quote opts fs (?p\<lparr>reported := keys\<rparr>)"
    using P r(2) by (auto simp: settled_def plugin_snapshot_def)
  ultimately show ?thesis using rules m found(1) r(1) by (simp add: TakeDiagnostics_def take_inline_def dr)
qed

lemma settled_take_times:
  assumes rules: "rules_valid (Rules opts)" "Rules opts \<noteq> []" "\<not> EmitEnabled opts"
  shows "settled quote opts fs p
    \<Longrightarrow> \<exists>p'. take_times quote opts n path p = Some ([], p') \<and> settled quote opts fs p'"
proof (induction n arbitrary: p)
  case (Suc n)
  then obtain p1 where "TakeDiagnostics quote opts None path p = Some ([], None, p1)" "settled quote opts fs p1"
    using settled_take [OF _ rules] by blast
  with Suc.IH [of p1] show ?case by auto
qed simp

lemma settled_emit_files:
  assumes rules: "rules_valid (Rules opts)" "Rules opts \<noteq> []" "\<not> EmitEnabled opts"
  shows "settled quote opts fs p \<Longrightarrow> set gs \<subseteq> set fs
    \<Longrightarrow> \<exists>p'. emit_files quote opts dts gs p = Some ([], p') \<and> settled quote opts fs p'"
proof (induction gs arbitrary: p)
  case (Cons g gs)
  have "set (source_facts g) \<subseteq> set (all_facts fs)" using Cons.prems(2) by (auto simp: all_facts_def)
  then obtain p1 where "take_times quote opts (if dts then 2 else 1) (source_path g)
      (walk_file (source_facts g) p) = Some ([], p1)" "settled quote opts fs p1"
    using settled_take_times [OF rules] settled_walk [OF Cons.prems(1)] by blast
  with Cons.IH [of p1] Cons.prems(2) show ?case by auto
qed simp

text \<open>C32: In a process that watches, the compilation after the first reports none of the graph's violations:
  however many of the unchanged files it emits again, the plugin it gets from the cache has already
  recorded the key of every violation, so all its calls return nothing, the errors that failed the
  first compilation included.\<close>
theorem watch_rebuild_silent:
  assumes "distinct (map source_path fs)" "fs \<noteq> []" "rules_valid (Rules opts)" "Rules opts \<noteq> []"
    and "\<not> EmitEnabled opts" "set gs \<subseteq> set fs"
  shows "\<exists>ds p p'. emit_files quote opts dts fs (started (length fs)) = Some (ds, p)
    \<and> length ds \<ge> card (finding_key ` {f. final_violation quote opts fs f})
    \<and> emit_files quote opts dts gs p = Some ([], p')"
proof -
  obtain ds found p taken where e: "emit_files quote opts dts fs (started (length fs)) = Some (ds, p)"
    "map diagnostic_line ds = map report_line found" and pr: "progress quote opts fs fs taken found p"
    and complete: "graphComplete p"
    using assms(1-5) by (rule emit_files_complete)
  note P = pr [unfolded progress_def]
  have reported: "final_violation quote opts fs f \<longrightarrow> finding_key f \<in> set (reported p)" for f
    using P complete by auto
  then have "finding_key ` {f. final_violation quote opts fs f} \<subseteq> set (map finding_key found)" using P by auto
  then have "card (finding_key ` {f. final_violation quote opts fs f}) \<le> card (set (map finding_key found))"
    by (rule card_mono [rotated]) simp
  also have "\<dots> \<le> length (map finding_key found)" by (rule card_length)
  also have "\<dots> = length ds" using arg_cong [OF e(2), of length] by simp
  finally have len: "length ds \<ge> card (finding_key ` {f. final_violation quote opts fs f})" .
  have "same_graph (plugin_snapshot opts p) (final_graph opts fs)"
    using P by (simp add: same_graph_def graph_le_def plugin_snapshot_def final_graph_def)
  then have "settled quote opts fs p" using P complete reported by (simp add: settled_def)
  then show ?thesis using settled_emit_files [OF assms(3-5) _ assms(6)] e(1) len by blast
qed

theorem watch_rebuild_silent_witness:
  "\<exists>ds p p'. emit_files id (sample_options False) True sample_sources (started (length sample_sources)) = Some (ds, p)
    \<and> length ds \<ge> card (finding_key ` {f. final_violation id (sample_options False) sample_sources f})
    \<and> emit_files id (sample_options False) True (tl sample_sources) p = Some ([], p')"
  by (rule watch_rebuild_silent) (use sample_rules in \<open>simp_all add: sample_sources_def sample_options_def\<close>)

end
