(* ===== verification/SourceMapper.thy ===== *)
theory SourceMapper
  imports SourceMapGenerator SourceMapDecoder LineMap PathCase "HOL-Library.AList"
begin

text \<open>
  \<open>sourcemap/source_mapper.go\<close> with \<open>sourcemap/lineinfo.go\<close> and \<open>sourcemap/util.go\<close>: finding the source
  map of a generated file and answering, with it, from which source position a generated position
  comes and to which it leads. The host is a record of what it answers; decoding the JSON of a source
  map is the function \<open>unmarshal\<close>. \<open>sourceMappings\<close> is a Go map whose length the code asks for: it is a
  list of entries with distinct keys. A panic is \<open>None\<close>, a nil pointer \<open>None\<close> inside it.
\<close>

section \<open>Line information\<close>

record ECMALineInfo =
  info_text :: string
  info_starts :: "nat list"

definition CreateECMALineInfo :: "string \<Rightarrow> nat list \<Rightarrow> ECMALineInfo" where
  "CreateECMALineInfo s starts = \<lparr>info_text = s, info_starts = starts\<rparr>"

definition LineCount :: "ECMALineInfo \<Rightarrow> nat" where
  "LineCount li = length (info_starts li)"

definition LineText :: "ECMALineInfo \<Rightarrow> nat \<Rightarrow> string panics" where
  "LineText li line =
     (if line < length (info_starts li)
      then slice_text (info_text li) (info_starts li ! line)
             (if line + 1 < length (info_starts li) then info_starts li ! (line + 1) else length (info_text li))
      else None)"

text \<open>\<open>strings.TrimLeftFunc\<close> and \<open>strings.TrimRightFunc\<close>.\<close>

definition TrimLeftFunc :: "(rune \<Rightarrow> bool) \<Rightarrow> string \<Rightarrow> string" where
  "TrimLeftFunc f s = concat (map snd (dropWhile (\<lambda>(r, _). f r) (rune_pieces s)))"

definition TrimRightFunc :: "(rune \<Rightarrow> bool) \<Rightarrow> string \<Rightarrow> string" where
  "TrimRightFunc f s = concat (map snd (rev (dropWhile (\<lambda>(r, _). f r) (rev (rune_pieces s)))))"

text \<open>The loop of \<open>TryGetSourceMappingURL\<close> over the lines before \<open>n\<close>, the last first.\<close>

fun mapping_url_loop :: "ECMALineInfo \<Rightarrow> nat \<Rightarrow> string panics" where
  "mapping_url_loop li 0 = Some []"
| "mapping_url_loop li (Suc n) =
     (case LineText li n of
        None \<Rightarrow> None
      | Some line0 \<Rightarrow>
          (let line = TrimRightFunc IsLineBreak (TrimLeftFunc is_space line0) in
           if line = [] then mapping_url_loop li n
           else if length line < 4 \<or> \<not> HasPrefix line ''//'' \<or> line ! 2 \<noteq> CHR ''#'' \<and> line ! 2 \<noteq> CHR ''@''
                     \<or> line ! 3 \<noteq> CHR '' ''
           then Some []
           else case CutPrefix (drop 4 line) ''sourceMappingURL='' of
                  (url, True) \<Rightarrow> Some (TrimRightFunc is_space url)
                | (_, False) \<Rightarrow> mapping_url_loop li n))"

definition TryGetSourceMappingURL :: "ECMALineInfo option \<Rightarrow> string panics" where
  "TryGetSourceMappingURL lineInfo =
     (case lineInfo of Some li \<Rightarrow> mapping_url_loop li (LineCount li) | None \<Rightarrow> Some [])"

section \<open>The mapper\<close>

record Host =
  UseCaseSensitiveFileNames_of :: bool
  GetECMALineInfo :: "string \<Rightarrow> ECMALineInfo option"
  ReadFile :: "string \<Rightarrow> string option"

record SourceMappedPosition =
  generatedPosition :: int
  sourcePosition :: int
  positionSource :: int
  positionName :: int

definition isSourceMappedPosition :: "SourceMappedPosition \<Rightarrow> bool" where
  "isSourceMappedPosition m \<longleftrightarrow> positionSource m \<noteq> -1 \<and> sourcePosition m \<noteq> -1"

record DocumentPositionMapper =
  mapperCaseSensitive :: bool
  sourceFileAbsolutePaths :: "string list"
  sourceIndexOf :: "string \<rightharpoonup> int"
  generatedAbsoluteFilePath :: string
  generatedMappings :: "SourceMappedPosition list"
  sourceMappings :: "(int \<times> SourceMappedPosition list) list"

text \<open>\<open>core.DeduplicateSorted\<close>, with its loop.\<close>

fun deduplicate_loop :: "('a \<Rightarrow> 'a \<Rightarrow> bool) \<Rightarrow> 'a \<Rightarrow> 'a list \<Rightarrow> 'a list" where
  "deduplicate_loop eq prev [] = []"
| "deduplicate_loop eq prev (x # xs) =
     (if eq prev x then deduplicate_loop eq prev xs else x # deduplicate_loop eq x xs)"

definition DeduplicateSorted :: "'a list \<Rightarrow> ('a \<Rightarrow> 'a \<Rightarrow> bool) \<Rightarrow> 'a list" where
  "DeduplicateSorted xs eq = (case xs of [] \<Rightarrow> [] | x # rest \<Rightarrow> x # deduplicate_loop eq x rest)"

definition same_position :: "SourceMappedPosition \<Rightarrow> SourceMappedPosition \<Rightarrow> bool" where
  "same_position a b \<longleftrightarrow> generatedPosition a = generatedPosition b \<and> positionSource a = positionSource b
     \<and> sourcePosition a = sourcePosition b"

text \<open>\<open>slices.SortFunc\<close> with the difference of a key as comparison.\<close>

definition sort_positions :: "(SourceMappedPosition \<Rightarrow> int) \<Rightarrow> SourceMappedPosition list \<Rightarrow> SourceMappedPosition list" where
  "sort_positions key ms = sort_slice (\<lambda>a b. key a - key b < 0) ms"

definition line_position :: "ECMALineInfo option \<Rightarrow> int \<Rightarrow> int \<Rightarrow> int panics" where
  "line_position lineInfo line character =
     (case lineInfo of
        None \<Rightarrow> Some (-1)
      | Some li \<Rightarrow>
          map_option int (ComputePositionOfLineAndUTF16Character (info_starts li) line character (info_text li) True))"

text \<open>\<open>processMapping\<close>: an index beyond the sources panics.\<close>

definition processMapping :: "Host \<Rightarrow> string \<Rightarrow> string list \<Rightarrow> Mapping \<Rightarrow> SourceMappedPosition panics" where
  "processMapping host generatedFile paths m =
     Option.bind (line_position (GetECMALineInfo host generatedFile) (GeneratedLine m) (GeneratedCharacter m)) (\<lambda>gp.
     Option.bind
       (if IsSourceMapping m
        then if 0 \<le> SourceIndex m \<and> SourceIndex m < int (length paths)
          then line_position (GetECMALineInfo host (paths ! nat (SourceIndex m))) (SourceLine m) (SourceCharacter m)
          else None
        else Some (-1)) (\<lambda>sp.
     Some \<lparr>generatedPosition = gp, sourcePosition = sp, positionSource = SourceIndex m, positionName = NameIndex m\<rparr>))"

definition add_source_mapping :: "SourceMappedPosition \<Rightarrow> (int \<times> SourceMappedPosition list) list \<Rightarrow> (int \<times> SourceMappedPosition list) list" where
  "add_source_mapping m entries =
     (if isSourceMappedPosition m
      then AList.update (positionSource m)
             ((case map_of entries (positionSource m) of Some ms \<Rightarrow> ms | None \<Rightarrow> []) @ [m]) entries
      else entries)"

definition getSourceMappings :: "SourceMappedPosition list \<Rightarrow> (int \<times> SourceMappedPosition list) list" where
  "getSourceMappings decoded =
     map (\<lambda>(i, ms). (i, DeduplicateSorted (sort_positions sourcePosition ms) same_position))
       (foldl (\<lambda>entries m. add_source_mapping m entries) [] decoded)"

definition getGeneratedMappings :: "SourceMappedPosition list \<Rightarrow> SourceMappedPosition list" where
  "getGeneratedMappings decoded = DeduplicateSorted (sort_positions generatedPosition decoded) same_position"

definition index_sources :: "unicode_tables \<Rightarrow> bool \<Rightarrow> string list \<Rightarrow> (string \<rightharpoonup> int)" where
  "index_sources U caseSensitive paths =
     foldl (\<lambda>m (i, source). m(GetCanonicalFileName U source caseSensitive \<mapsto> int i)) Map.empty (enumerate 0 paths)"

definition source_paths :: "RawSourceMap \<Rightarrow> string \<Rightarrow> string list" where
  "source_paths sm mapDirectory =
     (let sourceRoot = (if rawSourceRoot sm \<noteq> [] then GetNormalizedAbsolutePath (rawSourceRoot sm) mapDirectory
                        else mapDirectory)
      in map (\<lambda>source. GetNormalizedAbsolutePath source sourceRoot) (rawSourceList sm))"

definition createDocumentPositionMapper ::
  "unicode_tables \<Rightarrow> Host \<Rightarrow> RawSourceMap \<Rightarrow> string \<Rightarrow> DocumentPositionMapper panics" where
  "createDocumentPositionMapper U host sm mapPath =
     (let mapDirectory = GetDirectoryPath mapPath;
          generatedFile = GetNormalizedAbsolutePath (rawFile sm) mapDirectory;
          paths = source_paths sm mapDirectory;
          (values, err) = decode_mappings (rawMappings sm)
      in case those (map (processMapping host generatedFile paths) values) of
           None \<Rightarrow> None
         | Some decoded0 \<Rightarrow>
             (let decoded = (if err \<noteq> None then [] else decoded0)
              in Some \<lparr>mapperCaseSensitive = UseCaseSensitiveFileNames_of host, sourceFileAbsolutePaths = paths,
                       sourceIndexOf = index_sources U (UseCaseSensitiveFileNames_of host) paths,
                       generatedAbsoluteFilePath = generatedFile,
                       generatedMappings = getGeneratedMappings decoded,
                       sourceMappings = getSourceMappings decoded\<rparr>))"

section \<open>Queries\<close>

record DocumentPosition =
  FileName :: string
  Pos :: int

definition GetSourcePosition :: "DocumentPositionMapper option \<Rightarrow> DocumentPosition \<Rightarrow> DocumentPosition option panics" where
  "GetSourcePosition mapper loc =
     (case mapper of
        None \<Rightarrow> Some None
      | Some d \<Rightarrow>
          if generatedMappings d = [] then Some None
          else
            (let (targetIndex, _) = BinarySearchFunc (generatedMappings d) (Pos loc) (\<lambda>m pos. generatedPosition m - pos) in
             if targetIndex \<ge> length (generatedMappings d) then Some None
             else
               (let m = generatedMappings d ! targetIndex in
                if \<not> isSourceMappedPosition m then Some None
                else if 0 \<le> positionSource m \<and> positionSource m < int (length (sourceFileAbsolutePaths d))
                then Some (Some \<lparr>FileName = sourceFileAbsolutePaths d ! nat (positionSource m), Pos = sourcePosition m\<rparr>)
                else None)))"

definition GetGeneratedPosition ::
  "unicode_tables \<Rightarrow> DocumentPositionMapper option \<Rightarrow> DocumentPosition \<Rightarrow> DocumentPosition option" where
  "GetGeneratedPosition U mapper loc =
     (case mapper of
        None \<Rightarrow> None
      | Some d \<Rightarrow>
          (case sourceIndexOf d (GetCanonicalFileName U (FileName loc) (mapperCaseSensitive d)) of
             None \<Rightarrow> None
           | Some si \<Rightarrow>
               if si < 0 \<or> si \<ge> int (length (sourceMappings d)) then None
               else
                 (let ms = (case map_of (sourceMappings d) si of Some ms \<Rightarrow> ms | None \<Rightarrow> []);
                      (targetIndex, _) = BinarySearchFunc ms (Pos loc) (\<lambda>m pos. sourcePosition m - pos)
                  in if targetIndex \<ge> length ms then None
                     else if positionSource (ms ! targetIndex) \<noteq> si then None
                     else Some \<lparr>FileName = generatedAbsoluteFilePath d, Pos = generatedPosition (ms ! targetIndex)\<rparr>)))"

section \<open>Finding the source map\<close>

text \<open>The base64 text of a data URL, and whether it is a data URL. The slice of the charset panics when
  fewer than six bytes follow \<open>charset=\<close>.\<close>

definition base64_rune :: "rune \<Rightarrow> bool" where
  "base64_rune r \<longleftrightarrow> IsASCIILetter r \<or> IsDigit r \<or> r = 0x2B \<or> r = 0x2F \<or> r = 0x3D"

definition base64_part :: "string \<Rightarrow> string \<times> bool" where
  "base64_part url0 =
     (case CutPrefix url0 ''base64,'' of
        (_, False) \<Rightarrow> ([], True)
      | (url, True) \<Rightarrow> if list_all base64_rune (runes url) then (url, True) else ([], True))"

definition tryParseBase64Url :: "unicode_tables \<Rightarrow> string \<Rightarrow> (string \<times> bool) panics" where
  "tryParseBase64Url U url0 =
     (case CutPrefix url0 ''data:'' of
        (_, False) \<Rightarrow> Some ([], False)
      | (url1, True) \<Rightarrow>
          (case CutPrefix url1 ''application/json;'' of
             (_, False) \<Rightarrow> Some ([], True)
           | (url2, True) \<Rightarrow>
               (case CutPrefix url2 ''charset='' of
                  (url3, False) \<Rightarrow> Some (base64_part url3)
                | (url3, True) \<Rightarrow>
                    (case slice_text url3 0 6 of
                       None \<Rightarrow> None
                     | Some charset \<Rightarrow>
                         if \<not> EqualFold U charset ''utf-8;'' then Some ([], True)
                         else Some (base64_part (drop 6 url3))))))"

text \<open>\<open>base64.StdEncoding.DecodeString\<close>: its alphabet is that of the mappings, padded to groups of four.
  \<open>None\<close> is an error.\<close>

definition base64_value :: "char \<Rightarrow> nat option" where
  "base64_value c = (if base64FormatDecode c = -1 then None else Some (nat (base64FormatDecode c)))"

fun base64_decode :: "string \<Rightarrow> string option" where
  "base64_decode [] = Some []"
| "base64_decode (a # b # c # d # rest) =
     (case (base64_value a, base64_value b) of
        (Some v, Some w) \<Rightarrow>
          (let x = char_of (v * 4 + w div 16) in
           if c = CHR ''='' then (if d = CHR ''='' \<and> rest = [] then Some [x] else None)
           else case base64_value c of
             None \<Rightarrow> None
           | Some u \<Rightarrow>
               (let y = char_of (w mod 16 * 16 + u div 4) in
                if d = CHR ''='' then (if rest = [] then Some [x, y] else None)
                else case base64_value d of
                  None \<Rightarrow> None
                | Some t \<Rightarrow> map_option (\<lambda>s. x # y # char_of (u mod 4 * 64 + t) # s) (base64_decode rest)))
      | _ \<Rightarrow> None)"
| "base64_decode _ = None"

definition StdEncoding_DecodeString :: "string \<Rightarrow> string option" where
  "StdEncoding_DecodeString s = base64_decode (filter (\<lambda>c. c \<noteq> CHR 0x0A \<and> c \<noteq> CHR 0x0D) s)"

definition tryParseRawSourceMap :: "(string \<Rightarrow> RawSourceMap option) \<Rightarrow> string \<Rightarrow> RawSourceMap option" where
  "tryParseRawSourceMap unmarshal contents =
     (case unmarshal contents of
        None \<Rightarrow> None
      | Some sm \<Rightarrow> if rawVersion sm \<noteq> 3 then None else Some sm)"

definition convertDocumentToSourceMapper ::
  "unicode_tables \<Rightarrow> (string \<Rightarrow> RawSourceMap option) \<Rightarrow> Host \<Rightarrow> string \<Rightarrow> string \<Rightarrow> DocumentPositionMapper option panics"
where
  "convertDocumentToSourceMapper U unmarshal host contents mapFileName =
     (case tryParseRawSourceMap unmarshal contents of
        None \<Rightarrow> Some None
      | Some sm \<Rightarrow>
          if rawSourceList sm = [] \<or> rawFile sm = [] \<or> rawMappings sm = [] then Some None
          else if list_ex (\<lambda>s. s \<noteq> None) (rawSourcesContent sm) then Some None
          else map_option Some (createDocumentPositionMapper U host sm mapFileName))"

fun first_readable ::
  "unicode_tables \<Rightarrow> (string \<Rightarrow> RawSourceMap option) \<Rightarrow> Host \<Rightarrow> string \<Rightarrow> string list \<Rightarrow> DocumentPositionMapper option panics"
where
  "first_readable U unmarshal host generatedFileName [] = Some None"
| "first_readable U unmarshal host generatedFileName (location # rest) =
     (let mapFileName = GetNormalizedAbsolutePath location (GetDirectoryPath generatedFileName) in
      case ReadFile host mapFileName of
        Some contents \<Rightarrow> convertDocumentToSourceMapper U unmarshal host contents mapFileName
      | None \<Rightarrow> first_readable U unmarshal host generatedFileName rest)"

definition GetDocumentPositionMapper ::
  "unicode_tables \<Rightarrow> (string \<Rightarrow> RawSourceMap option) \<Rightarrow> Host \<Rightarrow> string \<Rightarrow> DocumentPositionMapper option panics"
where
  "GetDocumentPositionMapper U unmarshal host generatedFileName =
     (let files = (\<lambda>mapFileName. first_readable U unmarshal host generatedFileName
            ((if mapFileName \<noteq> [] then [mapFileName] else []) @ [generatedFileName @ ''.map''])) in
      case TryGetSourceMappingURL (GetECMALineInfo host generatedFileName) of
        None \<Rightarrow> None
      | Some mapFileName \<Rightarrow>
          if mapFileName = [] then files []
          else case tryParseBase64Url U mapFileName of
            None \<Rightarrow> None
          | Some (_, False) \<Rightarrow> files mapFileName
          | Some (base64Object, True) \<Rightarrow>
              (case (if base64Object \<noteq> [] then StdEncoding_DecodeString base64Object else None) of
                 Some decoded \<Rightarrow> convertDocumentToSourceMapper U unmarshal host decoded generatedFileName
               | None \<Rightarrow> files []))"

end
