(* ===== verification/SourceMapperCorrect.thy ===== *)
theory SourceMapperCorrect
  imports SourceMapper SourceMapRoundtrip LineMapCorrect
begin

text \<open>
  The document position mapper answers what it promises: the nearest mapping at or after a position
  (\<open>nearest\<close>), for every source map whose indices are in range, and, together with the generator and
  the line maps, the positions a source map was made from.
\<close>

section \<open>Sorted positions without duplicates\<close>

interpretation generated_order: slice_order "\<lambda>a b. generatedPosition a - generatedPosition b < 0"
  by unfold_locales simp_all

interpretation source_order: slice_order "\<lambda>a b. sourcePosition a - sourcePosition b < 0"
  by unfold_locales simp_all

definition keyed :: "('a \<Rightarrow> int) \<Rightarrow> 'a list \<Rightarrow> bool" where
  "keyed key ms \<longleftrightarrow> sorted_wrt (\<lambda>a b. key a \<le> key b) ms"

lemma sort_positions_keyed:
  "keyed generatedPosition (sort_positions generatedPosition ms)"
  "keyed sourcePosition (sort_positions sourcePosition ms)"
  using generated_order.sort_sorted [of ms] source_order.sort_sorted [of ms]
  by (simp_all add: keyed_def sort_positions_def not_less)

lemma set_sort_positions [simp]: "set (sort_positions key ms) = set ms"
  by (simp add: sort_positions_def)

lemma deduplicate_loop_subset: "set (deduplicate_loop eq prev xs) \<subseteq> set xs"
  by (induction eq prev xs rule: deduplicate_loop.induct) auto

lemma deduplicate_loop_keyed: "keyed key (prev # xs) \<Longrightarrow> keyed key (prev # deduplicate_loop eq prev xs)"
proof (induction eq prev xs rule: deduplicate_loop.induct)
  case (2 eq prev x xs)
  show ?case
  proof (cases "eq prev x")
    case True
    then show ?thesis using "2.IH"(1) "2.prems" by (simp add: keyed_def)
  next
    case False
    then have "keyed key (x # deduplicate_loop eq x xs)" using "2.IH"(2) "2.prems" by (simp add: keyed_def)
    then show ?thesis using False "2.prems" deduplicate_loop_subset [of eq x xs] by (auto simp: keyed_def)
  qed
qed simp

lemma deduplicate_loop_keeps:
  "x \<in> set xs \<Longrightarrow> \<exists>y\<in>insert prev (set (deduplicate_loop eq prev xs)). y = x \<or> eq y x"
  by (induction eq prev xs rule: deduplicate_loop.induct) auto

lemma DeduplicateSorted_subset: "set (DeduplicateSorted xs eq) \<subseteq> set xs"
  using deduplicate_loop_subset by (cases xs) (auto simp: DeduplicateSorted_def dest: subsetD [OF deduplicate_loop_subset])

lemma DeduplicateSorted_keyed: "keyed key xs \<Longrightarrow> keyed key (DeduplicateSorted xs eq)"
  using deduplicate_loop_keyed by (cases xs) (auto simp: DeduplicateSorted_def)

lemma DeduplicateSorted_keeps:
  assumes "x \<in> set xs"
  obtains y where "y \<in> set (DeduplicateSorted xs eq)" "y = x \<or> eq y x"
proof (cases xs)
  case (Cons a list)
  show ?thesis
  proof (cases "x = a")
    case True
    with Cons show ?thesis by (intro that [of a]) (simp_all add: DeduplicateSorted_def)
  next
    case False
    then obtain y where "y \<in> insert a (set (deduplicate_loop eq a list))" "y = x \<or> eq y x"
      using deduplicate_loop_keeps [of x list a eq] assms Cons by auto
    with Cons show ?thesis by (intro that [of y]) (simp_all add: DeduplicateSorted_def)
  qed
qed (use assms in simp)

section \<open>The nearest mapping\<close>

definition nearest :: "('a \<Rightarrow> int) \<Rightarrow> 'a set \<Rightarrow> int \<Rightarrow> 'a \<Rightarrow> bool" where
  "nearest key M pos m \<longleftrightarrow> m \<in> M \<and> pos \<le> key m \<and> (\<forall>n\<in>M. pos \<le> key n \<longrightarrow> key m \<le> key n)"

lemma BinarySearchFunc_nearest:
  assumes sorted: "keyed key ms" and i: "BinarySearchFunc ms pos (\<lambda>m p. key m - p) = (i, found)"
  shows "if \<forall>m\<in>set ms. key m < pos then length ms \<le> i else i < length ms \<and> nearest key (set ms) pos (ms ! i)"
proof -
  have mono: "key (ms ! k) \<le> key (ms ! l)" if "k \<le> l" "l < length ms" for k l
    using sorted that sorted_wrt_nth_less [of "\<lambda>a b. key a \<le> key b" ms k l] by (cases "k = l") (simp_all add: keyed_def)
  have "\<forall>k l. k \<le> l \<longrightarrow> l < length ms \<longrightarrow> key (ms ! l) - pos < 0 \<longrightarrow> key (ms ! k) - pos < 0"
    using mono by fastforce
  note first = BinarySearchFunc_first [OF i this]
  show ?thesis
  proof (cases "\<forall>m\<in>set ms. key m < pos")
    case True
    have "\<not> i < length ms"
    proof
      assume "i < length ms"
      then have "0 \<le> key (ms ! i) - pos" using first(4) [of i] by simp
      with True \<open>i < length ms\<close> show False by (simp add: not_less [symmetric])
    qed
    with True show ?thesis by simp
  next
    case False
    then obtain l where l: "l < length ms" "\<not> key (ms ! l) < pos" by (auto simp: in_set_conv_nth)
    then have "i \<le> l" using first(3) [of l] by (meson diff_less_0_iff_less not_le)
    then have len: "i < length ms" using l(1) by simp
    moreover have "pos \<le> key (ms ! i)" using first(4) [of i] len by simp
    moreover have "key (ms ! i) \<le> key n" if n: "n \<in> set ms" "pos \<le> key n" for n
    proof -
      obtain k where k: "k < length ms" "n = ms ! k" using n(1) by (metis in_set_conv_nth)
      then have "i \<le> k" using first(3) [of k] n(2) by (meson diff_less_0_iff_less not_le)
      then show ?thesis using mono k by simp
    qed
    ultimately have "i < length ms \<and> nearest key (set ms) pos (ms ! i)" by (simp add: nearest_def)
    with False show ?thesis by simp
  qed
qed

text \<open>Removing duplicates loses no key.\<close>

lemma nearest_deduplicated:
  assumes "nearest key (set (DeduplicateSorted xs eq)) pos m" "\<And>x y. eq x y \<Longrightarrow> key x = key y"
  shows "nearest key (set xs) pos m"
proof -
  have "key m \<le> key n" if n: "n \<in> set xs" "pos \<le> key n" for n
  proof -
    obtain y where y: "y \<in> set (DeduplicateSorted xs eq)" "y = n \<or> eq y n"
      by (rule DeduplicateSorted_keeps [OF n(1)])
    then have "key y = key n" using assms(2) by blast
    then show ?thesis using assms(1) n(2) y(1) unfolding nearest_def by force
  qed
  then show ?thesis using assms(1) DeduplicateSorted_subset [of xs eq] unfolding nearest_def by blast
qed

lemma all_less_deduplicated:
  assumes "\<And>x y. eq x y \<Longrightarrow> key x = key y"
  shows "(\<forall>m\<in>set (DeduplicateSorted xs eq). key m < (pos :: int)) \<longleftrightarrow> (\<forall>m\<in>set xs. key m < pos)"
  using DeduplicateSorted_subset [of xs eq] DeduplicateSorted_keeps [of _ xs eq] assms by (metis subsetD)

lemma same_position_keys:
  "same_position a b \<Longrightarrow> generatedPosition a = generatedPosition b"
  "same_position a b \<Longrightarrow> sourcePosition a = sourcePosition b"
  "same_position a b \<Longrightarrow> positionSource a = positionSource b"
  by (simp_all add: same_position_def)

section \<open>What a mapper is made of\<close>

definition decoded_positions :: "Host \<Rightarrow> RawSourceMap \<Rightarrow> string \<Rightarrow> SourceMappedPosition list panics" where
  "decoded_positions host sm mapPath =
     (let dir = GetDirectoryPath mapPath in
      those (map (processMapping host (GetNormalizedAbsolutePath (rawFile sm) dir) (source_paths sm dir))
        (fst (decode_mappings (rawMappings sm)))))"

lemma create_fields:
  assumes "createDocumentPositionMapper U host sm mapPath = Some d" "snd (decode_mappings (rawMappings sm)) = None"
  obtains ds where "decoded_positions host sm mapPath = Some ds"
    "generatedMappings d = getGeneratedMappings ds" "sourceMappings d = getSourceMappings ds"
    "sourceFileAbsolutePaths d = source_paths sm (GetDirectoryPath mapPath)"
    "generatedAbsoluteFilePath d = GetNormalizedAbsolutePath (rawFile sm) (GetDirectoryPath mapPath)"
    "mapperCaseSensitive d = UseCaseSensitiveFileNames_of host"
    "sourceIndexOf d = index_sources U (UseCaseSensitiveFileNames_of host) (source_paths sm (GetDirectoryPath mapPath))"
  using assms
  by (auto simp: createDocumentPositionMapper_def decoded_positions_def Let_def split: prod.splits option.splits if_splits)

lemma those_Some: "those (map f xs) = Some ys \<longleftrightarrow> length ys = length xs \<and> (\<forall>i<length xs. f (xs ! i) = Some (ys ! i))"
proof (induction xs arbitrary: ys)
  case (Cons x xs)
  show ?case
    by (cases ys) (auto simp: Cons.IH nth_Cons' less_Suc_eq_0_disj split: option.splits)
qed auto

lemma those_map_set:
  assumes "those (map f xs) = Some ys"
  shows "y \<in> set ys \<longleftrightarrow> (\<exists>x\<in>set xs. f x = Some y)"
  using assms by (auto simp: those_Some in_set_conv_nth) (metis nth_mem)+

lemma processMapping_source:
  "processMapping host gen paths m = Some mp \<Longrightarrow> isSourceMappedPosition mp
     \<Longrightarrow> 0 \<le> positionSource mp \<and> positionSource mp < int (length paths)"
  by (auto simp: processMapping_def isSourceMappedPosition_def bind_eq_Some_conv split: if_splits)

lemma decoded_source:
  assumes "decoded_positions host sm mapPath = Some ds" "m \<in> set ds" "isSourceMappedPosition m"
  shows "0 \<le> positionSource m \<and> positionSource m < int (length (source_paths sm (GetDirectoryPath mapPath)))"
  using assms by (auto simp: decoded_positions_def Let_def those_map_set dest: processMapping_source)

text \<open>The entries of \<open>sourceMappings\<close>: one for each source with a mapped position.\<close>

definition mapped_in :: "SourceMappedPosition list \<Rightarrow> int \<Rightarrow> SourceMappedPosition list" where
  "mapped_in ds i = filter (\<lambda>m. isSourceMappedPosition m \<and> positionSource m = i) ds"

definition mapped_sources :: "SourceMappedPosition list \<Rightarrow> int set" where
  "mapped_sources ds = {i. mapped_in ds i \<noteq> []}"

lemma add_source_mappings:
  "distinct (map fst (foldl (\<lambda>entries m. add_source_mapping m entries) [] ds))
   \<and> map_of (foldl (\<lambda>entries m. add_source_mapping m entries) [] ds)
     = (\<lambda>i. if mapped_in ds i = [] then None else Some (mapped_in ds i))"
proof (induction ds rule: rev_induct)
  case Nil
  then show ?case by (simp add: mapped_in_def)
next
  case (snoc m ds)
  then show ?case
    by (auto simp: add_source_mapping_def update_conv' distinct_update mapped_in_def fun_eq_iff split: option.splits)
qed

lemma getSourceMappings_lookup:
  "map_of (getSourceMappings ds) i =
     (if mapped_in ds i = [] then None
      else Some (DeduplicateSorted (sort_positions sourcePosition (mapped_in ds i)) same_position))"
  unfolding getSourceMappings_def map_of_map using add_source_mappings [of ds] by simp

lemma getSourceMappings_length: "length (getSourceMappings ds) = card (mapped_sources ds)"
proof -
  let ?es = "foldl (\<lambda>entries m. add_source_mapping m entries) [] ds"
  have "set (map fst ?es) = dom (map_of ?es)" by (simp add: dom_map_of_conv_image_fst)
  also have "\<dots> = mapped_sources ds" using add_source_mappings [of ds] by (auto simp: mapped_sources_def split: if_splits)
  finally show ?thesis
    using add_source_mappings [of ds] distinct_card [of "map fst ?es"] by (simp add: getSourceMappings_def)
qed

section \<open>Queries\<close>

lemma GetSourcePosition_found:
  assumes create: "createDocumentPositionMapper U host sm mapPath = Some d" "snd (decode_mappings (rawMappings sm)) = None"
    and ds: "decoded_positions host sm mapPath = Some ds"
  shows "if \<forall>m\<in>set ds. generatedPosition m < Pos loc then GetSourcePosition (Some d) loc = Some None
    else \<exists>m. nearest generatedPosition (set ds) (Pos loc) m \<and> GetSourcePosition (Some d) loc =
      Some (if isSourceMappedPosition m
            then Some \<lparr>FileName = source_paths sm (GetDirectoryPath mapPath) ! nat (positionSource m), Pos = sourcePosition m\<rparr>
            else None)"
proof -
  obtain ds' where "decoded_positions host sm mapPath = Some ds'" "generatedMappings d = getGeneratedMappings ds'"
    "sourceFileAbsolutePaths d = source_paths sm (GetDirectoryPath mapPath)"
    using create by (rule create_fields)
  then have f: "generatedMappings d = getGeneratedMappings ds"
    "sourceFileAbsolutePaths d = source_paths sm (GetDirectoryPath mapPath)" using ds by simp_all
  let ?ms = "getGeneratedMappings ds"
  have keyed: "keyed generatedPosition ?ms"
    unfolding getGeneratedMappings_def by (intro DeduplicateSorted_keyed sort_positions_keyed)
  obtain i found where i: "BinarySearchFunc ?ms (Pos loc) (\<lambda>m p. generatedPosition m - p) = (i, found)" by fastforce
  note search = BinarySearchFunc_nearest [OF keyed i]
  have all: "(\<forall>m\<in>set ?ms. generatedPosition m < Pos loc) \<longleftrightarrow> (\<forall>m\<in>set ds. generatedPosition m < Pos loc)"
    unfolding getGeneratedMappings_def
    using all_less_deduplicated [where eq = same_position and key = generatedPosition, OF same_position_keys(1)] by simp
  show ?thesis
  proof (cases "\<forall>m\<in>set ds. generatedPosition m < Pos loc")
    case True
    then have "length ?ms \<le> i" using search all by simp
    then have "GetSourcePosition (Some d) loc = Some None" using i by (simp add: GetSourcePosition_def f)
    with True show ?thesis by simp
  next
    case False
    then have i': "i < length ?ms" "nearest generatedPosition (set ?ms) (Pos loc) (?ms ! i)"
      using search all by (simp_all split: if_splits)
    have near: "nearest generatedPosition (set ds) (Pos loc) (?ms ! i)"
      using nearest_deduplicated [OF i'(2) [unfolded getGeneratedMappings_def] same_position_keys(1)]
      by (simp add: getGeneratedMappings_def)
    then have "?ms ! i \<in> set ds" by (simp add: nearest_def)
    then have "GetSourcePosition (Some d) loc = Some (if isSourceMappedPosition (?ms ! i)
            then Some \<lparr>FileName = source_paths sm (GetDirectoryPath mapPath) ! nat (positionSource (?ms ! i)), Pos = sourcePosition (?ms ! i)\<rparr>
            else None)"
      using i i'(1) decoded_source [OF ds, of "?ms ! i"] by (auto simp: GetSourcePosition_def f Let_def)
    with near False show ?thesis by auto
  qed
qed

lemma GetGeneratedPosition_found:
  assumes create: "createDocumentPositionMapper U host sm mapPath = Some d" "snd (decode_mappings (rawMappings sm)) = None"
    and ds: "decoded_positions host sm mapPath = Some ds"
    and index: "sourceIndexOf d (GetCanonicalFileName U (FileName loc) (UseCaseSensitiveFileNames_of host)) = Some (int k)"
  shows "if card (mapped_sources ds) \<le> k \<or> (\<forall>m\<in>set (mapped_in ds (int k)). sourcePosition m < Pos loc)
    then GetGeneratedPosition U (Some d) loc = None
    else \<exists>m. nearest sourcePosition (set (mapped_in ds (int k))) (Pos loc) m \<and> GetGeneratedPosition U (Some d) loc =
      Some \<lparr>FileName = GetNormalizedAbsolutePath (rawFile sm) (GetDirectoryPath mapPath), Pos = generatedPosition m\<rparr>"
proof -
  obtain ds' where "decoded_positions host sm mapPath = Some ds'" "sourceMappings d = getSourceMappings ds'"
    "generatedAbsoluteFilePath d = GetNormalizedAbsolutePath (rawFile sm) (GetDirectoryPath mapPath)"
    "mapperCaseSensitive d = UseCaseSensitiveFileNames_of host"
    using create by (rule create_fields)
  then have f: "sourceMappings d = getSourceMappings ds" "mapperCaseSensitive d = UseCaseSensitiveFileNames_of host"
    "generatedAbsoluteFilePath d = GetNormalizedAbsolutePath (rawFile sm) (GetDirectoryPath mapPath)" using ds by simp_all
  let ?G = "mapped_in ds (int k)"
  define ms where "ms = DeduplicateSorted (sort_positions sourcePosition ?G) same_position"
  have lookup: "(case map_of (getSourceMappings ds) (int k) of Some ms \<Rightarrow> ms | None \<Rightarrow> []) = ms"
    by (auto simp: getSourceMappings_lookup ms_def DeduplicateSorted_def sort_positions_def sort_slice_def)
  have keyed: "keyed sourcePosition ms"
    unfolding ms_def by (intro DeduplicateSorted_keyed sort_positions_keyed)
  obtain i found where i: "BinarySearchFunc ms (Pos loc) (\<lambda>m p. sourcePosition m - p) = (i, found)" by fastforce
  note search = BinarySearchFunc_nearest [OF keyed i]
  have all: "(\<forall>m\<in>set ms. sourcePosition m < Pos loc) \<longleftrightarrow> (\<forall>m\<in>set ?G. sourcePosition m < Pos loc)"
    unfolding ms_def
    using all_less_deduplicated [where eq = same_position and key = sourcePosition, OF same_position_keys(2)] by simp
  have get: "GetGeneratedPosition U (Some d) loc =
    (if card (mapped_sources ds) \<le> k \<or> length ms \<le> i \<or> positionSource (ms ! i) \<noteq> int k then None
     else Some \<lparr>FileName = generatedAbsoluteFilePath d, Pos = generatedPosition (ms ! i)\<rparr>)"
    using index i by (simp add: GetGeneratedPosition_def f getSourceMappings_length lookup)
  show ?thesis
  proof (cases "card (mapped_sources ds) \<le> k \<or> (\<forall>m\<in>set ?G. sourcePosition m < Pos loc)")
    case True
    then show ?thesis using get search all by auto
  next
    case False
    then have i': "i < length ms" "nearest sourcePosition (set ms) (Pos loc) (ms ! i)"
      using search all by (auto split: if_splits)
    then have "nearest sourcePosition (set ?G) (Pos loc) (ms ! i)"
      using nearest_deduplicated [OF i'(2) [unfolded ms_def] same_position_keys(2)] by (simp add: ms_def)
    moreover from this have "positionSource (ms ! i) = int k" by (auto simp: nearest_def mapped_in_def)
    ultimately show ?thesis using False i'(1) get f(3) by auto
  qed
qed

text \<open>C28: For every source map without an error, the source position of a generated position is that of the
  nearest mapping at or after it: nothing when all mappings lie before it or when that mapping has
  no source, and otherwise the file and the position the mapping was decoded to. The lookup never
  panics, and sorting and removing duplicates change nothing.\<close>
theorem GetSourcePosition_nearest:
  assumes "createDocumentPositionMapper U host sm mapPath = Some d" "snd (decode_mappings (rawMappings sm)) = None"
    and "decoded_positions host sm mapPath = Some ds"
  shows "if \<forall>m\<in>set ds. generatedPosition m < Pos loc then GetSourcePosition (Some d) loc = Some None
    else \<exists>m. nearest generatedPosition (set ds) (Pos loc) m \<and> GetSourcePosition (Some d) loc =
      Some (if isSourceMappedPosition m
            then Some \<lparr>FileName = source_paths sm (GetDirectoryPath mapPath) ! nat (positionSource m), Pos = sourcePosition m\<rparr>
            else None)"
  using assms by (rule GetSourcePosition_found)

section \<open>Sources without mappings\<close>

lemma mapped_sources_range:
  assumes "decoded_positions host sm mapPath = Some ds"
  shows "mapped_sources ds \<subseteq> int ` {..<length (source_paths sm (GetDirectoryPath mapPath))}"
proof
  fix i assume "i \<in> mapped_sources ds"
  then obtain m where "m \<in> set ds" "isSourceMappedPosition m" "positionSource m = i"
    by (auto simp: mapped_sources_def mapped_in_def filter_empty_conv)
  then have "0 \<le> i \<and> i < int (length (source_paths sm (GetDirectoryPath mapPath)))"
    using decoded_source [OF assms] by blast
  then show "i \<in> int ` {..<length (source_paths sm (GetDirectoryPath mapPath))}"
    by (intro image_eqI [of _ _ "nat i"]) auto
qed

text \<open>C29: A generated position is lost although a mapping leads to it: the index of a source is compared with the
  number of sources that have mappings, so as soon as as many sources as its index or fewer have any,
  which means that one before it has none, every position of the source is answered with nothing.\<close>
theorem later_source_lost:
  assumes create: "createDocumentPositionMapper U host sm mapPath = Some d" "snd (decode_mappings (rawMappings sm)) = None"
    and ds: "decoded_positions host sm mapPath = Some ds"
    and index: "sourceIndexOf d (GetCanonicalFileName U file (UseCaseSensitiveFileNames_of host)) = Some (int k)"
    and m: "m \<in> set ds" "isSourceMappedPosition m" "positionSource m = int k"
    and few: "card (mapped_sources ds) \<le> k"
  shows "GetGeneratedPosition U (Some d) \<lparr>FileName = file, Pos = sourcePosition m\<rparr> = None
    \<and> (\<exists>j<k. mapped_in ds (int j) = [])"
proof
  show "GetGeneratedPosition U (Some d) \<lparr>FileName = file, Pos = sourcePosition m\<rparr> = None"
    using GetGeneratedPosition_found [OF create ds, of "\<lparr>FileName = file, Pos = sourcePosition m\<rparr>" k] index few by simp
  show "\<exists>j<k. mapped_in ds (int j) = []"
  proof (rule ccontr)
    assume "\<not> ?thesis"
    then have "int ` {..<k} \<subseteq> mapped_sources ds" by (auto simp: mapped_sources_def)
    moreover have "int k \<in> mapped_sources ds" using m by (auto simp: mapped_sources_def mapped_in_def filter_empty_conv)
    ultimately have "int ` {..k} \<subseteq> mapped_sources ds" by (simp add: lessThan_Suc_atMost [symmetric] lessThan_Suc)
    moreover have "finite (mapped_sources ds)" by (rule finite_subset [OF mapped_sources_range [OF ds]]) simp
    ultimately have "card (int ` {..k}) \<le> card (mapped_sources ds)" by (rule card_mono [rotated])
    then show False using few by (simp add: card_image)
  qed
qed

lemma create_None:
  "createDocumentPositionMapper U host sm mapPath = None \<longleftrightarrow> decoded_positions host sm mapPath = None"
  unfolding createDocumentPositionMapper_def decoded_positions_def Let_def
  by (cases "decode_mappings (rawMappings sm)") (simp split: option.split)

lemma create_Some:
  assumes "decoded_positions host sm mapPath = Some ds"
  obtains d where "createDocumentPositionMapper U host sm mapPath = Some d"
  using create_None [of U host sm mapPath] assms by (cases "createDocumentPositionMapper U host sm mapPath") simp_all

text \<open>A source map of two sources, of which only the second has a mapping.\<close>

definition sparse_map :: RawSourceMap where
  "sparse_map = \<lparr>rawVersion = 3, rawFile = ''o.js'', rawSourceRoot = [], rawSourceList = [''types.ts'', ''b.ts''],
     rawNames = [], rawMappings = ''ACAA'', rawSourcesContent = []\<rparr>"

definition sparse_host :: Host where
  "sparse_host = \<lparr>UseCaseSensitiveFileNames_of = True, GetECMALineInfo = (\<lambda>_. Some (CreateECMALineInfo ''x'' [0])),
     ReadFile = (\<lambda>_. None)\<rparr>"

definition sparse_position :: SourceMappedPosition where
  "sparse_position = \<lparr>generatedPosition = 0, sourcePosition = 0, positionSource = 1, positionName = -1\<rparr>"

lemma sparse_decoded:
  "decode_mappings (rawMappings sparse_map) =
     ([\<lparr>GeneratedLine = 0, GeneratedCharacter = 0, SourceIndex = 1, SourceLine = 0, SourceCharacter = 0, NameIndex = -1\<rparr>], None)"
  by code_simp

lemma sparse_positions: "decoded_positions sparse_host sparse_map ''/p/o.js.map'' = Some [sparse_position]"
  by code_simp

lemma sparse_index:
  "index_sources plain_tables True (source_paths sparse_map (GetDirectoryPath ''/p/o.js.map'')) ''/p/b.ts'' = Some (int 1)"
  by code_simp

theorem GetSourcePosition_nearest_witness:
  "\<exists>d m. createDocumentPositionMapper plain_tables sparse_host sparse_map ''/p/o.js.map'' = Some d
    \<and> nearest generatedPosition {sparse_position} 0 m
    \<and> GetSourcePosition (Some d) \<lparr>FileName = ''/p/o.js'', Pos = 0\<rparr> =
        Some (if isSourceMappedPosition m
          then Some \<lparr>FileName = source_paths sparse_map (GetDirectoryPath ''/p/o.js.map'') ! nat (positionSource m), Pos = sourcePosition m\<rparr>
          else None)"
proof -
  obtain d where d: "createDocumentPositionMapper plain_tables sparse_host sparse_map ''/p/o.js.map'' = Some d"
    using sparse_positions by (rule create_Some)
  have "snd (decode_mappings (rawMappings sparse_map)) = None" by (simp only: sparse_decoded snd_conv)
  from GetSourcePosition_nearest [OF d this sparse_positions, of "\<lparr>FileName = ''/p/o.js'', Pos = 0\<rparr>"] d
  show ?thesis by (simp add: sparse_position_def)
qed

theorem later_source_lost_witness:
  "\<exists>d. createDocumentPositionMapper plain_tables sparse_host sparse_map ''/p/o.js.map'' = Some d
    \<and> GetGeneratedPosition plain_tables (Some d) \<lparr>FileName = ''/p/b.ts'', Pos = sourcePosition sparse_position\<rparr> = None"
proof -
  obtain d where d: "createDocumentPositionMapper plain_tables sparse_host sparse_map ''/p/o.js.map'' = Some d"
    using sparse_positions by (rule create_Some)
  have e: "snd (decode_mappings (rawMappings sparse_map)) = None" by (simp only: sparse_decoded snd_conv)
  have case_sensitive: "UseCaseSensitiveFileNames_of sparse_host" by (simp add: sparse_host_def)
  obtain ds where "sourceIndexOf d = index_sources plain_tables (UseCaseSensitiveFileNames_of sparse_host)
      (source_paths sparse_map (GetDirectoryPath ''/p/o.js.map''))"
    using d e by (rule create_fields)
  then have index: "sourceIndexOf d (GetCanonicalFileName plain_tables ''/p/b.ts'' (UseCaseSensitiveFileNames_of sparse_host))
      = Some (int 1)"
    using sparse_index case_sensitive by (simp add: GetCanonicalFileName_def)
  have m: "isSourceMappedPosition sparse_position" "positionSource sparse_position = int 1"
    by (simp_all add: isSourceMappedPosition_def sparse_position_def)
  have "mapped_sources [sparse_position] = {1}"
    by (auto simp: mapped_sources_def mapped_in_def isSourceMappedPosition_def sparse_position_def)
  then have few: "card (mapped_sources [sparse_position]) \<le> 1" by simp
  show ?thesis using later_source_lost [OF d e sparse_positions index _ m few] d by simp
qed

section \<open>Panics\<close>

lemma character_loop_total: "lineEnd \<le> length s \<Longrightarrow> character_loop s lineEnd character p n \<noteq> None"
proof (induction s lineEnd character p n rule: character_loop.induct)
  case (1 s lineEnd character p n)
  show ?case
    using "1.IH" [OF _ _ _ refl prod.collapse "1.prems"] "1.prems"
    unfolding character_loop.simps [of s lineEnd character p n] by (simp add: split_beta)
qed

lemma ECMA_position_total:
  "ComputePositionOfLineAndUTF16Character (ComputeECMALineStarts s) line character s True \<noteq> None"
proof -
  let ?starts = "ComputeECMALineStarts s"
  define l where "l = (if line < 0 then 0 else if line \<ge> int (length ?starts) then int (length ?starts) - 1 else line)"
  have l: "0 \<le> l" "l < int (length ?starts)" using ECMA.nonempty [of s] by (auto simp: l_def)
  define e where "e = (if l + 1 < int (length ?starts) then ?starts ! nat (l + 1) else length s)"
  have "e \<le> length s" using ECMA.start_le [of "nat (l + 1)" s] l by (auto simp: e_def)
  then have "character_loop s e character (?starts ! nat l) 0 \<noteq> None" by (rule character_loop_total)
  then show ?thesis
    using l unfolding ComputePositionOfLineAndUTF16Character_def
    by (simp add: l_def [symmetric] e_def [symmetric] Let_def split: option.splits prod.splits del: not_None_eq)
qed

text \<open>The host's line starts are those of its texts.\<close>

definition host_lines_ok :: "Host \<Rightarrow> bool" where
  "host_lines_ok host \<longleftrightarrow>
     (\<forall>f li. GetECMALineInfo host f = Some li \<longrightarrow> info_starts li = ComputeECMALineStarts (info_text li))"

lemma line_position_total:
  "host_lines_ok host \<Longrightarrow> line_position (GetECMALineInfo host f) line character \<noteq> None"
  using ECMA_position_total by (auto simp: line_position_def host_lines_ok_def split: option.splits)

lemma processMapping_None:
  assumes "host_lines_ok host"
  shows "processMapping host gen paths m = None
    \<longleftrightarrow> IsSourceMapping m \<and> \<not> (0 \<le> SourceIndex m \<and> SourceIndex m < int (length paths))"
proof -
  obtain gp where "line_position (GetECMALineInfo host gen) (GeneratedLine m) (GeneratedCharacter m) = Some gp"
    using line_position_total [OF assms] by blast
  moreover obtain sp where "line_position (GetECMALineInfo host (paths ! nat (SourceIndex m))) (SourceLine m) (SourceCharacter m) = Some sp"
    using line_position_total [OF assms] by blast
  ultimately show ?thesis by (simp add: processMapping_def)
qed

lemma those_None: "those (map f xs) = None \<longleftrightarrow> (\<exists>x\<in>set xs. f x = None)"
  by (induction xs) (auto split: option.splits)

text \<open>C30: Building a mapper panics exactly when a mapping of the source map names a source that the source map does
  not list. Nothing checks the indices of a source map that has been read, so such a file stops the
  compiler or the language server.\<close>
theorem createDocumentPositionMapper_panics:
  assumes "host_lines_ok host"
  shows "createDocumentPositionMapper U host sm mapPath = None
    \<longleftrightarrow> (\<exists>m\<in>set (fst (decode_mappings (rawMappings sm))). IsSourceMapping m
          \<and> \<not> (0 \<le> SourceIndex m \<and> SourceIndex m < int (length (rawSourceList sm))))"
  unfolding create_None decoded_positions_def Let_def those_None processMapping_None [OF assms]
  by (simp add: source_paths_def Let_def)

theorem createDocumentPositionMapper_panics_witness:
  "createDocumentPositionMapper plain_tables (sparse_host\<lparr>GetECMALineInfo := \<lambda>_. None\<rparr>)
     (sparse_map\<lparr>rawSourceList := [''b.ts'']\<rparr>) ''/p/o.js.map'' = None"
proof -
  have "host_lines_ok (sparse_host\<lparr>GetECMALineInfo := \<lambda>_. None\<rparr>)" by (simp add: host_lines_ok_def)
  from createDocumentPositionMapper_panics [OF this] show ?thesis
    by (simp add: sparse_decoded IsSourceMapping_def)
qed

lemma CutPrefix_cases: "CutPrefix s p = (if HasPrefix s p then (drop (length p) s, True) else (s, False))"
  by (simp add: CutPrefix_def)

text \<open>The parser of data URLs panics exactly on those that end less than six bytes after \<open>charset=\<close>: the slice
  that is compared with \<open>utf-8;\<close> is taken without a look at the length. The URL is the text of a
  comment at the end of any file that is read.\<close>
theorem tryParseBase64Url_panics:
  "tryParseBase64Url U url = None
    \<longleftrightarrow> (\<exists>rest. url = ''data:application/json;charset='' @ rest \<and> length rest < 6)"
  by (auto simp: tryParseBase64Url_def CutPrefix_cases HasPrefix_iff slice_text_def split: if_splits)

end
