(* ===== verification/SourceMapperRoundtrip.thy ===== *)
theory SourceMapperRoundtrip
  imports SourceMapperCorrect
begin

text \<open>
  From positions to a source map and back: \<open>write_map\<close> gives a generator the mappings of a list of
  \<open>links\<close>, each a generated position, the index of a source and a position in it, with the lines and
  characters the scanner computes, and takes the source map; the mapper that is made of it leads from
  each generated position to its source position and back.
\<close>

section \<open>Lines and characters are ordered like positions\<close>

lemma units_take_bounds: "0 \<le> units (take n s) \<and> units (take n s) \<le> 2 * int n"
proof (induction "length s" arbitrary: s n rule: less_induct)
  case less
  show ?case
  proof (cases "take n s = []")
    case False
    then have s: "s \<noteq> []" "0 < n" by auto
    define t where "t = take n s"
    have t: "t \<noteq> []" "length t \<le> n" using False by (simp_all add: t_def)
    define k where "k = snd (decode_rune t)"
    have k: "0 < k" using decode_rune_size_pos [OF t(1)] by (simp add: k_def)
    have rest: "drop k t = take (n - k) (drop k s)" by (simp add: t_def drop_take)
    have "0 \<le> units (drop k t) \<and> units (drop k t) \<le> 2 * int (n - k)"
      unfolding rest using less [of "drop k s" "n - k"] k s by simp
    moreover have "units t = utf16_RuneLen (fst (decode_rune t)) + units (drop k t)"
      using units_unfold [OF t(1)] by (simp add: k_def)
    moreover have "utf16_RuneLen (fst (decode_rune t)) \<in> {1, 2}" using RuneLen_decoded [of t] by simp
    moreover have "drop k t = []" if "\<not> k \<le> n" using that t(2) by simp
    ultimately show ?thesis using k t_def s(2) by (cases "k \<le> n") auto
  qed auto
qed

lemma units_take_less:
  "rune_boundary s n \<Longrightarrow> rune_boundary s n' \<Longrightarrow> n < n' \<Longrightarrow> units (take n s) < units (take n' s)"
proof (induction "length s" arbitrary: s n n' rule: less_induct)
  case less
  show ?case
    using less.prems(1)
  proof (cases rule: boundary_cases)
    case 1
    then show ?thesis using units_take_pos [OF less.prems(2)] less.prems(3) RuneLen_pos [of s] by simp
  next
    case (2 q)
    let ?k = "snd (decode_rune s)"
    have "length (drop ?k s) < length s" using decode_rune_size_pos [OF 2(1)] 2(1) by simp
    moreover have "rune_boundary (drop ?k s) (n' - ?k)" "?k \<le> n'"
      using less.prems(2,3) 2 by (simp_all add: rune_boundary.simps [of s n'])
    ultimately have "units (take q (drop ?k s)) < units (take (n' - ?k) (drop ?k s))"
      using less.hyps [of "drop ?k s" q "n' - ?k"] 2 less.prems(3) by simp
    then show ?thesis
      using units_take_step [OF 2(1), of n] units_take_step [OF 2(1), of n'] 2 \<open>?k \<le> n'\<close> by simp
  qed
qed

text \<open>Where a position is: its line and character, which the mapper turns back into it.\<close>

definition locates :: "string \<Rightarrow> nat \<Rightarrow> int \<Rightarrow> int \<Rightarrow> bool" where
  "locates s p line character \<longleftrightarrow>
     GetECMALineAndUTF16CharacterOfPosition s p = Some (line, character)
     \<and> ComputePositionOfLineAndUTF16Character (ComputeECMALineStarts s) line character s True = Some p
     \<and> 0 \<le> line \<and> line \<le> int (length s) \<and> 0 \<le> character \<and> character \<le> 2 * int (length s)"

lemma starts_length: "length (ComputeECMALineStarts s) \<le> length s + 1"
proof -
  have "i \<le> ComputeECMALineStarts s ! i" if "i < length (ComputeECMALineStarts s)" for i
    using that
  proof (induction i)
    case (Suc i)
    then show ?case using ECMA.increasing [of i "Suc i" s] by simp
  qed simp
  then have "length (ComputeECMALineStarts s) - 1 \<le> ComputeECMALineStarts s ! (length (ComputeECMALineStarts s) - 1)"
    using ECMA.nonempty [of s] by simp
  then show ?thesis using ECMA.start_le [of "length (ComputeECMALineStarts s) - 1" s] ECMA.nonempty [of s] by simp
qed

lemma locates_boundary:
  assumes "rune_boundary s p"
  obtains line character where "locates s p line character"
proof -
  obtain i where i: "GetECMALineAndUTF16CharacterOfPosition s p
       = Some (int i, units (take (p - ComputeECMALineStarts s ! i) (drop (ComputeECMALineStarts s ! i) s)))"
    "ECMA.on_line s i p"
    "\<And>allowEdits. ComputePositionOfLineAndUTF16Character (ComputeECMALineStarts s) (int i)
       (units (take (p - ComputeECMALineStarts s ! i) (drop (ComputeECMALineStarts s ! i) s))) s allowEdits = Some p"
    using assms by (rule ECMA_line_character) blast
  have "p \<le> length s" using assms by (rule boundary_le)
  moreover have "int i \<le> int (length s)" using i(2) starts_length [of s] by (simp add: ECMA.on_line_def)
  moreover note units_take_bounds [of "p - ComputeECMALineStarts s ! i" "drop (ComputeECMALineStarts s ! i) s"]
  ultimately show thesis
    by (intro that [of "int i" "units (take (p - ComputeECMALineStarts s ! i) (drop (ComputeECMALineStarts s ! i) s))"])
      (use i in \<open>auto simp: locates_def\<close>)
qed

lemma locates_order:
  assumes "rune_boundary s p" "rune_boundary s q" "p < q" "locates s p l c" "locates s q l' c'"
  shows "l < l' \<or> l = l' \<and> c < c'"
proof -
  let ?S = "ComputeECMALineStarts s"
  obtain i where i: "GetECMALineAndUTF16CharacterOfPosition s p = Some (int i, units (take (p - ?S ! i) (drop (?S ! i) s)))"
    "ECMA.on_line s i p" using assms(1) by (rule ECMA_line_character) blast
  obtain j where j: "GetECMALineAndUTF16CharacterOfPosition s q = Some (int j, units (take (q - ?S ! j) (drop (?S ! j) s)))"
    "ECMA.on_line s j q" using assms(2) by (rule ECMA_line_character) blast
  have eqs: "l = int i" "c = units (take (p - ?S ! i) (drop (?S ! i) s))"
    "l' = int j" "c' = units (take (q - ?S ! j) (drop (?S ! j) s))"
    using assms(4,5) i(1) j(1) by (simp_all add: locates_def)
  have "\<not> j < i"
  proof
    assume "j < i"
    then have "?S ! (j + 1) \<le> ?S ! i" using ECMA.increasing_le [of "j + 1" i s] i(2) by (simp add: ECMA.on_line_def)
    then show False using \<open>j < i\<close> i(2) j(2) assms(3) by (simp add: ECMA.on_line_def)
  qed
  moreover have "c < c'" if "i = j"
  proof -
    have "rune_boundary (drop (?S ! i) s) (p - ?S ! i)" "rune_boundary (drop (?S ! i) s) (q - ?S ! i)"
      using ECMA.on_line_boundary [OF i(2) assms(1)] ECMA.on_line_boundary [OF j(2) assms(2)] that by simp_all
    then show ?thesis
      unfolding eqs that [symmetric] using i(2) assms(3) by (intro units_take_less) (auto simp: ECMA.on_line_def)
  qed
  ultimately show ?thesis using eqs by linarith
qed

section \<open>Writing a source map\<close>

definition link_mapping :: "string \<Rightarrow> string list \<Rightarrow> nat \<times> nat \<times> nat \<Rightarrow> Mapping panics" where
  "link_mapping gen srcs link =
     (case link of (p, i, q) \<Rightarrow>
        Option.bind (GetECMALineAndUTF16CharacterOfPosition gen p) (\<lambda>(gl, gc).
        Option.bind (GetECMALineAndUTF16CharacterOfPosition (srcs ! i) q) (\<lambda>(sl, sc).
        Some \<lparr>GeneratedLine = gl, GeneratedCharacter = gc, SourceIndex = int i, SourceLine = sl, SourceCharacter = sc,
              NameIndex = -1\<rparr>)))"

definition write_map ::
  "unicode_tables \<Rightarrow> Generator \<Rightarrow> string list \<Rightarrow> string \<Rightarrow> string list \<Rightarrow> (nat \<times> nat \<times> nat) list \<Rightarrow> RawSourceMap panics"
where
  "write_map U g fileNames gen srcs links =
     Option.bind (those (map (link_mapping gen srcs) links)) (\<lambda>ms.
     Option.bind (run_ops U (map mapping_op ms) (declare_all U fileNames [] g) []) (\<lambda>(g', log).
     map_option fst (RawSourceMap_of g')))"

definition link_ok :: "string \<Rightarrow> string list \<Rightarrow> nat \<times> nat \<times> nat \<Rightarrow> bool" where
  "link_ok gen srcs link \<longleftrightarrow>
     (case link of (p, i, q) \<Rightarrow> rune_boundary gen p \<and> i < length srcs \<and> rune_boundary (srcs ! i) q)"

text \<open>A host that has the texts: of the generated file and of the sources, under their absolute paths.\<close>

definition serves :: "Host \<Rightarrow> RawSourceMap \<Rightarrow> string \<Rightarrow> string \<Rightarrow> string list \<Rightarrow> bool" where
  "serves host sm mapPath gen srcs \<longleftrightarrow>
     (let dir = GetDirectoryPath mapPath; info = (\<lambda>s. Some (CreateECMALineInfo s (ComputeECMALineStarts s))) in
      GetECMALineInfo host (GetNormalizedAbsolutePath (rawFile sm) dir) = info gen
      \<and> (\<forall>i<length srcs. GetECMALineInfo host (source_paths sm dir ! i) = info (srcs ! i)))"

definition link_position :: "nat \<times> nat \<times> nat \<Rightarrow> SourceMappedPosition" where
  "link_position link =
     (case link of (p, i, q) \<Rightarrow>
        \<lparr>generatedPosition = int p, sourcePosition = int q, positionSource = int i, positionName = -1\<rparr>)"

lemma link_mapping_located:
  assumes "link_ok gen srcs (p, i, q)"
  obtains gl gc sl sc where "locates gen p gl gc" "locates (srcs ! i) q sl sc"
    "link_mapping gen srcs (p, i, q) = Some \<lparr>GeneratedLine = gl, GeneratedCharacter = gc, SourceIndex = int i,
       SourceLine = sl, SourceCharacter = sc, NameIndex = -1\<rparr>"
proof -
  obtain gl gc where g: "locates gen p gl gc" using assms by (auto simp: link_ok_def elim: locates_boundary)
  obtain sl sc where "locates (srcs ! i) q sl sc" using assms by (auto simp: link_ok_def elim: locates_boundary)
  with g show thesis by (intro that) (simp_all add: link_mapping_def locates_def)
qed

lemma link_mappings:
  assumes ok: "list_all (link_ok gen srcs) links" and small: "length gen < 2 ^ 31" "\<forall>s\<in>set srcs. length s < 2 ^ 31"
    and n: "n = length srcs" "n < 2 ^ 31" and sorted: "sorted_wrt (<) (map fst links)"
  obtains ms where "those (map (link_mapping gen srcs) links) = Some ms" "list_all (valid_mapping n k) ms"
    "sorted_wrt position_less ms" "length ms = length links"
    "\<And>j. j < length links \<Longrightarrow> link_mapping gen srcs (links ! j) = Some (ms ! j)"
proof -
  have some: "link_mapping gen srcs l \<noteq> None" if "l \<in> set links" for l
  proof -
    obtain p i q where l: "l = (p, i, q)" by (cases l)
    have "link_ok gen srcs (p, i, q)" using ok that l by (auto simp: list_all_iff)
    then show ?thesis unfolding l by (rule link_mapping_located) simp
  qed
  define ms where "ms = map (\<lambda>l. the (link_mapping gen srcs l)) links"
  have nth: "link_mapping gen srcs (links ! j) = Some (ms ! j)" if "j < length links" for j
    using some [of "links ! j"] that by (auto simp: ms_def)
  have located: "\<exists>p i q gl gc sl sc. links ! j = (p, i, q) \<and> link_ok gen srcs (p, i, q) \<and> locates gen p gl gc
      \<and> locates (srcs ! i) q sl sc \<and> ms ! j = \<lparr>GeneratedLine = gl, GeneratedCharacter = gc, SourceIndex = int i,
       SourceLine = sl, SourceCharacter = sc, NameIndex = -1\<rparr>" if j: "j < length links" for j
  proof -
    obtain p i q where l: "links ! j = (p, i, q)" by (cases "links ! j")
    have lo: "link_ok gen srcs (p, i, q)" using ok j l by (metis list_all_length)
    then obtain gl gc sl sc where *: "locates gen p gl gc" "locates (srcs ! i) q sl sc"
      "link_mapping gen srcs (p, i, q) = Some \<lparr>GeneratedLine = gl, GeneratedCharacter = gc, SourceIndex = int i,
       SourceLine = sl, SourceCharacter = sc, NameIndex = -1\<rparr>" by (rule link_mapping_located)
    moreover from * have "ms ! j = \<lparr>GeneratedLine = gl, GeneratedCharacter = gc, SourceIndex = int i,
       SourceLine = sl, SourceCharacter = sc, NameIndex = -1\<rparr>" using nth [OF j] l by simp
    ultimately show ?thesis using l lo by blast
  qed
  have valid: "valid_mapping n k (ms ! j)" if j: "j < length links" for j
  proof -
    obtain p i q gl gc sl sc where *: "link_ok gen srcs (p, i, q)" "locates gen p gl gc" "locates (srcs ! i) q sl sc"
      "ms ! j = \<lparr>GeneratedLine = gl, GeneratedCharacter = gc, SourceIndex = int i,
       SourceLine = sl, SourceCharacter = sc, NameIndex = -1\<rparr>" using located [OF j] by blast
    have "i < length srcs" using *(1) by (simp add: link_ok_def)
    moreover from this have "length (srcs ! i) < 2 ^ 31" using small(2) by simp
    ultimately show ?thesis
      using *(2-4) n small(1) by (auto simp: valid_mapping_def in_range_def locates_def)
  qed
  have less: "position_less (ms ! j) (ms ! j')" if j: "j < j'" "j' < length links" for j j'
  proof -
    obtain p i q gl gc where a: "links ! j = (p, i, q)" "link_ok gen srcs (p, i, q)" "locates gen p gl gc"
      "GeneratedLine (ms ! j) = gl" "GeneratedCharacter (ms ! j) = gc"
      using located [of j] j by fastforce
    obtain p' i' q' gl' gc' where b: "links ! j' = (p', i', q')" "link_ok gen srcs (p', i', q')" "locates gen p' gl' gc'"
      "GeneratedLine (ms ! j') = gl'" "GeneratedCharacter (ms ! j') = gc'"
      using located [of j'] j by fastforce
    have "p < p'" using sorted_wrt_nth_less [OF sorted, of j j'] j a(1) b(1) by simp
    then show ?thesis
      using locates_order [OF _ _ _ a(3) b(3)] a b by (auto simp: link_ok_def position_less_def)
  qed
  have len: "length ms = length links" by (simp add: ms_def)
  show thesis
    by (rule that [of ms])
      (use nth valid less len in \<open>auto simp: those_Some list_all_length sorted_wrt_iff_nth_less\<close>)
qed

section \<open>Reading it back\<close>

lemma line_position_served: "locates s p line character \<Longrightarrow>
  line_position (Some (CreateECMALineInfo s (ComputeECMALineStarts s))) line character = Some (int p)"
  by (simp add: line_position_def CreateECMALineInfo_def locates_def)

lemma written_positions:
  assumes small: "length gen < 2 ^ 31" "\<forall>s\<in>set srcs. length s < 2 ^ 31" "length srcs < 2 ^ 31"
    and ok: "list_all (link_ok gen srcs) links" and sorted: "sorted_wrt (<) (map fst links)"
    and sources: "length (sources (declare_all U fileNames [] (NewGenerator f r dir opts))) = length srcs"
  obtains raw where "write_map U (NewGenerator f r dir opts) fileNames gen srcs links = Some raw"
    "snd (decode_mappings (rawMappings raw)) = None"
    "\<And>host mapPath. serves host raw mapPath gen srcs
       \<Longrightarrow> decoded_positions host raw mapPath = Some (map link_position links)"
    "length (rawSourceList raw) = length srcs"
proof -
  let ?g0 = "declare_all U fileNames [] (NewGenerator f r dir opts)"
  obtain ms where ms: "those (map (link_mapping gen srcs) links) = Some ms"
    "list_all (valid_mapping (length srcs) (length (genNames ?g0))) ms" "sorted_wrt position_less ms"
    "length ms = length links" "\<And>j. j < length links \<Longrightarrow> link_mapping gen srcs (links ! j) = Some (ms ! j)"
    using link_mappings [OF ok small(1,2) refl small(3) sorted] by blast
  obtain g log raw g' where run: "run_ops U (map mapping_op ms) ?g0 [] = Some (g, log)" "RawSourceMap_of g = Some (raw, g')"
    "decode_mappings (rawMappings raw) = (ms, None)" "rawSourceList raw = sources ?g0"
    using added_decode [OF refl, of U fileNames "[]" f r dir opts ms] ms(2,3) sources by auto
  have wm: "write_map U (NewGenerator f r dir opts) fileNames gen srcs links = Some raw"
    using ms(1) run(1,2) by (simp add: write_map_def)
  have pos: "decoded_positions host raw mapPath = Some (map link_position links)" if served: "serves host raw mapPath gen srcs" for host mapPath
  proof -
    let ?dir = "GetDirectoryPath mapPath"
    let ?gen = "GetNormalizedAbsolutePath (rawFile raw) ?dir" and ?paths = "source_paths raw ?dir"
    note S = served [unfolded serves_def Let_def]
    have paths: "length ?paths = length srcs" using run(4) sources by (simp add: source_paths_def Let_def)
    have "processMapping host ?gen ?paths (ms ! j) = Some (link_position (links ! j))" if j: "j < length links" for j
    proof -
      obtain p i q where l: "links ! j = (p, i, q)" by (cases "links ! j")
      have lo: "link_ok gen srcs (p, i, q)" using ok j l by (metis list_all_length)
      then obtain gl gc sl sc where *: "locates gen p gl gc" "locates (srcs ! i) q sl sc"
        "link_mapping gen srcs (p, i, q) = Some \<lparr>GeneratedLine = gl, GeneratedCharacter = gc, SourceIndex = int i,
         SourceLine = sl, SourceCharacter = sc, NameIndex = -1\<rparr>" by (rule link_mapping_located)
      from * have m: "ms ! j = \<lparr>GeneratedLine = gl, GeneratedCharacter = gc, SourceIndex = int i,
         SourceLine = sl, SourceCharacter = sc, NameIndex = -1\<rparr>" using ms(5) [OF j] l by simp
      have i: "i < length srcs" using lo by (simp add: link_ok_def)
      have "IsSourceMapping (ms ! j)" using *(2) by (simp add: m IsSourceMapping_def locates_def)
      then show ?thesis
        using S i paths *(1,2) by (simp add: processMapping_def m l line_position_served link_position_def)
    qed
    then show ?thesis
      using ms(4) run(3) by (simp add: decoded_positions_def Let_def those_Some)
  qed
  have "snd (decode_mappings (rawMappings raw)) = None" "length (rawSourceList raw) = length srcs"
    using run(3,4) sources by simp_all
  with wm pos show thesis by (intro that [of raw]) blast+
qed

text \<open>When all links lead to a source position of their own, all sources have one, and no two sources have
  the same path, the way back is defined too.\<close>

definition reversible :: "unicode_tables \<Rightarrow> Host \<Rightarrow> string list \<Rightarrow> (nat \<times> nat \<times> nat) list \<Rightarrow> bool" where
  "reversible U host paths links \<longleftrightarrow>
     distinct (map snd links) \<and> set (map (fst \<circ> snd) links) = {..<length paths}
     \<and> distinct (map (\<lambda>path. GetCanonicalFileName U path (UseCaseSensitiveFileNames_of host)) paths)"

lemma index_sources_lookup:
  assumes "distinct (map (\<lambda>path. GetCanonicalFileName U path b) paths)" "i < length paths"
  shows "index_sources U b paths (GetCanonicalFileName U (paths ! i) b) = Some (int i)"
  using assms
proof (induction paths rule: rev_induct)
  case (snoc x xs)
  have "index_sources U b (xs @ [x]) = (index_sources U b xs)(GetCanonicalFileName U x b \<mapsto> int (length xs))"
    by (simp add: index_sources_def enumerate_append_eq)
  moreover have "GetCanonicalFileName U (xs ! i) b \<noteq> GetCanonicalFileName U x b" if "i < length xs"
    using that snoc.prems(1) by (auto dest!: nth_mem) (metis image_eqI)
  ultimately show ?case
    using snoc by (cases "i < length xs") (auto simp: nth_append less_Suc_eq)
qed simp

lemma nearest_unique: "nearest key M (key x) m \<Longrightarrow> x \<in> M \<Longrightarrow> key m = key x"
  by (auto simp: nearest_def intro: antisym)

lemma link_position_source:
  "isSourceMappedPosition (link_position (p, i, q))" "positionSource (link_position (p, i, q)) = int i"
  "generatedPosition (link_position (p, i, q)) = int p" "sourcePosition (link_position (p, i, q)) = int q"
  by (simp_all add: link_position_def isSourceMappedPosition_def)

lemma leads_to_source:
  assumes d: "createDocumentPositionMapper U host raw mapPath = Some d" "snd (decode_mappings (rawMappings raw)) = None"
    and ds: "decoded_positions host raw mapPath = Some (map link_position links)"
    and l: "(p, i, q) \<in> set links" and dist: "distinct (map fst links)"
  shows "GetSourcePosition (Some d) \<lparr>FileName = file, Pos = int p\<rparr>
    = Some (Some \<lparr>FileName = source_paths raw (GetDirectoryPath mapPath) ! i, Pos = int q\<rparr>)"
proof -
  let ?x = "link_position (p, i, q)"
  have x: "?x \<in> set (map link_position links)" using l by auto
  then have "\<not> (\<forall>m\<in>set (map link_position links). generatedPosition m < int p)"
    by (metis less_irrefl link_position_source(3))
  then have less: "\<not> (\<forall>m\<in>set (map link_position links). generatedPosition m < Pos \<lparr>FileName = file, Pos = int p\<rparr>)"
    by (simp only: DocumentPosition.simps not_False_eq_True)
  obtain m where m: "nearest generatedPosition (set (map link_position links)) (int p) m"
    "GetSourcePosition (Some d) \<lparr>FileName = file, Pos = int p\<rparr> =
      Some (if isSourceMappedPosition m
            then Some \<lparr>FileName = source_paths raw (GetDirectoryPath mapPath) ! nat (positionSource m), Pos = sourcePosition m\<rparr>
            else None)"
    using GetSourcePosition_found [OF d ds, of "\<lparr>FileName = file, Pos = int p\<rparr>", unfolded if_not_P [OF less]]
    by (auto simp only: DocumentPosition.simps)
  have "generatedPosition m = int p"
    using nearest_unique [of generatedPosition _ ?x m] m(1) x by (simp add: link_position_source)
  moreover obtain p' i' q' where l': "(p', i', q') \<in> set links" "m = link_position (p', i', q')"
    using m(1) by (auto simp: nearest_def)
  ultimately have "p' = p" by (simp add: link_position_source)
  then have "(p', i', q') = (p, i, q)"
    using dist l l'(1) by (metis distinct_map fst_conv inj_onD)
  then show ?thesis using m(2) l'(2) by (simp add: link_position_source)
qed

lemma leads_to_generated:
  assumes d: "createDocumentPositionMapper U host raw mapPath = Some d" "snd (decode_mappings (rawMappings raw)) = None"
    and ds: "decoded_positions host raw mapPath = Some (map link_position links)"
    and l: "(p, i, q) \<in> set links" and rev: "reversible U host (source_paths raw (GetDirectoryPath mapPath)) links"
  shows "GetGeneratedPosition U (Some d) \<lparr>FileName = source_paths raw (GetDirectoryPath mapPath) ! i, Pos = int q\<rparr>
    = Some \<lparr>FileName = GetNormalizedAbsolutePath (rawFile raw) (GetDirectoryPath mapPath), Pos = int p\<rparr>"
proof -
  let ?paths = "source_paths raw (GetDirectoryPath mapPath)" and ?ds = "map link_position links"
  let ?x = "link_position (p, i, q)" and ?loc = "\<lparr>FileName = ?paths ! i, Pos = int q\<rparr>"
  have all: "fst ` snd ` set links = {..<length ?paths}" using rev by (simp add: reversible_def image_comp)
  then have i: "i < length ?paths" using l by force
  obtain ds' where "sourceIndexOf d = index_sources U (UseCaseSensitiveFileNames_of host) ?paths"
    using d by (rule create_fields)
  then have index: "sourceIndexOf d (GetCanonicalFileName U (FileName ?loc) (UseCaseSensitiveFileNames_of host)) = Some (int i)"
    using index_sources_lookup [OF _ i] rev by (simp add: reversible_def)
  have "mapped_in ?ds (int k) \<noteq> []" if k: "k < length ?paths" for k
  proof -
    have "k \<in> fst ` snd ` set links" using k all by simp
    then obtain p' q' where "(p', k, q') \<in> set links" by auto
    then have "link_position (p', k, q') \<in> set (mapped_in ?ds (int k))" by (auto simp: mapped_in_def link_position_source)
    then show ?thesis by auto
  qed
  then have "int ` {..<length ?paths} \<subseteq> mapped_sources ?ds" by (auto simp: mapped_sources_def)
  then have "mapped_sources ?ds = int ` {..<length ?paths}" using mapped_sources_range [OF ds] by blast
  then have many: "\<not> card (mapped_sources ?ds) \<le> i" using i by (simp add: card_image)
  have x: "?x \<in> set (mapped_in ?ds (int i))" using l by (auto simp: mapped_in_def link_position_source)
  then have "\<not> (\<forall>m\<in>set (mapped_in ?ds (int i)). sourcePosition m < Pos ?loc)"
    by (metis DocumentPosition.select_convs(2) less_irrefl link_position_source(4))
  with many obtain m where m: "nearest sourcePosition (set (mapped_in ?ds (int i))) (Pos ?loc) m"
    "GetGeneratedPosition U (Some d) ?loc =
       Some \<lparr>FileName = GetNormalizedAbsolutePath (rawFile raw) (GetDirectoryPath mapPath), Pos = generatedPosition m\<rparr>"
    using GetGeneratedPosition_found [OF d ds index] by (metis (no_types, lifting))
  have "sourcePosition m = int q"
    using nearest_unique [of sourcePosition _ ?x m] m(1) x by (simp add: link_position_source)
  moreover obtain p' i' q' where l': "(p', i', q') \<in> set links" "m = link_position (p', i', q')" "positionSource m = int i"
    using m(1) by (auto simp: nearest_def mapped_in_def)
  ultimately have "(i', q') = (i, q)" by (simp add: link_position_source)
  moreover have "inj_on snd (set links)" using rev by (simp add: reversible_def distinct_map)
  ultimately have "(p', i', q') = (p, i, q)" using l l'(1) by (metis inj_onD snd_conv)
  then show ?thesis using m(2) l'(2) by (simp add: link_position_source)
qed


text \<open>A text with a line break of Windows and runes of several bytes, as the generated file and as the source.\<close>

definition sample_links :: "(nat \<times> nat \<times> nat) list" where
  "sample_links = [(0, 0, 3), (3, 0, 10), (10, 0, 0)]"

definition text_host :: Host where
  "text_host = \<lparr>UseCaseSensitiveFileNames_of = True,
     GetECMALineInfo = (\<lambda>_. Some (CreateECMALineInfo sample_text (ComputeECMALineStarts sample_text))),
     ReadFile = (\<lambda>_. None)\<rparr>"

lemma sample_links_ok: "list_all (link_ok sample_text [sample_text]) sample_links"
proof -
  have "rune_boundary sample_text 3"
    unfolding sample_text_def by (simp add: rune_boundary.simps decode2_def decode4_def is_cont_def)
  then show ?thesis using sample_boundary by (simp add: sample_links_def link_ok_def)
qed


end
