(* ===== verification/Glob.thy ===== *)
theory Glob
  imports PathCase PathExt
begin

text \<open>
  \<open>vfs/vfsmatch/vfsmatch.go\<close>: the globs of \<open>include\<close>, \<open>exclude\<close> and \<open>files\<close> in a tsconfig, without a
  regular expression. The prefix and suffix of a path are the two strings the code never
  concatenates. In the loop of \<open>matchSegments\<close> a position in the text or in the segments is the rest
  from there on. A literal component never has \<open>skipPackageFolders\<close>, so its field, and the panic the
  code calls unreachable, are only in the constructor of a wildcard. A panic is \<open>None\<close>.
\<close>

section \<open>Patterns\<close>

datatype Usage = UsageFiles | UsageDirectories | UsageExclude

datatype segment = segLiteral string | segStar | segQuestion

datatype component = kindLiteral string | kindWildcard "segment list" bool | kindDoubleAsterisk

record globPattern =
  components :: "component list"
  isExclude :: bool
  patternCaseSensitive :: bool
  excludeMinJs :: bool

definition is_wildcard :: "char \<Rightarrow> bool" where
  "is_wildcard c \<longleftrightarrow> c = CHR ''*'' \<or> c = CHR ''?''"

definition IsImplicitGlob :: "string \<Rightarrow> bool" where
  "IsImplicitGlob lastPathComponent \<longleftrightarrow> \<not> list_ex (\<lambda>c. c = CHR ''.'' \<or> is_wildcard c) lastPathComponent"

text \<open>The loop of \<open>parseSegments\<close>: \<open>lit\<close> is what has been read since \<open>start\<close>.\<close>

fun parse_segments_loop :: "string \<Rightarrow> string \<Rightarrow> segment list" where
  "parse_segments_loop lit [] = (if lit \<noteq> [] then [segLiteral lit] else [])"
| "parse_segments_loop lit (c # s) =
     (if is_wildcard c
      then (if lit \<noteq> [] then [segLiteral lit] else [])
           @ (if c = CHR ''*'' then segStar else segQuestion) # parse_segments_loop [] s
      else parse_segments_loop (lit @ [c]) s)"

definition parseSegments :: "string \<Rightarrow> segment list" where
  "parseSegments s = parse_segments_loop [] s"

definition parseComponent :: "string \<Rightarrow> bool \<Rightarrow> component" where
  "parseComponent s isInclude =
     (if s = ''**'' then kindDoubleAsterisk
      else if \<not> list_ex is_wildcard s then kindLiteral s
      else kindWildcard (parseSegments s) isInclude)"

text \<open>\<open>parts[0]\<close> panics when there is no part; there always is one, the root.\<close>

definition compileGlobPattern :: "string \<Rightarrow> string \<Rightarrow> Usage \<Rightarrow> bool \<Rightarrow> globPattern option panics" where
  "compileGlobPattern spec basePath usage caseSensitive =
     (let parts = GetNormalizedPathComponents spec basePath;
          LastOrNil = (\<lambda>ps. if ps \<noteq> [] then last ps else []) in
      if usage \<noteq> UsageExclude \<and> LastOrNil parts = ''**'' then Some None
      else if parts = [] then None
      else
        (let parts = parts[0 := RemoveTrailingDirectorySeparator (parts ! 0)];
             parts = (if IsImplicitGlob (LastOrNil parts) then parts @ [''**'', ''*''] else parts)
         in Some (Some \<lparr>components = map (\<lambda>part. parseComponent part (usage \<noteq> UsageExclude)) parts,
                        isExclude = (usage = UsageExclude), patternCaseSensitive = caseSensitive,
                        excludeMinJs = (usage = UsageFiles)\<rparr>)))"

section \<open>Matching one component\<close>

definition stringsEqual :: "unicode_tables \<Rightarrow> globPattern \<Rightarrow> string \<Rightarrow> string \<Rightarrow> bool" where
  "stringsEqual U p a b \<longleftrightarrow> (if patternCaseSensitive p then a = b else EqualFold U a b)"

definition isHiddenPath :: "string \<Rightarrow> bool" where
  "isHiddenPath name \<longleftrightarrow> (case name of [] \<Rightarrow> False | c # _ \<Rightarrow> c = CHR ''.'')"

definition isPackageFolder :: "unicode_tables \<Rightarrow> string \<Rightarrow> bool" where
  "isPackageFolder U name \<longleftrightarrow>
     (if length name = length ''node_modules'' then EqualFold U name ''node_modules''
      else if length name = length ''jspm_packages'' then EqualFold U name ''jspm_packages''
      else if length name = length ''bower_components'' then EqualFold U name ''bower_components''
      else False)"

text \<open>The rest of a text behind its first rune.\<close>

definition next_rune :: "string \<Rightarrow> string" where
  "next_rune s = drop (snd (decode_rune s)) s"

lemma next_rune_shorter: "s \<noteq> [] \<Longrightarrow> length (next_rune s) < length s"
  using decode_rune_size_pos [of s] by (simp add: next_rune_def)

text \<open>The loop of \<open>matchSegments\<close>. \<open>star\<close> holds the segments behind the last star and the text from which it
  has been tried last.\<close>

function match_segments_loop ::
  "unicode_tables \<Rightarrow> globPattern \<Rightarrow> segment list \<Rightarrow> string \<Rightarrow> (segment list \<times> string) option \<Rightarrow> bool" where
  "match_segments_loop U p segs s star =
     (if s = [] then list_all (\<lambda>seg. seg = segStar) segs
      else
        (let backtrack =
           (\<lambda>_ :: unit. case star of
              None \<Rightarrow> False
            | Some (afterStar, t) \<Rightarrow>
                if t \<noteq> [] \<and> hd t \<noteq> slash
                then match_segments_loop U p afterStar (next_rune t) (Some (afterStar, next_rune t))
                else False)
         in case segs of
              [] \<Rightarrow> backtrack ()
            | segLiteral lit # rest \<Rightarrow>
                if length lit \<le> length s \<and> stringsEqual U p lit (take (length lit) s)
                then match_segments_loop U p rest (drop (length lit) s) star
                else backtrack ()
            | segQuestion # rest \<Rightarrow>
                if hd s \<noteq> slash then match_segments_loop U p rest (next_rune s) star else backtrack ()
            | segStar # rest \<Rightarrow> match_segments_loop U p rest s (Some (rest, s))))"
  by pat_completeness auto
termination
  by (relation "measures
      [\<lambda>(_, _, segs, _, star). max (length segs) (case star of None \<Rightarrow> 0 | Some (afterStar, _) \<Rightarrow> length afterStar),
       \<lambda>(_, _, _, _, star). (case star of None \<Rightarrow> 0 | Some (_, t) \<Rightarrow> length t),
       \<lambda>(_, _, segs, s, _). length segs + length s]")
    (auto simp: max_def next_rune_shorter less_SucI split: option.splits)

declare match_segments_loop.simps [simp del]

definition matchSegments :: "unicode_tables \<Rightarrow> globPattern \<Rightarrow> segment list \<Rightarrow> string \<Rightarrow> bool" where
  "matchSegments U p segs s = match_segments_loop U p segs s None"

definition hasMinJsSuffix :: "unicode_tables \<Rightarrow> globPattern \<Rightarrow> string \<Rightarrow> bool" where
  "hasMinJsSuffix U p filename =
     (if patternCaseSensitive p then HasSuffix filename ''.min.js''
      else if length filename < length ''.min.js'' then False
      else EqualFold U (drop (length filename - length ''.min.js'') filename) ''.min.js'')"

definition patternMentionsMinSuffix :: "unicode_tables \<Rightarrow> globPattern \<Rightarrow> segment list \<Rightarrow> bool" where
  "patternMentionsMinSuffix U p segs =
     list_ex (\<lambda>seg. case seg of
         segLiteral lit0 \<Rightarrow>
           (let lit = (if \<not> patternCaseSensitive p then ToLower U lit0 else lit0)
            in str_contains lit ''.min.js'' \<or> str_contains lit ''.min.'')
       | _ \<Rightarrow> False) segs"

definition shouldIncludeMinJs :: "unicode_tables \<Rightarrow> globPattern \<Rightarrow> string \<Rightarrow> segment list \<Rightarrow> bool" where
  "shouldIncludeMinJs U p filename segs \<longleftrightarrow>
     (if \<not> excludeMinJs p then True
      else if \<not> hasMinJsSuffix U p filename then True
      else patternMentionsMinSuffix U p segs)"

definition matchWildcard :: "unicode_tables \<Rightarrow> globPattern \<Rightarrow> segment list \<Rightarrow> string \<Rightarrow> bool" where
  "matchWildcard U p segs s =
     (if \<not> isExclude p \<and> segs \<noteq> [] \<and> isHiddenPath s \<and> (hd segs = segStar \<or> hd segs = segQuestion) then False
      else case segs of
          [segStar, segLiteral ending] \<Rightarrow>
            if length s < length ending \<or> \<not> stringsEqual U p ending (drop (length s - length ending) s) then False
            else shouldIncludeMinJs U p s segs
        | _ \<Rightarrow> matchSegments U p segs s \<and> shouldIncludeMinJs U p s segs)"

section \<open>Matching a path\<close>

text \<open>The next part of a path from an offset: the part, the offset behind it, and whether there is one.\<close>

fun skip_slashes :: "string \<Rightarrow> nat \<Rightarrow> nat" where
  "skip_slashes [] offset = offset"
| "skip_slashes (c # s) offset = (if c = slash then skip_slashes s (offset + 1) else offset)"

definition nextPathPartSingle :: "string \<Rightarrow> nat \<Rightarrow> string \<times> nat \<times> bool" where
  "nextPathPartSingle s offset0 =
     (if offset0 \<ge> length s then ([], offset0, False)
      else if offset0 = 0 \<and> s ! 0 = slash then ([], 1, True)
      else
        (let offset = skip_slashes (drop offset0 s) offset0 in
         if offset \<ge> length s then ([], offset, False)
         else (let rest = drop offset s in
               case index_byte rest slash of
                 Some idx \<Rightarrow> (take idx rest, offset + idx, True)
               | None \<Rightarrow> (rest, length s, True))))"

text \<open>With a prefix that does not end in a slash, \<open>rest[:idx]\<close> can panic.\<close>

definition nextPathPartParts :: "string \<Rightarrow> string \<Rightarrow> nat \<Rightarrow> (string \<times> nat \<times> bool) panics" where
  "nextPathPartParts pre name offset0 =
     (if name = [] then Some (nextPathPartSingle pre offset0)
      else if pre = [] then Some (nextPathPartSingle name offset0)
      else
        (let totalLen = length pre + length name in
         if offset0 \<ge> totalLen then Some ([], offset0, False)
         else if offset0 = 0 \<and> pre ! 0 = slash then Some ([], 1, True)
         else
           (let offset = (if offset0 < length pre then skip_slashes (drop offset0 pre) offset0 else offset0) in
            if offset < length pre
            then (let rest = drop offset pre in
                  case index_byte rest slash of
                    Some idx \<Rightarrow> Some (take idx rest, offset + idx, True)
                  | None \<Rightarrow> None)
            else (let sOff = offset - length pre in
                  if sOff \<ge> length name then Some ([], offset, False)
                  else Some (drop sOff name, totalLen, True)))))"

definition patternSatisfied :: "globPattern \<Rightarrow> nat \<Rightarrow> bool" where
  "patternSatisfied p compIdx = list_all (\<lambda>c. c = kindDoubleAsterisk) (drop compIdx (components p))"

section \<open>What the scanner sees\<close>

lemma skip_slashes_eq: "skip_slashes s offset = offset + length (takeWhile (\<lambda>c. c = slash) s)"
  by (induction s offset rule: skip_slashes.induct) auto

lemma index_byte_scan:
  "index_byte s d = (if d \<in> set s then Some (length (takeWhile (\<lambda>c. c \<noteq> d) s)) else None)"
  by (induction s) auto

lemma take_takeWhile: "take (length (takeWhile P s)) s = takeWhile P s"
  by (induction s) auto

lemma next_part_Single:
  assumes "\<not> (offset = 0 \<and> s \<noteq> [] \<and> hd s = slash)"
  shows "if dropWhile (\<lambda>c. c = slash) (drop offset s) = [] then \<exists>e. nextPathPartSingle s offset = ([], e, False)
    else nextPathPartSingle s offset =
      (takeWhile (\<lambda>c. c \<noteq> slash) (dropWhile (\<lambda>c. c = slash) (drop offset s)),
       offset + length (takeWhile (\<lambda>c. c = slash) (drop offset s))
         + length (takeWhile (\<lambda>c. c \<noteq> slash) (dropWhile (\<lambda>c. c = slash) (drop offset s))), True)"
proof (cases "offset \<ge> length s")
  case False
  let ?t = "drop offset s"
  let ?n = "length (takeWhile (\<lambda>c. c = slash) ?t)" and ?r = "dropWhile (\<lambda>c. c = slash) ?t"
  have r: "?r = drop (offset + ?n) s" by (simp add: dropWhile_eq_drop add.commute)
  have first: "\<not> (offset = 0 \<and> s ! 0 = slash)" using assms False by (cases s) auto
  have skip: "skip_slashes ?t offset = offset + ?n" by (rule skip_slashes_eq)
  show ?thesis
  proof (cases "?r = []")
    case True
    then have "length s \<le> offset + ?n" using r by simp
    then show ?thesis using True False first by (simp add: nextPathPartSingle_def skip)
  next
    case nonempty: False
    then have len: "offset + ?n < length s" using r by simp
    have scan: "nextPathPartSingle s offset =
      (case index_byte ?r slash of Some idx \<Rightarrow> (take idx ?r, offset + ?n + idx, True) | None \<Rightarrow> (?r, length s, True))"
      unfolding nextPathPartSingle_def skip Let_def r [symmetric] 
      by (rule trans [OF if_not_P [OF False] trans [OF if_not_P [OF first] if_not_P]]) (use len in \<open>simp add: not_le\<close>)
    show ?thesis
    proof (cases "slash \<in> set ?r")
      case True
      then show ?thesis using nonempty scan by (simp add: index_byte_scan take_takeWhile)
    next
      case no: False
      have whole: "takeWhile (\<lambda>c. c \<noteq> slash) ?r = ?r" unfolding takeWhile_eq_all_conv using no by blast
      have "length s = offset + ?n + length ?r"
        using arg_cong [OF r, of length] len by (simp only: length_drop)
      then show ?thesis
        unfolding whole scan index_byte_scan if_not_P [OF no] if_not_P [OF nonempty] by (simp only: option.case)
    qed
  qed
qed (simp add: nextPathPartSingle_def)

lemma nextPathPartSingle_progress:
  assumes "nextPathPartSingle s offset = (part, nextOffset, True)"
  shows "offset < nextOffset \<and> offset < length s"
proof (cases "offset = 0 \<and> s \<noteq> [] \<and> hd s = slash")
  case True
  then show ?thesis using assms by (cases s) (auto simp: nextPathPartSingle_def)
next
  case False
  let ?r = "dropWhile (\<lambda>c. c = slash) (drop offset s)"
  have "offset < length s" using assms by (auto simp: nextPathPartSingle_def split: if_splits)
  moreover have "?r \<noteq> []" using next_part_Single [OF False] assms by (auto split: if_splits)
  moreover from this have "0 < length (takeWhile (\<lambda>c. c \<noteq> slash) ?r)"
    using hd_dropWhile [of "\<lambda>c. c = slash" "drop offset s"] by (cases ?r) auto
  ultimately show ?thesis using next_part_Single [OF False] assms by auto
qed

lemma nextPathPartParts_progress:
  assumes "nextPathPartParts pre name offset = Some (part, nextOffset, True)"
  shows "offset < nextOffset \<and> offset < length pre + length name"
proof (cases "pre = [] \<or> name = []")
  case True
  then show ?thesis using assms nextPathPartSingle_progress by (auto simp: nextPathPartParts_def split: if_splits)
next
  case False
  let ?o = "if offset < length pre then skip_slashes (drop offset pre) offset else offset"
  have le: "offset \<le> ?o" by (simp add: skip_slashes_eq)
  have lim: "offset < length pre + length name" using False assms by (auto simp: nextPathPartParts_def Let_def split: if_splits)
  have first: "?o < length pre \<Longrightarrow> \<not> index_byte (drop ?o pre) slash = Some 0" if "offset < length pre"
  proof
    assume o: "?o < length pre" and z: "index_byte (drop ?o pre) slash = Some 0"
    have "drop ?o pre = dropWhile (\<lambda>c. c = slash) (drop offset pre)"
      using that by (simp add: skip_slashes_eq dropWhile_eq_drop add.commute)
    moreover have "hd (drop ?o pre) = slash"
      using index_byte_SomeD [OF z] by (metis hd_conv_nth list.size(3) not_less_zero)
    ultimately show False using hd_dropWhile [of "\<lambda>c. c = slash" "drop offset pre"] o by (metis drop_eq_Nil not_le)
  qed
  show ?thesis
    using assms False le lim first
    by (cases "offset < length pre") (auto simp: nextPathPartParts_def Let_def split: if_splits option.splits)
qed

section \<open>The loop over the parts\<close>

function matchPathParts ::
  "unicode_tables \<Rightarrow> globPattern \<Rightarrow> string \<Rightarrow> string \<Rightarrow> nat \<Rightarrow> nat \<Rightarrow> bool \<Rightarrow> bool panics" where
  "matchPathParts U p pre name pathOffset compIdx prefixOnly =
     (case nextPathPartParts pre name pathOffset of
        None \<Rightarrow> None
      | Some (pathPart, nextOffset, ok) \<Rightarrow>
          if \<not> ok then Some (if prefixOnly then True else patternSatisfied p compIdx)
          else if compIdx \<ge> length (components p) then Some (isExclude p \<and> \<not> prefixOnly)
          else
            (case components p ! compIdx of
               kindDoubleAsterisk \<Rightarrow>
                 (case matchPathParts U p pre name pathOffset (compIdx + 1) prefixOnly of
                    None \<Rightarrow> None
                  | Some found \<Rightarrow>
                      if found then Some True
                      else if \<not> isExclude p \<and> (isHiddenPath pathPart \<or> isPackageFolder U pathPart) then Some False
                      else matchPathParts U p pre name nextOffset compIdx prefixOnly)
             | kindLiteral lit \<Rightarrow>
                 if \<not> stringsEqual U p lit pathPart then Some False
                 else matchPathParts U p pre name nextOffset (compIdx + 1) prefixOnly
             | kindWildcard segs skipPackageFolders \<Rightarrow>
                 if skipPackageFolders \<and> isPackageFolder U pathPart then Some False
                 else if \<not> matchWildcard U p segs pathPart then Some False
                 else matchPathParts U p pre name nextOffset (compIdx + 1) prefixOnly))"
  by pat_completeness auto
termination
  by (relation "measure (\<lambda>(_, p, pre, name, pathOffset, compIdx, _).
      (length (components p) - compIdx) + (length pre + length name - pathOffset))")
    (auto dest!: nextPathPartParts_progress)

declare matchPathParts.simps [simp del]

definition matchesPart :: "unicode_tables \<Rightarrow> globPattern \<Rightarrow> string \<Rightarrow> bool panics" where
  "matchesPart U p path = matchPathParts U p path [] 0 0 False"

definition matchesParts :: "unicode_tables \<Rightarrow> globPattern \<Rightarrow> string \<Rightarrow> string \<Rightarrow> bool panics" where
  "matchesParts U p pre name = matchPathParts U p pre name 0 0 False"

definition matchesPrefixParts :: "unicode_tables \<Rightarrow> globPattern \<Rightarrow> string \<Rightarrow> string \<Rightarrow> bool panics" where
  "matchesPrefixParts U p pre name = matchPathParts U p pre name 0 0 True"

end
