(* ===== verification/GlobMatch.thy ===== *)
theory GlobMatch
  imports Glob
begin

text \<open>
  The matcher of \<open>vfsmatch.go\<close> decides what \<open>MATCHING_ALGORITHM.md\<close> means for one component: the loop
  over segments, which remembers only its last star, finds a match whenever there is one
  (\<open>segments_match\<close> tries all of them).
\<close>

section \<open>Segments\<close>

text \<open>What a list of segments matches, with every length tried for every star.\<close>

function segments_match :: "unicode_tables \<Rightarrow> globPattern \<Rightarrow> segment list \<Rightarrow> string \<Rightarrow> bool" where
  "segments_match U p [] s = (s = [])"
| "segments_match U p (segLiteral lit # segs) s =
     (length lit \<le> length s \<and> stringsEqual U p lit (take (length lit) s)
      \<and> segments_match U p segs (drop (length lit) s))"
| "segments_match U p (segQuestion # segs) s =
     (if s = [] \<or> hd s = slash then False else segments_match U p segs (next_rune s))"
| "segments_match U p (segStar # segs) s =
     (if segments_match U p segs s then True
      else if s = [] \<or> hd s = slash then False else segments_match U p (segStar # segs) (next_rune s))"
  by pat_completeness auto
termination
  by (relation "measure (\<lambda>(_, _, segs, s). length segs + length s)") (auto simp: next_rune_shorter less_SucI)

definition advance :: "nat \<Rightarrow> string \<Rightarrow> string" where
  "advance k s = (next_rune ^^ k) s"

lemma next_rune_Nil [simp]: "next_rune [] = []"
  by (simp add: next_rune_def)

lemma advance_simps [simp]:
  "advance 0 s = s" "advance (Suc k) s = advance k (next_rune s)" "advance k [] = []"
proof -
  show "advance k [] = []" by (induction k) (simp_all add: advance_def)
qed (simp_all add: advance_def funpow_swap1)

lemma advance_add: "advance (j + k) s = advance j (advance k s)"
  by (simp add: advance_def funpow_add)

lemma advance_next: "advance k (next_rune s) = next_rune (advance k s)"
  by (simp add: advance_def funpow_swap1)

lemma advance_no_slash: "slash \<notin> set s \<Longrightarrow> slash \<notin> set (advance k s)"
  by (induction k arbitrary: s) (auto simp: next_rune_def dest: in_set_dropD)

text \<open>A text and segments for which runes are whole: wherever a literal is found, as many bytes later are
  so many runes later, the same number each time.\<close>

definition aligned :: "unicode_tables \<Rightarrow> globPattern \<Rightarrow> (string \<Rightarrow> nat) \<Rightarrow> string \<Rightarrow> segment list \<Rightarrow> bool" where
  "aligned U p w s segs \<longleftrightarrow>
     (\<forall>lit. segLiteral lit \<in> set segs \<longrightarrow> lit \<noteq> [] \<and>
        (\<forall>k. length lit \<le> length (advance k s) \<longrightarrow> stringsEqual U p lit (take (length lit) (advance k s))
           \<longrightarrow> drop (length lit) (advance k s) = advance (w lit) (advance k s)))"

lemma aligned_simps:
  "aligned U p w s (seg # segs) \<Longrightarrow> aligned U p w s segs"
  "aligned U p w s (ss @ ts) \<longleftrightarrow> aligned U p w s ss \<and> aligned U p w s ts"
  by (auto simp: aligned_def)

text \<open>Segments without a star have a width in runes.\<close>

definition width :: "(string \<Rightarrow> nat) \<Rightarrow> segment list \<Rightarrow> nat" where
  "width w segs = sum_list (map (\<lambda>seg. case seg of segLiteral lit \<Rightarrow> w lit | _ \<Rightarrow> Suc 0) segs)"

lemma fixed_match:
  assumes "aligned U p w s (fixed @ segs)" "segStar \<notin> set fixed"
  shows "segments_match U p (fixed @ segs) (advance k s) \<Longrightarrow> segments_match U p segs (advance (width w fixed + k) s)"
  using assms
proof (induction fixed arbitrary: k)
  case (Cons seg fixed)
  note IH = Cons.IH [OF _ aligned_simps(1) [OF Cons.prems(2) [unfolded append_Cons]]]
  show ?case
  proof (cases seg)
    case (segLiteral lit)
    then have "drop (length lit) (advance k s) = advance (w lit + k) s"
      using Cons.prems unfolding advance_add by (simp add: aligned_def)
    then show ?thesis
      using IH [of "w lit + k"] Cons.prems segLiteral by (simp add: width_def add.assoc add.commute add.left_commute)
  next
    case segQuestion
    then show ?thesis using IH [of "Suc k"] Cons.prems by (simp add: width_def advance_next split: if_splits)
  qed (use Cons.prems in simp)
qed (simp add: width_def)

lemma ex_nat_split: "(\<exists>k. P (k :: nat)) \<longleftrightarrow> P 0 \<or> (\<exists>k. P (Suc k))"
  by (metis not0_implies_Suc)

lemma star_match:
  assumes "slash \<notin> set s"
  shows "segments_match U p (segStar # segs) s \<longleftrightarrow> (\<exists>k. segments_match U p segs (advance k s))"
  using assms
proof (induction "length s" arbitrary: s rule: less_induct)
  case less
  show ?case
  proof (cases "s = []")
    case False
    have "slash \<notin> set (next_rune s)" using advance_no_slash [OF less.prems, of 1] by simp
    then have "segments_match U p (segStar # segs) (next_rune s) \<longleftrightarrow> (\<exists>k. segments_match U p segs (advance (Suc k) s))"
      using less.hyps [OF next_rune_shorter [OF False]] by simp
    moreover note ex_nat_split [of "\<lambda>k. segments_match U p segs (advance k s)"]
    moreover have "hd s \<noteq> slash" using less.prems False by (metis list.set_sel(1))
    ultimately show ?thesis using False by simp
  qed simp
qed

text \<open>The state of the loop at the last star: what lies between holds no star and has been matched.\<close>

definition star_state ::
  "(string \<Rightarrow> nat) \<Rightarrow> string \<Rightarrow> segment list \<Rightarrow> string \<Rightarrow> (segment list \<times> string) option \<Rightarrow> bool" where
  "star_state w s0 segs s star \<longleftrightarrow>
     (case star of None \<Rightarrow> True
      | Some (afterStar, t) \<Rightarrow> \<exists>fixed k. afterStar = fixed @ segs \<and> segStar \<notin> set fixed \<and> t = advance k s0
          \<and> s = advance (width w fixed) t)"

definition star_matches :: "unicode_tables \<Rightarrow> globPattern \<Rightarrow> (segment list \<times> string) option \<Rightarrow> bool" where
  "star_matches U p star \<longleftrightarrow>
     (case star of None \<Rightarrow> False | Some (afterStar, t) \<Rightarrow> \<exists>k. segments_match U p afterStar (advance (Suc k) t))"

definition star_aligned :: "unicode_tables \<Rightarrow> globPattern \<Rightarrow> (string \<Rightarrow> nat) \<Rightarrow> string \<Rightarrow> (segment list \<times> string) option \<Rightarrow> bool" where
  "star_aligned U p w s0 star \<longleftrightarrow> (case star of None \<Rightarrow> True | Some (afterStar, _) \<Rightarrow> aligned U p w s0 afterStar)"

text \<open>What a later start of the last star could still match is matched by the rest as well, once the rest
  begins with a star.\<close>

lemma star_subsumes:
  assumes "star_state w s0 segs s star" "star_aligned U p w s0 star" "star_matches U p star"
  shows "\<exists>k. segments_match U p segs (advance (Suc k) s)"
proof -
  obtain afterStar t fixed j k where st: "star = Some (afterStar, t)" "afterStar = fixed @ segs" "segStar \<notin> set fixed"
    "t = advance j s0" "s = advance (width w fixed) t" "segments_match U p afterStar (advance (Suc k) t)"
    using assms by (auto simp: star_state_def star_matches_def split: option.splits)
  have "segments_match U p (fixed @ segs) (advance (Suc k + j) s0)"
    using st(6) unfolding st(2,4) advance_add .
  moreover have "aligned U p w s0 (fixed @ segs)" using assms(2) st(1,2) by (simp add: star_aligned_def)
  ultimately have "segments_match U p segs (advance (width w fixed + (Suc k + j)) s0)" using fixed_match st(3) by blast
  moreover have "advance (width w fixed + (Suc k + j)) s0 = advance (Suc k) s"
    unfolding st(4,5) advance_add [symmetric] by (simp only: ac_simps)
  ultimately show ?thesis by metis
qed

lemma aligned_empty: "aligned U p w s segs \<Longrightarrow> segments_match U p segs [] \<longleftrightarrow> list_all (\<lambda>seg. seg = segStar) segs"
proof (induction segs)
  case (Cons seg segs)
  note IH = Cons.IH [OF aligned_simps(1) [OF Cons.prems]]
  show ?case using IH Cons.prems by (cases seg) (auto simp: aligned_def)
qed simp

definition backtrack :: "unicode_tables \<Rightarrow> globPattern \<Rightarrow> (segment list \<times> string) option \<Rightarrow> bool" where
  "backtrack U p star =
     (case star of
        None \<Rightarrow> False
      | Some (afterStar, t) \<Rightarrow>
          if t \<noteq> [] \<and> hd t \<noteq> slash
          then match_segments_loop U p afterStar (next_rune t) (Some (afterStar, next_rune t))
          else False)"

lemma match_segments_loop_unfold:
  "match_segments_loop U p segs [] star = list_all (\<lambda>seg. seg = segStar) segs"
  "s \<noteq> [] \<Longrightarrow> match_segments_loop U p [] s star = backtrack U p star"
  "s \<noteq> [] \<Longrightarrow> match_segments_loop U p (segLiteral lit # segs) s star =
     (if length lit \<le> length s \<and> stringsEqual U p lit (take (length lit) s)
      then match_segments_loop U p segs (drop (length lit) s) star else backtrack U p star)"
  "s \<noteq> [] \<Longrightarrow> match_segments_loop U p (segQuestion # segs) s star =
     (if hd s \<noteq> slash then match_segments_loop U p segs (next_rune s) star else backtrack U p star)"
  "s \<noteq> [] \<Longrightarrow> match_segments_loop U p (segStar # segs) s star = match_segments_loop U p segs s (Some (segs, s))"
  by (simp_all add: match_segments_loop.simps [of U p _ s] match_segments_loop.simps [of U p _ "[]"] backtrack_def Let_def)

lemma star_state_fixed:
  assumes "star_state w s0 (seg # segs) s star" "seg \<noteq> segStar" "s' = advance (width w [seg]) s"
  shows "star_state w s0 segs s' star"
proof (cases star)
  case (Some st)
  obtain afterStar t where st: "st = (afterStar, t)" by (cases st)
  obtain fixed k where f: "afterStar = fixed @ seg # segs" "segStar \<notin> set fixed" "t = advance k s0"
    "s = advance (width w fixed) t"
    using assms(1) by (auto simp: star_state_def Some st)
  have "s' = advance (width w (fixed @ [seg])) t"
    unfolding assms(3) f(4) advance_add [symmetric] by (simp add: width_def add.commute)
  with f assms(2) show ?thesis
    unfolding star_state_def Some st by (auto intro!: exI [of _ "fixed @ [seg]"])
qed (simp add: star_state_def)

lemma match_segments_loop_correct:
  assumes no_slash: "slash \<notin> set s0"
  shows "aligned U p w s0 segs \<Longrightarrow> star_aligned U p w s0 star \<Longrightarrow> star_state w s0 segs s star \<Longrightarrow> s = advance i s0
    \<Longrightarrow> match_segments_loop U p segs s star \<longleftrightarrow> segments_match U p segs s \<or> star_matches U p star"
proof (induction U p segs s star arbitrary: i rule: match_segments_loop.induct)
  case (1 U p segs s star)
  note aligned = "1.prems"(1) and star = "1.prems"(2) and state = "1.prems"(3) and s = "1.prems"(4)
  note subsumes = star_subsumes [OF state star]
  show ?case
  proof (cases "s = []")
    case True
    then show ?thesis
      using subsumes aligned_empty [OF aligned] by (auto simp: match_segments_loop_unfold(1))
  next
    case False
    have slash: "slash \<notin> set s" "hd s \<noteq> slash"
      using advance_no_slash [OF no_slash] s False by (auto simp: list.set_sel(1)) (metis list.set_sel(1))
    have bt: "backtrack U p star \<longleftrightarrow> star_matches U p star"
    proof (cases star)
      case (Some st)
      obtain a u where st: "st = (a, u)" by (cases st)
      obtain k fixed where u: "u = advance k s0" "s = advance (width w fixed) u"
        using state by (auto simp: star_state_def Some st)
      have "u \<noteq> []" using u(2) False by (cases "u = []") simp_all
      then have hd: "u \<noteq> [] \<and> hd u \<noteq> slash"
        using advance_no_slash [OF no_slash, of k] u(1) by (metis list.set_sel(1))
      have "match_segments_loop U p a (next_rune u) (Some (a, next_rune u))
          \<longleftrightarrow> segments_match U p a (next_rune u) \<or> star_matches U p (Some (a, next_rune u))"
      proof (rule "1.IH"(1) [OF False Some, OF st [symmetric] hd, of "Suc k"])
        show "aligned U p w s0 a" "star_aligned U p w s0 (Some (a, next_rune u))"
          using star by (simp_all add: star_aligned_def Some st)
        show later: "next_rune u = advance (Suc k) s0" by (simp add: u(1) advance_next)
        show "star_state w s0 a (next_rune u) (Some (a, next_rune u))"
          unfolding star_state_def using later by (auto intro!: exI [of _ "[]"] exI [of _ "Suc k"] simp: width_def)
      qed
      also have "\<dots> \<longleftrightarrow> star_matches U p star"
        using ex_nat_split [of "\<lambda>k. segments_match U p a (advance (Suc k) u)"] by (simp add: star_matches_def Some st)
      finally show ?thesis using hd by (simp add: backtrack_def Some st)
    qed (simp add: backtrack_def star_matches_def)
    show ?thesis
    proof (cases segs)
      case Nil
      then show ?thesis using False bt by (simp add: match_segments_loop_unfold)
    next
      case (Cons seg rest)
      have arest: "aligned U p w s0 rest" using aligned_simps(1) aligned Cons by blast
      show ?thesis
      proof (cases seg)
        case (segLiteral lit)
        show ?thesis
        proof (cases "length lit \<le> length s \<and> stringsEqual U p lit (take (length lit) s)")
          case True
          then have drop: "drop (length lit) s = advance (w lit) s"
            using aligned s by (simp add: aligned_def Cons segLiteral)
          have "match_segments_loop U p rest (drop (length lit) s) star
            \<longleftrightarrow> segments_match U p rest (drop (length lit) s) \<or> star_matches U p star"
          proof (rule "1.IH"(2) [OF False refl Cons segLiteral True arest star, of "w lit + i"])
            show "star_state w s0 rest (drop (length lit) s) star"
              using star_state_fixed [OF state [unfolded Cons]] drop by (simp add: segLiteral width_def)
            show "drop (length lit) s = advance (w lit + i) s0" using drop unfolding s advance_add .
          qed
          then show ?thesis using True False by (simp add: Cons segLiteral match_segments_loop_unfold)
        next
          case mismatch: False
          then show ?thesis using False bt by (auto simp: Cons segLiteral match_segments_loop_unfold)
        qed
      next
        case segQuestion
        have "match_segments_loop U p rest (next_rune s) star
          \<longleftrightarrow> segments_match U p rest (next_rune s) \<or> star_matches U p star"
        proof (rule "1.IH"(4) [OF False refl Cons segQuestion slash(2) arest star, of "Suc i"])
          show "star_state w s0 rest (next_rune s) star"
            using star_state_fixed [OF state [unfolded Cons]] by (simp add: segQuestion width_def)
          show "next_rune s = advance (Suc i) s0" unfolding s by (simp add: advance_next)
        qed
        then show ?thesis using False slash by (simp add: Cons segQuestion match_segments_loop_unfold)
      next
        case segStar
        have "match_segments_loop U p rest s (Some (rest, s))
          \<longleftrightarrow> segments_match U p rest s \<or> star_matches U p (Some (rest, s))"
          by (rule "1.IH"(3) [OF False refl Cons segStar arest _ _ s])
            (use arest s in \<open>auto simp: star_aligned_def star_state_def width_def intro!: exI [of _ "[]"]\<close>)
        also have "\<dots> \<longleftrightarrow> segments_match U p segs s"
          unfolding Cons segStar star_match [OF slash(1)] star_matches_def
          using ex_nat_split [of "\<lambda>k. segments_match U p rest (advance k s)"] by simp
        also have "\<dots> \<longleftrightarrow> segments_match U p segs s \<or> star_matches U p star"
        proof -
          have "segments_match U p segs s" if m: "star_matches U p star"
          proof -
            obtain k where k: "segments_match U p segs (advance (Suc k) s)" using subsumes [OF m] by blast
            have "slash \<notin> set (advance (Suc k) s)" using advance_no_slash [OF slash(1)] .
            then obtain j where "segments_match U p rest (advance j (advance (Suc k) s))"
              using k star_match unfolding Cons segStar by blast
            then have "\<exists>i. segments_match U p rest (advance i s)" unfolding advance_add [symmetric] by blast
            then show ?thesis using star_match [OF slash(1)] unfolding Cons segStar by blast
          qed
          then show ?thesis by blast
        qed
        finally show ?thesis using False by (simp add: Cons segStar match_segments_loop_unfold)
      qed
    qed
  qed
qed

lemma matchSegments_aligned:
  assumes "slash \<notin> set s" "aligned U p w s segs"
  shows "matchSegments U p segs s \<longleftrightarrow> segments_match U p segs s"
  using match_segments_loop_correct [OF assms(1,2), of None s 0]
  by (simp add: matchSegments_def star_aligned_def star_state_def star_matches_def)

section \<open>Whole runes\<close>

text \<open>A text that is valid UTF-8.\<close>

function whole_runes :: "string \<Rightarrow> bool" where
  "whole_runes s =
     (if s = [] then True
      else (byte (hd s) < 0x80 \<or> 2 \<le> snd (decode_rune s)) \<and> whole_runes (next_rune s))"
  by pat_completeness auto
termination by (relation "measure length") (auto simp: next_rune_shorter)

declare whole_runes.simps [simp del]

lemma decode2_whole: "2 \<le> snd (decode2 b t) \<Longrightarrow> decode2 b (t @ r) = decode2 b t \<and> snd (decode2 b t) \<le> Suc (length t)"
  by (cases t) (auto simp: decode2_def)

lemma decode3_whole: "2 \<le> snd (decode3 b t) \<Longrightarrow> decode3 b (t @ r) = decode3 b t \<and> snd (decode3 b t) \<le> Suc (length t)"
  by (cases t; cases "tl t") (auto simp: decode3_def)

lemma decode4_whole: "2 \<le> snd (decode4 b t) \<Longrightarrow> decode4 b (t @ r) = decode4 b t \<and> snd (decode4 b t) \<le> Suc (length t)"
  by (cases t; cases "tl t"; cases "tl (tl t)") (auto simp: decode4_def)

lemma decode_whole:
  assumes "s \<noteq> []" "byte (hd s) < 0x80 \<or> 2 \<le> snd (decode_rune s)"
  shows "decode_rune (s @ r) = decode_rune s \<and> snd (decode_rune s) \<le> length s"
proof -
  obtain c t where s: "s = c # t" using assms(1) by (cases s) auto
  show ?thesis
  proof (cases "byte c < 0x80")
    case False
    then have "2 \<le> snd (decode_rune (c # t))" using assms(2) s by simp
    then show ?thesis
      using False decode2_whole [of "byte c" t r] decode3_whole [of "byte c" t r] decode4_whole [of "byte c" t r]
      unfolding s by (auto simp: Let_def split: if_splits)
  qed (simp add: s)
qed

lemma whole_advance: "whole_runes lit \<Longrightarrow> advance (length (runes lit)) (lit @ r) = r"
proof (induction lit rule: whole_runes.induct)
  case (1 s)
  show ?case
  proof (cases "s = []")
    case False
    have w: "byte (hd s) < 0x80 \<or> 2 \<le> snd (decode_rune s)" "whole_runes (next_rune s)"
      using "1.prems" False by (simp_all add: whole_runes.simps [of s])
    have "next_rune (s @ r) = next_rune s @ r" using decode_whole [OF False w(1), of r] by (simp add: next_rune_def)
    moreover have "length (runes s) = Suc (length (runes (next_rune s)))"
      by (simp add: runes_unfold [OF False] next_rune_def)
    ultimately show ?thesis using "1.IH" [OF False w(2)] by simp
  qed simp
qed

text \<open>A byte that does not continue a rune begins one.\<close>

lemma decode_cont:
  assumes "0 < q" "q < snd (decode_rune s)"
  shows "is_cont (s ! q)"
proof (cases s)
  case (Cons c t)
  have two: "is_cont (t ! 0)" if "2 \<le> snd (decode2 (byte c) t)"
    using that by (cases t) (auto simp: decode2_def split: if_splits)
  have three: "is_cont (t ! 0) \<and> is_cont (t ! 1)" if "2 \<le> snd (decode3 (byte c) t)"
    using that by (cases t; cases "tl t") (auto simp: decode3_def is_cont_def split: if_splits)
  have four: "is_cont (t ! 0) \<and> is_cont (t ! 1) \<and> is_cont (t ! 2)" if "2 \<le> snd (decode4 (byte c) t)"
    using that by (cases t; cases "tl t"; cases "tl (tl t)") (auto simp: decode4_def is_cont_def numeral_2_eq_2 split: if_splits)
  have sizes: "snd (decode2 (byte c) t) \<le> 2" "snd (decode3 (byte c) t) \<le> 3" "snd (decode4 (byte c) t) \<le> 4"
    by (auto simp: decode2_def decode3_def decode4_def split: list.splits)
  obtain k where q: "q = Suc k" using assms(1) by (cases q) auto
  have "2 \<le> snd (decode_rune s)" using assms q by simp
  then show ?thesis
    using assms two three four sizes unfolding Cons q
    by (cases "k = 0"; cases "k = 1"; cases "k = 2") (auto simp: Let_def split: if_splits)
qed (use assms in simp)

lemma advance_to:
  "q < length s \<Longrightarrow> \<not> is_cont (s ! q) \<Longrightarrow> \<exists>k. advance k s = drop q s"
proof (induction "length s" arbitrary: s q rule: less_induct)
  case less
  show ?case
  proof (cases "q = 0")
    case True
    then show ?thesis by (auto intro: exI [of _ 0])
  next
    case False
    let ?n = "snd (decode_rune s)"
    have n: "?n \<le> q" using decode_cont [of q s] False less.prems(2) by (meson not_le not_gr_zero)
    have s: "s \<noteq> []" using less.prems(1) by auto
    have "\<exists>k. advance k (next_rune s) = drop (q - ?n) (next_rune s)"
      by (rule less.hyps [OF next_rune_shorter [OF s]]) (use n less.prems in \<open>simp_all add: next_rune_def\<close>)
    then obtain k where "advance (Suc k) s = drop q s" using n by (auto simp: next_rune_def)
    then show ?thesis ..
  qed
qed

definition ascii :: "string \<Rightarrow> bool" where
  "ascii s \<longleftrightarrow> list_all (\<lambda>c. byte c < 0x80) s"

lemma advance_ascii: "ascii s \<Longrightarrow> advance k s = drop k s"
proof (induction k arbitrary: s)
  case (Suc k)
  show ?case
  proof (cases s)
    case (Cons c t)
    then have "next_rune s = t" "ascii t" using Suc.prems by (simp_all add: next_rune_def ascii_def decode_ascii)
    then show ?thesis using Suc.IH Cons by simp
  qed simp
qed simp

definition whole_literals :: "segment list \<Rightarrow> bool" where
  "whole_literals segs \<longleftrightarrow> list_all (\<lambda>seg. case seg of segLiteral lit \<Rightarrow> lit \<noteq> [] \<and> whole_runes lit | _ \<Rightarrow> True) segs"

definition nonempty_literals :: "segment list \<Rightarrow> bool" where
  "nonempty_literals segs \<longleftrightarrow> segLiteral [] \<notin> set segs"

lemma parse_segments_nonempty: "nonempty_literals (parseSegments s)"
proof -
  have "segLiteral [] \<notin> set (parse_segments_loop lit s)" for lit
    by (induction lit s rule: parse_segments_loop.induct) auto
  then show ?thesis by (simp add: nonempty_literals_def parseSegments_def)
qed

text \<open>Where the matcher is exact: on ASCII names, and, when case matters, for patterns that are valid UTF-8.\<close>

definition exact_for :: "globPattern \<Rightarrow> segment list \<Rightarrow> string \<Rightarrow> bool" where
  "exact_for p segs s \<longleftrightarrow> slash \<notin> set s \<and> nonempty_literals segs
     \<and> (if ascii s then True else patternCaseSensitive p \<and> whole_literals segs)"

lemma aligned_exact:
  assumes "exact_for p segs s"
  shows "\<exists>w. aligned U p w s segs"
proof (cases "ascii s")
  case True
  have "drop n (advance k s) = advance n (advance k s)" for n k
    using advance_add [of n k s] by (simp only: advance_ascii [OF True] drop_drop)
  then show ?thesis
    using assms by (intro exI [of _ length]) (auto simp: aligned_def exact_for_def nonempty_literals_def)
next
  case False
  then have cs: "patternCaseSensitive p" "whole_literals segs" using assms by (simp_all add: exact_for_def)
  have "drop (length lit) t = advance (length (runes lit)) t"
    if "segLiteral lit \<in> set segs" "length lit \<le> length t" "stringsEqual U p lit (take (length lit) t)" for lit t
  proof -
    have "t = lit @ drop (length lit) t" using that(3) cs(1) by (simp add: stringsEqual_def) (metis append_take_drop_id)
    moreover have "whole_runes lit" using that(1) cs(2) by (auto simp: whole_literals_def list_all_iff)
    ultimately show ?thesis using whole_advance by metis
  qed
  then show ?thesis
    using assms
    by (intro exI [of _ "\<lambda>lit. length (runes lit)"]) (auto simp: aligned_def exact_for_def nonempty_literals_def)
qed

lemma advance_suffix: "\<exists>n. advance k s = drop n s"
proof (induction k arbitrary: s)
  case 0
  show ?case by (rule exI [of _ 0]) simp
next
  case (Suc k)
  obtain n where "advance k (next_rune s) = drop n (next_rune s)" using Suc.IH by blast
  then show ?case by (auto simp: next_rune_def)
qed

lemma whole_first:
  assumes "whole_runes s" "s \<noteq> []"
  shows "\<not> is_cont (s ! 0)"
proof -
  obtain c t where s: "s = c # t" using assms(2) by (cases s) auto
  have "byte c < 0x80 \<or> 2 \<le> snd (decode_rune (c # t))"
    using assms(1) unfolding whole_runes.simps [of s] by (simp add: s)
  then show ?thesis by (auto simp: s is_cont_def)
qed

text \<open>The fast path for a star and an ending.\<close>

lemma ending_match:
  assumes "exact_for p [segStar, segLiteral ending] s"
  shows "segments_match U p [segStar, segLiteral ending] s
    \<longleftrightarrow> length ending \<le> length s \<and> stringsEqual U p ending (drop (length s - length ending) s)"
proof
  assume "segments_match U p [segStar, segLiteral ending] s"
  moreover have "slash \<notin> set s" using assms by (simp add: exact_for_def)
  ultimately have "\<exists>k. segments_match U p [segLiteral ending] (advance k s)" using star_match by blast
  then obtain k where k: "segments_match U p [segLiteral ending] (advance k s)" ..
  obtain n where n: "advance k s = drop n s" using advance_suffix by blast
  have len: "length ending = length s - n" "stringsEqual U p ending (drop n s)"
    using k by (auto simp: n)
  moreover have "ending \<noteq> []" using assms by (auto simp: exact_for_def nonempty_literals_def)
  ultimately have "n = length s - length ending" "length ending \<le> length s" by (cases "n < length s"; simp)+
  with len show "length ending \<le> length s \<and> stringsEqual U p ending (drop (length s - length ending) s)" by simp
next
  assume e: "length ending \<le> length s \<and> stringsEqual U p ending (drop (length s - length ending) s)"
  let ?q = "length s - length ending"
  have ne: "ending \<noteq> []" using assms by (auto simp: exact_for_def nonempty_literals_def)
  have "\<exists>k. advance k s = drop ?q s"
  proof (cases "ascii s")
    case True
    then show ?thesis using advance_ascii by blast
  next
    case False
    then have "ending = drop ?q s" "whole_runes ending"
      using assms e by (simp_all add: exact_for_def stringsEqual_def whole_literals_def)
    then have "\<not> is_cont (s ! ?q)" using whole_first ne e by (metis add_0_right diff_le_self nth_drop)
    moreover have "?q < length s" using ne e by (cases ending) auto
    ultimately show ?thesis using advance_to by blast
  qed
  then obtain k where "advance k s = drop ?q s" ..
  then have "segments_match U p [segLiteral ending] (advance k s)" using e by simp
  then show "segments_match U p [segStar, segLiteral ending] s"
    using assms star_match unfolding exact_for_def by blast
qed

text \<open>C40: A component of a glob with wildcards is matched exactly as its meaning is, with every length tried for
  every star: the loop, which goes back to its last star only, and the shortcut for a star and an
  ending miss no match and invent none. On top of that an include pattern does not start a match of a
  hidden name with a wildcard, and a \<open>.min.js\<close> name needs a pattern that mentions it.\<close>
theorem matchWildcard_exact:
  assumes "exact_for p segs s"
  shows "matchWildcard U p segs s \<longleftrightarrow> segments_match U p segs s \<and> shouldIncludeMinJs U p s segs
    \<and> \<not> (\<not> isExclude p \<and> segs \<noteq> [] \<and> isHiddenPath s \<and> (hd segs = segStar \<or> hd segs = segQuestion))"
proof -
  obtain w where "aligned U p w s segs" using aligned_exact [OF assms] by blast
  then have loop: "matchSegments U p segs s \<longleftrightarrow> segments_match U p segs s"
    using matchSegments_aligned assms by (auto simp: exact_for_def)
  show ?thesis
  proof (cases "\<exists>ending. segs = [segStar, segLiteral ending]")
    case True
    then obtain ending where segs: "segs = [segStar, segLiteral ending]" ..
    have "segments_match U p segs s
      \<longleftrightarrow> \<not> (length s < length ending \<or> \<not> stringsEqual U p ending (drop (length s - length ending) s))"
      using ending_match assms unfolding segs by (simp add: not_less)
    then show ?thesis unfolding matchWildcard_def by (simp add: segs del: segments_match.simps)
  next
    case False
    then have "matchWildcard U p segs s \<longleftrightarrow>
        (if \<not> isExclude p \<and> segs \<noteq> [] \<and> isHiddenPath s \<and> (hd segs = segStar \<or> hd segs = segQuestion) then False
         else matchSegments U p segs s \<and> shouldIncludeMinJs U p s segs)"
      unfolding matchWildcard_def by (simp split: list.split segment.split) blast
    then show ?thesis unfolding loop by auto
  qed
qed

text \<open>\<open>x*b?.ts\<close> on \<open>xbabby.ts\<close> has to go back to its star, and matches.\<close>
theorem matchWildcard_exact_witness:
  "segments_match plain_tables \<lparr>components = [], isExclude = False, patternCaseSensitive = True, excludeMinJs = True\<rparr>
     (parseSegments ''x*b?.ts'') ''xbabby.ts''"
proof -
  have "exact_for \<lparr>components = [], isExclude = False, patternCaseSensitive = True, excludeMinJs = True\<rparr>
      (parseSegments ''x*b?.ts'') ''xbabby.ts''"
    by code_simp
  note matchWildcard_exact [OF this, of plain_tables]
  moreover have "matchWildcard plain_tables
      \<lparr>components = [], isExclude = False, patternCaseSensitive = True, excludeMinJs = True\<rparr>
      (parseSegments ''x*b?.ts'') ''xbabby.ts''"
    by code_simp
  ultimately show ?thesis by blast
qed

end
