(* ===== verification/GlobPaths.thy ===== *)
theory GlobPaths
  imports GlobMatch
begin

text \<open>
  Matching a path part by part: the scanner over the two strings of a path finds the parts of the
  path they make together, and the loop with its offsets is \<open>match_parts\<close>, a recursion over the
  components of the pattern and the parts of the path.
\<close>

section \<open>The parts of a path\<close>

definition path_words :: "string \<Rightarrow> string list" where
  "path_words s = filter (\<lambda>w. w \<noteq> []) (split_byte slash s)"

definition path_parts :: "string \<Rightarrow> string list" where
  "path_parts s = (case s of [] \<Rightarrow> [] | c # t \<Rightarrow> if c = slash then [] # path_words t else path_words s)"

lemma path_words_simps [simp]:
  "path_words [] = []" "path_words (slash # s) = path_words s"
  by (simp_all add: path_words_def)

lemma path_words_append: "path_words (s @ slash # t) = path_words s @ path_words t"
  by (simp add: path_words_def split_byte_append_sep)

lemma path_words_single: "slash \<notin> set w \<Longrightarrow> path_words w = (if w = [] then [] else [w])"
  by (simp add: path_words_def split_byte_no_occ)

lemma path_words_dropWhile: "path_words (dropWhile (\<lambda>c. c = slash) s) = path_words s"
  by (induction s) auto

lemma path_words_unfold:
  "path_words s =
     (if dropWhile (\<lambda>c. c = slash) s = [] then []
      else takeWhile (\<lambda>c. c \<noteq> slash) (dropWhile (\<lambda>c. c = slash) s)
           # path_words (dropWhile (\<lambda>c. c \<noteq> slash) (dropWhile (\<lambda>c. c = slash) s)))"
proof -
  define r where "r = dropWhile (\<lambda>c. c = slash) s"
  let ?w = "takeWhile (\<lambda>c. c \<noteq> slash) r" and ?t = "dropWhile (\<lambda>c. c \<noteq> slash) r"
  have words: "path_words s = path_words r" by (simp add: r_def path_words_dropWhile)
  show ?thesis
  proof (cases "r = []")
    case False
    then have w: "?w \<noteq> []" using hd_dropWhile [of "\<lambda>c. c = slash" s] by (cases r) (auto simp: r_def)
    have no: "slash \<notin> set ?w" by (auto dest: set_takeWhileD)
    have "path_words r = ?w # path_words ?t"
    proof (cases ?t)
      case Nil
      then have "r = ?w" by (metis append_Nil2 takeWhile_dropWhile_id)
      moreover have "path_words ?w = [?w]" using path_words_single [OF no] w by simp
      ultimately have "path_words r = [?w]" by simp
      then show ?thesis unfolding Nil by simp
    next
      case (Cons c t)
      then have "c = slash" using hd_dropWhile [of "\<lambda>c. c \<noteq> slash" r] by simp
      then have "r = ?w @ slash # t" using Cons by (metis takeWhile_dropWhile_id)
      then have "path_words r = path_words ?w @ path_words t" by (metis path_words_append)
      then show ?thesis using path_words_single [OF no] w Cons \<open>c = slash\<close> by simp
    qed
    then show ?thesis using False by (simp add: words r_def [symmetric])
  qed (simp add: words r_def [symmetric])
qed

text \<open>What is left of the parts at an offset.\<close>

definition rest_parts :: "string \<Rightarrow> nat \<Rightarrow> string list" where
  "rest_parts s offset = (if offset = 0 then path_parts s else path_words (drop offset s))"

lemma nextPathPartSingle_parts:
  assumes "nextPathPartSingle s offset = (part, nextOffset, ok)"
  shows "rest_parts s offset = (if ok then part # rest_parts s nextOffset else [])"
proof (cases "offset = 0 \<and> s \<noteq> [] \<and> hd s = slash")
  case True
  then show ?thesis
    using assms by (cases s) (auto simp: nextPathPartSingle_def rest_parts_def path_parts_def)
next
  case False
  let ?t = "drop offset s"
  let ?r = "dropWhile (\<lambda>c. c = slash) ?t"
  let ?w = "takeWhile (\<lambda>c. c \<noteq> slash) ?r"
  have start: "rest_parts s offset = path_words ?t"
    using False by (cases s) (auto simp: rest_parts_def path_parts_def)
  show ?thesis
  proof (cases "?r = []")
    case True
    then have "\<not> ok" using next_part_Single [OF False] assms by auto
    then show ?thesis using start path_words_unfold [of ?t] True by simp
  next
    case nonempty: False
    then have eq: "part = ?w" "nextOffset = offset + length (takeWhile (\<lambda>c. c = slash) ?t) + length ?w" ok
      using next_part_Single [OF False, unfolded if_not_P [OF nonempty] assms Pair_inject] by (blast, blast, blast)
    have "drop nextOffset s = drop (length ?w) (drop (length (takeWhile (\<lambda>c. c = slash) ?t)) ?t)"
      unfolding eq(2) by (simp add: ac_simps)
    also have "\<dots> = dropWhile (\<lambda>c. c \<noteq> slash) ?r" by (simp only: dropWhile_eq_drop)
    finally have "drop nextOffset s = dropWhile (\<lambda>c. c \<noteq> slash) ?r" .
    moreover have "nextOffset \<noteq> 0" using nextPathPartSingle_progress [of s offset part nextOffset] assms eq(3) by simp
    ultimately have rest: "rest_parts s nextOffset = path_words (dropWhile (\<lambda>c. c \<noteq> slash) ?r)"
      by (simp only: rest_parts_def if_False)
    show ?thesis
      unfolding start rest eq(1) if_P [OF eq(3)] by (rule trans [OF path_words_unfold if_not_P [OF nonempty]])
  qed
qed

text \<open>A directory that ends in a slash and the name of an entry are scanned like the path they make.\<close>

lemma skip_slashes_append:
  "skip_slashes (s @ t) offset =
     (if dropWhile (\<lambda>c. c = slash) s = [] then skip_slashes t (offset + length s) else skip_slashes s offset)"
  by (induction s offset rule: skip_slashes.induct) auto

lemma index_byte_append: "d \<in> set s \<Longrightarrow> index_byte (s @ t) d = index_byte s d"
  by (induction s) auto

lemma nextPathPartParts_joined:
  assumes pre: "pre \<noteq> []" "last pre = slash" and name: "name \<noteq> []" "slash \<notin> set name"
  shows "nextPathPartParts pre name offset = Some (nextPathPartSingle (pre @ name) offset)"
proof (cases "offset \<ge> length pre + length name \<or> offset = 0 \<and> pre ! 0 = slash")
  case True
  then show ?thesis using assms by (auto simp: nextPathPartParts_def nextPathPartSingle_def nth_append)
next
  case False
  have name_scan: "skip_slashes (drop k name) i = i" if "k < length name" for k i
  proof -
    have "drop k name \<noteq> []" "hd (drop k name) \<noteq> slash"
      using that name(2) by (simp, metis hd_drop_conv_nth nth_mem)
    then show ?thesis by (cases "drop k name") auto
  qed
  show ?thesis
  proof (cases "offset < length pre")
    case True
    define o1 where "o1 = skip_slashes (drop offset pre) offset"
    have le: "o1 \<le> length pre" using True by (simp add: o1_def skip_slashes_eq) (metis length_drop length_takeWhile_le le_diff_conv2 less_imp_le add.commute)
    have joined: "skip_slashes (drop offset (pre @ name)) offset = o1"
    proof (cases "dropWhile (\<lambda>c. c = slash) (drop offset pre) = []")
      case all: True
      then have "takeWhile (\<lambda>c. c = slash) (drop offset pre) = drop offset pre"
        by (metis append_Nil2 takeWhile_dropWhile_id)
      then have "o1 = length pre" unfolding o1_def skip_slashes_eq using True by (simp only: length_drop)
      then show ?thesis
        using all True name_scan [of 0 "length pre"] name(1) by (simp add: skip_slashes_append)
    next
      case some: False
      have "drop offset (pre @ name) = drop offset pre @ name" using True by simp
      then show ?thesis unfolding o1_def by (simp only: skip_slashes_append if_not_P [OF some])
    qed
    show ?thesis
    proof (cases "o1 < length pre")
      case inside: True
      have "last (drop o1 pre) = slash" "drop o1 pre \<noteq> []" using pre inside by (simp_all add: last_drop)
      then have slash: "slash \<in> set (drop o1 pre)" by (metis last_in_set)
      then obtain idx where idx: "index_byte (drop o1 pre) slash = Some idx" using index_byte_None_iff by (metis option.exhaust)
      then have "idx < length (drop o1 pre)" by (rule index_byte_less)
      moreover have "index_byte (drop o1 (pre @ name)) slash = Some idx"
        using index_byte_append [OF slash] inside idx by simp
      ultimately show ?thesis
        using False True inside pre name joined idx
        by (auto simp: nextPathPartParts_def nextPathPartSingle_def o1_def [symmetric] Let_def nth_append)
    next
      case outside: False
      then have o1: "o1 = length pre" using le by simp
      have "index_byte name slash = None" using name(2) by (simp add: index_byte_None_iff)
      then show ?thesis
        using False True o1 pre name joined
        by (auto simp: nextPathPartParts_def nextPathPartSingle_def o1_def [symmetric] Let_def nth_append)
    qed
  next
    case beyond: False
    then have off: "offset - length pre < length name" using False by linarith
    moreover have "index_byte (drop (offset - length pre) name) slash = None"
      using name(2) by (auto simp: index_byte_None_iff dest: in_set_dropD)
    ultimately show ?thesis
      using False beyond pre name name_scan [OF off, of offset]
      by (auto simp: nextPathPartParts_def nextPathPartSingle_def Let_def nth_append)
  qed
qed

text \<open>The two strings of a path as one: the directory is empty or ends in a slash.\<close>

definition splits :: "string \<Rightarrow> string \<Rightarrow> bool" where
  "splits pre name \<longleftrightarrow> name = [] \<or> pre = [] \<or> last pre = slash \<and> slash \<notin> set name"

lemma nextPathPartParts_splits:
  assumes "splits pre name"
  shows "nextPathPartParts pre name offset = Some (nextPathPartSingle (pre @ name) offset)"
proof (cases "pre = [] \<or> name = []")
  case True
  then show ?thesis by (auto simp: nextPathPartParts_def)
next
  case False
  then show ?thesis using assms nextPathPartParts_joined [of pre name offset] by (simp add: splits_def)
qed

section \<open>Matching the parts\<close>

fun match_parts :: "unicode_tables \<Rightarrow> globPattern \<Rightarrow> bool \<Rightarrow> component list \<Rightarrow> string list \<Rightarrow> bool" where
  "match_parts U p prefixOnly cs [] \<longleftrightarrow> (if prefixOnly then True else list_all (\<lambda>c. c = kindDoubleAsterisk) cs)"
| "match_parts U p prefixOnly [] (part # parts) \<longleftrightarrow> isExclude p \<and> \<not> prefixOnly"
| "match_parts U p prefixOnly (kindDoubleAsterisk # cs) (part # parts) \<longleftrightarrow>
     match_parts U p prefixOnly cs (part # parts)
     \<or> (if \<not> isExclude p \<and> (isHiddenPath part \<or> isPackageFolder U part) then False
        else match_parts U p prefixOnly (kindDoubleAsterisk # cs) parts)"
| "match_parts U p prefixOnly (kindLiteral lit # cs) (part # parts) \<longleftrightarrow>
     stringsEqual U p lit part \<and> match_parts U p prefixOnly cs parts"
| "match_parts U p prefixOnly (kindWildcard segs skipPackageFolders # cs) (part # parts) \<longleftrightarrow>
     \<not> (skipPackageFolders \<and> isPackageFolder U part) \<and> matchWildcard U p segs part
     \<and> match_parts U p prefixOnly cs parts"

lemma matchPathParts_parts:
  assumes splits: "splits pre name"
  shows "matchPathParts U p pre name offset k prefixOnly
    = Some (match_parts U p prefixOnly (drop k (components p)) (rest_parts (pre @ name) offset))"
proof (induction "(length (components p) - k) + (length pre + length name - offset)" arbitrary: offset k
    rule: less_induct)
  case less
  obtain part nextOffset ok where scan: "nextPathPartSingle (pre @ name) offset = (part, nextOffset, ok)"
    by (metis prod_cases3)
  have next_part: "nextPathPartParts pre name offset = Some (part, nextOffset, ok)"
    using nextPathPartParts_splits [OF splits] scan by simp
  note parts = nextPathPartSingle_parts [OF scan]
  note unfold = matchPathParts.simps [of U p pre name offset k prefixOnly, unfolded next_part option.case prod.case]
  show ?case
  proof (cases ok)
    case False
    then show ?thesis using parts unfold by (simp add: patternSatisfied_def)
  next
    case ok: True
    then have step: "offset < nextOffset" "offset < length pre + length name"
      using nextPathPartParts_progress next_part by auto
    show ?thesis
    proof (cases "k < length (components p)")
      case False
      then show ?thesis using parts unfold ok by simp
    next
      case k: True
      then have comps: "drop k (components p) = components p ! k # drop (Suc k) (components p)"
        by (simp add: Cons_nth_drop_Suc)
      have stay: "matchPathParts U p pre name offset (Suc k) prefixOnly
          = Some (match_parts U p prefixOnly (drop (Suc k) (components p)) (rest_parts (pre @ name) offset))"
        by (rule less) (use k in simp)
      have same: "matchPathParts U p pre name nextOffset k prefixOnly
          = Some (match_parts U p prefixOnly (drop k (components p)) (rest_parts (pre @ name) nextOffset))"
        by (rule less) (use step in simp)
      have both: "matchPathParts U p pre name nextOffset (Suc k) prefixOnly
          = Some (match_parts U p prefixOnly (drop (Suc k) (components p)) (rest_parts (pre @ name) nextOffset))"
        by (rule less) (use k step in simp)
      show ?thesis
      proof (cases "components p ! k")
        case (kindLiteral lit)
        then show ?thesis using unfold ok k both parts comps by simp
      next
        case (kindWildcard segs skipPackageFolders)
        then show ?thesis using unfold ok k both parts comps by simp
      next
        case kindDoubleAsterisk
        then show ?thesis using unfold ok k stay same parts comps by (simp split: bool.split)
      qed
    qed
  qed
qed

end
