(* ===== verification/GlobVisit.thy ===== *)
theory GlobVisit
  imports GlobPaths GoSlices "HOL-Library.Word"
begin

text \<open>
  The second half of \<open>vfs/vfsmatch/vfsmatch.go\<close>: the pair of matchers for files and directories, the walk over
  the directories below the base paths of the globs (\<open>matchFiles\<close>), and \<open>SpecMatcher\<close>. The file
  system is a parameter, the record \<open>FS\<close>. \<open>visit\<close> recurses into directories the file system
  names, so it takes fuel, a bound on the depth of the recursion; \<open>None\<close> is a panic or the end of
  the fuel, and \<open>GlobVisitCorrect\<close> shows when neither happens.
\<close>

section \<open>Base paths\<close>

definition getIncludeBasePath :: "string \<Rightarrow> string" where
  "getIncludeBasePath absolute =
     (if \<not> list_ex is_wildcard absolute
      then (if \<not> HasExtension absolute then absolute
            else RemoveTrailingDirectorySeparator (GetDirectoryPath absolute))
      else (let wildcardOffset = length (takeWhile (\<lambda>c. \<not> is_wildcard c) absolute) in
            take (case last_index_byte (take wildcardOffset absolute) slash of Some i \<Rightarrow> i | None \<Rightarrow> 0) absolute))"

definition getBasePaths :: "unicode_tables \<Rightarrow> string \<Rightarrow> string list \<Rightarrow> bool \<Rightarrow> string list" where
  "getBasePaths U path incl caseSensitive =
     (if incl \<noteq> []
      then
        (let opts = \<lparr>UseCaseSensitiveFileNames = caseSensitive, CurrentDirectory = path\<rparr>;
             includeBasePaths =
               map (\<lambda>spec. getIncludeBasePath
                  (if IsRootedDiskPath spec then spec else NormalizePath (CombinePaths path [spec]))) incl
         in foldl
              (\<lambda>basePaths includeBasePath.
                 if list_all (\<lambda>basepath. \<not> ContainsPath U basepath includeBasePath opts) basePaths
                 then basePaths @ [includeBasePath] else basePaths)
              [path] (sort_slice (\<lambda>a b. GetComparer U opts a b < 0) includeBasePaths))
      else [path])"

definition ensureTrailingSlash :: "string \<Rightarrow> string" where
  "ensureTrailingSlash s = (if s \<noteq> [] \<and> last s \<noteq> slash then s @ [slash] else s)"

section \<open>Matchers\<close>

record globMatcher =
  includePatterns :: "globPattern list"
  excludePatterns :: "globPattern list"
  hadIncludes :: bool

fun compile_specs :: "string \<Rightarrow> Usage \<Rightarrow> bool \<Rightarrow> string list \<Rightarrow> globPattern list panics" where
  "compile_specs basePath usage caseSensitive [] = Some []"
| "compile_specs basePath usage caseSensitive (spec # specs) =
     (case compileGlobPattern spec basePath usage caseSensitive of
        None \<Rightarrow> None
      | Some compiled \<Rightarrow>
          (case compile_specs basePath usage caseSensitive specs of
             None \<Rightarrow> None
           | Some ps \<Rightarrow> Some (case compiled of None \<Rightarrow> ps | Some p \<Rightarrow> p # ps)))"

definition newGlobMatcher ::
  "string list \<Rightarrow> string list \<Rightarrow> string \<Rightarrow> bool \<Rightarrow> Usage \<Rightarrow> globMatcher panics" where
  "newGlobMatcher includeSpecs excludeSpecs basePath caseSensitive usage =
     (case compile_specs basePath usage caseSensitive includeSpecs of
        None \<Rightarrow> None
      | Some incl \<Rightarrow>
          (case compile_specs basePath UsageExclude caseSensitive excludeSpecs of
             None \<Rightarrow> None
           | Some excl \<Rightarrow>
               Some \<lparr>includePatterns = incl, excludePatterns = excl, hadIncludes = (includeSpecs \<noteq> [])\<rparr>))"

text \<open>The index of the first pattern that matches.\<close>

fun first_match :: "(globPattern \<Rightarrow> bool panics) \<Rightarrow> nat \<Rightarrow> globPattern list \<Rightarrow> nat option panics" where
  "first_match f i [] = Some None"
| "first_match f i (p # ps) =
     (case f p of None \<Rightarrow> None | Some True \<Rightarrow> Some (Some i) | Some False \<Rightarrow> first_match f (i + 1) ps)"

definition matchesFileParts :: "unicode_tables \<Rightarrow> globMatcher \<Rightarrow> string \<Rightarrow> string \<Rightarrow> (nat \<times> bool) panics" where
  "matchesFileParts U m pre name =
     (case first_match (\<lambda>p. matchesParts U p pre name) 0 (excludePatterns m) of
        None \<Rightarrow> None
      | Some (Some _) \<Rightarrow> Some (0, False)
      | Some None \<Rightarrow>
          if includePatterns m = [] then (if hadIncludes m then Some (0, False) else Some (0, True))
          else
            (case first_match (\<lambda>p. matchesParts U p pre name) 0 (includePatterns m) of
               None \<Rightarrow> None
             | Some (Some i) \<Rightarrow> Some (i, True)
             | Some None \<Rightarrow> Some (0, False)))"

definition matchesDirectoryParts :: "unicode_tables \<Rightarrow> globMatcher \<Rightarrow> string \<Rightarrow> string \<Rightarrow> bool panics" where
  "matchesDirectoryParts U m pre name =
     (case first_match (\<lambda>p. matchesParts U p pre name) 0 (excludePatterns m) of
        None \<Rightarrow> None
      | Some (Some _) \<Rightarrow> Some False
      | Some None \<Rightarrow>
          if includePatterns m = [] then Some (\<not> hadIncludes m)
          else
            (case first_match (\<lambda>p. matchesPrefixParts U p pre name) 0 (includePatterns m) of
               None \<Rightarrow> None
             | Some (Some _) \<Rightarrow> Some True
             | Some None \<Rightarrow> Some False))"

section \<open>The walk\<close>

text \<open>\<open>vfs.Entries\<close>: \<open>Symlinks\<close> is \<open>None\<close> when the file system does not track them.\<close>

record Entries =
  Files :: "string list"
  Directories :: "string list"
  Symlinks :: "string list option"

record FS =
  FS_UseCaseSensitiveFileNames :: bool
  Realpath :: "string \<Rightarrow> string"
  GetAccessibleEntries :: "string \<Rightarrow> Entries"

record globVisitor =
  host :: FS
  fileMatcher :: globMatcher
  directoryMatcher :: globMatcher
  extensions :: "string list"
  useCaseSensitiveFileNames :: bool
  visited :: "string set"
  results :: "string list list"

definition UnlimitedDepth :: "64 word" where "UnlimitedDepth = 0x7FFFFFFFFFFFFFFF"

fun visit_files :: "unicode_tables \<Rightarrow> string \<Rightarrow> string \<Rightarrow> string list \<Rightarrow> globVisitor \<Rightarrow> globVisitor panics" where
  "visit_files U pathPrefix absPrefix [] v = Some v"
| "visit_files U pathPrefix absPrefix (file # files) v =
     (if extensions v \<noteq> [] \<and> \<not> FileExtensionIsOneOf file (extensions v)
      then visit_files U pathPrefix absPrefix files v
      else
        (case matchesFileParts U (fileMatcher v) absPrefix file of
           None \<Rightarrow> None
         | Some (idx, False) \<Rightarrow> visit_files U pathPrefix absPrefix files v
         | Some (idx, True) \<Rightarrow>
             if idx < length (results v)
             then visit_files U pathPrefix absPrefix files
                    (v\<lparr>results := (results v)[idx := results v ! idx @ [pathPrefix @ file]]\<rparr>)
             else None))"

text \<open>A loop whose body can stop it.\<close>

fun fold_panics :: "('a \<Rightarrow> 's \<Rightarrow> 's option) \<Rightarrow> 'a list \<Rightarrow> 's \<Rightarrow> 's option" where
  "fold_panics f [] s = Some s"
| "fold_panics f (x # xs) s = (case f x s of None \<Rightarrow> None | Some t \<Rightarrow> fold_panics f xs t)"

text \<open>The real path of a directory in one whose real path is known, or nothing, for a call of \<open>Realpath\<close>.\<close>

definition child_real_path :: "Entries \<Rightarrow> string \<Rightarrow> string \<Rightarrow> string" where
  "child_real_path entries realPath dir =
     (case Symlinks entries of
        Some links \<Rightarrow> if dir \<notin> set links then CombinePaths realPath [dir] else []
      | None \<Rightarrow> [])"

fun visit ::
  "unicode_tables \<Rightarrow> nat \<Rightarrow> string \<Rightarrow> string \<Rightarrow> 64 word \<Rightarrow> string \<Rightarrow> globVisitor \<Rightarrow> globVisitor option" where
  "visit U 0 path absolutePath depth resolvedRealPath v = None"
| "visit U (Suc fuel) path absolutePath depth resolvedRealPath v =
     (let realPath = (if resolvedRealPath \<noteq> [] then resolvedRealPath else Realpath (host v) absolutePath);
          canonicalPath = GetCanonicalFileName U realPath (useCaseSensitiveFileNames v) in
      if canonicalPath \<in> visited v then Some v
      else
        (let entries = GetAccessibleEntries (host v) absolutePath;
             pathPrefix = ensureTrailingSlash path;
             absPrefix = ensureTrailingSlash absolutePath;
             below = (if depth \<noteq> UnlimitedDepth then depth - 1 else depth) in
         case visit_files U pathPrefix absPrefix (Files entries) (v\<lparr>visited := insert canonicalPath (visited v)\<rparr>) of
           None \<Rightarrow> None
         | Some v1 \<Rightarrow>
             if depth \<noteq> UnlimitedDepth \<and> below = 0 then Some v1
             else
               fold_panics
                 (\<lambda>dir w.
                    case matchesDirectoryParts U (directoryMatcher w) absPrefix dir of
                      None \<Rightarrow> None
                    | Some False \<Rightarrow> Some w
                    | Some True \<Rightarrow>
                        visit U fuel (pathPrefix @ dir) (absPrefix @ dir) below
                          (child_real_path entries realPath dir) w)
                 (Directories entries) v1))"

definition matchFiles ::
  "unicode_tables \<Rightarrow> nat \<Rightarrow> string \<Rightarrow> string list \<Rightarrow> string list \<Rightarrow> string list \<Rightarrow> bool \<Rightarrow> string \<Rightarrow> 64 word \<Rightarrow> FS
     \<Rightarrow> string list option" where
  "matchFiles U fuel path0 exts excl incl caseSensitive currentDirectory0 depth fs =
     (let path = NormalizePath path0;
          cwd = NormalizePath currentDirectory0;
          absolutePath = CombinePaths cwd [path] in
      case newGlobMatcher incl excl absolutePath caseSensitive UsageFiles of
        None \<Rightarrow> None
      | Some fm \<Rightarrow>
          (case newGlobMatcher incl excl absolutePath caseSensitive UsageDirectories of
             None \<Rightarrow> None
           | Some dm \<Rightarrow>
               (case fold_panics
                       (\<lambda>basePath w. visit U fuel basePath (CombinePaths cwd [basePath]) depth [] w)
                       (getBasePaths U path incl caseSensitive)
                       \<lparr>host = fs, fileMatcher = fm, directoryMatcher = dm, extensions = exts,
                        useCaseSensitiveFileNames = caseSensitive, visited = {},
                        results = replicate (max (length (includePatterns fm)) 1) []\<rparr> of
                  None \<Rightarrow> None
                | Some v \<Rightarrow> Some (if length (results v) = 1 then results v ! 0 else concat (results v)))))"

definition ReadDirectory ::
  "unicode_tables \<Rightarrow> nat \<Rightarrow> FS \<Rightarrow> string \<Rightarrow> string \<Rightarrow> string list \<Rightarrow> string list \<Rightarrow> string list \<Rightarrow> 64 word
     \<Rightarrow> string list option" where
  "ReadDirectory U fuel fs currentDir path exts excl incl depth =
     matchFiles U fuel path exts excl incl (FS_UseCaseSensitiveFileNames fs) currentDir depth fs"

section \<open>Several globs for one path\<close>

record SpecMatcher =
  patterns :: "globPattern list"

definition MatchString :: "unicode_tables \<Rightarrow> SpecMatcher \<Rightarrow> string \<Rightarrow> bool panics" where
  "MatchString U m path =
     (case first_match (\<lambda>p. matchesPart U p path) 0 (patterns m) of None \<Rightarrow> None | Some found \<Rightarrow> Some (found \<noteq> None))"

definition MatchIndex :: "unicode_tables \<Rightarrow> SpecMatcher \<Rightarrow> string \<Rightarrow> int panics" where
  "MatchIndex U m path =
     (case first_match (\<lambda>p. matchesPart U p path) 0 (patterns m) of
        None \<Rightarrow> None
      | Some None \<Rightarrow> Some (- 1)
      | Some (Some i) \<Rightarrow> Some (int i))"

definition NewSpecMatcher :: "string list \<Rightarrow> string \<Rightarrow> Usage \<Rightarrow> bool \<Rightarrow> SpecMatcher option panics" where
  "NewSpecMatcher specs basePath usage caseSensitive =
     (if specs = [] then Some None
      else
        (case compile_specs basePath usage caseSensitive specs of
           None \<Rightarrow> None
         | Some ps \<Rightarrow> Some (if ps = [] then None else Some \<lparr>patterns = ps\<rparr>)))"

end
