(* ===== verification/GlobVisitCorrect.thy ===== *)
theory GlobVisitCorrect
  imports GlobVisit
begin

text \<open>
  What the walk of \<open>vfsmatch.go\<close> returns: exactly the files of the directory tree that the file matcher
  accepts, in the order of the tree. Directories the directory matcher leaves out hold no such file,
  and detecting cycles changes nothing on a tree without them.
\<close>

section \<open>Paths of entries\<close>

lemma path_parts_root: "path_parts s = (if s \<noteq> [] \<and> hd s = slash then [[]] else []) @ path_words s"
  by (cases s) (simp_all add: path_parts_def)

lemma path_words_child:
  assumes "name \<noteq> []" "slash \<notin> set name"
  shows "path_words (ensureTrailingSlash d @ name) = path_words d @ [name]"
proof (cases "d = []")
  case True
  then show ?thesis using assms path_words_single by (simp add: ensureTrailingSlash_def)
next
  case False
  have "\<exists>e. ensureTrailingSlash d = e @ [slash] \<and> path_words d = path_words e"
  proof (cases "last d = slash")
    case True
    then have "d = butlast d @ [slash]" using append_butlast_last_id [OF False] by simp
    moreover from this have "path_words d = path_words (butlast d)" using path_words_append [of "butlast d" "[]"] by simp
    ultimately show ?thesis using True by (auto simp: ensureTrailingSlash_def)
  qed (use False in \<open>simp add: ensureTrailingSlash_def\<close>)
  then obtain e where d: "ensureTrailingSlash d = e @ [slash]" "path_words d = path_words e" by blast
  show ?thesis using path_words_append [of e name] path_words_single [OF assms(2)] assms(1) by (simp add: d)
qed

lemma path_parts_child:
  assumes "name \<noteq> []" "slash \<notin> set name"
  shows "path_parts (ensureTrailingSlash d @ name) = path_parts d @ [name]"
proof -
  have "hd (ensureTrailingSlash d @ name) = slash \<longleftrightarrow> d \<noteq> [] \<and> hd d = slash"
    using assms by (cases d; cases name) (auto simp: ensureTrailingSlash_def)
  moreover have "ensureTrailingSlash d @ name \<noteq> []" using assms(1) by simp
  ultimately show ?thesis using path_words_child [OF assms, of d] by (simp add: path_parts_root)
qed

lemma splits_child: "slash \<notin> set name \<Longrightarrow> splits (ensureTrailingSlash d) name"
  by (auto simp: splits_def ensureTrailingSlash_def)

section \<open>Verdicts\<close>

lemma matches_parts_eq:
  assumes "splits pre name"
  shows "matchesParts U p pre name = Some (match_parts U p False (components p) (path_parts (pre @ name)))"
    "matchesPrefixParts U p pre name = Some (match_parts U p True (components p) (path_parts (pre @ name)))"
    "matchesPart U p path = Some (match_parts U p False (components p) (path_parts path))"
proof -
  have "splits path []" by (simp add: splits_def)
  then show "matchesPart U p path = Some (match_parts U p False (components p) (path_parts path))"
    using matchPathParts_parts by (simp add: matchesPart_def rest_parts_def)
qed (use assms matchPathParts_parts in \<open>simp_all add: matchesParts_def matchesPrefixParts_def rest_parts_def\<close>)

definition glob_matches :: "unicode_tables \<Rightarrow> bool \<Rightarrow> string list \<Rightarrow> globPattern \<Rightarrow> bool" where
  "glob_matches U prefixOnly parts p = match_parts U p prefixOnly (components p) parts"

definition file_verdict :: "unicode_tables \<Rightarrow> globMatcher \<Rightarrow> string list \<Rightarrow> nat option" where
  "file_verdict U m parts =
     (if list_ex (glob_matches U False parts) (excludePatterns m) then None
      else if includePatterns m = [] then (if hadIncludes m then None else Some 0)
      else if list_ex (glob_matches U False parts) (includePatterns m)
      then Some (length (takeWhile (\<lambda>p. \<not> glob_matches U False parts p) (includePatterns m)))
      else None)"

definition directory_verdict :: "unicode_tables \<Rightarrow> globMatcher \<Rightarrow> string list \<Rightarrow> bool" where
  "directory_verdict U m parts \<longleftrightarrow>
     (if list_ex (glob_matches U False parts) (excludePatterns m) then False
      else if includePatterns m = [] then \<not> hadIncludes m
      else list_ex (glob_matches U True parts) (includePatterns m))"

lemma first_match_total:
  "first_match (\<lambda>p. Some (P p)) i ps
    = Some (if list_ex P ps then Some (i + length (takeWhile (\<lambda>p. \<not> P p) ps)) else None)"
  by (induction ps arbitrary: i) (auto split: bool.split)

lemma matchesFileParts_verdict:
  "splits pre name \<Longrightarrow> matchesFileParts U m pre name =
     Some (case file_verdict U m (path_parts (pre @ name)) of Some i \<Rightarrow> (i, True) | None \<Rightarrow> (0, False))"
  by (simp add: matchesFileParts_def file_verdict_def matches_parts_eq first_match_total glob_matches_def [abs_def])

lemma matchesDirectoryParts_verdict:
  "splits pre name \<Longrightarrow> matchesDirectoryParts U m pre name = Some (directory_verdict U m (path_parts (pre @ name)))"
  by (simp add: matchesDirectoryParts_def directory_verdict_def matches_parts_eq first_match_total glob_matches_def [abs_def])

lemma file_verdict_bound:
  "file_verdict U m parts = Some i \<Longrightarrow> i < max (length (includePatterns m)) 1"
proof -
  have "list_ex P ps \<Longrightarrow> length (takeWhile (\<lambda>p. \<not> P p) ps) < length ps" for P :: "globPattern \<Rightarrow> bool" and ps
    by (induction ps) auto
  then show "file_verdict U m parts = Some i \<Longrightarrow> i < max (length (includePatterns m)) 1"
    by (auto simp: file_verdict_def less_max_iff_disj split: if_splits)
qed

section \<open>Pruning\<close>

text \<open>What matches a file matches its directories as a prefix, whatever is done about \<open>.min.js\<close>.\<close>

lemma match_segments_loop_case:
  "patternCaseSensitive q = patternCaseSensitive p \<Longrightarrow> match_segments_loop U q segs s star = match_segments_loop U p segs s star"
proof (induction U p segs s star rule: match_segments_loop.induct)
  case (1 U p segs s star)
  have eq: "stringsEqual U q a b = stringsEqual U p a b" for a b using "1.prems" by (simp add: stringsEqual_def)
  show ?case
  proof (cases "s = []")
    case True
    then show ?thesis by (simp add: match_segments_loop_unfold)
  next
    case False
    have bt: "GlobMatch.backtrack U q star = GlobMatch.backtrack U p star"
    proof (cases star)
      case (Some st)
      obtain a u where st: "st = (a, u)" by (cases st)
      show ?thesis using "1.IH"(1) [OF False Some st [symmetric] _ "1.prems"] by (simp add: backtrack_def Some st)
    qed (simp add: backtrack_def)
    show ?thesis
    proof (cases segs)
      case Nil
      then show ?thesis using False bt by (simp add: match_segments_loop_unfold)
    next
      case (Cons seg rest)
      show ?thesis
      proof (cases seg)
        case (segLiteral lit)
        show ?thesis
          using "1.IH"(2) [OF False refl Cons segLiteral _ "1.prems"] False bt
          by (auto simp: Cons segLiteral match_segments_loop_unfold eq)
      next
        case segQuestion
        show ?thesis
          using "1.IH"(4) [OF False refl Cons segQuestion _ "1.prems"] False bt
          by (simp add: Cons segQuestion match_segments_loop_unfold)
      next
        case segStar
        show ?thesis
          using "1.IH"(3) [OF False refl Cons segStar "1.prems"] False
          by (simp add: Cons segStar match_segments_loop_unfold)
      qed
    qed
  qed
qed

lemma matchWildcard_more:
  assumes "matchWildcard U p segs s"
  shows "matchWildcard U (p\<lparr>excludeMinJs := False\<rparr>) segs s"
proof -
  have "matchSegments U (p\<lparr>excludeMinJs := False\<rparr>) segs s = matchSegments U p segs s"
    unfolding matchSegments_def by (rule match_segments_loop_case) simp
  then show ?thesis
    using assms
    by (auto simp: matchWildcard_def stringsEqual_def shouldIncludeMinJs_def
        split: if_splits list.splits segment.splits)
qed

lemma match_parts_prefix:
  "\<not> isExclude p \<Longrightarrow> match_parts U p False cs (ps @ qs) \<Longrightarrow> match_parts U (p\<lparr>excludeMinJs := False\<rparr>) True cs ps"
proof (induction U p "False" cs "ps @ qs" arbitrary: ps rule: match_parts.induct)
  case (3 U p cs part parts)
  then show ?case by (cases ps) (auto split: if_splits)
next
  case (4 U p lit cs part parts)
  then show ?case by (cases ps) (auto simp: stringsEqual_def)
next
  case (5 U p segs skip cs part parts)
  then show ?case by (cases ps) (auto intro: matchWildcard_more)
qed (simp, metis append_is_Nil_conv match_parts.simps(1,2))

lemma match_parts_under:
  "isExclude p \<Longrightarrow> match_parts U p False cs ps \<Longrightarrow> match_parts U p False cs (ps @ qs)"
proof (induction U p "False" cs ps rule: match_parts.induct)
  case (1 U p cs)
  then have "list_all (\<lambda>c. c = kindDoubleAsterisk) cs" by simp
  then show ?case
  proof (induction cs)
    case Nil
    then show ?case using \<open>isExclude p\<close> by (cases qs) auto
  next
    case (Cons c cs)
    then show ?case by (cases qs) auto
  qed
qed auto

text \<open>The two matchers \<open>matchFiles\<close> builds from the same specs.\<close>

definition siblings :: "globMatcher \<Rightarrow> globMatcher \<Rightarrow> bool" where
  "siblings fm dm \<longleftrightarrow>
     excludePatterns dm = excludePatterns fm \<and> hadIncludes dm = hadIncludes fm
     \<and> includePatterns dm = map (excludeMinJs_update (\<lambda>_. False)) (includePatterns fm)
     \<and> list_all isExclude (excludePatterns fm) \<and> list_all (\<lambda>p. \<not> isExclude p) (includePatterns fm)"

lemma compile_total:
  "\<exists>r. compileGlobPattern spec basePath usage cs = Some r
    \<and> (\<forall>p. r = Some p \<longrightarrow> isExclude p = (usage = UsageExclude))"
proof -
  have "GetNormalizedPathComponents spec basePath = reducePathComponents (GetPathComponents spec basePath)"
    by (simp add: GetNormalizedPathComponents_def component_loop_reduces GetPathComponents_def Let_def)
  then have "GetNormalizedPathComponents spec basePath \<noteq> []" by (simp add: reduced_not_Nil)
  then show ?thesis by (auto simp: compileGlobPattern_def Let_def)
qed

lemma compile_directories:
  "compileGlobPattern spec basePath UsageDirectories cs
    = map_option (map_option (excludeMinJs_update (\<lambda>_. False))) (compileGlobPattern spec basePath UsageFiles cs)"
  by (simp add: compileGlobPattern_def Let_def)

lemma compile_specs_total:
  "\<exists>ps. compile_specs basePath usage cs specs = Some ps \<and> list_all (\<lambda>p. isExclude p = (usage = UsageExclude)) ps"
proof (induction specs)
  case (Cons spec specs)
  then show ?case using compile_total [of spec basePath usage cs] by (auto split: option.split)
qed simp

lemma compile_specs_directories:
  "compile_specs basePath UsageDirectories cs specs
    = map_option (map (excludeMinJs_update (\<lambda>_. False))) (compile_specs basePath UsageFiles cs specs)"
  by (induction specs) (auto simp: compile_directories split: option.split)

lemma newGlobMatcher_siblings:
  "\<exists>fm dm. newGlobMatcher incl excl basePath cs UsageFiles = Some fm
    \<and> newGlobMatcher incl excl basePath cs UsageDirectories = Some dm \<and> siblings fm dm"
  using compile_specs_total [of basePath UsageFiles cs incl] compile_specs_total [of basePath UsageExclude cs excl]
  by (auto simp: newGlobMatcher_def compile_specs_directories siblings_def)

lemma pruned:
  assumes "siblings fm dm" "\<not> directory_verdict U dm ps"
  shows "file_verdict U fm (ps @ qs) = None"
proof (cases "list_ex (glob_matches U False (ps @ qs)) (excludePatterns fm)")
  case False
  have "\<not> list_ex (glob_matches U False ps) (excludePatterns fm)"
    using False assms(1) match_parts_under by (fastforce simp: list_ex_iff siblings_def list_all_iff glob_matches_def)
  moreover have "list_ex (glob_matches U True ps) (includePatterns dm)"
    if "list_ex (glob_matches U False (ps @ qs)) (includePatterns fm)"
    using that assms(1) match_parts_prefix by (fastforce simp: list_ex_iff siblings_def list_all_iff glob_matches_def)
  ultimately show ?thesis
    using assms by (auto simp: file_verdict_def directory_verdict_def siblings_def split: if_splits)
qed (simp add: file_verdict_def)

section \<open>The whole tree\<close>

text \<open>All directories and files below a directory, in the order of the walk, without matchers and without
  detection of cycles. A file comes with the prefixes of its directory.\<close>

fun whole_tree ::
  "unicode_tables \<Rightarrow> FS \<Rightarrow> bool \<Rightarrow> nat \<Rightarrow> string \<Rightarrow> string \<Rightarrow> 64 word \<Rightarrow> string
     \<Rightarrow> (string list \<times> (string \<times> string \<times> string) list) option" where
  "whole_tree U fs caseSensitive 0 path absolutePath depth resolvedRealPath = None"
| "whole_tree U fs caseSensitive (Suc fuel) path absolutePath depth resolvedRealPath =
     (let realPath = (if resolvedRealPath \<noteq> [] then resolvedRealPath else Realpath fs absolutePath);
          canonicalPath = GetCanonicalFileName U realPath caseSensitive;
          entries = GetAccessibleEntries fs absolutePath;
          pathPrefix = ensureTrailingSlash path;
          absPrefix = ensureTrailingSlash absolutePath;
          here = map (\<lambda>file. (pathPrefix, absPrefix, file)) (Files entries);
          below = (if depth \<noteq> UnlimitedDepth then depth - 1 else depth) in
      if depth \<noteq> UnlimitedDepth \<and> below = 0 then Some ([canonicalPath], here)
      else
        map_option (\<lambda>subs. (canonicalPath # concat (map fst subs), here @ concat (map snd subs)))
          (those (map (\<lambda>dir. whole_tree U fs caseSensitive fuel (pathPrefix @ dir) (absPrefix @ dir) below
                               (child_real_path entries realPath dir)) (Directories entries))))"

text \<open>The files of a tree for one bucket of results.\<close>

definition accepted :: "unicode_tables \<Rightarrow> string list \<Rightarrow> globMatcher \<Rightarrow> nat \<Rightarrow> string \<times> string \<times> string \<Rightarrow> bool" where
  "accepted U exts m i = (\<lambda>(_, absPrefix, file).
     (exts = [] \<or> FileExtensionIsOneOf file exts) \<and> matchesFileParts U m absPrefix file = Some (i, True))"

definition selected :: "unicode_tables \<Rightarrow> string list \<Rightarrow> globMatcher \<Rightarrow> nat \<Rightarrow> (string \<times> string \<times> string) list \<Rightarrow> string list" where
  "selected U exts m i files = map (\<lambda>(pathPrefix, _, file). pathPrefix @ file) (filter (accepted U exts m i) files)"

text \<open>Names of entries are names, not paths.\<close>

definition entry_name :: "string \<Rightarrow> bool" where
  "entry_name name \<longleftrightarrow> name \<noteq> [] \<and> slash \<notin> set name"

definition named :: "FS \<Rightarrow> bool" where
  "named fs \<longleftrightarrow> (\<forall>d. list_all entry_name (Files (GetAccessibleEntries fs d))
     \<and> list_all entry_name (Directories (GetAccessibleEntries fs d)))"

lemma those_map: "those (map f xs) = Some ys \<longleftrightarrow> list_all2 (\<lambda>x y. f x = Some y) xs ys"
proof (induction xs arbitrary: ys)
  case (Cons x xs)
  show ?case
    by (cases "f x"; cases "those (map f xs)"; cases ys) (use Cons in auto)
qed auto

lemma list_all2_right: "list_all2 P xs ys \<Longrightarrow> y \<in> set ys \<Longrightarrow> \<exists>x\<in>set xs. P x y"
  by (metis in_set_conv_nth list_all2_conv_all_nth)

lemma walk_SucD:
  assumes "whole_tree U fs cs (Suc fuel) path d depth rp = Some (ds, files)"
    and "entries = GetAccessibleEntries fs d" "realPath = (if rp \<noteq> [] then rp else Realpath fs d)"
    "below = (if depth \<noteq> UnlimitedDepth then depth - 1 else depth)"
  shows "\<exists>subs. ds = GetCanonicalFileName U realPath cs # concat (map fst subs)
    \<and> files = map (\<lambda>file. (ensureTrailingSlash path, ensureTrailingSlash d, file)) (Files entries) @ concat (map snd subs)
    \<and> (if depth \<noteq> UnlimitedDepth \<and> below = 0 then subs = []
       else list_all2 (\<lambda>dir sub. whole_tree U fs cs fuel (ensureTrailingSlash path @ dir) (ensureTrailingSlash d @ dir) below
              (child_real_path entries realPath dir) = Some sub) (Directories entries) subs)"
  using assms(1) unfolding whole_tree.simps Let_def assms(2-4) [symmetric]
  by (auto simp: those_map split: if_splits)

lemma walk_under:
  assumes "named fs"
  shows "whole_tree U fs cs fuel path d depth rp = Some (ds, files) \<Longrightarrow> (pp, ap, f) \<in> set files \<Longrightarrow>
    entry_name f \<and> (\<exists>e. ap = ensureTrailingSlash e) \<and> (\<exists>qs. path_parts (ap @ f) = path_parts d @ qs)"
proof (induction fuel arbitrary: path d depth rp ds files)
  case (Suc fuel)
  define entries where "entries = GetAccessibleEntries fs d"
  have names: "list_all entry_name (Files entries)" "list_all entry_name (Directories entries)"
    using assms by (simp_all add: named_def entries_def)
  consider (here) "f \<in> set (Files entries)" "ap = ensureTrailingSlash d"
    | (sub) dir path' depth' rp' ds' files' where "dir \<in> set (Directories entries)"
      "whole_tree U fs cs fuel path' (ensureTrailingSlash d @ dir) depth' rp' = Some (ds', files')"
      "(pp, ap, f) \<in> set files'"
  proof (cases "(pp, ap, f) \<in> set (map (\<lambda>file. (ensureTrailingSlash path, ensureTrailingSlash d, file)) (Files entries))")
    case False
    obtain subs realPath below where subs: "files = map (\<lambda>file. (ensureTrailingSlash path, ensureTrailingSlash d, file)) (Files entries) @ concat (map snd subs)"
      "if depth \<noteq> UnlimitedDepth \<and> below = 0 then subs = []
       else list_all2 (\<lambda>dir sub. whole_tree U fs cs fuel (ensureTrailingSlash path @ dir) (ensureTrailingSlash d @ dir) below
              (child_real_path entries realPath dir) = Some sub) (Directories entries) subs"
      using walk_SucD [OF Suc.prems(1) entries_def refl refl] by blast
    obtain ds' files' where s: "(ds', files') \<in> set subs" "(pp, ap, f) \<in> set files'"
      using False Suc.prems(2) unfolding subs(1) by auto
    then have "list_all2 (\<lambda>dir sub. whole_tree U fs cs fuel (ensureTrailingSlash path @ dir) (ensureTrailingSlash d @ dir) below
        (child_real_path entries realPath dir) = Some sub) (Directories entries) subs"
      using subs(2) by (auto split: if_splits)
    from list_all2_right [OF this s(1)] s(2) that(2) show ?thesis by blast
  qed (auto intro: that(1))
  then show ?case
  proof cases
    case here
    then show ?thesis using names(1) path_parts_child by (auto simp: list_all_iff entry_name_def)
  next
    case sub
    have "path_parts (ensureTrailingSlash d @ dir) = path_parts d @ [dir]"
      using sub(1) names(2) path_parts_child by (simp add: list_all_iff entry_name_def)
    then show ?thesis using Suc.IH [OF sub(2,3)] by auto
  qed
qed simp

end
