(* ===== verification/GlobWalk.thy ===== *)
theory GlobWalk
  imports GlobVisitCorrect
begin

text \<open>
  \<open>matchFiles\<close> of \<open>vfsmatch.go\<close> against the whole tree of directories: the walk that prunes and looks for
  cycles collects what filtering all files of the tree gives.
\<close>

section \<open>Collecting results\<close>

definition grow :: "unicode_tables \<Rightarrow> globVisitor \<Rightarrow> (string \<times> string \<times> string) list \<Rightarrow> globVisitor" where
  "grow U v files = v\<lparr>results :=
     map (\<lambda>i. results v ! i @ selected U (extensions v) (fileMatcher v) i files) [0..<length (results v)]\<rparr>"

lemma selected_simps [simp]:
  "selected U exts m i [] = []"
  "selected U exts m i (as @ bs) = selected U exts m i as @ selected U exts m i bs"
  by (simp_all add: selected_def)

lemma grow_simps [simp]:
  "host (grow U v files) = host v" "fileMatcher (grow U v files) = fileMatcher v"
  "directoryMatcher (grow U v files) = directoryMatcher v" "extensions (grow U v files) = extensions v"
  "useCaseSensitiveFileNames (grow U v files) = useCaseSensitiveFileNames v"
  "visited (grow U v files) = visited v" "length (results (grow U v files)) = length (results v)"
  by (simp_all add: grow_def)

lemma grow_Nil [simp]: "grow U v [] = v"
  by (simp add: grow_def map_nth)

lemma grow_append: "grow U (grow U v as) bs = grow U v (as @ bs)"
  by (simp add: grow_def)

lemma grow_visited: "grow U (v\<lparr>visited := V\<rparr>) files = (grow U v files)\<lparr>visited := V\<rparr>"
  by (simp add: grow_def)

definition fits :: "FS \<Rightarrow> bool \<Rightarrow> globMatcher \<Rightarrow> globMatcher \<Rightarrow> globVisitor \<Rightarrow> bool" where
  "fits fs caseSensitive fm dm v \<longleftrightarrow>
     host v = fs \<and> useCaseSensitiveFileNames v = caseSensitive \<and> fileMatcher v = fm \<and> directoryMatcher v = dm
     \<and> length (results v) = max (length (includePatterns fm)) 1"

lemma fits_simps [simp]:
  "fits fs cs fm dm (grow U v files) = fits fs cs fm dm v"
  "fits fs cs fm dm (v\<lparr>visited := V\<rparr>) = fits fs cs fm dm v"
  by (auto simp: fits_def)

lemma grow_single:
  assumes "fits fs cs fm dm v" "slash \<notin> set f"
  shows "visit_files U pp (ensureTrailingSlash d) (f # files) v
    = visit_files U pp (ensureTrailingSlash d) files (grow U v [(pp, ensureTrailingSlash d, f)])"
proof (cases "extensions v \<noteq> [] \<and> \<not> FileExtensionIsOneOf f (extensions v)")
  case True
  then have "selected U (extensions v) (fileMatcher v) i [(pp, ensureTrailingSlash d, f)] = []" for i
    by (auto simp: selected_def accepted_def)
  then have "grow U v [(pp, ensureTrailingSlash d, f)] = v" by (simp add: grow_def map_nth)
  then show ?thesis using True by simp
next
  case ext: False
  let ?v = "file_verdict U fm (path_parts (ensureTrailingSlash d @ f))"
  have verdict: "matchesFileParts U fm (ensureTrailingSlash d) f = Some (case ?v of Some i \<Rightarrow> (i, True) | None \<Rightarrow> (0, False))"
    using matchesFileParts_verdict splits_child assms(2) by blast
  have fm: "fileMatcher v = fm" using assms(1) by (simp add: fits_def)
  have sel: "selected U (extensions v) fm i [(pp, ensureTrailingSlash d, f)] = (if ?v = Some i then [pp @ f] else [])" for i
    using ext by (auto simp: selected_def accepted_def verdict split: option.splits)
  show ?thesis
  proof (cases ?v)
    case None
    then have "grow U v [(pp, ensureTrailingSlash d, f)] = v" by (simp add: grow_def sel fm map_nth)
    then show ?thesis using ext verdict None fm by simp
  next
    case (Some k)
    then have k: "k < length (results v)" using file_verdict_bound assms(1) by (auto simp: fits_def)
    have "grow U v [(pp, ensureTrailingSlash d, f)] = v\<lparr>results := (results v)[k := results v ! k @ [pp @ f]]\<rparr>"
      by (auto simp: grow_def sel fm Some intro!: globVisitor.fold_congs nth_equalityI simp: nth_list_update)
    then show ?thesis using ext verdict Some fm k by auto
  qed
qed

lemma visit_files_grow:
  "fits fs cs fm dm v \<Longrightarrow> list_all entry_name files \<Longrightarrow>
    visit_files U pp (ensureTrailingSlash d) files v
      = Some (grow U v (map (\<lambda>f. (pp, ensureTrailingSlash d, f)) files))"
proof (induction files arbitrary: v)
  case (Cons f files)
  then have "visit_files U pp (ensureTrailingSlash d) (f # files) v
    = Some (grow U (grow U v [(pp, ensureTrailingSlash d, f)]) (map (\<lambda>f. (pp, ensureTrailingSlash d, f)) files))"
    using grow_single by (simp add: entry_name_def del: visit_files.simps)
  then show ?case unfolding grow_append by simp
qed simp

section \<open>The walk\<close>

definition outcome ::
  "unicode_tables \<Rightarrow> globVisitor \<Rightarrow> string list \<times> (string \<times> string \<times> string) list \<Rightarrow> globVisitor option \<Rightarrow> bool" where
  "outcome U v sub r \<longleftrightarrow>
     (\<exists>V. V \<subseteq> visited v \<union> set (fst sub) \<and> r = Some ((grow U v (snd sub))\<lparr>visited := V\<rparr>))"

lemma fold_outcome:
  assumes "list_all2 P xs subs"
    and "\<And>x sub w. P x sub \<Longrightarrow> x \<in> set xs \<Longrightarrow> fits fs cs fm dm w \<Longrightarrow> distinct (fst sub)
      \<Longrightarrow> set (fst sub) \<inter> visited w = {} \<Longrightarrow> outcome U w sub (body x w)"
    and "fits fs cs fm dm v" "distinct (concat (map fst subs))" "set (concat (map fst subs)) \<inter> visited v = {}"
  shows "outcome U v (concat (map fst subs), concat (map snd subs)) (fold_panics body xs v)"
  using assms
proof (induction xs subs arbitrary: v rule: list_all2_induct)
  case Nil
  then show ?case by (auto simp: outcome_def intro!: exI [of _ "visited v"])
next
  case (Cons x xs sub subs)
  have "outcome U v sub (body x v)"
    by (rule Cons.prems(1)) (use Cons in auto)
  then obtain V where V: "V \<subseteq> visited v \<union> set (fst sub)" "body x v = Some ((grow U v (snd sub))\<lparr>visited := V\<rparr>)"
    unfolding outcome_def by blast
  let ?w = "(grow U v (snd sub))\<lparr>visited := V\<rparr>" and ?S = "set (concat (map fst subs))"
  have "set (fst sub) \<inter> ?S = {}" "(set (fst sub) \<union> ?S) \<inter> visited v = {}"
    using Cons.prems(3,4) unfolding list.map concat.simps distinct_append set_append by blast+
  then have fresh: "?S \<inter> visited ?w = {}" using V(1) by auto
  have "outcome U ?w (concat (map fst subs), concat (map snd subs)) (fold_panics body xs ?w)"
  proof (rule Cons.IH)
    show "outcome U w s (body y w)"
      if "P y s" "y \<in> set xs" "fits fs cs fm dm w" "distinct (fst s)" "set (fst s) \<inter> visited w = {}" for y s w
      by (rule Cons.prems(1)) (use that in auto)
    show "?S \<inter> visited ?w = {}" by (rule fresh)
  qed (use Cons.prems in auto)
  then obtain W where "W \<subseteq> V \<union> set (concat (map fst subs))"
    "fold_panics body xs ?w = Some ((grow U ?w (concat (map snd subs)))\<lparr>visited := W\<rparr>)"
    by (auto simp: outcome_def)
  then show ?case
    using V by (auto simp: outcome_def grow_visited grow_append intro!: exI [of _ W])
qed

text \<open>Nothing is lost by a directory that is left out.\<close>

lemma pruned_directory:
  assumes "named fs" "siblings fm dm" "fits fs cs fm dm w" "\<not> directory_verdict U dm (path_parts d)"
    and "whole_tree U fs cs fuel path d depth rp = Some sub"
  shows "outcome U w sub (Some w)"
proof -
  have "\<not> accepted U (extensions w) fm i (pp, ap, f)" if "(pp, ap, f) \<in> set (snd sub)" for i pp ap f
  proof -
    obtain e qs where f: "entry_name f" "ap = ensureTrailingSlash e" "path_parts (ap @ f) = path_parts d @ qs"
      using walk_under [OF assms(1)] assms(5) \<open>(pp, ap, f) \<in> set (snd sub)\<close> by (metis prod.collapse)
    then have "file_verdict U fm (path_parts (ap @ f)) = None" using pruned [OF assms(2,4)] by simp
    moreover have "splits ap f" using f splits_child by (simp add: entry_name_def)
    ultimately show ?thesis by (simp add: accepted_def matchesFileParts_verdict)
  qed
  then have "selected U (extensions w) fm i (snd sub) = []" for i
    unfolding selected_def by (auto simp: filter_empty_conv)
  moreover have "fileMatcher w = fm" using assms(3) by (simp add: fits_def)
  ultimately have "grow U w (snd sub) = w" by (simp add: grow_def map_nth)
  then show ?thesis by (auto simp: outcome_def intro!: exI [of _ "visited w"])
qed

lemma visit_walk:
  assumes "named fs" "siblings fm dm"
  shows "whole_tree U fs cs fuel path d depth rp = Some sub \<Longrightarrow> fits fs cs fm dm v \<Longrightarrow> distinct (fst sub)
    \<Longrightarrow> set (fst sub) \<inter> visited v = {} \<Longrightarrow> outcome U v sub (visit U fuel path d depth rp v)"
proof (induction fuel arbitrary: path d depth rp sub v)
  case (Suc fuel)
  define entries where "entries = GetAccessibleEntries fs d"
  define realPath where "realPath = (if rp \<noteq> [] then rp else Realpath fs d)"
  define c where "c = GetCanonicalFileName U realPath cs"
  define below where "below = (if depth \<noteq> UnlimitedDepth then depth - 1 else depth)"
  define here where "here = map (\<lambda>file. (ensureTrailingSlash path, ensureTrailingSlash d, file)) (Files entries)"
  define body where "body = (\<lambda>dir w.
    case matchesDirectoryParts U (directoryMatcher w) (ensureTrailingSlash d) dir of
      None \<Rightarrow> None
    | Some False \<Rightarrow> Some w
    | Some True \<Rightarrow> visit U fuel (ensureTrailingSlash path @ dir) (ensureTrailingSlash d @ dir) below
        (child_real_path entries realPath dir) w)"
  let ?walk = "\<lambda>dir sub. whole_tree U fs cs fuel (ensureTrailingSlash path @ dir) (ensureTrailingSlash d @ dir) below
        (child_real_path entries realPath dir) = Some sub"
  obtain ds files where sub: "sub = (ds, files)" by (cases sub)
  obtain subs where subs: "ds = c # concat (map fst subs)" "files = here @ concat (map snd subs)"
    "if depth \<noteq> UnlimitedDepth \<and> below = 0 then subs = [] else list_all2 ?walk (Directories entries) subs"
    using walk_SucD [OF Suc.prems(1) [unfolded sub] entries_def realPath_def below_def]
    unfolding c_def here_def by blast
  have names: "list_all entry_name (Files entries)" "list_all entry_name (Directories entries)"
    using assms(1) by (simp_all add: named_def entries_def)
  define w where "w = (grow U v here)\<lparr>visited := insert c (visited v)\<rparr>"
  have fits: "fits fs cs fm dm w" using Suc.prems(2) by (simp add: w_def)
  have files: "visit_files U (ensureTrailingSlash path) (ensureTrailingSlash d) (Files entries) (v\<lparr>visited := insert c (visited v)\<rparr>)
    = Some w"
    using visit_files_grow [OF _ names(1), of fs cs fm dm] Suc.prems(2) by (simp add: here_def w_def grow_visited)
  have fresh: "c \<notin> visited v" using Suc.prems(4) by (simp add: sub subs(1))
  have v: "host v = fs" "useCaseSensitiveFileNames v = cs" using Suc.prems(2) by (simp_all add: fits_def)
  have visit: "visit U (Suc fuel) path d depth rp v =
      (if depth \<noteq> UnlimitedDepth \<and> below = 0 then Some w else fold_panics body (Directories entries) w)"
    unfolding visit.simps Let_def v realPath_def [symmetric] c_def [symmetric] below_def [symmetric]
      entries_def [symmetric] if_not_P [OF fresh] files option.case body_def ..
  show ?case
  proof (cases "depth \<noteq> UnlimitedDepth \<and> below = 0")
    case True
    then have "subs = []" using subs(3) by simp
    then show ?thesis
      unfolding visit if_P [OF True] w_def
      by (auto simp: outcome_def sub subs(1,2) intro!: exI [of _ "insert c (visited v)"])
  next
    case False
    then have rec: "list_all2 ?walk (Directories entries) subs" using subs(3) by (simp split: if_splits)
    have "outcome U w (concat (map fst subs), concat (map snd subs)) (fold_panics body (Directories entries) w)"
    proof (rule fold_outcome [OF rec _ fits])
      fix dir t x
      assume t: "?walk dir t" "dir \<in> set (Directories entries)" "fits fs cs fm dm x" "distinct (fst t)"
        "set (fst t) \<inter> visited x = {}"
      have "splits (ensureTrailingSlash d) dir" using t(2) names(2) splits_child by (simp add: list_all_iff entry_name_def)
      then have dm: "matchesDirectoryParts U (directoryMatcher x) (ensureTrailingSlash d) dir
        = Some (directory_verdict U dm (path_parts (ensureTrailingSlash d @ dir)))"
        using matchesDirectoryParts_verdict t(3) by (simp add: fits_def)
      show "outcome U x t (body dir x)"
        using Suc.IH [OF t(1,3,4,5)] pruned_directory [OF assms t(3) _ t(1)]
        by (cases "directory_verdict U dm (path_parts (ensureTrailingSlash d @ dir))") (simp_all add: body_def dm)
    qed (use Suc.prems(3,4) in \<open>auto simp: sub subs(1) w_def\<close>)
    then obtain V where "V \<subseteq> insert c (visited v) \<union> set (concat (map fst subs))"
      "fold_panics body (Directories entries) w = Some ((grow U w (concat (map snd subs)))\<lparr>visited := V\<rparr>)"
      by (auto simp: outcome_def w_def)
    then show ?thesis
      unfolding visit if_not_P [OF False]
      by (auto simp: outcome_def sub subs(1,2) w_def grow_visited grow_append intro!: exI [of _ V])
  qed
qed simp

section \<open>All base paths\<close>

lemma matchFiles_tree:
  assumes "named fs"
    and "those (map (\<lambda>basePath. whole_tree U fs cs fuel basePath (CombinePaths (NormalizePath cwd) [basePath]) depth [])
           (getBasePaths U (NormalizePath path) incl cs)) = Some trees"
    and "distinct (concat (map fst trees))"
  shows "\<exists>fm. newGlobMatcher incl excl (CombinePaths (NormalizePath cwd) [NormalizePath path]) cs UsageFiles = Some fm
    \<and> matchFiles U fuel path exts excl incl cs cwd depth fs
        = Some (concat (map (\<lambda>i. selected U exts fm i (concat (map snd trees))) [0..<max (length (includePatterns fm)) 1]))"
proof -
  obtain fm dm where m: "newGlobMatcher incl excl (CombinePaths (NormalizePath cwd) [NormalizePath path]) cs UsageFiles = Some fm"
    "newGlobMatcher incl excl (CombinePaths (NormalizePath cwd) [NormalizePath path]) cs UsageDirectories = Some dm"
    "siblings fm dm"
    using newGlobMatcher_siblings by metis
  define v where "v = \<lparr>host = fs, fileMatcher = fm, directoryMatcher = dm, extensions = exts,
    useCaseSensitiveFileNames = cs, visited = {},
    results = replicate (max (length (includePatterns fm)) 1) []\<rparr>"
  have fits: "fits fs cs fm dm v" by (simp add: fits_def v_def)
  have "outcome U v (concat (map fst trees), concat (map snd trees))
    (fold_panics (\<lambda>basePath w. visit U fuel basePath (CombinePaths (NormalizePath cwd) [basePath]) depth [] w)
       (getBasePaths U (NormalizePath path) incl cs) v)"
    by (rule fold_outcome [OF assms(2) [unfolded those_map] visit_walk [OF assms(1) m(3)] fits assms(3)])
      (simp_all add: v_def)
  then obtain V where V: "fold_panics (\<lambda>basePath w. visit U fuel basePath (CombinePaths (NormalizePath cwd) [basePath]) depth [] w)
       (getBasePaths U (NormalizePath path) incl cs) v = Some ((grow U v (concat (map snd trees)))\<lparr>visited := V\<rparr>)"
    by (auto simp: outcome_def)
  have single: "(if length xs = 1 then xs ! 0 else concat xs) = concat xs" for xs :: "string list list"
    by (cases xs) auto
  have "results (grow U v (concat (map snd trees)))
    = map (\<lambda>i. selected U exts fm i (concat (map snd trees))) [0..<max (length (includePatterns fm)) 1]"
    by (simp add: grow_def v_def)
  then have "matchFiles U fuel path exts excl incl cs cwd depth fs
    = Some (concat (map (\<lambda>i. selected U exts fm i (concat (map snd trees))) [0..<max (length (includePatterns fm)) 1]))"
    unfolding matchFiles_def Let_def m option.case v_def [symmetric] V single by simp
  with m(1) show ?thesis by blast
qed

section \<open>Properties\<close>

text \<open>C39: A path given as a directory, empty or with its slash, and the name of an entry is matched without a panic
  and as the path the two make together, although the code never joins them: the outcome is that of
  a recursion over the components of the glob and the parts of the joined path, for files and,
  with \<open>prefixOnly\<close>, for directories.\<close>
theorem matchesParts_joined:
  assumes "splits pre name"
  shows "matchesParts U p pre name = matchesPart U p (pre @ name)
    \<and> matchesParts U p pre name = Some (match_parts U p False (components p) (path_parts (pre @ name)))
    \<and> matchesPrefixParts U p pre name = Some (match_parts U p True (components p) (path_parts (pre @ name)))"
  using matches_parts_eq [OF assms] by simp

definition glob_of :: "string \<Rightarrow> globPattern" where
  "glob_of spec = the (the (compileGlobPattern spec ''/p'' UsageFiles True))"

theorem matchesParts_joined_witness:
  "matchesParts plain_tables (glob_of ''src/**/*.ts'') ''/p/src/a/b/'' ''m.ts''
     = matchesPart plain_tables (glob_of ''src/**/*.ts'') ''/p/src/a/b/m.ts''
   \<and> match_parts plain_tables (glob_of ''src/**/*.ts'') False (components (glob_of ''src/**/*.ts''))
       [[], ''p'', ''src'', ''a'', ''b'', ''m.ts'']"
proof -
  have "splits ''/p/src/a/b/'' ''m.ts''" by code_simp
  note matchesParts_joined [OF this, of plain_tables "glob_of ''src/**/*.ts''"]
  moreover have "path_parts (''/p/src/a/b/'' @ ''m.ts'') = [[], ''p'', ''src'', ''a'', ''b'', ''m.ts'']" by code_simp
  moreover have "matchesParts plain_tables (glob_of ''src/**/*.ts'') ''/p/src/a/b/'' ''m.ts'' = Some True" by code_simp
  ultimately show ?thesis by simp
qed

text \<open>C38: Reading a directory returns exactly the files of the whole tree below the base paths that the file matcher
  accepts, bucket by bucket and in the order of the tree: no directory that is left out holds one,
  looking for cycles drops none, nothing panics and the fuel suffices, whenever the tree has no cycle
  (no canonical directory comes twice) and is not deeper than the fuel.\<close>
theorem matchFiles_whole_tree:
  assumes "named fs"
    and "those (map (\<lambda>basePath. whole_tree U fs cs fuel basePath (CombinePaths (NormalizePath cwd) [basePath]) depth [])
           (getBasePaths U (NormalizePath path) incl cs)) = Some trees"
    and "distinct (concat (map fst trees))"
  shows "\<exists>fm. newGlobMatcher incl excl (CombinePaths (NormalizePath cwd) [NormalizePath path]) cs UsageFiles = Some fm
    \<and> matchFiles U fuel path exts excl incl cs cwd depth fs
        = Some (concat (map (\<lambda>i. selected U exts fm i (concat (map snd trees))) [0..<max (length (includePatterns fm)) 1]))"
  by (rule matchFiles_tree [OF assms])

definition no_entries :: Entries where
  "no_entries = \<lparr>Files = [], Directories = [], Symlinks = None\<rparr>"

definition example_fs :: FS where
  "example_fs = \<lparr>FS_UseCaseSensitiveFileNames = True, Realpath = (\<lambda>p. p),
     GetAccessibleEntries = (\<lambda>p.
       if p = ''/p'' then \<lparr>Files = [''b.ts'', ''a.js'', ''x.min.js''], Directories = [''src'', ''lib''], Symlinks = Some []\<rparr>
       else if p = ''/p/src'' then \<lparr>Files = [''m.ts'', ''.h.ts''], Directories = [''t''], Symlinks = None\<rparr>
       else if p = ''/p/src/t'' then \<lparr>Files = [''u.ts''], Directories = [], Symlinks = None\<rparr>
       else if p = ''/p/lib'' then \<lparr>Files = [''q.ts''], Directories = [], Symlinks = None\<rparr>
       else no_entries)\<rparr>"

definition example_trees :: "(string list \<times> (string \<times> string \<times> string) list) list" where
  "example_trees = the (those (map (\<lambda>basePath.
     whole_tree plain_tables example_fs True 3 basePath (CombinePaths (NormalizePath ''/p'') [basePath]) UnlimitedDepth [])
       (getBasePaths plain_tables (NormalizePath ''/p'') [''*.ts'', ''src''] True)))"

definition example_read :: "string list option" where
  "example_read =
     matchFiles plain_tables 3 ''/p'' [''.ts''] [''src/t''] [''*.ts'', ''src''] True ''/p'' UnlimitedDepth example_fs"

theorem matchFiles_whole_tree_witness:
  "(\<exists>fm. newGlobMatcher [''*.ts'', ''src''] [''src/t''] (CombinePaths (NormalizePath ''/p'') [NormalizePath ''/p'']) True UsageFiles = Some fm
     \<and> example_read = Some (concat (map (\<lambda>i. selected plain_tables [''.ts''] fm i (concat (map snd example_trees)))
                              [0..<max (length (includePatterns fm)) 1])))
   \<and> example_read = Some [''/p/b.ts'', ''/p/src/m.ts'']
   \<and> map fst example_trees = [[''/p'', ''/p/src'', ''/p/src/t'', ''/p/lib'']]"
proof (intro conjI)
  have fs: "named example_fs" by (simp add: named_def entry_name_def example_fs_def no_entries_def)
  have trees: "those (map (\<lambda>basePath.
      whole_tree plain_tables example_fs True 3 basePath (CombinePaths (NormalizePath ''/p'') [basePath]) UnlimitedDepth [])
        (getBasePaths plain_tables (NormalizePath ''/p'') [''*.ts'', ''src''] True)) = Some example_trees"
    by code_simp
  have dirs: "distinct (concat (map fst example_trees))" by code_simp
  show "\<exists>fm. newGlobMatcher [''*.ts'', ''src''] [''src/t''] (CombinePaths (NormalizePath ''/p'') [NormalizePath ''/p'']) True UsageFiles = Some fm
     \<and> example_read = Some (concat (map (\<lambda>i. selected plain_tables [''.ts''] fm i (concat (map snd example_trees)))
                              [0..<max (length (includePatterns fm)) 1]))"
    unfolding example_read_def by (rule matchFiles_whole_tree [OF fs trees dirs])
  show "example_read = Some [''/p/b.ts'', ''/p/src/m.ts'']" by code_simp
  show "map fst example_trees = [[''/p'', ''/p/src'', ''/p/src/t'', ''/p/lib'']]" by code_simp
qed

end
